(* ===== verification/Prelude.thy ===== *)
theory Prelude
  imports Main "HOL-Library.Word" "HOL-Library.AList"
begin

text \<open>
  Shared vocabulary of the development: the machine integers of the Rust sources, the
  overflow-aware arithmetic of the Rust and \<open>ruint\<close> integer types, and the two map
  containers.

  A \<open>HashMap\<close> is the association list of its entries in iteration order. Rust leaves that order
  unspecified; a theorem about an arbitrary list therefore covers every order. \<open>insert\<close> is
  \<open>AList.update\<close> (an existing key keeps its position, a new one goes last), \<open>remove\<close> is
  \<open>AList.delete\<close>, \<open>get\<close> is \<open>map_of\<close>, and \<open>hm_wf\<close> says that no key occurs twice. A
  \<open>HashSet\<close> is a HOL set. A \<open>BTreeMap\<close> is the association list of its entries in ascending
  key order (\<open>bm_insert\<close>, \<open>bm_wf\<close>).
\<close>

named_theorems hm_simps \<open>lookup laws of the map containers\<close>

unbundle bit_operations_syntax

section \<open>Machine integers\<close>

type_synonym u8 = "8 word"
type_synonym u16 = "16 word"
type_synonym u32 = "32 word"
type_synonym u64 = "64 word"
type_synonym u128 = "128 word"
type_synonym u160 = "160 word"
type_synonym u256 = "256 word"
type_synonym i24 = "24 word"

type_synonym address = "160 word"
type_synonym block_hash = "256 word"
type_synonym bloom = "2048 word"

definition checked_add :: "'a::len word \<Rightarrow> 'a word \<Rightarrow> 'a word option" where
  "checked_add a b = (if uint a + uint b < 2 ^ LENGTH('a) then Some (a + b) else None)"

definition checked_sub :: "'a::len word \<Rightarrow> 'a word \<Rightarrow> 'a word option" where
  "checked_sub a b = (if b \<le> a then Some (a - b) else None)"

definition saturating_add :: "'a::len word \<Rightarrow> 'a word \<Rightarrow> 'a word" where
  "saturating_add a b = (if uint a + uint b < 2 ^ LENGTH('a) then a + b else - 1)"

definition saturating_sub :: "'a::len word \<Rightarrow> 'a word \<Rightarrow> 'a word" where
  "saturating_sub a b = (if b \<le> a then a - b else 0)"

lemma uint_add_bounded:
  "uint a + uint b < 2 ^ LENGTH('a) \<Longrightarrow> uint (a + b) = uint a + uint (b :: 'a::len word)"
  by (simp add: uint_add_lem)

lemma uint_sub_bounded: "b \<le> a \<Longrightarrow> uint (a - b) = uint a - uint (b :: 'a::len word)"
  by (simp add: uint_sub_lem word_le_def)

lemma uint_plus_one: "n \<noteq> - 1 \<Longrightarrow> uint (n + 1) = uint (n :: 'a::len word) + 1"
proof -
  assume "n \<noteq> - 1"
  then have "uint n \<noteq> 2 ^ LENGTH('a) - 1"
    by (simp add: word_uint_eq_iff unsigned_minus_1_eq_mask mask_eq_exp_minus_1)
  with uint_lt2p [of n] have "uint n + 1 < 2 ^ LENGTH('a)" by linarith
  then have "uint n + uint (1 :: 'a word) < 2 ^ LENGTH('a)" by simp
  then show ?thesis by (simp only: uint_add_bounded) simp
qed

lemma word_less_next: "n \<noteq> - 1 \<Longrightarrow> (i :: 'a::len word) \<le> n \<Longrightarrow> i < n + 1"
  by (simp add: word_less_def word_le_def uint_plus_one)

lemma checked_add_Some_iff:
  "checked_add a b = Some c \<longleftrightarrow> uint c = uint a + uint (b :: 'a::len word)"
proof
  assume "checked_add a b = Some c"
  then show "uint c = uint a + uint b"
    by (auto simp: checked_add_def uint_add_bounded split: if_splits)
next
  assume c: "uint c = uint a + uint b"
  then have "uint a + uint b < 2 ^ LENGTH('a)" by (metis uint_lt2p)
  with c show "checked_add a b = Some c"
    by (simp add: checked_add_def word_uint_eq_iff uint_add_bounded)
qed

lemma checked_sub_Some_iff:
  "checked_sub a b = Some c \<longleftrightarrow> uint a = uint c + uint (b :: 'a::len word)"
proof
  assume "checked_sub a b = Some c"
  then show "uint a = uint c + uint b"
    by (auto simp: checked_sub_def uint_sub_bounded split: if_splits)
next
  assume c: "uint a = uint c + uint b"
  then have le: "b \<le> a" by (simp add: word_le_def)
  with c show "checked_sub a b = Some c"
    by (simp add: checked_sub_def word_uint_eq_iff uint_sub_bounded)
qed

lemma checked_add_then_sub: "checked_add a b = Some c \<Longrightarrow> checked_sub c b = Some a"
  by (simp add: checked_add_Some_iff checked_sub_Some_iff)

lemma uint_saturating_add:
  "uint (saturating_add a b) = min (uint a + uint b) (2 ^ LENGTH('a) - 1)"
  for a b :: "'a::len word"
  by (auto simp: saturating_add_def uint_add_bounded unsigned_minus_1_eq_mask mask_eq_exp_minus_1)

lemma uint_saturating_sub: "uint (saturating_sub a b) = max 0 (uint a - uint b)"
  for a b :: "'a::len word"
  by (auto simp: saturating_sub_def uint_sub_bounded word_le_def)

section \<open>Hash maps\<close>

type_synonym ('k, 'v) hmap = "('k \<times> 'v) list"

definition hm_wf :: "('k, 'v) hmap \<Rightarrow> bool" where
  "hm_wf m \<longleftrightarrow> distinct (map fst m)"

definition hm_contains :: "('k, 'v) hmap \<Rightarrow> 'k \<Rightarrow> bool" where
  "hm_contains m k \<longleftrightarrow> map_of m k \<noteq> None"

definition hm_extend :: "('k, 'v) hmap \<Rightarrow> ('k \<times> 'v) list \<Rightarrow> ('k, 'v) hmap" where
  "hm_extend m es = fold (\<lambda>(k, v). AList.update k v) es m"

definition hm_collect :: "('k \<times> 'v) list \<Rightarrow> ('k, 'v) hmap" where
  "hm_collect es = hm_extend [] es"

lemma hm_wf_Nil [simp]: "hm_wf []"
  by (simp add: hm_wf_def)

lemma hm_wf_update [simp]: "hm_wf m \<Longrightarrow> hm_wf (AList.update k v m)"
  by (simp add: hm_wf_def distinct_update)

lemma hm_wf_delete [simp]: "hm_wf m \<Longrightarrow> hm_wf (AList.delete k m)"
  by (simp add: hm_wf_def distinct_delete)

lemma hm_wf_filter [simp]: "hm_wf m \<Longrightarrow> hm_wf (filter P m)"
  by (auto simp: hm_wf_def distinct_map intro: inj_on_subset)

lemma hm_wf_map_val [simp]: "hm_wf (map (\<lambda>(k, v). (k, f k v)) m) \<longleftrightarrow> hm_wf m"
  by (simp add: hm_wf_def comp_def case_prod_unfold)

lemma hm_wf_extend [simp]: "hm_wf m \<Longrightarrow> hm_wf (hm_extend m es)"
  unfolding hm_extend_def by (induction es arbitrary: m) (auto split: prod.splits)

lemma hm_wf_collect [simp]: "hm_wf (hm_collect es)"
  by (simp add: hm_collect_def)

lemma map_of_update [simp, hm_simps]: "map_of (AList.update k v m) = (map_of m)(k \<mapsto> v)"
  by (rule AList.update_conv')

lemma map_of_delete [simp, hm_simps]: "map_of (AList.delete k m) = (map_of m)(k := None)"
  by (rule AList.delete_conv')

lemma map_of_filter_wf [hm_simps]:
  "hm_wf m \<Longrightarrow> map_of (filter P m) k =
     (case map_of m k of None \<Rightarrow> None | Some v \<Rightarrow> if P (k, v) then Some v else None)"
  by (induction m) (auto simp: hm_wf_def map_of_eq_None_iff image_iff split: option.splits)

lemma map_of_map_val [hm_simps]:
  "map_of (map (\<lambda>(k, v). (k, f k v)) m) k = map_option (f k) (map_of m k)"
  by (induction m) auto

lemma map_of_extend [hm_simps]:
  "map_of (hm_extend m es) k = (case map_of (rev es) k of None \<Rightarrow> map_of m k | Some v \<Rightarrow> Some v)"
proof (induction es arbitrary: m)
  case Nil
  then show ?case by (simp add: hm_extend_def)
next
  case (Cons e es)
  obtain k' v' where e: "e = (k', v')" by (cases e)
  have "hm_extend m (e # es) = hm_extend (AList.update k' v' m) es"
    by (simp add: hm_extend_def e)
  with Cons show ?case by (auto simp: e map_of_append map_add_def split: option.splits)
qed

lemma hm_extend_keys: "fst ` set (hm_extend m es) = fst ` set m \<union> fst ` set es"
proof (induction es arbitrary: m)
  case (Cons e es)
  then show ?case by (cases e) (auto simp: hm_extend_def AList.dom_update)
qed (simp add: hm_extend_def)

lemma hm_wf_in_set: "hm_wf m \<Longrightarrow> (k, v) \<in> set m \<longleftrightarrow> map_of m k = Some v"
  by (simp add: hm_wf_def)

lemma map_of_rev_wf: "hm_wf m \<Longrightarrow> map_of (rev m) = map_of m"
proof
  fix k
  assume "hm_wf m"
  then have "hm_wf (rev m)" by (simp add: hm_wf_def rev_map [symmetric])
  then have "map_of (rev m) k = Some v \<longleftrightarrow> map_of m k = Some v" for v
    using \<open>hm_wf m\<close> by (simp add: hm_wf_in_set [symmetric])
  then show "map_of (rev m) k = map_of m k"
    by (cases "map_of m k"; cases "map_of (rev m) k") auto
qed

lemma hm_contains_iff: "hm_contains m k \<longleftrightarrow> k \<in> fst ` set m"
  by (auto simp: hm_contains_def map_of_eq_None_iff)

lemma length_update_new [simp]:
  "map_of m k = None \<Longrightarrow> length (AList.update k v m) = Suc (length m)"
  by (induction m) (auto split: if_splits)

lemma update_new: "map_of m k = None \<Longrightarrow> AList.update k v m = m @ [(k, v)]"
  by (induction m) (auto split: if_splits)

lemma delete_absent: "map_of m k = None \<Longrightarrow> AList.delete k m = m"
  by (induction m) (auto simp: AList.delete_eq split: if_splits)

section \<open>Ordered maps\<close>

type_synonym ('k, 'v) bmap = "('k \<times> 'v) list"

definition bm_wf :: "('k::linorder, 'v) bmap \<Rightarrow> bool" where
  "bm_wf m \<longleftrightarrow> sorted_wrt (<) (map fst m)"

fun bm_insert :: "'k::linorder \<Rightarrow> 'v \<Rightarrow> ('k, 'v) bmap \<Rightarrow> ('k, 'v) bmap" where
  "bm_insert k v [] = [(k, v)]"
| "bm_insert k v ((k', v') # m) =
     (if k < k' then (k, v) # (k', v') # m
      else if k = k' then (k, v) # m
      else (k', v') # bm_insert k v m)"

definition bm_extend :: "('k::linorder, 'v) bmap \<Rightarrow> ('k \<times> 'v) list \<Rightarrow> ('k, 'v) bmap" where
  "bm_extend m es = fold (\<lambda>(k, v). bm_insert k v) es m"

definition bm_collect :: "('k::linorder \<times> 'v) list \<Rightarrow> ('k, 'v) bmap" where
  "bm_collect es = bm_extend [] es"

lemma bm_wf_Nil [simp]: "bm_wf []"
  by (simp add: bm_wf_def)

lemma bm_wf_Cons [simp]: "bm_wf ((k, v) # m) \<longleftrightarrow> (\<forall>k' \<in> fst ` set m. k < k') \<and> bm_wf m"
  by (auto simp: bm_wf_def)

lemma keys_bm_insert [simp]: "fst ` set (bm_insert k v m) = insert k (fst ` set m)"
  by (induction k v m rule: bm_insert.induct) auto

lemma ball_bm_insert [simp]:
  "(\<forall>e \<in> set (bm_insert k v m). P (fst e)) \<longleftrightarrow> P k \<and> (\<forall>e \<in> set m. P (fst e))"
  by (induction k v m rule: bm_insert.induct) auto

lemma bm_wf_insert [simp]: "bm_wf m \<Longrightarrow> bm_wf (bm_insert k v m)"
  by (induction k v m rule: bm_insert.induct) (auto intro: order.strict_trans)

lemma map_of_bm_insert [simp, hm_simps]: "map_of (bm_insert k v m) = (map_of m)(k \<mapsto> v)"
  by (induction k v m rule: bm_insert.induct) (auto simp: fun_upd_twist)

lemma keys_bm_extend [simp]: "fst ` set (bm_extend m es) = fst ` set m \<union> fst ` set es"
  unfolding bm_extend_def by (induction es arbitrary: m) (auto split: prod.splits)

lemma bm_wf_extend [simp]: "bm_wf m \<Longrightarrow> bm_wf (bm_extend m es)"
  unfolding bm_extend_def by (induction es arbitrary: m) (auto split: prod.splits)

lemma bm_wf_collect [simp]: "bm_wf (bm_collect es)"
  by (simp add: bm_collect_def)

lemma map_of_bm_extend [hm_simps]:
  "map_of (bm_extend m es) k = (case map_of (rev es) k of None \<Rightarrow> map_of m k | Some v \<Rightarrow> Some v)"
proof (induction es arbitrary: m)
  case Nil
  then show ?case by (simp add: bm_extend_def)
next
  case (Cons e es)
  obtain k' v' where e: "e = (k', v')" by (cases e)
  have "bm_extend m (e # es) = bm_extend (bm_insert k' v' m) es"
    by (simp add: bm_extend_def e)
  with Cons show ?case by (auto simp: e map_of_append map_add_def split: option.splits)
qed

lemma bm_wf_hm_wf: "bm_wf m \<Longrightarrow> hm_wf m"
  by (induction m) (force simp: hm_wf_def)+

lemma bm_ext:
  "bm_wf m \<Longrightarrow> bm_wf m' \<Longrightarrow> map_of m = map_of m' \<Longrightarrow> m = m'"
proof -
  assume wf: "bm_wf m" "bm_wf m'" and eq: "map_of m = map_of m'"
  have "set m = set m'"
    using wf[THEN bm_wf_hm_wf] eq by (auto simp: hm_wf_in_set)
  moreover have "sorted (map fst m)" "distinct (map fst m)" "sorted (map fst m')" "distinct (map fst m')"
    using wf by (auto simp: bm_wf_def strict_sorted_iff)
  ultimately show ?thesis
    by (intro map_sorted_distinct_set_unique [where f = fst]) (auto simp: distinct_map)
qed

end
