(* ===== verification/Chain.thy ===== *)
theory Chain
  imports Prelude
begin

text \<open>
  The chain identities and the per-chain constants of \<open>client-evm/src/chain.rs\<close>, with the
  Uniswap deployment tables of \<open>uniswap_v3.rs\<close> and \<open>uniswap_v4.rs\<close> that are keyed by them.
  Results: the configuration slugs are a bijection with the chains, and every pending-buffer cap
  has room for the documented number of competing forks.
\<close>

section \<open>Chain keys\<close>

datatype chain_key = Ethereum | Arbitrum | Base | Optimism | Polygon | Bnb | Avalanche

text \<open>The derived \<open>Ord\<close> of a field-less enum is the declaration order.\<close>

fun chain_rank :: "chain_key \<Rightarrow> nat" where
  "chain_rank Ethereum = 0"
| "chain_rank Arbitrum = 1"
| "chain_rank Base = 2"
| "chain_rank Optimism = 3"
| "chain_rank Polygon = 4"
| "chain_rank Bnb = 5"
| "chain_rank Avalanche = 6"

lemma chain_rank_inj [simp]: "chain_rank a = chain_rank b \<longleftrightarrow> a = b"
  by (cases a; cases b) simp_all

instantiation chain_key :: linorder
begin

definition less_eq_chain_key :: "chain_key \<Rightarrow> chain_key \<Rightarrow> bool" where
  "less_eq_chain_key a b \<longleftrightarrow> chain_rank a \<le> chain_rank b"

definition less_chain_key :: "chain_key \<Rightarrow> chain_key \<Rightarrow> bool" where
  "less_chain_key a b \<longleftrightarrow> chain_rank a < chain_rank b"

instance
  by standard (auto simp: less_eq_chain_key_def less_chain_key_def)

end

definition ALL_CHAINS :: "chain_key list" where
  "ALL_CHAINS = [Ethereum, Arbitrum, Base, Optimism, Polygon, Bnb, Avalanche]"

definition ACTIVE_CHAINS :: "chain_key list" where
  "ACTIVE_CHAINS = [Ethereum, Base, Optimism, Avalanche]"

fun drpc_network_path :: "chain_key \<Rightarrow> string" where
  "drpc_network_path Ethereum = ''ethereum''"
| "drpc_network_path Arbitrum = ''arbitrum''"
| "drpc_network_path Base = ''base''"
| "drpc_network_path Optimism = ''optimism''"
| "drpc_network_path Polygon = ''polygon''"
| "drpc_network_path Bnb = ''bnb''"
| "drpc_network_path Avalanche = ''avalanche''"

definition chain_key_for_network_path :: "string \<Rightarrow> chain_key option" where
  "chain_key_for_network_path path = find (\<lambda>chain. drpc_network_path chain = path) ALL_CHAINS"

fun pool_candidate_block_range_chunk :: "chain_key \<Rightarrow> u64" where
  "pool_candidate_block_range_chunk Base = 100"
| "pool_candidate_block_range_chunk Optimism = 250"
| "pool_candidate_block_range_chunk _ = 5000"

fun approx_finalized_block_age :: "chain_key \<Rightarrow> nat" where
  "approx_finalized_block_age Ethereum = 64"
| "approx_finalized_block_age Arbitrum = 1000"
| "approx_finalized_block_age Base = 200"
| "approx_finalized_block_age Optimism = 200"
| "approx_finalized_block_age Polygon = 400"
| "approx_finalized_block_age Bnb = 150"
| "approx_finalized_block_age Avalanche = 80"

definition MAX_SIMULTANEOUS_FORKS :: nat where
  "MAX_SIMULTANEOUS_FORKS = 4"

definition PENDING_CAP_FORK_MARGIN :: nat where
  "PENDING_CAP_FORK_MARGIN = 8"

definition max_pending_blocks :: "chain_key \<Rightarrow> nat" where
  "max_pending_blocks chain = PENDING_CAP_FORK_MARGIN * approx_finalized_block_age chain"

section \<open>Uniswap deployments\<close>

definition ETHEREUM_UNISWAP_V3_FACTORY_ADDRESS :: address where
  "ETHEREUM_UNISWAP_V3_FACTORY_ADDRESS = 0x1F98431c8aD98523631AE4a59f267346ea31F984"

definition BASE_UNISWAP_V3_FACTORY_ADDRESS :: address where
  "BASE_UNISWAP_V3_FACTORY_ADDRESS = 0x33128a8fC17869897dcE68Ed026d694621f6FDfD"

definition BNB_UNISWAP_V3_FACTORY_ADDRESS :: address where
  "BNB_UNISWAP_V3_FACTORY_ADDRESS = 0xdB1d10011AD0Ff90774D0C6Bb92e5C5c8b4461F7"

definition AVALANCHE_UNISWAP_V3_FACTORY_ADDRESS :: address where
  "AVALANCHE_UNISWAP_V3_FACTORY_ADDRESS = 0x740b1c1de25031C31FF4fC9A62f554A55cdC1baD"

definition ETHEREUM_UNISWAP_V4_POOL_MANAGER_ADDRESS :: address where
  "ETHEREUM_UNISWAP_V4_POOL_MANAGER_ADDRESS = 0x000000000004444c5dc75cB358380D2e3dE08A90"

definition ETHEREUM_UNISWAP_V4_STATE_VIEW_ADDRESS :: address where
  "ETHEREUM_UNISWAP_V4_STATE_VIEW_ADDRESS = 0x7fFE42C4a5DEeA5b0feC41C94C136Cf115597227"

definition ARBITRUM_UNISWAP_V4_POOL_MANAGER_ADDRESS :: address where
  "ARBITRUM_UNISWAP_V4_POOL_MANAGER_ADDRESS = 0x360e68faccca8ca495c1b759fd9eee466db9fb32"

definition ARBITRUM_UNISWAP_V4_STATE_VIEW_ADDRESS :: address where
  "ARBITRUM_UNISWAP_V4_STATE_VIEW_ADDRESS = 0x76fd297e2d437cd7f76d50f01afe6160f86e9990"

definition BASE_UNISWAP_V4_POOL_MANAGER_ADDRESS :: address where
  "BASE_UNISWAP_V4_POOL_MANAGER_ADDRESS = 0x498581ff718922c3f8e6a244956af099b2652b2b"

definition BASE_UNISWAP_V4_STATE_VIEW_ADDRESS :: address where
  "BASE_UNISWAP_V4_STATE_VIEW_ADDRESS = 0xa3c0c9b65bad0b08107aa264b0f3db444b867a71"

definition OPTIMISM_UNISWAP_V4_POOL_MANAGER_ADDRESS :: address where
  "OPTIMISM_UNISWAP_V4_POOL_MANAGER_ADDRESS = 0x9a13f98cb987694c9f086b1f5eb990eea8264ec3"

definition OPTIMISM_UNISWAP_V4_STATE_VIEW_ADDRESS :: address where
  "OPTIMISM_UNISWAP_V4_STATE_VIEW_ADDRESS = 0xc18a3169788f4f75a170290584eca6395c75ecdb"

definition POLYGON_UNISWAP_V4_POOL_MANAGER_ADDRESS :: address where
  "POLYGON_UNISWAP_V4_POOL_MANAGER_ADDRESS = 0x67366782805870060151383f4bbff9dab53e5cd6"

definition POLYGON_UNISWAP_V4_STATE_VIEW_ADDRESS :: address where
  "POLYGON_UNISWAP_V4_STATE_VIEW_ADDRESS = 0x5ea1bd7974c8a611cbab0bdcafcb1d9cc9b3ba5a"

definition BNB_UNISWAP_V4_POOL_MANAGER_ADDRESS :: address where
  "BNB_UNISWAP_V4_POOL_MANAGER_ADDRESS = 0x28e2ea090877bf75740558f6bfb36a5ffee9e9df"

definition BNB_UNISWAP_V4_STATE_VIEW_ADDRESS :: address where
  "BNB_UNISWAP_V4_STATE_VIEW_ADDRESS = 0xd13dd3d6e93f276fafc9db9e6bb47c1180aee0c4"

definition AVALANCHE_UNISWAP_V4_POOL_MANAGER_ADDRESS :: address where
  "AVALANCHE_UNISWAP_V4_POOL_MANAGER_ADDRESS = 0x06380c0e0912312b5150364b9dc4542ba0dbbc85"

definition AVALANCHE_UNISWAP_V4_STATE_VIEW_ADDRESS :: address where
  "AVALANCHE_UNISWAP_V4_STATE_VIEW_ADDRESS = 0xc3c9e198c735a4b97e3e683f391ccbdd60b69286"

fun v3_factory_address :: "chain_key \<Rightarrow> address" where
  "v3_factory_address Base = BASE_UNISWAP_V3_FACTORY_ADDRESS"
| "v3_factory_address Bnb = BNB_UNISWAP_V3_FACTORY_ADDRESS"
| "v3_factory_address Avalanche = AVALANCHE_UNISWAP_V3_FACTORY_ADDRESS"
| "v3_factory_address _ = ETHEREUM_UNISWAP_V3_FACTORY_ADDRESS"

record v4_deployment_t =
  v4_pool_manager :: address
  v4_state_view :: address

fun v4_deployment :: "chain_key \<Rightarrow> v4_deployment_t option" where
  "v4_deployment Ethereum = Some \<lparr>v4_pool_manager = ETHEREUM_UNISWAP_V4_POOL_MANAGER_ADDRESS,
     v4_state_view = ETHEREUM_UNISWAP_V4_STATE_VIEW_ADDRESS\<rparr>"
| "v4_deployment Arbitrum = Some \<lparr>v4_pool_manager = ARBITRUM_UNISWAP_V4_POOL_MANAGER_ADDRESS,
     v4_state_view = ARBITRUM_UNISWAP_V4_STATE_VIEW_ADDRESS\<rparr>"
| "v4_deployment Base = Some \<lparr>v4_pool_manager = BASE_UNISWAP_V4_POOL_MANAGER_ADDRESS,
     v4_state_view = BASE_UNISWAP_V4_STATE_VIEW_ADDRESS\<rparr>"
| "v4_deployment Optimism = Some \<lparr>v4_pool_manager = OPTIMISM_UNISWAP_V4_POOL_MANAGER_ADDRESS,
     v4_state_view = OPTIMISM_UNISWAP_V4_STATE_VIEW_ADDRESS\<rparr>"
| "v4_deployment Polygon = Some \<lparr>v4_pool_manager = POLYGON_UNISWAP_V4_POOL_MANAGER_ADDRESS,
     v4_state_view = POLYGON_UNISWAP_V4_STATE_VIEW_ADDRESS\<rparr>"
| "v4_deployment Bnb = Some \<lparr>v4_pool_manager = BNB_UNISWAP_V4_POOL_MANAGER_ADDRESS,
     v4_state_view = BNB_UNISWAP_V4_STATE_VIEW_ADDRESS\<rparr>"
| "v4_deployment Avalanche = Some \<lparr>v4_pool_manager = AVALANCHE_UNISWAP_V4_POOL_MANAGER_ADDRESS,
     v4_state_view = AVALANCHE_UNISWAP_V4_STATE_VIEW_ADDRESS\<rparr>"

definition state_view_address :: "chain_key \<Rightarrow> address option" where
  "state_view_address chain = map_option v4_state_view (v4_deployment chain)"

definition pool_manager_address :: "chain_key \<Rightarrow> address option" where
  "pool_manager_address chain = map_option v4_pool_manager (v4_deployment chain)"

definition is_v4_pool_manager :: "address \<Rightarrow> bool" where
  "is_v4_pool_manager a \<longleftrightarrow>
     list_ex (\<lambda>manager. manager = a) (List.map_filter pool_manager_address ACTIVE_CHAINS)"

section \<open>Results\<close>

lemma chain_cases_all: "(\<forall>c. P c) \<longleftrightarrow> (\<forall>c \<in> set ALL_CHAINS. P c)"
proof -
  have "c \<in> set ALL_CHAINS" for c by (cases c) (simp_all add: ALL_CHAINS_def)
  then show ?thesis by blast
qed

lemma drpc_network_path_inj [simp]: "drpc_network_path a = drpc_network_path b \<longleftrightarrow> a = b"
  by (cases a; cases b) simp_all

text \<open>
  The pending buffer of every chain holds the finality depth of each of
  \<open>MAX_SIMULTANEOUS_FORKS\<close> forks at once, with room left.
\<close>

lemma pending_cap_holds_forks:
  "MAX_SIMULTANEOUS_FORKS * approx_finalized_block_age chain < max_pending_blocks chain"
  by (cases chain) (simp_all add: MAX_SIMULTANEOUS_FORKS_def max_pending_blocks_def
      PENDING_CAP_FORK_MARGIN_def)

lemma max_pending_blocks_pos [simp]: "0 < max_pending_blocks chain"
  using pending_cap_holds_forks [of chain] by simp

lemma pool_manager_address_defined: "\<exists>a. pool_manager_address chain = Some a"
  by (cases chain) (simp_all add: pool_manager_address_def)

end
