(* ===== verification/PoolTypes.thy ===== *)
theory PoolTypes
  imports Chain
begin

text \<open>
  The pool and token vocabulary shared by every component: the pool identities and the
  pool state of \<open>pool_state.rs\<close>, the pool fees and metadata of \<open>kernel/pool_registry.rs\<close>, the
  token identities and metadata of \<open>kernel/token_registry.rs\<close>. The identities carry the
  derived order of the sources, which the seed scheduler and the projections sort by.
\<close>

section \<open>Pool identities\<close>

type_synonym pool_id = "256 word"

datatype protocol_pool_key = UniswapV3 address | UniswapV4 pool_id

fun uniswap_v3_address :: "protocol_pool_key \<Rightarrow> address option" where
  "uniswap_v3_address (UniswapV3 a) = Some a"
| "uniswap_v3_address (UniswapV4 p) = None"

fun uniswap_v4_pool_id :: "protocol_pool_key \<Rightarrow> pool_id option" where
  "uniswap_v4_pool_id (UniswapV4 p) = Some p"
| "uniswap_v4_pool_id (UniswapV3 a) = None"

datatype pool_ref = PoolRef (pr_key: protocol_pool_key) (pr_chain: chain_key)

definition pool_ref_v3 :: "address \<Rightarrow> chain_key \<Rightarrow> pool_ref" where
  "pool_ref_v3 a chain = PoolRef (UniswapV3 a) chain"

definition pool_ref_v4 :: "pool_id \<Rightarrow> chain_key \<Rightarrow> pool_ref" where
  "pool_ref_v4 p chain = PoolRef (UniswapV4 p) chain"

definition pool_ref_v3_address :: "pool_ref \<Rightarrow> address option" where
  "pool_ref_v3_address p = uniswap_v3_address (pr_key p)"

text \<open>
  The derived \<open>Ord\<close>: variants in declaration order, then the payload; a struct field by
  field. Both are read off an injective rank into pairs of naturals.
\<close>

fun pool_key_rank :: "protocol_pool_key \<Rightarrow> nat \<times> nat" where
  "pool_key_rank (UniswapV3 a) = (0, unat a)"
| "pool_key_rank (UniswapV4 p) = (1, unat p)"

lemma pool_key_rank_inj [simp]: "pool_key_rank a = pool_key_rank b \<longleftrightarrow> a = b"
  by (cases a; cases b) (auto simp: word_unat_eq_iff)

definition lex_le :: "nat \<times> nat \<Rightarrow> nat \<times> nat \<Rightarrow> bool" where
  "lex_le a b \<longleftrightarrow> fst a < fst b \<or> fst a = fst b \<and> snd a \<le> snd b"

definition lex_less :: "nat \<times> nat \<Rightarrow> nat \<times> nat \<Rightarrow> bool" where
  "lex_less a b \<longleftrightarrow> fst a < fst b \<or> fst a = fst b \<and> snd a < snd b"

instantiation protocol_pool_key :: linorder
begin

definition less_eq_protocol_pool_key :: "protocol_pool_key \<Rightarrow> protocol_pool_key \<Rightarrow> bool" where
  "less_eq_protocol_pool_key a b \<longleftrightarrow> lex_le (pool_key_rank a) (pool_key_rank b)"

definition less_protocol_pool_key :: "protocol_pool_key \<Rightarrow> protocol_pool_key \<Rightarrow> bool" where
  "less_protocol_pool_key a b \<longleftrightarrow> lex_less (pool_key_rank a) (pool_key_rank b)"

instance
proof
  fix x y z :: protocol_pool_key
  show "x < y \<longleftrightarrow> x \<le> y \<and> \<not> y \<le> x" "x \<le> x" "x \<le> y \<Longrightarrow> y \<le> z \<Longrightarrow> x \<le> z" "x \<le> y \<or> y \<le> x"
    by (auto simp: less_eq_protocol_pool_key_def less_protocol_pool_key_def lex_le_def lex_less_def)
  assume "x \<le> y" "y \<le> x"
  then have "pool_key_rank x = pool_key_rank y"
    by (auto simp: less_eq_protocol_pool_key_def lex_le_def prod_eq_iff)
  then show "x = y" by simp
qed

end

instantiation pool_ref :: linorder
begin

definition less_eq_pool_ref :: "pool_ref \<Rightarrow> pool_ref \<Rightarrow> bool" where
  "less_eq_pool_ref a b \<longleftrightarrow>
     pr_key a < pr_key b \<or> pr_key a = pr_key b \<and> pr_chain a \<le> pr_chain b"

definition less_pool_ref :: "pool_ref \<Rightarrow> pool_ref \<Rightarrow> bool" where
  "less_pool_ref a b \<longleftrightarrow>
     pr_key a < pr_key b \<or> pr_key a = pr_key b \<and> pr_chain a < pr_chain b"

instance
  by standard (auto simp: less_eq_pool_ref_def less_pool_ref_def pool_ref.expand)

end

section \<open>Pool state\<close>

record pool_state =
  ps_sqrt_price_x96 :: u160
  ps_tick :: i24
  ps_liquidity :: u128

datatype pool_data_call = Slot0 | Liquidity

datatype pool_data_failure =
  DataCallFailed pool_data_call | DataDecodeFailed pool_data_call | DataMissingResponse pool_data_call

type_synonym pool_data_result = "pool_data_failure + pool_state"

section \<open>Pool metadata\<close>

datatype uniswap_v3_fee = Fee100 | Fee500 | Fee3000 | Fee10000

definition try_from_pips :: "u32 \<Rightarrow> uniswap_v3_fee option" where
  "try_from_pips fee =
     (if fee = 100 then Some Fee100
      else if fee = 500 then Some Fee500
      else if fee = 3000 then Some Fee3000
      else if fee = 10000 then Some Fee10000
      else None)"

fun v3_fee_pips :: "uniswap_v3_fee \<Rightarrow> u32" where
  "v3_fee_pips Fee100 = 100"
| "v3_fee_pips Fee500 = 500"
| "v3_fee_pips Fee3000 = 3000"
| "v3_fee_pips Fee10000 = 10000"

fun v3_fee_tick_spacing :: "uniswap_v3_fee \<Rightarrow> 32 word" where
  "v3_fee_tick_spacing Fee100 = 1"
| "v3_fee_tick_spacing Fee500 = 10"
| "v3_fee_tick_spacing Fee3000 = 60"
| "v3_fee_tick_spacing Fee10000 = 200"

datatype pool_fee = Tiered uniswap_v3_fee | Static u32 u16

fun pool_fee_pips :: "pool_fee \<Rightarrow> u32" where
  "pool_fee_pips (Tiered tier) = v3_fee_pips tier"
| "pool_fee_pips (Static pips tick_spacing) = pips"

text \<open>\<open>tier.tick_spacing() as u16\<close> truncates an \<open>i32\<close> to its low sixteen bits.\<close>

fun pool_fee_tick_spacing :: "pool_fee \<Rightarrow> u16" where
  "pool_fee_tick_spacing (Tiered tier) = ucast (v3_fee_tick_spacing tier)"
| "pool_fee_tick_spacing (Static pips tick_spacing) = tick_spacing"

record pool_metadata =
  pm_token0 :: address
  pm_token1 :: address
  pm_fee :: pool_fee

datatype pool_metadata_call = Token0 | Token1 | FeeCall | FactoryGetPool

datatype pool_metadata_failure =
  CallFailed pool_metadata_call
| DecodeFailed pool_metadata_call
| MissingResponse pool_metadata_call
| UnsupportedFee u32
| FactoryReturnedZero
| FactoryMismatch address
| DynamicFee
| HookedPool address
| PoolIdMismatch
| InvalidTickSpacing "32 word"
| TokenNotWhitelisted address

type_synonym pool_metadata_result = "pool_metadata_failure + pool_metadata"

section \<open>Tokens\<close>

datatype token_address = TokenAddress (ta_address: address) (ta_chain: chain_key)

instantiation token_address :: linorder
begin

definition less_eq_token_address :: "token_address \<Rightarrow> token_address \<Rightarrow> bool" where
  "less_eq_token_address a b \<longleftrightarrow>
     ta_address a < ta_address b \<or> ta_address a = ta_address b \<and> ta_chain a \<le> ta_chain b"

definition less_token_address :: "token_address \<Rightarrow> token_address \<Rightarrow> bool" where
  "less_token_address a b \<longleftrightarrow>
     ta_address a < ta_address b \<or> ta_address a = ta_address b \<and> ta_chain a < ta_chain b"

instance
  by standard (auto simp: less_eq_token_address_def less_token_address_def token_address.expand)

end

text \<open>
  \<open>TokenDecimals\<close> is a \<open>u8\<close> that its two constructors keep at or below \<open>MAX_SUPPORTED\<close>.
\<close>

datatype token_decimals = TokenDecimals (decimals_value: u8)

definition MAX_SUPPORTED_DECIMALS :: u8 where
  "MAX_SUPPORTED_DECIMALS = 36"

datatype token_metadata_call = Decimals

datatype token_metadata_failure =
  TokenCallFailed token_metadata_call
| TokenDecodeFailed token_metadata_call
| TokenMissingResponse token_metadata_call
| UnsupportedDecimals u256

definition try_from_u256 :: "u256 \<Rightarrow> token_metadata_failure + token_decimals" where
  "try_from_u256 value =
     (if value \<le> ucast MAX_SUPPORTED_DECIMALS then Inr (TokenDecimals (ucast value))
      else Inl (UnsupportedDecimals value))"

text \<open>The cache re-validates the bound on the way back in; the error text is not modelled.\<close>

definition deserialize_decimals :: "u8 \<Rightarrow> token_decimals option" where
  "deserialize_decimals value =
     (if value \<le> MAX_SUPPORTED_DECIMALS then Some (TokenDecimals value) else None)"

record token_metadata =
  tm_decimals :: token_decimals

type_synonym token_metadata_result = "token_metadata_failure + token_metadata"

section \<open>Backfill ranges\<close>

text \<open>\<open>MissingRange\<close> of \<open>kernel/blocks_graph.rs\<close>: an inclusive block-number range with its hole blocks.\<close>

record missing_range =
  mr_from :: u64
  mr_to :: u64
  mr_hashes :: "block_hash list"

section \<open>Results\<close>

lemma pool_ref_v3_address_eq [simp]:
  "pool_ref_v3_address (PoolRef k c) = uniswap_v3_address k"
  by (simp add: pool_ref_v3_address_def)

lemma try_from_pips_v3_fee_pips [simp]: "try_from_pips (v3_fee_pips tier) = Some tier"
  by (cases tier) (simp_all add: try_from_pips_def)

lemma try_from_pips_Some: "try_from_pips fee = Some tier \<Longrightarrow> fee = v3_fee_pips tier"
  by (auto simp: try_from_pips_def split: if_splits)

lemma tick_spacing_cast_exact: "uint (pool_fee_tick_spacing (Tiered tier)) = uint (v3_fee_tick_spacing tier)"
  by (cases tier) simp_all

lemma try_from_u256_bounded:
  "try_from_u256 value = Inr d \<Longrightarrow>
     decimals_value d \<le> MAX_SUPPORTED_DECIMALS \<and> uint (decimals_value d) = uint value"
proof -
  assume "try_from_u256 value = Inr d"
  then have le: "value \<le> 36" and d: "d = TokenDecimals (ucast value)"
    by (auto simp: try_from_u256_def MAX_SUPPORTED_DECIMALS_def split: if_splits)
  from le have "uint value \<le> 36" by (simp add: word_le_def)
  moreover have "uint (ucast value :: u8) = uint value mod 256"
    by (simp add: unsigned_ucast_eq take_bit_eq_mod)
  ultimately show ?thesis
    using d by (simp add: MAX_SUPPORTED_DECIMALS_def word_le_def)
qed

end
