(* ===== verification/Endpoints.thy ===== *)
theory Endpoints
  imports PoolTypes
begin

text \<open>
  The endpoint pools of the RPC client (client-evm endpoints.rs, error.rs, client/subscription.rs): the
  weighted rotation, the health of an endpoint, and the failover of one request over a pool. Time is in
  milliseconds; an attempt is the environment's answer to the n-th call of a request; what other threads
  do to the shared cursor and health between the steps of a request is a parameter. The foreign errors
  of transports are their texts.
\<close>

section \<open>Errors\<close>

datatype config_scope = SubscriptionScope | HttpScope | GraphScope

fun scope_text :: "config_scope \<Rightarrow> string" where
  "scope_text SubscriptionScope = ''subscription''"
| "scope_text HttpScope = ''http''"
| "scope_text GraphScope = ''graph''"

datatype client_evm_error =
  InvalidConfig config_scope string
| WebSocketError string
| HttpTransport string
| HttpStatus u16 string
| JsonRpcError string string
| MalformedResponse string string
| FailoverExhausted string
| EventReceiverDropped

fun show_decimal :: "nat \<Rightarrow> string" where
  "show_decimal n = (if n < 10 then [char_of (48 + n)] else show_decimal (n div 10) @ [char_of (48 + n mod 10)])"

declare show_decimal.simps [simp del]

fun error_text :: "client_evm_error \<Rightarrow> string" where
  "error_text (InvalidConfig scope reason) = ''invalid '' @ scope_text scope @ '' config: '' @ reason"
| "error_text (WebSocketError e) = ''websocket error: '' @ e"
| "error_text (HttpTransport e) = ''http transport error: '' @ e"
| "error_text (HttpStatus status body) = ''http status '' @ show_decimal (unat status) @ '': '' @ body"
| "error_text (JsonRpcError code message) = ''json-rpc error '' @ code @ '': '' @ message"
| "error_text (MalformedResponse what detail) = ''malformed '' @ what @ '' response: '' @ detail"
| "error_text (FailoverExhausted detail) = detail"
| "error_text EventReceiverDropped = ''event receiver dropped''"

fun is_retryable :: "client_evm_error \<Rightarrow> bool" where
  "is_retryable (HttpTransport e) \<longleftrightarrow> True"
| "is_retryable (HttpStatus status body) \<longleftrightarrow>
     status = 400 \<or> status = 401 \<or> status = 403 \<or> status = 408 \<or> status = 425 \<or> status = 429 \<or> 500 \<le> status"
| "is_retryable (JsonRpcError code message) \<longleftrightarrow> True"
| "is_retryable (MalformedResponse what detail) \<longleftrightarrow> True"
| "is_retryable (InvalidConfig scope reason) \<longleftrightarrow> False"
| "is_retryable (WebSocketError e) \<longleftrightarrow> False"
| "is_retryable (FailoverExhausted detail) \<longleftrightarrow> False"
| "is_retryable EventReceiverDropped \<longleftrightarrow> False"

section \<open>The rotation\<close>

definition COOLDOWN_BASE :: nat where
  "COOLDOWN_BASE = 2000"

definition COOLDOWN_CAP :: nat where
  "COOLDOWN_CAP = 60000"

definition MAX_BACKOFF_SHIFT :: u32 where
  "MAX_BACKOFF_SHIFT = 5"

definition backoff_duration :: "u32 \<Rightarrow> nat" where
  "backoff_duration consecutive_failures =
     (let shift = min (saturating_sub consecutive_failures 1) MAX_BACKOFF_SHIFT
      in min (COOLDOWN_BASE * unat (push_bit (unat shift) (1 :: u32))) COOLDOWN_CAP)"

text \<open>\<open>max_by_key\<close> keeps the last of several greatest elements.\<close>

fun last_max :: "nat \<Rightarrow> nat \<times> int \<Rightarrow> int list \<Rightarrow> nat" where
  "last_max i (best, m) [] = best"
| "last_max i (best, m) (v # vs) = last_max (i + 1) (if m \<le> v then (i, v) else (best, m)) vs"

fun last_max_index :: "int list \<Rightarrow> nat option" where
  "last_max_index [] = None"
| "last_max_index (v # vs) = Some (last_max 1 (0, v) vs)"

text \<open>
  The values are \<open>i64\<close> in the source; each stays above minus the total of the weights and their sum is
  zero (EndpointLaws), so that they stay below the number of endpoints times the total.
\<close>

fun swrr :: "nat \<Rightarrow> int \<Rightarrow> u32 list \<Rightarrow> int list \<Rightarrow> nat list" where
  "swrr 0 whole weights current = []"
| "swrr (Suc n) whole weights current =
     (let current = map2 (\<lambda>value weight. value + uint weight) current weights
      in case last_max_index current of
           None \<Rightarrow> []
         | Some selected \<Rightarrow> selected # swrr n whole weights (current[selected := current ! selected - whole]))"

definition smooth_weighted_order :: "u32 list \<Rightarrow> nat list" where
  "smooth_weighted_order weights =
     (let whole = sum_list (map uint weights)
      in swrr (nat whole) whole weights (replicate (length weights) 0))"

section \<open>Pools\<close>

record endpoint_spec =
  es_url :: string
  es_label :: string
  es_weight :: u32

record endpoint =
  nd_url :: string
  nd_label :: string

record endpoint_health =
  eh_failures :: u32
  eh_cooldown_until :: "nat option"

definition healthy :: endpoint_health where
  "healthy = \<lparr>eh_failures = 0, eh_cooldown_until = None\<rparr>"

record endpoint_pool =
  po_endpoints :: "endpoint list"
  po_order :: "nat list"
  po_cursor :: u64
  po_health :: "endpoint_health list"

definition endpoint_pool_new :: "endpoint_spec list \<Rightarrow> client_evm_error + endpoint_pool" where
  "endpoint_pool_new specs =
     (if specs = [] then Inl (InvalidConfig HttpScope ''at least one rpc endpoint is required'')
      else Inr
        \<lparr>po_endpoints = map (\<lambda>spec. \<lparr>nd_url = es_url spec, nd_label = es_label spec\<rparr>) specs,
         po_order = smooth_weighted_order (map (\<lambda>spec. max (es_weight spec) 1) specs),
         po_cursor = 0, po_health = replicate (length specs) healthy\<rparr>)"

definition endpoint_pool_single :: "string \<Rightarrow> string \<Rightarrow> endpoint_pool" where
  "endpoint_pool_single label url =
     \<lparr>po_endpoints = [\<lparr>nd_url = url, nd_label = label\<rparr>], po_order = [0], po_cursor = 0, po_health = [healthy]\<rparr>"

definition cooldown_of :: "endpoint_health list \<Rightarrow> nat \<Rightarrow> nat option" where
  "cooldown_of health idx = (if idx < length health then eh_cooldown_until (health ! idx) else None)"

text \<open>The scan of the rotation: \<open>Inl\<close> is its early return. \<open>start + offset\<close> wraps in a release build.\<close>

fun pick_scan :: "endpoint_health list \<Rightarrow> nat list \<Rightarrow> nat list \<Rightarrow> nat \<Rightarrow> u64 \<Rightarrow> nat list \<Rightarrow> (nat \<times> nat) option \<Rightarrow>
    nat + (nat \<times> nat) option" where
  "pick_scan health order tried now start [] fallback = Inr fallback"
| "pick_scan health order tried now start (offset # offsets) fallback =
     (let idx = order ! (unat (start + of_nat offset) mod length order)
      in if idx \<in> set tried then pick_scan health order tried now start offsets fallback
         else case cooldown_of health idx of
           None \<Rightarrow> Inl idx
         | Some until \<Rightarrow>
             if until \<le> now then Inl idx
             else pick_scan health order tried now start offsets
               (if (case fallback of None \<Rightarrow> True | Some (_, earliest) \<Rightarrow> until < earliest) then Some (idx, until) else fallback))"

text \<open>An empty rotation divides by zero: \<open>None\<close> is that panic.\<close>

definition pick_excluding :: "nat list \<Rightarrow> nat \<Rightarrow> endpoint_pool \<Rightarrow> endpoint_pool \<times> nat option" where
  "pick_excluding tried now pool =
     (let start = po_cursor pool;
          order = po_order pool
      in (pool\<lparr>po_cursor := start + 1\<rparr>,
          case pick_scan (po_health pool) order tried now start [0..<length order] None of
            Inl idx \<Rightarrow> Some idx
          | Inr (Some (idx, _)) \<Rightarrow> Some idx
          | Inr None \<Rightarrow> if order = [] then None else Some (order ! (unat start mod length order))))"

definition report_success :: "nat \<Rightarrow> endpoint_pool \<Rightarrow> endpoint_pool" where
  "report_success idx pool = pool\<lparr>po_health := (po_health pool)[idx := healthy]\<rparr>"

definition failed_at :: "nat \<Rightarrow> endpoint_health \<Rightarrow> endpoint_health" where
  "failed_at now entry =
     (let failures = saturating_add (eh_failures entry) 1
      in \<lparr>eh_failures = failures, eh_cooldown_until = Some (now + backoff_duration failures)\<rparr>)"

definition report_failure :: "nat \<Rightarrow> nat \<Rightarrow> endpoint_pool \<Rightarrow> endpoint_pool" where
  "report_failure idx now pool =
     (if idx < length (po_health pool) then pool\<lparr>po_health := (po_health pool)[idx := failed_at now (po_health pool ! idx)]\<rparr>
      else pool)"

section \<open>Failover\<close>

record failover_attempt =
  fo_label :: string
  fo_error :: string

definition record_attempt :: "string \<Rightarrow> client_evm_error \<Rightarrow> failover_attempt" where
  "record_attempt label e = \<lparr>fo_label = label, fo_error = error_text e\<rparr>"

fun joined :: "string \<Rightarrow> string list \<Rightarrow> string" where
  "joined sep [] = []"
| "joined sep [s] = s"
| "joined sep (s # ss) = s @ sep @ joined sep ss"

text \<open>The dash is the three bytes of its UTF-8 code.\<close>

definition render_failover_trace :: "failover_attempt list \<Rightarrow> nat \<Rightarrow> bool \<Rightarrow> string" where
  "render_failover_trace trace pool_size short_circuited =
     (let stopped = (if short_circuited then '' '' @ [CHR 0xE2, CHR 0x80, CHR 0x94] @ '' stopped on non-retryable error'' else []);
          outcomes = joined ''; '' (map (\<lambda>a. fo_label a @ ''=['' @ fo_error a @ '']'') trace)
      in ''failover failed: tried '' @ show_decimal (length trace) @ '' of '' @ show_decimal pool_size @
         '' endpoint(s)'' @ stopped @ '': '' @ outcomes)"

definition failover_exhausted :: "failover_attempt list \<Rightarrow> nat \<Rightarrow> bool \<Rightarrow> client_evm_error" where
  "failover_exhausted trace pool_size short_circuited =
     FailoverExhausted (render_failover_trace trace pool_size short_circuited)"

text \<open>
  A request's environment: the answer to its n-th attempt on a URL, the clock at its n-th pick, and
  what other requests do to the pool before its n-th access.
\<close>

record 'a failover_env =
  fe_attempt :: "nat \<Rightarrow> string \<Rightarrow> client_evm_error + 'a"
  fe_now :: "nat \<Rightarrow> nat"
  fe_others :: "nat \<Rightarrow> endpoint_pool \<Rightarrow> endpoint_pool"

text \<open>The loop: \<open>None\<close> is a panic, the first argument the iterations left.\<close>

fun failover_loop :: "'a failover_env \<Rightarrow> nat \<Rightarrow> nat \<Rightarrow> nat list \<Rightarrow> failover_attempt list \<Rightarrow> client_evm_error option \<Rightarrow>
    endpoint_pool \<Rightarrow> (endpoint_pool \<times> (client_evm_error + 'a)) option" where
  "failover_loop E 0 step tried trace last_error pool = Some
     (pool,
      if 1 < length (po_endpoints pool) then Inl (failover_exhausted trace (length (po_endpoints pool)) False)
      else case last_error of
             Some e \<Rightarrow> Inl e
           | None \<Rightarrow> Inl (failover_exhausted trace (length (po_endpoints pool)) False))"
| "failover_loop E (Suc left) step tried trace last_error pool =
     (let pool_size = length (po_endpoints pool);
          wrap = 1 < pool_size;
          now = fe_now E step
      in case pick_excluding tried now (fe_others E (2 * step) pool) of
           (pool, None) \<Rightarrow> None
         | (pool, Some idx) \<Rightarrow>
             if length (po_endpoints pool) \<le> idx then failover_loop E 0 step tried trace last_error pool
             else
               let endpoint = po_endpoints pool ! idx;
                   outcome = fe_attempt E step (nd_url endpoint);
                   pool = fe_others E (2 * step + 1) pool
               in case outcome of
                    Inr value \<Rightarrow> Some (report_success idx pool, Inr value)
                  | Inl e \<Rightarrow>
                      if is_retryable e then
                        failover_loop E left (step + 1) (tried @ [idx])
                          (if wrap then trace @ [record_attempt (nd_label endpoint) e] else trace) (Some e) (report_failure idx now pool)
                      else Some (pool,
                        if \<not> wrap then Inl e
                        else Inl (failover_exhausted (trace @ [record_attempt (nd_label endpoint) e]) pool_size True)))"

definition with_failover :: "'a failover_env \<Rightarrow> endpoint_pool \<Rightarrow> (endpoint_pool \<times> (client_evm_error + 'a)) option" where
  "with_failover E pool = failover_loop E (length (po_endpoints pool)) 0 [] [] None pool"

section \<open>Pools of the chains\<close>

fun chain_debug :: "chain_key \<Rightarrow> string" where
  "chain_debug Ethereum = ''Ethereum''"
| "chain_debug Arbitrum = ''Arbitrum''"
| "chain_debug Base = ''Base''"
| "chain_debug Optimism = ''Optimism''"
| "chain_debug Polygon = ''Polygon''"
| "chain_debug Bnb = ''Bnb''"
| "chain_debug Avalanche = ''Avalanche''"

type_synonym chain_endpoints = "(chain_key, endpoint_pool) hmap"

definition chain_pool :: "chain_endpoints \<Rightarrow> chain_key \<Rightarrow> client_evm_error + endpoint_pool" where
  "chain_pool pools chain =
     (case map_of pools chain of
        Some pool \<Rightarrow> Inr pool
      | None \<Rightarrow> Inl (InvalidConfig HttpScope (''no rpc endpoints configured for chain '' @ chain_debug chain)))"

fun assemble_chains :: "(chain_key, endpoint_spec list) hmap \<Rightarrow> chain_key list \<Rightarrow> chain_endpoints \<Rightarrow>
    client_evm_error + chain_endpoints" where
  "assemble_chains specs [] pools = Inr pools"
| "assemble_chains specs (chain # chain_list) pools =
     (let chain_specs = (case map_of specs chain of Some s \<Rightarrow> s | None \<Rightarrow> [])
      in if chain_specs = [] then Inl (InvalidConfig HttpScope (''no rpc endpoints configured for chain '' @ chain_debug chain))
         else case endpoint_pool_new chain_specs of
                Inl e \<Rightarrow> Inl e
              | Inr pool \<Rightarrow> assemble_chains specs chain_list (AList.update chain pool pools))"

definition assemble_chain_endpoints :: "(chain_key, endpoint_spec list) hmap \<Rightarrow> client_evm_error + chain_endpoints" where
  "assemble_chain_endpoints specs = assemble_chains specs ACTIVE_CHAINS []"

fun assemble_graphs :: "(chain_key, endpoint_spec list) hmap \<Rightarrow> chain_key list \<Rightarrow> chain_endpoints \<Rightarrow>
    client_evm_error + chain_endpoints" where
  "assemble_graphs specs [] pools = Inr pools"
| "assemble_graphs specs (chain # chain_list) pools =
     (if v4_deployment chain = None then assemble_graphs specs chain_list pools
      else case map_of specs chain of
             None \<Rightarrow> assemble_graphs specs chain_list pools
           | Some chain_specs \<Rightarrow>
               if chain_specs = [] then assemble_graphs specs chain_list pools
               else case endpoint_pool_new chain_specs of
                      Inl e \<Rightarrow> Inl e
                    | Inr pool \<Rightarrow> assemble_graphs specs chain_list (AList.update chain pool pools))"

definition assemble_graph_endpoints :: "(chain_key, endpoint_spec list) hmap \<Rightarrow> client_evm_error + chain_endpoints" where
  "assemble_graph_endpoints specs = assemble_graphs specs ACTIVE_CHAINS []"

section \<open>Subscriptions\<close>

text \<open>A trimmed text is empty when it holds only white space; the URLs are ASCII.\<close>

definition is_blank :: "string \<Rightarrow> bool" where
  "is_blank s \<longleftrightarrow> list_all (\<lambda>c. c \<in> {CHR 0x20, CHR 0x09, CHR 0x0A, CHR 0x0B, CHR 0x0C, CHR 0x0D}) s"

type_synonym chain_subscriptions = "(chain_key, endpoint_spec list) hmap"

definition no_websocket :: "chain_key \<Rightarrow> client_evm_error" where
  "no_websocket chain = InvalidConfig SubscriptionScope (''no websocket endpoint configured for chain '' @ chain_debug chain)"

definition chain_subscriptions_new :: "chain_subscriptions \<Rightarrow> client_evm_error + chain_subscriptions" where
  "chain_subscriptions_new ws =
     (case find (\<lambda>chain. \<not> (case map_of ws chain of
                Some specs \<Rightarrow> list_ex (\<lambda>spec. \<not> is_blank (es_url spec)) specs
              | None \<Rightarrow> False)) ACTIVE_CHAINS of
        Some chain \<Rightarrow> Inl (no_websocket chain)
      | None \<Rightarrow> Inr ws)"

definition ws_endpoints :: "chain_subscriptions \<Rightarrow> chain_key \<Rightarrow> client_evm_error + endpoint_spec list" where
  "ws_endpoints ws chain =
     (case map_of ws chain of
        Some specs \<Rightarrow> if specs \<noteq> [] then Inr specs else Inl (no_websocket chain)
      | None \<Rightarrow> Inl (no_websocket chain))"

record ws_subscription_endpoint =
  ws_chain :: chain_key
  ws_label :: string
  ws_url :: string

definition plan_ws_subscriptions :: "chain_subscriptions \<Rightarrow> ws_subscription_endpoint list" where
  "plan_ws_subscriptions ws = concat (map (\<lambda>chain. map (\<lambda>spec. \<lparr>ws_chain = chain, ws_label = es_label spec, ws_url = es_url spec\<rparr>)
     (case ws_endpoints ws chain of Inr specs \<Rightarrow> specs | Inl _ \<Rightarrow> [])) ACTIVE_CHAINS)"

end
