(* ===== verification/EndpointLaws.thy ===== *)
theory EndpointLaws
  imports Endpoints
begin

text \<open>
  The laws of the endpoint pools: the rotation gives every endpoint its weight and never runs ahead of
  it, a pick takes an untried endpoint that is not cooling down whenever there is one, and a request
  fails over to every endpoint once before it gives up, whatever other requests do meanwhile.
\<close>

section \<open>The rotation\<close>

lemma last_max_spec:
  "(last_max i (b, m) vs = b \<and> (\<forall>v\<in>set vs. v \<le> m)) \<or>
   (i \<le> last_max i (b, m) vs \<and> last_max i (b, m) vs < i + length vs \<and> m \<le> vs ! (last_max i (b, m) vs - i) \<and>
    (\<forall>v\<in>set vs. v \<le> vs ! (last_max i (b, m) vs - i)))"
proof (induction vs arbitrary: i b m)
  case (Cons v vs)
  show ?case
  proof (cases "m \<le> v")
    case True
    let ?r = "last_max (i + 1) (i, v) vs"
    have "\<not> ?r \<le> i \<Longrightarrow> (v # vs) ! (?r - i) = vs ! (?r - Suc i)" by (simp add: nth_Cons' Suc_diff_Suc)
    with Cons.IH [of "i + 1" i v] True show ?thesis by (fastforce simp: nth_Cons')
  next
    case False
    let ?r = "last_max (i + 1) (b, m) vs"
    have "\<not> ?r \<le> i \<Longrightarrow> (v # vs) ! (?r - i) = vs ! (?r - Suc i)" by (simp add: nth_Cons' Suc_diff_Suc)
    with Cons.IH [of "i + 1" b m] False show ?thesis by (fastforce simp: nth_Cons')
  qed
qed simp

lemma last_max_index_spec:
  assumes "vs \<noteq> []"
  obtains s where "last_max_index vs = Some s" "s < length vs" "\<forall>v\<in>set vs. v \<le> vs ! s"
proof -
  obtain v vs' where vs: "vs = v # vs'" using assms by (cases vs) auto
  show ?thesis
    by (rule that [of "last_max 1 (0, v) vs'"]) (use last_max_spec [of 1 0 v vs'] in \<open>auto simp: vs nth_Cons'\<close>)
qed

lemma sum_list_map2_plus:
  "length xs = length ys \<Longrightarrow> sum_list (map2 (\<lambda>x y. x + f y) xs ys) = sum_list xs + (sum_list (map f ys) :: int)"
  by (induction xs ys rule: list_induct2) simp_all

lemma sum_list_update_int: "s < length xs \<Longrightarrow> sum_list (xs[s := v]) = sum_list xs + v - (xs ! s :: int)"
  by (induction xs arbitrary: s) (auto split: nat.split)

lemma positive_of_positive_sum: "0 < sum_list xs \<Longrightarrow> \<forall>x\<in>set xs. x \<le> (m :: int) \<Longrightarrow> 0 < m"
proof (rule ccontr)
  assume sum: "0 < sum_list xs" "\<forall>x\<in>set xs. x \<le> m" and "\<not> 0 < m"
  then have "\<forall>x\<in>set xs. x \<le> 0" by force
  then have "sum_list xs \<le> 0" by (induction xs) auto
  with sum show False by simp
qed

text \<open>What the loop keeps of the values: their number, their sum and their lower bound.\<close>

definition swrr_ok :: "int \<Rightarrow> u32 list \<Rightarrow> int list \<Rightarrow> bool" where
  "swrr_ok whole weights current \<longleftrightarrow>
     length current = length weights \<and> sum_list current = 0 \<and> (\<forall>i<length weights. - whole < current ! i)"

lemma swrr_step:
  assumes "swrr_ok whole weights current" "whole = sum_list (map uint weights)" "0 < whole"
  obtains s current' where "s < length weights" "swrr_ok whole weights current'"
    "swrr (Suc n) whole weights current = s # swrr n whole weights current'"
    "\<And>i. i < length weights \<Longrightarrow> current' ! i = current ! i + uint (weights ! i) - (if i = s then whole else 0)"
proof -
  let ?added = "map2 (\<lambda>value weight. value + uint weight) current weights"
  have len: "length ?added = length weights" and sum: "sum_list ?added = whole"
    using assms by (simp_all add: swrr_ok_def sum_list_map2_plus)
  with assms(3) have "?added \<noteq> []" by (metis less_irrefl sum_list.Nil)
  then obtain s where s: "last_max_index ?added = Some s" "s < length ?added" "\<forall>v\<in>set ?added. v \<le> ?added ! s"
    by (rule last_max_index_spec)
  let ?current = "?added[s := ?added ! s - whole]"
  have positive: "0 < ?added ! s" using positive_of_positive_sum sum s(3) assms(3) by metis
  have at: "?current ! i = current ! i + uint (weights ! i) - (if i = s then whole else 0)" if "i < length weights" for i
    using that assms(1) s(2) by (auto simp: swrr_ok_def)
  have "- whole < ?current ! i" if "i < length weights" for i
  proof (cases "i = s")
    case True
    with s(2) positive show ?thesis by simp
  next
    case False
    with at [OF that] have "?current ! i = current ! i + uint (weights ! i)" by simp
    moreover have "- whole < current ! i" using assms(1) that by (simp add: swrr_ok_def)
    ultimately show ?thesis using uint_ge_0 [of "weights ! i"] by linarith
  qed
  moreover have "sum_list ?current = 0" unfolding sum_list_update_int [OF s(2)] sum by simp
  ultimately have "swrr_ok whole weights ?current" using len by (simp add: swrr_ok_def)
  moreover have "swrr (Suc n) whole weights current = s # swrr n whole weights ?current" by (simp add: s(1) Let_def)
  ultimately show ?thesis using that s(2) len at by simp
qed

lemma swrr_spec:
  assumes "swrr_ok whole weights current" "whole = sum_list (map uint weights)" "0 < whole"
  shows "length (swrr n whole weights current) = n \<and> set (swrr n whole weights current) \<subseteq> {..<length weights} \<and>
    (\<forall>i<length weights. \<forall>j\<le>n. int (count_list (take j (swrr n whole weights current)) i) * whole <
       current ! i + int j * uint (weights ! i) + whole)"
  using assms(1)
proof (induction n arbitrary: current)
  case 0
  then show ?case by (auto simp: swrr_ok_def)
next
  case (Suc n)
  obtain s current' where s: "s < length weights" "swrr_ok whole weights current'"
    "swrr (Suc n) whole weights current = s # swrr n whole weights current'"
    "\<And>i. i < length weights \<Longrightarrow> current' ! i = current ! i + uint (weights ! i) - (if i = s then whole else 0)"
    using swrr_step [OF Suc.prems assms(2,3), of n] by blast
  note IH = Suc.IH [OF s(2)]
  have "int (count_list (take j (s # swrr n whole weights current')) i) * whole < current ! i + int j * uint (weights ! i) + whole"
    if i: "i < length weights" and j: "j \<le> Suc n" for i j
  proof (cases j)
    case 0
    then show ?thesis using Suc.prems i by (auto simp: swrr_ok_def)
  next
    case (Suc j')
    with IH i j have "int (count_list (take j' (swrr n whole weights current')) i) * whole <
        current' ! i + int j' * uint (weights ! i) + whole" by simp
    then show ?thesis unfolding s(4) [OF i] Suc by (cases "i = s") (simp_all add: algebra_simps)
  qed
  with IH s(1,3) show ?case by simp
qed

lemma sum_count_list: "set xs \<subseteq> {..<n :: nat} \<Longrightarrow> (\<Sum>i<n. count_list xs i) = length xs"
proof (induction xs)
  case (Cons x xs)
  have "(\<Sum>i<n. count_list (x # xs) i) = (\<Sum>i<n. (if i = x then 1 else 0) + count_list xs i)"
    by (rule sum.cong) auto
  also have "\<dots> = (\<Sum>i<n. if i = x then 1 else 0) + length xs" using Cons by (simp add: sum.distrib)
  also have "(\<Sum>i<n. if i = x then 1 else 0 :: nat) = 1" using Cons.prems by (subst sum.delta) simp_all
  finally show ?case by simp
qed simp

lemma equal_of_sum:
  fixes f g :: "nat \<Rightarrow> nat"
  assumes "\<forall>i<n. f i \<le> g i" "(\<Sum>i<n. f i) = (\<Sum>i<n. g i)" "i < n"
  shows "f i = g i"
  using assms sum_mono_inv [of f "{..<n}" g i] by simp

definition weight_sum :: "u32 list \<Rightarrow> nat" where
  "weight_sum weights = sum_list (map unat weights)"

lemma int_weight_sum: "int (weight_sum weights) = sum_list (map uint weights)"
  by (induction weights) (simp_all add: weight_sum_def)

lemma order_prefix:
  assumes "0 < weight_sum weights"
  shows "length (smooth_weighted_order weights) = weight_sum weights"
    and "set (smooth_weighted_order weights) \<subseteq> {..<length weights}"
    and "i < length weights \<Longrightarrow> j \<le> weight_sum weights \<Longrightarrow>
      count_list (take j (smooth_weighted_order weights)) i * weight_sum weights < j * unat (weights ! i) + weight_sum weights"
proof -
  let ?whole = "sum_list (map uint weights)"
  have whole: "?whole = int (weight_sum weights)" by (simp add: int_weight_sum)
  have "swrr_ok ?whole weights (replicate (length weights) 0)"
    using assms by (simp add: swrr_ok_def whole sum_list_replicate)
  note spec = swrr_spec [OF this refl, of "weight_sum weights"]
  have order: "smooth_weighted_order weights = swrr (weight_sum weights) ?whole weights (replicate (length weights) 0)"
    by (simp add: smooth_weighted_order_def Let_def whole)
  show "length (smooth_weighted_order weights) = weight_sum weights" "set (smooth_weighted_order weights) \<subseteq> {..<length weights}"
    using spec assms by (simp_all add: order whole)
  assume "i < length weights" "j \<le> weight_sum weights"
  then have "int (count_list (take j (smooth_weighted_order weights)) i) * int (weight_sum weights) <
      int j * int (unat (weights ! i)) + int (weight_sum weights)"
    using spec assms by (simp add: order whole)
  then show "count_list (take j (smooth_weighted_order weights)) i * weight_sum weights < j * unat (weights ! i) + weight_sum weights"
    unfolding of_nat_mult [symmetric] of_nat_add [symmetric] of_nat_less_iff .
qed

lemma rotation_counts:
  assumes "i < length weights"
  shows "count_list (smooth_weighted_order weights) i = unat (weights ! i)"
proof (cases "0 < weight_sum weights")
  case True
  let ?os = "smooth_weighted_order weights"
  have "count_list ?os i \<le> unat (weights ! i)" if i: "i < length weights" for i
  proof -
    have "count_list ?os i * weight_sum weights < weight_sum weights * unat (weights ! i) + weight_sum weights"
      using order_prefix(1) [OF True] order_prefix(3) [OF True i order_refl] by simp
    also have "\<dots> = Suc (unat (weights ! i)) * weight_sum weights" by simp
    finally show ?thesis by (simp only: mult_less_cancel2 less_Suc_eq_le)
  qed
  moreover have "(\<Sum>i<length weights. count_list ?os i) = (\<Sum>i<length weights. unat (weights ! i))"
    using sum_count_list [OF order_prefix(2) [OF True]] order_prefix(1) [OF True]
    by (simp add: weight_sum_def sum_list_sum_nth atLeast0LessThan)
  ultimately show ?thesis 
    by (intro equal_of_sum [where n = "length weights" and f = "count_list ?os"] allI impI assms)
next
  case False
  then have "weights ! i = 0" using assms by (simp add: weight_sum_def unat_eq_zero)
  moreover have "smooth_weighted_order weights = []"
    using False int_weight_sum [of weights] by (simp add: smooth_weighted_order_def Let_def)
  ultimately show ?thesis by simp
qed

text \<open>
  C34. The rotation is fair. Its cycle gives every endpoint exactly its weight in picks, and no prefix of the
  cycle runs ahead: after any number of picks an endpoint has fewer than its proportional share plus one.
\<close>

theorem rotation_fair:
  assumes "i < length weights"
  shows "count_list (smooth_weighted_order weights) i = unat (weights ! i) \<and>
    (\<forall>j\<le>length (smooth_weighted_order weights). 0 < weight_sum weights \<longrightarrow>
       count_list (take j (smooth_weighted_order weights)) i * weight_sum weights < j * unat (weights ! i) + weight_sum weights)"
  using rotation_counts [OF assms] by (intro conjI allI impI order_prefix(3) [OF _ assms]) (simp_all add: order_prefix(1))

theorem rotation_fair_witness:
  "smooth_weighted_order [5, 1, 1] = [0, 0, 2, 0, 1, 0, 0] \<and> count_list (smooth_weighted_order [5, 1, 1]) 0 = 5"
proof -
  have "smooth_weighted_order [5, 1, 1] = [0, 0, 2, 0, 1, 0, 0]" by code_simp
  then show ?thesis using rotation_fair [of 0 "[5, 1, 1]"] by simp
qed

section \<open>Picks\<close>

definition pool_size_of :: "endpoint_pool \<Rightarrow> nat" where
  "pool_size_of pool = length (po_endpoints pool)"

definition pool_ok :: "endpoint_pool \<Rightarrow> bool" where
  "pool_ok pool \<longleftrightarrow> 0 < pool_size_of pool \<and> length (po_health pool) = pool_size_of pool \<and>
     set (po_order pool) = {..<pool_size_of pool} \<and> length (po_order pool) + pool_size_of pool \<le> 2 ^ 63"

lemma in_set_of_count: "0 < count_list xs x \<Longrightarrow> x \<in> set xs"
  by (metis count_list_0_iff less_numeral_extra(3))

lemma endpoint_pool_new_ok:
  assumes "endpoint_pool_new specs = Inr pool" "length specs < 2 ^ 30"
  shows "pool_ok pool"
proof -
  let ?ws = "map (\<lambda>spec. max (es_weight spec) 1) specs"
  have specs: "specs \<noteq> []" and pool: "length (po_endpoints pool) = length specs" "length (po_health pool) = length specs"
    "po_order pool = smooth_weighted_order ?ws"
    using assms(1) by (auto simp: endpoint_pool_new_def split: if_splits)
  have "unat w < 2 ^ LENGTH(32)" for w :: u32 by (rule unsigned_less)
  then have "sum_list (map unat ws) \<le> length ws * 2 ^ 32" for ws :: "u32 list"
    by (induction ws) (auto intro: add_mono less_imp_le)
  from this [of ?ws] have bound: "weight_sum ?ws \<le> length specs * 2 ^ 32" by (simp add: weight_sum_def)
  have positive: "0 < unat (?ws ! i)" if "i < length ?ws" for i
    using that by (cases "es_weight (specs ! i) = 0") (auto simp: max_def unat_gt_0)
  have used: "0 < count_list (smooth_weighted_order ?ws) i" if "i < length ?ws" for i
    using rotation_counts [OF that] positive [OF that] by simp
  have "0 < weight_sum ?ws"
    using positive [of 0] specs by (cases specs) (simp_all add: weight_sum_def)
  from order_prefix(1,2) [OF this] have order: "length (po_order pool) = weight_sum ?ws" "set (po_order pool) \<subseteq> {..<length specs}"
    by (simp_all add: pool)
  have "{..<length specs} \<subseteq> set (po_order pool)"
    using used by (auto simp: pool intro: in_set_of_count)
  with order bound specs assms(2) pool(1,2) show ?thesis by (auto simp: pool_ok_def pool_size_of_def)
qed

definition available :: "endpoint_pool \<Rightarrow> nat \<Rightarrow> nat \<Rightarrow> bool" where
  "available pool now idx \<longleftrightarrow> (case cooldown_of (po_health pool) idx of None \<Rightarrow> True | Some until \<Rightarrow> until \<le> now)"

text \<open>The endpoints that the scan visits, from its offsets.\<close>

definition visited_by :: "nat list \<Rightarrow> u64 \<Rightarrow> nat list \<Rightarrow> nat list" where
  "visited_by order start offsets = map (\<lambda>offset. order ! (unat (start + of_nat offset) mod length order)) offsets"

lemma rotation_covers:
  assumes "unat start + length order \<le> 2 ^ 64"
  shows "set (visited_by order start [0..<length order]) = set order"
proof -
  let ?n = "length order"
  have sum: "unat (start + of_nat k) = unat start + k" if "k < ?n" for k
  proof -
    have "unat (of_nat k :: u64) = k" using that assms by (simp add: unat_of_nat take_bit_nat_eq_self)
    then show ?thesis using that assms by (subst unat_plus_simple [THEN iffD1]) (simp_all add: no_olen_add_nat)
  qed
  have "(\<lambda>k. (unat start + k) mod ?n) ` {0..<?n} = {0..<?n}"
  proof (intro equalityI subsetI)
    fix r
    assume "r \<in> {0..<?n}"
    then have r: "r < ?n" by simp
    let ?k = "(r + (?n - unat start mod ?n)) mod ?n"
    have "unat start mod ?n < ?n" using r by (intro mod_less_divisor) linarith
    then have "unat start mod ?n + (r + (?n - unat start mod ?n)) = r + ?n" by linarith
    moreover have "(unat start + ?k) mod ?n = (unat start mod ?n + (r + (?n - unat start mod ?n))) mod ?n" by (simp add: mod_simps)
    ultimately have "(unat start + ?k) mod ?n = (r + ?n) mod ?n" by metis
    then have "(unat start + ?k) mod ?n = r" using r by simp
    moreover have "?k < ?n" using r by (intro mod_less_divisor) linarith
    ultimately show "r \<in> (\<lambda>k. (unat start + k) mod ?n) ` {0..<?n}" by (intro image_eqI [where x = ?k]) simp_all
  qed (auto intro: mod_less_divisor)
  then have "(\<lambda>k. order ! ((unat start + k) mod ?n)) ` {0..<?n} = (!) order ` {0..<?n}"
    by (metis (no_types) image_image)
  then have "(\<lambda>k. order ! ((unat start + k) mod ?n)) ` {0..<?n} = set order"
    using nth_image [of ?n order] by simp
  moreover have "set (visited_by order start [0..<?n]) = (\<lambda>k. order ! ((unat start + k) mod ?n)) ` {0..<?n}"
    unfolding visited_by_def set_map set_upt by (rule image_cong) (simp_all add: sum)
  ultimately show ?thesis by simp
qed

text \<open>The scan returns the first untried endpoint that is available, or the untried one that cools down first.\<close>

lemma pick_scan_spec:
  assumes "pick_scan health order tried now start offsets fallback = r"
    and "case fallback of None \<Rightarrow> True | Some (idx, until) \<Rightarrow> idx \<notin> set tried \<and> cooldown_of health idx = Some until \<and> now < until"
  shows "case r of
      Inl idx \<Rightarrow> idx \<in> set (visited_by order start offsets) - set tried \<and>
        (case cooldown_of health idx of None \<Rightarrow> True | Some until \<Rightarrow> until \<le> now)
    | Inr None \<Rightarrow> fallback = None \<and> set (visited_by order start offsets) \<subseteq> set tried
    | Inr (Some (idx, until)) \<Rightarrow>
        idx \<notin> set tried \<and> (idx \<in> set (visited_by order start offsets) \<or> fallback = Some (idx, until)) \<and>
        cooldown_of health idx = Some until \<and> now < until \<and>
        (case fallback of None \<Rightarrow> True | Some (_, earliest) \<Rightarrow> until \<le> earliest) \<and>
        (\<forall>i\<in>set (visited_by order start offsets) - set tried. \<exists>u. cooldown_of health i = Some u \<and> until \<le> u)"
  using assms
proof (induction offsets arbitrary: fallback r)
  case (Cons offset offsets)
  let ?idx = "order ! (unat (start + of_nat offset) mod length order)"
  note IH = Cons.IH [OF refl]
  have visited: "visited_by order start (offset # offsets) = ?idx # visited_by order start offsets" by (simp add: visited_by_def)
  show ?case
  proof (cases "?idx \<in> set tried \<or> (case cooldown_of health ?idx of None \<Rightarrow> True | Some until \<Rightarrow> until \<le> now)")
    case True
    then show ?thesis
    proof
      assume "?idx \<in> set tried"
      with Cons.prems(1) IH [of fallback] Cons.prems(2) show ?thesis
        by (auto simp: visited Let_def split: sum.splits option.splits)
    next
      assume "case cooldown_of health ?idx of None \<Rightarrow> True | Some until \<Rightarrow> until \<le> now"
      with Cons.prems(1) IH [of fallback] Cons.prems(2) show ?thesis
        by (auto simp: visited Let_def split: sum.splits option.splits if_splits)
    qed
  next
    case False
    then obtain until where until: "?idx \<notin> set tried" "cooldown_of health ?idx = Some until" "now < until"
      by (auto split: option.splits)
    let ?next = "if (case fallback of None \<Rightarrow> True | Some (_, earliest) \<Rightarrow> until < earliest) then Some (?idx, until) else fallback"
    have step: "pick_scan health order tried now start offsets ?next = r" using Cons.prems(1) until by (simp add: Let_def)
    have "case ?next of None \<Rightarrow> True | Some (idx, until) \<Rightarrow> idx \<notin> set tried \<and> cooldown_of health idx = Some until \<and> now < until"
      using Cons.prems(2) until by (auto split: option.splits)
    from IH [OF this, unfolded step] until show ?thesis
      by (cases fallback) (auto simp: visited split: sum.splits option.splits if_splits prod.splits)
  qed
qed (auto simp: visited_by_def split: option.splits)

lemma pick_spec:
  assumes "pool_ok pool" "unat (po_cursor pool) + length (po_order pool) \<le> 2 ^ 64"
    and "\<not> {..<pool_size_of pool} \<subseteq> set tried"
  obtains idx where "pick_excluding tried now pool = (pool\<lparr>po_cursor := po_cursor pool + 1\<rparr>, Some idx)"
    "idx < pool_size_of pool" "idx \<notin> set tried"
    "if \<exists>i<pool_size_of pool. i \<notin> set tried \<and> available pool now i then available pool now idx
     else \<exists>until. cooldown_of (po_health pool) idx = Some until \<and>
       (\<forall>i<pool_size_of pool. i \<notin> set tried \<longrightarrow> (\<exists>u. cooldown_of (po_health pool) i = Some u \<and> until \<le> u))"
proof -
  let ?start = "po_cursor pool" and ?order = "po_order pool"
  have seen: "set (visited_by ?order ?start [0..<length ?order]) = {..<pool_size_of pool}"
    using rotation_covers [OF assms(2)] assms(1) by (simp add: pool_ok_def)
  note spec = pick_scan_spec [where fallback = None and tried = tried and now = now and health = "po_health pool", OF refl,
      of ?order ?start "[0..<length ?order]", unfolded seen]
  consider (found) idx where "pick_scan (po_health pool) ?order tried now ?start [0..<length ?order] None = Inl idx"
    | (waiting) idx until where "pick_scan (po_health pool) ?order tried now ?start [0..<length ?order] None = Inr (Some (idx, until))"
    | (none) "pick_scan (po_health pool) ?order tried now ?start [0..<length ?order] None = Inr None"
    by (cases "pick_scan (po_health pool) ?order tried now ?start [0..<length ?order] None") (auto, metis option.exhaust surj_pair)
  then show ?thesis
  proof cases
    case found
    with spec show ?thesis by (intro that [of idx]) (auto simp: pick_excluding_def Let_def available_def)
  next
    case waiting
    with spec have "idx \<in> {..<pool_size_of pool} - set tried" "cooldown_of (po_health pool) idx = Some until"
      "\<forall>i\<in>{..<pool_size_of pool} - set tried. \<exists>u. cooldown_of (po_health pool) i = Some u \<and> until \<le> u" "now < until" by auto
    moreover from this have "\<not> (\<exists>i<pool_size_of pool. i \<notin> set tried \<and> available pool now i)"
      by (force simp: available_def split: option.splits)
    ultimately show ?thesis using waiting by (intro that [of idx]) (auto simp: pick_excluding_def Let_def)
  next
    case none
    with spec assms(3) show ?thesis by auto
  qed
qed

text \<open>
  A request never waits on a bad endpoint while a good one is left. Of the endpoints that it has not tried,
  a pick takes one that is not cooling down when there is one, and otherwise one whose cooldown ends
  first; and a cooldown ends within a minute of the failure that set it.
\<close>

lemma pick_prefers_available:
  assumes "pool_ok pool" "unat (po_cursor pool) + length (po_order pool) \<le> 2 ^ 64" "\<not> {..<pool_size_of pool} \<subseteq> set tried"
  shows "\<exists>idx<pool_size_of pool. idx \<notin> set tried \<and> snd (pick_excluding tried now pool) = Some idx \<and>
    (if \<exists>i<pool_size_of pool. i \<notin> set tried \<and> available pool now i then available pool now idx
     else \<exists>until. cooldown_of (po_health pool) idx = Some until \<and>
       (\<forall>i<pool_size_of pool. i \<notin> set tried \<longrightarrow> (\<exists>u. cooldown_of (po_health pool) i = Some u \<and> until \<le> u))) \<and>
    available (report_failure idx now pool) (now + COOLDOWN_CAP) idx"
proof -
  obtain idx where idx: "pick_excluding tried now pool = (pool\<lparr>po_cursor := po_cursor pool + 1\<rparr>, Some idx)"
    "idx < pool_size_of pool" "idx \<notin> set tried"
    "if \<exists>i<pool_size_of pool. i \<notin> set tried \<and> available pool now i then available pool now idx
     else \<exists>until. cooldown_of (po_health pool) idx = Some until \<and>
       (\<forall>i<pool_size_of pool. i \<notin> set tried \<longrightarrow> (\<exists>u. cooldown_of (po_health pool) i = Some u \<and> until \<le> u))"
    by (rule pick_spec [OF assms])
  moreover have "available (report_failure idx now pool) (now + COOLDOWN_CAP) idx"
    using idx(2) assms(1) by (simp add: available_def report_failure_def cooldown_of_def pool_ok_def failed_at_def Let_def backoff_duration_def)
  ultimately show ?thesis by (intro exI [of _ idx]) simp
qed

section \<open>Failover\<close>

declare failover_loop.simps(2) [simp del]

text \<open>
  What other requests may do to a pool between two steps of a request: anything to the health of the
  endpoints, and picks of their own, fewer than \<open>2 ^ 63\<close> in all.
\<close>

definition shared_use :: "'a failover_env \<Rightarrow> bool" where
  "shared_use E \<longleftrightarrow> (\<forall>n pool. po_endpoints (fe_others E n pool) = po_endpoints pool \<and> po_order (fe_others E n pool) = po_order pool \<and>
     length (po_health (fe_others E n pool)) = length (po_health pool) \<and>
     unat (po_cursor (fe_others E n pool)) \<le> max (unat (po_cursor pool)) (2 ^ 63))"

lemma shared_useD:
  assumes "shared_use E" "pool_ok pool"
  shows "pool_ok (fe_others E n pool)" "po_endpoints (fe_others E n pool) = po_endpoints pool" "po_order (fe_others E n pool) = po_order pool"
    "unat (po_cursor (fe_others E n pool)) \<le> max (unat (po_cursor pool)) (2 ^ 63)"
  using assms by (simp_all add: shared_use_def pool_ok_def pool_size_of_def)

text \<open>The course of a request: the endpoints it tries, one after the other, and its result.\<close>

definition asked :: "'a failover_env \<Rightarrow> endpoint list \<Rightarrow> nat \<Rightarrow> nat list \<Rightarrow> nat \<Rightarrow> client_evm_error + 'a" where
  "asked E nodes step visited k = fe_attempt E (step + k) (nd_url (nodes ! (visited ! k)))"

definition attempts :: "'a failover_env \<Rightarrow> endpoint list \<Rightarrow> nat \<Rightarrow> nat list \<Rightarrow> failover_attempt list" where
  "attempts E nodes step visited =
     map (\<lambda>k. record_attempt (nd_label (nodes ! (visited ! k))) (projl (asked E nodes step visited k))) [0..<length visited]"

definition course :: "'a failover_env \<Rightarrow> endpoint list \<Rightarrow> nat \<Rightarrow> failover_attempt list \<Rightarrow> nat list \<Rightarrow> nat list \<Rightarrow> client_evm_error + 'a \<Rightarrow> bool" where
  "course E nodes step trace tried visited result \<longleftrightarrow>
     distinct visited \<and> set visited \<subseteq> {..<length nodes} - set tried \<and> visited \<noteq> [] \<and>
     (\<forall>k<length visited - 1. \<exists>e. asked E nodes step visited k = Inl e \<and> is_retryable e) \<and>
     (case asked E nodes step visited (length visited - 1) of
        Inr value \<Rightarrow> result = Inr value
      | Inl e \<Rightarrow>
          (is_retryable e \<longrightarrow> set tried \<union> set visited = {..<length nodes}) \<and>
          result = Inl (if length nodes = 1 then e
            else failover_exhausted (trace @ attempts E nodes step visited) (length nodes) (\<not> is_retryable e)))"

lemma asked_Cons: "asked E nodes step (idx # visited) (Suc k) = asked E nodes (Suc step) visited k"
  by (simp add: asked_def)

lemma attempts_Cons:
  "attempts E nodes step (idx # visited) =
     record_attempt (nd_label (nodes ! idx)) (projl (fe_attempt E step (nd_url (nodes ! idx)))) # attempts E nodes (Suc step) visited"
  unfolding attempts_def length_Cons map_upt_Suc by (simp add: asked_def)

lemma course_first:
  assumes "idx < length nodes" "idx \<notin> set tried" "asked E nodes step [idx] 0 = outcome"
    and "case outcome of Inr value \<Rightarrow> result = Inr value
      | Inl e \<Rightarrow> (is_retryable e \<longrightarrow> insert idx (set tried) = {..<length nodes}) \<and>
          result = Inl (if length nodes = 1 then e
            else failover_exhausted (trace @ [record_attempt (nd_label (nodes ! idx)) e]) (length nodes) (\<not> is_retryable e))"
  shows "course E nodes step trace tried [idx] result"
  using assms by (auto simp: course_def attempts_def split: sum.splits)

lemma course_stop:
  assumes "idx < length nodes" "idx \<notin> set tried" "loop = Some (pool', result)"
    and "case fe_attempt E step (nd_url (nodes ! idx)) of Inr value \<Rightarrow> result = Inr value
      | Inl e \<Rightarrow> (is_retryable e \<longrightarrow> insert idx (set tried) = {..<length nodes}) \<and>
          result = Inl (if length nodes = 1 then e
            else failover_exhausted (trace @ [record_attempt (nd_label (nodes ! idx)) e]) (length nodes) (\<not> is_retryable e))"
  shows "\<exists>pool' visited result. loop = Some (pool', result) \<and> course E nodes step trace tried visited result"
proof -
  have "course E nodes step trace tried [idx] result"
    by (rule course_first [OF assms(1,2) refl]) (use assms(4) in \<open>simp add: asked_def\<close>)
  with assms(3) show ?thesis by blast
qed

lemma course_next:
  assumes "idx < length nodes" "idx \<notin> set tried" "fe_attempt E step (nd_url (nodes ! idx)) = Inl e" "is_retryable e"
    and "course E nodes (Suc step) (trace @ [record_attempt (nd_label (nodes ! idx)) e]) (tried @ [idx]) visited result"
  shows "course E nodes step trace tried (idx # visited) result"
proof -
  have "asked E nodes step (idx # visited) 0 = Inl e" using assms(3) by (simp add: asked_def)
  moreover obtain n where n: "length visited = Suc n" using assms(5) by (cases visited) (simp_all add: course_def)
  moreover have "asked E nodes step (idx # visited) (Suc n) = asked E nodes (Suc step) visited n" by (rule asked_Cons)
  ultimately show ?thesis
    using assms by (auto simp: course_def attempts_Cons less_Suc_eq_0_disj asked_Cons split: sum.splits)
qed

lemma single_course:
  "length nodes = 1 \<Longrightarrow> course E nodes step trace tried visited result \<longleftrightarrow> course E nodes step trace' tried visited result"
  by (cases "asked E nodes step visited (length visited - 1)") (simp_all add: course_def)

text \<open>One iteration, which asked the endpoint \<open>idx\<close> and left the pool \<open>pool'\<close> when it goes on.\<close>

definition iterates :: "'a failover_env \<Rightarrow> endpoint list \<Rightarrow> nat \<Rightarrow> nat list \<Rightarrow> failover_attempt list \<Rightarrow> client_evm_error option \<Rightarrow>
    endpoint_pool \<Rightarrow> nat \<Rightarrow> endpoint_pool \<Rightarrow> bool" where
  "iterates E nodes left tried trace last_error pool idx pool' \<longleftrightarrow>
     (let loop = failover_loop E (Suc left) (length tried) tried trace last_error pool;
          attempt = record_attempt (nd_label (nodes ! idx))
      in case fe_attempt E (length tried) (nd_url (nodes ! idx)) of
           Inr value \<Rightarrow> \<exists>last. loop = Some (last, Inr value)
         | Inl e \<Rightarrow>
             if is_retryable e then
               loop = failover_loop E left (length (tried @ [idx])) (tried @ [idx])
                 (if 1 < length nodes then trace @ [attempt e] else trace) (Some e) pool'
             else \<exists>last. loop = Some (last,
               Inl (if 1 < length nodes then failover_exhausted (trace @ [attempt e]) (length nodes) True else e)))"

lemma failover_iteration:
  assumes "shared_use E" "pool_ok pool" "po_endpoints pool = nodes" "length tried < length nodes"
    "set tried \<subseteq> {..<length nodes}" "unat (po_cursor pool) \<le> 2 ^ 63 + length tried"
  obtains idx pool' where "idx < length nodes" "idx \<notin> set tried"
    "iterates E nodes left tried trace last_error pool idx pool'"
    "pool_ok pool'" "po_endpoints pool' = nodes" "unat (po_cursor pool') \<le> 2 ^ 63 + length (tried @ [idx])"
proof -
  let ?step = "length tried" and ?pool = "fe_others E (2 * length tried) pool"
  note shared = shared_useD [OF assms(1,2), of "2 * ?step"]
  have size: "pool_size_of ?pool = length nodes" using shared(2) assms(3) by (simp add: pool_size_of_def)
  have cursor: "unat (po_cursor ?pool) \<le> 2 ^ 63 + ?step" using shared(4) assms(6) by linarith
  have order: "length (po_order ?pool) + length nodes \<le> 2 ^ 63" "set (po_order ?pool) = {..<length nodes}"
    using shared(1) size by (simp_all add: pool_ok_def)
  then have "0 < card (set (po_order ?pool))" using assms(4) by (cases nodes) simp_all
  then have "0 < length (po_order ?pool)" using card_length [of "po_order ?pool"] by linarith
  with order(1) have "length nodes < 2 ^ 63" by linarith
  with cursor order(1) assms(4) have room: "unat (po_cursor ?pool) + length (po_order ?pool) \<le> 2 ^ 64" "unat (po_cursor ?pool) + 1 < 2 ^ 64"
    by simp_all
  have "card (set tried) < card {..<length nodes}" using card_length [of tried] assms(4) by simp
  then have left: "\<not> {..<pool_size_of ?pool} \<subseteq> set tried" unfolding size using card_mono [of "set tried" "{..<length nodes}"] by auto
  obtain idx where pick: "pick_excluding tried (fe_now E ?step) ?pool = (?pool\<lparr>po_cursor := po_cursor ?pool + 1\<rparr>, Some idx)"
    and idx: "idx < length nodes" "idx \<notin> set tried"
    by (rule pick_spec [OF shared(1) room(1) left, of "fe_now E ?step"]) (simp add: size)
  let ?picked = "?pool\<lparr>po_cursor := po_cursor ?pool + 1\<rparr>"
  have picked: "pool_ok ?picked" "po_endpoints ?picked = nodes" using shared(1,2) assms(3) by (simp_all add: pool_ok_def pool_size_of_def)
  have "unat (po_cursor ?picked) = unat (po_cursor ?pool) + 1"
    using room(2) by (simp add: unat_word_ariths)
  with cursor have cursor': "unat (po_cursor ?picked) \<le> 2 ^ 63 + length (tried @ [idx])" by simp
  note after = shared_useD [OF assms(1) picked(1), of "2 * ?step + 1"]
  let ?after = "fe_others E (2 * ?step + 1) ?picked"
  show ?thesis
  proof (rule that [OF idx, of "report_failure idx (fe_now E ?step) ?after"])
    show "pool_ok (report_failure idx (fe_now E ?step) ?after)"
      using after(1) by (simp add: report_failure_def pool_ok_def pool_size_of_def)
    show "po_endpoints (report_failure idx (fe_now E ?step) ?after) = nodes"
      using after(2) picked(2) by (simp add: report_failure_def)
    show "unat (po_cursor (report_failure idx (fe_now E ?step) ?after)) \<le> 2 ^ 63 + length (tried @ [idx])"
      using after(4) cursor' by (simp add: report_failure_def)
  qed (use pick idx after(2) picked(2) assms(3) in \<open>auto simp: failover_loop.simps(2) iterates_def Let_def shared(2) split: sum.split\<close>)
qed

lemma iteration_ends:
  assumes it: "iterates E nodes left tried trace last_error pool idx pool'" and idx: "idx < length nodes" "idx \<notin> set tried"
    and ends: "(\<forall>e. fe_attempt E (length tried) (nd_url (nodes ! idx)) = Inl e \<longrightarrow> \<not> is_retryable e) \<or>
      left = 0 \<and> po_endpoints pool' = nodes \<and> insert idx (set tried) = {..<length nodes}"
  shows "\<exists>pool' visited result. failover_loop E (Suc left) (length tried) tried trace last_error pool = Some (pool', result) \<and>
    course E nodes (length tried) trace tried visited result"
proof (cases "fe_attempt E (length tried) (nd_url (nodes ! idx))")
  case (Inr v)
  with it obtain p where "failover_loop E (Suc left) (length tried) tried trace last_error pool = Some (p, Inr v)"
    by (auto simp: iterates_def Let_def)
  from course_stop [OF idx this] Inr show ?thesis by simp
next
  case (Inl e)
  then have "\<not> is_retryable e \<or> left = 0 \<and> po_endpoints pool' = nodes" using ends by blast
  then obtain p where "failover_loop E (Suc left) (length tried) tried trace last_error pool = Some (p,
      Inl (if length nodes = 1 then e
        else failover_exhausted (trace @ [record_attempt (nd_label (nodes ! idx)) e]) (length nodes) (\<not> is_retryable e)))"
  proof (cases "is_retryable e")
    case True
    with it Inl \<open>\<not> is_retryable e \<or> left = 0 \<and> po_endpoints pool' = nodes\<close> idx(1) show ?thesis
      by (intro that [of pool']) (auto simp: iterates_def Let_def)
  next
    case False
    with it Inl idx(1) show ?thesis
      by (auto simp: iterates_def Let_def intro: that split: if_splits)
  qed
  from course_stop [OF idx this] Inl ends show ?thesis by auto
qed

lemma failover_course:
  assumes "shared_use E" "pool_ok pool" "po_endpoints pool = nodes" "Suc left + length tried = length nodes"
    "distinct tried" "set tried \<subseteq> {..<length nodes}" "unat (po_cursor pool) \<le> 2 ^ 63 + length tried"
  shows "\<exists>pool' visited result. failover_loop E (Suc left) (length tried) tried trace last_error pool = Some (pool', result) \<and>
    course E nodes (length tried) trace tried visited result"
  using assms(2-)
proof (induction left arbitrary: tried trace last_error pool)
  case (0 tried trace last_error pool)
  then have "length tried < length nodes" by simp
  with 0 obtain idx pool' where it: "idx < length nodes" "idx \<notin> set tried" "iterates E nodes 0 tried trace last_error pool idx pool'"
    "po_endpoints pool' = nodes" using failover_iteration [OF assms(1)] by metis
  moreover have "insert idx (set tried) = {..<length nodes}"
    by (rule card_subset_eq) (use it(1,2) 0 in \<open>auto simp: distinct_card\<close>)
  ultimately show ?case by (intro iteration_ends disjI2 conjI) simp_all
next
  case (Suc left tried trace last_error pool)
  then have "length tried < length nodes" by simp
  with Suc.prems obtain idx pool' where it: "idx < length nodes" "idx \<notin> set tried"
    "iterates E nodes (Suc left) tried trace last_error pool idx pool'" "pool_ok pool'" "po_endpoints pool' = nodes"
    "unat (po_cursor pool') \<le> 2 ^ 63 + length (tried @ [idx])" using failover_iteration [OF assms(1)] by metis
  show ?case
  proof (cases "\<exists>e. fe_attempt E (length tried) (nd_url (nodes ! idx)) = Inl e \<and> is_retryable e")
    case True
    then obtain e where e: "fe_attempt E (length tried) (nd_url (nodes ! idx)) = Inl e" "is_retryable e" by blast
    have "Suc left + length (tried @ [idx]) = length nodes" "distinct (tried @ [idx])" "set (tried @ [idx]) \<subseteq> {..<length nodes}"
      using Suc.prems it(1,2) by simp_all
    from Suc.IH [OF it(4,5) this it(6), of "trace @ [record_attempt (nd_label (nodes ! idx)) e]" "Some e"]
    show ?thesis
      using it(3) e Suc.prems(3)
      by (auto simp: iterates_def Let_def intro: course_next [OF it(1,2) e])
  next
    case False
    show ?thesis by (rule iteration_ends [OF it(3,1,2)]) (use False in blast)
  qed
qed

text \<open>
  C33. A request fails over to every endpoint once before it gives up. Whatever other requests do to the
  pool meanwhile, it never panics and asks distinct endpoints, all but the last of which answered with
  an error worth another try. The result is the last answer's value, or its error with the record of
  every attempt; and it is an error worth another try only when every endpoint of the pool was asked.
\<close>

theorem failover_exact:
  assumes "shared_use E" "pool_ok pool" "unat (po_cursor pool) \<le> 2 ^ 63"
  shows "\<exists>pool' visited result. with_failover E pool = Some (pool', result) \<and>
    course E (po_endpoints pool) 0 [] [] visited result"
proof -
  obtain n where "length (po_endpoints pool) = Suc n"
    using assms(2) by (cases "length (po_endpoints pool)") (simp_all add: pool_ok_def pool_size_of_def)
  with failover_course [OF assms(1,2) refl, of n "[]" "[]" None] assms(3) show ?thesis by (simp add: with_failover_def)
qed

section \<open>A pool of two\<close>

definition failover_specs :: "endpoint_spec list" where
  "failover_specs = [\<lparr>es_url = ''a'', es_label = ''first'', es_weight = 2\<rparr>, \<lparr>es_url = ''b'', es_label = ''second'', es_weight = 1\<rparr>]"

definition failover_pool :: endpoint_pool where
  "failover_pool = projr (endpoint_pool_new failover_specs)"

definition failover_demo :: "nat failover_env" where
  "failover_demo = \<lparr>fe_attempt = (\<lambda>n url. if url = ''a'' then Inl (HttpStatus 429 ''slow down'') else Inr 7),
     fe_now = (\<lambda>n. n), fe_others = (\<lambda>n pool. pool)\<rparr>"

lemma failover_pool_ok: "pool_ok failover_pool" "pool_size_of failover_pool = 2" "po_cursor failover_pool = 0"
proof -
  have new: "endpoint_pool_new failover_specs = Inr failover_pool"
    by (simp add: failover_pool_def endpoint_pool_new_def failover_specs_def)
  show "pool_ok failover_pool" by (rule endpoint_pool_new_ok [OF new]) (simp add: failover_specs_def)
  show "pool_size_of failover_pool = 2" "po_cursor failover_pool = 0"
    by (simp_all add: failover_pool_def endpoint_pool_new_def failover_specs_def pool_size_of_def)
qed

theorem failover_exact_witness:
  "\<exists>pool' visited result. with_failover failover_demo failover_pool = Some (pool', result) \<and>
     course failover_demo (po_endpoints failover_pool) 0 [] [] visited result"
proof -
  have "shared_use failover_demo" by (simp add: shared_use_def failover_demo_def)
  from failover_exact [OF this failover_pool_ok(1)] show ?thesis by (simp add: failover_pool_ok)
qed

section \<open>Every active chain has a pool\<close>

lemma assemble_chains_ok:
  assumes "assemble_chains specs chain_list pools = Inr pools'" "\<forall>(_, s)\<in>set specs. length s < 2 ^ 30"
  shows "(\<forall>chain\<in>set chain_list. \<exists>pool. map_of pools' chain = Some pool \<and> pool_ok pool) \<and>
    (\<forall>chain pool. map_of pools chain = Some pool \<longrightarrow> pool_ok pool \<longrightarrow> (\<exists>pool'. map_of pools' chain = Some pool' \<and> pool_ok pool'))"
  using assms(1)
proof (induction chain_list arbitrary: pools)
  case (Cons chain chain_list)
  then obtain s pool where s: "map_of specs chain = Some s" "endpoint_pool_new s = Inr pool"
    "assemble_chains specs chain_list (AList.update chain pool pools) = Inr pools'"
    by (auto simp: Let_def split: if_splits sum.splits option.splits)
  then have "pool_ok pool" using assms(2) by (intro endpoint_pool_new_ok [OF s(2)]) (auto dest: map_of_SomeD)
  with Cons.IH [OF s(3)] show ?case by (auto simp: update_conv' split: if_splits)
qed simp

text \<open>Assembled endpoints give every active chain a pool of the shape that the laws above need.\<close>

lemma assembled_pools_ok:
  assumes "assemble_chain_endpoints specs = Inr pools" "\<forall>(_, s)\<in>set specs. length s < 2 ^ 30" "chain \<in> set ACTIVE_CHAINS"
  obtains pool where "chain_pool pools chain = Inr pool" "pool_ok pool"
  using assemble_chains_ok [OF assms(1) [unfolded assemble_chain_endpoints_def] assms(2)] assms(3)
  by (fastforce simp: chain_pool_def)

end
