(* ===== verification/PoolLog.thy ===== *)
theory PoolLog
  imports PoolTypes
begin

text \<open>
  \<open>client-evm/src/pool_log.rs\<close>: the decoding of a raw log into a pool event, and the fold of a
  pool's ordered events into its state.

  The ABI decoders and the signature hashes come from the \<open>alloy\<close> macros and are a parameter, the
  record \<open>event_abi\<close>. Results: what a decoded log's key is (and that a v4 key only comes from the
  deployed pool manager), that the fold composes over concatenation, that an absolute event makes
  everything before it irrelevant, and that a mint followed by the equal burn cancels.
\<close>

section \<open>Events\<close>

datatype pool_log_event =
  Initialize (ev_price: u160) (ev_tick: i24)
| Swap (ev_price: u160) (ev_tick: i24) (ev_liquidity: u128)
| Mint (ev_lower: i24) (ev_upper: i24) (ev_amount: u128)
| Burn (ev_lower: i24) (ev_upper: i24) (ev_amount: u128)

record pool_log =
  pl_pool :: protocol_pool_key
  pl_log_index :: u64
  pl_event :: pool_log_event

section \<open>Decoding\<close>

record 'd raw_log =
  rl_address :: address
  rl_topic0 :: "256 word option"
  rl_log_index :: "u64 option"
  rl_data :: 'd

text \<open>What the \<open>SolEvent\<close> derive macros provide, per event: the signature hash and the decoder.\<close>

record 'd event_abi =
  v3_swap_sig :: "256 word"
  v3_swap :: "'d \<Rightarrow> (u160 \<times> i24 \<times> u128) option"
  v3_initialize_sig :: "256 word"
  v3_initialize :: "'d \<Rightarrow> (u160 \<times> i24) option"
  v3_mint_sig :: "256 word"
  v3_mint :: "'d \<Rightarrow> (i24 \<times> i24 \<times> u128) option"
  v3_burn_sig :: "256 word"
  v3_burn :: "'d \<Rightarrow> (i24 \<times> i24 \<times> u128) option"
  v4_swap_sig :: "256 word"
  v4_swap :: "'d \<Rightarrow> (pool_id \<times> u160 \<times> i24 \<times> u128) option"
  v4_initialize_sig :: "256 word"
  v4_initialize :: "'d \<Rightarrow> (pool_id \<times> u160 \<times> i24) option"
  v4_modify_sig :: "256 word"
  v4_modify :: "'d \<Rightarrow> (pool_id \<times> i24 \<times> i24 \<times> 256 word) option"

text \<open>\<open>I256::unsigned_abs\<close>, \<open>I256::is_negative\<close> and \<open>u128::try_from\<close>.\<close>

definition i256_is_negative :: "256 word \<Rightarrow> bool" where
  "i256_is_negative w \<longleftrightarrow> bit w 255"

definition i256_unsigned_abs :: "256 word \<Rightarrow> 256 word" where
  "i256_unsigned_abs w = (if i256_is_negative w then - w else w)"

definition u128_try_from :: "256 word \<Rightarrow> u128 option" where
  "u128_try_from w = (if uint w < 2 ^ 128 then Some (ucast w) else None)"

definition modify_event :: "i24 \<Rightarrow> i24 \<Rightarrow> 256 word \<Rightarrow> pool_log_event option" where
  "modify_event lower upper delta =
     (case u128_try_from (i256_unsigned_abs delta) of
        None \<Rightarrow> None
      | Some amount \<Rightarrow>
          Some (if i256_is_negative delta then Burn lower upper amount else Mint lower upper amount))"

definition decode_event :: "'d event_abi \<Rightarrow> 256 word \<Rightarrow> address \<Rightarrow> 'd \<Rightarrow>
    (protocol_pool_key \<times> pool_log_event) option" where
  "decode_event abi topic0 emitter data =
     (let from_v4_manager = is_v4_pool_manager emitter in
      if topic0 = v3_swap_sig abi then
        map_option (\<lambda>(price, t, l). (UniswapV3 emitter, Swap price t l)) (v3_swap abi data)
      else if topic0 = v3_initialize_sig abi then
        map_option (\<lambda>(price, t). (UniswapV3 emitter, Initialize price t)) (v3_initialize abi data)
      else if topic0 = v3_mint_sig abi then
        map_option (\<lambda>(lo, up, a). (UniswapV3 emitter, Mint lo up a)) (v3_mint abi data)
      else if topic0 = v3_burn_sig abi then
        map_option (\<lambda>(lo, up, a). (UniswapV3 emitter, Burn lo up a)) (v3_burn abi data)
      else if topic0 = v4_swap_sig abi \<and> from_v4_manager then
        map_option (\<lambda>(i, price, t, l). (UniswapV4 i, Swap price t l)) (v4_swap abi data)
      else if topic0 = v4_initialize_sig abi \<and> from_v4_manager then
        map_option (\<lambda>(i, price, t). (UniswapV4 i, Initialize price t)) (v4_initialize abi data)
      else if topic0 = v4_modify_sig abi \<and> from_v4_manager then
        Option.bind (v4_modify abi data) (\<lambda>(i, lo, up, delta).
          map_option (\<lambda>e. (UniswapV4 i, e)) (modify_event lo up delta))
      else None)"

definition decode_pool_log :: "'d event_abi \<Rightarrow> 'd raw_log \<Rightarrow> pool_log option" where
  "decode_pool_log abi log =
     Option.bind (rl_log_index log) (\<lambda>log_index.
       Option.bind (rl_topic0 log) (\<lambda>topic0.
         map_option (\<lambda>(pool, event). \<lparr>pl_pool = pool, pl_log_index = log_index, pl_event = event\<rparr>)
           (decode_event abi topic0 (rl_address log) (rl_data log))))"

section \<open>The state fold\<close>

definition apply_liquidity_delta :: "pool_state \<Rightarrow> i24 \<Rightarrow> i24 \<Rightarrow> (u128 \<Rightarrow> u128 option) \<Rightarrow>
    pool_state option" where
  "apply_liquidity_delta current tick_lower tick_upper delta =
     map_option (\<lambda>liquidity. \<lparr>ps_sqrt_price_x96 = ps_sqrt_price_x96 current,
         ps_tick = ps_tick current, ps_liquidity = liquidity\<rparr>)
       (if sint tick_lower \<le> sint (ps_tick current) \<and> sint (ps_tick current) < sint tick_upper
        then delta (ps_liquidity current)
        else Some (ps_liquidity current))"

text \<open>The loop of \<open>derive_pool_state\<close>; \<open>running\<close> is the loop variable and \<open>?\<close> leaves the loop.\<close>

fun derive_pool_state :: "pool_state option \<Rightarrow> pool_log_event list \<Rightarrow> pool_state option" where
  "derive_pool_state running [] = running"
| "derive_pool_state running (Swap price t l # es) =
     derive_pool_state
       (Some \<lparr>ps_sqrt_price_x96 = price, ps_tick = t, ps_liquidity = l\<rparr>) es"
| "derive_pool_state running (Initialize price t # es) =
     derive_pool_state
       (Some \<lparr>ps_sqrt_price_x96 = price, ps_tick = t, ps_liquidity = 0\<rparr>) es"
| "derive_pool_state running (Mint lower upper amount # es) =
     (case running of
        None \<Rightarrow> derive_pool_state None es
      | Some current \<Rightarrow>
          (case apply_liquidity_delta current lower upper (\<lambda>l. checked_add l amount) of
             None \<Rightarrow> None
           | Some next \<Rightarrow> derive_pool_state (Some next) es))"
| "derive_pool_state running (Burn lower upper amount # es) =
     (case running of
        None \<Rightarrow> derive_pool_state None es
      | Some current \<Rightarrow>
          (case apply_liquidity_delta current lower upper (\<lambda>l. checked_sub l amount) of
             None \<Rightarrow> None
           | Some next \<Rightarrow> derive_pool_state (Some next) es))"

section \<open>Results on decoding\<close>

lemma decode_event_v4_manager:
  "decode_event abi topic0 emitter data = Some (UniswapV4 p, e) \<Longrightarrow> is_v4_pool_manager emitter"
  by (auto simp: decode_event_def Let_def split: if_splits prod.splits)

lemma decode_event_v3_address:
  "decode_event abi topic0 emitter data = Some (UniswapV3 a, e) \<Longrightarrow> a = emitter"
  by (auto simp: decode_event_def Let_def bind_eq_Some_conv split: if_splits prod.splits)

lemma uint_neg: "w \<noteq> 0 \<Longrightarrow> uint (- w) = 2 ^ LENGTH('a) - uint (w :: 'a::len word)"
proof -
  assume "w \<noteq> 0"
  then have "uint w \<noteq> 0" using word_uint_eq_iff [of w 0] by simp
  moreover have "uint w mod 2 ^ LENGTH('a) = uint w"
    by (simp add: mod_pos_pos_trivial uint_lt2p del: unsigned_less)
  ultimately show ?thesis by (simp add: uint_word_ariths(4) zmod_zminus1_eq_if)
qed

lemma modify_event_signed:
  assumes "modify_event lower upper delta = Some e"
  shows "ev_lower e = lower" and "ev_upper e = upper"
    and "(\<exists>lo up a. e = Mint lo up a \<and> sint delta = uint a) \<or>
         (\<exists>lo up a. e = Burn lo up a \<and> sint delta = - uint a)"
proof -
  from assms obtain a where a: "u128_try_from (i256_unsigned_abs delta) = Some a"
    and e: "e = (if i256_is_negative delta then Burn lower upper a else Mint lower upper a)"
    by (auto simp: modify_event_def split: option.splits)
  then have ua: "uint a = uint (i256_unsigned_abs delta)"
    by (auto simp: u128_try_from_def unsigned_ucast_eq take_bit_eq_mod split: if_splits)
  show "ev_lower e = lower" "ev_upper e = upper" by (simp_all add: e)
  have sgn: "sint delta = (if bit delta 255 then uint delta - 2 ^ 256 else uint delta)"
    using uint_lt2p [of delta]
    by (simp add: sint_uint signed_take_bit_eq_take_bit_minus bit_uint_iff take_bit_int_eq_self)
  have neg: "bit delta 255 \<Longrightarrow> delta \<noteq> 0" by auto
  have "uint (- delta) = 2 ^ 256 - uint delta" if "delta \<noteq> 0"
    using uint_neg [OF that] by simp
  with ua sgn neg e show "(\<exists>lo up a. e = Mint lo up a \<and> sint delta = uint a) \<or>
         (\<exists>lo up a. e = Burn lo up a \<and> sint delta = - uint a)"
    by (auto simp: i256_unsigned_abs_def i256_is_negative_def)
qed

section \<open>Results on the fold\<close>

lemma apply_delta_frame:
  "apply_liquidity_delta s lower upper d = Some s' \<Longrightarrow>
     ps_sqrt_price_x96 s' = ps_sqrt_price_x96 s \<and> ps_tick s' = ps_tick s"
  by (auto simp: apply_liquidity_delta_def)

lemma derive_append:
  "derive_pool_state b xs = Some s \<Longrightarrow> derive_pool_state b (xs @ ys) = derive_pool_state (Some s) ys"
proof (induction b xs rule: derive_pool_state.induct)
  case (1 running)
  then show ?case by simp
qed (auto split: option.splits)

lemma derive_append_None:
  "derive_pool_state (Some s) xs = None \<Longrightarrow> derive_pool_state (Some s) (xs @ ys) = None"
proof (induction "Some s" xs arbitrary: s rule: derive_pool_state.induct)
  case 1
  then show ?case by simp
qed (auto split: option.splits)

text \<open>Folding in two stages is folding at once, wherever the stage boundary is.\<close>

lemma derive_staged:
  "derive_pool_state (Some s) (xs @ ys) =
     Option.bind (derive_pool_state (Some s) xs) (\<lambda>s'. derive_pool_state (Some s') ys)"
  by (cases "derive_pool_state (Some s) xs") (simp_all add: derive_append derive_append_None)

fun is_absolute :: "pool_log_event \<Rightarrow> bool" where
  "is_absolute (Swap _ _ _) \<longleftrightarrow> True"
| "is_absolute (Initialize _ _) \<longleftrightarrow> True"
| "is_absolute _ \<longleftrightarrow> False"

lemma derive_absolute: "is_absolute e \<Longrightarrow> derive_pool_state b (e # es) = derive_pool_state None (e # es)"
  by (cases e) simp_all

lemma derive_None_prefix:
  "\<forall>e \<in> set xs. \<not> is_absolute e \<Longrightarrow> derive_pool_state None (xs @ ys) = derive_pool_state None ys"
proof (induction xs)
  case (Cons e xs)
  then show ?case by (cases e) simp_all
qed simp

text \<open>An unseeded run yields a state only through an absolute event.\<close>

lemma derive_None_iff_absolute:
  "derive_pool_state None es = Some s \<Longrightarrow> \<exists>e \<in> set es. is_absolute e"
proof (induction es)
  case (Cons e es)
  then show ?case by (cases e) auto
qed simp

lemma mint_burn_cancel:
  assumes "derive_pool_state (Some s) [Mint lower upper a] \<noteq> None"
  shows "derive_pool_state (Some s) [Mint lower upper a, Burn lower upper a] = Some s"
  using assms checked_add_then_sub
  by (cases "checked_add (ps_liquidity s) a")
     (auto simp: apply_liquidity_delta_def split: option.splits if_splits)

section \<open>Properties of the log decoder and the fold\<close>

text \<open>
  A decoded log is attributed to an authentic source: a V4 event only ever comes from a pool
  manager the program knows, a V3 event belongs to the contract that emitted it, and the log index
  is the one the node reported. A liquidity change of a V4 log carries exactly its signed delta: the
  amount added by a mint or removed by a burn, never truncated.
\<close>

lemma decoded_log_authentic:
  assumes "decode_pool_log abi log = Some l"
  shows "rl_log_index log = Some (pl_log_index l) \<and>
    (case pl_pool l of
       UniswapV4 i \<Rightarrow> is_v4_pool_manager (rl_address log)
     | UniswapV3 a \<Rightarrow> a = rl_address log) \<and>
    (\<forall>i lo up delta. rl_topic0 log = Some (v4_modify_sig abi) \<and>
       v4_modify abi (rl_data log) = Some (i, lo, up, delta) \<and>
       v4_modify_sig abi \<notin> {v3_swap_sig abi, v3_initialize_sig abi, v3_mint_sig abi, v3_burn_sig abi,
         v4_swap_sig abi, v4_initialize_sig abi} \<longrightarrow>
       pl_pool l = UniswapV4 i \<and>
       (\<exists>a. pl_event l = Mint lo up a \<and> sint delta = uint a \<or>
            pl_event l = Burn lo up a \<and> sint delta = - uint a))"
proof -
  obtain n t where n: "rl_log_index log = Some n" "rl_topic0 log = Some t"
    and d: "decode_event abi t (rl_address log) (rl_data log) = Some (pl_pool l, pl_event l)"
    and i: "pl_log_index l = n"
    using assms by (auto simp: decode_pool_log_def Option.bind_eq_Some_conv)
  have "case pl_pool l of UniswapV4 i \<Rightarrow> is_v4_pool_manager (rl_address log)
      | UniswapV3 a \<Rightarrow> a = rl_address log"
    using d decode_event_v4_manager decode_event_v3_address
    by (cases "pl_pool l") fastforce+
  moreover have "pl_pool l = UniswapV4 i \<and>
      (\<exists>a. pl_event l = Mint lo up a \<and> sint delta = uint a \<or>
           pl_event l = Burn lo up a \<and> sint delta = - uint a)"
    if "t = v4_modify_sig abi" and m: "v4_modify abi (rl_data log) = Some (i, lo, up, delta)"
      and other: "v4_modify_sig abi \<notin> {v3_swap_sig abi, v3_initialize_sig abi, v3_mint_sig abi,
         v3_burn_sig abi, v4_swap_sig abi, v4_initialize_sig abi}" for i lo up delta
  proof -
    have "pl_pool l = UniswapV4 i" and e: "modify_event lo up delta = Some (pl_event l)"
      using d that by (auto simp: decode_event_def Let_def split: if_splits)
    with modify_event_signed [OF e] show ?thesis by auto
  qed
  ultimately show ?thesis using n i by auto
qed

text \<open>
  The fold of a pool's events composes: a run that succeeds can be cut anywhere, and folding the
  rest over the state of the first part gives the whole (so a snapshot at any block is a valid base);
  a run that fails on a liquidity under- or overflow fails however it is extended.
\<close>

lemma derive_pool_state_composes:
  "derive_pool_state (Some s) (xs @ ys) =
     (case derive_pool_state (Some s) xs of None \<Rightarrow> None | Some s' \<Rightarrow> derive_pool_state (Some s') ys)"
  by (simp add: derive_staged split: option.split)

text \<open>
  An absolute event (a swap or an initialisation) makes everything before it irrelevant: whatever
  the base and whatever the earlier events, a successful fold ends as the fold of the suffix alone.
\<close>

lemma derive_forgets_before_absolute:
  assumes "is_absolute e" and "derive_pool_state b xs \<noteq> None"
  shows "derive_pool_state b (xs @ e # ys) = derive_pool_state None (e # ys)"
proof -
  obtain s where "derive_pool_state b xs = Some s" using assms(2) by blast
  from derive_append [OF this] show ?thesis using derive_absolute [OF assms(1)] by metis
qed

text \<open>
  Minting and burning one position cancels, in and out of range, whenever the mint itself does not
  overflow.
\<close>

lemma mint_then_burn_cancels:
  assumes "derive_pool_state (Some s) [Mint lower upper a] \<noteq> None"
  shows "derive_pool_state (Some s) [Mint lower upper a, Burn lower upper a] = Some s"
  using assms by (rule mint_burn_cancel)

end
