(* ===== verification/GraphInvariants.thy ===== *)
theory GraphInvariants
  imports "HOL-Library.Multiset" BlocksGraph
begin

text \<open>
  The contract of the block tree and its preservation by every transition of theory \<open>BlocksGraph\<close>.

  \<open>flat\<close> forgets the connected/pending split and keeps, per block, the raw parent and the payload.
  Under \<open>graph_ok\<close> the split is a function of \<open>flat\<close> (\<open>connected_iff_flat_reach\<close>), so the
  transitions refine plain insertions into the flat map (\<open>flat_admit\<close>).
\<close>

section \<open>The contract\<close>

definition is_conn :: "(block_hash \<rightharpoonup> node) \<Rightarrow> block_hash \<Rightarrow> bool" where
  "is_conn m h \<longleftrightarrow> (\<exists>r d. m h = Some (Connected r d))"

inductive anchored :: "(block_hash \<rightharpoonup> node) \<Rightarrow> block_hash \<Rightarrow> bool" for m where
  anchored_child: "m h = Some (Connected Anchor d) \<Longrightarrow> anchored m h"
| anchored_step: "m h = Some (Connected (Block p) d) \<Longrightarrow> anchored m p \<Longrightarrow> anchored m h"

inductive_simps anchored_unfold: "anchored m h"

text \<open>
  \<open>tree_ok_upto a m F\<close>: the tree contract, where a pending node may still wait for a connected
  parent that is on the promotion work list \<open>F\<close>.
\<close>

definition tree_ok_upto :: "block_hash \<Rightarrow> (block_hash \<rightharpoonup> node) \<Rightarrow> (block_hash \<Rightarrow> block_hash \<Rightarrow> bool) \<Rightarrow> bool" where
  "tree_ok_upto a m F \<longleftrightarrow> m a = None \<and> (\<forall>h. is_conn m h \<longrightarrow> anchored m h) \<and>
     (\<forall>h p d. m h = Some (Pending p d) \<longrightarrow> p \<noteq> a \<and> p \<noteq> h \<and> (is_conn m p \<longrightarrow> F h p))"

definition graph_ok :: "blocks_graph \<Rightarrow> bool" where
  "graph_ok g \<longleftrightarrow> hm_wf (bg_nodes g) \<and> tree_ok_upto (anchor_hash g) (map_of (bg_nodes g)) (\<lambda>_ _. False) \<and>
     (bg_observed_head g = anchor_hash g \<or> graph_contains g (bg_observed_head g))"

lemma anchored_is_conn: "anchored m h \<Longrightarrow> is_conn m h"
  by (erule anchored.cases) (auto simp: is_conn_def)

lemma anchored_Block: "anchored m h \<Longrightarrow> m h = Some (Connected (Block p) d) \<Longrightarrow> anchored m p"
  by (erule anchored.cases) auto

lemma tree_ok_root: "tree_ok_upto a m F \<Longrightarrow> m a = None"
  by (simp add: tree_ok_upto_def)

lemma tree_ok_conn: "tree_ok_upto a m F \<Longrightarrow> is_conn m h \<Longrightarrow> anchored m h"
  by (simp add: tree_ok_upto_def)

lemma tree_ok_pending: "tree_ok_upto a m F \<Longrightarrow> m h = Some (Pending p d) \<Longrightarrow>
    p \<noteq> a \<and> p \<noteq> h \<and> (is_conn m p \<longrightarrow> F h p)"
  unfolding tree_ok_upto_def by blast

lemma tree_ok_parent:
  assumes ok: "tree_ok_upto a m F" and n: "m h = Some (Connected (Block p) d)"
  shows "p \<noteq> a" and "is_conn m p"
proof -
  have "anchored m p"
    using tree_ok_conn [OF ok, of h] anchored_Block [of m h p d] n by (simp add: is_conn_def)
  then show "is_conn m p" by (rule anchored_is_conn)
  with tree_ok_root [OF ok] show "p \<noteq> a" by (auto simp: is_conn_def)
qed

lemma tree_okI:
  assumes "m a = None" and "\<And>h. is_conn m h \<Longrightarrow> anchored m h"
    and "\<And>h p d. m h = Some (Pending p d) \<Longrightarrow> p \<noteq> a \<and> p \<noteq> h \<and> (is_conn m p \<longrightarrow> F h p)"
  shows "tree_ok_upto a m F"
  using assms by (simp add: tree_ok_upto_def)

lemma anchored_mono:
  assumes "anchored m h" and "\<And>k r d. m k = Some (Connected r d) \<Longrightarrow> \<exists>d'. m' k = Some (Connected r d')"
  shows "anchored m' h"
  using assms(1)
proof induction
  case (anchored_child h d)
  then show ?case using assms(2) by (metis anchored.anchored_child)
next
  case (anchored_step h p d)
  then show ?case using assms(2) by (metis anchored.anchored_step)
qed

lemma connected_in_Some [simp]: "connected_in nodes h = Some (r, d) \<longleftrightarrow> map_of nodes h = Some (Connected r d)"
  by (auto simp: connected_in_def split: option.splits node.splits)

lemma connected_in_None [simp]: "connected_in nodes h = None \<longleftrightarrow> \<not> is_conn (map_of nodes) h"
  by (auto simp: connected_in_def is_conn_def split: option.splits node.splits)

lemma graph_ok_new [simp]: "graph_ok (graph_new a n)"
  by (simp add: graph_ok_def graph_new_def anchor_hash_def tree_ok_upto_def is_conn_def)

section \<open>The flat view\<close>

definition flat :: "blocks_graph \<Rightarrow> block_hash \<rightharpoonup> block_hash \<times> block_data" where
  "flat g h = map_option (\<lambda>n. (existing_parent (anchor_hash g) n, node_data n)) (map_of (bg_nodes g) h)"

inductive flat_reach :: "block_hash \<Rightarrow> (block_hash \<rightharpoonup> block_hash \<times> 'd) \<Rightarrow> block_hash \<Rightarrow> bool" for a f where
  reach_child: "f h = Some (a, d) \<Longrightarrow> flat_reach a f h"
| reach_step: "f h = Some (p, d) \<Longrightarrow> flat_reach a f p \<Longrightarrow> flat_reach a f h"

lemma flat_eqI:
  assumes "\<And>h. map_option (\<lambda>n. (existing_parent a n, node_data n)) (map_of ns h) =
      map_option (\<lambda>n. (existing_parent a n, node_data n)) (map_of ns' h)"
  shows "flat (g\<lparr>bg_anchor := \<lparr>ai_hash = a, ai_number = n\<rparr>, bg_nodes := ns\<rparr>) =
      flat (g'\<lparr>bg_anchor := \<lparr>ai_hash = a, ai_number = n'\<rparr>, bg_nodes := ns'\<rparr>)"
  using assms by (simp add: flat_def fun_eq_iff anchor_hash_def)

lemma connected_iff_flat_reach:
  assumes "graph_ok g"
  shows "is_conn (map_of (bg_nodes g)) h \<longleftrightarrow> flat_reach (anchor_hash g) (flat g) h"
proof
  assume "is_conn (map_of (bg_nodes g)) h"
  with assms have "anchored (map_of (bg_nodes g)) h" by (simp add: graph_ok_def tree_ok_upto_def)
  then show "flat_reach (anchor_hash g) (flat g) h"
  proof induction
    case (anchored_child h d)
    then show ?case by - (rule reach_child [where d = d], simp add: flat_def connected_parent_hash_def)
  next
    case (anchored_step h p d)
    then show ?case by - (rule reach_step [where p = p and d = d], simp_all add: flat_def connected_parent_hash_def)
  qed
next
  have ok: "tree_ok_upto (anchor_hash g) (map_of (bg_nodes g)) (\<lambda>_ _. False)"
    using assms by (simp add: graph_ok_def)
  have close: "is_conn (map_of (bg_nodes g)) h"
    if "flat g h = Some (p, d)" "p = anchor_hash g \<or> is_conn (map_of (bg_nodes g)) p" for h p d
  proof -
    from that obtain n where n: "map_of (bg_nodes g) h = Some n" "existing_parent (anchor_hash g) n = p"
      by (auto simp: flat_def)
    with that(2) tree_ok_pending [OF ok, of h] show ?thesis by (cases n) (auto simp: is_conn_def)
  qed
  assume "flat_reach (anchor_hash g) (flat g) h"
  then show "is_conn (map_of (bg_nodes g)) h"
  proof induction
    case (reach_child h d)
    then show ?case by (rule close) simp
  next
    case (reach_step h p d)
    then show ?case by (intro close [of h p d] disjI2)
  qed
qed

text \<open>The connectivity split carries no information of its own.\<close>

lemma flat_determines:
  assumes "graph_ok g" and "graph_ok g'" and "anchor_hash g = anchor_hash g'" and "flat g = flat g'"
  shows "map_of (bg_nodes g) = map_of (bg_nodes g')"
proof
  fix h
  let ?m = "map_of (bg_nodes g)" and ?m' = "map_of (bg_nodes g')" and ?a = "anchor_hash g"
  have conn: "is_conn ?m h \<longleftrightarrow> is_conn ?m' h"
    using assms by (simp add: connected_iff_flat_reach)
  have noBlockA: "r \<noteq> Block ?a" if "m h = Some (Connected r d)" "tree_ok_upto ?a m F" for m r d F
    using that tree_ok_parent(1) by metis
  have eq: "map_option (\<lambda>n. (existing_parent ?a n, node_data n)) (?m h) =
      map_option (\<lambda>n. (existing_parent ?a n, node_data n)) (?m' h)"
    using assms(3,4) by (metis flat_def)
  show "?m h = ?m' h"
  proof (cases "is_conn ?m h")
    case True
    then obtain r d r' d' where n: "?m h = Some (Connected r d)" "?m' h = Some (Connected r' d')"
      using conn by (auto simp: is_conn_def)
    have "r \<noteq> Block ?a" "r' \<noteq> Block ?a"
      using noBlockA n assms(1-3) unfolding graph_ok_def by metis+
    with n eq show ?thesis by (cases r; cases r') (auto simp: connected_parent_hash_def)
  next
    case False
    with conn have "\<not> is_conn ?m' h" by simp
    with False eq show ?thesis
      by (cases "?m h"; cases "?m' h"; cases "the (?m h)"; cases "the (?m' h)") (auto simp: is_conn_def)
  qed
qed

section \<open>Promotion\<close>

lemma pending_children_iff:
  "hm_wf nodes \<Longrightarrow> c \<in> set (pending_children nodes h) \<longleftrightarrow> (\<exists>d. map_of nodes c = Some (Pending h d))"
  by (force simp: pending_children_def hm_wf_in_set [symmetric] split: node.splits)

lemma distinct_pending_children: "hm_wf nodes \<Longrightarrow> distinct (pending_children nodes h)"
  unfolding pending_children_def using hm_wf_filter by (auto simp: hm_wf_def)

lemma tree_ok_promote_one:
  assumes ok: "tree_ok_upto a m (\<lambda>k p. p \<in> F \<or> p = h \<and> k \<in> set (c # cs))"
    and h: "is_conn m h" and c: "m c = Some (Pending h d)"
  shows "tree_ok_upto a (m(c \<mapsto> Connected (Block h) d)) (\<lambda>k p. p \<in> insert c F \<or> p = h \<and> k \<in> set cs)"
proof -
  let ?m = "m(c \<mapsto> Connected (Block h) d)"
  have mono: "anchored m k \<Longrightarrow> anchored ?m k" for k
    by (erule anchored_mono) (use c in auto)
  have conn: "is_conn ?m k \<longleftrightarrow> k = c \<or> is_conn m k" for k
    by (simp add: is_conn_def)
  have "anchored ?m h" using ok h mono by (simp add: tree_ok_upto_def)
  then have "anchored ?m c" by (intro anchored_step [of ?m c h d]) auto
  moreover have "c \<noteq> a" using ok c by (auto simp: tree_ok_upto_def)
  moreover have "p \<noteq> a \<and> p \<noteq> k \<and> (is_conn ?m p \<longrightarrow> p \<in> insert c F \<or> p = h \<and> k \<in> set cs)"
    if "?m k = Some (Pending p e)" for k p e
  proof -
    from that have k: "k \<noteq> c" "m k = Some (Pending p e)" by (auto split: if_splits)
    with tree_ok_pending [OF ok k(2)] show ?thesis by (auto simp: conn)
  qed
  ultimately show ?thesis
    using tree_ok_root [OF ok] tree_ok_conn [OF ok] mono by (intro tree_okI) (auto simp: conn)
qed

lemma promote_children_ok:
  assumes "hm_wf nodes" and "tree_ok_upto a (map_of nodes) (\<lambda>k p. p \<in> set frontier \<or> p = h \<and> k \<in> set cs)"
    and "is_conn (map_of nodes) h" and "\<forall>k \<in> set frontier. is_conn (map_of nodes) k"
    and "distinct cs" and "\<forall>c \<in> set cs. \<exists>d. map_of nodes c = Some (Pending h d)"
    and "promote_children h cs nodes frontier = (nodes', frontier')"
  shows "hm_wf nodes' \<and> tree_ok_upto a (map_of nodes') (\<lambda>k p. p \<in> set frontier') \<and>
    (\<forall>k \<in> set frontier'. is_conn (map_of nodes') k) \<and>
    (\<forall>k. map_option (\<lambda>n. (existing_parent a n, node_data n)) (map_of nodes' k) =
         map_option (\<lambda>n. (existing_parent a n, node_data n)) (map_of nodes k))"
  using assms
proof (induction cs arbitrary: nodes frontier)
  case (Cons c cs)
  from Cons.prems(6) obtain d where c: "map_of nodes c = Some (Pending h d)" by auto
  let ?n = "AList.update c (Connected (Block h) d) (AList.delete c nodes)"
  have m: "map_of ?n = (map_of nodes)(c \<mapsto> Connected (Block h) d)" by simp
  have conn: "is_conn (map_of ?n) k \<longleftrightarrow> k = c \<or> is_conn (map_of nodes) k" for k
    by (simp add: is_conn_def)
  have ne: "h \<noteq> c" using Cons.prems(3) c by (auto simp: is_conn_def)
  have step: "promote_children h cs ?n (c # frontier) = (nodes', frontier')"
    using Cons.prems(7) by (simp only: promote_children_pending [OF c])
  have "hm_wf nodes' \<and> tree_ok_upto a (map_of nodes') (\<lambda>k p. p \<in> set frontier') \<and>
    (\<forall>k \<in> set frontier'. is_conn (map_of nodes') k) \<and>
    (\<forall>k. map_option (\<lambda>n. (existing_parent a n, node_data n)) (map_of nodes' k) =
         map_option (\<lambda>n. (existing_parent a n, node_data n)) (map_of ?n k))"
  proof (rule Cons.IH [OF _ _ _ _ _ _ step])
    show "tree_ok_upto a (map_of ?n) (\<lambda>k p. p \<in> set (c # frontier) \<or> p = h \<and> k \<in> set cs)"
      using tree_ok_promote_one [OF Cons.prems(2,3) c] by (simp only: m list.set)
    show "hm_wf ?n" using Cons.prems(1) by simp
    show "is_conn (map_of ?n) h" "\<forall>k \<in> set (c # frontier). is_conn (map_of ?n) k" "distinct cs"
      using Cons.prems by (simp_all only: conn) auto
    show "\<forall>c' \<in> set cs. \<exists>d. map_of ?n c' = Some (Pending h d)"
      using Cons.prems(5,6) by (auto simp: m)
  qed
  moreover have "map_option (\<lambda>n. (existing_parent a n, node_data n)) (map_of ?n k) =
      map_option (\<lambda>n. (existing_parent a n, node_data n)) (map_of nodes k)" for k
    using c by (simp add: connected_parent_hash_def)
  ultimately show ?case by simp
qed simp

lemma promote_loop_ok:
  assumes "hm_wf nodes" and "tree_ok_upto a (map_of nodes) (\<lambda>k p. p \<in> set frontier)"
    and "\<forall>k \<in> set frontier. is_conn (map_of nodes) k"
  shows "hm_wf (promote_loop nodes frontier) \<and>
    tree_ok_upto a (map_of (promote_loop nodes frontier)) (\<lambda>_ _. False) \<and>
    (\<forall>k. map_option (\<lambda>n. (existing_parent a n, node_data n)) (map_of (promote_loop nodes frontier) k) =
         map_option (\<lambda>n. (existing_parent a n, node_data n)) (map_of nodes k))"
  using assms
proof (induction nodes frontier rule: promote_loop.induct)
  case (1 nodes)
  then show ?case by simp
next
  case (2 nodes h frontier)
  obtain ns fr where pc: "promote_children h (pending_children nodes h) nodes frontier = (ns, fr)"
    by (cases "promote_children h (pending_children nodes h) nodes frontier")
  have up: "tree_ok_upto a (map_of nodes) (\<lambda>k p. p \<in> set frontier \<or> p = h \<and> k \<in> set (pending_children nodes h))"
    using 2(3) by (auto simp: tree_ok_upto_def pending_children_iff [OF 2(2)])
  have "hm_wf ns \<and> tree_ok_upto a (map_of ns) (\<lambda>k p. p \<in> set fr) \<and> (\<forall>k \<in> set fr. is_conn (map_of ns) k) \<and>
    (\<forall>k. map_option (\<lambda>n. (existing_parent a n, node_data n)) (map_of ns k) =
         map_option (\<lambda>n. (existing_parent a n, node_data n)) (map_of nodes k))"
    by (rule promote_children_ok [OF 2(2) up _ _ distinct_pending_children [OF 2(2)] _ pc])
       (use 2 in \<open>auto simp: pending_children_iff\<close>)
  with 2(1) [OF pc [symmetric]] pc show ?case by simp
qed

section \<open>Admission\<close>

lemma tree_ok_insert_connected:
  assumes ok: "tree_ok_upto a m (\<lambda>_ _. False)" and "m h = None" and "h \<noteq> a" and ne: "h \<noteq> parent"
    and conn: "parent = a \<or> is_conn m parent"
  shows "tree_ok_upto a (m(h \<mapsto> Connected (if parent = a then Anchor else Block parent) d)) (\<lambda>k p. p = h)"
proof -
  let ?m = "m(h \<mapsto> Connected (if parent = a then Anchor else Block parent) d)"
  have mono: "anchored m k \<Longrightarrow> anchored ?m k" for k
    by (erule anchored_mono) (use assms(2) in auto)
  have c: "is_conn ?m k \<longleftrightarrow> k = h \<or> is_conn m k" for k
    by (auto simp: is_conn_def)
  have "anchored ?m h"
  proof (cases "parent = a")
    case True
    then show ?thesis by (intro anchored_child [of ?m h d]) simp
  next
    case False
    then show ?thesis using ok conn mono
      by (intro anchored_step [of ?m h parent d]) (auto simp: tree_ok_upto_def)
  qed
  with ok mono assms(2,3) show ?thesis by (auto simp: tree_ok_upto_def c)
qed

lemma tree_ok_insert_pending:
  assumes ok: "tree_ok_upto a m (\<lambda>_ _. False)" and "m h = None" and "h \<noteq> a" and "h \<noteq> parent"
    and "parent \<noteq> a" and "\<not> is_conn m parent"
  shows "tree_ok_upto a (m(h \<mapsto> Pending parent d)) (\<lambda>_ _. False)"
proof -
  let ?m = "m(h \<mapsto> Pending parent d)"
  have mono: "anchored m k \<Longrightarrow> anchored ?m k" for k
    by (erule anchored_mono) (use assms(2) in auto)
  have c: "is_conn ?m k \<longleftrightarrow> is_conn m k" for k
    using assms(2) by (auto simp: is_conn_def)
  show ?thesis using ok mono assms(2-) by (auto simp: tree_ok_upto_def c)
qed

lemma admit_branches:
  assumes res: "with_data_capped g h parent data cap = (g', outcome)"
  obtains (refused) "g' = g" "outcome \<noteq> Admitted"
    | (conn) "h \<noteq> parent" "h \<noteq> ai_hash (bg_anchor g)" "map_of (bg_nodes g) h = None"
        "parent = ai_hash (bg_anchor g) \<or> connected_in (bg_nodes g) parent \<noteq> None" "outcome = Admitted"
        "g' = promote_reachable (g\<lparr>bg_nodes := AList.update h
           (Connected (if parent = ai_hash (bg_anchor g) then Anchor else Block parent) data) (bg_nodes g)\<rparr>) h"
    | (pend) "h \<noteq> parent" "h \<noteq> ai_hash (bg_anchor g)" "map_of (bg_nodes g) h = None"
        "\<not> (parent = ai_hash (bg_anchor g) \<or> connected_in (bg_nodes g) parent \<noteq> None)" "outcome = Admitted"
        "pending_count g < cap"
        "g' = g\<lparr>bg_nodes := AList.update h (Pending parent data) (bg_nodes g)\<rparr>"
proof (cases "h = parent \<or> h = ai_hash (bg_anchor g) \<or> map_of (bg_nodes g) h \<noteq> None")
  case True
  with res show ?thesis
    by (intro refused) (auto simp: with_data_capped_def Let_def split: if_splits)
next
  case new: False
  show ?thesis
  proof (cases "parent = ai_hash (bg_anchor g) \<or> connected_in (bg_nodes g) parent \<noteq> None")
    case True
    with new res show ?thesis
      by (intro conn) (simp_all add: with_data_capped_def Let_def
          del: connected_in_None connected_in_Some not_None_eq)
  next
    case False
    with new res show ?thesis
      by (cases "pending_count g \<ge> cap")
         (simp_all add: with_data_capped_def Let_def refused pend
          del: connected_in_None connected_in_Some not_None_eq)
  qed
qed

text \<open>
  What an admission does, on every branch: a refusal hands the graph back unchanged; an admission
  inserts the block into the flat view, and both keep the contract, the anchor and the head.
\<close>

lemma admit_cases:
  assumes ok: "graph_ok g" and res: "with_data_capped g h parent data cap = (g', outcome)"
  shows "graph_ok g' \<and> bg_anchor g' = bg_anchor g \<and> bg_observed_head g' = bg_observed_head g \<and>
    (outcome = Admitted \<longrightarrow> h \<noteq> anchor_hash g \<and> h \<noteq> parent \<and> flat g h = None \<and>
       flat g' = (flat g)(h \<mapsto> (parent, data))) \<and>
    (outcome \<noteq> Admitted \<longrightarrow> g' = g)"
proof -
  let ?a = "ai_hash (bg_anchor g)" and ?m = "map_of (bg_nodes g)"
  let ?connects = "parent = ?a \<or> connected_in (bg_nodes g) parent \<noteq> None"
  have tree: "tree_ok_upto ?a ?m (\<lambda>_ _. False)" and wf: "hm_wf (bg_nodes g)"
    using ok by (simp_all add: graph_ok_def anchor_hash_def)
  from res show ?thesis
  proof (cases rule: admit_branches)
    case refused
    with ok show ?thesis by simp
  next
    case conn
    let ?ns = "AList.update h (Connected (if parent = ?a then Anchor else Block parent) data) (bg_nodes g)"
    have up: "tree_ok_upto ?a (map_of ?ns) (\<lambda>k p. p \<in> set [h])"
      using tree_ok_insert_connected [OF tree conn(3,2,1), of data] conn(4) by simp
    have L: "hm_wf (promote_loop ?ns [h]) \<and> tree_ok_upto ?a (map_of (promote_loop ?ns [h])) (\<lambda>_ _. False) \<and>
      (\<forall>k. map_option (\<lambda>n. (existing_parent ?a n, node_data n)) (map_of (promote_loop ?ns [h]) k) =
         map_option (\<lambda>n. (existing_parent ?a n, node_data n)) (map_of ?ns k))"
      by (rule promote_loop_ok [OF _ up]) (use wf in \<open>auto simp: is_conn_def\<close>)
    have fl: "flat g' k = ((flat g)(h \<mapsto> (parent, data))) k" for k
    proof -
      let ?f = "map_option (\<lambda>n. (existing_parent ?a n, node_data n))"
      have "flat g' k = ?f (map_of (promote_loop ?ns [h]) k)"
        by (simp add: flat_def conn(6) promote_reachable_def anchor_hash_def)
      also have "\<dots> = ?f (map_of ?ns k)" using L by blast
      also have "\<dots> = ((flat g)(h \<mapsto> (parent, data))) k"
        by (simp add: flat_def anchor_hash_def connected_parent_hash_def)
      finally show ?thesis .
    qed
    have dom: "map_of (promote_loop ?ns [h]) k = None \<longleftrightarrow> map_of ?ns k = None" for k
      using arg_cong [OF L [THEN conjunct2, THEN conjunct2, rule_format, of k], of "\<lambda>x. x = None"]
      by (simp only: option.map_disc_iff)
    have g': "bg_nodes g' = promote_loop ?ns [h]" "bg_anchor g' = bg_anchor g"
      "bg_observed_head g' = bg_observed_head g"
      using conn(6) by (simp_all add: promote_reachable_def)
    have head: "bg_observed_head g = ?a \<or> map_of ?ns (bg_observed_head g) \<noteq> None"
      using ok by (auto simp: graph_ok_def anchor_hash_def graph_contains_def hm_contains_def)
    have "graph_ok g'"
      unfolding graph_ok_def graph_contains_def hm_contains_def anchor_hash_def g'
      using head dom
      by (intro conjI L [THEN conjunct1] L [THEN conjunct2, THEN conjunct1]) (simp only: not_False_eq_True)
    moreover have "flat g' = (flat g)(h \<mapsto> (parent, data))" using fl by blast
    moreover have "flat g h = None" using conn(3) by (simp add: flat_def)
    ultimately show ?thesis using conn g' by (simp add: anchor_hash_def)
  next
    case pend
    have "tree_ok_upto ?a (?m(h \<mapsto> Pending parent data)) (\<lambda>_ _. False)"
      using tree_ok_insert_pending [OF tree pend(3,2,1)] pend(4) by simp
    with ok pend show ?thesis
      by (auto simp: graph_ok_def anchor_hash_def graph_contains_def hm_contains_def flat_def fun_eq_iff)
  qed
qed

lemmas admit_ok = admit_cases [THEN conjunct1]

lemma graph_ok_with_data_capped: "graph_ok g \<Longrightarrow> graph_ok (fst (with_data_capped g h parent data cap))"
  using admit_ok [of g h parent data cap] by (metis prod.collapse)

lemma graph_ok_with_block_capped: "graph_ok g \<Longrightarrow> graph_ok (fst (with_block_capped g h parent n b cap))"
  by (simp add: with_block_capped_def graph_ok_with_data_capped)

lemma graph_ok_from_seed: "graph_ok (from_seed a n blocks)"
proof -
  have "graph_ok g \<Longrightarrow> graph_ok (fold (\<lambda>(h, parent, number, logs) g.
         fst (with_data_capped g h parent
           \<lparr>bd_number = number, bd_logs_bloom = None, bd_logs = Complete (key_by_log_index logs)\<rparr>
           MAX_PENDING_BLOCKS)) blocks g)" for g
    by (induction blocks arbitrary: g) (auto simp: graph_ok_with_data_capped split: prod.splits)
  then show ?thesis by (simp add: from_seed_def)
qed

lemma graph_ok_with_observed_head: "graph_ok g \<Longrightarrow> graph_ok (with_observed_head g h)"
  by (auto simp: with_observed_head_def graph_ok_def anchor_hash_def graph_contains_def)

section \<open>The parent walk returns\<close>

lemma connected_walk_Suc:
  "connected_walk (Suc n) nodes h = Some c \<longleftrightarrow>
     \<not> is_conn (map_of nodes) h \<and> c = [] \<or>
     (\<exists>d. map_of nodes h = Some (Connected Anchor d)) \<and> c = [h] \<or>
     (\<exists>p d c'. map_of nodes h = Some (Connected (Block p) d) \<and> connected_walk n nodes p = Some c' \<and> c = h # c')"
proof (cases "connected_in nodes h")
  case None
  then have "\<not> is_conn (map_of nodes) h" by simp
  then show ?thesis by (auto simp: None is_conn_def)
next
  case (Some e)
  obtain r d where e: "e = (r, d)" by (cases e)
  with Some have n: "map_of nodes h = Some (Connected r d)" by simp
  with Some e show ?thesis by (cases r) (auto simp: Some e is_conn_def)
qed

declare connected_walk.simps(2) [simp del]

lemma connected_walk_mono: "connected_walk n nodes h = Some c \<Longrightarrow> n \<le> n' \<Longrightarrow> connected_walk n' nodes h = Some c"
proof (induction n arbitrary: n' h c)
  case (Suc n)
  from Suc.prems(2) obtain k where k: "n' = Suc k" "n \<le> k" by (cases n') auto
  have sub: "connected_walk k nodes p = Some c'" if "connected_walk n nodes p = Some c'" for p c'
    by (rule Suc.IH [OF that k(2)])
  from Suc.prems(1) show ?case
    unfolding k(1) connected_walk_Suc using sub by metis
qed simp

lemma connected_walk_unique:
  "connected_walk n nodes h = Some c \<Longrightarrow> connected_walk n' nodes h = Some c' \<Longrightarrow> c = c'"
  by (metis connected_walk_mono le_cases option.inject)

lemma connected_walk_length: "connected_walk n nodes h = Some c \<Longrightarrow> connected_walk (Suc (length c)) nodes h = Some c"
proof (induction n arbitrary: h c)
  case (Suc n)
  from Suc.prems show ?case
    unfolding connected_walk_Suc using Suc.IH by (elim disjE exE conjE) (auto simp: is_conn_def)
qed simp

lemma connected_walk_conn: "connected_walk n nodes h = Some c \<Longrightarrow> k \<in> set c \<Longrightarrow> is_conn (map_of nodes) k"
proof (induction n arbitrary: h c)
  case (Suc n)
  from Suc.prems show ?case
    unfolding connected_walk_Suc using Suc.IH by (auto simp: is_conn_def)
qed simp

text \<open>The walk from a block on the path is a suffix of the path.\<close>

lemma connected_walk_suffix:
  "connected_walk n nodes h = Some c \<Longrightarrow> k \<in> set c \<Longrightarrow>
     \<exists>m xs ys. c = xs @ ys \<and> connected_walk m nodes k = Some ys \<and> (\<exists>zs. ys = k # zs)"
proof (induction n arbitrary: h c)
  case (Suc n)
  show ?case
  proof (cases "k = h")
    case True
    with Suc.prems show ?thesis
      by (intro exI [of _ "Suc n"] exI [of _ "[]"] exI [of _ c])
         (auto simp: connected_walk_Suc)
  next
    case False
    with Suc.prems obtain p d c' where c': "map_of nodes h = Some (Connected (Block p) d)"
      "connected_walk n nodes p = Some c'" "c = h # c'" "k \<in> set c'"
      by (auto simp: connected_walk_Suc)
    from Suc.IH [OF c'(2,4)] obtain m xs ys where
      "c' = xs @ ys" "connected_walk m nodes k = Some ys" "\<exists>zs. ys = k # zs" by blast
    with c'(3) show ?thesis by (intro exI [of _ m] exI [of _ "h # xs"] exI [of _ ys]) simp
  qed
qed simp

lemma connected_walk_distinct: "connected_walk n nodes h = Some c \<Longrightarrow> distinct c"
proof (induction n arbitrary: h c)
  case (Suc n)
  from Suc.prems consider "c = [] \<or> c = [h]" | "\<exists>p c'. connected_walk n nodes p = Some c' \<and> c = h # c'"
    unfolding connected_walk_Suc by blast
  then show ?case
  proof cases
    case 2
    then obtain p c' where c': "connected_walk n nodes p = Some c'" "c = h # c'" by blast
    have "h \<notin> set c'"
    proof
      assume "h \<in> set c'"
      from connected_walk_suffix [OF c'(1) this] obtain m xs ys where
        "c' = xs @ ys" "connected_walk m nodes h = Some ys" by blast
      with connected_walk_unique [OF Suc.prems, of m ys] c'(2) show False by simp
    qed
    with Suc.IH [OF c'(1)] c'(2) show ?thesis by simp
  qed auto
qed simp

text \<open>The fuel of the model is exact: a walk that returns on any fuel returns on this one.\<close>

lemma connected_walk_fuel:
  assumes "connected_walk n nodes h = Some c"
  shows "connected_walk (Suc (length nodes)) nodes h = Some c"
proof -
  have "set c \<subseteq> fst ` set nodes"
    using connected_walk_conn [OF assms] by (force simp: is_conn_def dest: map_of_SomeD)
  then have "card (set c) \<le> card (fst ` set nodes)" by (intro card_mono) simp_all
  also have "\<dots> \<le> length nodes" by (metis card_length length_map set_map)
  finally have "length c \<le> length nodes"
    using distinct_card [OF connected_walk_distinct [OF assms]] by simp
  then show ?thesis using connected_walk_mono [OF connected_walk_length [OF assms]] by simp
qed

lemma anchored_walk: "anchored (map_of nodes) h \<Longrightarrow> \<exists>n c. connected_walk n nodes h = Some (h # c)"
proof (induction rule: anchored.induct)
  case (anchored_child h d)
  have "connected_walk (Suc 0) nodes h = Some (h # [])"
    using anchored_child by (simp add: connected_walk_Suc)
  then show ?case by blast
next
  case (anchored_step h p d)
  then obtain n c where "connected_walk n nodes p = Some (p # c)" by blast
  then have "connected_walk (Suc n) nodes h = Some (h # p # c)"
    using anchored_step(1) by (simp add: connected_walk_Suc)
  then show ?case by blast
qed

lemma connected_walk_returns:
  assumes "graph_ok g"
  shows "\<exists>c. connected_walk (Suc (length (bg_nodes g))) (bg_nodes g) h = Some c"
proof (cases "is_conn (map_of (bg_nodes g)) h")
  case True
  with assms have "anchored (map_of (bg_nodes g)) h" by (simp add: graph_ok_def tree_ok_upto_def)
  with anchored_walk connected_walk_fuel show ?thesis by blast
next
  case False
  then show ?thesis by (auto simp: connected_walk_Suc)
qed

text \<open>
  \<open>is_path g xs\<close>: \<open>xs\<close> is a parent-linked chain of connected nodes whose first parent is the
  anchor. The canonical chain of a good graph is one, and it ends at the walk's target.
\<close>

fun linked :: "blocks_graph \<Rightarrow> block_hash \<Rightarrow> block_hash list \<Rightarrow> bool" where
  "linked g prev [] \<longleftrightarrow> True"
| "linked g prev (h # hs) \<longleftrightarrow> is_conn (map_of (bg_nodes g)) h \<and> map_option fst (flat g h) = Some prev \<and> linked g h hs"

lemma linked_append: "linked g prev (xs @ ys) \<longleftrightarrow> linked g prev xs \<and> linked g (last (prev # xs)) ys"
  by (induction xs arbitrary: prev) auto

lemma connected_walk_linked:
  "connected_walk n (bg_nodes g) h = Some c \<Longrightarrow> is_conn (map_of (bg_nodes g)) h \<Longrightarrow>
   tree_ok_upto (anchor_hash g) (map_of (bg_nodes g)) F \<Longrightarrow>
     linked g (anchor_hash g) (rev c) \<and> (\<exists>c'. c = h # c')"
proof (induction n arbitrary: h c)
  case (Suc n)
  then obtain r d where n: "map_of (bg_nodes g) h = Some (Connected r d)" by (auto simp: is_conn_def)
  show ?case
  proof (cases r)
    case Anchor
    with Suc.prems(1,2) n show ?thesis by (auto simp: connected_walk_Suc flat_def connected_parent_hash_def)
  next
    case (Block p)
    with Suc.prems(1) n obtain c' where c': "connected_walk n (bg_nodes g) p = Some c'" "c = h # c'"
      by (auto simp: connected_walk_Suc is_conn_def)
    have "is_conn (map_of (bg_nodes g)) p" using tree_ok_parent(2) [OF Suc.prems(3)] n Block by blast
    with Suc.IH [OF c'(1)] Suc.prems(3) obtain c'' where
      "linked g (anchor_hash g) (rev c')" "c' = p # c''" by blast
    with c' n Block Suc.prems(2) show ?thesis
      by (simp add: linked_append flat_def connected_parent_hash_def)
  qed
qed simp

lemma oldest_to_newest_linked:
  assumes "graph_ok g" and "connected g h \<noteq> None"
  shows "linked g (anchor_hash g) (connected_oldest_to_newest g h)"
    and "connected_oldest_to_newest g h \<noteq> []" and "last (connected_oldest_to_newest g h) = h"
    and "distinct (connected_oldest_to_newest g h)"
proof -
  obtain c where c: "connected_walk (Suc (length (bg_nodes g))) (bg_nodes g) h = Some c"
    using connected_walk_returns [OF assms(1)] by blast
  have "linked g (anchor_hash g) (rev c) \<and> (\<exists>c'. c = h # c')"
    by (rule connected_walk_linked [OF c, where F = "\<lambda>_ _. False"])
       (use assms in \<open>simp_all add: graph_ok_def connected_def\<close>)
  moreover have "connected_oldest_to_newest g h = rev c"
    by (simp add: connected_oldest_to_newest_def c)
  ultimately show "linked g (anchor_hash g) (connected_oldest_to_newest g h)"
    "connected_oldest_to_newest g h \<noteq> []" "last (connected_oldest_to_newest g h) = h"
    "distinct (connected_oldest_to_newest g h)"
    using connected_walk_distinct [OF c] by (auto simp: last_rev)
qed

lemma oldest_to_newest_not_connected: "connected g h = None \<Longrightarrow> connected_oldest_to_newest g h = []"
  by (auto simp: connected_oldest_to_newest_def connected_def connected_walk_Suc is_conn_def split: option.splits)

lemma oldest_to_newest_connected:
  "k \<in> set (connected_oldest_to_newest g h) \<Longrightarrow> connected g k \<noteq> None"
  using connected_walk_conn [where nodes = "bg_nodes g" and h = h and k = k]
  by (cases "connected_walk (Suc (length (bg_nodes g))) (bg_nodes g) h")
     (auto simp: connected_oldest_to_newest_def connected_def)

section \<open>The log ladder\<close>

fun logs_le :: "block_logs \<Rightarrow> block_logs \<Rightarrow> bool" where
  "logs_le Unknown _ \<longleftrightarrow> True"
| "logs_le (Streamed xs) (Streamed ys) \<longleftrightarrow> fst ` set xs \<subseteq> fst ` set ys"
| "logs_le (Streamed _) (Complete _) \<longleftrightarrow> True"
| "logs_le (Complete _) (Complete _) \<longleftrightarrow> True"
| "logs_le _ _ \<longleftrightarrow> False"

lemma logs_le_refl [simp]: "logs_le l l"
  by (cases l) simp_all

lemma logs_le_trans: "logs_le a b \<Longrightarrow> logs_le b c \<Longrightarrow> logs_le a c"
  by (cases a; cases b; cases c) auto

lemma merge_streamed_le: "logs_le (bd_logs d) (bd_logs (merge_streamed logs d))"
  by (cases "bd_logs d") (auto simp: merge_streamed_def)

lemma merge_streamed_frame [simp]:
  "bd_number (merge_streamed logs d) = bd_number d"
  "bd_logs_bloom (merge_streamed logs d) = bd_logs_bloom d"
  by (simp_all add: merge_streamed_def split: block_logs.splits)

lemma map_of_update_data:
  "map_of (bg_nodes (update_block_data g h f)) k =
     (if k = h then map_option (map_node_data f) (map_of (bg_nodes g) h) else map_of (bg_nodes g) k)"
  by (simp add: update_block_data_def AList.map_of_map_entry split: option.splits)

lemma update_data_frame [simp]:
  "bg_anchor (update_block_data g h f) = bg_anchor g"
  "bg_observed_head (update_block_data g h f) = bg_observed_head g"
  "anchor_hash (update_block_data g h f) = anchor_hash g"
  by (simp_all add: update_block_data_def anchor_hash_def)

lemma map_node_data_eq [simp]:
  "map_node_data f n = Connected r d \<longleftrightarrow> (\<exists>d'. n = Connected r d' \<and> d = f d')"
  "map_node_data f n = Pending p d \<longleftrightarrow> (\<exists>d'. n = Pending p d' \<and> d = f d')"
  by (cases n; auto)+

lemma existing_parent_map_data [simp]: "existing_parent a (map_node_data f n) = existing_parent a n"
  by (cases n) simp_all

lemma node_data_map_data [simp]: "node_data (map_node_data f n) = f (node_data n)"
  by (cases n) simp_all

lemma flat_update_data: "flat (update_block_data g h f) k =
    map_option (\<lambda>(p, d). (p, if k = h then f d else d)) (flat g k)"
  by (simp add: flat_def map_of_update_data option.map_comp comp_def)

lemma graph_ok_update_data:
  assumes "graph_ok g"
  shows "graph_ok (update_block_data g h f)"
proof -
  let ?m = "map_of (bg_nodes g)" and ?m' = "map_of (bg_nodes (update_block_data g h f))"
  have tree: "tree_ok_upto (anchor_hash g) ?m (\<lambda>_ _. False)" using assms by (simp add: graph_ok_def)
  have conn: "is_conn ?m' k \<longleftrightarrow> is_conn ?m k" for k
    by (auto simp: is_conn_def map_of_update_data)
  have mono: "anchored ?m k \<Longrightarrow> anchored ?m' k" for k
    by (erule anchored_mono) (auto simp: map_of_update_data)
  have pend: "p \<noteq> anchor_hash g \<and> p \<noteq> k \<and> (is_conn ?m p \<longrightarrow> False)" if "?m' k = Some (Pending p d)" for k p d
  proof -
    from that obtain d' where "?m k = Some (Pending p d')" by (auto simp: map_of_update_data split: if_splits)
    then show ?thesis by (rule tree_ok_pending [OF tree])
  qed
  have "tree_ok_upto (anchor_hash g) ?m' (\<lambda>_ _. False)"
    using tree_ok_root [OF tree] tree_ok_conn [OF tree] mono pend
    by (intro tree_okI) (auto simp: conn map_of_update_data)
  moreover have "hm_wf (bg_nodes (update_block_data g h f))"
    using assms by (simp add: graph_ok_def hm_wf_def update_block_data_def AList.distinct_map_entry)
  ultimately show ?thesis
    using assms by (auto simp: graph_ok_def graph_contains_def hm_contains_def map_of_update_data)
qed

lemma graph_ok_with_streamed_logs: "graph_ok g \<Longrightarrow> graph_ok (with_streamed_logs g h logs)"
  by (simp add: with_streamed_logs_def graph_ok_update_data)

lemma graph_ok_with_complete_logs: "graph_ok g \<Longrightarrow> graph_ok (fst (with_complete_logs g h logs))"
  by (simp add: with_complete_logs_def graph_ok_update_data)

section \<open>Missing parents\<close>

lemma missing_parents_set:
  assumes "hm_wf (bg_nodes g)"
  shows "m \<in> set (missing_parents g) \<longleftrightarrow>
    (\<exists>h d. map_of (bg_nodes g) h = Some (Pending m d)) \<and> m \<noteq> anchor_hash g \<and> \<not> graph_contains g m"
proof -
  let ?f = "\<lambda>node. case node of
      Pending p _ \<Rightarrow> if p \<noteq> ai_hash (bg_anchor g) \<and> \<not> hm_contains (bg_nodes g) p then Some p else None
    | _ \<Rightarrow> None"
  have mf: "m \<in> set (List.map_filter f xs) \<longleftrightarrow> (\<exists>x \<in> set xs. f x = Some m)" for f and xs :: "node list"
    by (induction xs) (auto simp: List.map_filter_simps split: option.splits)
  have f: "?f n = Some m \<longleftrightarrow> (\<exists>d. n = Pending m d) \<and> m \<noteq> anchor_hash g \<and> \<not> graph_contains g m" for n
    by (cases n) (auto simp: anchor_hash_def graph_contains_def)
  have "m \<in> set (missing_parents g) \<longleftrightarrow> (\<exists>n \<in> set (map snd (bg_nodes g)). ?f n = Some m)"
    unfolding missing_parents_def remdups_adj_set set_sort mf ..
  also have "\<dots> \<longleftrightarrow> (\<exists>h n. (h, n) \<in> set (bg_nodes g) \<and> ?f n = Some m)"
    by force
  also have "\<dots> \<longleftrightarrow> (\<exists>h d. map_of (bg_nodes g) h = Some (Pending m d)) \<and> m \<noteq> anchor_hash g \<and> \<not> graph_contains g m"
    unfolding f hm_wf_in_set [OF assms] by blast
  finally show ?thesis .
qed

lemma sorted_remdups_adj: "sorted (xs :: 'a::linorder list) \<Longrightarrow> distinct (remdups_adj xs)"
proof (induction xs rule: remdups_adj.induct)
  case (3 x y xs)
  then show ?case
    by (cases "x = y") (auto simp: remdups_adj_set intro: order.antisym)
qed simp_all

lemma missing_parents_distinct: "distinct (missing_parents g)"
  by (simp add: missing_parents_def sorted_remdups_adj)

section \<open>Concrete inputs of the witnesses\<close>

definition demo_bloom :: bloom_ops where
  "demo_bloom = \<lparr>bloom_pattern = (\<lambda>a. ucast a), bloom_contains = (\<lambda>b p. b AND p = p)\<rparr>"

definition demo_swap :: pool_log where
  "demo_swap = \<lparr>pl_pool = UniswapV3 7, pl_log_index = 0, pl_event = Swap 5 0 100\<rparr>"

text \<open>Anchor 1 at height 10, with the seeded chain 2, 3 above it and the head at 3.\<close>

definition demo_graph :: blocks_graph where
  "demo_graph = with_observed_head (from_seed 1 10 [(2, 1, 11, [demo_swap]), (3, 2, 12, [])]) 3"

lemma map_of_eqI_set:
  "distinct (map fst xs) \<Longrightarrow> distinct (map fst ys) \<Longrightarrow> set xs = set ys \<Longrightarrow> map_of xs = map_of ys"
  by (simp add: map_of_inject_set)

lemma anchor_from_seed: "bg_anchor (from_seed a n bs) = \<lparr>ai_hash = a, ai_number = n\<rparr>"
proof -
  have "bg_anchor (fold (\<lambda>(h, parent, number, logs) g. fst (with_data_capped g h parent
      \<lparr>bd_number = number, bd_logs_bloom = None, bd_logs = Complete (key_by_log_index logs)\<rparr>
      MAX_PENDING_BLOCKS)) bs g) = bg_anchor g" if "graph_ok g" for g
    using that
  proof (induction bs arbitrary: g)
    case (Cons b bs)
    obtain h p k logs where b: "b = (h, p, k, logs)" by (cases b)
    let ?d = "\<lparr>bd_number = k, bd_logs_bloom = None, bd_logs = Complete (key_by_log_index logs)\<rparr>"
    from admit_cases [OF Cons.prems surjective_pairing, of h p ?d MAX_PENDING_BLOCKS]
    show ?case using Cons.IH [of "fst (with_data_capped g h p ?d MAX_PENDING_BLOCKS)"] by (simp add: b)
  qed simp
  from this [OF graph_ok_new] show ?thesis by (simp add: from_seed_def graph_new_def)
qed

lemma demo_graph_ok: "graph_ok demo_graph"
  by (simp add: demo_graph_def graph_ok_with_observed_head graph_ok_from_seed)

definition demo_data :: block_data where
  "demo_data = \<lparr>bd_number = 12, bd_logs_bloom = None, bd_logs = Unknown\<rparr>"

section \<open>Properties of the block graph\<close>

text \<open>
  C3. Admission refines insertion into the flat block map. A refusal returns the graph unchanged; an
  admission adds the block with its parent and payload; in both cases the connected blocks of the
  result are exactly those whose parents lead to the anchor, so the promotion is exhaustive.
\<close>

theorem admission_refines_insertion:
  assumes "graph_ok g" and "with_data_capped g h parent data cap = (g', outcome)"
  shows "graph_ok g' \<and> bg_anchor g' = bg_anchor g \<and> bg_observed_head g' = bg_observed_head g \<and>
    flat g' = (if outcome = Admitted then (flat g)(h \<mapsto> (parent, data)) else flat g) \<and>
    (outcome \<noteq> Admitted \<longrightarrow> g' = g) \<and>
    (\<forall>k. connected g' k \<noteq> None \<longleftrightarrow> flat_reach (anchor_hash g') (flat g') k)"
proof -
  note cases = admit_cases [OF assms]
  have "connected g' k \<noteq> None \<longleftrightarrow> flat_reach (anchor_hash g') (flat g') k" for k
    using connected_iff_flat_reach [of g' k] cases by (simp add: connected_def)
  with cases show ?thesis by auto
qed

theorem admission_refines_insertion_witness:
  "flat (fst (with_data_capped (graph_new 1 10) 3 2 demo_data 8)) 3 = Some (2, demo_data)"
proof -
  have adm: "snd (with_data_capped (graph_new 1 10) 3 2 demo_data 8) = Admitted" by code_simp
  from admission_refines_insertion [OF graph_ok_new surjective_pairing, of 1 10 3 2 demo_data 8] adm
  show ?thesis by simp
qed

lemma pending_count_le_nodes: "pending_count g \<le> length (bg_nodes g)"
  unfolding pending_count_def by (metis length_filter_le length_map)

lemma length_nodes_flat: "graph_ok g \<Longrightarrow> length (bg_nodes g) = card (dom (flat g))"
proof -
  assume "graph_ok g"
  then have "hm_wf (bg_nodes g)" by (simp add: graph_ok_def)
  moreover have "dom (flat g) = fst ` set (bg_nodes g)"
    by (auto simp: flat_def dom_def map_of_eq_None_iff [symmetric] domIff simp flip: dom_map_of_conv_image_fst)
  ultimately show ?thesis by (simp add: hm_wf_def distinct_card [of "map fst (bg_nodes g)", simplified])
qed

lemma admit_fresh:
  assumes "h \<noteq> parent" and "h \<noteq> anchor_hash g" and "flat g h = None" and "pending_count g < cap"
  shows "snd (with_data_capped g h parent data cap) = Admitted"
  using assms by (simp add: with_data_capped_def Let_def flat_def anchor_hash_def)

type_synonym seed_block = "block_hash \<times> block_hash \<times> u64 \<times> pool_log list"

definition seed_entry :: "seed_block \<Rightarrow> block_hash \<times> block_hash \<times> block_data" where
  "seed_entry = (\<lambda>(h, p, n, logs).
     (h, p, \<lparr>bd_number = n, bd_logs_bloom = None, bd_logs = Complete (key_by_log_index logs)\<rparr>))"

lemma seed_keys: "map fst (map seed_entry bs) = map fst bs"
  by (simp add: seed_entry_def split_beta)

definition proper_seed :: "block_hash \<Rightarrow> seed_block \<Rightarrow> bool" where
  "proper_seed a = (\<lambda>(h, p, n, logs). h \<noteq> a \<and> h \<noteq> p)"

lemma flat_from_seed:
  assumes "distinct (map fst bs)" and "length bs \<le> MAX_PENDING_BLOCKS"
  shows "flat (from_seed a n bs) = map_of (map seed_entry (filter (proper_seed a) bs)) \<and>
    anchor_hash (from_seed a n bs) = a"
  using assms
proof (induction bs rule: rev_induct)
  case Nil
  show ?case by (simp add: from_seed_def graph_new_def flat_def fun_eq_iff anchor_hash_def)
next
  case (snoc b bs)
  obtain h p k logs where b: "b = (h, p, k, logs)" by (cases b)
  let ?g = "from_seed a n bs"
  let ?d = "\<lparr>bd_number = k, bd_logs_bloom = None, bd_logs = Complete (key_by_log_index logs)\<rparr>"
  have IH: "flat ?g = map_of (map seed_entry (filter (proper_seed a) bs))" "anchor_hash ?g = a"
    using snoc by auto
  have step: "from_seed a n (bs @ [b]) = fst (with_data_capped ?g h p ?d MAX_PENDING_BLOCKS)"
    by (simp add: from_seed_def b)
  have ok: "graph_ok ?g" by (rule graph_ok_from_seed)
  note keys = seed_keys [of "filter (proper_seed a) bs"]
  have fresh: "flat ?g h = None"
    unfolding IH map_of_eq_None_iff using keys snoc.prems(1) b by (auto simp: image_iff)
  have "dom (flat ?g) \<subseteq> fst ` set bs"
    unfolding IH dom_map_of_conv_image_fst using keys by (auto simp: image_image seed_entry_def split_beta)
  then have "card (dom (flat ?g)) \<le> length bs"
    by (meson List.finite_set card_image_le card_length card_mono finite_imageI le_trans)
  then have room: "pending_count ?g < MAX_PENDING_BLOCKS"
    using pending_count_le_nodes [of ?g] length_nodes_flat [OF ok] snoc.prems(2) by simp
  note cases = admit_cases [OF ok surjective_pairing, of h p ?d MAX_PENDING_BLOCKS]
  show ?case
  proof (cases "proper_seed a b")
    case True
    then have "snd (with_data_capped ?g h p ?d MAX_PENDING_BLOCKS) = Admitted"
      using fresh room by (intro admit_fresh) (auto simp: proper_seed_def b IH)
    moreover have "map_of (map seed_entry (filter (proper_seed a) bs) @ [(h, p, ?d)]) =
        (map_of (map seed_entry (filter (proper_seed a) bs)))(h \<mapsto> (p, ?d))"
      using fresh unfolding IH by (auto simp: fun_eq_iff map_add_def split: option.split)
    ultimately show ?thesis
      unfolding step using cases True IH by (simp add: seed_entry_def b anchor_hash_def)
  next
    case False
    then have "with_data_capped ?g h p ?d MAX_PENDING_BLOCKS \<in> {(?g, SelfParent), (?g, AnchorReadmit)}"
      using IH(2) by (auto simp: proper_seed_def b with_data_capped_def Let_def anchor_hash_def)
    then show ?thesis unfolding step using IH False by auto
  qed
qed

text \<open>
  Order independence of the seed: the blocks of a seed with distinct hashes, at most as many as
  the buffer holds, build the same graph in whatever order they arrive, node by node, so children
  may come before their parents and the same blocks are connected in the end.
\<close>

lemma seed_order_independent:
  assumes "distinct (map fst bs)" and "length bs \<le> MAX_PENDING_BLOCKS" and "mset bs' = mset bs"
  shows "map_of (bg_nodes (from_seed a n bs')) = map_of (bg_nodes (from_seed a n bs)) \<and>
    bg_anchor (from_seed a n bs') = bg_anchor (from_seed a n bs)"
proof -
  have prem: "distinct (map fst bs')" "length bs' \<le> MAX_PENDING_BLOCKS"
    using assms mset_eq_imp_distinct_iff [of "map fst bs'" "map fst bs"] mset_eq_length [OF assms(3)] by simp_all
  have keys: "distinct (map fst (map seed_entry (filter P xs)))" if "distinct (map fst xs)" for P and xs :: "seed_block list"
    unfolding seed_keys using that by (rule distinct_map_filter)
  have "map_of (map seed_entry (filter (proper_seed a) bs')) = map_of (map seed_entry (filter (proper_seed a) bs))"
    using assms(3) by (intro map_of_eqI_set keys prem assms) (simp flip: set_mset_mset)
  then have "flat (from_seed a n bs') = flat (from_seed a n bs)"
    using flat_from_seed [OF assms(1,2)] flat_from_seed [OF prem] by simp
  moreover have "bg_anchor (from_seed a n xs) = \<lparr>ai_hash = a, ai_number = n\<rparr>" for xs
    by (rule anchor_from_seed)
  ultimately show ?thesis
    using flat_determines [of "from_seed a n bs'" "from_seed a n bs"] graph_ok_from_seed
    by (simp add: anchor_hash_def)
qed

text \<open>
  The walk from a block to the anchor returns with the fuel it is given (one more than the number
  of nodes), and the chain it builds is the block's ancestry: it starts at a child of the anchor, each
  block is the parent of the next, it ends with the block itself and repeats none; a block that is
  not connected has the empty chain.
\<close>

lemma ancestry_walk_correct:
  assumes "graph_ok g"
  shows "(\<exists>c. connected_walk (Suc (length (bg_nodes g))) (bg_nodes g) h = Some c) \<and>
    (if connected g h = None then connected_oldest_to_newest g h = []
     else linked g (anchor_hash g) (connected_oldest_to_newest g h) \<and>
       connected_oldest_to_newest g h \<noteq> [] \<and>
       last (connected_oldest_to_newest g h) = h \<and> distinct (connected_oldest_to_newest g h))"
  using oldest_to_newest_linked [OF assms, of h] connected_walk_returns [OF assms, of h]
    oldest_to_newest_not_connected [of g h] by auto

text \<open>
  Log completeness only climbs: streaming logs into a block or completing it never loses a
  streamed log index, never turns a complete block back, touches no other block and no tree
  structure; a complete fetch is authoritative, and streaming leaves it as it is.
\<close>

lemma log_completeness_climbs:
  assumes "flat g h = Some (p, d)"
  shows "(\<exists>d'. flat (with_streamed_logs g h logs) h = Some (p, d') \<and> logs_le (bd_logs d) (bd_logs d') \<and>
      (\<forall>full. bd_logs d = Complete full \<longrightarrow> d' = d)) \<and>
    flat (fst (with_complete_logs g h logs)) h = Some (p, d\<lparr>bd_logs := Complete (key_by_log_index logs)\<rparr>) \<and>
    (\<forall>k. k \<noteq> h \<longrightarrow> flat (with_streamed_logs g h logs) k = flat g k \<and>
       flat (fst (with_complete_logs g h logs)) k = flat g k) \<and>
    (\<forall>k. graph_contains (with_streamed_logs g h logs) k = graph_contains g k) \<and>
    (snd (with_complete_logs g h logs) \<longleftrightarrow>
       (\<exists>streamed. bd_logs d = Streamed streamed \<and> fst ` set streamed \<noteq> pl_log_index ` set logs))"
proof -
  obtain node where node: "map_of (bg_nodes g) h = Some node" "node_data node = d"
    using assms by (auto simp: flat_def)
  have "streamed_log_mismatch g h logs \<longleftrightarrow>
      (\<exists>streamed. bd_logs d = Streamed streamed \<and> fst ` set streamed \<noteq> pl_log_index ` set logs)"
    using node by (cases "bd_logs d") (simp_all add: streamed_log_mismatch_def)
  moreover have "\<exists>d'. flat (with_streamed_logs g h logs) h = Some (p, d') \<and>
      logs_le (bd_logs d) (bd_logs d') \<and> (\<forall>full. bd_logs d = Complete full \<longrightarrow> d' = d)"
    using assms merge_streamed_le [of d logs]
    by (auto simp: with_streamed_logs_def flat_update_data merge_streamed_def)
  moreover have "graph_contains (with_streamed_logs g h logs) k = graph_contains g k" for k
    by (auto simp: graph_contains_def hm_contains_def with_streamed_logs_def map_of_update_data)
  moreover have "flat (with_streamed_logs g h logs) k = flat g k \<and>
      flat (fst (with_complete_logs g h logs)) k = flat g k" if "k \<noteq> h" for k
    using that by (cases "flat g k") (simp_all add: with_streamed_logs_def with_complete_logs_def flat_update_data)
  moreover have "flat (fst (with_complete_logs g h logs)) h =
      Some (p, d\<lparr>bd_logs := Complete (key_by_log_index logs)\<rparr>)"
    using assms by (simp add: with_complete_logs_def flat_update_data)
  ultimately show ?thesis by (simp add: with_complete_logs_def)
qed

text \<open>
  Every dangling ancestor is asked for once: the missing parents of a well-formed graph are
  exactly the parents of pending blocks that are neither the anchor nor in the graph, each listed
  once, 
\<close>

lemma missing_parents_exact:
  assumes "graph_ok g"
  shows "distinct (missing_parents g) \<and>
    (\<forall>m. m \<in> set (missing_parents g) \<longleftrightarrow>
       (\<exists>h d. map_of (bg_nodes g) h = Some (Pending m d)) \<and> m \<noteq> anchor_hash g \<and> \<not> graph_contains g m)"
  using assms missing_parents_distinct missing_parents_set [of g] by (simp add: graph_ok_def)

end
