(* ===== verification/Finalization.thy ===== *)
theory Finalization
  imports GraphInvariants
begin

text \<open>
  The fold and the finalization of \<open>client-evm/src/kernel/blocks_graph.rs\<close>: the ranged-log holes
  of a canonical path, the fold of a path's logs over a base snapshot, the foldable frontier, and
  the advance of the anchor with its pruning.
\<close>

section \<open>Holes of a path\<close>

function connected_descends_from :: "(block_hash, node) hmap \<Rightarrow> block_hash set \<Rightarrow> block_hash \<Rightarrow> block_hash \<Rightarrow> bool" where
  "connected_descends_from nodes visited current ancestor =
     (if current = ancestor then True
      else if current \<in> visited then False
      else case map_of nodes current of
             Some (Connected (Block parent) _) \<Rightarrow>
               connected_descends_from nodes (insert current visited) parent ancestor
           | _ \<Rightarrow> False)"
  by pat_completeness auto

termination
  by (relation "measure (\<lambda>(nodes, visited, current, ancestor). card (fst ` set nodes - visited))")
     (auto intro: visited_measure)

declare connected_descends_from.simps [simp del]

definition connected_path_data :: "blocks_graph \<Rightarrow> block_hash \<Rightarrow> block_data list" where
  "connected_path_data g target =
     List.map_filter (\<lambda>h. map_option snd (connected g h)) (connected_oldest_to_newest g target)"

text \<open>
  \<open>last.to + 1\<close> is a plain \<open>u64\<close> addition: it wraps in a release build.
\<close>

definition push_hole :: "missing_range list \<Rightarrow> u64 \<Rightarrow> block_hash \<Rightarrow> missing_range list" where
  "push_hole ranges number h =
     (if ranges \<noteq> [] \<and> number = mr_to (last ranges) + 1
      then butlast ranges @ [(last ranges)\<lparr>mr_to := number, mr_hashes := mr_hashes (last ranges) @ [h]\<rparr>]
      else ranges @ [\<lparr>mr_from = number, mr_to = number, mr_hashes = [h]\<rparr>])"

definition is_hole :: "bloom_ops \<Rightarrow> bloom set \<Rightarrow> u64 set \<Rightarrow> block_data \<Rightarrow> bool" where
  "is_hole B watched exclude_numbers data \<longleftrightarrow>
     (case bd_logs data of Complete _ \<Rightarrow> False | _ \<Rightarrow> True) \<and>
     bloom_may_touch B (bd_logs_bloom data) watched \<and> bd_number data \<notin> exclude_numbers"

fun collect_holes :: "bloom_ops \<Rightarrow> blocks_graph \<Rightarrow> bloom set \<Rightarrow> u64 set \<Rightarrow> block_hash list \<Rightarrow>
    missing_range list \<Rightarrow> missing_range list" where
  "collect_holes B g watched exclude [] ranges = ranges"
| "collect_holes B g watched exclude (h # hs) ranges =
     (case connected g h of
        None \<Rightarrow> ranges
      | Some (_, data) \<Rightarrow>
          collect_holes B g watched exclude hs
            (if is_hole B watched exclude data then push_hole ranges (bd_number data) h else ranges))"

definition missing_complete_ranges :: "bloom_ops \<Rightarrow> blocks_graph \<Rightarrow> block_hash \<Rightarrow> bloom set \<Rightarrow> u64 set \<Rightarrow>
    missing_range list" where
  "missing_complete_ranges B g target watched exclude_numbers =
     collect_holes B g watched exclude_numbers (connected_oldest_to_newest g target) []"

definition canonical_connected_target :: "blocks_graph \<Rightarrow> block_hash \<Rightarrow> block_hash option" where
  "canonical_connected_target g target =
     (case connected g target of
        None \<Rightarrow> None
      | Some _ \<Rightarrow> find (\<lambda>h. h = target) (canonical_oldest_to_newest g))"

definition missing_complete_ranges_to :: "bloom_ops \<Rightarrow> blocks_graph \<Rightarrow> block_hash \<Rightarrow> pool_ref set \<Rightarrow>
    address option \<Rightarrow> u64 set \<Rightarrow> missing_range list" where
  "missing_complete_ranges_to B g target verified v4_manager exclude_numbers =
     (case canonical_connected_target g target of
        None \<Rightarrow> []
      | Some target \<Rightarrow>
          missing_complete_ranges B g target
            (bloom_patterns_of B (watched_addresses verified v4_manager)) exclude_numbers)"

section \<open>The fold\<close>

type_synonym pool_states = "(pool_ref, pool_state) hmap"

definition push_event :: "pool_log \<Rightarrow> (protocol_pool_key, pool_log_event list) hmap \<Rightarrow>
    (protocol_pool_key, pool_log_event list) hmap" where
  "push_event log buckets =
     AList.update (pl_pool log)
       ((case map_of buckets (pl_pool log) of None \<Rightarrow> [] | Some run \<Rightarrow> run) @ [pl_event log]) buckets"

definition bucket_block :: "authority \<Rightarrow> block_data \<Rightarrow> (protocol_pool_key, pool_log_event list) hmap \<Rightarrow>
    (protocol_pool_key, pool_log_event list) hmap" where
  "bucket_block authority data buckets =
     (case readable_logs (bd_logs data) authority of
        None \<Rightarrow> buckets
      | Some logs \<Rightarrow> fold push_event (map snd logs) buckets)"

definition fold_base_pool :: "(protocol_pool_key, pool_log_event list) hmap \<Rightarrow> pool_ref \<times> pool_state \<Rightarrow>
    pool_states \<Rightarrow> pool_states" where
  "fold_base_pool buckets = (\<lambda>(pool, base_state) overlay.
     (case map_of buckets (pr_key pool) of
        None \<Rightarrow> overlay
      | Some run \<Rightarrow>
          (case derive_pool_state (Some base_state) run of
             None \<Rightarrow> overlay
           | Some folded \<Rightarrow> AList.update pool folded overlay)))"

definition seed_verified_pool :: "pool_states \<Rightarrow> (protocol_pool_key, pool_log_event list) hmap \<Rightarrow> pool_ref \<Rightarrow>
    pool_states \<Rightarrow> pool_states" where
  "seed_verified_pool base buckets pool overlay =
     (if hm_contains base pool then overlay
      else case map_of buckets (pr_key pool) of
        None \<Rightarrow> overlay
      | Some run \<Rightarrow>
          (case derive_pool_state None run of
             None \<Rightarrow> overlay
           | Some folded \<Rightarrow> AList.update pool folded overlay))"

definition folded_overlay :: "blocks_graph \<Rightarrow> pool_states \<Rightarrow> pool_ref set \<Rightarrow> block_hash \<Rightarrow> authority \<Rightarrow>
    pool_states" where
  "folded_overlay g base verified target authority =
     (let buckets = fold (bucket_block authority) (connected_path_data g target) [];
          overlay = fold (fold_base_pool buckets) base []
      in fold (seed_verified_pool base buckets) (sorted_list_of_set verified) overlay)"

definition folded_pool_states :: "blocks_graph \<Rightarrow> pool_states \<Rightarrow> pool_ref set \<Rightarrow> block_hash \<Rightarrow> authority \<Rightarrow>
    pool_states" where
  "folded_pool_states g base verified target authority =
     hm_extend base (folded_overlay g base verified target authority)"

fun frontier_walk :: "bloom_ops \<Rightarrow> blocks_graph \<Rightarrow> bloom set \<Rightarrow> authority \<Rightarrow> block_hash list \<Rightarrow> block_hash \<Rightarrow>
    block_hash" where
  "frontier_walk B g watched authority [] frontier = frontier"
| "frontier_walk B g watched authority (h # hs) frontier =
     (case connected g h of
        None \<Rightarrow> frontier
      | Some (_, data) \<Rightarrow>
          (if readable_logs (bd_logs data) authority = None \<and> bloom_may_touch B (bd_logs_bloom data) watched
           then frontier
           else frontier_walk B g watched authority hs h))"

definition foldable_frontier :: "bloom_ops \<Rightarrow> blocks_graph \<Rightarrow> block_hash \<Rightarrow> bloom set \<Rightarrow> authority \<Rightarrow>
    block_hash" where
  "foldable_frontier B g target watched authority =
     frontier_walk B g watched authority (connected_oldest_to_newest g target) (anchor_hash g)"

definition projected_fold_frontier :: "bloom_ops \<Rightarrow> blocks_graph \<Rightarrow> pool_ref set \<Rightarrow> address option \<Rightarrow>
    block_hash option" where
  "projected_fold_frontier B g verified v4_manager =
     (case connected_hash g (bg_observed_head g) of
        None \<Rightarrow> None
      | Some head \<Rightarrow>
          Some (foldable_frontier B g head
            (bloom_patterns_of B (watched_addresses verified v4_manager)) AllowStreamed))"

definition projected_pool_states :: "bloom_ops \<Rightarrow> blocks_graph \<Rightarrow> pool_states \<Rightarrow> pool_ref set \<Rightarrow>
    address option \<Rightarrow> pool_states \<times> block_hash" where
  "projected_pool_states B g base verified v4_manager =
     (case projected_fold_frontier B g verified v4_manager of
        None \<Rightarrow> ([], anchor_hash g)
      | Some frontier \<Rightarrow> (folded_overlay g base verified frontier AllowStreamed, frontier))"

definition projected_pool_states_if_changed :: "bloom_ops \<Rightarrow> blocks_graph \<Rightarrow> pool_states \<Rightarrow> pool_ref set \<Rightarrow>
    address option \<Rightarrow> block_hash option \<Rightarrow> (pool_states \<times> block_hash) option" where
  "projected_pool_states_if_changed B g base verified v4_manager last_dispatched =
     (let frontier = projected_fold_frontier B g verified v4_manager;
          frontier_hash = (case frontier of None \<Rightarrow> anchor_hash g | Some h \<Rightarrow> h)
      in if last_dispatched = Some frontier_hash then None
         else Some (case frontier of
                      Some f \<Rightarrow> folded_overlay g base verified f AllowStreamed
                    | None \<Rightarrow> [],
                    frontier_hash))"

section \<open>Advancing the anchor\<close>

definition retained_nodes :: "(block_hash, node) hmap \<Rightarrow> block_hash \<Rightarrow> block_hash set" where
  "retained_nodes nodes new_anchor =
     set (map fst (filter (\<lambda>(h, node). \<not> is_pending_node node \<and> h \<noteq> new_anchor \<and>
        connected_descends_from nodes {} h new_anchor) nodes))"

fun reroot_node :: "block_hash \<Rightarrow> node \<Rightarrow> node" where
  "reroot_node new_anchor (Connected (Block parent) data) =
     (if parent = new_anchor then Connected Anchor data else Connected (Block parent) data)"
| "reroot_node new_anchor node = node"

definition reanchored_to :: "blocks_graph \<Rightarrow> block_hash \<Rightarrow> pool_states \<Rightarrow> pool_ref set \<Rightarrow>
    blocks_graph \<times> pool_states" where
  "reanchored_to g new_anchor base verified =
     (if new_anchor = anchor_hash g then (g, base)
      else case connected g new_anchor of
        None \<Rightarrow> (g, base)
      | Some (_, data) \<Rightarrow>
          (let new_snapshot = folded_pool_states g base verified new_anchor RequireComplete;
               retained = retained_nodes (bg_nodes g) new_anchor;
               nodes = map (\<lambda>(h, node). (h, reroot_node new_anchor node))
                 (filter (\<lambda>(h, _). h \<in> retained) (bg_nodes g));
               observed_head =
                 (if bg_observed_head g = new_anchor \<or> hm_contains nodes (bg_observed_head g)
                  then bg_observed_head g else new_anchor)
           in (\<lparr>bg_anchor = \<lparr>ai_hash = new_anchor, ai_number = bd_number data\<rparr>,
                bg_nodes = nodes, bg_observed_head = observed_head\<rparr>, new_snapshot)))"

definition finalized_to :: "bloom_ops \<Rightarrow> blocks_graph \<Rightarrow> block_hash \<Rightarrow> pool_states \<Rightarrow> pool_ref set \<Rightarrow>
    address option \<Rightarrow> blocks_graph \<times> pool_states" where
  "finalized_to B g target base verified v4_manager =
     (case canonical_connected_target g target of
        None \<Rightarrow> (g, base)
      | Some target \<Rightarrow>
          reanchored_to g
            (foldable_frontier B g target
              (bloom_patterns_of B (watched_addresses verified v4_manager)) RequireComplete)
            base verified)"

end
