(* ===== verification/RequestTracking.thy ===== *)
theory RequestTracking
  imports Prelude "HOL-Library.Multiset"
begin

text \<open>
  \<open>client-evm/src/tick.rs\<close> and \<open>client-evm/src/request_tracking.rs\<close>: the wrapping tick clock,
  the request-id sequence, one typed request collection, and the four generic operations
  (\<open>issue_request\<close>, \<open>take_request\<close>, \<open>expired_request_ids\<close>, \<open>retry_request\<close>) over any store
  that implements the traits \<open>RequestIssuer\<close> and \<open>RequestStore\<close>.

  A store's trait implementation is a record of its accessors; the locale \<open>request_store\<close> states
  what the traits promise (each accessor reads what the other wrote and leaves the rest alone),
  and the laws of the four operations are proved once inside it.
\<close>

section \<open>Ticks\<close>

type_synonym tick = u64

definition REQUEST_TTL :: u64 where
  "REQUEST_TTL = 10"

definition tick_initial :: tick where
  "tick_initial = 0"

definition tick_next :: "tick \<Rightarrow> tick" where
  "tick_next t = t + 1"

definition elapsed_since :: "tick \<Rightarrow> tick \<Rightarrow> u64" where
  "elapsed_since self earlier = self - earlier"

definition is_expired_since :: "tick \<Rightarrow> tick \<Rightarrow> bool" where
  "is_expired_since self dispatched_at \<longleftrightarrow> elapsed_since self dispatched_at \<ge> REQUEST_TTL"

lemma not_expired_at_dispatch [simp]: "\<not> is_expired_since t t"
  by (simp add: is_expired_since_def elapsed_since_def REQUEST_TTL_def)

text \<open>The clock wraps, and so does the age: a request expires ten ticks after any dispatch tick.\<close>

lemma expired_after_ttl [simp]: "is_expired_since (t + REQUEST_TTL) t"
  by (simp add: is_expired_since_def elapsed_since_def)

section \<open>Requests\<close>

type_synonym request_id = u64

record 'r pending_payload =
  pp_payload :: 'r
  pp_dispatched_at :: tick

record 'r issued_request =
  ir_request_id :: request_id
  ir_request_payload :: 'r

type_synonym 'r request_collection = "(request_id, 'r pending_payload) hmap"

definition raw_id_next :: "request_id \<Rightarrow> request_id" where
  "raw_id_next last_id = last_id + 1"

definition ids_new :: request_id where
  "ids_new = 0"

definition ids_issue :: "request_id \<Rightarrow> request_id \<times> request_id" where
  "ids_issue last_id = (let next_id = raw_id_next last_id in (next_id, next_id))"

definition coll_insert :: "request_id \<Rightarrow> 'r \<Rightarrow> tick \<Rightarrow> 'r request_collection \<Rightarrow> 'r request_collection" where
  "coll_insert i payload dispatched_at c =
     AList.update i \<lparr>pp_payload = payload, pp_dispatched_at = dispatched_at\<rparr> c"

definition coll_remove :: "request_id \<Rightarrow> 'r request_collection \<Rightarrow>
    'r request_collection \<times> 'r pending_payload option" where
  "coll_remove i c = (AList.delete i c, map_of c i)"

definition coll_values :: "'r request_collection \<Rightarrow> 'r pending_payload list" where
  "coll_values c = map snd c"

definition coll_retain :: "(request_id \<Rightarrow> 'r pending_payload \<Rightarrow> bool) \<Rightarrow> 'r request_collection \<Rightarrow>
    'r request_collection" where
  "coll_retain keep c = filter (\<lambda>(i, p). keep i p) c"

text \<open>The trait implementations of a store, as a record of accessors.\<close>

record ('s, 'r) store_access =
  sa_ids :: "'s \<Rightarrow> request_id"
  sa_set_ids :: "request_id \<Rightarrow> 's \<Rightarrow> 's"
  sa_coll :: "'s \<Rightarrow> 'r request_collection"
  sa_set_coll :: "'r request_collection \<Rightarrow> 's \<Rightarrow> 's"

definition issue_request :: "('s, 'r) store_access \<Rightarrow> 's \<Rightarrow> 'r \<Rightarrow> tick \<Rightarrow> 's \<times> request_id" where
  "issue_request A store payload t =
     (let (last_id, request_id) = ids_issue (sa_ids A store);
          store = sa_set_ids A last_id store;
          store = sa_set_coll A (coll_insert request_id payload t (sa_coll A store)) store
      in (store, request_id))"

definition take_request :: "('s, 'r) store_access \<Rightarrow> 's \<Rightarrow> request_id \<Rightarrow>
    's \<times> 'r pending_payload option" where
  "take_request A store i =
     (let (c, pending) = coll_remove i (sa_coll A store)
      in (sa_set_coll A c store, pending))"

definition expired_request_ids :: "('s, 'r) store_access \<Rightarrow> 's \<Rightarrow> tick \<Rightarrow> request_id list" where
  "expired_request_ids A store t =
     map fst (filter (\<lambda>(i, request). is_expired_since t (pp_dispatched_at request)) (sa_coll A store))"

definition retry_request :: "('s, 'r) store_access \<Rightarrow> 's \<Rightarrow> request_id \<Rightarrow> tick \<Rightarrow>
    's \<times> 'r issued_request option" where
  "retry_request A store i t =
     (case take_request A store i of
        (store, Some pending) \<Rightarrow>
          (let (store, request_id) = issue_request A store (pp_payload pending) t
           in (store, Some \<lparr>ir_request_id = request_id, ir_request_payload = pp_payload pending\<rparr>))
      | (store, None) \<Rightarrow> (store, None))"

section \<open>Laws of a collection\<close>

text \<open>
  \<open>coll_ok n c\<close>: the ids of \<open>c\<close> are distinct and were all issued at or before \<open>n\<close>. The id after
  \<open>n\<close> is then fresh unless the 64-bit sequence wraps.
\<close>

definition coll_ok :: "request_id \<Rightarrow> 'r request_collection \<Rightarrow> bool" where
  "coll_ok n c \<longleftrightarrow> hm_wf c \<and> (\<forall>i \<in> fst ` set c. i \<le> n)"

definition coll_payloads :: "'r request_collection \<Rightarrow> 'r multiset" where
  "coll_payloads c = mset (map (pp_payload \<circ> snd) c)"

lemma coll_ok_Nil [simp]: "coll_ok n []"
  by (simp add: coll_ok_def)

lemma coll_ok_fresh: "coll_ok n c \<Longrightarrow> n \<noteq> - 1 \<Longrightarrow> map_of c (n + 1) = None"
  using word_less_next [of n] by (force simp: coll_ok_def map_of_eq_None_iff)

lemma coll_ok_insert: "coll_ok n c \<Longrightarrow> n \<noteq> - 1 \<Longrightarrow> coll_ok (n + 1) (coll_insert (n + 1) p t c)"
  using word_less_next [of n]
  by (auto simp: coll_ok_def coll_insert_def AList.dom_update dest!: bspec less_imp_le)

lemma coll_ok_mono: "coll_ok n c \<Longrightarrow> n \<le> m \<Longrightarrow> coll_ok m c"
  by (auto simp: coll_ok_def)

lemma coll_ok_delete: "coll_ok n c \<Longrightarrow> coll_ok n (AList.delete i c)"
  by (auto simp: coll_ok_def AList.delete_eq)

lemma coll_ok_retain: "coll_ok n c \<Longrightarrow> coll_ok n (coll_retain keep c)"
  by (auto simp: coll_ok_def coll_retain_def)

lemma coll_payloads_insert_new:
  "map_of c i = None \<Longrightarrow> coll_payloads (coll_insert i p t c) = add_mset p (coll_payloads c)"
  by (simp add: coll_payloads_def coll_insert_def update_new)

lemma coll_payloads_delete:
  "hm_wf c \<Longrightarrow> map_of c i = Some q \<Longrightarrow>
     add_mset (pp_payload q) (coll_payloads (AList.delete i c)) = coll_payloads c"
proof (induction c)
  case (Cons e c)
  show ?case
  proof (cases "fst e = i")
    case True
    with Cons.prems have "map_of c i = None" by (auto simp: hm_wf_def map_of_eq_None_iff)
    with True Cons.prems show ?thesis by (cases e) (simp add: coll_payloads_def delete_absent)
  next
    case False
    with Cons show ?thesis
      by (cases e) (auto simp: coll_payloads_def hm_wf_def add_mset_commute)
  qed
qed simp

section \<open>The store interface\<close>

locale request_store =
  fixes A :: "('s, 'r) store_access"
  assumes coll_set_coll: "sa_coll A (sa_set_coll A c s) = c"
    and coll_set_ids: "sa_coll A (sa_set_ids A n s) = sa_coll A s"
    and ids_set_ids: "sa_ids A (sa_set_ids A n s) = n"
    and ids_set_coll: "sa_ids A (sa_set_coll A c s) = sa_ids A s"
    and set_coll_id: "sa_set_coll A (sa_coll A s) s = s"
begin

lemma issue_coll:
  "sa_coll A (fst (issue_request A s p t)) = coll_insert (sa_ids A s + 1) p t (sa_coll A s)"
  by (simp add: issue_request_def ids_issue_def raw_id_next_def Let_def coll_set_coll coll_set_ids)

lemma issue_ids: "sa_ids A (fst (issue_request A s p t)) = sa_ids A s + 1"
  by (simp add: issue_request_def ids_issue_def raw_id_next_def Let_def ids_set_ids ids_set_coll)

lemma issue_id: "snd (issue_request A s p t) = sa_ids A s + 1"
  by (simp add: issue_request_def ids_issue_def raw_id_next_def Let_def)

lemma take_coll: "sa_coll A (fst (take_request A s i)) = AList.delete i (sa_coll A s)"
  by (simp add: take_request_def coll_remove_def coll_set_coll)

lemma take_ids: "sa_ids A (fst (take_request A s i)) = sa_ids A s"
  by (simp add: take_request_def coll_remove_def ids_set_coll)

lemma take_result: "snd (take_request A s i) = map_of (sa_coll A s) i"
  by (simp add: take_request_def coll_remove_def)

text \<open>An id with no pending request takes nothing and changes nothing.\<close>

lemma take_unknown: "map_of (sa_coll A s) i = None \<Longrightarrow> take_request A s i = (s, None)"
  by (simp add: take_request_def coll_remove_def delete_absent set_coll_id)

lemma issue_then_take:
  "snd (take_request A (fst (issue_request A s p t)) (snd (issue_request A s p t))) =
     Some \<lparr>pp_payload = p, pp_dispatched_at = t\<rparr>"
  by (simp add: take_result issue_coll issue_id coll_insert_def)

lemma retry_None: "map_of (sa_coll A s) i = None \<Longrightarrow> retry_request A s i t = (s, None)"
  by (simp add: retry_request_def take_unknown)

lemma retry_Some:
  assumes "map_of (sa_coll A s) i = Some q"
  shows "snd (retry_request A s i t) =
      Some \<lparr>ir_request_id = sa_ids A s + 1, ir_request_payload = pp_payload q\<rparr>"
    and "sa_coll A (fst (retry_request A s i t)) =
      coll_insert (sa_ids A s + 1) (pp_payload q) t (AList.delete i (sa_coll A s))"
    and "sa_ids A (fst (retry_request A s i t)) = sa_ids A s + 1"
proof -
  obtain s' where s': "take_request A s i = (s', Some q)"
    using take_result [of s i] assms by (metis prod.collapse)
  have coll: "sa_coll A s' = AList.delete i (sa_coll A s)" and ids: "sa_ids A s' = sa_ids A s"
    using take_coll [of s i] take_ids [of s i] s' by simp_all
  note iss = issue_coll [of s' "pp_payload q" t] issue_ids [of s' "pp_payload q" t]
    issue_id [of s' "pp_payload q" t]
  show "snd (retry_request A s i t) =
      Some \<lparr>ir_request_id = sa_ids A s + 1, ir_request_payload = pp_payload q\<rparr>"
    "sa_coll A (fst (retry_request A s i t)) =
      coll_insert (sa_ids A s + 1) (pp_payload q) t (AList.delete i (sa_coll A s))"
    "sa_ids A (fst (retry_request A s i t)) = sa_ids A s + 1"
    using iss by (simp_all add: retry_request_def s' coll ids split_beta Let_def)
qed

lemma retry_ok:
  assumes ok: "coll_ok (sa_ids A s) (sa_coll A s)" and nw: "sa_ids A s \<noteq> - 1"
  shows "coll_ok (sa_ids A (fst (retry_request A s i t))) (sa_coll A (fst (retry_request A s i t)))"
proof (cases "map_of (sa_coll A s) i")
  case None
  with ok show ?thesis by (simp add: retry_None)
next
  case (Some q)
  then show ?thesis using coll_ok_insert [OF coll_ok_delete [OF ok, of i] nw]
    by (simp add: retry_Some)
qed

text \<open>A retry keeps the requests in flight: the payload moves to a fresh id.\<close>

lemma retry_payloads:
  assumes ok: "coll_ok (sa_ids A s) (sa_coll A s)" and nw: "sa_ids A s \<noteq> - 1"
  shows "coll_payloads (sa_coll A (fst (retry_request A s i t))) = coll_payloads (sa_coll A s)"
proof (cases "map_of (sa_coll A s) i")
  case None
  then show ?thesis by (simp add: retry_None)
next
  case (Some q)
  have "map_of (AList.delete i (sa_coll A s)) (sa_ids A s + 1) = None"
    using coll_ok_fresh [OF coll_ok_delete [OF ok, of i] nw] .
  then have "coll_payloads (sa_coll A (fst (retry_request A s i t))) =
      add_mset (pp_payload q) (coll_payloads (AList.delete i (sa_coll A s)))"
    using Some by (simp add: retry_Some coll_payloads_insert_new)
  also have "\<dots> = coll_payloads (sa_coll A s)"
    using ok Some by (simp add: coll_payloads_delete coll_ok_def)
  finally show ?thesis .
qed

end

lemmas store_ops_defs = issue_request_def take_request_def retry_request_def ids_issue_def
  raw_id_next_def coll_remove_def Let_def

end
