(* ===== verification/PendingRequests.thy ===== *)
theory PendingRequests
  imports PoolTypes RequestTracking
begin

text \<open>
  \<open>client-evm/src/kernel/pending_requests.rs\<close>: the kernel's ledger of in-flight requests, one
  typed collection per request kind over a single id sequence, with the retry of expired
  requests and the pruning of requests whose target block left the graph.

  The locale \<open>pending_store\<close> extends the store interface with what a kind contributes to the
  whole ledger (its payloads in flight, its expired ids); each of the seven trait
  implementations is an interpretation, and the results about \<open>retry\<close> and \<open>retry_expired\<close>
  rest on its lemmas.
\<close>

section \<open>Payloads\<close>

datatype get_block_logs = GetBlockLogs (gbl_block_hash: block_hash)

datatype get_block_header = GetBlockHeader (gbh_block_hash: block_hash)

datatype get_pool_metadata =
  GetPoolMetadata (gpm_at: block_hash) (gpm_candidates: "protocol_pool_key set")

datatype get_token_metadata =
  GetTokenMetadata (gtm_at: block_hash) (gtm_tokens: "token_address set")

datatype get_pool_data = GetPoolData (gpd_at: block_hash) (gpd_pools: "pool_ref set")

datatype get_logs_range =
  GetLogsRange (glr_from: u64) (glr_to: u64) (glr_covered: "block_hash set")

datatype get_canonical_header = GetCanonicalHeaderAtHeight (gch_number: u64)

text \<open>The two constructors of a ranged-log request: checked, and from a coalesced hole range.\<close>

definition logs_range_new :: "u64 \<Rightarrow> u64 \<Rightarrow> block_hash set \<Rightarrow> get_logs_range option" where
  "logs_range_new from_block to_block covered =
     (if from_block \<le> to_block then Some (GetLogsRange from_block to_block covered) else None)"

definition logs_range_of_missing :: "missing_range \<Rightarrow> get_logs_range" where
  "logs_range_of_missing r = GetLogsRange (mr_from r) (mr_to r) (set (mr_hashes r))"

datatype any_request_id =
  BlockHeaderId request_id
| BlockLogsId request_id
| PoolMetadataId request_id
| TokenMetadataId request_id
| PoolDataId request_id
| LogsRangeId request_id
| CanonicalHeaderId request_id

datatype any_issued_request =
  BlockHeader "get_block_header issued_request"
| BlockLogs "get_block_logs issued_request"
| PoolMetadata "get_pool_metadata issued_request"
| TokenMetadata "get_token_metadata issued_request"
| PoolData "get_pool_data issued_request"
| LogsRange "get_logs_range issued_request"
| CanonicalHeader "get_canonical_header issued_request"

section \<open>The ledger\<close>

record pending_requests =
  rq_ids :: request_id
  rq_block_logs :: "get_block_logs request_collection"
  rq_block_headers :: "get_block_header request_collection"
  rq_pool_metadata :: "get_pool_metadata request_collection"
  rq_token_metadata :: "get_token_metadata request_collection"
  rq_pool_data :: "get_pool_data request_collection"
  rq_logs_range :: "get_logs_range request_collection"
  rq_canonical_header :: "get_canonical_header request_collection"

definition pending_requests_new :: pending_requests where
  "pending_requests_new = \<lparr>rq_ids = ids_new, rq_block_logs = [], rq_block_headers = [],
     rq_pool_metadata = [], rq_token_metadata = [], rq_pool_data = [], rq_logs_range = [],
     rq_canonical_header = []\<rparr>"

definition block_headers_access :: "(pending_requests, get_block_header) store_access" where
  "block_headers_access = \<lparr>sa_ids = rq_ids, sa_set_ids = (\<lambda>n s. s\<lparr>rq_ids := n\<rparr>),
     sa_coll = rq_block_headers, sa_set_coll = (\<lambda>c s. s\<lparr>rq_block_headers := c\<rparr>)\<rparr>"

definition block_logs_access :: "(pending_requests, get_block_logs) store_access" where
  "block_logs_access = \<lparr>sa_ids = rq_ids, sa_set_ids = (\<lambda>n s. s\<lparr>rq_ids := n\<rparr>),
     sa_coll = rq_block_logs, sa_set_coll = (\<lambda>c s. s\<lparr>rq_block_logs := c\<rparr>)\<rparr>"

definition pool_metadata_access :: "(pending_requests, get_pool_metadata) store_access" where
  "pool_metadata_access = \<lparr>sa_ids = rq_ids, sa_set_ids = (\<lambda>n s. s\<lparr>rq_ids := n\<rparr>),
     sa_coll = rq_pool_metadata, sa_set_coll = (\<lambda>c s. s\<lparr>rq_pool_metadata := c\<rparr>)\<rparr>"

definition token_metadata_access :: "(pending_requests, get_token_metadata) store_access" where
  "token_metadata_access = \<lparr>sa_ids = rq_ids, sa_set_ids = (\<lambda>n s. s\<lparr>rq_ids := n\<rparr>),
     sa_coll = rq_token_metadata, sa_set_coll = (\<lambda>c s. s\<lparr>rq_token_metadata := c\<rparr>)\<rparr>"

definition pool_data_access :: "(pending_requests, get_pool_data) store_access" where
  "pool_data_access = \<lparr>sa_ids = rq_ids, sa_set_ids = (\<lambda>n s. s\<lparr>rq_ids := n\<rparr>),
     sa_coll = rq_pool_data, sa_set_coll = (\<lambda>c s. s\<lparr>rq_pool_data := c\<rparr>)\<rparr>"

definition logs_range_access :: "(pending_requests, get_logs_range) store_access" where
  "logs_range_access = \<lparr>sa_ids = rq_ids, sa_set_ids = (\<lambda>n s. s\<lparr>rq_ids := n\<rparr>),
     sa_coll = rq_logs_range, sa_set_coll = (\<lambda>c s. s\<lparr>rq_logs_range := c\<rparr>)\<rparr>"

definition canonical_header_access :: "(pending_requests, get_canonical_header) store_access" where
  "canonical_header_access = \<lparr>sa_ids = rq_ids, sa_set_ids = (\<lambda>n s. s\<lparr>rq_ids := n\<rparr>),
     sa_coll = rq_canonical_header, sa_set_coll = (\<lambda>c s. s\<lparr>rq_canonical_header := c\<rparr>)\<rparr>"

lemmas access_defs = block_headers_access_def block_logs_access_def pool_metadata_access_def token_metadata_access_def pool_data_access_def logs_range_access_def canonical_header_access_def

definition expired_ids :: "pending_requests \<Rightarrow> tick \<Rightarrow> any_request_id list" where
  "expired_ids s t =
     map BlockHeaderId (expired_request_ids block_headers_access s t) @
     map BlockLogsId (expired_request_ids block_logs_access s t) @
     map PoolMetadataId (expired_request_ids pool_metadata_access s t) @
     map TokenMetadataId (expired_request_ids token_metadata_access s t) @
     map PoolDataId (expired_request_ids pool_data_access s t) @
     map LogsRangeId (expired_request_ids logs_range_access s t) @
     map CanonicalHeaderId (expired_request_ids canonical_header_access s t)"

definition pending_len :: "pending_requests \<Rightarrow> nat" where
  "pending_len s =
     length (coll_values (rq_block_headers s)) +
     length (coll_values (rq_block_logs s)) +
     length (coll_values (rq_pool_metadata s)) +
     length (coll_values (rq_token_metadata s)) +
     length (coll_values (rq_pool_data s)) +
     length (coll_values (rq_logs_range s)) +
     length (coll_values (rq_canonical_header s))"

definition has_pending_finality_probe :: "pending_requests \<Rightarrow> bool" where
  "has_pending_finality_probe s \<longleftrightarrow> coll_values (rq_canonical_header s) \<noteq> []"

definition pending_block_log_hashes :: "pending_requests \<Rightarrow> block_hash set" where
  "pending_block_log_hashes s =
     (gbl_block_hash \<circ> pp_payload) ` set (coll_values (rq_block_logs s))"

definition has_pending_header_request :: "pending_requests \<Rightarrow> block_hash \<Rightarrow> bool" where
  "has_pending_header_request s h \<longleftrightarrow>
     list_ex (\<lambda>request. gbh_block_hash (pp_payload request) = h) (coll_values (rq_block_headers s))"

definition pending_pool_metadata_candidates :: "pending_requests \<Rightarrow> protocol_pool_key set" where
  "pending_pool_metadata_candidates s =
     (\<Union>request \<in> set (coll_values (rq_pool_metadata s)). gpm_candidates (pp_payload request))"

definition pending_token_metadata_tokens :: "pending_requests \<Rightarrow> token_address set" where
  "pending_token_metadata_tokens s =
     (\<Union>request \<in> set (coll_values (rq_token_metadata s)). gtm_tokens (pp_payload request))"

definition pending_pool_data_pools :: "pending_requests \<Rightarrow> pool_ref set" where
  "pending_pool_data_pools s =
     (\<Union>request \<in> set (coll_values (rq_pool_data s)). gpd_pools (pp_payload request))"

definition pending_log_range_numbers :: "pending_requests \<Rightarrow> u64 set" where
  "pending_log_range_numbers s =
     (\<Union>request \<in> set (coll_values (rq_logs_range s)).
        {glr_from (pp_payload request)..glr_to (pp_payload request)})"

definition has_pending_block_backfill :: "pending_requests \<Rightarrow> bool" where
  "has_pending_block_backfill s \<longleftrightarrow>
     coll_values (rq_block_headers s) \<noteq> [] \<or> coll_values (rq_block_logs s) \<noteq> [] \<or>
     coll_values (rq_logs_range s) \<noteq> []"

definition retaining_block_targets :: "pending_requests \<Rightarrow> block_hash set \<Rightarrow> pending_requests" where
  "retaining_block_targets s retained = s\<lparr>
     rq_block_headers := coll_retain (\<lambda>_ r. gbh_block_hash (pp_payload r) \<in> retained) (rq_block_headers s),
     rq_block_logs := coll_retain (\<lambda>_ r. gbl_block_hash (pp_payload r) \<in> retained) (rq_block_logs s),
     rq_pool_metadata := coll_retain (\<lambda>_ r. gpm_at (pp_payload r) \<in> retained) (rq_pool_metadata s),
     rq_token_metadata := coll_retain (\<lambda>_ r. gtm_at (pp_payload r) \<in> retained) (rq_token_metadata s),
     rq_pool_data := coll_retain (\<lambda>_ r. gpd_at (pp_payload r) \<in> retained) (rq_pool_data s),
     rq_logs_range := coll_retain
       (\<lambda>_ r. \<exists>h \<in> glr_covered (pp_payload r). h \<in> retained) (rq_logs_range s)\<rparr>"

definition retry_typed :: "(pending_requests, 'r) store_access \<Rightarrow>
    ('r issued_request \<Rightarrow> any_issued_request) \<Rightarrow> pending_requests \<Rightarrow> request_id \<Rightarrow> tick \<Rightarrow>
    pending_requests \<times> any_issued_request option" where
  "retry_typed A wrap s i t =
     (let (s, issued) = retry_request A s i t in (s, map_option wrap issued))"

fun retry :: "pending_requests \<Rightarrow> any_request_id \<Rightarrow> tick \<Rightarrow>
    pending_requests \<times> any_issued_request option" where
  "retry s (BlockHeaderId i) t = retry_typed block_headers_access BlockHeader s i t"
| "retry s (BlockLogsId i) t = retry_typed block_logs_access BlockLogs s i t"
| "retry s (PoolMetadataId i) t = retry_typed pool_metadata_access PoolMetadata s i t"
| "retry s (TokenMetadataId i) t = retry_typed token_metadata_access TokenMetadata s i t"
| "retry s (PoolDataId i) t = retry_typed pool_data_access PoolData s i t"
| "retry s (LogsRangeId i) t = retry_typed logs_range_access LogsRange s i t"
| "retry s (CanonicalHeaderId i) t = retry_typed canonical_header_access CanonicalHeader s i t"

definition retry_expired :: "pending_requests \<Rightarrow> tick \<Rightarrow> pending_requests \<times> any_issued_request list" where
  "retry_expired s t =
     fold (\<lambda>i (requests, effects).
         (let (requests, issued) = retry requests i t
          in (requests, effects @ (case issued of None \<Rightarrow> [] | Some r \<Rightarrow> [r]))))
       (expired_ids s t) (s, [])"

section \<open>Specification view\<close>

text \<open>
  What a reader of the ledger relies on: the multiset of payloads in flight, and the set of
  requests that have expired at a tick.
\<close>

datatype any_payload =
  BlockHeaderP get_block_header
| BlockLogsP get_block_logs
| PoolMetadataP get_pool_metadata
| TokenMetadataP get_token_metadata
| PoolDataP get_pool_data
| LogsRangeP get_logs_range
| CanonicalHeaderP get_canonical_header

definition in_flight :: "pending_requests \<Rightarrow> any_payload multiset" where
  "in_flight s =
     image_mset BlockHeaderP (coll_payloads (rq_block_headers s)) +
     image_mset BlockLogsP (coll_payloads (rq_block_logs s)) +
     image_mset PoolMetadataP (coll_payloads (rq_pool_metadata s)) +
     image_mset TokenMetadataP (coll_payloads (rq_token_metadata s)) +
     image_mset PoolDataP (coll_payloads (rq_pool_data s)) +
     image_mset LogsRangeP (coll_payloads (rq_logs_range s)) +
     image_mset CanonicalHeaderP (coll_payloads (rq_canonical_header s))"

definition requests_ok :: "pending_requests \<Rightarrow> bool" where
  "requests_ok s \<longleftrightarrow>
     coll_ok (rq_ids s) (rq_block_headers s) \<and> coll_ok (rq_ids s) (rq_block_logs s) \<and>
     coll_ok (rq_ids s) (rq_pool_metadata s) \<and> coll_ok (rq_ids s) (rq_token_metadata s) \<and>
     coll_ok (rq_ids s) (rq_pool_data s) \<and> coll_ok (rq_ids s) (rq_logs_range s) \<and>
     coll_ok (rq_ids s) (rq_canonical_header s)"

fun issued_payload :: "any_issued_request \<Rightarrow> any_payload" where
  "issued_payload (BlockHeader r) = BlockHeaderP (ir_request_payload r)"
| "issued_payload (BlockLogs r) = BlockLogsP (ir_request_payload r)"
| "issued_payload (PoolMetadata r) = PoolMetadataP (ir_request_payload r)"
| "issued_payload (TokenMetadata r) = TokenMetadataP (ir_request_payload r)"
| "issued_payload (PoolData r) = PoolDataP (ir_request_payload r)"
| "issued_payload (LogsRange r) = LogsRangeP (ir_request_payload r)"
| "issued_payload (CanonicalHeader r) = CanonicalHeaderP (ir_request_payload r)"

definition coll_expired :: "tick \<Rightarrow> 'r request_collection \<Rightarrow> request_id set" where
  "coll_expired t c = {i. \<exists>p. map_of c i = Some p \<and> is_expired_since t (pp_dispatched_at p)}"

lemma coll_expired_insert [simp]: "coll_expired t (coll_insert i p t c) = coll_expired t c - {i}"
  by (auto simp: coll_expired_def coll_insert_def)

lemma coll_expired_delete [simp]: "coll_expired t (AList.delete i c) = coll_expired t c - {i}"
  by (auto simp: coll_expired_def)

lemma coll_expired_ids: "hm_wf (sa_coll A s) \<Longrightarrow>
    set (expired_request_ids A s t) = coll_expired t (sa_coll A s)"
  by (force simp: expired_request_ids_def coll_expired_def hm_wf_in_set)

definition expired_set :: "pending_requests \<Rightarrow> tick \<Rightarrow> any_request_id set" where
  "expired_set s t =
     BlockHeaderId ` coll_expired t (rq_block_headers s) \<union>
     BlockLogsId ` coll_expired t (rq_block_logs s) \<union>
     PoolMetadataId ` coll_expired t (rq_pool_metadata s) \<union>
     TokenMetadataId ` coll_expired t (rq_token_metadata s) \<union>
     PoolDataId ` coll_expired t (rq_pool_data s) \<union>
     LogsRangeId ` coll_expired t (rq_logs_range s) \<union>
     CanonicalHeaderId ` coll_expired t (rq_canonical_header s)"

lemma expired_ids_set: "requests_ok s \<Longrightarrow> set (expired_ids s t) = expired_set s t"
  unfolding expired_ids_def expired_set_def set_append set_map requests_ok_def coll_ok_def
  by (simp only: coll_expired_ids access_defs store_access.simps Un_assoc)

lemma expired_ids_length: "length (expired_ids s t) \<le> pending_len s"
  by (simp add: expired_ids_def pending_len_def expired_request_ids_def coll_values_def
      access_defs add.assoc) (intro add_le_mono length_filter_le)

lemma pending_len_in_flight: "pending_len s = size (in_flight s)"
  by (simp add: pending_len_def in_flight_def coll_payloads_def coll_values_def)

fun id_payload :: "pending_requests \<Rightarrow> any_request_id \<Rightarrow> any_payload option" where
  "id_payload s (BlockHeaderId i) = map_option (BlockHeaderP \<circ> pp_payload) (map_of (rq_block_headers s) i)"
| "id_payload s (BlockLogsId i) = map_option (BlockLogsP \<circ> pp_payload) (map_of (rq_block_logs s) i)"
| "id_payload s (PoolMetadataId i) = map_option (PoolMetadataP \<circ> pp_payload) (map_of (rq_pool_metadata s) i)"
| "id_payload s (TokenMetadataId i) = map_option (TokenMetadataP \<circ> pp_payload) (map_of (rq_token_metadata s) i)"
| "id_payload s (PoolDataId i) = map_option (PoolDataP \<circ> pp_payload) (map_of (rq_pool_data s) i)"
| "id_payload s (LogsRangeId i) = map_option (LogsRangeP \<circ> pp_payload) (map_of (rq_logs_range s) i)"
| "id_payload s (CanonicalHeaderId i) =
     map_option (CanonicalHeaderP \<circ> pp_payload) (map_of (rq_canonical_header s) i)"

lemma id_payload_cong:
  "(\<And>i. k = BlockHeaderId i \<Longrightarrow> rq_block_headers s' = rq_block_headers s) \<Longrightarrow>
   (\<And>i. k = BlockLogsId i \<Longrightarrow> rq_block_logs s' = rq_block_logs s) \<Longrightarrow>
   (\<And>i. k = PoolMetadataId i \<Longrightarrow> rq_pool_metadata s' = rq_pool_metadata s) \<Longrightarrow>
   (\<And>i. k = TokenMetadataId i \<Longrightarrow> rq_token_metadata s' = rq_token_metadata s) \<Longrightarrow>
   (\<And>i. k = PoolDataId i \<Longrightarrow> rq_pool_data s' = rq_pool_data s) \<Longrightarrow>
   (\<And>i. k = LogsRangeId i \<Longrightarrow> rq_logs_range s' = rq_logs_range s) \<Longrightarrow>
   (\<And>i. k = CanonicalHeaderId i \<Longrightarrow> rq_canonical_header s' = rq_canonical_header s) \<Longrightarrow>
   id_payload s' k = id_payload s k"
  by (cases k) simp_all

section \<open>The ledger interface of one request kind\<close>

locale pending_store = request_store A for A :: "(pending_requests, 'r) store_access" +
  fixes inj_payload :: "'r \<Rightarrow> any_payload"
    and inj_id :: "request_id \<Rightarrow> any_request_id"
    and wrap :: "'r issued_request \<Rightarrow> any_issued_request"
  assumes ids_field: "sa_ids A s = rq_ids s"
    and in_flight_ids: "in_flight (sa_set_ids A n s) = in_flight s"
    and in_flight_coll: "in_flight (sa_set_coll A c s) + image_mset inj_payload (coll_payloads (sa_coll A s)) =
      in_flight s + image_mset inj_payload (coll_payloads c)"
    and ok_coll: "requests_ok s \<Longrightarrow> coll_ok (rq_ids s) (sa_coll A s)"
    and ok_set_coll: "requests_ok s \<Longrightarrow> coll_ok (rq_ids s) c \<Longrightarrow> requests_ok (sa_set_coll A c s)"
    and ok_set_ids: "requests_ok s \<Longrightarrow> rq_ids s \<le> n \<Longrightarrow> requests_ok (sa_set_ids A n s)"
    and expired_ids_field: "expired_set (sa_set_ids A n s) t = expired_set s t"
    and expired_coll: "expired_set (sa_set_coll A c s) t =
      expired_set s t - inj_id ` coll_expired t (sa_coll A s) \<union> inj_id ` coll_expired t c"
    and expired_own: "inj_id i \<in> expired_set s t \<longleftrightarrow> i \<in> coll_expired t (sa_coll A s)"
    and inj_id_eq: "inj_id i = inj_id j \<longleftrightarrow> i = j"
    and payload_own: "id_payload s (inj_id i) = map_option (inj_payload \<circ> pp_payload) (map_of (sa_coll A s) i)"
    and payload_other: "k \<notin> range inj_id \<Longrightarrow> id_payload (sa_set_coll A c s) k = id_payload s k"
    and payload_ids: "id_payload (sa_set_ids A n s) k = id_payload s k"
    and wrap_payload: "issued_payload (wrap r) = inj_payload (ir_request_payload r)"
begin

lemma rq_ids_set_coll: "rq_ids (sa_set_coll A c s) = rq_ids s"
  using ids_set_coll [of c s] by (simp only: ids_field)

lemma issue_eq: "fst (issue_request A s p t) =
    sa_set_coll A (coll_insert (rq_ids s + 1) p t (sa_coll A s)) (sa_set_ids A (rq_ids s + 1) s)"
  by (simp add: issue_request_def ids_issue_def raw_id_next_def Let_def ids_field coll_set_ids)

lemma take_eq: "fst (take_request A s i) = sa_set_coll A (AList.delete i (sa_coll A s)) s"
  by (simp add: take_request_def coll_remove_def Let_def)

lemma issue_in_flight:
  assumes ok: "requests_ok s" and nw: "rq_ids s \<noteq> - 1"
  shows "in_flight (fst (issue_request A s p t)) = add_mset (inj_payload p) (in_flight s)"
proof -
  let ?s = "sa_set_ids A (rq_ids s + 1) s"
  have "coll_payloads (coll_insert (rq_ids s + 1) p t (sa_coll A s)) =
      add_mset p (coll_payloads (sa_coll A s))"
    by (rule coll_payloads_insert_new [OF coll_ok_fresh [OF ok_coll [OF ok] nw]])
  then show ?thesis
    using in_flight_coll [of "coll_insert (rq_ids s + 1) p t (sa_coll A s)" ?s]
    by (simp add: issue_eq coll_set_ids in_flight_ids)
qed

lemma issue_ok:
  assumes ok: "requests_ok s" and nw: "rq_ids s \<noteq> - 1"
  shows "requests_ok (fst (issue_request A s p t))"
proof -
  let ?s = "sa_set_ids A (rq_ids s + 1) s"
  have ids: "rq_ids ?s = rq_ids s + 1" using ids_set_ids ids_field by metis
  have "requests_ok ?s"
    using ok_set_ids [OF ok] word_less_next [OF nw, of "rq_ids s"] by simp
  then show ?thesis
    unfolding issue_eq by (rule ok_set_coll) (simp add: ids coll_ok_insert [OF ok_coll [OF ok] nw])
qed

lemma take_ok: "requests_ok s \<Longrightarrow> requests_ok (fst (take_request A s i))"
  by (simp add: take_eq ok_set_coll coll_ok_delete ok_coll)

lemma take_in_flight:
  assumes ok: "requests_ok s" and q: "map_of (sa_coll A s) i = Some q"
  shows "add_mset (inj_payload (pp_payload q)) (in_flight (fst (take_request A s i))) = in_flight s"
proof -
  have "add_mset (pp_payload q) (coll_payloads (AList.delete i (sa_coll A s))) =
      coll_payloads (sa_coll A s)"
    using ok_coll [OF ok] q by (simp add: coll_payloads_delete coll_ok_def)
  then have "image_mset inj_payload (coll_payloads (sa_coll A s)) =
      add_mset (inj_payload (pp_payload q))
        (image_mset inj_payload (coll_payloads (AList.delete i (sa_coll A s))))"
    by (metis image_mset_add_mset)
  with in_flight_coll [of "AList.delete i (sa_coll A s)" s] show ?thesis
    by (simp add: take_eq)
qed

lemma retry_eq:
  "fst (retry_request A s i t) =
     (case map_of (sa_coll A s) i of
        None \<Rightarrow> s
      | Some q \<Rightarrow> fst (issue_request A (fst (take_request A s i)) (pp_payload q) t))"
proof (cases "map_of (sa_coll A s) i")
  case (Some q)
  then obtain s' where "take_request A s i = (s', Some q)"
    using take_result [of s i] by (metis prod.collapse)
  with Some show ?thesis by (simp add: retry_request_def split_beta Let_def)
qed (simp add: retry_None)

lemma take_ids_field: "rq_ids (fst (take_request A s i)) = rq_ids s"
  using take_ids [of s i] by (simp add: ids_field)

lemma issue_ids_field: "rq_ids (fst (issue_request A s p t)) = rq_ids s + 1"
  using issue_ids [of s p t] by (simp add: ids_field)

lemma retry_requests_ok:
  assumes "requests_ok s" and "rq_ids s \<noteq> - 1"
  shows "requests_ok (fst (retry_request A s i t))"
  using assms by (auto simp: retry_eq take_ids_field intro!: issue_ok take_ok split: option.splits)

lemma retry_in_flight:
  assumes "requests_ok s" and "rq_ids s \<noteq> - 1"
  shows "in_flight (fst (retry_request A s i t)) = in_flight s"
  using assms take_in_flight [of s i]
  by (auto simp: retry_eq take_ids_field issue_in_flight take_ok split: option.splits)

lemma retry_ids_field:
  "rq_ids (fst (retry_request A s i t)) = (if map_of (sa_coll A s) i = None then rq_ids s else rq_ids s + 1)"
  by (auto simp: retry_eq issue_ids_field take_ids_field split: option.splits)

lemma retry_expired_set:
  assumes ok: "requests_ok s" and nw: "rq_ids s \<noteq> - 1"
  shows "expired_set (fst (retry_request A s i t)) t = expired_set s t - {inj_id i}"
proof (cases "map_of (sa_coll A s) i")
  case None
  then have "inj_id i \<notin> expired_set s t" by (auto simp: expired_own coll_expired_def)
  with None show ?thesis by (simp add: retry_None)
next
  case (Some q)
  let ?c = "AList.delete i (sa_coll A s)" and ?n = "rq_ids s + 1"
  have fresh: "map_of (sa_coll A s) ?n = None"
    by (rule coll_ok_fresh [OF ok_coll [OF ok] nw])
  have exp: "coll_expired t (coll_insert ?n (pp_payload q) t ?c) = coll_expired t (sa_coll A s) - {i}"
    using fresh by simp (auto simp: coll_expired_def)
  have gen: "E - X \<union> Y - Y \<union> Y = E - X \<union> Y" for E X Y :: "any_request_id set"
    by blast
  have "fst (retry_request A s i t) =
      sa_set_coll A (coll_insert ?n (pp_payload q) t ?c)
        (sa_set_ids A ?n (sa_set_coll A ?c s))"
    using Some by (simp add: retry_eq issue_eq take_eq rq_ids_set_coll coll_set_coll)
  then have "expired_set (fst (retry_request A s i t)) t =
      expired_set s t - inj_id ` coll_expired t (sa_coll A s) \<union>
        inj_id ` (coll_expired t (sa_coll A s) - {i})"
    by (simp only: expired_coll expired_ids_field coll_set_ids coll_set_coll exp
        coll_expired_delete gen)
  also have "\<dots> = expired_set s t - {inj_id i}"
    using expired_own [of _ s t] by (blast dest: inj_id_eq [THEN iffD1])
  finally show ?thesis .
qed

lemma retry_payload_frame:
  assumes ok: "requests_ok s" and nw: "rq_ids s \<noteq> - 1"
    and j: "j \<noteq> inj_id i" "id_payload s j \<noteq> None"
  shows "id_payload (fst (retry_request A s i t)) j = id_payload s j"
proof (cases "j \<in> range inj_id")
  case True
  then obtain k where k: "j = inj_id k" by auto
  then have "k \<noteq> rq_ids s + 1"
    using j coll_ok_fresh [OF ok_coll [OF ok] nw] by (auto simp: payload_own)
  with j k show ?thesis
    by (auto simp: retry_eq issue_eq take_eq payload_own coll_set_coll coll_set_ids rq_ids_set_coll
        coll_insert_def split: option.splits)
next
  case False
  then show ?thesis
    by (auto simp: retry_eq issue_eq take_eq payload_other payload_ids split: option.splits)
qed

lemma retry_issued:
  "map_option issued_payload (snd (retry_typed A wrap s i t)) =
     id_payload s (inj_id i)"
  by (cases "map_of (sa_coll A s) i")
     (simp_all add: retry_typed_def retry_None retry_Some split_beta wrap_payload payload_own Let_def)

end

interpretation block_headers: pending_store block_headers_access BlockHeaderP BlockHeaderId BlockHeader
  by unfold_locales
    (auto simp: access_defs in_flight_def requests_ok_def expired_set_def
      intro: coll_ok_mono intro!: id_payload_cong)

interpretation block_logs: pending_store block_logs_access BlockLogsP BlockLogsId BlockLogs
  by unfold_locales
    (auto simp: access_defs in_flight_def requests_ok_def expired_set_def
      intro: coll_ok_mono intro!: id_payload_cong)

interpretation pool_metadata: pending_store pool_metadata_access PoolMetadataP PoolMetadataId PoolMetadata
  by unfold_locales
    (auto simp: access_defs in_flight_def requests_ok_def expired_set_def
      intro: coll_ok_mono intro!: id_payload_cong)

interpretation token_metadata: pending_store token_metadata_access TokenMetadataP TokenMetadataId TokenMetadata
  by unfold_locales
    (auto simp: access_defs in_flight_def requests_ok_def expired_set_def
      intro: coll_ok_mono intro!: id_payload_cong)

interpretation pool_data: pending_store pool_data_access PoolDataP PoolDataId PoolData
  by unfold_locales
    (auto simp: access_defs in_flight_def requests_ok_def expired_set_def
      intro: coll_ok_mono intro!: id_payload_cong)

interpretation logs_range: pending_store logs_range_access LogsRangeP LogsRangeId LogsRange
  by unfold_locales
    (auto simp: access_defs in_flight_def requests_ok_def expired_set_def
      intro: coll_ok_mono intro!: id_payload_cong)

interpretation canonical_header: pending_store canonical_header_access CanonicalHeaderP CanonicalHeaderId CanonicalHeader
  by unfold_locales
    (auto simp: access_defs in_flight_def requests_ok_def expired_set_def
      intro: coll_ok_mono intro!: id_payload_cong)

lemmas retry_requests_oks = block_headers.retry_requests_ok
  block_logs.retry_requests_ok
  pool_metadata.retry_requests_ok
  token_metadata.retry_requests_ok
  pool_data.retry_requests_ok
  logs_range.retry_requests_ok
  canonical_header.retry_requests_ok

lemmas retry_in_flights = block_headers.retry_in_flight
  block_logs.retry_in_flight
  pool_metadata.retry_in_flight
  token_metadata.retry_in_flight
  pool_data.retry_in_flight
  logs_range.retry_in_flight
  canonical_header.retry_in_flight

lemmas retry_ids_fields = block_headers.retry_ids_field
  block_logs.retry_ids_field
  pool_metadata.retry_ids_field
  token_metadata.retry_ids_field
  pool_data.retry_ids_field
  logs_range.retry_ids_field
  canonical_header.retry_ids_field

lemmas retry_expired_sets = block_headers.retry_expired_set
  block_logs.retry_expired_set
  pool_metadata.retry_expired_set
  token_metadata.retry_expired_set
  pool_data.retry_expired_set
  logs_range.retry_expired_set
  canonical_header.retry_expired_set

lemmas retry_payload_frames = block_headers.retry_payload_frame
  block_logs.retry_payload_frame
  pool_metadata.retry_payload_frame
  token_metadata.retry_payload_frame
  pool_data.retry_payload_frame
  logs_range.retry_payload_frame
  canonical_header.retry_payload_frame

lemmas retry_issueds = block_headers.retry_issued
  block_logs.retry_issued
  pool_metadata.retry_issued
  token_metadata.retry_issued
  pool_data.retry_issued
  logs_range.retry_issued
  canonical_header.retry_issued

section \<open>Retry of any kind\<close>

lemma fst_retry_typed [simp]: "fst (retry_typed A wrap s i t) = fst (retry_request A s i t)"
  by (simp add: retry_typed_def split_beta Let_def)

lemma retry_any:
  assumes "requests_ok s" and "rq_ids s \<noteq> - 1"
  shows "requests_ok (fst (retry s i t))"
    and "in_flight (fst (retry s i t)) = in_flight s"
    and "expired_set (fst (retry s i t)) t = expired_set s t - {i}"
  using assms by (cases i; simp add: retry_requests_oks retry_in_flights retry_expired_sets)+

lemma retry_any_ids: "rq_ids (fst (retry s i t)) \<in> {rq_ids s, rq_ids s + 1}"
  by (cases i) (simp_all add: retry_ids_fields)

lemma retry_any_frame:
  assumes "requests_ok s" and "rq_ids s \<noteq> - 1" and "j \<noteq> i" and "id_payload s j \<noteq> None"
  shows "id_payload (fst (retry s i t)) j = id_payload s j"
  using assms by (cases i) (auto intro!: retry_payload_frames)

lemma retry_any_issued: "map_option issued_payload (snd (retry s i t)) = id_payload s i"
  by (cases i) (simp_all add: retry_issueds)

lemma expired_has_payload: "i \<in> expired_set s t \<Longrightarrow> id_payload s i \<noteq> None"
  by (cases i) (auto simp: expired_set_def coll_expired_def)

lemma distinct_expired_ids: "requests_ok s \<Longrightarrow> distinct (expired_ids s t)"
proof -
  have gen: "hm_wf (sa_coll A s) \<Longrightarrow> distinct (expired_request_ids A s t)"
    for A :: "(pending_requests, 'r) store_access"
    using hm_wf_filter [of "sa_coll A s"] by (auto simp: expired_request_ids_def hm_wf_def)
  assume ok: "requests_ok s"
  show ?thesis
    unfolding expired_ids_def
    using ok by (auto simp: distinct_map inj_on_def requests_ok_def coll_ok_def
        intro!: gen) (simp_all add: access_defs)
qed

text \<open>
  The retry loop from any list of distinct pending ids, as long as the id sequence does not wrap.
\<close>

definition retry_loop :: "any_request_id list \<Rightarrow> tick \<Rightarrow> pending_requests \<times> any_issued_request list \<Rightarrow>
    pending_requests \<times> any_issued_request list" where
  "retry_loop is t = fold (\<lambda>i (requests, effects).
         (let (requests, issued) = retry requests i t
          in (requests, effects @ (case issued of None \<Rightarrow> [] | Some r \<Rightarrow> [r])))) is"

lemma retry_loop_spec:
  assumes "requests_ok s" and "uint (rq_ids s) + int (length is) < 2 ^ 64" and "distinct is"
    and "\<forall>i \<in> set is. id_payload s i \<noteq> None"
  shows "\<exists>s' new. retry_loop is t (s, es) = (s', es @ new) \<and> requests_ok s' \<and>
    in_flight s' = in_flight s \<and> expired_set s' t = expired_set s t - set is \<and>
    map (Some \<circ> issued_payload) new = map (id_payload s) is"
  using assms
proof (induction "is" arbitrary: s es)
  case Nil
  then show ?case by (simp add: retry_loop_def)
next
  case (Cons i js)
  have nw: "rq_ids s \<noteq> - 1"
    using Cons.prems(2) by (auto simp: unsigned_minus_1_eq_mask mask_eq_exp_minus_1)
  let ?s = "fst (retry s i t)"
  note one = retry_any [OF Cons.prems(1) nw, of i t]
  have frame: "id_payload ?s j = id_payload s j" if "j \<in> set js" for j
    using that Cons.prems by (intro retry_any_frame [OF Cons.prems(1) nw]) auto
  have ids: "uint (rq_ids ?s) + int (length js) < 2 ^ 64"
    using retry_any_ids [of s i t] Cons.prems(2) uint_plus_one [OF nw] by auto
  obtain r where r: "snd (retry s i t) = Some r" and pr: "id_payload s i = Some (issued_payload r)"
    using retry_any_issued [of s i t] Cons.prems(4) by auto
  have step: "retry_loop (i # js) t (s, es) = retry_loop js t (?s, es @ [r])"
    using r by (simp add: retry_loop_def split_beta Let_def)
  have "\<exists>s' new. retry_loop js t (?s, es @ [r]) = (s', (es @ [r]) @ new) \<and> requests_ok s' \<and>
      in_flight s' = in_flight ?s \<and> expired_set s' t = expired_set ?s t - set js \<and>
      map (Some \<circ> issued_payload) new = map (id_payload ?s) js"
    using Cons.prems frame by (intro Cons.IH one ids) auto
  then obtain s' new where
    "retry_loop js t (?s, es @ [r]) = (s', es @ r # new)" "requests_ok s'"
    "in_flight s' = in_flight s" "expired_set s' t = expired_set s t - set (i # js)"
    "map (Some \<circ> issued_payload) (r # new) = map (id_payload s) (i # js)"
    using one pr frame by (auto simp: Diff_insert2 [symmetric])
  then show ?case unfolding step by blast
qed

lemma retry_expired_loop: "retry_expired s t = retry_loop (expired_ids s t) t (s, [])"
  by (simp add: retry_expired_def retry_loop_def)

lemma retry_expired_effects:
  assumes ok: "requests_ok s" and room: "uint (rq_ids s) + int (pending_len s) < 2 ^ 64"
    and res: "retry_expired s t = (s', es)"
  shows "requests_ok s'" and "in_flight s' = in_flight s" and "expired_set s' t = {}"
    and "map (Some \<circ> issued_payload) es = map (id_payload s) (expired_ids s t)"
proof -
  have "uint (rq_ids s) + int (length (expired_ids s t)) < 2 ^ 64"
    using room expired_ids_length [of s t] by linarith
  moreover have "\<forall>i \<in> set (expired_ids s t). id_payload s i \<noteq> None"
    using expired_has_payload by (simp add: expired_ids_set [OF ok])
  ultimately obtain s2 new where "retry_expired s t = (s2, new)" "requests_ok s2"
    "in_flight s2 = in_flight s" "expired_set s2 t = expired_set s t - set (expired_ids s t)"
    "map (Some \<circ> issued_payload) new = map (id_payload s) (expired_ids s t)"
    using retry_loop_spec [OF ok _ distinct_expired_ids [OF ok], where t = t and es = "[]"]
    unfolding retry_expired_loop by (simp only: append_Nil) blast
  then show "requests_ok s'" "in_flight s' = in_flight s" "expired_set s' t = {}"
    "map (Some \<circ> issued_payload) es = map (id_payload s) (expired_ids s t)"
    using res by (simp_all add: expired_ids_set [OF ok])
qed

section \<open>Property of the retry\<close>

text \<open>
  A tick re-issues exactly the expired requests. The re-issued effects carry, in order, the
  payloads of the expired requests; what is in flight stays the same, nothing is expired afterwards,
  and the ledger stays well formed.
\<close>

lemma tick_retries_exactly_expired:
  assumes "requests_ok s" and "uint (rq_ids s) + int (pending_len s) < 2 ^ 64"
    and "retry_expired s t = (s', es)"
  shows "requests_ok s' \<and> in_flight s' = in_flight s \<and> expired_ids s' t = [] \<and>
    map (Some \<circ> issued_payload) es = map (id_payload s) (expired_ids s t)"
  using retry_expired_effects [OF assms] expired_ids_set [of s' t] by auto

end
