(* ===== verification/Registries.thy ===== *)
theory Registries
  imports PoolTypes
begin

text \<open>
  The verified-pool and verified-token registries of \<open>kernel/pool_registry.rs\<close> and
  \<open>kernel/token_registry.rs\<close>, the metadata catalog of \<open>kernel/metadata_catalog.rs\<close>, and the token
  whitelist of \<open>token_whitelist.rs\<close>.

  Both registries obey one contract, the locale \<open>metadata_registry\<close>: applying a batch of results
  is a fold of single results, a verified entry stays verified, an entry is never verified and
  failed at once, and every key of the batch is known afterwards.
\<close>

section \<open>The pool registry\<close>

record trusted_pool_registry =
  pr_verified :: "(pool_ref, pool_metadata) hmap"
  pr_rejected :: "protocol_pool_key set"

definition pool_registry_new :: trusted_pool_registry where
  "pool_registry_new = \<lparr>pr_verified = [], pr_rejected = {}\<rparr>"

text \<open>The body of the loop in \<open>with_metadata_results\<close>, and the loop.\<close>

fun pool_result_step :: "chain_key \<Rightarrow> protocol_pool_key \<times> pool_metadata_result \<Rightarrow>
    trusted_pool_registry \<Rightarrow> trusted_pool_registry" where
  "pool_result_step chain (candidate, Inr metadata) registry =
     registry\<lparr>pr_rejected := pr_rejected registry - {candidate},
       pr_verified := AList.update (PoolRef candidate chain) metadata (pr_verified registry)\<rparr>"
| "pool_result_step chain (candidate, Inl failure) registry =
     (if \<not> hm_contains (pr_verified registry) (PoolRef candidate chain)
      then registry\<lparr>pr_rejected := insert candidate (pr_rejected registry)\<rparr>
      else registry)"

definition pool_with_metadata_results :: "trusted_pool_registry \<Rightarrow> chain_key \<Rightarrow>
    (protocol_pool_key, pool_metadata_result) hmap \<Rightarrow> trusted_pool_registry" where
  "pool_with_metadata_results registry chain results = fold (pool_result_step chain) results registry"

definition pool_verified_metadata :: "trusted_pool_registry \<Rightarrow> pool_ref \<Rightarrow> pool_metadata option" where
  "pool_verified_metadata registry pool = map_of (pr_verified registry) pool"

definition pool_verified_view :: "trusted_pool_registry \<Rightarrow> (pool_ref, pool_metadata) hmap" where
  "pool_verified_view registry = pr_verified registry"

definition verified_size :: "trusted_pool_registry \<Rightarrow> nat" where
  "verified_size registry = length (pr_verified registry)"

definition verified_pools :: "trusted_pool_registry \<Rightarrow> chain_key \<Rightarrow> pool_ref set" where
  "verified_pools registry chain =
     set (filter (\<lambda>pool. pr_chain pool = chain) (map fst (pr_verified registry)))"

definition verified_addresses :: "trusted_pool_registry \<Rightarrow> chain_key \<Rightarrow> address set" where
  "verified_addresses registry chain =
     set (List.map_filter pool_ref_v3_address
       (filter (\<lambda>pool. pr_chain pool = chain) (map fst (pr_verified registry))))"

definition verified_pool :: "trusted_pool_registry \<Rightarrow> chain_key \<Rightarrow> protocol_pool_key \<Rightarrow> pool_ref option" where
  "verified_pool registry chain candidate =
     (let pool = PoolRef candidate chain
      in if hm_contains (pr_verified registry) pool then Some pool else None)"

definition is_rejected :: "trusted_pool_registry \<Rightarrow> protocol_pool_key \<Rightarrow> bool" where
  "is_rejected registry candidate \<longleftrightarrow> candidate \<in> pr_rejected registry"

definition pool_is_known :: "trusted_pool_registry \<Rightarrow> chain_key \<Rightarrow> protocol_pool_key \<Rightarrow> bool" where
  "pool_is_known registry chain candidate \<longleftrightarrow>
     verified_pool registry chain candidate \<noteq> None \<or> is_rejected registry candidate"

section \<open>The token registry\<close>

definition NATIVE_TOKEN_METADATA :: token_metadata where
  "NATIVE_TOKEN_METADATA = \<lparr>tm_decimals = TokenDecimals 18\<rparr>"

record token_registry =
  tr_verified :: "(token_address, token_metadata) hmap"
  tr_unsupported :: "(token_address, token_metadata_failure) hmap"

definition token_registry_new :: token_registry where
  "token_registry_new = \<lparr>tr_verified = [], tr_unsupported = []\<rparr>"

fun token_result_step :: "token_address \<times> token_metadata_result \<Rightarrow> token_registry \<Rightarrow> token_registry" where
  "token_result_step (token, Inr metadata) registry =
     registry\<lparr>tr_unsupported := AList.delete token (tr_unsupported registry),
       tr_verified := AList.update token metadata (tr_verified registry)\<rparr>"
| "token_result_step (token, Inl failure) registry =
     (if \<not> hm_contains (tr_verified registry) token
      then registry\<lparr>tr_unsupported := AList.update token failure (tr_unsupported registry)\<rparr>
      else registry)"

definition token_with_metadata_results :: "token_registry \<Rightarrow>
    (token_address, token_metadata_result) hmap \<Rightarrow> token_registry" where
  "token_with_metadata_results registry results = fold token_result_step results registry"

definition token_verified_metadata :: "token_registry \<Rightarrow> token_address \<Rightarrow> token_metadata option" where
  "token_verified_metadata registry token =
     (if ta_address token = 0 then Some NATIVE_TOKEN_METADATA
      else map_of (tr_verified registry) token)"

definition token_verified_view :: "token_registry \<Rightarrow> (token_address, token_metadata) hmap" where
  "token_verified_view registry = tr_verified registry"

definition unsupported_failure :: "token_registry \<Rightarrow> token_address \<Rightarrow> token_metadata_failure option" where
  "unsupported_failure registry token = map_of (tr_unsupported registry) token"

definition is_unsupported :: "token_registry \<Rightarrow> token_address \<Rightarrow> bool" where
  "is_unsupported registry token \<longleftrightarrow> hm_contains (tr_unsupported registry) token"

definition token_is_known :: "token_registry \<Rightarrow> token_address \<Rightarrow> bool" where
  "token_is_known registry token \<longleftrightarrow>
     token_verified_metadata registry token \<noteq> None \<or> is_unsupported registry token"

definition unknown_tokens :: "token_registry \<Rightarrow> token_address set \<Rightarrow> token_address set" where
  "unknown_tokens registry tokens = Set.filter (\<lambda>token. \<not> token_is_known registry token) tokens"

section \<open>The metadata catalog\<close>

record metadata_catalog =
  mc_pools :: "(pool_ref, pool_metadata) hmap"
  mc_tokens :: "(token_address, token_metadata) hmap"

definition catalog_from_views :: "(pool_ref, pool_metadata) hmap \<Rightarrow> (token_address, token_metadata) hmap \<Rightarrow>
    metadata_catalog" where
  "catalog_from_views pools tokens = \<lparr>mc_pools = pools, mc_tokens = tokens\<rparr>"

definition catalog_iter_pools :: "metadata_catalog \<Rightarrow> (pool_ref \<times> pool_metadata) list" where
  "catalog_iter_pools c = map (\<lambda>(pool, metadata). (pool, metadata)) (mc_pools c)"

definition catalog_token_metadata :: "metadata_catalog \<Rightarrow> token_address \<Rightarrow> token_metadata option" where
  "catalog_token_metadata c token = map_of (mc_tokens c) token"

definition catalog_pool_count :: "metadata_catalog \<Rightarrow> nat" where
  "catalog_pool_count c = length (mc_pools c)"

section \<open>The token whitelist\<close>

text \<open>Only the address of a file entry reaches the validated whitelist; the rest is provenance.\<close>

record token_entry =
  te_address :: address
  te_symbol :: "string option"
  te_decimals :: "u8 option"

record token_whitelist_file =
  twf_chains :: "(string \<times> token_entry list) list"

datatype token_whitelist_error = UnknownChainSlug string

type_synonym token_whitelist = "token_address set"

fun whitelist_fold :: "(string \<times> token_entry list) list \<Rightarrow> token_whitelist \<Rightarrow>
    token_whitelist_error + token_whitelist" where
  "whitelist_fold [] tokens = Inr tokens"
| "whitelist_fold ((slug, entries) # rest) tokens =
     (case chain_key_for_network_path slug of
        None \<Rightarrow> Inl (UnknownChainSlug slug)
      | Some chain \<Rightarrow>
          whitelist_fold rest
            (fold (\<lambda>entry tokens. insert (TokenAddress (te_address entry) chain) tokens) entries tokens))"

definition into_whitelist :: "token_whitelist_file \<Rightarrow> token_whitelist_error + token_whitelist" where
  "into_whitelist f = whitelist_fold (twf_chains f) {}"

definition allows :: "token_whitelist \<Rightarrow> token_address \<Rightarrow> bool" where
  "allows w token \<longleftrightarrow> token \<in> w"

definition allows_native :: "token_whitelist \<Rightarrow> chain_key \<Rightarrow> bool" where
  "allows_native w chain \<longleftrightarrow> TokenAddress 0 chain \<in> w"

definition gate_pool_metadata_result :: "token_whitelist \<Rightarrow> chain_key \<Rightarrow> pool_metadata_result \<Rightarrow>
    pool_metadata_result" where
  "gate_pool_metadata_result w chain result =
     (case result of
        Inr metadata \<Rightarrow>
          (case find (\<lambda>token. \<not> allows w (TokenAddress token chain)) [pm_token0 metadata, pm_token1 metadata] of
             Some token \<Rightarrow> Inl (TokenNotWhitelisted token)
           | None \<Rightarrow> Inr metadata)
      | Inl failure \<Rightarrow> Inl failure)"

definition gate_pool_metadata_results :: "token_whitelist \<Rightarrow> chain_key \<Rightarrow>
    (protocol_pool_key, pool_metadata_result) hmap \<Rightarrow> (protocol_pool_key, pool_metadata_result) hmap" where
  "gate_pool_metadata_results w chain results =
     map (\<lambda>(candidate, result). (candidate, gate_pool_metadata_result w chain result)) results"

section \<open>The registry contract\<close>

locale metadata_registry =
  fixes result_step :: "'k \<times> ('f + 'm) \<Rightarrow> 'reg \<Rightarrow> 'reg"
    and verified_of :: "'reg \<Rightarrow> 'k \<Rightarrow> 'm option"
    and failed :: "'reg \<Rightarrow> 'k \<Rightarrow> bool"
    and inv :: "'reg \<Rightarrow> bool"
  assumes inv_exclusive: "inv r \<Longrightarrow> \<not> (verified_of r k \<noteq> None \<and> failed r k)"
    and inv_step: "inv r \<Longrightarrow> inv (result_step e r)"
    and ok_verified: "verified_of (result_step (k, Inr m) r) = (verified_of r)(k \<mapsto> m)"
    and ok_failed: "failed (result_step (k, Inr m) r) j \<longleftrightarrow> j \<noteq> k \<and> failed r j"
    and err_verified: "verified_of (result_step (k, Inl f) r) = verified_of r"
    and err_failed: "failed (result_step (k, Inl f) r) j \<longleftrightarrow>
      failed r j \<or> j = k \<and> verified_of r k = None"
begin

definition apply_all :: "('k \<times> ('f + 'm)) list \<Rightarrow> 'reg \<Rightarrow> 'reg" where
  "apply_all results r = fold result_step results r"

lemma all_inv: "inv r \<Longrightarrow> inv (apply_all results r)"
  unfolding apply_all_def by (induction results arbitrary: r) (auto intro: inv_step)

lemma step_verified_mono: "verified_of r k \<noteq> None \<Longrightarrow> verified_of (result_step e r) k \<noteq> None"
  by (cases e; cases "snd e") (auto simp: ok_verified err_verified)

lemma all_verified_mono: "verified_of r k \<noteq> None \<Longrightarrow> verified_of (apply_all results r) k \<noteq> None"
  unfolding apply_all_def
proof (induction results arbitrary: r)
  case (Cons e results)
  then show ?case using step_verified_mono [of r k e] by simp
qed simp

lemma step_known: "verified_of (result_step (k, res) r) k \<noteq> None \<or> failed (result_step (k, res) r) k"
  by (cases res) (auto simp: ok_verified err_verified err_failed)

lemma step_known_mono: "verified_of r k \<noteq> None \<or> failed r k \<Longrightarrow>
    verified_of (result_step e r) k \<noteq> None \<or> failed (result_step e r) k"
  by (cases e; cases "snd e") (auto simp: ok_verified ok_failed err_verified err_failed)

lemma all_known_mono: "verified_of r k \<noteq> None \<or> failed r k \<Longrightarrow>
    verified_of (apply_all results r) k \<noteq> None \<or> failed (apply_all results r) k"
  unfolding apply_all_def
proof (induction results arbitrary: r)
  case (Cons e results)
  show ?case using Cons.IH [OF step_known_mono [OF Cons.prems, of e]] by simp
qed simp

lemma all_known: "k \<in> fst ` set results \<Longrightarrow>
    verified_of (apply_all results r) k \<noteq> None \<or> failed (apply_all results r) k"
proof (induction results arbitrary: r)
  case (Cons e results)
  show ?case
  proof (cases "k = fst e")
    case True
    then have "verified_of (result_step e r) k \<noteq> None \<or> failed (result_step e r) k"
      using step_known [of k "snd e" r] by (simp add: True)
    then show ?thesis
      using all_known_mono [of "result_step e r" k results] by (simp add: apply_all_def)
  next
    case False
    with Cons show ?thesis by (auto simp: apply_all_def)
  qed
qed simp

lemma step_frame: "k \<noteq> fst e \<Longrightarrow> verified_of (result_step e r) k = verified_of r k \<and>
    (failed (result_step e r) k \<longleftrightarrow> failed r k)"
  by (cases e; cases "snd e") (auto simp: ok_verified ok_failed err_verified err_failed)

lemma all_frame: "k \<notin> fst ` set results \<Longrightarrow> verified_of (apply_all results r) k = verified_of r k \<and>
    (failed (apply_all results r) k \<longleftrightarrow> failed r k)"
  unfolding apply_all_def by (induction results arbitrary: r) (auto simp: step_frame)

text \<open>With distinct keys the order of the batch does not matter: each key is decided by its own result.\<close>

lemma all_verified_distinct:
  "distinct (map fst results) \<Longrightarrow>
   verified_of (apply_all results r) k =
     (case map_of results k of Some (Inr m) \<Rightarrow> Some m | _ \<Rightarrow> verified_of r k)"
proof (induction results arbitrary: r)
  case (Cons e results)
  obtain k' res where e: "e = (k', res)" by (cases e)
  have IH: "verified_of (apply_all (e # results) r) k =
      (case map_of results k of Some (Inr m) \<Rightarrow> Some m | _ \<Rightarrow> verified_of (result_step e r) k)"
    using Cons by (simp add: apply_all_def)
  have fresh: "map_of results k' = None"
    using Cons.prems by (auto simp: e map_of_eq_None_iff)
  show ?case
    unfolding IH [unfolded e] e using fresh
    by (cases res) (auto simp: ok_verified err_verified split: option.splits sum.splits)
qed (simp add: apply_all_def)

end

definition pool_registry_inv :: "chain_key \<Rightarrow> trusted_pool_registry \<Rightarrow> bool" where
  "pool_registry_inv chain r \<longleftrightarrow> hm_wf (pr_verified r) \<and>
     (\<forall>k. \<not> (map_of (pr_verified r) (PoolRef k chain) \<noteq> None \<and> k \<in> pr_rejected r))"

definition token_registry_inv :: "token_registry \<Rightarrow> bool" where
  "token_registry_inv r \<longleftrightarrow> hm_wf (tr_verified r) \<and> hm_wf (tr_unsupported r) \<and>
     (\<forall>k. \<not> (map_of (tr_verified r) k \<noteq> None \<and> map_of (tr_unsupported r) k \<noteq> None))"

lemma pool_result_step_inv: "pool_registry_inv chain r \<Longrightarrow> pool_registry_inv chain (pool_result_step chain e r)"
  unfolding pool_registry_inv_def
  by (cases e; cases "snd e") (force simp: hm_contains_def)+

lemma token_result_step_inv: "token_registry_inv r \<Longrightarrow> token_registry_inv (token_result_step e r)"
  unfolding token_registry_inv_def
  by (cases e; cases "snd e") (auto simp: hm_contains_def)

interpretation pools: metadata_registry "pool_result_step chain"
    "\<lambda>r k. map_of (pr_verified r) (PoolRef k chain)" "\<lambda>r k. k \<in> pr_rejected r" "pool_registry_inv chain"
  for chain
  by unfold_locales
    ((simp add: pool_registry_inv_def; fail) | erule pool_result_step_inv
     | (auto simp: hm_contains_def fun_eq_iff; fail))+

interpretation tokens: metadata_registry token_result_step
    "\<lambda>r k. map_of (tr_verified r) k" "\<lambda>r k. map_of (tr_unsupported r) k \<noteq> None" token_registry_inv
  by unfold_locales
    ((simp add: token_registry_inv_def; fail) | erule token_result_step_inv
     | (auto simp: hm_contains_def fun_eq_iff; fail))+

lemma pool_results_apply_all:
  "pool_with_metadata_results r chain results = pools.apply_all chain results r"
  by (simp add: pool_with_metadata_results_def pools.apply_all_def)

lemma token_results_apply_all: "token_with_metadata_results r results = tokens.apply_all results r"
  by (simp add: token_with_metadata_results_def tokens.apply_all_def)

section \<open>Properties of the catalog, the registries and the whitelist\<close>

text \<open>
  The network slugs round-trip: a slug resolves to a chain exactly when it is that chain's slug,
  so no other text resolves and no two chains share one.
\<close>

lemma slug_round_trip:
  "chain_key_for_network_path p = Some c \<longleftrightarrow> p = drpc_network_path c"
proof -
  have "chain_key_for_network_path (drpc_network_path c) = Some c"
    by (cases c) (simp_all add: chain_key_for_network_path_def ALL_CHAINS_def)
  moreover have "p = drpc_network_path c" if "chain_key_for_network_path p = Some c"
    using that by (auto simp: chain_key_for_network_path_def find_Some_iff)
  ultimately show ?thesis by blast
qed

text \<open>
  Accepting a batch of pool results (a map, so with one result per candidate) decides every
  candidate of the batch by its own result: verified metadata replaces what was there, a failure
  leaves a verified pool verified and otherwise rejects the candidate; nothing verified before is
  lost, and no candidate is verified and rejected at once.
\<close>

lemma pool_results_decide:
  assumes "pool_registry_inv chain r" and "hm_wf results"
  shows "pool_registry_inv chain (pool_with_metadata_results r chain results) \<and>
    (\<forall>k. pool_verified_metadata (pool_with_metadata_results r chain results) (PoolRef k chain) =
       (case map_of results k of Some (Inr m) \<Rightarrow> Some m | _ \<Rightarrow> pool_verified_metadata r (PoolRef k chain))) \<and>
    (\<forall>k. k \<in> fst ` set results \<longrightarrow> pool_is_known (pool_with_metadata_results r chain results) chain k)"
proof (intro conjI allI impI)
  show "pool_registry_inv chain (pool_with_metadata_results r chain results)"
    using assms(1) by (simp add: pool_results_apply_all pools.all_inv)
next
  fix k
  show "pool_verified_metadata (pool_with_metadata_results r chain results) (PoolRef k chain) =
      (case map_of results k of Some (Inr m) \<Rightarrow> Some m | _ \<Rightarrow> pool_verified_metadata r (PoolRef k chain))"
    using assms(2) unfolding pool_verified_metadata_def pool_results_apply_all hm_wf_def
    by (rule pools.all_verified_distinct)
next
  fix k assume "k \<in> fst ` set results"
  then show "pool_is_known (pool_with_metadata_results r chain results) chain k"
    using pools.all_known [of k results chain r]
    by (auto simp: pool_results_apply_all pool_is_known_def verified_pool_def is_rejected_def
        hm_contains_def Let_def)
qed

text \<open>
  The same for tokens: each token of the batch is decided by its own result, a verified token
  never becomes unsupported, and after the batch none of its tokens is still unknown.
\<close>

lemma token_results_decide:
  assumes "token_registry_inv r" and "hm_wf results"
  shows "token_registry_inv (token_with_metadata_results r results) \<and>
    (\<forall>k. ta_address k \<noteq> 0 \<longrightarrow> token_verified_metadata (token_with_metadata_results r results) k =
       (case map_of results k of Some (Inr m) \<Rightarrow> Some m | _ \<Rightarrow> token_verified_metadata r k)) \<and>
    unknown_tokens (token_with_metadata_results r results) (fst ` set results) = {}"
proof (intro conjI allI impI)
  show "token_registry_inv (token_with_metadata_results r results)"
    using assms(1) by (simp add: token_results_apply_all tokens.all_inv)
next
  fix k :: token_address assume "ta_address k \<noteq> 0"
  then show "token_verified_metadata (token_with_metadata_results r results) k =
      (case map_of results k of Some (Inr m) \<Rightarrow> Some m | _ \<Rightarrow> token_verified_metadata r k)"
    using tokens.all_verified_distinct [of results r k] assms(2)
    by (simp add: token_results_apply_all token_verified_metadata_def hm_wf_def
        cong: option.case_cong sum.case_cong)
next
  show "unknown_tokens (token_with_metadata_results r results) (fst ` set results) = {}"
    using tokens.all_known [of _ results r]
    by (auto simp: token_results_apply_all token_verified_metadata_def token_is_known_def
        unknown_tokens_def is_unsupported_def hm_contains_def simp del: not_None_eq)
qed

text \<open>
  The whitelist gate is sound and complete: gating never invents a verified pool, keeps one
  exactly when both of its tokens are listed for the chain, and a rejection by the gate names the
  first of the pool's tokens that is not listed.
\<close>

lemma whitelist_gate_exact:
  "map_of (gate_pool_metadata_results w chain results) k =
     (case map_of results k of
        Some (Inr m) \<Rightarrow>
          Some (if \<not> allows w (TokenAddress (pm_token0 m) chain) then Inl (TokenNotWhitelisted (pm_token0 m))
                else if \<not> allows w (TokenAddress (pm_token1 m) chain) then Inl (TokenNotWhitelisted (pm_token1 m))
                else Inr m)
      | other \<Rightarrow> other)"
  unfolding gate_pool_metadata_results_def map_of_map
  by (simp add: gate_pool_metadata_result_def split: option.split sum.split)

text \<open>
  A whitelist file is accepted exactly when every slug of it names a chain, and then it allows
  exactly the listed addresses, each on the chain of its own slug; a refusal names an unknown slug
  of the file.
\<close>

lemma whitelist_file_exact:
  "case into_whitelist f of
     Inr w \<Rightarrow> \<forall>a c. allows w (TokenAddress a c) \<longleftrightarrow>
       (\<exists>entries e. (drpc_network_path c, entries) \<in> set (twf_chains f) \<and> e \<in> set entries \<and> te_address e = a)
   | Inl (UnknownChainSlug slug) \<Rightarrow>
       slug \<in> fst ` set (twf_chains f) \<and> (\<forall>c. slug \<noteq> drpc_network_path c)"
proof -
  have slug: "chain_key_for_network_path p = Some c \<longleftrightarrow> p = drpc_network_path c" for p c
    by (cases c) (auto simp: chain_key_for_network_path_def ALL_CHAINS_def)
  have ins: "fold (\<lambda>entry tokens. insert (TokenAddress (te_address entry) chain) tokens) entries T =
      T \<union> (\<lambda>e. TokenAddress (te_address e) chain) ` set entries" for chain entries T
    by (induction entries arbitrary: T) auto
  have "case whitelist_fold cs T of
     Inr w \<Rightarrow> w = T \<union> {TokenAddress a c | a c. \<exists>entries e. (drpc_network_path c, entries) \<in> set cs \<and>
       e \<in> set entries \<and> te_address e = a}
   | Inl (UnknownChainSlug slug) \<Rightarrow> slug \<in> fst ` set cs \<and> (\<forall>c. slug \<noteq> drpc_network_path c)" for cs T
  proof (induction cs arbitrary: T)
    case (Cons x cs)
    obtain slug entries where x: "x = (slug, entries)" by (cases x)
    show ?case
    proof (cases "chain_key_for_network_path slug")
      case None
      then show ?thesis using slug [of slug] by (auto simp: x)
    next
      case (Some chain)
      then have "slug = drpc_network_path chain" by (simp add: slug)
      then show ?thesis
        using Cons.IH [of "fold (\<lambda>entry tokens. insert (TokenAddress (te_address entry) chain) tokens) entries T"] Some
        by (auto simp: x ins split: sum.splits token_whitelist_error.splits)
    qed
  qed simp
  from this [of "twf_chains f" "{}"] show ?thesis
    by (auto simp: into_whitelist_def allows_def split: sum.splits token_whitelist_error.splits)
qed

end
