(* ===== verification/Kernel.thy ===== *)
theory Kernel
  imports Finalization PendingRequests Registries
begin

text \<open>
  The per-chain kernel of \<open>client-evm/src/kernel/mod.rs\<close>: its state, the schedulers that derive
  the follow-up requests from the graph, and the transition on every event. The bloom filter
  operations \<open>B\<close> and the chain are parameters of the transition.
\<close>

section \<open>State\<close>

record blocks =
  bl_graph :: blocks_graph
  bl_finalized_snapshot :: pool_states

record kernel_state =
  ks_pending_requests :: pending_requests
  ks_pool_registry :: trusted_pool_registry
  ks_token_registry :: token_registry
  ks_tick :: tick
  ks_streamed_logs :: "(block_hash, (u64, pool_log) bmap) hmap"
  ks_blocks :: blocks
  ks_ws_miss_count :: u64

abbreviation ks_graph :: "kernel_state \<Rightarrow> blocks_graph" where
  "ks_graph s \<equiv> bl_graph (ks_blocks s)"

abbreviation ks_snapshot :: "kernel_state \<Rightarrow> pool_states" where
  "ks_snapshot s \<equiv> bl_finalized_snapshot (ks_blocks s)"

record optimization_state_update =
  ou_block_hash :: block_hash
  ou_pool_states :: pool_states

datatype effect = Request any_issued_request

datatype event =
  HeadObserved (eh_hash: block_hash) (eh_parent_hash: block_hash) (eh_logs_bloom: bloom) (eh_number: u64)
| FinalizedBlockObserved block_hash u64
| BlockHeaderReceived request_id block_hash block_hash bloom u64
| BlockHeaderNotFound request_id
| CanonicalHeaderAtHeightReceived request_id block_hash u64
| BlockLogsReceived request_id "pool_log list"
| BlockLogsRangeReceived request_id "(block_hash \<times> pool_log list) list"
| LogObserved block_hash "pool_log list"
| PoolMetadataReceived request_id "(protocol_pool_key, pool_metadata_result) hmap"
| TokenMetadataReceived request_id "(token_address, token_metadata_result) hmap"
| PoolDataReceived request_id "(pool_ref, pool_data_result) hmap"
| RequestFailed any_request_id
| TickEvent

datatype transition_outcome_t =
  Inert kernel_state
| Progressed kernel_state "effect list"

definition MAX_STREAMED_LOG_BLOCKS :: nat where
  "MAX_STREAMED_LOG_BLOCKS = 1024"

definition STREAM_SETTLE_DEPTH :: nat where
  "STREAM_SETTLE_DEPTH = 2"

definition FINALIZED_POOL_SEED_CHUNK :: nat where
  "FINALIZED_POOL_SEED_CHUNK = 100"

definition blocks_new :: "block_hash \<Rightarrow> u64 \<Rightarrow> pool_states \<Rightarrow> blocks" where
  "blocks_new finalized_hash finalized_number snapshot =
     \<lparr>bl_graph = graph_new finalized_hash finalized_number, bl_finalized_snapshot = snapshot\<rparr>"

definition seed_result :: "pool_ref \<times> pool_data_result \<Rightarrow> pool_states \<Rightarrow> pool_states" where
  "seed_result = (\<lambda>(pool, result) snapshot.
     (case result of Inr pool_state \<Rightarrow> AList.update pool pool_state snapshot | Inl _ \<Rightarrow> snapshot))"

definition blocks_with_finalized_pool_seeds :: "blocks \<Rightarrow> block_hash \<Rightarrow> (pool_ref, pool_data_result) hmap \<Rightarrow>
    blocks" where
  "blocks_with_finalized_pool_seeds b at results =
     (if at \<noteq> anchor_hash (bl_graph b) then b
      else b\<lparr>bl_finalized_snapshot := fold seed_result results (bl_finalized_snapshot b)\<rparr>)"

definition init :: "block_hash \<Rightarrow> u64 \<Rightarrow> kernel_state" where
  "init finalized_hash finalized_number =
     \<lparr>ks_pending_requests = pending_requests_new, ks_pool_registry = pool_registry_new,
      ks_token_registry = token_registry_new, ks_tick = tick_initial, ks_streamed_logs = [],
      ks_blocks = blocks_new finalized_hash finalized_number [], ks_ws_miss_count = 0\<rparr>"

section \<open>Issuing requests\<close>

text \<open>\<open>with_new_request\<close> on the ledger, and the effect that carries the issued request.\<close>

definition issue_effect :: "(pending_requests, 'r) store_access \<Rightarrow> ('r issued_request \<Rightarrow> any_issued_request) \<Rightarrow>
    tick \<Rightarrow> 'r \<Rightarrow> pending_requests \<times> effect list \<Rightarrow> pending_requests \<times> effect list" where
  "issue_effect A wrap t payload = (\<lambda>(requests, effects).
     (let (requests, i) = issue_request A requests payload t
      in (requests, effects @ [Request (wrap \<lparr>ir_request_id = i, ir_request_payload = payload\<rparr>)])))"

definition activate_from_seed :: "block_hash \<Rightarrow> u64 \<Rightarrow> pool_states \<Rightarrow> trusted_pool_registry \<Rightarrow> token_registry \<Rightarrow>
    (block_hash \<times> block_hash \<times> u64 \<times> pool_log list) list \<Rightarrow> kernel_state \<times> effect list" where
  "activate_from_seed finalized_hash finalized_number snapshots pools tokens seed_blocks =
     (let t = tick_initial;
          graph = from_seed finalized_hash finalized_number seed_blocks;
          (requests, effects) =
            fold (\<lambda>missing. issue_effect block_headers_access BlockHeader t (GetBlockHeader missing))
              (missing_parents graph) (pending_requests_new, [])
      in (\<lparr>ks_pending_requests = requests, ks_pool_registry = pools, ks_token_registry = tokens,
           ks_tick = t, ks_streamed_logs = [],
           ks_blocks = \<lparr>bl_graph = graph, bl_finalized_snapshot = snapshots\<rparr>, ks_ws_miss_count = 0\<rparr>,
          effects))"

section \<open>Reads\<close>

definition finalized_head :: "kernel_state \<Rightarrow> block_hash \<times> u64" where
  "finalized_head s = (anchor_hash (ks_graph s), anchor_number (ks_graph s))"

definition canonical_head :: "kernel_state \<Rightarrow> block_hash" where
  "canonical_head s = bg_observed_head (ks_graph s)"

definition metadata_catalog_of :: "kernel_state \<Rightarrow> metadata_catalog" where
  "metadata_catalog_of s =
     catalog_from_views (pool_verified_view (ks_pool_registry s)) (token_verified_view (ks_token_registry s))"

definition state_projected_pool_states :: "bloom_ops \<Rightarrow> kernel_state \<Rightarrow> chain_key \<Rightarrow> pool_states \<times> block_hash" where
  "state_projected_pool_states B s chain =
     projected_pool_states B (ks_graph s) (ks_snapshot s) (verified_pools (ks_pool_registry s) chain)
       (pool_manager_address chain)"

definition optimization_update :: "bloom_ops \<Rightarrow> kernel_state \<Rightarrow> chain_key \<Rightarrow> optimization_state_update" where
  "optimization_update B s chain =
     (let (pool_states, h) = state_projected_pool_states B s chain
      in \<lparr>ou_block_hash = h, ou_pool_states = pool_states\<rparr>)"

definition optimization_update_if_changed :: "bloom_ops \<Rightarrow> kernel_state \<Rightarrow> chain_key \<Rightarrow> block_hash option \<Rightarrow>
    optimization_state_update option" where
  "optimization_update_if_changed B s chain last_dispatched =
     map_option (\<lambda>(pool_states, h). \<lparr>ou_block_hash = h, ou_pool_states = pool_states\<rparr>)
       (projected_pool_states_if_changed B (ks_graph s) (ks_snapshot s)
         (verified_pools (ks_pool_registry s) chain) (pool_manager_address chain) last_dispatched)"

definition blocks_behind :: "kernel_state \<Rightarrow> block_hash \<Rightarrow> nat option" where
  "blocks_behind s reference_hash = distance_from_head (ks_graph s) reference_hash"

definition canonical_path_len_from_finalized :: "kernel_state \<Rightarrow> nat option" where
  "canonical_path_len_from_finalized s = distance_from_head (ks_graph s) (anchor_hash (ks_graph s))"

section \<open>The log feed\<close>

definition map_graph :: "(blocks_graph \<Rightarrow> blocks_graph) \<Rightarrow> kernel_state \<Rightarrow> kernel_state" where
  "map_graph f s = s\<lparr>ks_blocks := (ks_blocks s)\<lparr>bl_graph := f (ks_graph s)\<rparr>\<rparr>"

definition with_streamed_logs_buffered :: "kernel_state \<Rightarrow> block_hash \<Rightarrow> pool_log list \<Rightarrow> kernel_state" where
  "with_streamed_logs_buffered s h logs =
     (if length (ks_streamed_logs s) \<ge> MAX_STREAMED_LOG_BLOCKS \<and> \<not> hm_contains (ks_streamed_logs s) h then s
      else s\<lparr>ks_streamed_logs := AList.update h
         (bm_extend (case map_of (ks_streamed_logs s) h of None \<Rightarrow> [] | Some staged \<Rightarrow> staged)
           (key_by_log_index logs)) (ks_streamed_logs s)\<rparr>)"

definition with_log_streamed :: "kernel_state \<Rightarrow> block_hash \<Rightarrow> pool_log list \<Rightarrow> kernel_state" where
  "with_log_streamed s h logs = map_graph (\<lambda>g. with_streamed_logs g h logs) s"

definition with_streamed_logs_drained :: "kernel_state \<Rightarrow> block_hash \<Rightarrow> kernel_state" where
  "with_streamed_logs_drained s h =
     (if \<not> graph_contains (ks_graph s) h then s
      else case map_of (ks_streamed_logs s) h of
        Some logs \<Rightarrow>
          with_log_streamed (s\<lparr>ks_streamed_logs := AList.delete h (ks_streamed_logs s)\<rparr>) h (map snd logs)
      | None \<Rightarrow> s)"

definition with_log_head_observed :: "kernel_state \<Rightarrow> block_hash \<Rightarrow> block_hash \<Rightarrow> u64 \<Rightarrow> bloom \<Rightarrow> nat \<Rightarrow>
    kernel_state \<times> admission" where
  "with_log_head_observed s h parent number bloom max_pending =
     (let (g, admission) = with_block_capped (ks_graph s) h parent number bloom max_pending;
          g = (if admission = SelfParent then g else with_observed_head g h)
      in (with_streamed_logs_drained (map_graph (\<lambda>_. g) s) h, admission))"

definition with_log_header_received :: "kernel_state \<Rightarrow> block_hash \<Rightarrow> block_hash \<Rightarrow> u64 \<Rightarrow> bloom \<Rightarrow> nat \<Rightarrow>
    kernel_state" where
  "with_log_header_received s h parent number bloom max_pending =
     with_streamed_logs_drained
       (map_graph (\<lambda>g. fst (with_block_capped g h parent number bloom max_pending)) s) h"

definition with_log_complete :: "kernel_state \<Rightarrow> block_hash \<Rightarrow> pool_log list \<Rightarrow> kernel_state" where
  "with_log_complete s h logs =
     (let (g, ws_miss) = with_complete_logs (ks_graph s) h logs;
          s = map_graph (\<lambda>_. g) s
      in if ws_miss then s\<lparr>ks_ws_miss_count := ks_ws_miss_count s + 1\<rparr> else s)"

definition with_finalized_pool_seeds :: "kernel_state \<Rightarrow> block_hash \<Rightarrow> (pool_ref, pool_data_result) hmap \<Rightarrow>
    kernel_state" where
  "with_finalized_pool_seeds s at results =
     s\<lparr>ks_blocks := blocks_with_finalized_pool_seeds (ks_blocks s) at results\<rparr>"

definition with_finalized_block_observed :: "bloom_ops \<Rightarrow> kernel_state \<Rightarrow> chain_key \<Rightarrow> block_hash \<Rightarrow> kernel_state" where
  "with_finalized_block_observed B s chain h =
     (let v4_manager = pool_manager_address chain;
          verified = verified_pools (ks_pool_registry s) chain;
          anchor_before = anchor_hash (ks_graph s);
          (g, snapshot) = finalized_to B (ks_graph s) h (ks_snapshot s) verified v4_manager;
          s = (if anchor_hash g \<noteq> anchor_before
               then s\<lparr>ks_pending_requests := retaining_block_targets (ks_pending_requests s) (node_hashes g),
                      ks_streamed_logs := []\<rparr>
               else s)
      in s\<lparr>ks_blocks := \<lparr>bl_graph = g, bl_finalized_snapshot = snapshot\<rparr>\<rparr>)"

section \<open>Finalized refresh\<close>

definition finalized_refresh_bucket :: "nat \<Rightarrow> nat \<Rightarrow> nat \<Rightarrow> nat" where
  "finalized_refresh_bucket len target_len retry_stride = (len - target_len) div retry_stride"

definition should_fetch_finalized_header :: "nat option \<Rightarrow> nat option \<Rightarrow> nat \<Rightarrow> nat \<Rightarrow> bool" where
  "should_fetch_finalized_header before_len after_len target_len retry_stride =
     (case after_len of
        None \<Rightarrow> False
      | Some after_len \<Rightarrow>
          (if after_len < target_len then False
           else case before_len of
             None \<Rightarrow> True
           | Some before_len \<Rightarrow>
               (if before_len < target_len then True
                else finalized_refresh_bucket before_len target_len retry_stride
                   < finalized_refresh_bucket after_len target_len retry_stride)))"

section \<open>Schedulers\<close>

text \<open>
  A scheduler maps the state and the effects so far to the state and the extended effects. \<open>issue\<close>
  registers one request in the state's ledger and appends its effect.
\<close>

definition issue :: "(pending_requests, 'r) store_access \<Rightarrow> ('r issued_request \<Rightarrow> any_issued_request) \<Rightarrow> 'r \<Rightarrow>
    kernel_state \<times> effect list \<Rightarrow> kernel_state \<times> effect list" where
  "issue A wrap payload = (\<lambda>(s, effects).
     (let (requests, effects) = issue_effect A wrap (ks_tick s) payload (ks_pending_requests s, effects)
      in (s\<lparr>ks_pending_requests := requests\<rparr>, effects)))"

definition request_missing_header :: "pending_requests \<Rightarrow> tick \<Rightarrow> block_hash \<Rightarrow> pending_requests \<times> effect list" where
  "request_missing_header requests t missing =
     (if has_pending_header_request requests missing then (requests, [])
      else issue_effect block_headers_access BlockHeader t (GetBlockHeader missing) (requests, []))"

definition schedule_missing_header_requests :: "kernel_state \<times> effect list \<Rightarrow> kernel_state \<times> effect list" where
  "schedule_missing_header_requests = (\<lambda>(s, effects).
     fold (\<lambda>missing (s, effects).
         (let (requests, new_effects) = request_missing_header (ks_pending_requests s) (ks_tick s) missing
          in (s\<lparr>ks_pending_requests := requests\<rparr>, effects @ new_effects)))
       (missing_parents (ks_graph s)) (s, effects))"

definition schedule_unknown_canonical_log_requests :: "bloom_ops \<Rightarrow> chain_key \<Rightarrow> kernel_state \<times> effect list \<Rightarrow>
    kernel_state \<times> effect list" where
  "schedule_unknown_canonical_log_requests B chain = (\<lambda>(s, effects).
     (let pending_log_hashes = pending_block_log_hashes (ks_pending_requests s);
          trusted = verified_addresses (ks_pool_registry s) chain;
          trusted = (case pool_manager_address chain of
                       Some manager \<Rightarrow> insert manager trusted | None \<Rightarrow> trusted)
      in fold (\<lambda>h. issue block_logs_access BlockLogs (GetBlockLogs h))
           (unknown_log_hole_hashes B (ks_graph s) trusted pending_log_hashes STREAM_SETTLE_DEPTH)
           (s, effects)))"

definition schedule_missing_log_range_requests :: "bloom_ops \<Rightarrow> chain_key \<Rightarrow> block_hash \<Rightarrow>
    kernel_state \<times> effect list \<Rightarrow> kernel_state \<times> effect list" where
  "schedule_missing_log_range_requests B chain target = (\<lambda>(s, effects).
     (let v4_manager = pool_manager_address chain;
          verified = verified_pools (ks_pool_registry s) chain;
          exclude_numbers = pending_log_range_numbers (ks_pending_requests s)
      in fold (\<lambda>r. issue logs_range_access LogsRange (logs_range_of_missing r))
           (missing_complete_ranges_to B (ks_graph s) target verified v4_manager exclude_numbers)
           (s, effects)))"

definition schedule_pool_metadata_step :: "chain_key \<Rightarrow> block_hash \<times> protocol_pool_key set \<Rightarrow>
    protocol_pool_key set \<times> kernel_state \<times> effect list \<Rightarrow>
    protocol_pool_key set \<times> kernel_state \<times> effect list" where
  "schedule_pool_metadata_step chain = (\<lambda>(h, candidates) (unavailable, s, effects).
     (let request_candidates = Set.filter
            (\<lambda>c. \<not> pool_is_known (ks_pool_registry s) chain c \<and> c \<notin> unavailable) candidates
      in if request_candidates = {} then (unavailable, s, effects)
         else (unavailable \<union> request_candidates,
               issue pool_metadata_access PoolMetadata (GetPoolMetadata h request_candidates) (s, effects))))"

definition schedule_unknown_canonical_pool_metadata_requests :: "chain_key \<Rightarrow>
    (block_hash \<times> protocol_pool_key set) list \<Rightarrow> kernel_state \<times> effect list \<Rightarrow> kernel_state \<times> effect list" where
  "schedule_unknown_canonical_pool_metadata_requests chain candidates_from_head = (\<lambda>(s, effects).
     snd (fold (schedule_pool_metadata_step chain) candidates_from_head
       (pending_pool_metadata_candidates (ks_pending_requests s), s, effects)))"

text \<open>The tokens of a block's candidates: through the verified pool to its metadata's token pair.\<close>

definition candidate_tokens :: "kernel_state \<Rightarrow> chain_key \<Rightarrow> protocol_pool_key set \<Rightarrow> token_address set" where
  "candidate_tokens s chain candidates =
     (\<Union>c \<in> candidates.
        case verified_pool (ks_pool_registry s) chain c of
          None \<Rightarrow> {}
        | Some pool \<Rightarrow>
            (case pool_verified_metadata (ks_pool_registry s) pool of
               None \<Rightarrow> {}
             | Some metadata \<Rightarrow>
                 {TokenAddress (pm_token0 metadata) chain, TokenAddress (pm_token1 metadata) chain}))"

definition schedule_token_metadata_step :: "chain_key \<Rightarrow> block_hash \<times> protocol_pool_key set \<Rightarrow>
    token_address set \<times> kernel_state \<times> effect list \<Rightarrow> token_address set \<times> kernel_state \<times> effect list" where
  "schedule_token_metadata_step chain = (\<lambda>(h, candidates) (unavailable, s, effects).
     (let tokens = Set.filter (\<lambda>t. \<not> token_is_known (ks_token_registry s) t \<and> t \<notin> unavailable)
            (candidate_tokens s chain candidates)
      in if tokens = {} then (unavailable, s, effects)
         else (unavailable \<union> tokens,
               issue token_metadata_access TokenMetadata (GetTokenMetadata h tokens) (s, effects))))"

definition schedule_unknown_canonical_token_metadata_requests :: "chain_key \<Rightarrow>
    (block_hash \<times> protocol_pool_key set) list \<Rightarrow> kernel_state \<times> effect list \<Rightarrow> kernel_state \<times> effect list" where
  "schedule_unknown_canonical_token_metadata_requests chain candidates_from_head = (\<lambda>(s, effects).
     snd (fold (schedule_token_metadata_step chain) candidates_from_head
       (pending_token_metadata_tokens (ks_pending_requests s), s, effects)))"

definition seed_candidates :: "chain_key \<Rightarrow> kernel_state \<Rightarrow> pool_ref list" where
  "seed_candidates chain s =
     sorted_list_of_set (Set.filter
       (\<lambda>pool. \<not> hm_contains (ks_snapshot s) pool \<and> pool \<notin> pending_pool_data_pools (ks_pending_requests s))
       (verified_pools (ks_pool_registry s) chain))"

definition schedule_finalized_pool_seed_requests :: "chain_key \<Rightarrow> kernel_state \<times> effect list \<Rightarrow>
    kernel_state \<times> effect list" where
  "schedule_finalized_pool_seed_requests chain = (\<lambda>(s, effects).
     (if has_pending_block_backfill (ks_pending_requests s) then (s, effects)
      else let candidates = seed_candidates chain s in
           if candidates = [] then (s, effects)
           else issue pool_data_access PoolData
             (GetPoolData (anchor_hash (ks_graph s)) (set (take FINALIZED_POOL_SEED_CHUNK candidates)))
             (s, effects)))"

definition schedule_unknown_canonical_requests :: "bloom_ops \<Rightarrow> chain_key \<Rightarrow> kernel_state \<times> effect list \<Rightarrow>
    kernel_state \<times> effect list" where
  "schedule_unknown_canonical_requests B chain = (\<lambda>(s, effects).
     (let (s, effects) = schedule_missing_header_requests (s, effects);
          (s, effects) = schedule_unknown_canonical_log_requests B chain (s, effects);
          candidates_from_head = pool_log_candidates_from_head (ks_graph s);
          (s, effects) = schedule_unknown_canonical_pool_metadata_requests chain candidates_from_head (s, effects);
          (s, effects) = schedule_unknown_canonical_token_metadata_requests chain candidates_from_head (s, effects)
      in schedule_finalized_pool_seed_requests chain (s, effects)))"

definition with_finality_probe_if_orphan_suspected :: "block_hash \<Rightarrow> u64 \<Rightarrow> kernel_state \<times> effect list \<Rightarrow>
    kernel_state \<times> effect list" where
  "with_finality_probe_if_orphan_suspected admitted_hash number = (\<lambda>(s, effects).
     (let n = anchor_number (ks_graph s);
          suspect = (number \<le> saturating_add n 1 \<and> is_pending (ks_graph s) admitted_hash \<and>
                     \<not> has_pending_finality_probe (ks_pending_requests s))
      in if \<not> suspect then (s, effects)
         else issue canonical_header_access CanonicalHeader (GetCanonicalHeaderAtHeight n) (s, effects)))"

section \<open>Transition\<close>

definition apply_range :: "(block_hash \<times> pool_log list) list \<Rightarrow> block_hash set \<Rightarrow> kernel_state \<Rightarrow> kernel_state" where
  "apply_range received covered s =
     (let s = fold (\<lambda>(h, logs) s. with_log_complete s h logs) received s;
          responded = fst ` set received
      in fold (\<lambda>h s. if h \<notin> responded then with_log_complete s h [] else s) (sorted_list_of_set covered) s)"

fun progress :: "kernel_state \<times> effect list \<Rightarrow> transition_outcome_t" where
  "progress (s, effects) = Progressed s effects"

definition head_observed :: "bloom_ops \<Rightarrow> chain_key \<Rightarrow> kernel_state \<Rightarrow> block_hash \<Rightarrow> block_hash \<Rightarrow> bloom \<Rightarrow> u64 \<Rightarrow>
    transition_outcome_t" where
  "head_observed B chain s h parent bloom number =
     (let head_before = bg_observed_head (ks_graph s);
          (s, admission) = with_log_head_observed s h parent number bloom (max_pending_blocks chain)
      in if admission = SelfParent then
           (let (requests, effects) = request_missing_header (ks_pending_requests s) (ks_tick s) h
            in Progressed (s\<lparr>ks_pending_requests := requests\<rparr>) effects)
         else if admission = DuplicateBlock \<and> h = head_before then Inert s
         else progress (with_finality_probe_if_orphan_suspected h number
                (schedule_unknown_canonical_requests B chain (s, []))))"

definition header_received :: "bloom_ops \<Rightarrow> chain_key \<Rightarrow> kernel_state \<Rightarrow> request_id \<Rightarrow> block_hash \<Rightarrow> block_hash \<Rightarrow>
    bloom \<Rightarrow> u64 \<Rightarrow> kernel_state \<times> effect list" where
  "header_received B chain s i h parent bloom number =
     (let s = with_log_header_received s h parent number bloom (max_pending_blocks chain);
          (requests, payload) = take_request block_headers_access (ks_pending_requests s) i;
          s = s\<lparr>ks_pending_requests := requests\<rparr>;
          (s, effects) =
            (case payload of
               Some p \<Rightarrow>
                 (if gbh_block_hash (pp_payload p) \<noteq> h
                  then issue block_headers_access BlockHeader (pp_payload p) (s, [])
                  else (s, []))
             | None \<Rightarrow> (s, []))
      in with_finality_probe_if_orphan_suspected h number
           (schedule_unknown_canonical_requests B chain (s, effects)))"

definition canonical_header_received :: "kernel_state \<Rightarrow> request_id \<Rightarrow> block_hash \<Rightarrow> u64 \<Rightarrow>
    kernel_state \<times> effect list" where
  "canonical_header_received s i h number =
     (let (requests, _) = take_request canonical_header_access (ks_pending_requests s) i;
          s = s\<lparr>ks_pending_requests := requests\<rparr>;
          orphaned = (number = anchor_number (ks_graph s) \<and> h \<noteq> anchor_hash (ks_graph s))
      in if orphaned
         then activate_from_seed h number [] (ks_pool_registry s) (ks_token_registry s) []
         else (s, []))"

text \<open>
  The arms that answer a request share one shape: take the pending payload; without one, only the
  ledger is written back; with one, the response is applied and the schedulers run.
\<close>

definition answer :: "bloom_ops \<Rightarrow> chain_key \<Rightarrow> (pending_requests, 'r) store_access \<Rightarrow> kernel_state \<Rightarrow> request_id \<Rightarrow>
    ('r \<Rightarrow> kernel_state \<Rightarrow> kernel_state) \<Rightarrow> kernel_state \<times> effect list" where
  "answer B chain A s i respond =
     (let (requests, payload) = take_request A (ks_pending_requests s) i;
          s = s\<lparr>ks_pending_requests := requests\<rparr>
      in case payload of
           Some p \<Rightarrow> schedule_unknown_canonical_requests B chain (respond (pp_payload p) s, [])
         | None \<Rightarrow> (s, []))"

definition accept_pool_metadata :: "chain_key \<Rightarrow> (protocol_pool_key, pool_metadata_result) hmap \<Rightarrow>
    get_pool_metadata \<Rightarrow> kernel_state \<Rightarrow> kernel_state" where
  "accept_pool_metadata chain metadata payload s =
     s\<lparr>ks_pool_registry := pool_with_metadata_results (ks_pool_registry s) chain
         (filter (\<lambda>(candidate, _). candidate \<in> gpm_candidates payload) metadata)\<rparr>"

definition accept_token_metadata :: "(token_address, token_metadata_result) hmap \<Rightarrow>
    get_token_metadata \<Rightarrow> kernel_state \<Rightarrow> kernel_state" where
  "accept_token_metadata metadata payload s =
     s\<lparr>ks_token_registry := token_with_metadata_results (ks_token_registry s)
         (filter (\<lambda>(token, _). token \<in> gtm_tokens payload) metadata)\<rparr>"

fun transition_outcome :: "bloom_ops \<Rightarrow> chain_key \<Rightarrow> kernel_state \<Rightarrow> event \<Rightarrow> transition_outcome_t" where
  "transition_outcome B chain s (HeadObserved h parent bloom number) =
     head_observed B chain s h parent bloom number"
| "transition_outcome B chain s (FinalizedBlockObserved h number) =
     progress (schedule_missing_log_range_requests B chain h (with_finalized_block_observed B s chain h, []))"
| "transition_outcome B chain s (BlockHeaderReceived i h parent bloom number) =
     progress (header_received B chain s i h parent bloom number)"
| "transition_outcome B chain s (BlockHeaderNotFound i) =
     (let (requests, _) = take_request block_headers_access (ks_pending_requests s) i
      in Progressed (s\<lparr>ks_pending_requests := requests\<rparr>) [])"
| "transition_outcome B chain s (CanonicalHeaderAtHeightReceived i h number) =
     progress (canonical_header_received s i h number)"
| "transition_outcome B chain s (BlockLogsReceived i logs) =
     progress (answer B chain block_logs_access s i
       (\<lambda>payload s. with_log_complete s (gbl_block_hash payload) logs))"
| "transition_outcome B chain s (BlockLogsRangeReceived i received) =
     progress (answer B chain logs_range_access s i (\<lambda>payload. apply_range received (glr_covered payload)))"
| "transition_outcome B chain s (LogObserved h logs) =
     (if graph_contains (ks_graph s) h
      then progress (schedule_unknown_canonical_requests B chain (with_log_streamed s h logs, []))
      else Progressed (with_streamed_logs_buffered s h logs) [])"
| "transition_outcome B chain s (PoolMetadataReceived i metadata) =
     progress (answer B chain pool_metadata_access s i (accept_pool_metadata chain metadata))"
| "transition_outcome B chain s (TokenMetadataReceived i metadata) =
     progress (answer B chain token_metadata_access s i (accept_token_metadata metadata))"
| "transition_outcome B chain s (PoolDataReceived i pools) =
     progress (answer B chain pool_data_access s i
       (\<lambda>payload s. with_finalized_pool_seeds s (gpd_at payload) pools))"
| "transition_outcome B chain s (RequestFailed i) =
     (let (requests, issued) = retry (ks_pending_requests s) i (ks_tick s)
      in Progressed (s\<lparr>ks_pending_requests := requests\<rparr>)
           (case issued of None \<Rightarrow> [] | Some r \<Rightarrow> [Request r]))"
| "transition_outcome B chain s TickEvent =
     (let t = tick_next (ks_tick s);
          (requests, issued) = retry_expired (ks_pending_requests s) t
      in Progressed (s\<lparr>ks_pending_requests := requests, ks_tick := t\<rparr>) (map Request issued))"

fun outcome_result :: "transition_outcome_t \<Rightarrow> kernel_state \<times> effect list" where
  "outcome_result (Inert s) = (s, [])"
| "outcome_result (Progressed s effects) = (s, effects)"

definition transition :: "bloom_ops \<Rightarrow> chain_key \<Rightarrow> kernel_state \<Rightarrow> event \<Rightarrow> kernel_state \<times> effect list" where
  "transition B chain s e = outcome_result (transition_outcome B chain s e)"

end
