(* ===== verification/FinalizationLaws.thy ===== *)
theory FinalizationLaws
  imports Finalization
begin

text \<open>
  What the fold and the finalization guarantee. \<open>path_run\<close> is the specification of the fold's
  input: a pool's readable events along the path, in block and log order. The folded snapshot is
  \<open>derive_pool_state\<close> of that run per pool (\<open>map_of_folded\<close>); the frontier is the longest foldable
  prefix; the missing ranges list exactly the holes; and the re-rooted graph keeps the contract
  and the canonical suffix.
\<close>

section \<open>The fold per pool\<close>

definition block_run :: "authority \<Rightarrow> protocol_pool_key \<Rightarrow> block_data \<Rightarrow> pool_log_event list" where
  "block_run authority k data =
     (case readable_logs (bd_logs data) authority of
        None \<Rightarrow> []
      | Some logs \<Rightarrow> map pl_event (filter (\<lambda>log. pl_pool log = k) (map snd logs)))"

definition path_run :: "authority \<Rightarrow> protocol_pool_key \<Rightarrow> block_data list \<Rightarrow> pool_log_event list" where
  "path_run authority k datas = concat (map (block_run authority k) datas)"

definition bucket_of :: "(protocol_pool_key, pool_log_event list) hmap \<Rightarrow> protocol_pool_key \<Rightarrow>
    pool_log_event list" where
  "bucket_of buckets k = (case map_of buckets k of None \<Rightarrow> [] | Some run \<Rightarrow> run)"

definition buckets_ok :: "(protocol_pool_key, pool_log_event list) hmap \<Rightarrow> bool" where
  "buckets_ok buckets \<longleftrightarrow> (\<forall>k. map_of buckets k \<noteq> Some [])"

lemma push_events_bucket:
  "bucket_of (fold push_event logs buckets) k =
     bucket_of buckets k @ map pl_event (filter (\<lambda>log. pl_pool log = k) logs)"
  by (induction logs arbitrary: buckets) (auto simp: push_event_def bucket_of_def)

lemma push_events_ok: "buckets_ok buckets \<Longrightarrow> buckets_ok (fold push_event logs buckets)"
  by (induction logs arbitrary: buckets) (auto simp: push_event_def buckets_ok_def)

lemma bucket_blocks:
  "bucket_of (fold (bucket_block authority) datas buckets) k = bucket_of buckets k @ path_run authority k datas"
  by (induction datas arbitrary: buckets)
     (auto simp: path_run_def bucket_block_def block_run_def push_events_bucket split: option.splits)

lemma bucket_blocks_ok: "buckets_ok buckets \<Longrightarrow> buckets_ok (fold (bucket_block authority) datas buckets)"
  by (induction datas arbitrary: buckets) (auto simp: bucket_block_def push_events_ok split: option.splits)

lemma map_of_buckets:
  "map_of (fold (bucket_block authority) datas []) k =
     (if path_run authority k datas = [] then None else Some (path_run authority k datas))"
  using bucket_blocks [of authority datas "[]" k] bucket_blocks_ok [of "[]" authority datas]
  by (auto simp: bucket_of_def buckets_ok_def split: option.splits)

lemma map_of_fold_base:
  assumes "hm_wf base"
  shows "map_of (fold (fold_base_pool buckets) base overlay) p =
    (case Option.bind (map_of base p) (\<lambda>s. Option.bind (map_of buckets (pr_key p)) (derive_pool_state (Some s))) of
       None \<Rightarrow> map_of overlay p
     | Some s \<Rightarrow> Some s)"
  using assms
proof (induction base arbitrary: overlay)
  case (Cons e base)
  obtain q s where e: "e = (q, s)" by (cases e)
  have "map_of base q = None" using Cons.prems by (auto simp: e hm_wf_def map_of_eq_None_iff)
  moreover have "hm_wf base" using Cons.prems by (simp add: hm_wf_def)
  ultimately show ?case
    using Cons.IH by (auto simp: e fold_base_pool_def split: option.splits)
qed simp

lemma map_of_fold_seed:
  "map_of (fold (seed_verified_pool base buckets) ps overlay) p =
    (if p \<in> set ps \<and> map_of base p = None
     then (case Option.bind (map_of buckets (pr_key p)) (derive_pool_state None) of
             None \<Rightarrow> map_of overlay p
           | Some s \<Rightarrow> Some s)
     else map_of overlay p)"
proof (induction ps arbitrary: overlay)
  case (Cons q ps)
  show ?case
    unfolding fold.simps comp_def Cons.IH
    by (auto simp: seed_verified_pool_def hm_contains_def split: option.splits)
qed simp

text \<open>The snapshot a fold produces, pool by pool; an underivable run keeps the base state.\<close>

definition folded_pool :: "pool_state option \<Rightarrow> bool \<Rightarrow> pool_log_event list \<Rightarrow> pool_state option" where
  "folded_pool base_state tracked run =
     (case base_state of
        Some s \<Rightarrow> (case derive_pool_state (Some s) run of None \<Rightarrow> Some s | Some s' \<Rightarrow> Some s')
      | None \<Rightarrow> if tracked then derive_pool_state None run else None)"

lemma map_of_overlay:
  assumes "hm_wf base" and "finite verified"
  shows "map_of (folded_overlay g base verified target authority) p =
    (let run = path_run authority (pr_key p) (connected_path_data g target)
     in if run = [] then None
        else case map_of base p of
               Some s \<Rightarrow> derive_pool_state (Some s) run
             | None \<Rightarrow> if p \<in> verified then derive_pool_state None run else None)"
  using assms
  by (auto simp: folded_overlay_def Let_def map_of_fold_seed map_of_fold_base map_of_buckets
      split: option.splits)

lemma hm_wf_folded: "hm_wf base \<Longrightarrow> hm_wf (folded_pool_states g base verified target authority)"
  by (simp add: folded_pool_states_def)

lemma hm_wf_fold_base: "hm_wf overlay \<Longrightarrow> hm_wf (fold (fold_base_pool buckets) base overlay)"
  by (induction base arbitrary: overlay) (auto simp: fold_base_pool_def split: prod.splits option.splits)

lemma hm_wf_fold_seed: "hm_wf overlay \<Longrightarrow> hm_wf (fold (seed_verified_pool base buckets) ps overlay)"
  by (induction ps arbitrary: overlay) (auto simp: seed_verified_pool_def split: option.splits)

lemma hm_wf_overlay: "hm_wf (folded_overlay g base verified target authority)"
  by (simp add: folded_overlay_def Let_def hm_wf_fold_base hm_wf_fold_seed)

lemma map_of_folded:
  assumes "hm_wf base" and "finite verified"
  shows "map_of (folded_pool_states g base verified target authority) p =
    folded_pool (map_of base p) (p \<in> verified) (path_run authority (pr_key p) (connected_path_data g target))"
  using assms
  by (auto simp: folded_pool_states_def map_of_extend map_of_rev_wf [OF hm_wf_overlay] map_of_overlay
      folded_pool_def Let_def split: option.splits)

section \<open>The frontier and the holes\<close>

definition foldable_block :: "bloom_ops \<Rightarrow> bloom set \<Rightarrow> authority \<Rightarrow> block_data \<Rightarrow> bool" where
  "foldable_block B watched authority data \<longleftrightarrow>
     readable_logs (bd_logs data) authority \<noteq> None \<or> \<not> bloom_may_touch B (bd_logs_bloom data) watched"

definition block_at :: "blocks_graph \<Rightarrow> block_hash \<Rightarrow> block_data" where
  "block_at g h = snd (the (connected g h))"

lemma connected_block_at: "connected g h = Some (r, d) \<Longrightarrow> block_at g h = d"
  by (simp add: block_at_def)

text \<open>The walk stops after the longest prefix of foldable blocks.\<close>

lemma frontier_walk_prefix:
  "\<forall>h \<in> set hs. connected g h \<noteq> None \<Longrightarrow>
   frontier_walk B g watched authority hs f =
     last (f # takeWhile (\<lambda>h. foldable_block B watched authority (block_at g h)) hs)"
proof (induction hs arbitrary: f)
  case (Cons h hs)
  then obtain r d where c: "connected g h = Some (r, d)" by auto
  then show ?case using Cons by (simp add: foldable_block_def connected_block_at [OF c])
qed simp

lemma foldable_frontier_prefix:
  "foldable_frontier B g target watched authority =
     last (anchor_hash g #
       takeWhile (\<lambda>h. foldable_block B watched authority (block_at g h)) (connected_oldest_to_newest g target))"
  unfolding foldable_frontier_def
  by (rule frontier_walk_prefix) (use oldest_to_newest_connected in blast)

lemma collect_holes_hashes:
  "\<forall>h \<in> set hs. connected g h \<noteq> None \<Longrightarrow>
   concat (map mr_hashes (collect_holes B g watched exclude hs ranges)) =
     concat (map mr_hashes ranges) @ filter (\<lambda>h. is_hole B watched exclude (block_at g h)) hs"
proof (induction hs arbitrary: ranges)
  case (Cons h hs)
  then obtain r d where c: "connected g h = Some (r, d)" by auto
  have push: "concat (map mr_hashes (push_hole ranges n h)) = concat (map mr_hashes ranges) @ [h]" for n
    by (cases ranges rule: rev_cases) (auto simp: push_hole_def)
  show ?case using Cons c by (auto simp: push connected_block_at [OF c])
qed simp

text \<open>
  A range's bounds match its blocks: one hash per number from \<open>from\<close> to \<open>to\<close>, in ascending order.
\<close>

definition range_ok :: "blocks_graph \<Rightarrow> missing_range \<Rightarrow> bool" where
  "range_ok g r \<longleftrightarrow> mr_hashes r \<noteq> [] \<and>
     map (bd_number \<circ> block_at g) (mr_hashes r) =
       map (\<lambda>i. mr_from r + word_of_nat i) [0 ..< length (mr_hashes r)] \<and>
     mr_to r = mr_from r + word_of_nat (length (mr_hashes r) - 1)"

lemma push_hole_range_ok:
  assumes "\<forall>r \<in> set ranges. range_ok g r" and n: "n = bd_number (block_at g h)"
  shows "\<forall>r \<in> set (push_hole ranges n h). range_ok g r"
proof (cases "ranges \<noteq> [] \<and> n = mr_to (last ranges) + 1")
  case True
  let ?l = "last ranges" and ?k = "length (mr_hashes (last ranges))"
  have ok: "range_ok g ?l" using assms(1) True by simp
  then have k: "?k \<noteq> 0" by (simp add: range_ok_def)
  have n': "n = mr_from ?l + word_of_nat ?k"
    using True ok k by (auto simp: range_ok_def of_nat_diff)
  have "range_ok g (?l\<lparr>mr_to := n, mr_hashes := mr_hashes ?l @ [h]\<rparr>)"
    using ok n n' by (simp add: range_ok_def)
  moreover have "\<forall>r \<in> set (butlast ranges). range_ok g r"
    using assms(1) by (auto dest: in_set_butlastD)
  ultimately show ?thesis using True by (simp add: push_hole_def)
next
  case False
  have "range_ok g \<lparr>mr_from = n, mr_to = n, mr_hashes = [h]\<rparr>" by (simp add: range_ok_def n)
  with False assms(1) show ?thesis by (auto simp: push_hole_def)
qed

lemma collect_holes_range_ok:
  "\<forall>h \<in> set hs. connected g h \<noteq> None \<Longrightarrow> \<forall>r \<in> set ranges. range_ok g r \<Longrightarrow>
   \<forall>r \<in> set (collect_holes B g watched exclude hs ranges). range_ok g r"
proof (induction hs arbitrary: ranges)
  case (Cons h hs)
  then obtain r d where c: "connected g h = Some (r, d)" by auto
  have "\<forall>r \<in> set (push_hole ranges (bd_number d) h). range_ok g r"
    using push_hole_range_ok [OF Cons.prems(2)] connected_block_at [OF c] by metis
  with Cons c show ?case by simp
qed simp

lemma missing_ranges_spec:
  shows "concat (map mr_hashes (missing_complete_ranges B g target watched exclude)) =
      filter (\<lambda>h. is_hole B watched exclude (block_at g h)) (connected_oldest_to_newest g target)"
    and "\<forall>r \<in> set (missing_complete_ranges B g target watched exclude). range_ok g r"
  using collect_holes_hashes [of "connected_oldest_to_newest g target" g B watched exclude "[]"]
    collect_holes_range_ok [of "connected_oldest_to_newest g target" g "[]" B watched exclude]
    oldest_to_newest_connected
  by (auto simp: missing_complete_ranges_def)

lemma hole_iff_not_foldable: "is_hole B watched {} data \<longleftrightarrow> \<not> foldable_block B watched RequireComplete data"
  by (cases "bd_logs data") (auto simp: is_hole_def foldable_block_def)

lemma no_ranges_iff_no_holes:
  "missing_complete_ranges B g target watched exclude = [] \<longleftrightarrow>
     (\<forall>h \<in> set (connected_oldest_to_newest g target). \<not> is_hole B watched exclude (block_at g h))"
proof -
  let ?rs = "missing_complete_ranges B g target watched exclude"
  have "?rs = [] \<longleftrightarrow> concat (map mr_hashes ?rs) = []"
    using missing_ranges_spec(2) [of B g target watched exclude]
    by (cases ?rs) (auto simp: range_ok_def)
  then show ?thesis by (simp add: missing_ranges_spec(1) filter_empty_conv)
qed

lemma last_takeWhile_all:
  assumes "xs \<noteq> []" and "distinct xs" and "a \<notin> set xs"
  shows "last (a # takeWhile P xs) = last xs \<longleftrightarrow> (\<forall>x \<in> set xs. P x)"
proof
  assume l: "last (a # takeWhile P xs) = last xs"
  have "takeWhile P xs \<noteq> []" using l assms by (metis last.simps last_in_set)
  then have "last xs \<in> set (takeWhile P xs)" using l by (metis last.simps last_in_set)
  then have "length (takeWhile P xs) = length xs"
  proof -
    obtain i where i: "i < length (takeWhile P xs)" "takeWhile P xs ! i = last xs"
      using \<open>last xs \<in> set (takeWhile P xs)\<close> by (metis in_set_conv_nth)
    then have "xs ! i = xs ! (length xs - 1)" using assms(1) by (simp add: takeWhile_nth last_conv_nth)
    moreover have "i < length xs" using i(1) length_takeWhile_le [of P xs] by linarith
    ultimately have "i = length xs - 1"
      using assms(1,2) nth_eq_iff_index_eq [of xs i "length xs - 1"] by simp
    with i(1) length_takeWhile_le [of P xs] show ?thesis by linarith
  qed
  then show "\<forall>x \<in> set xs. P x" by (metis takeWhile_eq_take take_all set_takeWhileD order_refl)
next
  assume "\<forall>x \<in> set xs. P x"
  then have "takeWhile P xs = xs" by (simp add: takeWhile_eq_all_conv)
  then show "last (a # takeWhile P xs) = last xs" by (simp only: last.simps assms(1) if_False)
qed

lemma graph_ok_anchor_not_connected: "graph_ok g \<Longrightarrow> connected g (anchor_hash g) = None"
  using tree_ok_root [of "anchor_hash g" "map_of (bg_nodes g)"]
  by (auto simp: graph_ok_def connected_def is_conn_def)

lemma frontier_reaches_target_iff:
  assumes "graph_ok g" and "connected g target \<noteq> None"
  shows "foldable_frontier B g target watched RequireComplete = target \<longleftrightarrow>
     missing_complete_ranges B g target watched {} = []"
proof -
  have "anchor_hash g \<notin> set (connected_oldest_to_newest g target)"
    using oldest_to_newest_connected graph_ok_anchor_not_connected [OF assms(1)] by blast
  from last_takeWhile_all [OF oldest_to_newest_linked(2,4) [OF assms] this] show ?thesis
    by (simp add: foldable_frontier_prefix no_ranges_iff_no_holes hole_iff_not_foldable
        oldest_to_newest_linked(3) [OF assms])
qed

section \<open>Paths\<close>

lemma path_walk:
  assumes "graph_ok g"
  shows "connected_walk (Suc (length (bg_nodes g))) (bg_nodes g) h = Some (rev (connected_oldest_to_newest g h))"
  using connected_walk_returns [OF assms, of h] by (auto simp: connected_oldest_to_newest_def)

lemma path_eqI:
  assumes "graph_ok g" and "connected_walk n (bg_nodes g) h = Some c"
  shows "connected_oldest_to_newest g h = rev c"
  using connected_walk_unique [OF assms(2) path_walk [OF assms(1), of h]] by simp

lemma path_child:
  "graph_ok g \<Longrightarrow> map_of (bg_nodes g) h = Some (Connected Anchor d) \<Longrightarrow> connected_oldest_to_newest g h = [h]"
  using path_eqI [of g "Suc 0" h "[h]"] by (simp add: connected_walk_Suc)

lemma path_step:
  assumes "graph_ok g" and "map_of (bg_nodes g) h = Some (Connected (Block p) d)"
  shows "connected_oldest_to_newest g h = connected_oldest_to_newest g p @ [h]"
proof -
  have "connected_walk (Suc (Suc (length (bg_nodes g)))) (bg_nodes g) h =
      Some (h # rev (connected_oldest_to_newest g p))"
    using path_walk [OF assms(1), of p] assms(2) by (subst connected_walk_Suc) simp
  from path_eqI [OF assms(1) this] show ?thesis by simp
qed

lemma path_data_map:
  "connected_path_data g target = map (block_at g) (connected_oldest_to_newest g target)"
proof -
  have "\<forall>h \<in> set hs. connected g h \<noteq> None \<Longrightarrow>
      List.map_filter (\<lambda>h. map_option snd (connected g h)) hs = map (block_at g) hs" for hs
    by (induction hs) (auto simp: List.map_filter_simps block_at_def)
  then show ?thesis
    unfolding connected_path_data_def using oldest_to_newest_connected by blast
qed

lemma descends_walk:
  "connected_walk n nodes h = Some c \<Longrightarrow> anchored (map_of nodes) h \<Longrightarrow> visited \<inter> set c = {} \<Longrightarrow>
     connected_descends_from nodes visited h a \<longleftrightarrow> a \<in> set c"
proof (induction n arbitrary: h c visited)
  case (Suc n)
  from Suc.prems(2) show ?case
  proof (cases rule: anchored.cases)
    case (anchored_child d)
    with Suc.prems show ?thesis
      by (subst connected_descends_from.simps) (auto simp: connected_walk_Suc is_conn_def)
  next
    case (anchored_step p d)
    with Suc.prems(1) obtain c' where c': "connected_walk n nodes p = Some c'" "c = h # c'"
      by (auto simp: connected_walk_Suc is_conn_def)
    have "insert h visited \<inter> set c' = {}"
      using Suc.prems(3) connected_walk_distinct [OF Suc.prems(1)] c'(2) by auto
    from Suc.IH [OF c'(1) anchored_step(2) this] anchored_step(1) Suc.prems(3) c'(2) show ?thesis
      by (subst connected_descends_from.simps) auto
  qed
qed simp

lemma retained_iff:
  assumes "graph_ok g"
  shows "h \<in> retained_nodes (bg_nodes g) na \<longleftrightarrow>
     connected g h \<noteq> None \<and> h \<noteq> na \<and> na \<in> set (connected_oldest_to_newest g h)"
proof -
  have wf: "hm_wf (bg_nodes g)" and tree: "tree_ok_upto (anchor_hash g) (map_of (bg_nodes g)) (\<lambda>_ _. False)"
    using assms by (simp_all add: graph_ok_def)
  have "h \<in> retained_nodes (bg_nodes g) na \<longleftrightarrow> is_conn (map_of (bg_nodes g)) h \<and> h \<noteq> na \<and>
      connected_descends_from (bg_nodes g) {} h na"
  proof -
    have "is_conn (map_of (bg_nodes g)) h \<longleftrightarrow> (\<exists>n. (h, n) \<in> set (bg_nodes g) \<and> \<not> is_pending_node n)"
      unfolding is_conn_def hm_wf_in_set [OF wf]
      by (metis is_pending_node.elims(3) is_pending_node.simps(2))
    then show ?thesis by (force simp: retained_nodes_def)
  qed
  also have "\<dots> \<longleftrightarrow> connected g h \<noteq> None \<and> h \<noteq> na \<and> na \<in> set (connected_oldest_to_newest g h)"
    using descends_walk [OF path_walk [OF assms, of h] tree_ok_conn [OF tree], of "{}" na]
    by (auto simp: connected_def)
  finally show ?thesis .
qed

section \<open>Re-rooting\<close>

text \<open>A re-root of a good graph at one of its connected blocks, with its result.\<close>

definition reanchors :: "blocks_graph \<Rightarrow> block_hash \<Rightarrow> pool_states \<Rightarrow> pool_ref set \<Rightarrow> blocks_graph \<Rightarrow>
    pool_states \<Rightarrow> bool" where
  "reanchors g na base verified g' snapshot \<longleftrightarrow>
     graph_ok g \<and> connected g na \<noteq> None \<and> reanchored_to g na base verified = (g', snapshot)"

lemma reanchorsD:
  assumes "reanchors g na base verified g' snapshot"
  shows "graph_ok g" and "connected g na \<noteq> None" and "reanchored_to g na base verified = (g', snapshot)"
  using assms by (simp_all add: reanchors_def)

lemma na_not_anchor:
  assumes R: "reanchors g na base verified g' snapshot"
  shows "na \<noteq> anchor_hash g"
  using graph_ok_anchor_not_connected [OF reanchorsD(1) [OF R]] reanchorsD(2) [OF R] by metis

lemma new_graph:
  assumes R: "reanchors g na base verified g' snapshot"
  shows "bg_anchor g' = \<lparr>ai_hash = na, ai_number = bd_number (block_at g na)\<rparr>"
    and "bg_nodes g' = map (\<lambda>(h, node). (h, reroot_node na node))
      (filter (\<lambda>(h, _). h \<in> retained_nodes (bg_nodes g) na) (bg_nodes g))"
    and "bg_observed_head g' = (if bg_observed_head g = na \<or> hm_contains (bg_nodes g') (bg_observed_head g)
      then bg_observed_head g else na)"
    and "snapshot = folded_pool_states g base verified na RequireComplete"
proof -
  obtain r d where c: "connected g na = Some (r, d)" using reanchorsD(2) [OF R] by auto
  from reanchorsD(3) [OF R] na_not_anchor [OF R] c show
    "bg_anchor g' = \<lparr>ai_hash = na, ai_number = bd_number (block_at g na)\<rparr>"
    "bg_nodes g' = map (\<lambda>(h, node). (h, reroot_node na node))
      (filter (\<lambda>(h, _). h \<in> retained_nodes (bg_nodes g) na) (bg_nodes g))"
    "bg_observed_head g' = (if bg_observed_head g = na \<or> hm_contains (bg_nodes g') (bg_observed_head g)
      then bg_observed_head g else na)"
    "snapshot = folded_pool_states g base verified na RequireComplete"
    by (auto simp: reanchored_to_def Let_def connected_block_at [OF c])
qed

lemma node_after:
  assumes R: "reanchors g na base verified g' snapshot"
  shows "map_of (bg_nodes g') h =
    (if connected g h \<noteq> None \<and> h \<noteq> na \<and> na \<in> set (connected_oldest_to_newest g h)
     then map_option (reroot_node na) (map_of (bg_nodes g) h) else None)"
proof -
  have wf: "hm_wf (bg_nodes g)" using reanchorsD(1) [OF R] by (simp add: graph_ok_def)
  show ?thesis
    unfolding new_graph(2) [OF R] map_of_map_val map_of_filter_wf [OF wf]
    using retained_iff [OF reanchorsD(1) [OF R], of h na] by (auto split: option.splits)
qed

lemma conn_after_iff:
  assumes R: "reanchors g na base verified g' snapshot"
  shows "is_conn (map_of (bg_nodes g')) h \<longleftrightarrow>
    connected g h \<noteq> None \<and> h \<noteq> na \<and> na \<in> set (connected_oldest_to_newest g h)"
proof -
  have "\<exists>r d. reroot_node na (Connected r0 d0) = Connected r d" for r0 d0
    by (cases r0) auto
  then show ?thesis
    by (auto simp: is_conn_def node_after [OF R] connected_def)
qed

lemma anchored_after:
  assumes R: "reanchors g na base verified g' snapshot"
    and "anchored (map_of (bg_nodes g)) h" and "h \<noteq> na" and "na \<in> set (connected_oldest_to_newest g h)"
  shows "anchored (map_of (bg_nodes g')) h"
  using assms(2-)
proof (induction)
  case (anchored_child h d)
  then show ?case using path_child [OF reanchorsD(1) [OF R]] by auto
next
  case (anchored_step h p d)
  have path: "connected_oldest_to_newest g h = connected_oldest_to_newest g p @ [h]"
    by (rule path_step [OF reanchorsD(1) [OF R] anchored_step(1)])
  have h': "map_of (bg_nodes g') h = Some (reroot_node na (Connected (Block p) d))"
    using anchored_step by (simp add: node_after [OF R] connected_def is_conn_def)
  show ?case
  proof (cases "p = na")
    case True
    with h' show ?thesis by (intro anchored.anchored_child [where d = d]) simp
  next
    case False
    with anchored_step path have "anchored (map_of (bg_nodes g')) p" by simp
    with h' False show ?thesis by - (rule anchored.anchored_step [where p = p and d = d], simp_all)
  qed
qed

lemma after_ok:
  assumes R: "reanchors g na base verified g' snapshot"
  shows "graph_ok g'"
proof -
  have tree: "tree_ok_upto (anchor_hash g) (map_of (bg_nodes g)) (\<lambda>_ _. False)"
    using reanchorsD(1) [OF R] by (simp add: graph_ok_def)
  have "hm_wf (bg_nodes g')"
    unfolding new_graph(2) [OF R] using reanchorsD(1) [OF R] by (simp add: graph_ok_def)
  moreover have "tree_ok_upto (anchor_hash g') (map_of (bg_nodes g')) (\<lambda>_ _. False)"
  proof (rule tree_okI)
    show "map_of (bg_nodes g') (anchor_hash g') = None"
      by (simp add: anchor_hash_def new_graph(1) [OF R] node_after [OF R])
  next
    fix h assume "is_conn (map_of (bg_nodes g')) h"
    then show "anchored (map_of (bg_nodes g')) h"
      using anchored_after [OF R] tree_ok_conn [OF tree] by (simp add: conn_after_iff [OF R] connected_def)
  next
    fix h p d assume pend: "map_of (bg_nodes g') h = Some (Pending p d)"
    then have c: "connected g h \<noteq> None" by (auto simp: node_after [OF R] split: if_splits)
    then obtain r e where "map_of (bg_nodes g) h = Some (Connected r e)"
      by (auto simp: connected_def is_conn_def)
    with pend show "p \<noteq> anchor_hash g' \<and> p \<noteq> h \<and> (is_conn (map_of (bg_nodes g')) p \<longrightarrow> False)"
      by (cases r) (auto simp: node_after [OF R] split: if_splits)
  qed
  moreover have "bg_observed_head g' = anchor_hash g' \<or> graph_contains g' (bg_observed_head g')"
    unfolding new_graph(3) [OF R] by (auto simp: anchor_hash_def new_graph(1) [OF R] graph_contains_def)
  ultimately show ?thesis by (simp add: graph_ok_def)
qed

text \<open>The canonical path of a surviving block loses exactly the finalized prefix.\<close>

lemma path_after:
  assumes R: "reanchors g na base verified g' snapshot"
    and "connected g h \<noteq> None" and "na \<in> set (connected_oldest_to_newest g h)"
  shows "connected_oldest_to_newest g h = connected_oldest_to_newest g na @ connected_oldest_to_newest g' h"
proof -
  have "anchored (map_of (bg_nodes g)) h"
    using reanchorsD(1) [OF R] assms(2) by (simp add: graph_ok_def tree_ok_upto_def connected_def)
  then show ?thesis using assms(3)
  proof induction
    case (anchored_child h d)
    then have "h = na" using path_child [OF reanchorsD(1) [OF R]] by auto
    moreover have "connected g' na = None" by (simp add: connected_def conn_after_iff [OF R])
    ultimately show ?case by (simp add: oldest_to_newest_not_connected)
  next
    case (anchored_step h p d)
    have path: "connected_oldest_to_newest g h = connected_oldest_to_newest g p @ [h]"
      by (rule path_step [OF reanchorsD(1) [OF R] anchored_step(1)])
    show ?case
    proof (cases "h = na")
      case True
      moreover have "connected g' na = None" by (simp add: connected_def conn_after_iff [OF R])
      ultimately show ?thesis by (simp add: oldest_to_newest_not_connected)
    next
      case False
      have h': "map_of (bg_nodes g') h = Some (reroot_node na (Connected (Block p) d))"
        using anchored_step False by (simp add: node_after [OF R] connected_def is_conn_def)
      show ?thesis
      proof (cases "p = na")
        case True
        with h' path path_child [OF after_ok [OF R], of h d] show ?thesis by simp
      next
        case pna: False
        with h' path_step [OF after_ok [OF R], of h p d] anchored_step path False show ?thesis by simp
      qed
    qed
  qed
qed

lemma block_at_after:
  assumes R: "reanchors g na base verified g' snapshot"
    and c: "connected g' h \<noteq> None"
  shows "block_at g' h = block_at g h"
proof -
  from c have "is_conn (map_of (bg_nodes g)) h" by (simp add: connected_def conn_after_iff [OF R])
  then obtain r d where n: "map_of (bg_nodes g) h = Some (Connected r d)" by (auto simp: is_conn_def)
  from c have "map_of (bg_nodes g') h = Some (reroot_node na (Connected r d))"
    by (simp add: connected_def conn_after_iff [OF R] node_after [OF R] n)
  with n show ?thesis by (cases r) (auto simp: block_at_def connected_def connected_in_def)
qed

lemma path_data_after:
  assumes R: "reanchors g na base verified g' snapshot"
    and "connected g h \<noteq> None" and "na \<in> set (connected_oldest_to_newest g h)"
  shows "connected_path_data g h = connected_path_data g na @ connected_path_data g' h"
proof -
  have "map (block_at g) (connected_oldest_to_newest g' h) = map (block_at g') (connected_oldest_to_newest g' h)"
    using oldest_to_newest_connected block_at_after [OF R] by (intro map_cong) (auto dest!: block_at_after [OF R])
  then show ?thesis by (simp add: path_data_map path_after [OF assms])
qed

section \<open>Finalization\<close>

lemma find_eq: "find (\<lambda>x. x = t) xs = (if t \<in> set xs then Some t else None)"
  by (induction xs) auto

lemma canonical_connected_target_Some:
  "canonical_connected_target g t = Some x \<longleftrightarrow>
     x = t \<and> connected g t \<noteq> None \<and> t \<in> set (canonical_oldest_to_newest g)"
  by (auto simp: canonical_connected_target_def find_eq split: option.splits)

lemma canonical_path:
  "canonical_oldest_to_newest g =
     (if connected g (bg_observed_head g) = None then [] else connected_oldest_to_newest g (bg_observed_head g))"
  by (auto simp: canonical_oldest_to_newest_def connected_hash_def)

lemma path_prefix:
  assumes "graph_ok g" and "k \<in> set (connected_oldest_to_newest g h)"
  shows "\<exists>zs. connected_oldest_to_newest g h = connected_oldest_to_newest g k @ zs"
proof -
  have "k \<in> set (rev (connected_oldest_to_newest g h))" using assms(2) by simp
  from connected_walk_suffix [OF path_walk [OF assms(1), of h] this] obtain m xs ys where
    xy: "rev (connected_oldest_to_newest g h) = xs @ ys" "connected_walk m (bg_nodes g) k = Some ys" by blast
  then have "connected_oldest_to_newest g h = rev ys @ rev xs" by (metis rev_append rev_rev_ident)
  then show ?thesis using path_eqI [OF assms(1) xy(2)] by auto
qed

lemma distinct_prefix_last:
  assumes "distinct (ps @ qs)" and "ps @ qs = ps' @ qs'" and "ps \<noteq> []" and "ps' \<noteq> []" and "last ps = last ps'"
  shows "ps = ps'"
proof -
  have clash: "us = []" if "distinct (xs @ us @ vs)" "xs \<noteq> []" "last (xs @ us) = last xs" for xs us vs :: "'a list"
  proof (rule ccontr)
    assume "us \<noteq> []"
    with that have "last xs \<in> set xs" "last xs \<in> set us" by (metis last_in_set, metis last_append last_in_set)
    with that(1) show False by auto
  qed
  from assms(2) obtain us where "ps = ps' @ us \<and> us @ qs = qs' \<or> ps @ us = ps' \<and> qs = us @ qs'"
    by (auto simp: append_eq_append_conv2)
  then show ?thesis
  proof
    assume u: "ps = ps' @ us \<and> us @ qs = qs'"
    then have "distinct (ps' @ us @ qs)" "last (ps' @ us) = last ps'"
      using assms(1,5) by (metis append_assoc, metis)
    from clash [OF this(1) assms(4) this(2)] u show ?thesis by simp
  next
    assume u: "ps @ us = ps' \<and> qs = us @ qs'"
    then have "distinct (ps @ us @ qs')" "last (ps @ us) = last ps"
      using assms(1,5) by (metis, metis)
    from clash [OF this(1) assms(3) this(2)] u show ?thesis by simp
  qed
qed

text \<open>
  Finalization either changes nothing, or re-roots at a block on the canonical path to the target
  whose whole prefix is foldable from complete logs.
\<close>

lemma finalized_to_cases:
  assumes ok: "graph_ok g" and res: "finalized_to B g t base verified v4 = (g', s')"
  defines "watched \<equiv> bloom_patterns_of B (watched_addresses verified v4)"
  obtains (stay) "g' = g" "s' = base"
  | (advance) na where "reanchors g na base verified g' s'" "na \<in> set (connected_oldest_to_newest g t)"
      "connected g t \<noteq> None" "t \<in> set (canonical_oldest_to_newest g)"
      "connected_oldest_to_newest g na =
         takeWhile (\<lambda>h. foldable_block B watched RequireComplete (block_at g h)) (connected_oldest_to_newest g t)"
proof (cases "canonical_connected_target g t")
  case None
  with res show ?thesis by (intro stay) (simp_all add: finalized_to_def)
next
  case (Some x)
  then have t: "x = t" "connected g t \<noteq> None" "t \<in> set (canonical_oldest_to_newest g)"
    by (simp_all add: canonical_connected_target_Some)
  let ?path = "connected_oldest_to_newest g t"
  let ?pre = "takeWhile (\<lambda>h. foldable_block B watched RequireComplete (block_at g h)) ?path"
  have res': "reanchored_to g (last (anchor_hash g # ?pre)) base verified = (g', s')"
    using res Some t(1) by (simp add: finalized_to_def foldable_frontier_prefix watched_def)
  show ?thesis
  proof (cases "?pre = []")
    case True
    then have "reanchored_to g (anchor_hash g) base verified = (g', s')" using res' by simp
    then show ?thesis by (intro stay) (simp_all add: reanchored_to_def)
  next
    case False
    let ?na = "last ?pre"
    have "?na \<in> set ?path" using False set_takeWhileD [of ?na] last_in_set [OF False] by metis
    moreover from this have c: "connected g ?na \<noteq> None" by (rule oldest_to_newest_connected)
    moreover have "reanchors g ?na base verified g' s'"
      using res' False c ok by (simp add: reanchors_def)
    moreover have "connected_oldest_to_newest g ?na = ?pre"
    proof -
      obtain zs where zs: "?path = connected_oldest_to_newest g ?na @ zs"
        using path_prefix [OF ok \<open>?na \<in> set ?path\<close>] by blast
      have tw: "?path = ?pre @ dropWhile (\<lambda>h. foldable_block B watched RequireComplete (block_at g h)) ?path"
        by (rule takeWhile_dropWhile_id [symmetric])
      show ?thesis
        by (rule distinct_prefix_last [OF subst [OF zs, of distinct] trans [OF zs [symmetric] tw]])
           (simp_all only: oldest_to_newest_linked(2-4) [OF ok c] oldest_to_newest_linked(4) [OF ok t(2)]
             False not_False_eq_True)
    qed
    ultimately show ?thesis using t by (intro advance) auto
  qed
qed

lemma graph_ok_finalized_to:
  assumes "graph_ok g" and "finalized_to B g t base verified v4 = (g', s')"
  shows "graph_ok g'"
  using assms(1) after_ok by (cases rule: finalized_to_cases [OF assms]) auto

lemma hm_wf_finalized_to:
  assumes "graph_ok g" and "finalized_to B g t base verified v4 = (g', s')" and "hm_wf base"
  shows "hm_wf s'"
  using assms(1,2)
proof (cases rule: finalized_to_cases)
  case stay
  with assms(3) show ?thesis by simp
next
  case (advance na)
  then show ?thesis using new_graph(4) [OF advance(1)] assms(3) by (simp add: hm_wf_folded)
qed

section \<open>Finalization is transparent to the fold\<close>

lemma derive_None_append:
  "derive_pool_state None (xs @ ys) = Some s \<Longrightarrow>
     (case derive_pool_state None xs of
        Some s1 \<Rightarrow> derive_pool_state (Some s1) ys = Some s
      | None \<Rightarrow> derive_pool_state None ys = Some s)"
proof (induction xs)
  case (Cons e xs)
  then show ?case by (cases e) (auto simp: derive_staged bind_eq_Some_conv)
qed simp

lemma folded_pool_staged:
  assumes "derive_pool_state b (xs @ ys) \<noteq> None"
  shows "folded_pool (folded_pool b tr xs) tr ys = folded_pool b tr (xs @ ys)"
proof (cases b)
  case None
  with assms derive_None_append [of xs ys] show ?thesis
    by (auto simp: folded_pool_def split: option.splits)
next
  case (Some s)
  with assms obtain s1 where "derive_pool_state (Some s) xs = Some s1"
    by (auto simp: derive_staged bind_eq_Some_conv)
  with Some assms show ?thesis by (auto simp: folded_pool_def derive_append split: option.splits)
qed

lemma path_run_append: "path_run a k (xs @ ys) = path_run a k xs @ path_run a k ys"
  by (simp add: path_run_def)

lemma fold_after_reanchor:
  assumes R: "reanchors g na base verified g' s'" and wf: "hm_wf base" and fin: "finite verified"
    and h: "connected g h \<noteq> None" "na \<in> set (connected_oldest_to_newest g h)"
    and pre: "path_run a (pr_key p) (connected_path_data g na) = path_run RequireComplete (pr_key p) (connected_path_data g na)"
    and der: "derive_pool_state (map_of base p) (path_run a (pr_key p) (connected_path_data g h)) \<noteq> None"
  shows "map_of (folded_pool_states g' s' verified h a) p = map_of (folded_pool_states g base verified h a) p"
proof -
  let ?run = "\<lambda>a ds. path_run a (pr_key p) ds"
  have s': "map_of s' p = folded_pool (map_of base p) (p \<in> verified) (?run a (connected_path_data g na))"
    unfolding new_graph(4) [OF R] map_of_folded [OF wf fin] pre ..
  have wf': "hm_wf s'" using wf by (simp add: new_graph(4) [OF R] hm_wf_folded)
  have split: "?run a (connected_path_data g h) =
      ?run a (connected_path_data g na) @ ?run a (connected_path_data g' h)"
    by (simp add: path_data_after [OF R h] path_run_append)
  show ?thesis
    unfolding map_of_folded [OF wf' fin] map_of_folded [OF wf fin] s' split
    by (rule folded_pool_staged) (use der split in simp)
qed

section \<open>Properties of finalization\<close>

definition demo_pool :: pool_ref where
  "demo_pool = PoolRef (UniswapV3 7) Ethereum"

text \<open>
  C8. The anchor only advances along the canonical chain, over a prefix that is foldable from
  authoritative logs, as far as the first block that is not; the new anchor carries its own header's
  height, and the new snapshot is, pool by pool, the fold of the finalized prefix over the base.
\<close>

theorem finalization_advances_canonically:
  assumes "graph_ok g" and "hm_wf base" and "finite verified"
    and res: "finalized_to B g target base verified v4 = (g', snapshot)"
    and adv: "anchor_hash g' \<noteq> anchor_hash g"
  shows "target \<in> set (canonical_oldest_to_newest g) \<and>
    connected_oldest_to_newest g (anchor_hash g') =
      takeWhile (\<lambda>h. foldable_block B (bloom_patterns_of B (watched_addresses verified v4)) RequireComplete (block_at g h))
        (connected_oldest_to_newest g target) \<and>
    anchor_hash g' \<in> set (connected_oldest_to_newest g target) \<and>
    anchor_number g' = bd_number (block_at g (anchor_hash g')) \<and>
    (\<forall>p. map_of snapshot p = folded_pool (map_of base p) (p \<in> verified)
       (path_run RequireComplete (pr_key p) (connected_path_data g (anchor_hash g'))))"
  using assms(1) res
proof (cases rule: finalized_to_cases)
  case stay
  with adv show ?thesis by simp
next
  case (advance na)
  have "anchor_hash g' = na" "anchor_number g' = bd_number (block_at g na)"
    by (simp_all add: anchor_hash_def anchor_number_def new_graph(1) [OF advance(1)])
  with advance show ?thesis
    using new_graph(4) [OF advance(1)] map_of_folded [OF assms(2,3)] by simp
qed

theorem finalization_advances_canonically_witness:
  "\<exists>g' snapshot. finalized_to demo_bloom demo_graph 2 [] {demo_pool} None = (g', snapshot) \<and>
     anchor_hash g' = 2 \<and> anchor_number g' = bd_number (block_at demo_graph (anchor_hash g'))"
proof -
  let ?r = "finalized_to demo_bloom demo_graph 2 [] {demo_pool} None"
  have adv: "anchor_hash (fst ?r) = 2" "anchor_hash demo_graph = 1" by code_simp+
  then have ne: "anchor_hash (fst ?r) \<noteq> anchor_hash demo_graph" by simp
  have "finite {demo_pool}" by simp
  from finalization_advances_canonically [OF demo_graph_ok hm_wf_Nil this surjective_pairing ne] adv(1)
  show ?thesis by (metis prod.collapse)
qed

text \<open>
  C9. Finalization does not change what the kernel projects: for a head above the new anchor, the fold
  of the shorter chain over the new snapshot gives each pool the state that the fold of the longer
  chain gave over the old one, whenever that fold succeeds and no streamed (not yet authoritative)
  log of the pool lies below the new anchor.
\<close>

theorem finalization_transparent_to_fold:
  assumes ok: "graph_ok g" and wf: "hm_wf base" and fin: "finite verified"
    and res: "finalized_to B g target base verified v4 = (g', snapshot)"
    and h: "connected g h \<noteq> None" "target \<in> set (connected_oldest_to_newest g h)"
    and pre: "path_run a (pr_key p) (connected_path_data g (anchor_hash g')) =
      path_run RequireComplete (pr_key p) (connected_path_data g (anchor_hash g'))"
    and der: "derive_pool_state (map_of base p) (path_run a (pr_key p) (connected_path_data g h)) \<noteq> None"
  shows "map_of (folded_pool_states g' snapshot verified h a) p = map_of (folded_pool_states g base verified h a) p"
  using ok res
proof (cases rule: finalized_to_cases)
  case stay
  then show ?thesis by simp
next
  case (advance na)
  have na: "anchor_hash g' = na" by (simp add: anchor_hash_def new_graph(1) [OF advance(1)])
  have "na \<in> set (connected_oldest_to_newest g h)"
    using advance(2) path_prefix [OF ok h(2)] by auto
  from fold_after_reanchor [OF advance(1) wf fin h(1) this pre [unfolded na] der] show ?thesis .
qed

theorem finalization_transparent_to_fold_witness:
  "map_of (folded_pool_states (fst (finalized_to demo_bloom demo_graph 2 [] {demo_pool} None))
     (snd (finalized_to demo_bloom demo_graph 2 [] {demo_pool} None)) {demo_pool} 3 RequireComplete) demo_pool =
   map_of (folded_pool_states demo_graph [] {demo_pool} 3 RequireComplete) demo_pool"
proof -
  have "derive_pool_state (map_of [] demo_pool)
      (path_run RequireComplete (pr_key demo_pool) (connected_path_data demo_graph 3)) =
      Some \<lparr>ps_sqrt_price_x96 = 5, ps_tick = 0, ps_liquidity = 100\<rparr>"
    by code_simp
  moreover have "2 \<in> set (connected_oldest_to_newest demo_graph 3)" "connected demo_graph 3 \<noteq> None"
    by code_simp+
  ultimately show ?thesis
    by (intro finalization_transparent_to_fold [OF demo_graph_ok hm_wf_Nil _ surjective_pairing]) simp_all
qed

text \<open>
  C13. The backfill asks for exactly what finalization waits for. For a canonical target, the ranges
  list, in order, the blocks of the target's chain that may touch a watched contract, are not complete
  and are not already being fetched; each range is a run of consecutive heights with the right bounds;
  and there is nothing to ask for exactly when the anchor can advance all the way to the target.
\<close>

theorem missing_ranges_exact:
  assumes "graph_ok g" and "connected g target \<noteq> None" and "target \<in> set (canonical_oldest_to_newest g)"
  shows "concat (map mr_hashes (missing_complete_ranges_to B g target verified v4 exclude)) =
      filter (\<lambda>h. is_hole B (bloom_patterns_of B (watched_addresses verified v4)) exclude (block_at g h)) (connected_oldest_to_newest g target) \<and>
    (\<forall>r \<in> set (missing_complete_ranges_to B g target verified v4 exclude). mr_hashes r \<noteq> [] \<and>
       map (bd_number \<circ> block_at g) (mr_hashes r) =
         map (\<lambda>i. mr_from r + word_of_nat i) [0 ..< length (mr_hashes r)] \<and>
       mr_to r = mr_from r + word_of_nat (length (mr_hashes r) - 1)) \<and>
    (missing_complete_ranges_to B g target verified v4 {} = [] \<longleftrightarrow>
       foldable_frontier B g target (bloom_patterns_of B (watched_addresses verified v4)) RequireComplete = target)"
proof -
  have "canonical_connected_target g target = Some target"
    using assms by (simp add: canonical_connected_target_Some)
  then have eq: "missing_complete_ranges_to B g target verified v4 ex =
      missing_complete_ranges B g target (bloom_patterns_of B (watched_addresses verified v4)) ex" for ex
    by (simp add: missing_complete_ranges_to_def)
  show ?thesis
    using missing_ranges_spec [of B g target "bloom_patterns_of B (watched_addresses verified v4)" exclude]
      frontier_reaches_target_iff [OF assms(1,2)]
    unfolding eq by (simp add: range_ok_def)
qed

theorem missing_ranges_exact_witness:
  "missing_complete_ranges_to demo_bloom demo_graph 3 {demo_pool} None {} = [] \<longleftrightarrow>
     foldable_frontier demo_bloom demo_graph 3 (bloom_patterns_of demo_bloom (watched_addresses {demo_pool} None))
       RequireComplete = 3"
proof -
  have "connected demo_graph 3 \<noteq> None" "3 \<in> set (canonical_oldest_to_newest demo_graph)"
    by code_simp+
  from missing_ranges_exact [OF demo_graph_ok this] show ?thesis by blast
qed

end
