(* ===== verification/Scheduling.thy ===== *)
theory Scheduling
  imports Kernel FinalizationLaws
begin

text \<open>
  What the schedulers of theory \<open>Kernel\<close> do to the state: they only issue requests.

  \<open>issue_step\<close> is one issued request of any kind, \<open>issues\<close> a sequence of them; every scheduler is
  shown to be a sequence of issues that leaves the rest of the state alone. The laws of the ledger
  (fresh ids, payloads in flight, one effect per request) are then proved once, by rule induction.
\<close>

section \<open>Sequences of issued requests\<close>

inductive issue_step :: "pending_requests \<times> effect list \<Rightarrow> pending_requests \<times> effect list \<Rightarrow> bool" where
  "issue_step x (issue_effect block_headers_access BlockHeader t header x)"
| "issue_step x (issue_effect block_logs_access BlockLogs t logs x)"
| "issue_step x (issue_effect pool_metadata_access PoolMetadata t pools x)"
| "issue_step x (issue_effect token_metadata_access TokenMetadata t tokens x)"
| "issue_step x (issue_effect pool_data_access PoolData t data x)"
| "issue_step x (issue_effect logs_range_access LogsRange t logs_range x)"
| "issue_step x (issue_effect canonical_header_access CanonicalHeader t height x)"

inductive issues :: "pending_requests \<times> effect list \<Rightarrow> pending_requests \<times> effect list \<Rightarrow> bool" where
  issues_refl [simp, intro]: "issues x x"
| issues_step: "issues x y \<Longrightarrow> issue_step y z \<Longrightarrow> issues x z"

inductive_cases issue_stepE: "issue_step x y"

lemma issues_trans: "issues y z \<Longrightarrow> issues x y \<Longrightarrow> issues x z"
  by (induction rule: issues.induct) (auto intro: issues_step)

fun effect_request :: "effect \<Rightarrow> any_issued_request" where
  "effect_request (Request r) = r"

context pending_store
begin

lemma issue_effect_spec:
  "\<exists>e. snd (issue_effect A wrap t p x) = snd x @ [e] \<and>
     rq_ids (fst (issue_effect A wrap t p x)) = rq_ids (fst x) + 1 \<and>
     (requests_ok (fst x) \<and> rq_ids (fst x) \<noteq> - 1 \<longrightarrow>
       requests_ok (fst (issue_effect A wrap t p x)) \<and>
       in_flight (fst (issue_effect A wrap t p x)) =
         add_mset (issued_payload (effect_request e)) (in_flight (fst x)))"
  by (simp add: issue_effect_def split_beta Let_def issue_ids_field issue_ok issue_in_flight wrap_payload)

end

lemmas issue_effect_specs = block_headers.issue_effect_spec block_logs.issue_effect_spec
  pool_metadata.issue_effect_spec token_metadata.issue_effect_spec pool_data.issue_effect_spec
  logs_range.issue_effect_spec canonical_header.issue_effect_spec

text \<open>One issued request: one effect at the end, one id, its payload in flight.\<close>

lemma issue_step_spec:
  "issue_step x y \<Longrightarrow> \<exists>e. snd y = snd x @ [e] \<and> rq_ids (fst y) = rq_ids (fst x) + 1 \<and>
    (requests_ok (fst x) \<and> rq_ids (fst x) \<noteq> - 1 \<longrightarrow>
       requests_ok (fst y) \<and>
       in_flight (fst y) = add_mset (issued_payload (effect_request e)) (in_flight (fst x)))"
  by (induction rule: issue_step.induct) (rule issue_effect_specs)+

lemma uint_add_of_nat:
  "uint n + int k < 2 ^ LENGTH('a) \<Longrightarrow> uint (n + word_of_nat k) = uint n + int k" for n :: "'a::len word"
proof (induction k)
  case (Suc k)
  then have IH: "uint (n + word_of_nat k) = uint n + int k" by simp
  have "n + word_of_nat k \<noteq> - 1"
    using Suc.prems IH by (auto simp: word_uint_eq_iff unsigned_minus_1_eq_mask mask_eq_exp_minus_1)
  from uint_plus_one [OF this] IH show ?case by (simp add: ac_simps)
qed simp

lemma issues_spec:
  "issues x y \<Longrightarrow> \<exists>new. snd y = snd x @ new \<and> rq_ids (fst y) = rq_ids (fst x) + word_of_nat (length new) \<and>
    (requests_ok (fst x) \<and> uint (rq_ids (fst x)) + int (length new) < 2 ^ 64 \<longrightarrow>
       requests_ok (fst y) \<and>
       in_flight (fst y) = mset (map (issued_payload \<circ> effect_request) new) + in_flight (fst x))"
proof (induction rule: issues.induct)
  case (issues_refl x)
  then show ?case by (intro exI [of _ "[]"]) simp
next
  case (issues_step x y z)
  obtain new where new: "snd y = snd x @ new" "rq_ids (fst y) = rq_ids (fst x) + word_of_nat (length new)"
    "requests_ok (fst x) \<and> uint (rq_ids (fst x)) + int (length new) < 2 ^ 64 \<longrightarrow>
       requests_ok (fst y) \<and>
       in_flight (fst y) = mset (map (issued_payload \<circ> effect_request) new) + in_flight (fst x)"
    using issues_step.IH by blast
  obtain e where e: "snd z = snd y @ [e]" "rq_ids (fst z) = rq_ids (fst y) + 1"
    "requests_ok (fst y) \<and> rq_ids (fst y) \<noteq> - 1 \<longrightarrow>
       requests_ok (fst z) \<and> in_flight (fst z) = add_mset (issued_payload (effect_request e)) (in_flight (fst y))"
    using issue_step_spec [OF issues_step.hyps(2)] by blast
  have "rq_ids (fst y) \<noteq> - 1" if "uint (rq_ids (fst x)) + int (length (new @ [e])) < 2 ^ 64"
  proof -
    have "uint (rq_ids (fst y)) = uint (rq_ids (fst x)) + int (length new)"
      unfolding new(2) by (rule uint_add_of_nat) (use that in simp)
    with that show ?thesis
      by (auto simp: unsigned_minus_1_eq_mask mask_eq_exp_minus_1)
  qed
  with new e show ?case
    by (intro exI [of _ "new @ [e]"]) (auto simp: ac_simps comp_def)
qed

section \<open>The schedulers issue and nothing else\<close>

text \<open>\<open>only_issues f\<close>: \<open>f\<close> rewrites the ledger by a sequence of issues and keeps every other field.\<close>

definition only_issues :: "(kernel_state \<times> effect list \<Rightarrow> kernel_state \<times> effect list) \<Rightarrow> bool" where
  "only_issues f \<longleftrightarrow> (\<forall>s es. \<exists>r.
     fst (f (s, es)) = s\<lparr>ks_pending_requests := r\<rparr> \<and>
     issues (ks_pending_requests s, es) (r, snd (f (s, es))))"

lemma only_issuesI:
  "(\<And>s es. \<exists>r es'. f (s, es) = (s\<lparr>ks_pending_requests := r\<rparr>, es') \<and> issues (ks_pending_requests s, es) (r, es')) \<Longrightarrow>
     only_issues f"
  unfolding only_issues_def by (metis fst_conv snd_conv)

lemma only_issuesE:
  assumes "only_issues f"
  obtains r es' where "f (s, es) = (s\<lparr>ks_pending_requests := r\<rparr>, es')"
    and "issues (ks_pending_requests s, es) (r, es')"
  using assms unfolding only_issues_def by (metis prod.collapse)

lemma only_issuesD:
  "only_issues f \<Longrightarrow> \<exists>r es'. f (s, es) = (s\<lparr>ks_pending_requests := r\<rparr>, es') \<and>
     issues (ks_pending_requests s, es) (r, es')"
  by (metis only_issuesE)

lemma same_requests [simp]: "s\<lparr>ks_pending_requests := ks_pending_requests s\<rparr> = s"
  by (cases s) simp

lemma only_issues_id [simp]: "only_issues (\<lambda>x. x)"
  by (rule only_issuesI) (metis issues_refl same_requests)

lemma only_issues_comp:
  assumes f: "only_issues f" and g: "only_issues g"
  shows "only_issues (\<lambda>x. g (f x))"
proof (rule only_issuesI)
  fix s es
  obtain r es' where f': "f (s, es) = (s\<lparr>ks_pending_requests := r\<rparr>, es')" "issues (ks_pending_requests s, es) (r, es')"
    by (rule only_issuesE [OF f])
  obtain r2 es2 where g': "g (s\<lparr>ks_pending_requests := r\<rparr>, es') =
      (s\<lparr>ks_pending_requests := r\<rparr>\<lparr>ks_pending_requests := r2\<rparr>, es2)" "issues (r, es') (r2, es2)"
    using only_issuesE [OF g, of "s\<lparr>ks_pending_requests := r\<rparr>" es'] by auto
  with f' issues_trans [OF g'(2) f'(2)]
  show "\<exists>r es'. g (f (s, es)) = (s\<lparr>ks_pending_requests := r\<rparr>, es') \<and> issues (ks_pending_requests s, es) (r, es')"
    by auto
qed

lemma only_issues_fold: "(\<And>x. only_issues (f x)) \<Longrightarrow> only_issues (fold f xs)"
  by (induction xs) (simp_all add: only_issues_comp comp_def id_def)

lemma issue_only:
  assumes "\<And>t x. issue_step x (issue_effect A wrap t p x)"
  shows "only_issues (issue A wrap p)"
proof (rule only_issuesI)
  fix s :: kernel_state and es
  obtain r es' where e: "issue_effect A wrap (ks_tick s) p (ks_pending_requests s, es) = (r, es')"
    by (cases "issue_effect A wrap (ks_tick s) p (ks_pending_requests s, es)")
  have "issues (ks_pending_requests s, es) (r, es')"
    using issues_step [OF issues_refl assms, of "(ks_pending_requests s, es)" "ks_tick s"] by (simp add: e)
  then show "\<exists>r es'. issue A wrap p (s, es) = (s\<lparr>ks_pending_requests := r\<rparr>, es') \<and>
      issues (ks_pending_requests s, es) (r, es')"
    by (auto simp: issue_def e)
qed

lemmas issue_onlys = issue_step.intros [THEN issue_only]

lemma only_issues_if:
  assumes "only_issues f"
  shows "only_issues (\<lambda>x. if P x then x else f x)"
proof (rule only_issuesI)
  fix s es
  show "\<exists>r es'. (if P (s, es) then (s, es) else f (s, es)) = (s\<lparr>ks_pending_requests := r\<rparr>, es') \<and>
      issues (ks_pending_requests s, es) (r, es')"
  proof (cases "P (s, es)")
    case True
    then show ?thesis by (metis issues_refl same_requests)
  next
    case False
    then show ?thesis using only_issuesE [OF assms, of s es] by metis
  qed
qed

lemma only_issues_header:
  "only_issues (\<lambda>(s, effects).
     (let (requests, new_effects) = request_missing_header (ks_pending_requests s) (ks_tick s) missing
      in (s\<lparr>ks_pending_requests := requests\<rparr>, effects @ new_effects)))"
proof (rule only_issuesI, goal_cases)
  case (1 s es)
  show ?case
  proof (cases "has_pending_header_request (ks_pending_requests s) missing")
    case True
    then show ?thesis by (auto simp: request_missing_header_def intro: exI [of _ "ks_pending_requests s"])
  next
    case False
    obtain r e where e: "issue_effect block_headers_access BlockHeader (ks_tick s) (GetBlockHeader missing)
        (ks_pending_requests s, []) = (r, e)"
      by (cases "issue_effect block_headers_access BlockHeader (ks_tick s) (GetBlockHeader missing)
        (ks_pending_requests s, [])")
    then have es: "issue_effect block_headers_access BlockHeader (ks_tick s) (GetBlockHeader missing)
        (ks_pending_requests s, es) = (r, es @ e)"
      by (auto simp: issue_effect_def split_beta Let_def)
    have "issues (ks_pending_requests s, es) (r, es @ e)"
      using issues_step [OF issues_refl issue_step.intros(1), of "(ks_pending_requests s, es)" "ks_tick s"
          "GetBlockHeader missing"] by (simp add: es)
    with False e show ?thesis by (auto simp: request_missing_header_def)
  qed
qed

lemma only_issues_headers: "only_issues schedule_missing_header_requests"
proof (rule only_issuesI, goal_cases)
  case (1 s es)
  have "only_issues (fold (\<lambda>missing (s, effects).
         (let (requests, new_effects) = request_missing_header (ks_pending_requests s) (ks_tick s) missing
          in (s\<lparr>ks_pending_requests := requests\<rparr>, effects @ new_effects))) (missing_parents (ks_graph s)))"
    by (intro only_issues_fold only_issues_header)
  from only_issuesD [OF this, of s es] show ?case
    by (simp only: schedule_missing_header_requests_def prod.case)
qed

text \<open>A scheduler whose request list depends on the state it starts from.\<close>

lemma only_issues_list:
  assumes "\<And>x. only_issues (f x)"
  shows "only_issues (\<lambda>(s, effects). fold f (xs s) (s, effects))"
proof (rule only_issuesI, goal_cases)
  case (1 s es)
  have "only_issues (fold f (xs s))" by (intro only_issues_fold assms)
  from only_issuesD [OF this, of s es] show ?case by (simp only: prod.case)
qed

lemma only_issues_logs: "only_issues (schedule_unknown_canonical_log_requests B chain)"
  unfolding schedule_unknown_canonical_log_requests_def Let_def
  by (intro only_issues_list issue_onlys)

lemma only_issues_ranges: "only_issues (schedule_missing_log_range_requests B chain target)"
  unfolding schedule_missing_log_range_requests_def Let_def
  by (intro only_issues_list issue_onlys)

text \<open>The metadata schedulers carry the set of keys already asked for beside the state.\<close>

lemma fold_step_issues:
  assumes "\<And>x u s es. \<exists>u' r es'. step x (u, s, es) = (u', s\<lparr>ks_pending_requests := r\<rparr>, es') \<and>
    issues (ks_pending_requests s, es) (r, es')"
  shows "\<exists>u' r es'. fold step xs (u, s, es) = (u', s\<lparr>ks_pending_requests := r\<rparr>, es') \<and>
    issues (ks_pending_requests s, es) (r, es')"
proof (induction xs arbitrary: u s es)
  case Nil
  then show ?case by (auto intro: exI [of _ "ks_pending_requests s"])
next
  case (Cons x xs)
  obtain u1 r1 es1 where one: "step x (u, s, es) = (u1, s\<lparr>ks_pending_requests := r1\<rparr>, es1)"
    "issues (ks_pending_requests s, es) (r1, es1)"
    using assms by blast
  obtain u2 r2 es2 where rest: "fold step xs (u1, s\<lparr>ks_pending_requests := r1\<rparr>, es1) =
      (u2, s\<lparr>ks_pending_requests := r1\<rparr>\<lparr>ks_pending_requests := r2\<rparr>, es2)" "issues (r1, es1) (r2, es2)"
    using Cons.IH [of u1 "s\<lparr>ks_pending_requests := r1\<rparr>" es1] by auto
  have "fold step (x # xs) (u, s, es) = (u2, s\<lparr>ks_pending_requests := r2\<rparr>, es2)"
    using one(1) rest(1) by simp
  with issues_trans [OF rest(2) one(2)] show ?case by blast
qed

lemma pool_metadata_step_issues:
  "\<exists>u' r es'. schedule_pool_metadata_step chain x (u, s, es) = (u', s\<lparr>ks_pending_requests := r\<rparr>, es') \<and>
    issues (ks_pending_requests s, es) (r, es')"
proof -
  obtain h cs where x: "x = (h, cs)" by (cases x)
  let ?new = "Set.filter (\<lambda>c. \<not> pool_is_known (ks_pool_registry s) chain c \<and> c \<notin> u) cs"
  show ?thesis
  proof (cases "?new = {}")
    case True
    then show ?thesis
      by (auto simp: schedule_pool_metadata_step_def x Let_def intro: exI [of _ "ks_pending_requests s"])
  next
    case False
    obtain r es' where "issue pool_metadata_access PoolMetadata (GetPoolMetadata h ?new) (s, es) =
        (s\<lparr>ks_pending_requests := r\<rparr>, es')" "issues (ks_pending_requests s, es) (r, es')"
      by (rule only_issuesE [OF issue_onlys(3)])
    with False show ?thesis by (simp add: schedule_pool_metadata_step_def x Let_def) blast
  qed
qed

lemma token_metadata_step_issues:
  "\<exists>u' r es'. schedule_token_metadata_step chain x (u, s, es) = (u', s\<lparr>ks_pending_requests := r\<rparr>, es') \<and>
    issues (ks_pending_requests s, es) (r, es')"
proof -
  obtain h cs where x: "x = (h, cs)" by (cases x)
  let ?new = "Set.filter (\<lambda>t. \<not> token_is_known (ks_token_registry s) t \<and> t \<notin> u) (candidate_tokens s chain cs)"
  show ?thesis
  proof (cases "?new = {}")
    case True
    then show ?thesis
      by (auto simp: schedule_token_metadata_step_def x Let_def intro: exI [of _ "ks_pending_requests s"])
  next
    case False
    obtain r es' where "issue token_metadata_access TokenMetadata (GetTokenMetadata h ?new) (s, es) =
        (s\<lparr>ks_pending_requests := r\<rparr>, es')" "issues (ks_pending_requests s, es) (r, es')"
      by (rule only_issuesE [OF issue_onlys(4)])
    with False show ?thesis by (simp add: schedule_token_metadata_step_def x Let_def) blast
  qed
qed

lemma only_issues_pool_metadata:
  "only_issues (schedule_unknown_canonical_pool_metadata_requests chain candidates)"
proof (rule only_issuesI, goal_cases)
  case (1 s es)
  show ?case
    using fold_step_issues [where xs = candidates and step = "schedule_pool_metadata_step chain",
        OF pool_metadata_step_issues, of "pending_pool_metadata_candidates (ks_pending_requests s)" s es]
    by (auto simp: schedule_unknown_canonical_pool_metadata_requests_def)
qed

lemma only_issues_token_metadata:
  "only_issues (schedule_unknown_canonical_token_metadata_requests chain candidates)"
proof (rule only_issuesI, goal_cases)
  case (1 s es)
  show ?case
    using fold_step_issues [where xs = candidates and step = "schedule_token_metadata_step chain",
        OF token_metadata_step_issues, of "pending_token_metadata_tokens (ks_pending_requests s)" s es]
    by (auto simp: schedule_unknown_canonical_token_metadata_requests_def)
qed

lemma only_issues_seeds: "only_issues (schedule_finalized_pool_seed_requests chain)"
proof (rule only_issuesI, goal_cases)
  case (1 s es)
  let ?p = "GetPoolData (anchor_hash (ks_graph s)) (set (take FINALIZED_POOL_SEED_CHUNK (seed_candidates chain s)))"
  obtain r es' where "issue pool_data_access PoolData ?p (s, es) = (s\<lparr>ks_pending_requests := r\<rparr>, es')"
    "issues (ks_pending_requests s, es) (r, es')"
    by (rule only_issuesE [OF issue_onlys(5)])
  then show ?case
    by (cases "has_pending_block_backfill (ks_pending_requests s) \<or> seed_candidates chain s = []")
       (auto simp: schedule_finalized_pool_seed_requests_def Let_def intro: exI [of _ "ks_pending_requests s"])
qed

lemma only_issues_probe: "only_issues (with_finality_probe_if_orphan_suspected h n)"
proof (rule only_issuesI, goal_cases)
  case (1 s es)
  obtain r es' where "issue canonical_header_access CanonicalHeader
      (GetCanonicalHeaderAtHeight (anchor_number (ks_graph s))) (s, es) = (s\<lparr>ks_pending_requests := r\<rparr>, es')"
    "issues (ks_pending_requests s, es) (r, es')"
    by (rule only_issuesE [OF issue_onlys(7)])
  then show ?case
    by (auto simp: with_finality_probe_if_orphan_suspected_def Let_def intro: exI [of _ "ks_pending_requests s"])
qed

lemma only_issues_schedule: "only_issues (schedule_unknown_canonical_requests B chain)"
proof (rule only_issuesI, goal_cases)
  case (1 s es)
  let ?f = "\<lambda>x. schedule_finalized_pool_seed_requests chain
      (schedule_unknown_canonical_token_metadata_requests chain (pool_log_candidates_from_head (ks_graph s))
        (schedule_unknown_canonical_pool_metadata_requests chain (pool_log_candidates_from_head (ks_graph s))
          (schedule_unknown_canonical_log_requests B chain (schedule_missing_header_requests x))))"
  have "only_issues ?f"
    by (intro only_issues_comp [OF _ only_issues_seeds] only_issues_comp [OF _ only_issues_token_metadata]
        only_issues_comp [OF _ only_issues_pool_metadata] only_issues_comp [OF _ only_issues_logs]
        only_issues_headers)
  then obtain r es' where f: "?f (s, es) = (s\<lparr>ks_pending_requests := r\<rparr>, es')"
    "issues (ks_pending_requests s, es) (r, es')"
    by (rule only_issuesE)
  have "only_issues (\<lambda>x. schedule_unknown_canonical_log_requests B chain (schedule_missing_header_requests x))"
    by (rule only_issues_comp [OF only_issues_headers only_issues_logs])
  then obtain r2 es2 where g: "schedule_unknown_canonical_log_requests B chain
      (schedule_missing_header_requests (s, es)) = (s\<lparr>ks_pending_requests := r2\<rparr>, es2)"
    by (rule only_issuesE)
  have "schedule_unknown_canonical_requests B chain (s, es) = ?f (s, es)"
    using g by (simp add: schedule_unknown_canonical_requests_def split_beta Let_def)
  with f show ?case by auto
qed

lemmas scheduler_issues = only_issues_schedule only_issues_probe only_issues_ranges only_issues_headers

end
