(* ===== verification/Machines.thy ===== *)
theory Machines
  imports Main
begin

text \<open>
  The contract between a transition function and whoever drives it: a set of starting states, a step
  that returns the next state and the effects, the events a driver may deliver, and an invariant that
  all of them keep. The drivers' loop is \<open>run\<close>, the effects it hands out are \<open>trace\<close>; every component
  with a transition of its own (the kernel, the bootstrap, the server, the multi-chain state) is an
  interpretation.
\<close>

locale state_machine =
  fixes start :: "'s \<Rightarrow> bool" and step :: "'s \<Rightarrow> 'e \<Rightarrow> 's \<times> 'o list" and valid :: "'e \<Rightarrow> bool"
    and inv :: "'s \<Rightarrow> bool"
  assumes inv_start: "start s \<Longrightarrow> inv s"
    and inv_step: "inv s \<Longrightarrow> valid e \<Longrightarrow> inv (fst (step s e))"
begin

fun run :: "'s \<Rightarrow> 'e list \<Rightarrow> 's" where
  "run s [] = s"
| "run s (e # es) = run (fst (step s e)) es"

fun trace :: "'s \<Rightarrow> 'e list \<Rightarrow> 'o list" where
  "trace s [] = []"
| "trace s (e # es) = snd (step s e) @ trace (fst (step s e)) es"

lemma run_append: "run s (es @ es') = run (run s es) es'"
  by (induction es arbitrary: s) simp_all

lemma trace_append: "trace s (es @ es') = trace s es @ trace (run s es) es'"
  by (induction es arbitrary: s) simp_all

lemma run_inv: "inv s \<Longrightarrow> list_all valid es \<Longrightarrow> inv (run s es)"
  by (induction es arbitrary: s) (simp_all add: inv_step)

lemma run_from_start: "start s \<Longrightarrow> list_all valid es \<Longrightarrow> inv (run s es)"
  by (rule run_inv [OF inv_start])

text \<open>What every step's effects satisfy under the invariant, all effects of a run satisfy.\<close>

lemma trace_all:
  assumes "inv s" "list_all valid es" and "\<And>s e. inv s \<Longrightarrow> valid e \<Longrightarrow> list_all P (snd (step s e))"
  shows "list_all P (trace s es)"
  using assms(1,2) by (induction es arbitrary: s) (simp_all add: assms(3) inv_step)

text \<open>What a step never takes away is still there after any run.\<close>

lemma run_keeps:
  assumes "P s" and "\<And>s e. P s \<Longrightarrow> P (fst (step s e))"
  shows "P (run s es)"
  using assms(1) by (induction es arbitrary: s) (simp_all add: assms(2))

text \<open>Events that leave the state alone can be dropped from a run.\<close>

lemma run_stutter: "(\<And>e. e \<in> set es \<Longrightarrow> fst (step s e) = s) \<Longrightarrow> run s es = s"
  by (induction es) simp_all

lemma trace_stutter:
  "(\<And>e. e \<in> set es \<Longrightarrow> fst (step s e) = s) \<Longrightarrow> trace s es = concat (map (\<lambda>e. snd (step s e)) es)"
  by (induction es) simp_all

end

end
