(* ===== verification/KernelLaws.thy ===== *)
theory KernelLaws
  imports Scheduling Machines
begin

text \<open>
  The invariant of the kernel state and its preservation by every event; the reachable states; the
  claim carried by \<open>Inert\<close>; the ledger across a transition.
\<close>

section \<open>The invariant\<close>

definition staging_ok :: "kernel_state \<Rightarrow> bool" where
  "staging_ok s \<longleftrightarrow> hm_wf (ks_streamed_logs s) \<and> length (ks_streamed_logs s) \<le> MAX_STREAMED_LOG_BLOCKS \<and>
     (\<forall>h. hm_contains (ks_streamed_logs s) h \<longrightarrow> \<not> graph_contains (ks_graph s) h) \<and>
     (\<forall>logs \<in> snd ` set (ks_streamed_logs s). bm_wf logs)"

text \<open>
  Live admission is capped per chain, the bootstrap seed at the flat \<open>MAX_PENDING_BLOCKS\<close>.
\<close>

definition pending_bound :: "chain_key \<Rightarrow> nat" where
  "pending_bound chain = max MAX_PENDING_BLOCKS (max_pending_blocks chain)"

definition kernel_ok :: "chain_key \<Rightarrow> kernel_state \<Rightarrow> bool" where
  "kernel_ok chain s \<longleftrightarrow> graph_ok (ks_graph s) \<and> pending_count (ks_graph s) \<le> pending_bound chain \<and>
     hm_wf (ks_snapshot s) \<and> pool_registry_inv chain (ks_pool_registry s) \<and>
     token_registry_inv (ks_token_registry s) \<and> staging_ok s"

lemma kernel_okD:
  assumes "kernel_ok chain s"
  shows "graph_ok (ks_graph s)" and "pending_count (ks_graph s) \<le> pending_bound chain"
    and "hm_wf (ks_snapshot s)" and "pool_registry_inv chain (ks_pool_registry s)"
    and "token_registry_inv (ks_token_registry s)" and "staging_ok s"
  using assms by (simp_all add: kernel_ok_def)

lemma kernel_ok_requests [simp]:
  "kernel_ok chain (s\<lparr>ks_pending_requests := r\<rparr>) \<longleftrightarrow> kernel_ok chain s"
  "kernel_ok chain (s\<lparr>ks_tick := t\<rparr>) \<longleftrightarrow> kernel_ok chain s"
  "kernel_ok chain (s\<lparr>ks_ws_miss_count := c\<rparr>) \<longleftrightarrow> kernel_ok chain s"
  by (simp_all add: kernel_ok_def staging_ok_def)

section \<open>Pending blocks stay bounded\<close>

lemma pending_count_entries: "pending_count g = pending_entries (bg_nodes g)"
  by (simp add: pending_count_def pending_entries_def)

lemma promote_children_frontier: "length frontier \<le> length (snd (promote_children h cs nodes frontier))"
proof (induction cs arbitrary: nodes frontier)
  case (Cons c cs)
  show ?case
  proof (cases "\<exists>p d. map_of nodes c = Some (Pending p d)")
    case True
    then obtain p d where c: "map_of nodes c = Some (Pending p d)" by blast
    show ?thesis
      unfolding promote_children_pending [OF c] by (rule order_trans [OF _ Cons]) simp
  next
    case False
    show ?thesis unfolding promote_children_skip [OF False] by (rule Cons)
  qed
qed simp

lemma promote_loop_pending: "pending_entries (promote_loop nodes frontier) \<le> pending_entries nodes"
proof (induction nodes frontier rule: promote_loop.induct)
  case (2 nodes h frontier)
  obtain ns fr where pc: "promote_children h (pending_children nodes h) nodes frontier = (ns, fr)"
    by (cases "promote_children h (pending_children nodes h) nodes frontier")
  have "pending_entries ns \<le> pending_entries nodes"
    using promote_children_measure [of h "pending_children nodes h" nodes frontier]
      promote_children_frontier [of frontier h "pending_children nodes h" nodes] by (simp add: pc)
  with 2 [OF pc [symmetric] refl] pc show ?case by simp
qed simp

lemma pending_entries_update: "map_of nodes h = None \<Longrightarrow>
    pending_entries (AList.update h n nodes) = pending_entries nodes + (if is_pending_node n then 1 else 0)"
  by (cases n) (simp_all add: update_new)

lemma pending_count_admit:
  assumes "with_data_capped g h parent data cap = (g', outcome)"
  shows "pending_count g' \<le> max cap (pending_count g)"
  using assms
proof (cases rule: admit_branches)
  case refused
  then show ?thesis by simp
next
  case conn
  have "pending_count g' \<le> pending_entries
      (AList.update h (Connected (if parent = ai_hash (bg_anchor g) then Anchor else Block parent) data) (bg_nodes g))"
    unfolding conn(6) promote_reachable_def pending_count_entries
    by (simp add: promote_loop_pending del: promote_loop.simps)
  also have "\<dots> = pending_entries (bg_nodes g)"
    using conn(3) by (simp add: pending_entries_update)
  finally show ?thesis by (simp add: pending_count_entries)
next
  case pend
  then show ?thesis by (simp add: pending_count_entries pending_entries_update)
qed

lemma pending_count_from_seed: "pending_count (from_seed a n blocks) \<le> MAX_PENDING_BLOCKS"
proof -
  have "pending_count g \<le> MAX_PENDING_BLOCKS \<Longrightarrow>
    pending_count (fold (\<lambda>(h, parent, number, logs) g.
         fst (with_data_capped g h parent
           \<lparr>bd_number = number, bd_logs_bloom = None, bd_logs = Complete (key_by_log_index logs)\<rparr>
           MAX_PENDING_BLOCKS)) blocks g) \<le> MAX_PENDING_BLOCKS" for g
  proof (induction blocks arbitrary: g)
    case (Cons b blocks)
    obtain h p m logs where b: "b = (h, p, m, logs)" by (cases b)
    have "pending_count (fst (with_data_capped g h p
        \<lparr>bd_number = m, bd_logs_bloom = None, bd_logs = Complete (key_by_log_index logs)\<rparr> MAX_PENDING_BLOCKS))
        \<le> MAX_PENDING_BLOCKS"
      using pending_count_admit [OF surjective_pairing, of g h p _ MAX_PENDING_BLOCKS] Cons.prems
      by (meson max.bounded_iff order_trans order_refl)
    with Cons.IH show ?case by (simp add: b)
  qed simp
  then show ?thesis by (simp add: from_seed_def graph_new_def pending_count_def)
qed

lemma is_pending_map_data [simp]: "is_pending_node (map_node_data f n) = is_pending_node n"
  by (cases n) simp_all

lemma pending_count_update_data [simp]: "pending_count (update_block_data g h f) = pending_count g"
proof -
  have "pending_entries (AList.map_entry h (map_node_data f) ns) = pending_entries ns" for ns
    by (induction ns) (auto simp: pending_entries_def)
  then show ?thesis by (simp add: pending_count_entries update_block_data_def)
qed

lemma contains_update_data [simp]: "graph_contains (update_block_data g h f) k = graph_contains g k"
  by (simp add: graph_contains_def hm_contains_def map_of_update_data)

lemma contains_flat: "graph_contains g h \<longleftrightarrow> flat g h \<noteq> None"
  by (simp add: graph_contains_def hm_contains_def flat_def)

lemma contains_admit:
  assumes "graph_ok g" and "with_data_capped g h parent data cap = (g', outcome)"
  shows "graph_contains g' k \<longleftrightarrow> graph_contains g k \<or> outcome = Admitted \<and> k = h"
  using admit_cases [OF assms] by (cases "outcome = Admitted") (auto simp: contains_flat)

lemma pending_count_reanchor:
  assumes "reanchors g na base verified g' s'"
  shows "pending_count g' = 0"
proof -
  have "\<not> is_pending_node (reroot_node na n)" if "(h, n) \<in> set (bg_nodes g)" "h \<in> retained_nodes (bg_nodes g) na" for h n
  proof -
    have "map_of (bg_nodes g) h = Some n"
      using that(1) reanchorsD(1) [OF assms] by (simp add: graph_ok_def hm_wf_in_set)
    moreover have "connected g h \<noteq> None"
      using that(2) retained_iff [OF reanchorsD(1) [OF assms]] by blast
    ultimately obtain r d where "n = Connected r d" by (auto simp: connected_def is_conn_def)
    then show ?thesis by (cases r) auto
  qed
  then show ?thesis
    by (auto simp: pending_count_def new_graph(2) [OF assms] filter_empty_conv)
qed

section \<open>Preservation by the parts of a transition\<close>

lemma kernel_ok_map_update:
  assumes "kernel_ok chain s"
  shows "kernel_ok chain (map_graph (\<lambda>g. update_block_data g h f) s)"
  using assms by (simp add: kernel_ok_def staging_ok_def map_graph_def graph_ok_update_data)

lemma kernel_ok_with_log_streamed: "kernel_ok chain s \<Longrightarrow> kernel_ok chain (with_log_streamed s h logs)"
  by (simp add: with_log_streamed_def with_streamed_logs_def kernel_ok_map_update)

lemma kernel_ok_with_log_complete: "kernel_ok chain s \<Longrightarrow> kernel_ok chain (with_log_complete s h logs)"
  using kernel_ok_map_update [of chain s h "\<lambda>data. data\<lparr>bd_logs := Complete (key_by_log_index logs)\<rparr>"]
  by (simp add: with_log_complete_def with_complete_logs_def Let_def map_graph_def)

lemma length_update_old: "map_of m k \<noteq> None \<Longrightarrow> length (AList.update k v m) = length m"
  by (induction m) auto

lemma values_update: "snd ` set (AList.update k v m) \<subseteq> insert v (snd ` set m)"
  by (induction m) auto

lemma kernel_ok_buffered:
  assumes ok: "kernel_ok chain s" and fresh: "\<not> graph_contains (ks_graph s) h"
  shows "kernel_ok chain (with_streamed_logs_buffered s h logs)"
proof -
  let ?m = "ks_streamed_logs s"
  have st: "staging_ok s" using ok by (rule kernel_okD)
  have old: "bm_wf (case map_of ?m h of None \<Rightarrow> [] | Some staged \<Rightarrow> staged)"
  proof (cases "map_of ?m h")
    case (Some staged)
    then have "staged \<in> snd ` set ?m" by (metis map_of_SomeD image_eqI snd_conv)
    with st have "bm_wf staged" unfolding staging_ok_def by blast
    with Some show ?thesis by simp
  qed simp
  let ?m' = "AList.update h (bm_extend (case map_of ?m h of None \<Rightarrow> [] | Some staged \<Rightarrow> staged)
      (key_by_log_index logs)) ?m"
  have len: "length ?m' \<le> MAX_STREAMED_LOG_BLOCKS"
    if "\<not> (length ?m \<ge> MAX_STREAMED_LOG_BLOCKS \<and> \<not> hm_contains ?m h)"
  proof (cases "hm_contains ?m h")
    case True
    then have "length ?m' = length ?m"
      by (simp add: length_update_old hm_contains_def)
    then show ?thesis using st by (simp add: staging_ok_def)
  next
    case False
    then have "length ?m' = Suc (length ?m)" by (simp add: hm_contains_def)
    with that False show ?thesis by simp
  qed
  have vals: "\<forall>l \<in> snd ` set ?m'. bm_wf l"
  proof
    fix l assume "l \<in> snd ` set ?m'"
    then have "l = bm_extend (case map_of ?m h of None \<Rightarrow> [] | Some staged \<Rightarrow> staged) (key_by_log_index logs) \<or>
        l \<in> snd ` set ?m"
      using subsetD [OF values_update] by fast
    then show "bm_wf l" using st bm_wf_extend [OF old] unfolding staging_ok_def by fast
  qed
  show ?thesis
  proof (cases "length ?m \<ge> MAX_STREAMED_LOG_BLOCKS \<and> \<not> hm_contains ?m h")
    case True
    with ok show ?thesis by (simp add: with_streamed_logs_buffered_def)
  next
    case False
    have "staging_ok (s\<lparr>ks_streamed_logs := ?m'\<rparr>)"
      unfolding staging_ok_def using st fresh len [OF False] vals
      by (auto simp: staging_ok_def hm_contains_def simp del: ball_simps)
    moreover have "with_streamed_logs_buffered s h logs = s\<lparr>ks_streamed_logs := ?m'\<rparr>"
      unfolding with_streamed_logs_buffered_def by (rule if_not_P [OF False])
    ultimately show ?thesis using ok by (simp add: kernel_ok_def)
  qed
qed

text \<open>
  Between an admission and the drain, the staged logs may still name the block just admitted.
\<close>

definition kernel_ok_upto :: "chain_key \<Rightarrow> kernel_state \<Rightarrow> block_hash \<Rightarrow> bool" where
  "kernel_ok_upto chain s h \<longleftrightarrow> graph_ok (ks_graph s) \<and> pending_count (ks_graph s) \<le> pending_bound chain \<and>
     hm_wf (ks_snapshot s) \<and> pool_registry_inv chain (ks_pool_registry s) \<and>
     token_registry_inv (ks_token_registry s) \<and> hm_wf (ks_streamed_logs s) \<and>
     length (ks_streamed_logs s) \<le> MAX_STREAMED_LOG_BLOCKS \<and>
     (\<forall>k. hm_contains (ks_streamed_logs s) k \<longrightarrow> k = h \<or> \<not> graph_contains (ks_graph s) k) \<and>
     (\<forall>logs \<in> snd ` set (ks_streamed_logs s). bm_wf logs)"

lemma kernel_ok_drained:
  assumes "kernel_ok_upto chain s h"
  shows "kernel_ok chain (with_streamed_logs_drained s h)"
proof (cases "graph_contains (ks_graph s) h")
  case False
  with assms show ?thesis
    by (auto simp: with_streamed_logs_drained_def kernel_ok_def staging_ok_def kernel_ok_upto_def)
next
  case True
  show ?thesis
  proof (cases "map_of (ks_streamed_logs s) h")
    case None
    with assms True show ?thesis
      by (auto simp: with_streamed_logs_drained_def kernel_ok_def staging_ok_def kernel_ok_upto_def hm_contains_def)
  next
    case (Some logs)
    have sub: "set (AList.delete h (ks_streamed_logs s)) \<subseteq> set (ks_streamed_logs s)"
      by (auto simp: AList.delete_eq)
    have "kernel_ok chain (s\<lparr>ks_streamed_logs := AList.delete h (ks_streamed_logs s)\<rparr>)"
      using assms sub AList.length_delete_le [of h "ks_streamed_logs s"]
      by (auto simp: kernel_ok_def staging_ok_def kernel_ok_upto_def hm_contains_def intro: order_trans)
    from kernel_ok_with_log_streamed [OF this] True Some show ?thesis
      by (simp add: with_streamed_logs_drained_def)
  qed
qed

lemma kernel_ok_upto_admit:
  assumes ok: "kernel_ok chain s"
    and res: "with_block_capped (ks_graph s) h parent n b (max_pending_blocks chain) = (g', outcome)"
    and g: "g = g' \<or> g = with_observed_head g' h"
  shows "kernel_ok_upto chain (map_graph (\<lambda>_. g) s) h"
proof -
  note res' = res [unfolded with_block_capped_def]
  have ok': "graph_ok g'" using admit_ok [OF kernel_okD(1) [OF ok] res'] .
  then have "graph_ok g" using g by (auto intro: graph_ok_with_observed_head)
  moreover have "pending_count g = pending_count g'" "graph_contains g k = graph_contains g' k" for k
    using g by (auto simp: with_observed_head_def pending_count_def graph_contains_def split: if_splits)
  ultimately show ?thesis
    using ok pending_count_admit [OF res'] contains_admit [OF kernel_okD(1) [OF ok] res']
    by (auto simp: kernel_ok_upto_def kernel_ok_def staging_ok_def map_graph_def pending_bound_def)
qed

lemma kernel_ok_head_observed:
  assumes "kernel_ok chain s"
  shows "kernel_ok chain (fst (with_log_head_observed s h parent n b (max_pending_blocks chain)))"
proof -
  obtain g' outcome where res:
    "with_block_capped (ks_graph s) h parent n b (max_pending_blocks chain) = (g', outcome)" by fastforce
  show ?thesis
    unfolding with_log_head_observed_def res
    by (auto intro!: kernel_ok_drained kernel_ok_upto_admit [OF assms res])
qed

lemma kernel_ok_header_received:
  assumes "kernel_ok chain s"
  shows "kernel_ok chain (with_log_header_received s h parent n b (max_pending_blocks chain))"
proof -
  obtain g' outcome where res:
    "with_block_capped (ks_graph s) h parent n b (max_pending_blocks chain) = (g', outcome)" by fastforce
  have "map_graph (\<lambda>g. fst (with_block_capped g h parent n b (max_pending_blocks chain))) s = map_graph (\<lambda>_. g') s"
    by (simp add: map_graph_def res)
  then show ?thesis
    unfolding with_log_header_received_def
    using kernel_ok_drained [OF kernel_ok_upto_admit [OF assms res disjI1 [OF refl]]] by simp
qed

lemma hm_wf_seed_results: "hm_wf m \<Longrightarrow> hm_wf (fold seed_result results m)"
  by (induction results arbitrary: m) (auto simp: seed_result_def split: sum.splits)

lemma kernel_ok_seeds: "kernel_ok chain s \<Longrightarrow> kernel_ok chain (with_finalized_pool_seeds s at results)"
  by (auto simp: with_finalized_pool_seeds_def blocks_with_finalized_pool_seeds_def kernel_ok_def staging_ok_def
      hm_wf_seed_results)

lemma kernel_ok_finalized:
  assumes ok: "kernel_ok chain s"
  shows "kernel_ok chain (with_finalized_block_observed B s chain h)"
proof -
  obtain g' s' where res: "finalized_to B (ks_graph s) h (ks_snapshot s)
      (verified_pools (ks_pool_registry s) chain) (pool_manager_address chain) = (g', s')" by fastforce
  note g = kernel_okD(1) [OF ok]
  from g res show ?thesis
  proof (cases rule: finalized_to_cases)
    case stay
    with ok show ?thesis
      by (simp add: with_finalized_block_observed_def res kernel_ok_def staging_ok_def)
  next
    case (advance na)
    have "anchor_hash g' \<noteq> anchor_hash (ks_graph s)"
      using na_not_anchor [OF advance(1)] by (simp add: anchor_hash_def new_graph(1) [OF advance(1)])
    then show ?thesis
      using ok graph_ok_finalized_to [OF g res] hm_wf_finalized_to [OF g res] pending_count_reanchor [OF advance(1)]
      by (simp add: with_finalized_block_observed_def res kernel_ok_def staging_ok_def hm_contains_def)
  qed
qed

lemma kernel_ok_activate:
  assumes "hm_wf snapshots" and "pool_registry_inv chain pools" and "token_registry_inv tokens"
  shows "kernel_ok chain (fst (activate_from_seed h n snapshots pools tokens blocks))"
  using assms pending_count_from_seed [of h n blocks] graph_ok_from_seed [of h n blocks]
  by (simp add: activate_from_seed_def split_beta Let_def kernel_ok_def staging_ok_def pending_bound_def
      hm_contains_def max.coboundedI1)

lemma pending_count_new [simp]: "pending_count (graph_new h n) = 0"
  by (simp add: pending_count_def graph_new_def)

lemma registry_new_inv [simp]:
  "pool_registry_inv chain pool_registry_new" "token_registry_inv token_registry_new"
  by (simp_all add: pool_registry_inv_def pool_registry_new_def token_registry_inv_def token_registry_new_def hm_wf_def)

lemma kernel_ok_init [simp]: "kernel_ok chain (init h n)"
  by (simp add: init_def kernel_ok_def staging_ok_def blocks_new_def
      pool_registry_inv_def pool_registry_new_def token_registry_inv_def token_registry_new_def hm_contains_def)

lemma kernel_ok_only_issues: "only_issues f \<Longrightarrow> kernel_ok chain s \<Longrightarrow> kernel_ok chain (fst (f (s, es)))"
  using only_issuesD [of f s es] by auto

lemma kernel_ok_apply_range: "kernel_ok chain s \<Longrightarrow> kernel_ok chain (apply_range received covered s)"
proof -
  have one: "kernel_ok chain s \<Longrightarrow> kernel_ok chain (fold (\<lambda>(h, logs) s. with_log_complete s h logs) xs s)" for xs s
    by (induction xs arbitrary: s) (auto intro: kernel_ok_with_log_complete split: prod.splits)
  have two: "kernel_ok chain s \<Longrightarrow> kernel_ok chain (fold (\<lambda>h s. if P h then with_log_complete s h [] else s) xs s)" for P xs s
    by (induction xs arbitrary: s) (auto intro: kernel_ok_with_log_complete)
  assume "kernel_ok chain s"
  then show ?thesis by (simp add: apply_range_def Let_def one two)
qed

lemma kernel_ok_accept_pool: "kernel_ok chain s \<Longrightarrow> kernel_ok chain (accept_pool_metadata chain metadata p s)"
  by (simp add: accept_pool_metadata_def kernel_ok_def staging_ok_def pool_results_apply_all pools.all_inv)

lemma kernel_ok_accept_token: "kernel_ok chain s \<Longrightarrow> kernel_ok chain (accept_token_metadata metadata p s)"
  by (simp add: accept_token_metadata_def kernel_ok_def staging_ok_def token_results_apply_all tokens.all_inv)

lemma kernel_ok_answer:
  assumes "kernel_ok chain s" and "\<And>p s. kernel_ok chain s \<Longrightarrow> kernel_ok chain (respond p s)"
  shows "kernel_ok chain (fst (answer B chain A s i respond))"
  using assms kernel_ok_only_issues [OF only_issues_schedule]
  by (auto simp: answer_def split_beta Let_def split: option.splits)

lemma kernel_ok_canonical_header:
  "kernel_ok chain s \<Longrightarrow> kernel_ok chain (fst (canonical_header_received s i h n))"
  by (auto simp: canonical_header_received_def split_beta Let_def intro: kernel_ok_activate dest: kernel_okD)

lemma progress_result [simp]: "outcome_result (progress x) = x"
  by (cases x) simp

lemma kernel_ok_head_arm:
  assumes "kernel_ok chain s"
  shows "kernel_ok chain (fst (outcome_result (head_observed B chain s h parent b n)))"
proof -
  obtain s' adm where res: "with_log_head_observed s h parent n b (max_pending_blocks chain) = (s', adm)" by fastforce
  have ok': "kernel_ok chain s'" using kernel_ok_head_observed [OF assms, of h parent n b] by (simp add: res)
  then have "kernel_ok chain (fst (with_finality_probe_if_orphan_suspected h n
      (schedule_unknown_canonical_requests B chain (s', []))))"
    using kernel_ok_only_issues [OF only_issues_comp [OF only_issues_schedule only_issues_probe]] by blast
  with ok' show ?thesis
    by (auto simp: head_observed_def res split_beta Let_def)
qed

lemma kernel_ok_header_arm:
  assumes "kernel_ok chain s"
  shows "kernel_ok chain (fst (header_received B chain s i h parent b n))"
proof -
  let ?s = "with_log_header_received s h parent n b (max_pending_blocks chain)"
  have ok': "kernel_ok chain (?s\<lparr>ks_pending_requests := r\<rparr>)" for r
    using kernel_ok_header_received [OF assms] by simp
  have follow: "kernel_ok chain (fst (with_finality_probe_if_orphan_suspected h n
      (schedule_unknown_canonical_requests B chain (t, es))))" if "kernel_ok chain t" for t es
    using kernel_ok_only_issues [OF only_issues_comp [OF only_issues_schedule only_issues_probe] that] .
  have reissue: "kernel_ok chain (fst (with_finality_probe_if_orphan_suspected h n
      (schedule_unknown_canonical_requests B chain
        (issue block_headers_access BlockHeader p (?s\<lparr>ks_pending_requests := r\<rparr>, es)))))" for p r es
    using kernel_ok_only_issues [OF only_issues_comp [OF issue_onlys(1)
          only_issues_comp [OF only_issues_schedule only_issues_probe]] ok'] .
  show ?thesis
    by (simp add: header_received_def split_beta Let_def follow ok' reissue kernel_ok_header_received [OF assms]
        split: option.split)
qed

lemma transition_kernel_ok:
  assumes "kernel_ok chain s"
  shows "kernel_ok chain (fst (transition B chain s e))"
  unfolding transition_def
proof (cases e)
  case (HeadObserved h parent b n)
  with kernel_ok_head_arm [OF assms]
  show "kernel_ok chain (fst (outcome_result (transition_outcome B chain s e)))" by simp
next
  case (FinalizedBlockObserved h n)
  with kernel_ok_only_issues [OF only_issues_ranges kernel_ok_finalized [OF assms]]
  show "kernel_ok chain (fst (outcome_result (transition_outcome B chain s e)))" by simp
next
  case (BlockHeaderReceived i h parent b n)
  with kernel_ok_header_arm [OF assms]
  show "kernel_ok chain (fst (outcome_result (transition_outcome B chain s e)))" by simp
next
  case (LogObserved h logs)
  with assms kernel_ok_only_issues [OF only_issues_schedule kernel_ok_with_log_streamed [OF assms]]
  show "kernel_ok chain (fst (outcome_result (transition_outcome B chain s e)))"
    by (simp add: kernel_ok_buffered)
next
  case (TickEvent)
  with assms show "kernel_ok chain (fst (outcome_result (transition_outcome B chain s e)))"
    by (simp add: split_beta Let_def kernel_ok_def staging_ok_def)
qed (use assms in \<open>auto simp: split_beta Let_def intro!: kernel_ok_canonical_header kernel_ok_answer
      kernel_ok_with_log_complete kernel_ok_apply_range kernel_ok_accept_pool kernel_ok_accept_token kernel_ok_seeds\<close>)

section \<open>Inert transitions\<close>

lemma map_graph_same: "map_graph (\<lambda>_. ks_graph s) s = s"
  by (simp add: map_graph_def)

lemma duplicate_refused:
  "with_block_capped g h parent n b cap = (g', outcome) \<Longrightarrow> outcome = DuplicateBlock \<Longrightarrow>
     g' = g \<and> graph_contains g h"
  by (auto simp: with_block_capped_def with_data_capped_def Let_def graph_contains_def hm_contains_def
      split: if_splits option.splits)

lemma inert_same:
  assumes ok: "kernel_ok chain s" and inert: "transition_outcome B chain s e = Inert s'"
  shows "s' = s"
proof -
  from inert obtain h parent b n where e: "e = HeadObserved h parent b n"
    by (cases e) (auto simp: split_beta Let_def split: if_splits dest: progress.elims)
  obtain g' outcome where adm:
    "with_block_capped (ks_graph s) h parent n b (max_pending_blocks chain) = (g', outcome)" by fastforce
  have "outcome = DuplicateBlock" "h = bg_observed_head (ks_graph s)"
    and s': "s' = with_streamed_logs_drained (map_graph (\<lambda>_. with_observed_head g' h) s) h"
    using inert unfolding e
    by (auto simp: head_observed_def with_log_head_observed_def adm split_beta Let_def split: if_splits
        dest: progress.elims)
  note dup = duplicate_refused [OF adm this(1)]
  have "with_observed_head g' h = ks_graph s"
    using dup \<open>h = _\<close> by (simp add: with_observed_head_def)
  then have "s' = with_streamed_logs_drained s h" using s' map_graph_same by simp
  moreover have "map_of (ks_streamed_logs s) h = None"
    using kernel_okD(6) [OF ok] dup by (auto simp: staging_ok_def hm_contains_def)
  ultimately show ?thesis by (simp add: with_streamed_logs_drained_def)
qed

section \<open>The ledger across a transition\<close>

lemma coll_ok_retaining: "requests_ok r \<Longrightarrow> requests_ok (retaining_block_targets r hs)"
  by (simp add: requests_ok_def retaining_block_targets_def coll_ok_retain)

lemma retaining_ids [simp]: "rq_ids (retaining_block_targets r hs) = rq_ids r"
  by (simp add: retaining_block_targets_def)

lemma requests_ok_new [simp]: "requests_ok pending_requests_new"
  by (simp add: requests_ok_def pending_requests_new_def)

definition all_in_flight :: "pending_requests \<Rightarrow> effect list \<Rightarrow> bool" where
  "all_in_flight r es \<longleftrightarrow> (\<forall>e \<in> set es. issued_payload (effect_request e) \<in># in_flight r)"

lemma issues_in_flight:
  assumes "issues (r, []) (r', es)" and "requests_ok r" and "uint (rq_ids r) + int (length es) < 2 ^ 64"
  shows "requests_ok r' \<and> all_in_flight r' es"
  using issues_spec [OF assms(1)] assms(2,3) by (auto simp: all_in_flight_def)

lemma only_issues_in_flight:
  assumes "only_issues f" and "f (s, []) = (s', es)" and "requests_ok (ks_pending_requests s)"
    and "uint (rq_ids (ks_pending_requests s)) + int (length es) < 2 ^ 64"
  shows "requests_ok (ks_pending_requests s') \<and> all_in_flight (ks_pending_requests s') es"
proof -
  from only_issuesD [OF assms(1), of s "[]"] assms(2) obtain r where
    "s' = s\<lparr>ks_pending_requests := r\<rparr>" "issues (ks_pending_requests s, []) (r, es)" by auto
  with issues_in_flight [OF this(2) assms(3,4)] show ?thesis by simp
qed

lemmas take_oks = block_headers.take_ok block_logs.take_ok pool_metadata.take_ok token_metadata.take_ok
  pool_data.take_ok logs_range.take_ok canonical_header.take_ok

lemmas take_ids_fields = block_headers.take_ids_field block_logs.take_ids_field pool_metadata.take_ids_field
  token_metadata.take_ids_field pool_data.take_ids_field logs_range.take_ids_field
  canonical_header.take_ids_field

lemma drained_requests [simp]: "ks_pending_requests (with_streamed_logs_drained s h) = ks_pending_requests s"
  by (simp add: with_streamed_logs_drained_def with_log_streamed_def map_graph_def split: option.splits)

lemma log_complete_requests [simp]: "ks_pending_requests (with_log_complete s h logs) = ks_pending_requests s"
  by (simp add: with_log_complete_def map_graph_def split_beta Let_def)

lemma apply_range_requests [simp]: "ks_pending_requests (apply_range xs cs s) = ks_pending_requests s"
proof -
  have "ks_pending_requests (fold (\<lambda>(h, logs) s. with_log_complete s h logs) xs s) = ks_pending_requests s" for xs s
    by (induction xs arbitrary: s) (auto split: prod.splits)
  moreover have "ks_pending_requests (fold (\<lambda>h s. if P h then with_log_complete s h [] else s) ys s) =
      ks_pending_requests s" for P ys s
    by (induction ys arbitrary: s) auto
  ultimately show ?thesis by (simp add: apply_range_def Let_def)
qed

lemma feed_requests [simp]:
  "ks_pending_requests (with_log_streamed s h logs) = ks_pending_requests s"
  "ks_pending_requests (with_streamed_logs_buffered s h logs) = ks_pending_requests s"
  "ks_pending_requests (fst (with_log_head_observed s h p n b cap)) = ks_pending_requests s"
  "ks_pending_requests (with_log_header_received s h p n b cap) = ks_pending_requests s"
  "ks_pending_requests (with_finalized_pool_seeds s at results) = ks_pending_requests s"
  "ks_pending_requests (accept_pool_metadata chain pm gp s) = ks_pending_requests s"
  "ks_pending_requests (accept_token_metadata tm gt s) = ks_pending_requests s"
  by (simp_all add: with_log_streamed_def with_streamed_logs_buffered_def with_log_head_observed_def
      with_log_header_received_def with_finalized_pool_seeds_def accept_pool_metadata_def
      accept_token_metadata_def map_graph_def split_beta Let_def)

lemma finalized_requests:
  "requests_ok (ks_pending_requests s) \<Longrightarrow>
     requests_ok (ks_pending_requests (with_finalized_block_observed B s chain h)) \<and>
     rq_ids (ks_pending_requests (with_finalized_block_observed B s chain h)) = rq_ids (ks_pending_requests s)"
  by (simp add: with_finalized_block_observed_def split_beta Let_def coll_ok_retaining)

lemma activate_issues:
  "issues (pending_requests_new, [])
     (ks_pending_requests (fst (activate_from_seed h n sn ps ts bs)), snd (activate_from_seed h n sn ps ts bs))"
proof -
  have "issues x (fold (\<lambda>m. issue_effect block_headers_access BlockHeader t (GetBlockHeader m)) ms x)" for ms t x
  proof (induction ms arbitrary: x)
    case (Cons m ms)
    show ?case
      using issues_trans [OF Cons issues_step [OF issues_refl issue_step.intros(1)]] by (simp add: comp_def)
  qed simp
  then show ?thesis
    by (simp add: activate_from_seed_def split_beta Let_def)
qed

lemma activate_in_flight:
  assumes "int (length (snd (activate_from_seed h n sn ps ts bs))) < 2 ^ 64"
  shows "requests_ok (ks_pending_requests (fst (activate_from_seed h n sn ps ts bs))) \<and>
    all_in_flight (ks_pending_requests (fst (activate_from_seed h n sn ps ts bs)))
      (snd (activate_from_seed h n sn ps ts bs))"
  by (rule issues_in_flight [OF activate_issues])
     (use assms in \<open>simp_all add: pending_requests_new_def ids_new_def requests_ok_def\<close>)

lemma schedule_in_flight:
  assumes "only_issues f" and "requests_ok (ks_pending_requests s)"
    and "rq_ids (ks_pending_requests s) = n" and "uint n + int (length (snd (f (s, [])))) < 2 ^ 64"
  shows "requests_ok (ks_pending_requests (fst (f (s, [])))) \<and>
    all_in_flight (ks_pending_requests (fst (f (s, [])))) (snd (f (s, [])))"
proof (rule only_issues_in_flight [OF assms(1)])
  show "f (s, []) = (fst (f (s, [])), snd (f (s, [])))" by simp
  show "uint (rq_ids (ks_pending_requests s)) + int (length (snd (f (s, [])))) < 2 ^ 64"
    using assms(4) unfolding assms(3) .
qed (rule assms(2))

lemma answer_in_flight:
  assumes take: "requests_ok (fst (take_request A (ks_pending_requests s) i))"
      "rq_ids (fst (take_request A (ks_pending_requests s) i)) = rq_ids (ks_pending_requests s)"
    and keep: "\<And>p s. ks_pending_requests (respond p s) = ks_pending_requests s"
    and room: "uint (rq_ids (ks_pending_requests s)) + int (length (snd (answer B chain A s i respond))) < 2 ^ 64"
  shows "requests_ok (ks_pending_requests (fst (answer B chain A s i respond))) \<and>
    all_in_flight (ks_pending_requests (fst (answer B chain A s i respond))) (snd (answer B chain A s i respond))"
proof (cases "snd (take_request A (ks_pending_requests s) i)")
  case None
  then show ?thesis using take by (simp add: answer_def split_beta Let_def all_in_flight_def)
next
  case (Some p)
  let ?s = "respond (pp_payload p) (s\<lparr>ks_pending_requests := fst (take_request A (ks_pending_requests s) i)\<rparr>)"
  have eq: "answer B chain A s i respond = schedule_unknown_canonical_requests B chain (?s, [])"
    using Some by (simp add: answer_def split_beta Let_def)
  show ?thesis
    using schedule_in_flight [OF only_issues_schedule, of ?s "rq_ids (ks_pending_requests s)" B chain] take room
    by (simp add: eq keep)
qed

lemma header_received_in_flight:
  assumes "requests_ok (ks_pending_requests s)"
    and room: "uint (rq_ids (ks_pending_requests s)) + int (length (snd (header_received B chain s i h p b n))) < 2 ^ 64"
  shows "requests_ok (ks_pending_requests (fst (header_received B chain s i h p b n))) \<and>
    all_in_flight (ks_pending_requests (fst (header_received B chain s i h p b n)))
      (snd (header_received B chain s i h p b n))"
proof -
  let ?s0 = "with_log_header_received s h p n b (max_pending_blocks chain)"
  let ?r = "fst (take_request block_headers_access (ks_pending_requests s) i)"
  let ?s = "?s0\<lparr>ks_pending_requests := ?r\<rparr>"
  let ?rest = "\<lambda>x. with_finality_probe_if_orphan_suspected h n (schedule_unknown_canonical_requests B chain x)"
  have rest: "only_issues ?rest" by (rule only_issues_comp [OF only_issues_schedule only_issues_probe])
  have r: "requests_ok ?r" "rq_ids ?r = rq_ids (ks_pending_requests s)"
    using assms(1) take_oks(1) take_ids_fields(1) by simp_all
  consider "header_received B chain s i h p b n = ?rest (?s, [])"
    | payload where "header_received B chain s i h p b n = ?rest (issue block_headers_access BlockHeader payload (?s, []))"
  proof -
    have "header_received B chain s i h p b n = ?rest
        (case snd (take_request block_headers_access (ks_pending_requests s) i) of
           Some q \<Rightarrow> if gbh_block_hash (pp_payload q) \<noteq> h
                     then issue block_headers_access BlockHeader (pp_payload q) (?s, []) else (?s, [])
         | None \<Rightarrow> (?s, []))"
      by (simp add: header_received_def split_beta Let_def cong: option.case_cong if_cong)
    then show thesis
      using that by (cases "snd (take_request block_headers_access (ks_pending_requests s) i)")
        (simp_all split: if_splits)
  qed
  then show ?thesis
  proof cases
    case 1
    with schedule_in_flight [OF rest, of ?s "rq_ids (ks_pending_requests s)"] r room show ?thesis by simp
  next
    case (2 payload)
    with schedule_in_flight [OF only_issues_comp [OF issue_onlys(1) rest], of ?s "rq_ids (ks_pending_requests s)" payload]
      r room show ?thesis by simp
  qed
qed

lemma request_missing_header_issues: "issues (r, []) (request_missing_header r t m)"
proof -
  have "issues x (issue_effect block_headers_access BlockHeader t p x)" for x p
    by (rule issues_step [OF issues_refl issue_step.intros(1)])
  then show ?thesis by (simp add: request_missing_header_def)
qed

lemma head_observed_in_flight:
  assumes ok: "requests_ok (ks_pending_requests s)"
    and room: "uint (rq_ids (ks_pending_requests s)) +
      int (length (snd (outcome_result (head_observed B chain s h p b n)))) < 2 ^ 64"
  shows "requests_ok (ks_pending_requests (fst (outcome_result (head_observed B chain s h p b n)))) \<and>
    all_in_flight (ks_pending_requests (fst (outcome_result (head_observed B chain s h p b n))))
      (snd (outcome_result (head_observed B chain s h p b n)))"
proof -
  obtain s' adm where res: "with_log_head_observed s h p n b (max_pending_blocks chain) = (s', adm)" by fastforce
  have pr: "ks_pending_requests s' = ks_pending_requests s"
    using feed_requests(3) [of s h p n b "max_pending_blocks chain"] by (simp add: res)
  let ?rest = "\<lambda>x. with_finality_probe_if_orphan_suspected h n (schedule_unknown_canonical_requests B chain x)"
  have rest: "only_issues ?rest" by (rule only_issues_comp [OF only_issues_schedule only_issues_probe])
  consider (self) "adm = SelfParent" | (inert) "adm = DuplicateBlock" "h = bg_observed_head (ks_graph s)"
    | (full) "adm \<noteq> SelfParent" "\<not> (adm = DuplicateBlock \<and> h = bg_observed_head (ks_graph s))" by blast
  then show ?thesis
  proof cases
    case self
    obtain r' es where m: "request_missing_header (ks_pending_requests s) (ks_tick s') h = (r', es)" by fastforce
    have eq: "head_observed B chain s h p b n = Progressed (s'\<lparr>ks_pending_requests := r'\<rparr>) es"
      using self m by (simp add: head_observed_def res pr)
    with issues_in_flight [of "ks_pending_requests s" r' es] ok room
      request_missing_header_issues [of "ks_pending_requests s" "ks_tick s'" h]
    show ?thesis by (simp add: m)
  next
    case inert
    have "head_observed B chain s h p b n = Inert s'"
      using inert(1) by (simp add: head_observed_def res inert(2) [symmetric])
    with ok show ?thesis by (simp add: pr all_in_flight_def)
  next
    case full
    then have "head_observed B chain s h p b n = progress (?rest (s', []))"
      by (auto simp: head_observed_def res)
    with schedule_in_flight [OF rest, of s' "rq_ids (ks_pending_requests s)"] ok room pr show ?thesis by simp
  qed
qed

lemma coll_payloads_mem: "map_of c i = Some q \<Longrightarrow> pp_payload q \<in># coll_payloads c"
  by (force simp: coll_payloads_def dest: map_of_SomeD)

lemma id_payload_in_flight: "id_payload r i = Some p \<Longrightarrow> p \<in># in_flight r"
  by (cases i) (auto simp: in_flight_def dest!: coll_payloads_mem)

lemma retry_issued_in_flight:
  assumes "requests_ok r" and "rq_ids r \<noteq> - 1" and "snd (retry r i t) = Some issued"
  shows "issued_payload issued \<in># in_flight (fst (retry r i t))"
proof -
  have "id_payload r i = Some (issued_payload issued)"
    using retry_any_issued [of r i t] assms(3) by simp
  then have "issued_payload issued \<in># in_flight r" by (rule id_payload_in_flight)
  then show ?thesis using retry_any(2) [OF assms(1,2)] by simp
qed

lemma access_colls:
  "sa_coll block_headers_access = rq_block_headers" "sa_coll block_logs_access = rq_block_logs"
  "sa_coll pool_metadata_access = rq_pool_metadata" "sa_coll token_metadata_access = rq_token_metadata"
  "sa_coll pool_data_access = rq_pool_data" "sa_coll logs_range_access = rq_logs_range"
  "sa_coll canonical_header_access = rq_canonical_header"
  by (simp_all add: access_defs)

lemma retry_any_none: "snd (retry r i t) = None \<Longrightarrow> fst (retry r i t) = r"
proof -
  assume none: "snd (retry r i t) = None"
  then have "id_payload r i = None" using retry_any_issued [of r i t] by simp
  then show ?thesis
    by (cases i)
       (simp_all add: block_headers.retry_None block_logs.retry_None pool_metadata.retry_None
         token_metadata.retry_None pool_data.retry_None logs_range.retry_None canonical_header.retry_None
         access_colls)
qed

text \<open>
  Every effect of a transition is in flight afterwards, and the ledger stays well formed, as long as
  the 64-bit id sequence has room for the requests of the transition.
\<close>

lemma transition_in_flight:
  assumes ok: "requests_ok (ks_pending_requests s)" and res: "transition B chain s e = (s', es)"
    and room: "uint (rq_ids (ks_pending_requests s)) + int (length es) + int (pending_len (ks_pending_requests s)) < 2 ^ 64"
  shows "requests_ok (ks_pending_requests s') \<and> all_in_flight (ks_pending_requests s') es"
proof -
  let ?r = "ks_pending_requests s"
  have s': "s' = fst (outcome_result (transition_outcome B chain s e))"
    and es: "es = snd (outcome_result (transition_outcome B chain s e))"
    using res by (simp_all add: transition_def)
  have room': "uint (rq_ids ?r) + int (length es) < 2 ^ 64" using room by linarith
  show ?thesis
  proof (cases e)
    case (HeadObserved h p b n)
    then show ?thesis using head_observed_in_flight [OF ok, of B chain h p b n] room' s' es by simp
  next
    case (FinalizedBlockObserved h n)
    then show ?thesis
      using schedule_in_flight [OF only_issues_ranges, of "with_finalized_block_observed B s chain h"
          "rq_ids ?r" B chain h] finalized_requests [OF ok, of B chain h] room' s' es by simp
  next
    case (BlockHeaderReceived i h p b n)
    then show ?thesis using header_received_in_flight [OF ok, of B chain i h p b n] room' s' es by simp
  next
    case (BlockHeaderNotFound i)
    then show ?thesis using ok take_oks(1) s' es by (simp add: split_beta Let_def all_in_flight_def)
  next
    case (CanonicalHeaderAtHeightReceived i h n)
    show ?thesis
    proof (cases "n = anchor_number (ks_graph s) \<and> h \<noteq> anchor_hash (ks_graph s)")
      case True
      let ?act = "activate_from_seed h n [] (ks_pool_registry s) (ks_token_registry s) []"
      have eq: "transition B chain s e = ?act"
        using True CanonicalHeaderAtHeightReceived
        by (simp add: transition_def canonical_header_received_def split_beta Let_def)
      have "int (length es) < 2 ^ 64" using room' by (smt (verit) unsigned_greater_eq)
      with activate_in_flight [of h n "[]" "ks_pool_registry s" "ks_token_registry s" "[]"] res show ?thesis
        by (simp add: eq)
    next
      case False
      with CanonicalHeaderAtHeightReceived show ?thesis
        using ok take_oks(7) s' es
        by (auto simp: canonical_header_received_def split_beta Let_def all_in_flight_def)
    qed
  next
    case (BlockLogsReceived i logs)
    then show ?thesis
      using answer_in_flight [of block_logs_access s i "\<lambda>p s. with_log_complete s (gbl_block_hash p) logs" B chain]
        take_oks(2) [OF ok] take_ids_fields(2) room' s' es by simp
  next
    case (BlockLogsRangeReceived i received)
    then show ?thesis
      using answer_in_flight [of logs_range_access s i "\<lambda>p. apply_range received (glr_covered p)" B chain]
        take_oks(6) [OF ok] take_ids_fields(6) room' s' es by simp
  next
    case (LogObserved h logs)
    then show ?thesis
      using schedule_in_flight [OF only_issues_schedule, of "with_log_streamed s h logs" "rq_ids ?r" B chain]
        ok room' s' es by (auto simp: all_in_flight_def split: if_splits)
  next
    case (PoolMetadataReceived i metadata)
    then show ?thesis
      using answer_in_flight [of pool_metadata_access s i "accept_pool_metadata chain metadata" B chain]
        take_oks(3) [OF ok] take_ids_fields(3) room' s' es by simp
  next
    case (TokenMetadataReceived i metadata)
    then show ?thesis
      using answer_in_flight [of token_metadata_access s i "accept_token_metadata metadata" B chain]
        take_oks(4) [OF ok] take_ids_fields(4) room' s' es by simp
  next
    case (PoolDataReceived i pools)
    then show ?thesis
      using answer_in_flight [of pool_data_access s i "\<lambda>p s. with_finalized_pool_seeds s (gpd_at p) pools" B chain]
        take_oks(5) [OF ok] take_ids_fields(5) room' s' es by simp
  next
    case (RequestFailed i)
    show ?thesis
    proof (cases "snd (retry ?r i (ks_tick s))")
      case None
      then have "fst (retry ?r i (ks_tick s)) = ?r"
        using retry_any_none by blast
      with None RequestFailed ok s' es show ?thesis by (simp add: split_beta Let_def all_in_flight_def)
    next
      case (Some issued)
      then have "rq_ids ?r \<noteq> - 1"
        using room' RequestFailed es
        by (auto simp: split_beta Let_def unsigned_minus_1_eq_mask mask_eq_exp_minus_1)
      with Some RequestFailed ok s' es retry_any(1) retry_issued_in_flight show ?thesis
        by (simp add: split_beta Let_def all_in_flight_def)
    qed
  next
    case TickEvent
    obtain r' issued where re: "retry_expired ?r (tick_next (ks_tick s)) = (r', issued)" by fastforce
    have "uint (rq_ids ?r) + int (pending_len ?r) < 2 ^ 64" using room by linarith
    note eff = retry_expired_effects [OF ok this re]
    have "issued_payload x \<in># in_flight ?r" if "x \<in> set issued" for x
    proof -
      from that have "Some (issued_payload x) \<in> set (map (Some \<circ> issued_payload) issued)" by auto
      then have "Some (issued_payload x) \<in> id_payload ?r ` set (expired_ids ?r (tick_next (ks_tick s)))"
        unfolding eff(4) by simp
      then show ?thesis by (metis (no_types, lifting) id_payload_in_flight imageE)
    qed
    with TickEvent eff re s' es show ?thesis by (auto simp: all_in_flight_def Let_def)
  qed
qed

section \<open>Dangling ancestors are always being fetched\<close>

lemma header_request_in_flight:
  "has_pending_header_request r m \<longleftrightarrow> BlockHeaderP (GetBlockHeader m) \<in># in_flight r"
proof -
  have eq: "GetBlockHeader m = p \<longleftrightarrow> gbh_block_hash p = m" for p by (cases p) auto
  have "BlockHeaderP (GetBlockHeader m) \<in># in_flight r \<longleftrightarrow> GetBlockHeader m \<in> (pp_payload \<circ> snd) ` set (rq_block_headers r)"
    by (auto simp: in_flight_def coll_payloads_def)
  also have "\<dots> \<longleftrightarrow> (\<exists>x \<in> set (rq_block_headers r). gbh_block_hash (pp_payload (snd x)) = m)"
    unfolding image_iff comp_def eq ..
  also have "\<dots> \<longleftrightarrow> has_pending_header_request r m"
    by (auto simp: has_pending_header_request_def coll_values_def list_ex_iff)
  finally show ?thesis ..
qed

definition request_headers :: "block_hash list \<Rightarrow> kernel_state \<times> effect list \<Rightarrow> kernel_state \<times> effect list" where
  "request_headers ms = fold (\<lambda>missing (s, effects).
         (let (requests, new_effects) = request_missing_header (ks_pending_requests s) (ks_tick s) missing
          in (s\<lparr>ks_pending_requests := requests\<rparr>, effects @ new_effects))) ms"

lemma request_missing_header_spec:
  assumes ok: "requests_ok r" and nw: "rq_ids r \<noteq> - 1"
  shows "requests_ok (fst (request_missing_header r t m))"
    and "uint (rq_ids (fst (request_missing_header r t m))) \<le> uint (rq_ids r) + 1"
    and "set_mset (in_flight (fst (request_missing_header r t m))) =
      insert (BlockHeaderP (GetBlockHeader m)) (set_mset (in_flight r))"
proof -
  show "requests_ok (fst (request_missing_header r t m))"
    using ok nw block_headers.issue_ok
    by (simp add: request_missing_header_def issue_effect_def split_beta Let_def)
  show "uint (rq_ids (fst (request_missing_header r t m))) \<le> uint (rq_ids r) + 1"
    using uint_plus_one [OF nw]
    by (simp add: request_missing_header_def issue_effect_def split_beta Let_def block_headers.issue_ids_field)
  show "set_mset (in_flight (fst (request_missing_header r t m))) =
      insert (BlockHeaderP (GetBlockHeader m)) (set_mset (in_flight r))"
    using block_headers.issue_in_flight [OF ok nw] header_request_in_flight [of r m]
    by (auto simp: request_missing_header_def issue_effect_def split_beta Let_def)
qed

lemma request_headers_spec:
  assumes "requests_ok (ks_pending_requests s)" and "uint (rq_ids (ks_pending_requests s)) + int (length ms) < 2 ^ 64"
  shows "\<exists>r es'. request_headers ms (s, es) = (s\<lparr>ks_pending_requests := r\<rparr>, es') \<and> requests_ok r \<and>
    uint (rq_ids r) \<le> uint (rq_ids (ks_pending_requests s)) + int (length ms) \<and>
    (\<forall>m \<in> set ms. BlockHeaderP (GetBlockHeader m) \<in># in_flight r) \<and>
    set_mset (in_flight (ks_pending_requests s)) \<subseteq> set_mset (in_flight r)"
  using assms
proof (induction ms arbitrary: s es)
  case Nil
  then show ?case by (auto simp: request_headers_def intro: exI [of _ "ks_pending_requests s"])
next
  case (Cons m ms)
  let ?r = "ks_pending_requests s"
  obtain r1 e1 where one: "request_missing_header ?r (ks_tick s) m = (r1, e1)" by fastforce
  have "rq_ids ?r \<noteq> - 1"
    using Cons.prems(2) by (auto simp: unsigned_minus_1_eq_mask mask_eq_exp_minus_1)
  note spec = request_missing_header_spec [OF Cons.prems(1) this, of "ks_tick s" m, unfolded one fst_conv]
  let ?s = "s\<lparr>ks_pending_requests := r1\<rparr>"
  have "\<exists>r es'. request_headers ms (?s, es @ e1) = (?s\<lparr>ks_pending_requests := r\<rparr>, es') \<and> requests_ok r \<and>
    uint (rq_ids r) \<le> uint (rq_ids r1) + int (length ms) \<and>
    (\<forall>m \<in> set ms. BlockHeaderP (GetBlockHeader m) \<in># in_flight r) \<and>
    set_mset (in_flight r1) \<subseteq> set_mset (in_flight r)"
    using Cons.IH [of ?s "es @ e1"] spec(1,2) Cons.prems(2) by simp
  then obtain r es' where rest: "request_headers ms (?s, es @ e1) = (?s\<lparr>ks_pending_requests := r\<rparr>, es')"
    "requests_ok r" "uint (rq_ids r) \<le> uint (rq_ids r1) + int (length ms)"
    "\<forall>m \<in> set ms. BlockHeaderP (GetBlockHeader m) \<in># in_flight r"
    "set_mset (in_flight r1) \<subseteq> set_mset (in_flight r)" by blast
  have "request_headers (m # ms) (s, es) = (s\<lparr>ks_pending_requests := r\<rparr>, es')"
    using rest(1) by (simp add: request_headers_def one)
  with rest spec show ?case by (intro exI [of _ r] exI [of _ es']) auto
qed

lemma issues_in_flight_mono:
  assumes "issues (r, es) (r', es @ new)" and "requests_ok r" and "uint (rq_ids r) + int (length new) < 2 ^ 64"
  shows "set_mset (in_flight r) \<subseteq> set_mset (in_flight r')"
  using issues_spec [OF assms(1)] assms(2,3) by auto

lemma schedule_tail:
  "\<exists>f. only_issues f \<and> schedule_unknown_canonical_requests B chain (s, es) =
     f (schedule_missing_header_requests (s, es))"
proof -
  let ?f = "\<lambda>x. schedule_finalized_pool_seed_requests chain
      (schedule_unknown_canonical_token_metadata_requests chain (pool_log_candidates_from_head (ks_graph s))
        (schedule_unknown_canonical_pool_metadata_requests chain (pool_log_candidates_from_head (ks_graph s))
          (schedule_unknown_canonical_log_requests B chain x)))"
  have f: "only_issues ?f"
    by (intro only_issues_comp [OF _ only_issues_seeds] only_issues_comp [OF _ only_issues_token_metadata]
        only_issues_comp [OF _ only_issues_pool_metadata] only_issues_logs)
  obtain r2 es2 where "schedule_unknown_canonical_log_requests B chain
      (schedule_missing_header_requests (s, es)) = (s\<lparr>ks_pending_requests := r2\<rparr>, es2)"
    by (rule only_issuesE [OF only_issues_comp [OF only_issues_headers only_issues_logs]])
  then have "schedule_unknown_canonical_requests B chain (s, es) = ?f (schedule_missing_header_requests (s, es))"
    by (simp add: schedule_unknown_canonical_requests_def split_beta Let_def)
  with f show ?thesis by blast
qed

lemma schedule_covers_missing:
  assumes ok: "requests_ok (ks_pending_requests s)"
    and res: "schedule_unknown_canonical_requests B chain (s, []) = (s', es)"
    and room: "uint (rq_ids (ks_pending_requests s)) + int (length (missing_parents (ks_graph s))) +
      int (length es) < 2 ^ 64"
    and m: "m \<in> set (missing_parents (ks_graph s))"
  shows "has_pending_header_request (ks_pending_requests s') m"
proof -
  let ?ms = "missing_parents (ks_graph s)"
  obtain r es1 where h: "request_headers ?ms (s, []) = (s\<lparr>ks_pending_requests := r\<rparr>, es1)" "requests_ok r"
    "uint (rq_ids r) \<le> uint (rq_ids (ks_pending_requests s)) + int (length ?ms)"
    "\<forall>m \<in> set ?ms. BlockHeaderP (GetBlockHeader m) \<in># in_flight r"
    using request_headers_spec [OF ok, of ?ms "[]"] room by auto
  have h': "schedule_missing_header_requests (s, []) = (s\<lparr>ks_pending_requests := r\<rparr>, es1)"
    using h(1) by (simp add: schedule_missing_header_requests_def request_headers_def)
  obtain f where f: "only_issues f"
    "schedule_unknown_canonical_requests B chain (s, []) = f (schedule_missing_header_requests (s, []))"
    using schedule_tail by blast
  obtain r2 where r2: "s' = s\<lparr>ks_pending_requests := r2\<rparr>" "issues (r, es1) (r2, es)"
    using only_issuesD [OF f(1), of "s\<lparr>ks_pending_requests := r\<rparr>" es1] res f(2) h' by auto
  from issues_spec [OF r2(2)] obtain new where "es = es1 @ new" by auto
  with issues_in_flight_mono [of r es1 r2 new] r2 h room
  have "set_mset (in_flight r) \<subseteq> set_mset (in_flight r2)" by simp
  with h(4) m show ?thesis by (auto simp: header_request_in_flight r2(1))
qed

section \<open>Reachable states\<close>

inductive reachable :: "bloom_ops \<Rightarrow> chain_key \<Rightarrow> kernel_state \<Rightarrow> bool" for B chain where
  reach_init: "reachable B chain (init h n)"
| reach_activate: "hm_wf snapshots \<Longrightarrow> pool_registry_inv chain pools \<Longrightarrow> token_registry_inv tokens \<Longrightarrow>
    reachable B chain (fst (activate_from_seed h n snapshots pools tokens blocks))"
| reach_step: "reachable B chain s \<Longrightarrow> reachable B chain (fst (transition B chain s e))"

lemma reachable_ok: "reachable B chain s \<Longrightarrow> kernel_ok chain s"
  by (induction rule: reachable.induct) (simp_all add: kernel_ok_activate transition_kernel_ok)

section \<open>Effects of the answers and of the schedulers on the rest of the state\<close>

lemma only_issues_state:
  "only_issues f \<Longrightarrow> ks_blocks (fst (f (s, es))) = ks_blocks s \<and> ks_pool_registry (fst (f (s, es))) = ks_pool_registry s \<and>
     ks_token_registry (fst (f (s, es))) = ks_token_registry s \<and> ks_streamed_logs (fst (f (s, es))) = ks_streamed_logs s"
  using only_issuesD [of f s es] by auto

lemmas schedule_state = only_issues_state [OF only_issues_schedule]
lemmas probe_state = only_issues_state [OF only_issues_probe]

lemma answer_known:
  assumes "take_request A (ks_pending_requests s) i = (r, Some q)"
    and "\<And>p s. ks_pending_requests (respond p s) = ks_pending_requests s"
  shows "ks_blocks (fst (answer B chain A s i respond)) =
      ks_blocks (respond (pp_payload q) (s\<lparr>ks_pending_requests := r\<rparr>)) \<and>
    ks_pool_registry (fst (answer B chain A s i respond)) =
      ks_pool_registry (respond (pp_payload q) (s\<lparr>ks_pending_requests := r\<rparr>)) \<and>
    ks_token_registry (fst (answer B chain A s i respond)) =
      ks_token_registry (respond (pp_payload q) (s\<lparr>ks_pending_requests := r\<rparr>))"
  using assms(1) by (simp add: answer_def schedule_state)

lemma answer_unknown:
  "take_request A (ks_pending_requests s) i = (ks_pending_requests s, None) \<Longrightarrow>
     answer B chain A s i respond = (s, [])"
  by (simp add: answer_def)

lemma transition_progress: "transition_outcome B chain s e = progress x \<Longrightarrow> transition B chain s e = x"
  by (simp add: transition_def)

lemma map_of_seed_results:
  "hm_wf results \<Longrightarrow> map_of (fold seed_result results m) p =
     (case map_of results p of Some (Inr st) \<Rightarrow> Some st | _ \<Rightarrow> map_of m p)"
proof (induction results arbitrary: m)
  case (Cons e results)
  obtain pool r where e: "e = (pool, r)" by (cases e)
  have fresh: "map_of results pool = None" using Cons.prems by (auto simp: e hm_wf_def map_of_eq_None_iff)
  have "map_of (fold seed_result (e # results) m) p =
      (case map_of results p of Some (Inr st) \<Rightarrow> Some st | _ \<Rightarrow> map_of (seed_result e m) p)"
    using Cons by (simp add: hm_wf_def)
  then show ?case
    using fresh by (cases r) (auto simp: e seed_result_def split: option.split sum.split)
qed simp

section \<open>Properties of the kernel\<close>

definition kernel_start :: "chain_key \<Rightarrow> kernel_state \<Rightarrow> bool" where
  "kernel_start chain s \<longleftrightarrow> (\<exists>h n. s = init h n) \<or>
     (\<exists>h n snapshots pools tokens blocks. s = fst (activate_from_seed h n snapshots pools tokens blocks) \<and>
        hm_wf snapshots \<and> pool_registry_inv chain pools \<and> token_registry_inv tokens)"

interpretation kern: state_machine "kernel_start chain" "transition B chain" "\<lambda>_. True" "kernel_ok chain"
  for B chain
  by unfold_locales (auto simp: kernel_start_def kernel_ok_activate transition_kernel_ok)

text \<open>
  C1. Every state reachable from an initialisation or an activation by kernel events satisfies the
  kernel invariant: the block tree contract, the pending bound, the exclusive registries, the
  well-formed snapshot, and a bounded staging buffer that never names a block of the graph.
\<close>

theorem kernel_invariant_reachable:
  assumes "reachable B chain s"
  shows "graph_ok (ks_graph s) \<and> pending_count (ks_graph s) \<le> pending_bound chain \<and>
    hm_wf (ks_snapshot s) \<and> pool_registry_inv chain (ks_pool_registry s) \<and>
    token_registry_inv (ks_token_registry s) \<and> length (ks_streamed_logs s) \<le> MAX_STREAMED_LOG_BLOCKS \<and>
    (\<forall>h. hm_contains (ks_streamed_logs s) h \<longrightarrow> \<not> graph_contains (ks_graph s) h)"
  using reachable_ok [OF assms] by (simp add: kernel_ok_def staging_ok_def)

theorem kernel_invariant_reachable_witness:
  "graph_ok (ks_graph (fst (transition demo_bloom Ethereum (init 1 10) (HeadObserved 2 1 0 11))))"
  using kernel_invariant_reachable [OF reach_step [OF reach_init]] by blast

text \<open>
  C11. No effect is lost or unaccounted for: after every event, each request the kernel emitted is in
  flight in its ledger (so a lost answer is retried), and the ledger keeps its invariant: ids never
  exceed the last one issued, none is used twice. The bound says that the 64-bit id counter does not wrap.
\<close>

theorem transition_effects_in_flight:
  assumes "requests_ok (ks_pending_requests s)" and "transition B chain s e = (s', es)"
    and "uint (rq_ids (ks_pending_requests s)) + int (length es) + int (pending_len (ks_pending_requests s)) < 2 ^ 64"
  shows "requests_ok (ks_pending_requests s') \<and>
    (\<forall>eff \<in> set es. issued_payload (effect_request eff) \<in># in_flight (ks_pending_requests s'))"
  using transition_in_flight [OF assms] by (simp add: all_in_flight_def)

theorem transition_effects_in_flight_witness:
  "requests_ok (ks_pending_requests (fst (transition demo_bloom Ethereum (init 1 10) (HeadObserved 9 8 0 20))))"
proof -
  have "requests_ok (ks_pending_requests (init 1 10))" by (simp add: init_def)
  moreover have "uint (rq_ids (ks_pending_requests (init 1 10))) +
      int (length (snd (transition demo_bloom Ethereum (init 1 10) (HeadObserved 9 8 0 20)))) +
      int (pending_len (ks_pending_requests (init 1 10))) < 2 ^ 64"
    by code_simp
  ultimately show ?thesis using transition_effects_in_flight surjective_pairing by blast
qed

text \<open>
  Inert means unchanged: in a state that satisfies the invariant, a transition reported inert
  returns the very same state and emits nothing, so a caller that skips its follow-up work on an inert
  outcome misses nothing.
\<close>

lemma inert_is_identity:
  assumes "kernel_ok chain s" and "transition_outcome B chain s e = Inert s'"
  shows "s' = s \<and> transition B chain s e = (s, [])"
  using inert_same [OF assms] assms(2) by (simp add: transition_def)

text \<open>
  No gap is left unrequested: after the schedulers have run, each missing parent of the graph has
  a header request in flight, whichever of them were asked for before.
\<close>

lemma schedule_requests_every_missing_parent:
  assumes "requests_ok (ks_pending_requests s)"
    and "schedule_unknown_canonical_requests B chain (s, []) = (s', es)"
    and "uint (rq_ids (ks_pending_requests s)) + int (length (missing_parents (ks_graph s))) +
      int (length es) < 2 ^ 64"
  shows "\<forall>m \<in> set (missing_parents (ks_graph s')). has_pending_header_request (ks_pending_requests s') m"
  using schedule_covers_missing [OF assms] schedule_state [of B chain s "[]"] assms(2) by simp

definition dangling_state :: kernel_state where
  "dangling_state = init 1 10\<lparr>ks_blocks :=
     \<lparr>bl_graph = fst (with_data_capped (graph_new 1 10) 9 8 demo_data 4), bl_finalized_snapshot = []\<rparr>\<rparr>"

text \<open>
  Responses to requests that are not in flight change nothing: whatever data they carry, the state
  is returned unchanged and nothing is emitted.
\<close>

lemma unknown_responses_dropped:
  assumes "id_payload (ks_pending_requests s) k = None"
  shows "(case k of
      BlockLogsId i \<Rightarrow> transition B chain s (BlockLogsReceived i logs) = (s, [])
    | LogsRangeId i \<Rightarrow> transition B chain s (BlockLogsRangeReceived i blocks) = (s, [])
    | PoolMetadataId i \<Rightarrow> transition B chain s (PoolMetadataReceived i pool_results) = (s, [])
    | TokenMetadataId i \<Rightarrow> transition B chain s (TokenMetadataReceived i token_results) = (s, [])
    | PoolDataId i \<Rightarrow> transition B chain s (PoolDataReceived i seeds) = (s, [])
    | BlockHeaderId i \<Rightarrow> transition B chain s (BlockHeaderNotFound i) = (s, [])
    | CanonicalHeaderId i \<Rightarrow> True) \<and>
    transition B chain s (RequestFailed k) = (s, [])"
proof (rule conjI)
  show "case k of
      BlockLogsId i \<Rightarrow> transition B chain s (BlockLogsReceived i logs) = (s, [])
    | LogsRangeId i \<Rightarrow> transition B chain s (BlockLogsRangeReceived i blocks) = (s, [])
    | PoolMetadataId i \<Rightarrow> transition B chain s (PoolMetadataReceived i pool_results) = (s, [])
    | TokenMetadataId i \<Rightarrow> transition B chain s (TokenMetadataReceived i token_results) = (s, [])
    | PoolDataId i \<Rightarrow> transition B chain s (PoolDataReceived i seeds) = (s, [])
    | BlockHeaderId i \<Rightarrow> transition B chain s (BlockHeaderNotFound i) = (s, [])
    | CanonicalHeaderId i \<Rightarrow> True"
    using assms
    by (cases k)
      (simp_all add: transition_def answer_unknown block_logs.take_unknown logs_range.take_unknown
        pool_metadata.take_unknown token_metadata.take_unknown pool_data.take_unknown
        block_headers.take_unknown access_colls)
next
  have "fst (retry (ks_pending_requests s) k t) = ks_pending_requests s \<and>
      snd (retry (ks_pending_requests s) k t) = None" for t
    using retry_any_issued [of "ks_pending_requests s" k t] retry_any_none assms by fastforce
  then show "transition B chain s (RequestFailed k) = (s, [])"
    by (simp add: transition_def split_beta Let_def)
qed

text \<open>
  Accepting pool metadata is gated by what was asked: an answer in flight applies exactly the
  results whose candidate its request names; every other candidate keeps its metadata and its
  verdict, whatever the answer says about it, and blocks and tokens are untouched.
\<close>

lemma pool_metadata_only_for_requested:
  assumes "map_of (rq_pool_metadata (ks_pending_requests s)) i = Some q"
    and "transition B chain s (PoolMetadataReceived i metadata) = (s', es)"
  shows "ks_pool_registry s' = pool_with_metadata_results (ks_pool_registry s) chain
      (filter (\<lambda>(candidate, _). candidate \<in> gpm_candidates (pp_payload q)) metadata) \<and>
    ks_blocks s' = ks_blocks s \<and> ks_token_registry s' = ks_token_registry s \<and>
    (\<forall>k. k \<notin> gpm_candidates (pp_payload q) \<longrightarrow>
       verified_pool (ks_pool_registry s') chain k = verified_pool (ks_pool_registry s) chain k \<and>
       pool_verified_metadata (ks_pool_registry s') (PoolRef k chain) =
         pool_verified_metadata (ks_pool_registry s) (PoolRef k chain) \<and>
       is_rejected (ks_pool_registry s') k = is_rejected (ks_pool_registry s) k)"
proof -
  let ?results = "filter (\<lambda>(candidate, _). candidate \<in> gpm_candidates (pp_payload q)) metadata"
  have take: "take_request pool_metadata_access (ks_pending_requests s) i =
      (fst (take_request pool_metadata_access (ks_pending_requests s) i), Some q)"
    using pool_metadata.take_result [of "ks_pending_requests s" i] assms(1)
    by (simp add: access_colls prod_eq_iff)
  have s': "s' = fst (answer B chain pool_metadata_access s i (accept_pool_metadata chain metadata))"
    using assms(2) by (simp add: transition_def)
  have eq: "ks_pool_registry s' = pool_with_metadata_results (ks_pool_registry s) chain ?results"
    "ks_blocks s' = ks_blocks s" "ks_token_registry s' = ks_token_registry s"
    using answer_known [OF take, of "accept_pool_metadata chain metadata" B chain]
    unfolding s' by (simp_all add: accept_pool_metadata_def)
  have "k \<notin> fst ` set ?results" if "k \<notin> gpm_candidates (pp_payload q)" for k
    using that by auto
  note frame = pools.all_frame [OF this, of _ chain]
  show ?thesis
    using eq frame
    by (simp add: pool_results_apply_all verified_pool_def pool_verified_metadata_def is_rejected_def
        hm_contains_def)
qed

text \<open>
  Seeds only land on the anchor they were read at: an answer to a seed request changes the
  snapshot exactly when the request's block is still the anchor, and then each pool of the answer
  (a map) takes its successfully read state and every other pool keeps its own.
\<close>

lemma seeds_only_at_anchor:
  assumes "map_of (rq_pool_data (ks_pending_requests s)) i = Some q" and "hm_wf seeds"
    and "transition B chain s (PoolDataReceived i seeds) = (s', es)"
  shows "ks_graph s' = ks_graph s \<and> ks_pool_registry s' = ks_pool_registry s \<and>
    (if gpd_at (pp_payload q) = anchor_hash (ks_graph s)
     then \<forall>p. map_of (ks_snapshot s') p =
       (case map_of seeds p of Some (Inr st) \<Rightarrow> Some st | _ \<Rightarrow> map_of (ks_snapshot s) p)
     else ks_snapshot s' = ks_snapshot s)"
proof -
  have take: "take_request pool_data_access (ks_pending_requests s) i =
      (fst (take_request pool_data_access (ks_pending_requests s) i), Some q)"
    using pool_data.take_result [of "ks_pending_requests s" i] assms(1)
    by (simp add: access_colls prod_eq_iff)
  have s': "s' = fst (answer B chain pool_data_access s i
      (\<lambda>payload s. with_finalized_pool_seeds s (gpd_at payload) seeds))"
    using assms(3) by (simp add: transition_def)
  show ?thesis
    using answer_known [OF take, of "\<lambda>payload s. with_finalized_pool_seeds s (gpd_at payload) seeds" B chain]
      map_of_seed_results [OF assms(2)]
    unfolding s' by (simp add: with_finalized_pool_seeds_def blocks_with_finalized_pool_seeds_def)
qed

text \<open>
  Seed requests are idle work with a bound: the scheduler issues one exactly when no block, log or
  range fetch is pending and some verified pool has neither a snapshot entry nor a pending seed; the
  request reads at the anchor, names only such pools, and at most a hundred of them.
\<close>

lemma seed_request_exact:
  "let uncovered = {p \<in> verified_pools (ks_pool_registry s) chain.
       \<not> hm_contains (ks_snapshot s) p \<and> p \<notin> pending_pool_data_pools (ks_pending_requests s)}
   in if has_pending_block_backfill (ks_pending_requests s) \<or> uncovered = {}
     then schedule_finalized_pool_seed_requests chain (s, es) = (s, es)
     else \<exists>s' i pools. schedule_finalized_pool_seed_requests chain (s, es) =
         (s', es @ [Request (PoolData \<lparr>ir_request_id = i,
           ir_request_payload = GetPoolData (anchor_hash (ks_graph s)) pools\<rparr>)]) \<and>
       pools \<noteq> {} \<and> pools \<subseteq> uncovered \<and>
       card pools = min FINALIZED_POOL_SEED_CHUNK (card uncovered)"
proof -
  let ?U = "{p \<in> verified_pools (ks_pool_registry s) chain.
    \<not> hm_contains (ks_snapshot s) p \<and> p \<notin> pending_pool_data_pools (ks_pending_requests s)}"
  have fin: "finite (?U)" by (simp add: verified_pools_def)
  have cand: "seed_candidates chain s = sorted_list_of_set (?U)"
    unfolding seed_candidates_def by (simp add: Set.filter_eq)
  let ?pools = "set (take FINALIZED_POOL_SEED_CHUNK (sorted_list_of_set (?U)))"
  have card: "card ?pools = min FINALIZED_POOL_SEED_CHUNK (card (?U))"
    by (simp add: distinct_card)
  have sub: "?pools \<subseteq> ?U"
    using set_take_subset [of FINALIZED_POOL_SEED_CHUNK "sorted_list_of_set (?U)"]
    by (simp add: fin)
  have ne: "?pools \<noteq> {}" if "?U \<noteq> {}"
    using that fin by (simp add: FINALIZED_POOL_SEED_CHUNK_def)
  show ?thesis
    using card sub ne fin
    by (auto simp: schedule_finalized_pool_seed_requests_def cand Let_def issue_def issue_effect_def split_beta)
qed

text \<open>
  The finalized header is fetched on edges, not on levels: as the canonical path grows one block at
  a time, the fetch fires exactly when the path reaches the target length and then each time it grows
  by the retry stride; it never fires while the path does not grow.
\<close>

lemma finalized_fetch_on_edges:
  assumes "0 < stride"
  shows "(should_fetch_finalized_header (Some n) (Some (Suc n)) target stride \<longleftrightarrow>
      target \<le> Suc n \<and> stride dvd (Suc n - target)) \<and>
    (after \<le> n \<longrightarrow> \<not> should_fetch_finalized_header (Some n) (Some after) target stride)"
proof -
  have "(n - target) div stride < (Suc n - target) div stride \<longleftrightarrow> stride dvd (Suc n - target)"
    if "target \<le> n"
    using that assms by (auto simp: Suc_diff_le div_Suc dvd_eq_mod_eq_0)
  then have "should_fetch_finalized_header (Some n) (Some (Suc n)) target stride \<longleftrightarrow>
      target \<le> Suc n \<and> stride dvd (Suc n - target)"
    by (cases "target \<le> n")
      (auto simp: should_fetch_finalized_header_def finalized_refresh_bucket_def not_le le_Suc_eq)
  moreover have "(after - target) div stride \<le> (n - target) div stride" if "after \<le> n"
    using that by (intro div_le_mono) simp
  then have "after \<le> n \<longrightarrow> \<not> should_fetch_finalized_header (Some n) (Some after) target stride"
    by (auto simp: should_fetch_finalized_header_def finalized_refresh_bucket_def not_less)
  ultimately show ?thesis by blast
qed

text \<open>
  An orphaned anchor is recovered from by starting over: a canonical header at the anchor's height
  with another hash re-initialises the kernel at that header, keeping only the metadata registries;
  any other canonical header only closes its request.
\<close>

lemma orphaned_anchor_starts_over:
  "transition B chain s (CanonicalHeaderAtHeightReceived i h n) =
     (if n = anchor_number (ks_graph s) \<and> h \<noteq> anchor_hash (ks_graph s)
      then ((init h n)\<lparr>ks_pool_registry := ks_pool_registry s, ks_token_registry := ks_token_registry s\<rparr>, [])
      else (s\<lparr>ks_pending_requests := fst (take_request canonical_header_access (ks_pending_requests s) i)\<rparr>, []))"
proof -
  have "activate_from_seed h n [] pools tokens [] =
      ((init h n)\<lparr>ks_pool_registry := pools, ks_token_registry := tokens\<rparr>, [])" for h n pools tokens
    by (simp add: activate_from_seed_def from_seed_def missing_parents_def graph_new_def
        List.map_filter_simps init_def blocks_new_def)
  then show ?thesis
    by (simp add: transition_def canonical_header_received_def split_beta Let_def)
qed

lemma key_by_log_index_entries:
  assumes "(k, l) \<in> set (key_by_log_index logs)"
  shows "k = pl_log_index l"
proof -
  let ?es = "map (\<lambda>l. (pl_log_index l, l)) logs"
  have "bm_wf (key_by_log_index logs)" by (simp add: key_by_log_index_def)
  then have "map_of (key_by_log_index logs) k = Some l"
    using assms by (simp add: hm_wf_in_set bm_wf_hm_wf)
  moreover have "map_of (key_by_log_index logs) k = map_of (rev ?es) k"
    unfolding key_by_log_index_def bm_collect_def map_of_bm_extend
    by (cases "map_of (rev ?es) k") simp_all
  ultimately have "map_of (rev ?es) k = Some l" by simp
  then have "(k, l) \<in> set (rev ?es)" by (rule map_of_SomeD)
  then show ?thesis by auto
qed

lemma bm_extend_self: "bm_wf m \<Longrightarrow> bm_extend [] m = m"
  by (rule bm_ext) (auto simp: map_of_bm_extend map_of_rev_wf bm_wf_hm_wf fun_eq_iff split: option.split)

lemma key_by_log_index_staged:
  "key_by_log_index (map snd (bm_extend [] (key_by_log_index logs))) = key_by_log_index logs"
proof -
  have wf: "bm_wf (key_by_log_index logs)" by (simp add: key_by_log_index_def)
  have "map (\<lambda>l. (pl_log_index l, l)) (map snd (key_by_log_index logs)) = key_by_log_index logs"
    unfolding map_map by (rule map_idI) (auto dest: key_by_log_index_entries)
  then show ?thesis
    by (simp add: bm_extend_self [OF wf] key_by_log_index_def [of "map snd _"] bm_collect_def)
qed

lemma streamed_staged:
  "with_streamed_logs g h (map snd (bm_extend [] (key_by_log_index logs))) = with_streamed_logs g h logs"
proof -
  have "merge_streamed (map snd (bm_extend [] (key_by_log_index logs))) = merge_streamed logs"
    unfolding merge_streamed_def key_by_log_index_staged ..
  then show ?thesis by (simp add: with_streamed_logs_def)
qed

lemma head_blocks:
  assumes "with_block_capped (ks_graph s) h parent n b (max_pending_blocks chain) = (g, Admitted)"
  shows "ks_blocks (fst (transition B chain s (HeadObserved h parent b n))) =
    ks_blocks (with_streamed_logs_drained (map_graph (\<lambda>_. with_observed_head g h) s) h)"
proof -
  let ?s = "with_streamed_logs_drained (map_graph (\<lambda>_. with_observed_head g h) s) h"
  have "transition B chain s (HeadObserved h parent b n) =
      with_finality_probe_if_orphan_suspected h n (schedule_unknown_canonical_requests B chain (?s, []))"
    using assms by (simp add: transition_def head_observed_def with_log_head_observed_def)
  moreover have "ks_blocks (fst (with_finality_probe_if_orphan_suspected h n x)) = ks_blocks (fst x)" for x
    using probe_state [of h n "fst x" "snd x"] by simp
  ultimately show ?thesis using schedule_state [of B chain ?s "[]"] by simp
qed

lemma log_blocks:
  "ks_blocks (fst (transition B chain s (LogObserved h logs))) =
     (if graph_contains (ks_graph s) h then ks_blocks (with_log_streamed s h logs) else ks_blocks s)"
  using schedule_state [of B chain "with_log_streamed s h logs" "[]"]
  by (simp add: transition_def with_streamed_logs_buffered_def)

text \<open>
  The order of a block and of its streamed logs does not matter. When the logs of an unseen block
  arrive first and the head after them, or the head first and the logs after it, the blocks end up the
  same: the block is admitted with exactly these logs, streamed.
\<close>

lemma logs_and_head_commute:
  assumes "kernel_ok chain s" and "\<not> graph_contains (ks_graph s) h" and "\<not> hm_contains (ks_streamed_logs s) h"
    and "length (ks_streamed_logs s) < MAX_STREAMED_LOG_BLOCKS"
    and adm: "snd (with_block_capped (ks_graph s) h parent n b (max_pending_blocks chain)) = Admitted"
  shows "let log_first = fst (transition B chain (fst (transition B chain s (LogObserved h logs))) (HeadObserved h parent b n));
      head_first = fst (transition B chain (fst (transition B chain s (HeadObserved h parent b n))) (LogObserved h logs))
    in ks_blocks log_first = ks_blocks head_first \<and>
      flat (ks_graph head_first) h =
        Some (parent, \<lparr>bd_number = n, bd_logs_bloom = Some b, bd_logs = Streamed (key_by_log_index logs)\<rparr>)"
proof -
  let ?d = "\<lparr>bd_number = n, bd_logs_bloom = Some b, bd_logs = Unknown\<rparr>"
  obtain g where res: "with_block_capped (ks_graph s) h parent n b (max_pending_blocks chain) = (g, Admitted)"
    using adm by (metis prod.collapse)
  let ?g = "with_observed_head g h"
  have "flat g = (flat (ks_graph s))(h \<mapsto> (parent, ?d))"
    using admit_cases [OF kernel_okD(1) [OF assms(1)] res [unfolded with_block_capped_def]] by simp
  moreover have "flat ?g = flat g"
    by (rule ext) (simp add: flat_def with_observed_head_def anchor_hash_def)
  ultimately have flat: "flat ?g h = Some (parent, ?d)" by simp
  then have g: "graph_contains ?g h" by (simp add: contains_flat)
  have head: "ks_blocks (fst (transition B chain s (HeadObserved h parent b n))) = (ks_blocks s)\<lparr>bl_graph := ?g\<rparr>"
    unfolding head_blocks [OF res] using assms(3)
    by (simp add: with_streamed_logs_drained_def hm_contains_def map_graph_def)
  let ?head_first = "fst (transition B chain (fst (transition B chain s (HeadObserved h parent b n))) (LogObserved h logs))"
  let ?log_first = "fst (transition B chain (fst (transition B chain s (LogObserved h logs))) (HeadObserved h parent b n))"
  have hf: "ks_blocks ?head_first = (ks_blocks s)\<lparr>bl_graph := with_streamed_logs ?g h logs\<rparr>"
    unfolding log_blocks head using g by (simp add: with_log_streamed_def map_graph_def head)
  let ?s = "with_streamed_logs_buffered s h logs"
  have buf: "fst (transition B chain s (LogObserved h logs)) = ?s"
    using assms(2) by (simp add: transition_def)
  have s: "ks_blocks ?s = ks_blocks s" "map_of (ks_streamed_logs ?s) h = Some (bm_extend [] (key_by_log_index logs))"
    using assms(3,4) by (simp_all add: with_streamed_logs_buffered_def hm_contains_def)
  have "ks_blocks ?log_first = (ks_blocks s)\<lparr>bl_graph := with_streamed_logs ?g h logs\<rparr>"
    unfolding buf using res g s head_blocks [of ?s h parent n b chain g B]
    by (simp add: with_streamed_logs_drained_def map_graph_def with_log_streamed_def streamed_staged)
  then show ?thesis
    using hf flat by (simp add: Let_def with_streamed_logs_def flat_update_data merge_streamed_def)
qed

section \<open>Runs\<close>

text \<open>The driver's loop: the events in order, the effects collected.\<close>

fun run_events :: "bloom_ops \<Rightarrow> chain_key \<Rightarrow> kernel_state \<Rightarrow> event list \<Rightarrow> kernel_state \<times> effect list" where
  "run_events B chain s [] = (s, [])"
| "run_events B chain s (e # es) =
     (let (s1, effects1) = transition B chain s e;
          (s2, effects2) = run_events B chain s1 es
      in (s2, effects1 @ effects2))"

text \<open>A bloom filter reduced to one flag: the filter 1 may contain every address, any other none.\<close>

definition flag_bloom :: bloom_ops where
  "flag_bloom = \<lparr>bloom_pattern = (\<lambda>_. 1), bloom_contains = (=)\<rparr>"

end
