(* ===== verification/Server.thy ===== *)
theory Server
  imports KernelLaws
begin

text \<open>
  The lifecycle of the server (aa-server core.rs): the registries are read from disk, the chain is
  anchored at the finalized header, and from then on the kernel of the one served chain runs. The
  properties at the end compare it with the bare kernel it carries.
\<close>

definition CHAIN :: chain_key where
  "CHAIN = Ethereum"

record anchor_header =
  ah_hash :: block_hash
  ah_number :: u64

record registry_seed =
  rs_pool_registry :: trusted_pool_registry
  rs_token_registry :: token_registry

datatype server_state = AwaitingSeed | AwaitingAnchor registry_seed | Running kernel_state

datatype server_input =
  RegistrySeed registry_seed
| FinalizedHeader "anchor_header option"
| KernelInput event
| ServerTick

datatype server_effect = KernelEffect effect | FetchFinalizedHeader | LoadRegistrySeed

definition server_init :: "server_state \<times> server_effect list" where
  "server_init = (AwaitingSeed, [LoadRegistrySeed])"

definition kernel_effects :: "effect list \<Rightarrow> server_effect list" where
  "kernel_effects effects = map KernelEffect effects"

fun server_transition :: "bloom_ops \<Rightarrow> server_state \<Rightarrow> server_input \<Rightarrow> server_state \<times> server_effect list" where
  "server_transition B AwaitingSeed (RegistrySeed seed) = (AwaitingAnchor seed, [FetchFinalizedHeader])"
| "server_transition B AwaitingSeed _ = (AwaitingSeed, [])"
| "server_transition B (AwaitingAnchor seed) (FinalizedHeader (Some anchor)) =
     (let (kernel_state, effects) =
            activate_from_seed (ah_hash anchor) (ah_number anchor) [] (rs_pool_registry seed) (rs_token_registry seed) []
      in (Running kernel_state, kernel_effects effects))"
| "server_transition B (AwaitingAnchor seed) (FinalizedHeader None) = (AwaitingAnchor seed, [FetchFinalizedHeader])"
| "server_transition B (AwaitingAnchor seed) ServerTick = (AwaitingAnchor seed, [FetchFinalizedHeader])"
| "server_transition B (AwaitingAnchor seed) (KernelInput _) = (AwaitingAnchor seed, [])"
| "server_transition B (AwaitingAnchor seed) (RegistrySeed _) = (AwaitingAnchor seed, [])"
| "server_transition B (Running kernel_state) (RegistrySeed _) = (Running kernel_state, [])"
| "server_transition B (Running kernel_state) (KernelInput e) =
     (let (next_state, effects) = transition B CHAIN kernel_state e
      in (Running next_state, kernel_effects effects))"
| "server_transition B (Running kernel_state) (FinalizedHeader (Some anchor)) =
     (let (next_state, effects) =
            transition B CHAIN kernel_state (FinalizedBlockObserved (ah_hash anchor) (ah_number anchor))
      in (Running next_state, kernel_effects effects))"
| "server_transition B (Running kernel_state) (FinalizedHeader None) = (Running kernel_state, [])"
| "server_transition B (Running kernel_state) ServerTick =
     (let (next_state, effects) = transition B CHAIN kernel_state TickEvent
      in (Running next_state, kernel_effects effects @ [FetchFinalizedHeader]))"

section \<open>The server as a machine\<close>

definition registry_seed_ok :: "registry_seed \<Rightarrow> bool" where
  "registry_seed_ok seed \<longleftrightarrow> pool_registry_inv CHAIN (rs_pool_registry seed) \<and> token_registry_inv (rs_token_registry seed)"

fun seed_input_ok :: "server_input \<Rightarrow> bool" where
  "seed_input_ok (RegistrySeed seed) = registry_seed_ok seed"
| "seed_input_ok _ = True"

fun server_ok :: "server_state \<Rightarrow> bool" where
  "server_ok AwaitingSeed = True"
| "server_ok (AwaitingAnchor seed) = registry_seed_ok seed"
| "server_ok (Running kernel_state) = kernel_ok CHAIN kernel_state"

lemma server_ok_step: "server_ok s \<Longrightarrow> seed_input_ok i \<Longrightarrow> server_ok (fst (server_transition B s i))"
  using kernel_ok_activate [of "[]" CHAIN] transition_kernel_ok [of CHAIN _ B]
  by (induction B s i rule: server_transition.induct)
    (fastforce simp: registry_seed_ok_def split_beta Let_def)+

interpretation srv: state_machine "\<lambda>s. s = fst server_init" "server_transition B" seed_input_ok server_ok for B
  by unfold_locales (simp_all add: server_init_def server_ok_step)

section \<open>Refinement of the kernel\<close>

text \<open>What an input of the running server means to its kernel, and the server's own effects.\<close>

fun kernel_event :: "server_input \<Rightarrow> event option" where
  "kernel_event (KernelInput e) = Some e"
| "kernel_event (FinalizedHeader (Some anchor)) = Some (FinalizedBlockObserved (ah_hash anchor) (ah_number anchor))"
| "kernel_event ServerTick = Some TickEvent"
| "kernel_event _ = None"

definition kernel_events :: "server_input list \<Rightarrow> event list" where
  "kernel_events inputs = List.map_filter kernel_event inputs"

definition kernel_requests :: "server_effect list \<Rightarrow> effect list" where
  "kernel_requests effects = List.map_filter (\<lambda>e. case e of KernelEffect k \<Rightarrow> Some k | _ \<Rightarrow> None) effects"

definition polls :: "server_effect list \<Rightarrow> nat" where
  "polls effects = length (filter (\<lambda>e. e = FetchFinalizedHeader) effects)"

definition seed_loads :: "server_effect list \<Rightarrow> nat" where
  "seed_loads effects = length (filter (\<lambda>e. e = LoadRegistrySeed) effects)"

definition ticks :: "server_input list \<Rightarrow> nat" where
  "ticks inputs = length (filter (\<lambda>i. i = ServerTick) inputs)"

definition no_seed :: "server_input \<Rightarrow> bool" where
  "no_seed i \<longleftrightarrow> (\<nexists>seed. i = RegistrySeed seed)"

definition no_anchor :: "server_input \<Rightarrow> bool" where
  "no_anchor i \<longleftrightarrow> (\<nexists>anchor. i = FinalizedHeader (Some anchor))"

lemma effect_projections [simp]:
  "kernel_requests (kernel_effects es) = es" "polls (kernel_effects es) = 0" "seed_loads (kernel_effects es) = 0"
  "kernel_requests (xs @ ys) = kernel_requests xs @ kernel_requests ys"
  "polls (xs @ ys) = polls xs + polls ys" "seed_loads (xs @ ys) = seed_loads xs + seed_loads ys"
  "kernel_requests [] = []" "polls [] = 0" "seed_loads [] = 0"
  "kernel_requests [FetchFinalizedHeader] = []" "polls [FetchFinalizedHeader] = 1" "seed_loads [FetchFinalizedHeader] = 0"
  "kernel_requests (FetchFinalizedHeader # xs) = kernel_requests xs" "polls (FetchFinalizedHeader # xs) = Suc (polls xs)"
  "seed_loads (FetchFinalizedHeader # xs) = seed_loads xs"
  by (induction es) (simp_all add: kernel_requests_def kernel_effects_def polls_def seed_loads_def map_filter_def comp_def)

lemma events_simps [simp]:
  "kernel_events [] = []"
  "kernel_events (i # inputs) = (case kernel_event i of None \<Rightarrow> [] | Some e \<Rightarrow> [e]) @ kernel_events inputs"
  "ticks [] = 0" "ticks (i # inputs) = (if i = ServerTick then 1 else 0) + ticks inputs"
  by (simp_all add: kernel_events_def map_filter_simps ticks_def split: option.splits)

lemma running_run:
  "srv.run B (Running k) inputs = Running (kern.run B CHAIN k (kernel_events inputs))"
proof (induction inputs arbitrary: k)
  case (Cons i inputs)
  then show ?case by (cases i rule: kernel_event.cases) (simp_all add: split_beta Let_def)
qed simp

lemma running_trace:
  "kernel_requests (srv.trace B (Running k) inputs) = kern.trace B CHAIN k (kernel_events inputs) \<and>
   polls (srv.trace B (Running k) inputs) = ticks inputs \<and> seed_loads (srv.trace B (Running k) inputs) = 0"
proof (induction inputs arbitrary: k)
  case (Cons i inputs)
  then show ?case by (cases i rule: kernel_event.cases) (simp_all add: split_beta Let_def)
qed simp

lemma list_all_mem: "list_all P xs \<Longrightarrow> x \<in> set xs \<Longrightarrow> P x"
  by (simp add: list_all_iff)

lemma awaiting_seed_step: "no_seed i \<Longrightarrow> server_transition B AwaitingSeed i = (AwaitingSeed, [])"
  by (cases i) (auto simp: no_seed_def)

lemma awaiting_anchor_step: "no_anchor i \<Longrightarrow> fst (server_transition B (AwaitingAnchor seed) i) = AwaitingAnchor seed"
  by (cases i rule: kernel_event.cases) (auto simp: no_anchor_def)

lemma awaiting_anchor_effects:
  "list_all no_anchor inputs \<Longrightarrow> kernel_requests (srv.trace B (AwaitingAnchor seed) inputs) = []"
proof (induction inputs)
  case (Cons i inputs)
  then show ?case by (cases i rule: kernel_event.cases) (auto simp: no_anchor_def)
qed simp

lemma awaiting_seed_run: "list_all no_seed inputs \<Longrightarrow>
    srv.run B AwaitingSeed inputs = AwaitingSeed \<and> srv.trace B AwaitingSeed inputs = []"
  by (induction inputs) (simp_all add: awaiting_seed_step)

lemma awaiting_anchor_run: "list_all no_anchor inputs \<Longrightarrow>
    srv.run B (AwaitingAnchor seed) inputs = AwaitingAnchor seed"
  by (rule srv.run_stutter) (simp add: awaiting_anchor_step list_all_mem)

lemma bare_activation_quiet: "snd (activate_from_seed h n [] pools tokens []) = []"
  by (simp add: activate_from_seed_def Let_def split_beta missing_parents_def from_seed_def graph_new_def map_filter_simps)

lemma seed_loads_step: "seed_loads (snd (server_transition B s i)) = 0"
  by (induction B s i rule: server_transition.induct) (simp_all add: split_beta Let_def)

lemma seed_loads_trace: "seed_loads (srv.trace B s inputs) = 0"
  by (induction inputs arbitrary: s) (simp_all add: seed_loads_step)

text \<open>
  C25. The server adds nothing to its kernel and loses nothing of it. However long it waits for the
  registries and however often the header probe fails, once both have arrived its state is the kernel
  activated at that header with those registries and stepped through the events that the later inputs
  stand for, and the requests it has emitted are the kernel's, in the kernel's order.
\<close>

theorem server_refines_kernel:
  assumes "list_all no_seed waiting" and "list_all no_anchor probing"
  shows "let inputs = waiting @ RegistrySeed seed # probing @ FinalizedHeader (Some anchor) # serving;
      k = fst (activate_from_seed (ah_hash anchor) (ah_number anchor) [] (rs_pool_registry seed)
            (rs_token_registry seed) [])
    in srv.run B (fst server_init) inputs = Running (kern.run B CHAIN k (kernel_events serving)) \<and>
      kernel_requests (snd server_init @ srv.trace B (fst server_init) inputs) =
        kern.trace B CHAIN k (kernel_events serving)"
proof -
  have init: "fst server_init = AwaitingSeed" "kernel_requests (snd server_init) = []"
    by (simp_all add: server_init_def kernel_requests_def map_filter_simps)
  show ?thesis
    using assms by (simp add: init srv.run_append srv.trace_append awaiting_seed_run awaiting_anchor_run
        awaiting_anchor_effects running_run running_trace bare_activation_quiet split_beta Let_def)
qed

definition demo_registries :: registry_seed where
  "demo_registries = \<lparr>rs_pool_registry = pool_registry_new, rs_token_registry = token_registry_new\<rparr>"

theorem server_refines_kernel_witness:
  "srv.run flag_bloom (fst server_init)
     ([ServerTick] @ RegistrySeed demo_registries # [FinalizedHeader None, ServerTick] @
        FinalizedHeader (Some \<lparr>ah_hash = 1, ah_number = 10\<rparr>) # [KernelInput (HeadObserved 2 1 0 11), ServerTick]) =
   Running (kern.run flag_bloom CHAIN
     (fst (activate_from_seed 1 10 [] pool_registry_new token_registry_new [])) [HeadObserved 2 1 0 11, TickEvent])"
proof -
  have "list_all no_seed [ServerTick]" "list_all no_anchor [FinalizedHeader None, ServerTick]"
    by (simp_all add: no_seed_def no_anchor_def)
  from server_refines_kernel [OF this, of demo_registries "\<lparr>ah_hash = 1, ah_number = 10\<rparr>"
      "[KernelInput (HeadObserved 2 1 0 11), ServerTick]" flag_bloom]
  show ?thesis by (simp add: Let_def demo_registries_def)
qed

text \<open>
  The server never stops moving finality forward, and never reads the disk twice. Whatever has
  arrived, the registries were asked for exactly once, at the start; and from the moment they are
  there every tick polls the finalized header and leaves the server out of its first phase, with a
  kernel that satisfies its invariant if one is running.
\<close>

lemma server_keeps_polling:
  assumes "list_all seed_input_ok inputs"
  shows "seed_loads (snd server_init @ srv.trace B (fst server_init) inputs) = 1 \<and>
    (case srv.run B (fst server_init) inputs of
       AwaitingSeed \<Rightarrow> list_all no_seed inputs
     | AwaitingAnchor seed \<Rightarrow> server_transition B (AwaitingAnchor seed) ServerTick = (AwaitingAnchor seed, [FetchFinalizedHeader])
     | Running k \<Rightarrow> kernel_ok CHAIN k \<and>
         last (snd (server_transition B (Running k) ServerTick)) = FetchFinalizedHeader)"
proof -
  let ?s = "srv.run B (fst server_init) inputs"
  have loads: "seed_loads (snd server_init) = 1" by (simp add: server_init_def seed_loads_def)
  have ok: "server_ok ?s" by (rule srv.run_from_start) (simp_all add: assms)
  have still: "list_all no_seed inputs" if "?s = AwaitingSeed"
    using that unfolding server_init_def
  proof (induction inputs rule: rev_induct)
    case (snoc i inputs)
    then show ?case
      by (cases "srv.run B AwaitingSeed inputs"; cases i rule: kernel_event.cases)
        (auto simp: srv.run_append split_beta Let_def no_seed_def)
  qed simp
  show ?thesis
    using ok still by (auto simp: seed_loads_trace loads split_beta Let_def split: server_state.split)
qed

end
