(* ===== verification/Wire.thy ===== *)
theory Wire
  imports PoolTypes "HOL-Library.Char_ord"
begin

text \<open>
  The data types of the HTTP interface (aa-wire), the parsing of their text fields (aa-client-core
  lib.rs) and the rendering of a pool state (aa-server serve.rs). Integers of 128 bits are printed and
  read by the standard library, which is modelled here; addresses, hashes, 160-bit integers and the
  24-bit tick are converted by the alloy crate, whose conversions are the parameters of \<open>wire_ops\<close>.
\<close>

section \<open>Messages\<close>

datatype pool_query = QueryV3 string | QueryV4 string

record wire_pool_state =
  wp_sqrt_price_x96 :: string
  wp_tick :: "32 word"
  wp_liquidity :: string

datatype pool_completeness = Complete wire_pool_state | Incomplete

record pool_slice =
  sl_key :: pool_query
  sl_state :: pool_completeness

record slice_response =
  sp_block_hash :: string
  sp_confirmations :: u64
  sp_pools :: "pool_slice list"

record pool_meta_entry =
  me_key :: pool_query
  me_token0 :: string
  me_token1 :: string
  me_fee_pips :: u32
  me_tick_spacing :: u16

record token_meta_entry =
  te_address :: string
  te_decimals :: u8

record pools_meta_response =
  mr_pools :: "pool_meta_entry list"
  mr_tokens :: "token_meta_entry list"

record finalized_head_dto =
  fh_number :: u64
  fh_hash :: string

datatype health_response =
  HealthAwaitingAnchor
| HealthRunning (hr_finalized: finalized_head_dto) (hr_canonical: string) (hr_pools: nat) (hr_in_flight: nat)
    (hr_ws_miss: u64) (hr_behind: "nat option")

section \<open>Text\<close>

record wire_ops =
  wo_parse_address :: "string \<Rightarrow> address option"
  wo_parse_hash :: "string \<Rightarrow> block_hash option"
  wo_parse_u160 :: "string \<Rightarrow> u160 option"
  wo_i24_of_i32 :: "32 word \<Rightarrow> i24 option"
  wo_i32_of_i24 :: "i24 \<Rightarrow> 32 word option"
  wo_show_address :: "address \<Rightarrow> string"
  wo_show_hash :: "block_hash \<Rightarrow> string"
  wo_show_u160 :: "u160 \<Rightarrow> string"

text \<open>\<open>char::to_digit(16)\<close> and \<open>u128::from_str_radix(_, 16)\<close>: an optional plus sign, at least one digit,
  and an error when the value leaves the type.\<close>

definition hex_digit :: "char \<Rightarrow> nat option" where
  "hex_digit c =
     (let n = of_char c :: nat
      in if 48 \<le> n \<and> n \<le> 57 then Some (n - 48)
         else if 97 \<le> n \<and> n \<le> 102 then Some (n - 87)
         else if 65 \<le> n \<and> n \<le> 70 then Some (n - 55)
         else None)"

fun parse_hex_digits :: "nat \<Rightarrow> nat \<Rightarrow> string \<Rightarrow> nat option" where
  "parse_hex_digits bound acc [] = Some acc"
| "parse_hex_digits bound acc (c # s) =
     (case hex_digit c of
        None \<Rightarrow> None
      | Some d \<Rightarrow> if 16 * acc + d < bound then parse_hex_digits bound (16 * acc + d) s else None)"

definition unsigned_digits :: "string \<Rightarrow> string" where
  "unsigned_digits s = (case s of [] \<Rightarrow> [] | c # rest \<Rightarrow> if c = CHR ''+'' \<and> rest \<noteq> [] then rest else s)"

definition u128_from_hex :: "string \<Rightarrow> u128 option" where
  "u128_from_hex s =
     (if unsigned_digits s = [] then None
      else map_option of_nat (parse_hex_digits (2 ^ 128) 0 (unsigned_digits s)))"

definition strip_0x :: "string \<Rightarrow> string" where
  "strip_0x value =
     (case value of
        a # b # rest \<Rightarrow> if a = CHR ''0'' \<and> (b = CHR ''x'' \<or> b = CHR ''X'') then rest else value
      | _ \<Rightarrow> value)"

text \<open>\<open>format!("{:#x}", n)\<close>.\<close>

definition hex_char :: "nat \<Rightarrow> char" where
  "hex_char d = char_of (if d < 10 then 48 + d else 87 + d)"

fun hex_digits :: "nat \<Rightarrow> string" where
  "hex_digits n = (if n < 16 then [hex_char n] else hex_digits (n div 16) @ [hex_char (n mod 16)])"

declare hex_digits.simps [simp del]

definition show_hex :: "'a::len word \<Rightarrow> string" where
  "show_hex w = ''0x'' @ hex_digits (unat w)"

section \<open>Parsing wire fields\<close>

record hex_fault =
  hf_field :: string
  hf_value :: string

definition parse_address :: "wire_ops \<Rightarrow> string \<Rightarrow> string \<Rightarrow> hex_fault + address" where
  "parse_address W value field =
     (case wo_parse_address W value of
        None \<Rightarrow> Inl \<lparr>hf_field = field, hf_value = value\<rparr>
      | Some a \<Rightarrow> Inr a)"

fun pool_ref_of :: "wire_ops \<Rightarrow> pool_query \<Rightarrow> chain_key \<Rightarrow> hex_fault + pool_ref" where
  "pool_ref_of W (QueryV3 address) chain =
     (case parse_address W address ''pool.address'' of
        Inl fault \<Rightarrow> Inl fault
      | Inr a \<Rightarrow> Inr (pool_ref_v3 a chain))"
| "pool_ref_of W (QueryV4 pool_id) chain =
     (case wo_parse_hash W pool_id of
        None \<Rightarrow> Inl \<lparr>hf_field = ''pool.pool_id'', hf_value = pool_id\<rparr>
      | Some h \<Rightarrow> Inr (pool_ref_v4 h chain))"

text \<open>The tick is echoed by \<open>to_string\<close>, a parameter of the fault only.\<close>

definition parse_pool_state :: "wire_ops \<Rightarrow> (32 word \<Rightarrow> string) \<Rightarrow> wire_pool_state \<Rightarrow> hex_fault + pool_state" where
  "parse_pool_state W show_tick state =
     (case wo_parse_u160 W (strip_0x (wp_sqrt_price_x96 state)) of
        None \<Rightarrow> Inl \<lparr>hf_field = ''sqrt_price_x96'', hf_value = wp_sqrt_price_x96 state\<rparr>
      | Some sqrt_price \<Rightarrow>
     (case u128_from_hex (strip_0x (wp_liquidity state)) of
        None \<Rightarrow> Inl \<lparr>hf_field = ''liquidity'', hf_value = wp_liquidity state\<rparr>
      | Some liquidity \<Rightarrow>
     (case wo_i24_of_i32 W (wp_tick state) of
        None \<Rightarrow> Inl \<lparr>hf_field = ''tick'', hf_value = show_tick (wp_tick state)\<rparr>
      | Some tick \<Rightarrow> Inr \<lparr>ps_sqrt_price_x96 = sqrt_price, ps_tick = tick, ps_liquidity = liquidity\<rparr>)))"

section \<open>Rendering\<close>

definition wire_pool_state_of :: "wire_ops \<Rightarrow> pool_state \<Rightarrow> wire_pool_state" where
  "wire_pool_state_of W s =
     \<lparr>wp_sqrt_price_x96 = wo_show_u160 W (ps_sqrt_price_x96 s),
      wp_tick = (case wo_i32_of_i24 W (ps_tick s) of None \<Rightarrow> 0 | Some t \<Rightarrow> t),
      wp_liquidity = show_hex (ps_liquidity s)\<rparr>"

fun wire_pool_query_of :: "wire_ops \<Rightarrow> pool_ref \<Rightarrow> pool_query" where
  "wire_pool_query_of W (PoolRef (UniswapV3 a) chain) = QueryV3 (wo_show_address W a)"
| "wire_pool_query_of W (PoolRef (UniswapV4 p) chain) = QueryV4 (wo_show_hash W p)"

section \<open>Round trips\<close>

lemma hex_digit_char: "d < 16 \<Longrightarrow> hex_digit (hex_char d) = Some d"
  by (auto simp: hex_digit_def hex_char_def of_char_of)

lemma parse_hex_append:
  "parse_hex_digits bound acc (s @ t) =
     (case parse_hex_digits bound acc s of None \<Rightarrow> None | Some acc' \<Rightarrow> parse_hex_digits bound acc' t)"
  by (induction bound acc s rule: parse_hex_digits.induct) (auto split: option.split)

lemma parse_hex_show: "n < bound \<Longrightarrow> parse_hex_digits bound 0 (hex_digits n) = Some n"
proof (induction n rule: hex_digits.induct)
  case (1 n)
  show ?case
  proof (cases "n < 16")
    case True
    with 1 show ?thesis by (simp add: hex_digits.simps [of n] hex_digit_char)
  next
    case False
    then have "parse_hex_digits bound 0 (hex_digits (n div 16)) = Some (n div 16)"
      using 1 by (meson div_le_dividend le_less_trans)
    with False 1 show ?thesis
      by (simp add: hex_digits.simps [of n] parse_hex_append hex_digit_char)
  qed
qed

lemma hex_digits_shape: "\<exists>c s. hex_digits n = c # s \<and> c \<noteq> CHR ''+''"
proof (induction n rule: hex_digits.induct)
  case (1 n)
  have "hex_char d \<noteq> CHR ''+''" if "d < 16" for d using hex_digit_char [OF that] by (auto simp: hex_digit_def)
  with 1 show ?case by (cases "n < 16") (auto simp: hex_digits.simps [of n])
qed

lemma strip_show: "strip_0x (show_hex w) = hex_digits (unat w)"
  by (simp add: strip_0x_def show_hex_def)

lemma u128_round_trip: "u128_from_hex (strip_0x (show_hex w)) = Some w"
proof -
  obtain c s where shape: "hex_digits (unat w) = c # s" "c \<noteq> CHR ''+''" using hex_digits_shape by blast
  moreover have "parse_hex_digits (2 ^ 128) 0 (hex_digits (unat w)) = Some (unat w)"
  proof (rule parse_hex_show)
    have "unat w < 2 ^ LENGTH(128)" by (rule unsigned_less)
    then show "unat w < 2 ^ 128" by simp
  qed
  ultimately show ?thesis by (simp add: u128_from_hex_def strip_show unsigned_digits_def)
qed

end
