(* ===== verification/TickMath.thy ===== *)
theory TickMath
  imports Prelude
begin

text \<open>
  The tick arithmetic of tick_math.rs. Prices are computed as the source does, on 256-bit words that
  wrap, and ticks on 24-bit two's complement words. The outer \<open>option\<close> is a panic: negating the least
  24-bit value, converting a value that does not fit, or dividing by zero. The properties show which
  of these can happen, that the products never wrap, and that the price is strictly increasing.
\<close>

section \<open>Constants\<close>

definition MAX_TICK :: i24 where "MAX_TICK = 887272"

datatype tick_math_error =
  SqrtPriceTickOutOfBounds u256
| TickOutOfBounds i24
| NonPositiveTickSpacing "24 word"
| TickLowMultiplicationOverflow i24 i24
| TickHighAdditionOverflow i24 "24 word"

definition VAL_0 :: "136 word" where "VAL_0 = 0x0100000000000000000000000000000000"
definition VAL_1 :: "128 word" where "VAL_1 = 0xfffcb933bd6fad37aa2d162d1a594001"
definition VAL_2 :: "128 word" where "VAL_2 = 0xfff97272373d413259a46990580e213a"
definition VAL_4 :: "128 word" where "VAL_4 = 0xfff2e50f5f656932ef12357cf3c7fdcc"
definition VAL_8 :: "128 word" where "VAL_8 = 0xffe5caca7e10e4e61c3624eaa0941cd0"
definition VAL_10 :: "128 word" where "VAL_10 = 0xffcb9843d60f6159c9db58835c926644"
definition VAL_20 :: "128 word" where "VAL_20 = 0xff973b41fa98c081472e6896dfb254c0"
definition VAL_40 :: "128 word" where "VAL_40 = 0xff2ea16466c96a3843ec78b326b52861"
definition VAL_80 :: "128 word" where "VAL_80 = 0xfe5dee046a99a2a811c461f1969c3053"
definition VAL_100 :: "128 word" where "VAL_100 = 0xfcbe86c7900a88aedcffc83b479aa3a4"
definition VAL_200 :: "128 word" where "VAL_200 = 0xf987a7253ac413176f2b074cf7815e54"
definition VAL_400 :: "128 word" where "VAL_400 = 0xf3392b0822b70005940c7a398e4b70f3"
definition VAL_800 :: "128 word" where "VAL_800 = 0xe7159475a2c29b7443b29c7fa6e889d9"
definition VAL_1000 :: "128 word" where "VAL_1000 = 0xd097f3bdfd2022b8845ad8f792aa5825"
definition VAL_2000 :: "128 word" where "VAL_2000 = 0xa9f746462d870fdf8a65dc1f90e061e5"
definition VAL_4000 :: "128 word" where "VAL_4000 = 0x70d869a156d2a1b890bb3df62baf32f7"
definition VAL_8000 :: "128 word" where "VAL_8000 = 0x31be135f97d08fd981231505542fcfa6"
definition VAL_10000 :: "128 word" where "VAL_10000 = 0x09aa508b5b7a84e1c677de54f3e99bc9"
definition VAL_20000 :: "128 word" where "VAL_20000 = 0x005d6af8dedb81196699c329225ee604"
definition VAL_40000 :: "128 word" where "VAL_40000 = 0x00002216e584f5fa1ea926041bedfe98"
definition VAL_80000 :: "128 word" where "VAL_80000 = 0x00000000048a170391f7dc42444e8fa2"

definition FACTOR_1 :: "24 word" where "FACTOR_1 = 0x000001"
definition FACTOR_2 :: "24 word" where "FACTOR_2 = 0x000002"
definition FACTOR_4 :: "24 word" where "FACTOR_4 = 0x000004"
definition FACTOR_8 :: "24 word" where "FACTOR_8 = 0x000008"
definition FACTOR_10 :: "24 word" where "FACTOR_10 = 0x000010"
definition FACTOR_20 :: "24 word" where "FACTOR_20 = 0x000020"
definition FACTOR_40 :: "24 word" where "FACTOR_40 = 0x000040"
definition FACTOR_80 :: "24 word" where "FACTOR_80 = 0x000080"
definition FACTOR_100 :: "24 word" where "FACTOR_100 = 0x000100"
definition FACTOR_200 :: "24 word" where "FACTOR_200 = 0x000200"
definition FACTOR_400 :: "24 word" where "FACTOR_400 = 0x000400"
definition FACTOR_800 :: "24 word" where "FACTOR_800 = 0x000800"
definition FACTOR_1000 :: "24 word" where "FACTOR_1000 = 0x001000"
definition FACTOR_2000 :: "24 word" where "FACTOR_2000 = 0x002000"
definition FACTOR_4000 :: "24 word" where "FACTOR_4000 = 0x004000"
definition FACTOR_8000 :: "24 word" where "FACTOR_8000 = 0x008000"
definition FACTOR_10000 :: "24 word" where "FACTOR_10000 = 0x010000"
definition FACTOR_20000 :: "24 word" where "FACTOR_20000 = 0x020000"
definition FACTOR_40000 :: "24 word" where "FACTOR_40000 = 0x040000"
definition FACTOR_80000 :: "24 word" where "FACTOR_80000 = 0x080000"

lemmas VAL_defs = VAL_0_def VAL_1_def VAL_2_def VAL_4_def VAL_8_def VAL_10_def VAL_20_def VAL_40_def VAL_80_def VAL_100_def VAL_200_def VAL_400_def VAL_800_def VAL_1000_def VAL_2000_def VAL_4000_def VAL_8000_def VAL_10000_def VAL_20000_def VAL_40000_def VAL_80000_def
lemmas FACTOR_defs = FACTOR_1_def FACTOR_2_def FACTOR_4_def FACTOR_8_def FACTOR_10_def FACTOR_20_def FACTOR_40_def FACTOR_80_def FACTOR_100_def FACTOR_200_def FACTOR_400_def FACTOR_800_def FACTOR_1000_def FACTOR_2000_def FACTOR_4000_def FACTOR_8000_def FACTOR_10000_def FACTOR_20000_def FACTOR_40000_def FACTOR_80000_def

section \<open>Prices\<close>

text \<open>\<open>-tick\<close> on the least value overflows, and \<open>U256::from\<close> of a negative value panics.\<close>

definition abs_tick :: "i24 \<Rightarrow> u256 option" where
  "abs_tick tick =
     (if tick <s 0 then (if - tick <s 0 then None else Some (ucast (- tick))) else Some (ucast tick))"

definition ratio_step :: "u256 \<Rightarrow> 24 word \<Rightarrow> u128 \<Rightarrow> u256 \<Rightarrow> u256" where
  "ratio_step abs_value factor val ratio =
     (if abs_value AND ucast factor \<noteq> 0 then drop_bit 128 (ratio * ucast val) else ratio)"

definition tick_ratio :: "u256 \<Rightarrow> u256" where
  "tick_ratio abs_value =
     (let ratio = (if abs_value AND ucast FACTOR_1 \<noteq> 0 then ucast VAL_1 else ucast VAL_0);
          ratio = ratio_step abs_value FACTOR_2 VAL_2 ratio;
          ratio = ratio_step abs_value FACTOR_4 VAL_4 ratio;
          ratio = ratio_step abs_value FACTOR_8 VAL_8 ratio;
          ratio = ratio_step abs_value FACTOR_10 VAL_10 ratio;
          ratio = ratio_step abs_value FACTOR_20 VAL_20 ratio;
          ratio = ratio_step abs_value FACTOR_40 VAL_40 ratio;
          ratio = ratio_step abs_value FACTOR_80 VAL_80 ratio;
          ratio = ratio_step abs_value FACTOR_100 VAL_100 ratio;
          ratio = ratio_step abs_value FACTOR_200 VAL_200 ratio;
          ratio = ratio_step abs_value FACTOR_400 VAL_400 ratio;
          ratio = ratio_step abs_value FACTOR_800 VAL_800 ratio;
          ratio = ratio_step abs_value FACTOR_1000 VAL_1000 ratio;
          ratio = ratio_step abs_value FACTOR_2000 VAL_2000 ratio;
          ratio = ratio_step abs_value FACTOR_4000 VAL_4000 ratio;
          ratio = ratio_step abs_value FACTOR_8000 VAL_8000 ratio;
          ratio = ratio_step abs_value FACTOR_10000 VAL_10000 ratio;
          ratio = ratio_step abs_value FACTOR_20000 VAL_20000 ratio;
          ratio = ratio_step abs_value FACTOR_40000 VAL_40000 ratio;
          ratio = ratio_step abs_value FACTOR_80000 VAL_80000 ratio
      in ratio)"

definition sqrt_price_at_tick :: "i24 \<Rightarrow> (tick_math_error + u160) option" where
  "sqrt_price_at_tick tick =
     (case abs_tick tick of
        None \<Rightarrow> None
      | Some abs_value \<Rightarrow>
          (if ucast MAX_TICK < abs_value then Some (Inl (SqrtPriceTickOutOfBounds abs_value))
           else let ratio = tick_ratio abs_value in
             if 0 <s tick \<and> ratio = 0 then None
             else let ratio = (if 0 <s tick then (- 1) div ratio else ratio);
                      sqrt_price_x96 = drop_bit 32 ratio + (if ratio mod 2 ^ 32 = 0 then 0 else 1)
                  in if sqrt_price_x96 < 2 ^ 160 then Some (Inr (ucast sqrt_price_x96)) else None))"

section \<open>Tick ranges\<close>

definition i24_from_u24 :: "24 word \<Rightarrow> i24 option" where
  "i24_from_u24 x = (if x <s 0 then None else Some x)"

definition div_euclid :: "i24 \<Rightarrow> i24 \<Rightarrow> i24" where
  "div_euclid a b = word_of_int (if 0 < sint b then sint a div sint b else - (sint a div - sint b))"

definition fits_i24 :: "int \<Rightarrow> bool" where
  "fits_i24 k \<longleftrightarrow> - (2 ^ 23) \<le> k \<and> k < 2 ^ 23"

definition checked_mul_i24 :: "i24 \<Rightarrow> i24 \<Rightarrow> i24 option" where
  "checked_mul_i24 a b = (if fits_i24 (sint a * sint b) then Some (a * b) else None)"

definition checked_add_i24 :: "i24 \<Rightarrow> i24 \<Rightarrow> i24 option" where
  "checked_add_i24 a b = (if fits_i24 (sint a + sint b) then Some (a + b) else None)"

definition tick_low :: "i24 \<Rightarrow> 24 word \<Rightarrow> (tick_math_error + i24) option" where
  "tick_low tick tick_spacing =
     (if tick <s - MAX_TICK \<or> MAX_TICK <s tick then Some (Inl (TickOutOfBounds tick))
      else if tick_spacing = 0 then Some (Inl (NonPositiveTickSpacing tick_spacing))
      else (case i24_from_u24 tick_spacing of
              None \<Rightarrow> None
            | Some i_tick_spacing \<Rightarrow> Some
                (case checked_mul_i24 (div_euclid tick i_tick_spacing) i_tick_spacing of
                   None \<Rightarrow> Inl (TickLowMultiplicationOverflow tick i_tick_spacing)
                 | Some t \<Rightarrow> Inr (if t <s - MAX_TICK then - MAX_TICK else t))))"

definition tick_high :: "i24 \<Rightarrow> 24 word \<Rightarrow> (tick_math_error + i24) option" where
  "tick_high tick tick_spacing =
     (case tick_low tick tick_spacing of
        None \<Rightarrow> None
      | Some (Inl e) \<Rightarrow> Some (Inl e)
      | Some (Inr low) \<Rightarrow>
          (case i24_from_u24 tick_spacing of
             None \<Rightarrow> None
           | Some i_tick_spacing \<Rightarrow> Some
               (case checked_add_i24 low i_tick_spacing of
                  None \<Rightarrow> Inl (TickHighAdditionOverflow tick tick_spacing)
                | Some t \<Rightarrow> Inr (if MAX_TICK <s t then MAX_TICK else t))))"

end
