(* ===== verification/TickLaws.thy ===== *)
theory TickLaws
  imports TickMath
begin

text \<open>
  The price function of tick_math.rs as an integer function of the bits of a tick: the products do not
  wrap, a tick with more bits has a smaller ratio, and consecutive ticks are apart by more than what
  the rounding of twenty steps can lose.
\<close>

section \<open>The chain of products\<close>

definition ratio_table :: "(24 word \<times> u128) list" where
  "ratio_table =
     [(FACTOR_1, VAL_1), (FACTOR_2, VAL_2), (FACTOR_4, VAL_4), (FACTOR_8, VAL_8), (FACTOR_10, VAL_10),
      (FACTOR_20, VAL_20), (FACTOR_40, VAL_40), (FACTOR_80, VAL_80), (FACTOR_100, VAL_100), (FACTOR_200, VAL_200),
      (FACTOR_400, VAL_400), (FACTOR_800, VAL_800), (FACTOR_1000, VAL_1000), (FACTOR_2000, VAL_2000), (FACTOR_4000, VAL_4000),
      (FACTOR_8000, VAL_8000), (FACTOR_10000, VAL_10000), (FACTOR_20000, VAL_20000), (FACTOR_40000, VAL_40000), (FACTOR_80000, VAL_80000)]"

lemma tick_ratio_fold: "tick_ratio a = fold (\<lambda>(f, v). ratio_step a f v) ratio_table (2 ^ 128)"
proof -
  have "ratio_step a FACTOR_1 VAL_1 (2 ^ 128) =
      (if a AND ucast FACTOR_1 \<noteq> 0 then ucast VAL_1 else ucast VAL_0)"
    by (simp add: ratio_step_def VAL_1_def VAL_0_def)
  then show ?thesis by (simp only: tick_ratio_def ratio_table_def Let_def fold_simps prod.case o_apply)
qed

fun ratio_chain :: "int list \<Rightarrow> bool list \<Rightarrow> int \<Rightarrow> int" where
  "ratio_chain (v # vs) (b # bs) x = ratio_chain vs bs (if b then x * v div 2 ^ 128 else x)"
| "ratio_chain _ _ x = x"

lemma uint_ucast_256: "uint (ucast (v :: u128) :: u256) = uint v"
  by (simp add: unsigned_ucast_eq take_bit_int_eq_self_iff order_less_trans [OF uint_lt2p [of v]])

lemma uint_ratio_step:
  assumes "uint r \<le> 2 ^ 128"
  shows "uint (ratio_step a f v r) = (if a AND ucast f \<noteq> 0 then uint r * uint v div 2 ^ 128 else uint r)"
    and "uint (ratio_step a f v r) \<le> 2 ^ 128"
proof -
  have v: "uint v < 2 ^ 128" using uint_lt2p [of v] by simp
  have "uint r * uint v \<le> 2 ^ 128 * uint v" by (rule mult_right_mono) (use assms in simp_all)
  moreover have "(2::int) ^ 128 * uint v < 2 ^ 128 * 2 ^ 128" using v by simp
  ultimately have m: "uint r * uint v < 2 ^ 256" by simp
  then have p: "uint (r * ucast v) = uint r * uint v"
    using uint_mult_lem [of r "ucast v"] by (simp add: uint_ucast_256)
  show e: "uint (ratio_step a f v r) = (if a AND ucast f \<noteq> 0 then uint r * uint v div 2 ^ 128 else uint r)"
    by (simp add: ratio_step_def drop_bit_eq_div uint_div_distrib p)
  have "uint r * uint v div 2 ^ 128 \<le> uint v"
    using \<open>uint r * uint v \<le> 2 ^ 128 * uint v\<close> zdiv_mono1 [of "uint r * uint v" "2 ^ 128 * uint v" "2 ^ 128"] by simp
  then show "uint (ratio_step a f v r) \<le> 2 ^ 128" using v assms by (simp add: e)
qed

lemma uint_ratio_fold:
  "uint r \<le> 2 ^ 128 \<Longrightarrow> uint (fold (\<lambda>(f, v). ratio_step a f v) tbl r) =
     ratio_chain (map (uint \<circ> snd) tbl) (map (\<lambda>(f, v). a AND ucast f \<noteq> 0) tbl) (uint r)"
proof (induction tbl arbitrary: r)
  case (Cons e tbl)
  then show ?case using uint_ratio_step [of r] by (cases e) simp
qed simp

fun bits :: "nat \<Rightarrow> int \<Rightarrow> bool list" where
  "bits 0 m = []"
| "bits (Suc k) m = odd m # bits k (m div 2)"

lemma length_bits [simp]: "length (bits k m) = k"
  by (induction k arbitrary: m) simp_all

definition ratio_vals :: "int list" where
  "ratio_vals = map (uint \<circ> snd) ratio_table"

lemma and_power_bit: "k < 256 \<Longrightarrow> (a :: u256) AND 2 ^ k \<noteq> 0 \<longleftrightarrow> odd (uint a div 2 ^ k)"
  using bit_uint_iff [of a k] by (simp add: and_exp_eq_0_iff_not_bit) (simp add: bit_iff_odd)

lemma factor_bits: "map (\<lambda>(f, v). (a :: u256) AND ucast f \<noteq> 0) ratio_table = bits 20 (uint a)"
proof -
  have f: "(ucast FACTOR_1 :: u256) = 2 ^ 0" "(ucast FACTOR_2 :: u256) = 2 ^ 1" "(ucast FACTOR_4 :: u256) = 2 ^ 2"
    "(ucast FACTOR_8 :: u256) = 2 ^ 3" "(ucast FACTOR_10 :: u256) = 2 ^ 4" "(ucast FACTOR_20 :: u256) = 2 ^ 5"
    "(ucast FACTOR_40 :: u256) = 2 ^ 6" "(ucast FACTOR_80 :: u256) = 2 ^ 7" "(ucast FACTOR_100 :: u256) = 2 ^ 8"
    "(ucast FACTOR_200 :: u256) = 2 ^ 9" "(ucast FACTOR_400 :: u256) = 2 ^ 10" "(ucast FACTOR_800 :: u256) = 2 ^ 11"
    "(ucast FACTOR_1000 :: u256) = 2 ^ 12" "(ucast FACTOR_2000 :: u256) = 2 ^ 13" "(ucast FACTOR_4000 :: u256) = 2 ^ 14"
    "(ucast FACTOR_8000 :: u256) = 2 ^ 15" "(ucast FACTOR_10000 :: u256) = 2 ^ 16" "(ucast FACTOR_20000 :: u256) = 2 ^ 17"
    "(ucast FACTOR_40000 :: u256) = 2 ^ 18" "(ucast FACTOR_80000 :: u256) = 2 ^ 19"
    by (simp_all add: FACTOR_defs)
  have "bits 20 (uint a) = map (\<lambda>k. odd (uint a div 2 ^ k)) [0..<20]"
    by (simp add: numeral_eq_Suc upt_rec zdiv_zmult2_eq [symmetric])
  then show ?thesis
    by (simp add: ratio_table_def f and_power_bit and_power_bit [of 0, simplified] and_power_bit [of 1, simplified]
        upt_rec del: power_numeral) simp
qed

lemma uint_tick_ratio: "uint (tick_ratio a) = ratio_chain ratio_vals (bits 20 (uint a)) (2 ^ 128)"
  using uint_ratio_fold [of "2 ^ 128" a ratio_table] by (simp add: tick_ratio_fold ratio_vals_def factor_bits)

section \<open>Rounding\<close>

definition valid_vals :: "int list \<Rightarrow> bool" where
  "valid_vals vs \<longleftrightarrow> list_all (\<lambda>v. 0 \<le> v \<and> v < 2 ^ 128) vs"

lemma valid_vals_Cons [simp]: "valid_vals (v # vs) \<longleftrightarrow> 0 \<le> v \<and> v < 2 ^ 128 \<and> valid_vals vs"
  by (auto simp: valid_vals_def)

lemma valid_ratio_vals: "valid_vals ratio_vals"
  using uint_lt2p [where 'a = 128] by (simp add: ratio_vals_def valid_vals_def list_all_iff)

lemma product_range:
  assumes "0 \<le> x" and "0 \<le> v" and "v < 2 ^ 128"
  shows "0 \<le> x * v div 2 ^ 128" and "x * v div 2 ^ 128 \<le> (x :: int)"
proof -
  have "x * v \<le> x * 2 ^ 128" using assms by (intro mult_left_mono) simp_all
  then have "x * v div 2 ^ 128 \<le> x * 2 ^ 128 div 2 ^ 128" by (rule zdiv_mono1) simp
  then show "x * v div 2 ^ 128 \<le> x" by simp
  show "0 \<le> x * v div 2 ^ 128" using assms by (simp add: pos_imp_zdiv_nonneg_iff)
qed

lemma ratio_chain_range:
  "valid_vals vs \<Longrightarrow> 0 \<le> x \<Longrightarrow> 0 \<le> ratio_chain vs bs x \<and> ratio_chain vs bs x \<le> x"
proof (induction vs bs x rule: ratio_chain.induct)
  case (1 v vs b bs x)
  then show ?case using product_range [of x v] by auto
qed simp_all

text \<open>A gap of one part in 25000 between two products survives the common factors, up to the rounding.\<close>

lemma gap_step:
  fixes M :: int
  assumes gap: "25001 * y \<le> 25000 * (x + k)" and "0 \<le> k" and "0 \<le> v" and "v < M"
  shows "25001 * (y * v div M) \<le> 25000 * (x * v div M + (k + 1))"
proof -
  have M: "0 < M" using assms by simp
  have x: "x * v \<le> (x * v div M) * M + M"
    using div_mult_mod_eq [of "x * v" M] pos_mod_bound [OF M, of "x * v"] by linarith
  have y: "(y * v div M) * M \<le> y * v"
    using div_mult_mod_eq [of "y * v" M] pos_mod_sign [OF M, of "y * v"] by linarith
  have k: "k * v \<le> k * M" using assms by (intro mult_left_mono) simp_all
  have "25001 * (y * v) \<le> 25000 * (x * v + k * v)"
    using mult_right_mono [OF gap \<open>0 \<le> v\<close>] by (simp add: algebra_simps)
  also have "\<dots> \<le> 25000 * ((x * v div M) * M + M + k * M)" using add_mono [OF x k] by simp
  finally have "(25001 * (y * v div M)) * M \<le> (25000 * (x * v div M + (k + 1))) * M"
    using y by (simp add: algebra_simps)
  then show ?thesis using M by (rule mult_right_le_imp_le)
qed

lemma gap_chain:
  "25001 * y \<le> 25000 * (x + k) \<Longrightarrow> 0 \<le> k \<Longrightarrow> valid_vals vs \<Longrightarrow>
     25001 * ratio_chain vs bs y \<le> 25000 * (ratio_chain vs bs x + (k + int (length vs)))"
proof (induction vs bs x arbitrary: y k rule: ratio_chain.induct)
  case (1 v vs b bs x)
  show ?case
  proof (cases b)
    case True
    then show ?thesis
      using "1.IH" [of "y * v div 2 ^ 128" "k + 1"] "1.prems" gap_step [of y x k v "2 ^ 128"] by (simp add: algebra_simps)
  next
    case False
    then show ?thesis using "1.IH" [of y k] "1.prems" by (simp add: algebra_simps)
  qed
qed simp_all

text \<open>Each value of a table is below the product of the values before it by that gap.\<close>

fun gap_ok :: "int list \<Rightarrow> int \<Rightarrow> bool" where
  "gap_ok [] x \<longleftrightarrow> True"
| "gap_ok (v # vs) x \<longleftrightarrow> 25001 * v \<le> 25000 * x \<and> gap_ok vs (x * v div 2 ^ 128)"

lemma gap_succ:
  "gap_ok vs x \<Longrightarrow> valid_vals vs \<Longrightarrow> 0 \<le> n \<Longrightarrow> n + 1 < 2 ^ length vs \<Longrightarrow>
     25001 * ratio_chain vs (bits (length vs) (n + 1)) (2 ^ 128)
       \<le> 25000 * (ratio_chain vs (bits (length vs) n) x + int (length vs))"
proof (induction vs arbitrary: x n)
  case (Cons v vs)
  show ?case
  proof (cases "even n")
    case True
    then have "(n + 1) div 2 = n div 2" by (simp add: even_succ_div_two)
    then show ?thesis
      using gap_chain [of v x 0 vs "bits (length vs) (n div 2)"] Cons.prems True by simp
  next
    case False
    then have "(n + 1) div 2 = n div 2 + 1" and "n div 2 + 1 < 2 ^ length vs"
      using Cons.prems by (auto elim!: oddE)
    then show ?thesis
      using Cons.IH [of "x * v div 2 ^ 128" "n div 2"] Cons.prems False by simp
  qed
qed simp

lemma ratio_vals_eq: "ratio_vals =
    [0xfffcb933bd6fad37aa2d162d1a594001, 0xfff97272373d413259a46990580e213a, 0xfff2e50f5f656932ef12357cf3c7fdcc,
     0xffe5caca7e10e4e61c3624eaa0941cd0, 0xffcb9843d60f6159c9db58835c926644, 0xff973b41fa98c081472e6896dfb254c0,
     0xff2ea16466c96a3843ec78b326b52861, 0xfe5dee046a99a2a811c461f1969c3053, 0xfcbe86c7900a88aedcffc83b479aa3a4,
     0xf987a7253ac413176f2b074cf7815e54, 0xf3392b0822b70005940c7a398e4b70f3, 0xe7159475a2c29b7443b29c7fa6e889d9,
     0xd097f3bdfd2022b8845ad8f792aa5825, 0xa9f746462d870fdf8a65dc1f90e061e5, 0x70d869a156d2a1b890bb3df62baf32f7,
     0x31be135f97d08fd981231505542fcfa6, 0x9aa508b5b7a84e1c677de54f3e99bc9, 0x5d6af8dedb81196699c329225ee604,
     0x2216e584f5fa1ea926041bedfe98, 0x48a170391f7dc42444e8fa2]"
  by (simp add: ratio_vals_def ratio_table_def VAL_defs)

lemma length_ratio_vals: "length ratio_vals = 20"
  by (simp add: ratio_vals_def ratio_table_def)

lemma table_gap: "gap_ok ratio_vals (2 ^ 128)"
  by (simp add: ratio_vals_eq)

definition exact_ratio :: "int \<Rightarrow> int" where
  "exact_ratio n = ratio_chain ratio_vals (bits 20 n) (2 ^ 128)"

lemma least_ratio: "exact_ratio 887272 = 18447437462383981825"
proof -
  have b: "bits 20 887272 = [False, False, False, True, False, True, True, True, True, False, False, True,
      False, False, False, True, True, False, True, True]"
    by (simp add: numeral_eq_Suc)
  show ?thesis unfolding exact_ratio_def ratio_vals_eq b by simp
qed

lemma ratio_gap: "0 \<le> n \<Longrightarrow> n < 887272 \<Longrightarrow> 25001 * exact_ratio (n + 1) \<le> 25000 * (exact_ratio n + 20)"
  using gap_succ [OF table_gap valid_ratio_vals, of n] by (simp add: exact_ratio_def length_ratio_vals)

lemma ratio_lower: "0 \<le> n \<Longrightarrow> n \<le> 887272 \<Longrightarrow> 18447437462383981825 \<le> exact_ratio n"
proof (induction "nat (887272 - n)" arbitrary: n)
  case 0
  then show ?case by (simp add: least_ratio)
next
  case (Suc k)
  then have "18447437462383981825 \<le> exact_ratio (n + 1)" by simp
  moreover have "25001 * exact_ratio (n + 1) \<le> 25000 * (exact_ratio n + 20)" using ratio_gap Suc by simp
  ultimately show ?case by simp
qed

lemma ratio_upper: "exact_ratio n \<le> 2 ^ 128"
  using ratio_chain_range [OF valid_ratio_vals, of "2 ^ 128"] by (simp add: exact_ratio_def)

lemma ratio_decreases:
  assumes "0 \<le> n" and "n < 887272"
  shows "30001 * exact_ratio (n + 1) \<le> 30000 * exact_ratio n"
proof -
  have "25001 * exact_ratio (n + 1) \<le> 25000 * (exact_ratio n + 20)" using ratio_gap assms by simp
  moreover have "18447437462383981825 \<le> exact_ratio (n + 1)" using ratio_lower assms by simp
  ultimately show ?thesis by simp
qed

section \<open>Signed 24-bit ticks\<close>

lemma sint_i24_range: "- (2 ^ 23) \<le> sint (t :: i24)" "sint (t :: i24) < 2 ^ 23"
  using sint_greater_eq [of t] sint_less [of t] by simp_all

lemma sint_i24_of_int: "- (2 ^ 23) \<le> k \<Longrightarrow> k < 2 ^ 23 \<Longrightarrow> sint (word_of_int k :: i24) = k"
  by (simp add: sint_sbintrunc' signed_take_bit_int_eq_self)

lemma uint_i24_nonneg: "0 \<le> sint (t :: i24) \<Longrightarrow> uint t = sint t"
  using sint_i24_range [of t] by (simp add: uint_sint take_bit_int_eq_self)

lemma sint_i24_uminus: "sint (t :: i24) \<noteq> - (2 ^ 23) \<Longrightarrow> sint (- t) = - sint t"
  using sint_i24_range [of t] sint_i24_of_int [of "- sint t"] by (simp add: sint_word_ariths)

lemma sint_MAX_TICK: "sint MAX_TICK = 887272" "sint (- MAX_TICK) = - 887272"
  by (simp_all add: MAX_TICK_def)

lemma abs_tick_none: "abs_tick t = None \<longleftrightarrow> sint t = - (2 ^ 23)"
proof -
  consider "sint t = - (2 ^ 23)" | "sint t \<noteq> - (2 ^ 23)" by blast
  then show ?thesis
  proof cases
    case 1
    then have "sint (- t) = sint t" by (simp add: sint_word_ariths)
    with 1 show ?thesis by (simp add: abs_tick_def word_sless_alt)
  next
    case 2
    then show ?thesis using sint_i24_uminus [of t] by (auto simp: abs_tick_def word_sless_alt)
  qed
qed

lemma abs_tick_some: "sint t \<noteq> - (2 ^ 23) \<Longrightarrow> \<exists>w. abs_tick t = Some w \<and> uint w = \<bar>sint t\<bar>"
  using sint_i24_uminus [of t] uint_i24_nonneg [of t] uint_i24_nonneg [of "- t"] sint_i24_range [of t]
  by (auto simp: abs_tick_def word_sless_alt unsigned_ucast_eq take_bit_int_eq_self)

section \<open>The price of a tick\<close>

definition ceil32 :: "int \<Rightarrow> int" where
  "ceil32 r = r div 2 ^ 32 + (if r mod 2 ^ 32 = 0 then 0 else 1)"

definition exact_price :: "int \<Rightarrow> int" where
  "exact_price k = ceil32 (if 0 < k then (2 ^ 256 - 1) div exact_ratio k else exact_ratio (- k))"

lemma ceil32_floor: "ceil32 r = - (- r div 2 ^ 32)"
  by (simp add: ceil32_def zdiv_zminus1_eq_if)

lemma ceil32_mono: "r \<le> s \<Longrightarrow> ceil32 r \<le> ceil32 s"
  unfolding ceil32_floor by (simp add: zdiv_mono1)

lemma ceil32_strict:
  assumes "r + 2 ^ 32 \<le> s"
  shows "ceil32 r < ceil32 s"
proof -
  have "- s div 2 ^ 32 + 1 = (- s + 2 ^ 32) div 2 ^ 32" by simp
  also have "\<dots> \<le> - r div 2 ^ 32" using assms by (intro zdiv_mono1) simp_all
  finally show ?thesis unfolding ceil32_floor by simp
qed

lemma uint_ceil32: "uint (drop_bit 32 r + (if r mod 2 ^ 32 = 0 then 0 else 1) :: u256) = ceil32 (uint r)"
proof -
  have z: "(r mod 2 ^ 32 = 0) = (uint r mod 2 ^ 32 = 0)"
    by (simp add: word_uint_eq_iff uint_mod_distrib)
  have d: "uint (drop_bit 32 r) = uint r div 2 ^ 32" by (simp add: drop_bit_eq_div uint_div_distrib)
  have "uint (drop_bit 32 r) + 1 < 2 ^ 256" using uint_lt2p [of r] unfolding d by simp
  then show ?thesis
    using uint_add_bounded [of "drop_bit 32 r" 1] z by (simp add: ceil32_def d)
qed

lemma exact_ratio_zero: "exact_ratio 0 = 2 ^ 128"
proof -
  have "bits k 0 = replicate k False" for k by (induction k) simp_all
  moreover have "ratio_chain vs (replicate k False) x = x" for vs k x
    by (induction vs arbitrary: k) (case_tac k; simp)+
  ultimately show ?thesis by (simp add: exact_ratio_def)
qed

lemma reciprocal_lower: "0 \<le> n \<Longrightarrow> n \<le> 887272 \<Longrightarrow> 2 ^ 128 - 1 \<le> (2 ^ 256 - 1) div exact_ratio n"
  using zdiv_mono2 [of "2 ^ 256 - 1" "exact_ratio n" "2 ^ 128"] ratio_lower [of n] ratio_upper [of n] by simp

lemma exact_price_range:
  assumes "- 887272 \<le> k" and "k \<le> 887272"
  shows "4295128739 \<le> exact_price k" and "exact_price k \<le> 1461446703485210103287273052203988822378723970342"
proof -
  have r: "18447437462383981825 \<le> exact_ratio \<bar>k\<bar>" "exact_ratio \<bar>k\<bar> \<le> 2 ^ 128"
    using ratio_lower [of "\<bar>k\<bar>"] ratio_upper assms by simp_all
  have lo: "ceil32 18447437462383981825 = 4295128739" and one: "ceil32 (2 ^ 128) = 2 ^ 96"
    and hi: "ceil32 ((2 ^ 256 - 1) div 18447437462383981825) = 1461446703485210103287273052203988822378723970342"
    by (simp_all add: ceil32_def)
  show "4295128739 \<le> exact_price k"
  proof (cases "0 < k")
    case True
    then have "ceil32 18447437462383981825 \<le> exact_price k"
      unfolding exact_price_def using reciprocal_lower [of k] assms by (auto intro!: ceil32_mono)
    then show ?thesis using lo by simp
  next
    case False
    then have "ceil32 18447437462383981825 \<le> exact_price k"
      unfolding exact_price_def using r by (auto intro!: ceil32_mono)
    then show ?thesis using lo by simp
  qed
  show "exact_price k \<le> 1461446703485210103287273052203988822378723970342"
  proof (cases "0 < k")
    case True
    then have "(2 ^ 256 - 1) div exact_ratio k \<le> (2 ^ 256 - 1) div 18447437462383981825"
      using r by (intro zdiv_mono2) simp_all
    then show ?thesis using ceil32_mono hi True by (fastforce simp: exact_price_def)
  next
    case False
    then have "exact_price k \<le> ceil32 (2 ^ 128)" unfolding exact_price_def using r by (auto intro!: ceil32_mono)
    then show ?thesis using one by simp
  qed
qed

lemma reciprocal_gap:
  assumes "0 \<le> n" and "n < 887272"
  shows "(2 ^ 256 - 1) div exact_ratio n + 2 ^ 32 \<le> (2 ^ 256 - 1) div exact_ratio (n + 1)"
proof -
  define C x y q where "C = (2 ^ 256 - 1 :: int)" and "x = exact_ratio n" and "y = exact_ratio (n + 1)" and "q = C div x"
  have y: "0 < y" and xy: "30001 * y \<le> 30000 * x"
    using ratio_lower [of "n + 1"] ratio_decreases assms by (simp_all add: x_def y_def)
  have q: "2 ^ 127 \<le> q" using reciprocal_lower [of n] assms by (simp add: q_def C_def x_def)
  have "30000 * 2 ^ 32 * y \<le> q * y" using q y by (intro mult_right_mono) simp_all
  also have "\<dots> \<le> q * (30000 * (x - y))" using q xy by (intro mult_left_mono) simp_all
  finally have "(q + 2 ^ 32) * y \<le> q * x" by (simp add: algebra_simps)
  also have "\<dots> \<le> C" unfolding q_def using y xy by (simp add: minus_mod_eq_div_mult [symmetric])
  finally have "(q + 2 ^ 32) * y div y \<le> C div y" using y by (rule zdiv_mono1)
  then show ?thesis using y by (simp add: q_def C_def x_def y_def)
qed

lemma exact_price_step:
  assumes "- 887272 \<le> k" and "k < 887272"
  shows "exact_price k < exact_price (k + 1)"
proof (cases "0 \<le> k")
  case True
  have zero: "ceil32 (2 ^ 128) = ceil32 ((2 ^ 256 - 1) div exact_ratio 0)"
    by (simp add: exact_ratio_zero ceil32_def)
  then have "exact_price k = ceil32 ((2 ^ 256 - 1) div exact_ratio k)"
    using True by (cases "k = 0") (simp_all add: exact_price_def exact_ratio_zero)
  then show ?thesis
    using ceil32_strict [OF reciprocal_gap [of k]] assms True by (simp add: exact_price_def)
next
  case False
  have "30001 * exact_ratio (- k) \<le> 30000 * exact_ratio (- (k + 1))"
    using ratio_decreases [of "- (k + 1)"] assms False by simp
  moreover have "18447437462383981825 \<le> exact_ratio (- k)" using ratio_lower assms False by simp
  ultimately have "exact_ratio (- k) + 2 ^ 32 \<le> exact_ratio (- (k + 1))" by simp
  from ceil32_strict [OF this] show ?thesis using False by (simp add: exact_price_def)
qed

lemma exact_price_strict_mono:
  assumes "- 887272 \<le> j" and "j < k" and "k \<le> 887272"
  shows "exact_price j < exact_price k"
  using assms(2,1,3)
proof (induction rule: int_gr_induct)
  case base
  then show ?case using exact_price_step [of j] by simp
next
  case (step i)
  then show ?case using exact_price_step [of i] by simp
qed

lemma sqrt_price_exact:
  assumes "\<bar>sint t\<bar> \<le> 887272"
  shows "\<exists>p. sqrt_price_at_tick t = Some (Inr p) \<and> uint p = exact_price (sint t)"
proof -
  from assms obtain w where w: "abs_tick t = Some w" "uint w = \<bar>sint t\<bar>" using abs_tick_some [of t] by fastforce
  have le: "\<not> ucast MAX_TICK < w" using assms w(2) by (simp add: word_less_def MAX_TICK_def)
  have r: "uint (tick_ratio w) = exact_ratio \<bar>sint t\<bar>" by (simp add: uint_tick_ratio exact_ratio_def w(2))
  have pos: "tick_ratio w \<noteq> 0" using r ratio_lower [of "\<bar>sint t\<bar>"] assms by (auto simp: word_uint_eq_iff)
  let ?r = "if 0 <s t then (- 1) div tick_ratio w else tick_ratio w"
  let ?p = "drop_bit 32 ?r + (if ?r mod 2 ^ 32 = 0 then 0 else 1)"
  have "uint ?r = (if 0 < sint t then (2 ^ 256 - 1) div exact_ratio (sint t) else exact_ratio (- sint t))"
    using r by (simp add: word_sless_alt uint_div_distrib unsigned_minus_1_eq_mask mask_eq_exp_minus_1)
  then have p: "uint ?p = exact_price (sint t)" by (simp only: uint_ceil32 exact_price_def)
  have "- 887272 \<le> sint t" "sint t \<le> 887272" using assms by linarith+
  note b = exact_price_range [OF this]
  have "?p < 2 ^ 160" using p b(2) by (simp add: word_less_def)
  then have "sqrt_price_at_tick t = Some (Inr (ucast ?p))"
    using pos le by (simp add: sqrt_price_at_tick_def w(1) Let_def)
  moreover have "uint (ucast ?p :: u160) = exact_price (sint t)"
    using p b by (simp add: unsigned_ucast_eq take_bit_int_eq_self)
  ultimately show ?thesis by blast
qed

lemma sqrt_price_out:
  assumes "sint t \<noteq> - (2 ^ 23)" and "887272 < \<bar>sint t\<bar>"
  shows "sqrt_price_at_tick t = Some (Inl (SqrtPriceTickOutOfBounds (word_of_int \<bar>sint t\<bar>)))"
proof -
  from assms(1) obtain w where w: "abs_tick t = Some w" "uint w = \<bar>sint t\<bar>" using abs_tick_some by blast
  then have "w = word_of_int \<bar>sint t\<bar>" by (metis word_of_int_uint)
  with assms w show ?thesis by (simp add: sqrt_price_at_tick_def word_less_def MAX_TICK_def)
qed

lemma sqrt_price_panics: "sint t = - (2 ^ 23) \<Longrightarrow> sqrt_price_at_tick t = None"
  using abs_tick_none [of t] by (simp add: sqrt_price_at_tick_def)

lemma sqrt_price_SomeD:
  assumes "sqrt_price_at_tick t = Some (Inr p)"
  shows "uint p = exact_price (sint t)" and "- 887272 \<le> sint t" and "sint t \<le> 887272"
proof -
  have "\<bar>sint t\<bar> \<le> 887272" using sqrt_price_out [of t] sqrt_price_panics [of t] assms by fastforce
  then show "- 887272 \<le> sint t" "sint t \<le> 887272" "uint p = exact_price (sint t)"
    using sqrt_price_exact [of t] assms by auto
qed

text \<open>
  C16. What the price of a tick is, for every 24-bit tick. Within the bound it is a price of the protocol: the
  products never wrap, no division is by zero, the result fits its 160 bits and lies between the least
  and the greatest price. Every other tick is the error that names its magnitude, except the least
  24-bit value: its negation overflows, and the function panics before it reaches its bound check.
\<close>

theorem tick_price_in_range:
  "if sint tick = - (2 ^ 23) then sqrt_price_at_tick tick = None
   else if 887272 < \<bar>sint tick\<bar> then
     sqrt_price_at_tick tick = Some (Inl (SqrtPriceTickOutOfBounds (word_of_int \<bar>sint tick\<bar>)))
   else (\<exists>p. sqrt_price_at_tick tick = Some (Inr p) \<and> 4295128739 \<le> p \<and>
     p \<le> 1461446703485210103287273052203988822378723970342)"
proof (cases "\<bar>sint tick\<bar> \<le> 887272")
  case True
  then have b: "- 887272 \<le> sint tick" "sint tick \<le> 887272" by linarith+
  from sqrt_price_exact [OF True] obtain p where
    "sqrt_price_at_tick tick = Some (Inr p)" "uint p = exact_price (sint tick)" by blast
  with True b exact_price_range [OF b] show ?thesis by (auto simp: word_le_def)
next
  case False
  then show ?thesis using sqrt_price_out [of tick] by (simp add: sqrt_price_panics)
qed

text \<open>
  C15. The price is strictly increasing in the tick: whatever the twenty roundings lose, two different
  ticks never share a price and never change places.
\<close>

theorem tick_price_strict_mono:
  assumes "sqrt_price_at_tick a = Some (Inr p)" and "sqrt_price_at_tick b = Some (Inr q)"
  shows "p < q \<longleftrightarrow> a <s b"
proof -
  note p = sqrt_price_SomeD [OF assms(1)] and q = sqrt_price_SomeD [OF assms(2)]
  consider "sint a < sint b" | "sint a = sint b" | "sint b < sint a" by linarith
  then show ?thesis
  proof cases
    case 1
    then show ?thesis
      using exact_price_strict_mono [of "sint a" "sint b"] p q by (simp add: word_less_def word_sless_alt)
  next
    case 2
    then show ?thesis using p q by (simp add: word_less_def word_sless_alt)
  next
    case 3
    then show ?thesis
      using exact_price_strict_mono [of "sint b" "sint a"] p q by (simp add: word_less_def word_sless_alt)
  qed
qed

lemmas price_eval = sqrt_price_at_tick_def abs_tick_def tick_ratio_def ratio_step_def VAL_defs FACTOR_defs
  MAX_TICK_def

lemma price_minus_one: "sqrt_price_at_tick (- 1) = Some (Inr 79224201403219477170569942574)"
  by (simp add: price_eval word_sless_alt)

lemma price_zero: "sqrt_price_at_tick 0 = Some (Inr 79228162514264337593543950336)"
  by (simp add: price_eval)

theorem tick_price_strict_mono_witness:
  "(79224201403219477170569942574 :: u160) < 79228162514264337593543950336 \<longleftrightarrow> (- 1 :: i24) <s 0"
  by (rule tick_price_strict_mono [OF price_minus_one price_zero])

section \<open>Tick ranges\<close>

lemma spacing_cast:
  assumes "spacing \<noteq> (0 :: u16)"
  shows "i24_from_u24 (ucast spacing) = Some (ucast spacing)" and "sint (ucast spacing :: i24) = uint spacing"
    and "0 < uint spacing" and "uint spacing < 65536" and "(ucast spacing :: 24 word) \<noteq> 0"
proof -
  have u: "uint (ucast spacing :: 24 word) = uint spacing"
    using uint_lt2p [of spacing] by (simp add: unsigned_ucast_eq take_bit_int_eq_self)
  show lt: "uint spacing < 65536" using uint_lt2p [of spacing] by simp
  show "0 < uint spacing" using assms uint_ge_0 [of spacing] by (metis order_less_le unsigned_eq_0_iff)
  show s: "sint (ucast spacing :: i24) = uint spacing"
    using u lt signed_take_bit_int_eq_self [of 23 "uint spacing"]
    by (simp add: sint_uint order_trans [OF _ uint_ge_0])
  then show "i24_from_u24 (ucast spacing) = Some (ucast spacing)" by (simp add: i24_from_u24_def word_sless_alt)
  show "(ucast spacing :: 24 word) \<noteq> 0" using u \<open>0 < uint spacing\<close> by (metis order_less_irrefl unsigned_0)
qed

lemma i24_of_sint: "word_of_int (sint w) = (w :: i24)"
  by (rule signed_word_eqI) (simp add: sint_sbintrunc')

lemma floor_multiple: "0 < s \<Longrightarrow> k div s * s \<le> k \<and> k < k div s * s + (s :: int)"
  using div_mult_mod_eq [of k s] pos_mod_sign [of s k] pos_mod_bound [of s k] by linarith

lemma tick_low_exact:
  assumes t: "- 887272 \<le> sint t" "sint t \<le> 887272" and nz: "spacing \<noteq> (0 :: u16)"
  shows "\<exists>lo. tick_low t (ucast spacing) = Some (Inr lo) \<and>
    sint lo = max (- 887272) (sint t div uint spacing * uint spacing)"
proof -
  let ?s = "uint spacing" and ?S = "ucast spacing :: i24"
  note c = spacing_cast [OF nz]
  have f: "sint t div ?s * ?s \<le> sint t" "sint t < sint t div ?s * ?s + ?s" using floor_multiple [OF c(3)] by blast+
  have "((- 887272) * ?s) div ?s \<le> sint t div ?s" "sint t div ?s \<le> (887272 * ?s) div ?s"
    using t c(3) by (intro zdiv_mono1; linarith)+
  then have "- 887272 \<le> sint t div ?s" "sint t div ?s \<le> 887272"
    using c(3) by (simp_all only: nonzero_mult_div_cancel_right)
  then have q: "sint (div_euclid t ?S) = sint t div ?s"
    using c sint_i24_of_int [of "sint t div ?s"] by (simp add: div_euclid_def)
  have m: "checked_mul_i24 (div_euclid t ?S) ?S = Some (div_euclid t ?S * ?S)"
    using f c t by (simp add: checked_mul_i24_def q fits_i24_def)
  have p: "sint (div_euclid t ?S * ?S) = sint t div ?s * ?s"
  proof -
    have "div_euclid t ?S * ?S = word_of_int (sint t div ?s * ?s)"
      by (metis q c(2) wi_hom_mult i24_of_sint)
    then show ?thesis using f c t sint_i24_of_int [of "sint t div ?s * ?s"] by simp
  qed
  have "\<not> t <s - MAX_TICK" "\<not> MAX_TICK <s t" using t by (simp_all add: word_sless_alt sint_MAX_TICK)
  then show ?thesis
    using c(5) by (simp add: tick_low_def c(1) m p word_sless_alt sint_MAX_TICK max_def)
qed

lemma tick_high_exact:
  assumes t: "- 887272 \<le> sint t" "sint t \<le> 887272" and nz: "spacing \<noteq> (0 :: u16)"
    and lo: "tick_low t (ucast spacing) = Some (Inr lo)"
  shows "\<exists>hi. tick_high t (ucast spacing) = Some (Inr hi) \<and> sint hi = min 887272 (sint lo + uint spacing)"
proof -
  let ?s = "uint spacing" and ?S = "ucast spacing :: i24"
  note c = spacing_cast [OF nz]
  have "sint lo = max (- 887272) (sint t div ?s * ?s)" using tick_low_exact [OF t nz] lo by auto
  then have r: "- 887272 \<le> sint lo" "sint lo \<le> 887272" using floor_multiple [OF c(3), of "sint t"] t by auto
  have a: "checked_add_i24 lo ?S = Some (lo + ?S)" using r c by (simp add: checked_add_i24_def fits_i24_def)
  have "lo + ?S = word_of_int (sint lo + ?s)" by (metis c(2) wi_hom_add i24_of_sint)
  then have "sint (lo + ?S) = sint lo + ?s" using r c sint_i24_of_int [of "sint lo + ?s"] by simp
  then show ?thesis by (simp add: tick_high_def lo c(1) a word_sless_alt sint_MAX_TICK min_def)
qed

text \<open>
  For a tick in range and a spacing that is not zero, neither bound overflows and the tick lies in
  its range: the low end is the multiple of the spacing at or below it, or the least tick where that
  multiple is out of range; the high end is one spacing further, or the greatest tick. Only the
  greatest tick is its own high end.
\<close>

lemma tick_range_brackets:
  assumes "\<bar>sint tick\<bar> \<le> 887272" and "spacing \<noteq> (0 :: u16)"
  shows "\<exists>lo hi. tick_low tick (ucast spacing) = Some (Inr lo) \<and> tick_high tick (ucast spacing) = Some (Inr hi) \<and>
    sint lo = max (- 887272) (sint tick div uint spacing * uint spacing) \<and>
    sint hi = min 887272 (sint lo + uint spacing) \<and>
    lo \<le>s tick \<and> (tick <s hi \<or> tick = MAX_TICK \<and> hi = MAX_TICK)"
proof -
  have t: "- 887272 \<le> sint tick" "sint tick \<le> 887272" using assms(1) by linarith+
  obtain lo where lo: "tick_low tick (ucast spacing) = Some (Inr lo)"
    "sint lo = max (- 887272) (sint tick div uint spacing * uint spacing)"
    using tick_low_exact [OF t assms(2)] by blast
  obtain hi where hi: "tick_high tick (ucast spacing) = Some (Inr hi)" "sint hi = min 887272 (sint lo + uint spacing)"
    using tick_high_exact [OF t assms(2) lo(1)] by blast
  have pos: "0 < uint spacing" using spacing_cast [OF assms(2)] by simp
  from floor_multiple [OF pos, of "sint tick"] have "lo \<le>s tick"
    using lo(2) t by (simp add: word_sle_eq)
  moreover have "sint tick < sint hi \<or> sint tick = 887272 \<and> sint hi = 887272"
    using floor_multiple [OF pos, of "sint tick"] lo(2) hi(2) t pos by linarith
  then have "tick <s hi \<or> tick = MAX_TICK \<and> hi = MAX_TICK"
    using sint_MAX_TICK(1) by (metis word_sless_alt signed_word_eqI)
  ultimately show ?thesis using lo hi by blast
qed

text \<open>
  Where the low end is clamped, the high end is not a multiple of the spacing: one spacing above the
  least tick lies beyond the next boundary, which the price would have to cross.
\<close>

lemma clamped_range_passes_boundary:
  "tick_high (- 887272) 60 = Some (Inr (- 887212)) \<and> (- 887220 :: i24) <s - 887212 \<and> (60 :: int) dvd - 887220 \<and>
     (- 887272 :: i24) <s - 887220"
  by code_simp

end
