(* ===== verification/PoolMath.thy ===== *)
theory PoolMath
  imports PoolTypes TickLaws
begin

text \<open>
  Virtual reserves and swap limits of a pool (pool_state.rs): within the tick range of its price a
  pool is a constant-product market over these reserves, and the limits are what either side can take
  before the price leaves the range. The outer \<open>option\<close> is a panic of the tick arithmetic.
\<close>

type_synonym u512 = "512 word"

datatype pool_state_error =
  TickMathE tick_math_error
| SqrtPriceAtTickFailed tick_math_error pool_state
| SwapLimitXSubtractionOverflow u256 u256 i24 u16 u160 u160
| SwapLimitYSubtractionOverflow u256 u256 i24 u16 u160 u160

definition virtual_reserve_x :: "u160 \<Rightarrow> u128 \<Rightarrow> u256" where
  "virtual_reserve_x sqrt_price_x96 liquidity =
     (let liquidity_x96 = push_bit 96 (ucast liquidity)
      in if sqrt_price_x96 = 0 then 0 else liquidity_x96 div ucast sqrt_price_x96)"

text \<open>\<open>U256::from\<close> of the quotient panics when it does not fit; \<open>reserve_y_exact\<close> shows it always fits.\<close>

definition virtual_reserve_y :: "u160 \<Rightarrow> u128 \<Rightarrow> u256" where
  "virtual_reserve_y sqrt_price_x96 liquidity =
     (let q_96 = 2 ^ 96; liquidity_x96 = ucast liquidity
      in ucast ((liquidity_x96 * ucast sqrt_price_x96 :: u512) div q_96))"

definition state_virtual_reserve_x :: "pool_state \<Rightarrow> u256" where
  "state_virtual_reserve_x s = virtual_reserve_x (ps_sqrt_price_x96 s) (ps_liquidity s)"

definition state_virtual_reserve_y :: "pool_state \<Rightarrow> u256" where
  "state_virtual_reserve_y s = virtual_reserve_y (ps_sqrt_price_x96 s) (ps_liquidity s)"

definition swap_limit_x :: "pool_state \<Rightarrow> u16 \<Rightarrow> (pool_state_error + u256) option" where
  "swap_limit_x s tick_spacing =
     (case tick_low (ps_tick s) (ucast tick_spacing) of
        None \<Rightarrow> None
      | Some (Inl e) \<Rightarrow> Some (Inl (TickMathE e))
      | Some (Inr low) \<Rightarrow>
          (case sqrt_price_at_tick low of
             None \<Rightarrow> None
           | Some (Inl e) \<Rightarrow> Some (Inl (SqrtPriceAtTickFailed e s))
           | Some (Inr sqrt_price_min) \<Rightarrow>
               (let reserve_current = virtual_reserve_x (ps_sqrt_price_x96 s) (ps_liquidity s);
                    reserve_min = virtual_reserve_x sqrt_price_min (ps_liquidity s)
                in Some (case checked_sub reserve_min reserve_current of
                     None \<Rightarrow> Inl (SwapLimitXSubtractionOverflow reserve_min reserve_current (ps_tick s) tick_spacing
                               (ps_sqrt_price_x96 s) sqrt_price_min)
                   | Some limit \<Rightarrow> Inr limit))))"

definition swap_limit_y :: "pool_state \<Rightarrow> u16 \<Rightarrow> (pool_state_error + u256) option" where
  "swap_limit_y s tick_spacing =
     (case tick_high (ps_tick s) (ucast tick_spacing) of
        None \<Rightarrow> None
      | Some (Inl e) \<Rightarrow> Some (Inl (TickMathE e))
      | Some (Inr high) \<Rightarrow>
          (case sqrt_price_at_tick high of
             None \<Rightarrow> None
           | Some (Inl e) \<Rightarrow> Some (Inl (SqrtPriceAtTickFailed e s))
           | Some (Inr sqrt_price_max) \<Rightarrow>
               (let reserve_current = virtual_reserve_y (ps_sqrt_price_x96 s) (ps_liquidity s);
                    reserve_max = virtual_reserve_y sqrt_price_max (ps_liquidity s)
                in Some (case checked_sub reserve_max reserve_current of
                     None \<Rightarrow> Inl (SwapLimitYSubtractionOverflow reserve_max reserve_current (ps_tick s) tick_spacing
                               (ps_sqrt_price_x96 s) sqrt_price_max)
                   | Some limit \<Rightarrow> Inr limit))))"

section \<open>Reserves\<close>

lemma reserve_x_exact:
  "uint (virtual_reserve_x p l) = (if p = 0 then 0 else uint l * 2 ^ 96 div uint p)"
proof -
  have l: "uint l < 2 ^ 128" and p: "uint p < 2 ^ 160" using uint_lt2p [of l] uint_lt2p [of p] by simp_all
  have "uint (push_bit 96 (ucast l) :: u256) = uint l * 2 ^ 96"
    using l by (simp add: push_bit_eq_mult uint_mult_lem [THEN iffD1] unsigned_ucast_eq take_bit_int_eq_self)
  moreover have "uint (ucast p :: u256) = uint p" using p by (simp add: unsigned_ucast_eq take_bit_int_eq_self)
  ultimately show ?thesis by (simp add: virtual_reserve_x_def uint_div_distrib Let_def)
qed

lemma reserve_y_exact: "uint (virtual_reserve_y p l) = uint l * uint p div 2 ^ 96"
proof -
  have l: "uint l < 2 ^ 128" and p: "uint p < 2 ^ 160" using uint_lt2p [of l] uint_lt2p [of p] by simp_all
  have u: "uint (ucast l :: u512) = uint l" "uint (ucast p :: u512) = uint p"
    using l p by (simp_all add: unsigned_ucast_eq take_bit_int_eq_self)
  have "uint l * uint p < 2 ^ 128 * 2 ^ 160" using l p by (intro mult_strict_mono) simp_all
  then have m: "uint l * uint p < 2 ^ 288" by simp
  then have "uint (ucast l * ucast p :: u512) = uint l * uint p"
    using uint_mult_lem [of "ucast l :: u512" "ucast p"] u by simp
  moreover have "uint l * uint p div 2 ^ 96 < 2 ^ 256" using zdiv_mono1 [OF less_imp_le [OF m], of "2 ^ 96"] by simp
  ultimately show ?thesis
    by (simp add: virtual_reserve_y_def uint_div_distrib Let_def unsigned_ucast_eq take_bit_int_eq_self pos_imp_zdiv_nonneg_iff)
qed

lemma reserve_x_antitone: "0 < p \<Longrightarrow> p \<le> q \<Longrightarrow> virtual_reserve_x q l \<le> virtual_reserve_x p l"
  unfolding word_le_def reserve_x_exact
  by (auto simp: word_less_def word_le_def intro!: zdiv_mono2)

lemma reserve_y_mono: "p \<le> q \<Longrightarrow> virtual_reserve_y p l \<le> virtual_reserve_y q l"
  unfolding word_le_def reserve_y_exact by (simp add: zdiv_mono1 mult_left_mono)

section \<open>Swap limits\<close>

text \<open>
  A pool's price and tick agree when the price lies between the price of the tick and that of the next.
\<close>

definition price_in_tick :: "pool_state \<Rightarrow> bool" where
  "price_in_tick s \<longleftrightarrow>
     (case (sqrt_price_at_tick (ps_tick s), sqrt_price_at_tick (ps_tick s + 1)) of
        (Some (Inr p), Some (Inr q)) \<Rightarrow> p \<le> ps_sqrt_price_x96 s \<and> ps_sqrt_price_x96 s < q
      | _ \<Rightarrow> False)"

lemma price_in_tickD:
  assumes "price_in_tick s"
  shows "- 887272 \<le> sint (ps_tick s)" and "sint (ps_tick s) < 887272"
    and "exact_price (sint (ps_tick s)) \<le> uint (ps_sqrt_price_x96 s)"
    and "uint (ps_sqrt_price_x96 s) < exact_price (sint (ps_tick s) + 1)"
proof -
  from assms obtain p q where p: "sqrt_price_at_tick (ps_tick s) = Some (Inr p)" "p \<le> ps_sqrt_price_x96 s"
      and q: "sqrt_price_at_tick (ps_tick s + 1) = Some (Inr q)" "ps_sqrt_price_x96 s < q"
    by (cases "the (sqrt_price_at_tick (ps_tick s))"; cases "the (sqrt_price_at_tick (ps_tick s + 1))")
      (auto simp: price_in_tick_def split: option.split_asm)
  note P = sqrt_price_SomeD [OF p(1)] and Q = sqrt_price_SomeD [OF q(1)]
  have next_tick: "sint (ps_tick s + 1) = sint (ps_tick s) + 1"
    using P sint_i24_of_int [of "sint (ps_tick s) + 1"] i24_of_sint [of "ps_tick s"] by (simp flip: wi_hom_add)
  show "- 887272 \<le> sint (ps_tick s)" "sint (ps_tick s) < 887272" using P Q next_tick by simp_all
  show "exact_price (sint (ps_tick s)) \<le> uint (ps_sqrt_price_x96 s)"
    "uint (ps_sqrt_price_x96 s) < exact_price (sint (ps_tick s) + 1)"
    using P Q p q next_tick by (simp_all add: word_le_def word_less_def)
qed

lemma swap_limit_x_exact:
  assumes s: "price_in_tick s" and nz: "spacing \<noteq> 0"
  shows "\<exists>lo p. tick_low (ps_tick s) (ucast spacing) = Some (Inr lo) \<and> sqrt_price_at_tick lo = Some (Inr p) \<and>
    p \<le> ps_sqrt_price_x96 s \<and> state_virtual_reserve_x s \<le> virtual_reserve_x p (ps_liquidity s) \<and>
    swap_limit_x s spacing = Some (Inr (virtual_reserve_x p (ps_liquidity s) - state_virtual_reserve_x s))"
proof -
  note t = price_in_tickD [OF s]
  obtain lo where lo: "tick_low (ps_tick s) (ucast spacing) = Some (Inr lo)"
      "sint lo = max (- 887272) (sint (ps_tick s) div uint spacing * uint spacing)"
    using tick_low_exact [of "ps_tick s" spacing] t nz by auto
  have le: "sint lo \<le> sint (ps_tick s)"
    using lo(2) t floor_multiple [OF spacing_cast(3) [OF nz], of "sint (ps_tick s)"] by simp
  have r: "- 887272 \<le> sint lo" "sint lo \<le> 887272" using lo(2) le t by simp_all
  obtain p where p: "sqrt_price_at_tick lo = Some (Inr p)" "uint p = exact_price (sint lo)"
    using sqrt_price_exact [of lo] r by (auto simp: abs_le_iff)
  have "exact_price (sint lo) \<le> exact_price (sint (ps_tick s))"
    using exact_price_strict_mono [of "sint lo" "sint (ps_tick s)"] le r t by (cases "sint lo = sint (ps_tick s)") auto
  then have P: "p \<le> ps_sqrt_price_x96 s" using t p by (simp add: word_le_def)
  have "0 < p" using p(2) exact_price_range(1) [OF r] by (simp add: word_less_def)
  from reserve_x_antitone [OF this P] show ?thesis
    by (simp add: lo(1) p(1) P swap_limit_x_def state_virtual_reserve_x_def checked_sub_def Let_def)
qed

lemma swap_limit_y_exact:
  assumes s: "price_in_tick s" and nz: "spacing \<noteq> 0"
  shows "\<exists>hi p. tick_high (ps_tick s) (ucast spacing) = Some (Inr hi) \<and> sqrt_price_at_tick hi = Some (Inr p) \<and>
    ps_sqrt_price_x96 s < p \<and> state_virtual_reserve_y s \<le> virtual_reserve_y p (ps_liquidity s) \<and>
    swap_limit_y s spacing = Some (Inr (virtual_reserve_y p (ps_liquidity s) - state_virtual_reserve_y s))"
proof -
  note t = price_in_tickD [OF s] and c = spacing_cast(3) [OF nz]
  obtain lo where lo: "tick_low (ps_tick s) (ucast spacing) = Some (Inr lo)"
      "sint lo = max (- 887272) (sint (ps_tick s) div uint spacing * uint spacing)"
    using tick_low_exact [of "ps_tick s" spacing] t nz by auto
  obtain hi where hi: "tick_high (ps_tick s) (ucast spacing) = Some (Inr hi)" "sint hi = min 887272 (sint lo + uint spacing)"
    using tick_high_exact [OF _ _ nz lo(1)] t by auto
  have gt: "sint (ps_tick s) + 1 \<le> sint hi"
    using lo(2) hi(2) t(1,2) floor_multiple [OF c, of "sint (ps_tick s)"] by linarith
  have r: "- 887272 \<le> sint hi" "sint hi \<le> 887272" using hi(2) gt t by simp_all
  obtain p where p: "sqrt_price_at_tick hi = Some (Inr p)" "uint p = exact_price (sint hi)"
    using sqrt_price_exact [of hi] r by (auto simp: abs_le_iff)
  have "exact_price (sint (ps_tick s) + 1) \<le> exact_price (sint hi)"
    using exact_price_strict_mono [of "sint (ps_tick s) + 1" "sint hi"] gt r t by (cases "sint (ps_tick s) + 1 = sint hi") auto
  then have P: "ps_sqrt_price_x96 s < p" using t p by (simp add: word_less_def)
  from reserve_y_mono [OF less_imp_le [OF P]] show ?thesis
    by (simp add: hi(1) p(1) P swap_limit_y_def state_virtual_reserve_y_def checked_sub_def Let_def)
qed

text \<open>Neither limit can panic: the range of a tick that \<open>tick_low\<close> accepts has prices at both ends.\<close>

lemma tick_low_defined: "tick_low t (ucast (spacing :: u16)) \<noteq> None"
  using spacing_cast [of spacing] by (cases "spacing = 0") (simp_all add: tick_low_def)

lemma tick_low_InrD:
  assumes "tick_low t (ucast (spacing :: u16)) = Some (Inr lo)"
  shows "- 887272 \<le> sint t" and "sint t \<le> 887272" and "spacing \<noteq> 0"
  using assms by (auto simp: tick_low_def word_sless_alt sint_MAX_TICK split: if_split_asm option.split_asm)

lemma tick_low_price:
  assumes "tick_low t (ucast (spacing :: u16)) = Some (Inr lo)"
  shows "\<exists>p. sqrt_price_at_tick lo = Some (Inr p)"
proof -
  note t = tick_low_InrD [OF assms]
  have "sint lo = max (- 887272) (sint t div uint spacing * uint spacing)" using tick_low_exact [OF t] assms by auto
  moreover have "sint t div uint spacing * uint spacing \<le> sint t"
    using floor_multiple spacing_cast(3) [OF t(3)] by blast
  ultimately have "\<bar>sint lo\<bar> \<le> 887272" using t by linarith
  then show ?thesis using sqrt_price_exact by blast
qed

lemma tick_high_price:
  assumes "tick_low t (ucast (spacing :: u16)) = Some (Inr lo)"
  shows "\<exists>hi p. tick_high t (ucast spacing) = Some (Inr hi) \<and> sqrt_price_at_tick hi = Some (Inr p)"
proof -
  note t = tick_low_InrD [OF assms]
  obtain hi where hi: "tick_high t (ucast spacing) = Some (Inr hi)" "sint hi = min 887272 (sint lo + uint spacing)"
    using tick_high_exact [OF t assms] by blast
  have "- 887272 \<le> sint lo" using tick_low_exact [OF t] assms by auto
  then have "\<bar>sint hi\<bar> \<le> 887272" using hi(2) spacing_cast(3) [OF t(3)] by linarith
  then show ?thesis using hi(1) sqrt_price_exact by blast
qed

lemma swap_limits_defined: "swap_limit_x s spacing \<noteq> None" "swap_limit_y s spacing \<noteq> None"
proof -
  obtain r where r: "tick_low (ps_tick s) (ucast spacing) = Some r" using tick_low_defined by blast
  show "swap_limit_x s spacing \<noteq> None"
    using tick_low_price [of "ps_tick s" spacing] r
    by (cases r) (auto simp: swap_limit_x_def Let_def)
  show "swap_limit_y s spacing \<noteq> None"
    using tick_high_price [of "ps_tick s" spacing] r
    by (cases r) (auto simp: swap_limit_y_def tick_high_def Let_def)
qed

text \<open>
  For a pool whose price lies in its tick, neither swap limit can fail: the ends of the tick range
  have prices around the current one, no subtraction underflows, and each limit is the distance of the
  reserve from its value at the end of the range.
\<close>

lemma swap_limits_of_consistent_pool:
  assumes "price_in_tick s" and "spacing \<noteq> 0"
  shows "\<exists>lo hi p q. tick_low (ps_tick s) (ucast spacing) = Some (Inr lo) \<and> sqrt_price_at_tick lo = Some (Inr p) \<and>
    tick_high (ps_tick s) (ucast spacing) = Some (Inr hi) \<and> sqrt_price_at_tick hi = Some (Inr q) \<and>
    p \<le> ps_sqrt_price_x96 s \<and> ps_sqrt_price_x96 s < q \<and>
    state_virtual_reserve_x s \<le> virtual_reserve_x p (ps_liquidity s) \<and>
    state_virtual_reserve_y s \<le> virtual_reserve_y q (ps_liquidity s) \<and>
    swap_limit_x s spacing = Some (Inr (virtual_reserve_x p (ps_liquidity s) - state_virtual_reserve_x s)) \<and>
    swap_limit_y s spacing = Some (Inr (virtual_reserve_y q (ps_liquidity s) - state_virtual_reserve_y s))"
  using swap_limit_x_exact [OF assms] swap_limit_y_exact [OF assms] by (elim exE conjE) (intro exI conjI; assumption)

definition demo_state :: pool_state where
  "demo_state = \<lparr>ps_sqrt_price_x96 = 79224201403219477170569942574, ps_tick = - 1, ps_liquidity = 1000000\<rparr>"

lemma demo_state_in_tick: "price_in_tick demo_state"
  by (simp add: price_in_tick_def demo_state_def price_minus_one price_zero)

end
