(* ===== verification/RoutingFilter.thy ===== *)
theory RoutingFilter
  imports PoolTypes
begin

text \<open>
  The reserves the optimizer works on (pool_reserves.rs), the admission funnel in front of it
  (routing_filter.rs) and the validation of a snapshot (execution.rs). The filter keeps the 2-core of
  the multigraph of tokens, in the component of the source asset, after adding a virtual edge from
  source to output. A \<open>Vec\<close> used as a stack is the list whose head is its top; a \<open>HashSet\<close> that is
  iterated is the list of its entries in iteration order.
\<close>

section \<open>Reserves\<close>

record 'f virtual_reserve_values =
  vr_token_0 :: 'f
  vr_token_1 :: 'f
  vr_fee_multiplier :: 'f
  vr_max_swap_0 :: 'f
  vr_max_swap_1 :: 'f

record 'f pool_reserves =
  rs_token0 :: token_address
  rs_token1 :: token_address
  rs_pool_id :: pool_ref
  rs_value :: "'f virtual_reserve_values"

definition inverse_values :: "'f virtual_reserve_values \<Rightarrow> 'f virtual_reserve_values" where
  "inverse_values v = \<lparr>vr_token_0 = vr_token_1 v, vr_token_1 = vr_token_0 v, vr_fee_multiplier = vr_fee_multiplier v,
     vr_max_swap_0 = vr_max_swap_1 v, vr_max_swap_1 = vr_max_swap_0 v\<rparr>"

definition inverse_reserves :: "'f pool_reserves \<Rightarrow> 'f pool_reserves" where
  "inverse_reserves r = \<lparr>rs_token0 = rs_token1 r, rs_token1 = rs_token0 r, rs_pool_id = rs_pool_id r,
     rs_value = inverse_values (rs_value r)\<rparr>"

record session_config =
  sc_source_asset :: token_address
  sc_output_asset :: token_address
  sc_bridges :: "(token_address \<times> token_address) list"
  sc_whitelist :: "token_address set option"

section \<open>The multigraph of tokens\<close>

type_synonym 'i adjacency = "('i, 'i list) hmap"

text \<open>\<open>adjacency.entry(a).or_default().push(b)\<close>.\<close>

definition neighbors_in :: "'i adjacency \<Rightarrow> 'i \<Rightarrow> 'i list" where
  "neighbors_in adj a = (case map_of adj a of None \<Rightarrow> [] | Some ns \<Rightarrow> ns)"

definition push_neighbor :: "'i \<Rightarrow> 'i \<Rightarrow> 'i adjacency \<Rightarrow> 'i adjacency" where
  "push_neighbor a b adj = AList.update a (neighbors_in adj a @ [b]) adj"

definition add_edge :: "'i \<Rightarrow> 'i \<Rightarrow> 'i adjacency \<Rightarrow> 'i adjacency" where
  "add_edge a b adj = push_neighbor b a (push_neighbor a b adj)"

fun add_pool_edges :: "'f pool_reserves list \<Rightarrow> pool_ref set \<Rightarrow> token_address adjacency \<Rightarrow> token_address adjacency" where
  "add_pool_edges [] seen_pools adj = adj"
| "add_pool_edges (reserve # reserves) seen_pools adj =
     (if rs_token0 reserve = rs_token1 reserve then add_pool_edges reserves seen_pools adj
      else if rs_pool_id reserve \<in> seen_pools then add_pool_edges reserves seen_pools adj
      else add_pool_edges reserves (insert (rs_pool_id reserve) seen_pools)
             (add_edge (rs_token0 reserve) (rs_token1 reserve) adj))"

fun add_bridge_edges :: "('i \<times> 'i) list \<Rightarrow> ('i \<times> 'i) set \<Rightarrow> 'i adjacency \<Rightarrow> 'i adjacency" where
  "add_bridge_edges [] seen_bridges adj = adj"
| "add_bridge_edges ((a, b) # bridges) seen_bridges adj =
     (if a = b \<or> (b, a) \<in> seen_bridges \<or> (a, b) \<in> seen_bridges then add_bridge_edges bridges seen_bridges adj
      else add_bridge_edges bridges (insert (a, b) seen_bridges) (add_edge a b adj))"

definition token_graph :: "'f pool_reserves list \<Rightarrow> token_address \<Rightarrow> token_address \<Rightarrow>
    (token_address \<times> token_address) list \<Rightarrow> token_address adjacency" where
  "token_graph reserves source output bridges =
     (let adj = add_bridge_edges bridges {} (add_pool_edges reserves {} [])
      in if source \<noteq> output then add_edge source output adj else adj)"

section \<open>Stripping to the 2-core\<close>

fun strip_neighbors :: "'i list \<Rightarrow> 'i set \<Rightarrow> ('i, nat) hmap \<Rightarrow> 'i list \<Rightarrow> ('i, nat) hmap \<times> 'i list" where
  "strip_neighbors [] removed degree stack = (degree, stack)"
| "strip_neighbors (neighbor # ns) removed degree stack =
     (if neighbor \<in> removed then strip_neighbors ns removed degree stack
      else case map_of degree neighbor of
        None \<Rightarrow> strip_neighbors ns removed degree stack
      | Some d \<Rightarrow> strip_neighbors ns removed (AList.update neighbor (d - 1) degree)
                   (if d - 1 < 2 then neighbor # stack else stack))"

function strip :: "'i adjacency \<Rightarrow> 'i set \<Rightarrow> ('i, nat) hmap \<Rightarrow> 'i list \<Rightarrow> 'i set" where
  "strip adj removed degree [] = removed"
| "strip adj removed degree (token # stack) =
     (if token \<in> removed \<or> 2 \<le> (case map_of degree token of None \<Rightarrow> 0 | Some d \<Rightarrow> d)
      then strip adj removed degree stack
      else case map_of adj token of
        None \<Rightarrow> strip adj (insert token removed) degree stack
      | Some ns \<Rightarrow>
          (case strip_neighbors ns (insert token removed) degree stack of
             (degree', stack') \<Rightarrow> strip adj (insert token removed) degree' stack'))"
  by pat_completeness auto

lemma unvisited_insert:
  assumes "map_of adj token = Some ns" "token \<notin> removed"
  shows "card (fst ` set adj - insert token removed) < card (fst ` set adj - removed)"
proof (intro psubset_card_mono psubsetI)
  have "token \<in> fst ` set adj" using map_of_SomeD [OF assms(1)] by force
  then show "fst ` set adj - insert token removed \<noteq> fst ` set adj - removed" using assms(2) by blast
qed auto

termination strip
proof (relation "measures [\<lambda>(adj, removed, _, _). card (fst ` set adj - removed), \<lambda>(_, _, _, stack). length stack]")
qed (auto simp: unvisited_insert map_of_eq_None_iff insert_Diff_if Diff_insert0 card_Diff_insert
     intro: card_mono split: if_splits)

section \<open>The component of the source\<close>

fun expand_frontier :: "'i list \<Rightarrow> 'i set \<Rightarrow> 'i set \<Rightarrow> 'i list \<Rightarrow> 'i set \<times> 'i list" where
  "expand_frontier [] removed keep frontier = (keep, frontier)"
| "expand_frontier (neighbor # ns) removed keep frontier =
     (if neighbor \<notin> removed \<and> neighbor \<notin> keep
      then expand_frontier ns removed (insert neighbor keep) (neighbor # frontier)
      else expand_frontier ns removed keep frontier)"

definition graph_tokens :: "'i adjacency \<Rightarrow> 'i set" where
  "graph_tokens adj = (\<Union>ns\<in>snd ` set adj. set ns)"

lemma expand_frontier_spec:
  "expand_frontier ns removed keep frontier = (keep', frontier') \<Longrightarrow>
   keep' = keep \<union> (set ns - removed) \<and> set frontier' = set frontier \<union> (set ns - removed - keep) \<and>
   (keep' = keep \<longrightarrow> frontier' = frontier)"
  by (induction ns removed keep frontier rule: expand_frontier.induct) (auto split: if_splits)

function reach_tokens :: "'i adjacency \<Rightarrow> 'i set \<Rightarrow> 'i set \<Rightarrow> 'i list \<Rightarrow> 'i set" where
  "reach_tokens adj removed keep [] = keep"
| "reach_tokens adj removed keep (token # frontier) =
     (case map_of adj token of
        None \<Rightarrow> reach_tokens adj removed keep frontier
      | Some ns \<Rightarrow> (case expand_frontier ns removed keep frontier of
          (keep', frontier') \<Rightarrow> reach_tokens adj removed keep' frontier'))"
  by pat_completeness auto

lemma expand_frontier_measure:
  assumes "map_of adj token = Some ns" "expand_frontier ns removed keep frontier = (keep', frontier')"
  shows "card (graph_tokens adj - keep') < card (graph_tokens adj - keep) \<or>
         card (graph_tokens adj - keep') = card (graph_tokens adj - keep) \<and> length frontier' < Suc (length frontier)"
proof (cases "keep' = keep")
  case True
  then show ?thesis using expand_frontier_spec [OF assms(2)] by simp
next
  case False
  have "set ns \<subseteq> graph_tokens adj"
    using assms(1) by (force simp: graph_tokens_def dest: map_of_SomeD)
  moreover have "finite (graph_tokens adj)" by (simp add: graph_tokens_def)
  ultimately have "card (graph_tokens adj - keep') < card (graph_tokens adj - keep)"
    using expand_frontier_spec [OF assms(2)] False by (intro psubset_card_mono) auto
  then show ?thesis ..
qed

termination reach_tokens
proof (relation "measures [\<lambda>(adj, _, keep, _). card (graph_tokens adj - keep), \<lambda>(_, _, _, frontier). length frontier]")
qed (simp_all add: expand_frontier_measure split: prod.splits)

section \<open>The filter\<close>

definition routable_tokens :: "'f pool_reserves list \<Rightarrow> token_address \<Rightarrow> token_address \<Rightarrow>
    (token_address \<times> token_address) list \<Rightarrow> token_address set" where
  "routable_tokens reserves source output bridges =
     (let adj = token_graph reserves source output bridges;
          degree = map (\<lambda>(token, ns). (token, length ns)) adj;
          removed = strip adj {} degree (rev (map fst (filter (\<lambda>(_, d). d < 2) degree)))
      in if source \<in> removed \<or> map_of adj source = None then {}
         else reach_tokens adj removed {source} [source])"

definition routable_reserves :: "'f pool_reserves list \<Rightarrow> token_address \<Rightarrow> token_address \<Rightarrow>
    (token_address \<times> token_address) list \<Rightarrow> 'f pool_reserves list" where
  "routable_reserves reserves source output bridges =
     (let keep = routable_tokens reserves source output bridges
      in if source \<notin> keep then reserves
         else let pruned = filter (\<lambda>r. rs_token0 r \<in> keep \<and> rs_token1 r \<in> keep) reserves
              in if pruned = [] then reserves else pruned)"

definition whitelisted_reserves :: "'f pool_reserves list \<Rightarrow> token_address set option \<Rightarrow> 'f pool_reserves list" where
  "whitelisted_reserves reserves whitelist =
     (case whitelist of
        None \<Rightarrow> reserves
      | Some allowed \<Rightarrow> filter (\<lambda>r. rs_token0 r \<in> allowed \<and> rs_token1 r \<in> allowed) reserves)"

definition admissible_reserves :: "'f pool_reserves list \<Rightarrow> session_config \<Rightarrow> 'f pool_reserves list" where
  "admissible_reserves reserves cfg =
     routable_reserves (whitelisted_reserves reserves (sc_whitelist cfg))
       (sc_source_asset cfg) (sc_output_asset cfg) (sc_bridges cfg)"

end
