(* ===== verification/ReserveProjection.thy ===== *)
theory ReserveProjection
  imports PoolMath RoutingFilter
begin

text \<open>
  The projection of an integer pool state into the reserves the optimizer works on (the pure functions
  of multi_chain_kernel.rs that the server side and the client share). The conversions between raw
  amounts and floats are the parameters collected in \<open>amount_env\<close>.
\<close>

datatype token_amount_conversion_error = NonFiniteF64 u256 | F32Overflow u256 u8 | NonConvertibleF32 string

record 'f amount_env =
  env_token_amount :: "u256 \<Rightarrow> token_decimals \<Rightarrow> token_amount_conversion_error + 'f"
  env_raw_amount :: "'f \<Rightarrow> token_decimals \<Rightarrow> token_amount_conversion_error + u256"
  env_fee_multiplier :: "u32 \<Rightarrow> 'f"

datatype pool_reserve_value_kind = Reserve0 | Reserve1 | MaxSwap0 | MaxSwap1

datatype pool_reserve_projection_error =
  SwapLimit0 pool_ref pool_state_error
| SwapLimit1 pool_ref pool_state_error
| AmountConversionError pool_ref token_address pool_reserve_value_kind token_amount_conversion_error

definition convert_pool_amount :: "('f, 'z) amount_env_scheme \<Rightarrow> pool_ref \<Rightarrow> token_address \<Rightarrow> pool_reserve_value_kind \<Rightarrow> u256 \<Rightarrow>
    token_decimals \<Rightarrow> pool_reserve_projection_error + 'f" where
  "convert_pool_amount E pool token kind amount decimals =
     (case env_token_amount E amount decimals of
        Inl e \<Rightarrow> Inl (AmountConversionError pool token kind e)
      | Inr v \<Rightarrow> Inr v)"

text \<open>The swap limits never panic (\<open>swap_limits_defined\<close>), so their \<open>option\<close> can be dropped here.\<close>

definition pool_reserve_values :: "('f, 'z) amount_env_scheme \<Rightarrow> pool_ref \<Rightarrow> pool_state \<Rightarrow> pool_fee \<Rightarrow> token_address \<Rightarrow> token_address \<Rightarrow>
    token_decimals \<Rightarrow> token_decimals \<Rightarrow> pool_reserve_projection_error + 'f virtual_reserve_values" where
  "pool_reserve_values E pool s fee token0 token1 decimals0 decimals1 =
     (case convert_pool_amount E pool token0 Reserve0 (state_virtual_reserve_x s) decimals0 of
        Inl e \<Rightarrow> Inl e
      | Inr reserve_0 \<Rightarrow>
     (case convert_pool_amount E pool token1 Reserve1 (state_virtual_reserve_y s) decimals1 of
        Inl e \<Rightarrow> Inl e
      | Inr reserve_1 \<Rightarrow>
     (case the (swap_limit_x s (pool_fee_tick_spacing fee)) of
        Inl e \<Rightarrow> Inl (SwapLimit0 pool e)
      | Inr limit_0 \<Rightarrow>
     (case convert_pool_amount E pool token0 MaxSwap0 limit_0 decimals0 of
        Inl e \<Rightarrow> Inl e
      | Inr max_swap_0 \<Rightarrow>
     (case the (swap_limit_y s (pool_fee_tick_spacing fee)) of
        Inl e \<Rightarrow> Inl (SwapLimit1 pool e)
      | Inr limit_1 \<Rightarrow>
     (case convert_pool_amount E pool token1 MaxSwap1 limit_1 decimals1 of
        Inl e \<Rightarrow> Inl e
      | Inr max_swap_1 \<Rightarrow> Inr
          \<lparr>vr_token_0 = reserve_0, vr_token_1 = reserve_1, vr_fee_multiplier = env_fee_multiplier E (pool_fee_pips fee),
           vr_max_swap_0 = max_swap_0, vr_max_swap_1 = max_swap_1\<rparr>))))))"

end
