(* ===== verification/LosslessReplay.thy ===== *)
theory LosslessReplay
  imports PoolMath
begin

text \<open>
  The exact replay of an execution plan against integer pool states (lossless_replay.rs, and the plan
  types of the optimization crate's plan.rs). The weights of a plan are floats; the only thing the
  replay reads off one is \<open>(clamp weight * 1e9).round() as u64\<close>, the parameter \<open>scale\<close>.
\<close>

section \<open>Plans\<close>

datatype step_kind = Swap pool_ref | Carry | Bridge

record 'f executable_step =
  es_stage :: nat
  es_token_in :: token_address
  es_token_out :: token_address
  es_kind :: step_kind
  es_weight :: 'f
  es_amount_in :: 'f
  es_amount_out :: 'f

record 'f execution_plan =
  ep_source_asset :: token_address
  ep_output_asset :: token_address
  ep_entry_amount :: 'f
  ep_steps :: "'f executable_step list"

section \<open>Lossless pools\<close>

definition PIPS_DENOMINATOR :: u32 where "PIPS_DENOMINATOR = 1000000"

definition WEIGHT_SCALE :: u64 where "WEIGHT_SCALE = 1000000000"

record lossless_pool =
  lp_token0 :: token_address
  lp_token1 :: token_address
  lp_reserve0 :: u256
  lp_reserve1 :: u256
  lp_fee_pips :: u32
  lp_swap_limit_0 :: u256
  lp_swap_limit_1 :: u256

record lossless_outcome =
  lo_output :: u256
  lo_hit_tick_limit :: bool

datatype lossless_replay_error = PoolNotFound | TokenNotInPool

record hop =
  hop_out :: u256
  hop_hit_limit :: bool

definition from_pool_state :: "pool_state \<Rightarrow> pool_metadata \<Rightarrow> chain_key \<Rightarrow> (pool_state_error + lossless_pool) option" where
  "from_pool_state s metadata chain =
     (let tick_spacing = pool_fee_tick_spacing (pm_fee metadata)
      in case swap_limit_x s tick_spacing of
           None \<Rightarrow> None
         | Some (Inl e) \<Rightarrow> Some (Inl e)
         | Some (Inr limit_0) \<Rightarrow>
             (case swap_limit_y s tick_spacing of
                None \<Rightarrow> None
              | Some (Inl e) \<Rightarrow> Some (Inl e)
              | Some (Inr limit_1) \<Rightarrow> Some (Inr
                  \<lparr>lp_token0 = TokenAddress (pm_token0 metadata) chain, lp_token1 = TokenAddress (pm_token1 metadata) chain,
                   lp_reserve0 = state_virtual_reserve_x s, lp_reserve1 = state_virtual_reserve_y s,
                   lp_fee_pips = pool_fee_pips (pm_fee metadata),
                   lp_swap_limit_0 = limit_0, lp_swap_limit_1 = limit_1\<rparr>)))"

text \<open>
  The narrowing \<open>U256::from\<close> of a 512-bit quotient panics when it does not fit; \<open>after_fee_exact\<close>,
  \<open>swap_out_exact\<close> and \<open>weighted_exact\<close> show that it always fits here.
\<close>

definition after_fee :: "u256 \<Rightarrow> u32 \<Rightarrow> u256" where
  "after_fee amount_in fee_pips =
     (let keep = saturating_sub PIPS_DENOMINATOR fee_pips
      in ucast ((ucast amount_in * ucast keep :: u512) div ucast PIPS_DENOMINATOR))"

definition swap_out :: "u256 \<Rightarrow> u256 \<Rightarrow> u256 \<Rightarrow> u256" where
  "swap_out x y capped =
     (let denominator = ucast x + ucast capped :: u512
      in if denominator = 0 then 0 else ucast (ucast y * ucast capped div denominator))"

definition lossless_swap :: "lossless_pool \<Rightarrow> token_address \<Rightarrow> u256 \<Rightarrow> lossless_replay_error + lossless_pool \<times> hop" where
  "lossless_swap p token_in amount_in =
     (let forward = (token_in = lp_token0 p)
      in if \<not> forward \<and> token_in \<noteq> lp_token1 p then Inl TokenNotInPool
         else let (x, y, limit) =
                    (if forward then (lp_reserve0 p, lp_reserve1 p, lp_swap_limit_0 p)
                     else (lp_reserve1 p, lp_reserve0 p, lp_swap_limit_1 p));
                  paid = after_fee amount_in (lp_fee_pips p);
                  hit_limit = limit < paid;
                  capped = (if hit_limit then limit else paid);
                  out = swap_out x y capped;
                  p = (if forward
                       then p\<lparr>lp_reserve0 := saturating_add (lp_reserve0 p) amount_in,
                              lp_reserve1 := saturating_sub (lp_reserve1 p) out\<rparr>
                       else p\<lparr>lp_reserve1 := saturating_add (lp_reserve1 p) amount_in,
                              lp_reserve0 := saturating_sub (lp_reserve0 p) out\<rparr>)
              in Inr (p, \<lparr>hop_out = out, hop_hit_limit = hit_limit\<rparr>))"

section \<open>Replay\<close>

definition weighted_amount :: "('f \<Rightarrow> u64) \<Rightarrow> u256 \<Rightarrow> 'f \<Rightarrow> u256" where
  "weighted_amount scale balance weight =
     (let scaled = min (scale weight) WEIGHT_SCALE
      in ucast ((ucast balance * ucast scaled :: u512) div ucast WEIGHT_SCALE))"

type_synonym book = "(pool_ref, lossless_pool) hmap"
type_synonym balances = "(token_address, u256) hmap"

fun build_book :: "(pool_ref \<Rightarrow> lossless_pool option) \<Rightarrow> 'f executable_step list \<Rightarrow> book \<Rightarrow>
    lossless_replay_error + book" where
  "build_book resolve [] book = Inr book"
| "build_book resolve (step # steps) book =
     (case es_kind step of
        Swap pool \<Rightarrow>
          (if hm_contains book pool then build_book resolve steps book
           else case resolve pool of
             None \<Rightarrow> Inl PoolNotFound
           | Some p \<Rightarrow> build_book resolve steps (AList.update pool p book))
      | _ \<Rightarrow> build_book resolve steps book)"

definition balance_of :: "balances \<Rightarrow> token_address \<Rightarrow> u256" where
  "balance_of balances token = (case map_of balances token of Some b \<Rightarrow> b | None \<Rightarrow> 0)"

definition credit :: "balances \<Rightarrow> token_address \<Rightarrow> u256 \<Rightarrow> balances" where
  "credit balances token amount =
     AList.update token (saturating_add (balance_of balances token) amount) balances"

record replay_state =
  rp_book :: book
  rp_next :: balances
  rp_hit :: bool

definition replay_step :: "('f \<Rightarrow> u64) \<Rightarrow> balances \<Rightarrow> 'f executable_step \<Rightarrow> replay_state \<Rightarrow>
    lossless_replay_error + replay_state" where
  "replay_step scale balances step r =
     (let amount_in = weighted_amount scale (balance_of balances (es_token_in step)) (es_weight step)
      in if amount_in = 0 then Inr r
         else case es_kind step of
           Swap pool \<Rightarrow>
             (case map_of (rp_book r) pool of
                None \<Rightarrow> Inl PoolNotFound
              | Some entry \<Rightarrow>
                  (case lossless_swap entry (es_token_in step) amount_in of
                     Inl e \<Rightarrow> Inl e
                   | Inr (entry, hop) \<Rightarrow> Inr
                       \<lparr>rp_book = AList.update pool entry (rp_book r),
                        rp_next = credit (rp_next r) (es_token_out step) (hop_out hop),
                        rp_hit = (rp_hit r \<or> hop_hit_limit hop)\<rparr>))
         | Carry \<Rightarrow>
             (if es_token_in step = es_token_out step
              then Inr (r\<lparr>rp_next := credit (rp_next r) (es_token_out step) amount_in\<rparr>) else Inr r)
         | Bridge \<Rightarrow> Inr (r\<lparr>rp_next := credit (rp_next r) (es_token_out step) amount_in\<rparr>))"

fun replay_stage :: "('f \<Rightarrow> u64) \<Rightarrow> balances \<Rightarrow> 'f executable_step list \<Rightarrow> replay_state \<Rightarrow>
    lossless_replay_error + replay_state" where
  "replay_stage scale balances [] r = Inr r"
| "replay_stage scale balances (step # steps) r =
     (case replay_step scale balances step r of
        Inl e \<Rightarrow> Inl e
      | Inr r \<Rightarrow> replay_stage scale balances steps r)"

text \<open>Each stage reads the balances the one before it wrote, and writes into an empty map.\<close>

fun replay_stages :: "('f \<Rightarrow> u64) \<Rightarrow> 'f executable_step list \<Rightarrow> nat list \<Rightarrow> book \<Rightarrow> balances \<Rightarrow> bool \<Rightarrow>
    lossless_replay_error + balances \<times> bool" where
  "replay_stages scale steps [] book balances hit = Inr (balances, hit)"
| "replay_stages scale steps (stage # stages) book balances hit =
     (case replay_stage scale balances (filter (\<lambda>step. es_stage step = stage) steps)
             \<lparr>rp_book = book, rp_next = [], rp_hit = hit\<rparr> of
        Inl e \<Rightarrow> Inl e
      | Inr r \<Rightarrow> replay_stages scale steps stages (rp_book r) (rp_next r) (rp_hit r))"

definition replay_plan_lossless :: "('f \<Rightarrow> u64) \<Rightarrow> 'f execution_plan \<Rightarrow> (pool_ref \<Rightarrow> lossless_pool option) \<Rightarrow> u256 \<Rightarrow>
    lossless_replay_error + lossless_outcome" where
  "replay_plan_lossless scale plan resolve entry_amount =
     (case build_book resolve (ep_steps plan) [] of
        Inl e \<Rightarrow> Inl e
      | Inr book \<Rightarrow>
          (let balances = [(ep_source_asset plan, entry_amount)]
           in if ep_steps plan = []
              then Inr \<lparr>lo_output = balance_of balances (ep_output_asset plan), lo_hit_tick_limit = False\<rparr>
              else (case replay_stages scale (ep_steps plan) [0..<Suc (Max (set (map es_stage (ep_steps plan))))]
                        book balances False of
                      Inl e \<Rightarrow> Inl e
                    | Inr (balances, hit) \<Rightarrow>
                        Inr \<lparr>lo_output = balance_of balances (ep_output_asset plan), lo_hit_tick_limit = hit\<rparr>)))"

section \<open>Widened arithmetic is exact\<close>

lemma uint_ucast_512: "LENGTH('k) \<le> 512 \<Longrightarrow> uint (ucast (k :: 'k::len word) :: u512) = uint k"
proof -
  assume "LENGTH('k) \<le> 512"
  then have "(2 :: int) ^ LENGTH('k) \<le> 2 ^ 512" by (rule power_increasing) simp
  with uint_lt2p [of k] have "uint k < 2 ^ 512" by linarith
  then show ?thesis by (simp add: unsigned_ucast_eq take_bit_int_eq_self)
qed

lemma muldiv_exact:
  fixes a :: u256 and k :: "'k::len word" and d :: u512
  assumes "LENGTH('k) \<le> 256" and "uint a * uint k div uint d < 2 ^ 256"
  shows "uint (ucast ((ucast a * ucast k :: u512) div d) :: u256) = uint a * uint k div uint d"
proof -
  have "(2 :: int) ^ LENGTH('k) \<le> 2 ^ 256" using assms(1) by (rule power_increasing) simp
  then have "uint k < 2 ^ 256" using uint_lt2p [of k] by linarith
  moreover have "uint a < 2 ^ 256" using uint_lt2p [of a] by simp
  ultimately have "uint a * uint k < 2 ^ 256 * 2 ^ 256" by (intro mult_strict_mono) simp_all
  then have "uint (ucast a * ucast k :: u512) = uint a * uint k"
    using uint_mult_lem [of "ucast a :: u512" "ucast k"] assms(1) by (simp add: uint_ucast_512)
  moreover have "0 \<le> uint a * uint k div uint d" by (simp add: div_int_pos_iff)
  ultimately show ?thesis
    using assms by (simp add: uint_div_distrib unsigned_ucast_eq take_bit_int_eq_self)
qed

lemma share_le: "0 \<le> a \<Longrightarrow> 0 \<le> k \<Longrightarrow> k \<le> d \<Longrightarrow> a * k div d \<le> (a :: int)"
proof (cases "d = 0")
  case False
  assume "0 \<le> a" "0 \<le> k" "k \<le> d"
  moreover from this have "a * k div d \<le> a * d div d"
    using False by (intro zdiv_mono1 mult_left_mono) simp_all
  ultimately show ?thesis using False by simp
qed simp

lemma after_fee_exact:
  "uint (after_fee a f) = uint a * max 0 (1000000 - uint f) div 1000000"
  "after_fee a f \<le> a"
proof -
  have keep: "uint (saturating_sub 1000000 f) = max 0 (1000000 - uint f)"
    by (auto simp: saturating_sub_def word_le_def uint_sub_bounded)
  have le: "uint a * max 0 (1000000 - uint f) div 1000000 \<le> uint a" by (rule share_le) simp_all
  then have fits: "uint a * max 0 (1000000 - uint f) div 1000000 < 2 ^ 256" using uint_lt2p [of a] by simp
  show e: "uint (after_fee a f) = uint a * max 0 (1000000 - uint f) div 1000000"
    using muldiv_exact [of a "saturating_sub 1000000 f" "ucast PIPS_DENOMINATOR"] fits
    by (simp add: after_fee_def Let_def keep PIPS_DENOMINATOR_def)
  show "after_fee a f \<le> a" using le by (simp add: word_le_def e)
qed

lemma weighted_exact:
  "uint (weighted_amount scale b w) = uint b * min (uint (scale w)) 1000000000 div 1000000000"
  "weighted_amount scale b w \<le> b"
proof -
  have m: "uint (min (scale w) WEIGHT_SCALE) = min (uint (scale w)) 1000000000"
    by (auto simp: min_def word_le_def WEIGHT_SCALE_def)
  have le: "uint b * min (uint (scale w)) 1000000000 div 1000000000 \<le> uint b" by (rule share_le) simp_all
  then have fits: "uint b * min (uint (scale w)) 1000000000 div 1000000000 < 2 ^ 256" using uint_lt2p [of b] by simp
  show e: "uint (weighted_amount scale b w) = uint b * min (uint (scale w)) 1000000000 div 1000000000"
    using muldiv_exact [of b "min (scale w) WEIGHT_SCALE" "ucast WEIGHT_SCALE"] fits
    by (simp add: weighted_amount_def Let_def m) (simp add: WEIGHT_SCALE_def)
  show "weighted_amount scale b w \<le> b" using le by (simp add: word_le_def e)
qed

lemma swap_out_exact:
  "uint (swap_out x y c) = uint y * uint c div (uint x + uint c)"
  "swap_out x y c \<le> y"
proof -
  have "uint x < 2 ^ 256" "uint c < 2 ^ 256" using uint_lt2p [of x] uint_lt2p [of c] by simp_all
  then have d: "uint (ucast x + ucast c :: u512) = uint x + uint c"
    by (simp add: uint_add_bounded uint_ucast_512)
  then have z: "(ucast x + ucast c :: u512) = 0 \<longleftrightarrow> uint x + uint c = 0"
    unfolding word_uint_eq_iff by simp
  have le: "uint y * uint c div (uint x + uint c) \<le> uint y" by (rule share_le) simp_all
  then have "uint y * uint c div (uint x + uint c) < 2 ^ 256" using uint_lt2p [of y] by simp
  then show e: "uint (swap_out x y c) = uint y * uint c div (uint x + uint c)"
    using muldiv_exact [of y c "ucast x + ucast c"] z by (auto simp: swap_out_def Let_def d)
  show "swap_out x y c \<le> y" using le by (simp add: word_le_def e)
qed

lemma constant_product_keeps:
  fixes x y c a :: int
  assumes "0 \<le> x" and "0 \<le> y" and "0 \<le> c" and "c \<le> a"
  shows "x * y \<le> (x + a) * (y - y * c div (x + c))"
proof (cases "x + c = 0")
  case True
  then have "x = 0" using assms by linarith
  with True show ?thesis using assms by simp
next
  case False
  then have pos: "0 < x + c" using assms by simp
  let ?o = "y * c div (x + c)"
  have "?o * (x + c) \<le> y * c" 
    using div_mult_mod_eq [of "y * c" "x + c"] pos_mod_sign [OF pos, of "y * c"] by linarith
  moreover have "0 \<le> y - ?o" using share_le [of y c "x + c"] assms by simp
  then have "(x + c) * (y - ?o) \<le> (x + a) * (y - ?o)" using assms by (intro mult_right_mono) simp_all
  ultimately show ?thesis by (simp add: algebra_simps)
qed

section \<open>Swaps\<close>

lemma saturating_add_exact: "uint (saturating_add a (b :: u256)) = min (uint a + uint b) (2 ^ 256 - 1)"
  using uint_lt2p [of a] uint_lt2p [of b]
  by (auto simp: saturating_add_def uint_add_bounded unsigned_minus_1_eq_mask mask_eq_exp_minus_1)

text \<open>
  The contract of a swap, over the integers: \<open>x\<close> takes the amount, \<open>y\<close> pays the output.
\<close>

definition constant_product_swap :: "u256 \<Rightarrow> u256 \<Rightarrow> u256 \<Rightarrow> u32 \<Rightarrow> u256 \<Rightarrow> u256 \<Rightarrow> u256 \<Rightarrow> hop \<Rightarrow> bool" where
  "constant_product_swap x y limit fee amount x' y' hop \<longleftrightarrow>
     (let paid = uint amount * max 0 (1000000 - uint fee) div 1000000; c = min paid (uint limit)
      in uint (hop_out hop) = uint y * c div (uint x + c) \<and> hop_out hop \<le> y \<and>
         hop_hit_limit hop = (uint limit < paid) \<and>
         uint x' = min (uint x + uint amount) (2 ^ 256 - 1) \<and> uint y' = uint y - uint (hop_out hop) \<and>
         (x' = - 1 \<or> uint x * uint y \<le> uint x' * uint y'))"

lemma swap_side_exact:
  assumes "capped = (if limit < after_fee amount fee then limit else after_fee amount fee)"
    and "out = swap_out x y capped"
  shows "constant_product_swap x y limit fee amount (saturating_add x amount) (saturating_sub y out)
    \<lparr>hop_out = out, hop_hit_limit = (limit < after_fee amount fee)\<rparr>"
proof -
  let ?paid = "uint amount * max 0 (1000000 - uint fee) div 1000000"
  have paid: "uint (after_fee amount fee) = ?paid" by (rule after_fee_exact)
  then have c: "uint capped = min ?paid (uint limit)" by (auto simp: assms(1) word_less_def)
  have hit: "(limit < after_fee amount fee) = (uint limit < ?paid)" by (simp add: word_less_def paid)
  have out: "uint out = uint y * uint capped div (uint x + uint capped)" "out \<le> y"
    unfolding assms(2) by (rule swap_out_exact)+
  then have y': "uint (saturating_sub y out) = uint y - uint out" by (simp add: saturating_sub_def uint_sub_bounded)
  have x': "uint (saturating_add x amount) = min (uint x + uint amount) (2 ^ 256 - 1)" by (rule saturating_add_exact)
  have "uint capped \<le> uint amount" using c paid after_fee_exact(2) [of amount fee] by (simp add: word_le_def min.coboundedI1)
  then have k: "uint x * uint y \<le> (uint x + uint amount) * (uint y - uint out)"
    unfolding out(1) by (intro constant_product_keeps) simp_all
  have keeps: "saturating_add x amount = - 1 \<or> uint x * uint y \<le> uint (saturating_add x amount) * uint (saturating_sub y out)"
  proof (cases "uint x + uint amount < 2 ^ 256")
    case True
    then show ?thesis using k x' y' by simp
  next
    case False
    then show ?thesis by (simp add: saturating_add_def)
  qed
  show ?thesis unfolding constant_product_swap_def Let_def hop.simps by (intro conjI out(1) [unfolded c] out(2) hit x' y' keeps)
qed

text \<open>
  C17. A swap is the constant-product formula over integers: whatever the widths, the output is
  y * c div (x + c) for the reserves x and y and the input c after fee, capped at the tick's limit; the reserves move by
  exactly the input and the output; and the product of the reserves never falls, unless the input
  side is at its greatest value. The only error is a token that the pool does not trade.
\<close>

theorem lossless_swap_exact:
  "case lossless_swap p token amount of
     Inl e \<Rightarrow> e = TokenNotInPool \<and> token \<notin> {lp_token0 p, lp_token1 p}
   | Inr (p', hop) \<Rightarrow>
       (if token = lp_token0 p
        then constant_product_swap (lp_reserve0 p) (lp_reserve1 p) (lp_swap_limit_0 p) (lp_fee_pips p) amount
          (lp_reserve0 p') (lp_reserve1 p') hop
        else token = lp_token1 p \<and>
          constant_product_swap (lp_reserve1 p) (lp_reserve0 p) (lp_swap_limit_1 p) (lp_fee_pips p) amount
            (lp_reserve1 p') (lp_reserve0 p') hop)"
proof -
  consider "token = lp_token0 p" | "token \<noteq> lp_token0 p" "token = lp_token1 p" | "token \<notin> {lp_token0 p, lp_token1 p}"
    by blast
  then show ?thesis
  proof cases
    case 1
    define capped where "capped = (if lp_swap_limit_0 p < after_fee amount (lp_fee_pips p) then lp_swap_limit_0 p
      else after_fee amount (lp_fee_pips p))"
    define out where "out = swap_out (lp_reserve0 p) (lp_reserve1 p) capped"
    have "lossless_swap p token amount =
        Inr (p\<lparr>lp_reserve0 := saturating_add (lp_reserve0 p) amount, lp_reserve1 := saturating_sub (lp_reserve1 p) out\<rparr>,
             \<lparr>hop_out = out, hop_hit_limit = lp_swap_limit_0 p < after_fee amount (lp_fee_pips p)\<rparr>)"
      using 1 by (simp add: lossless_swap_def Let_def out_def capped_def)
    then show ?thesis using swap_side_exact [OF capped_def out_def] 1 by simp
  next
    case 2
    define capped where "capped = (if lp_swap_limit_1 p < after_fee amount (lp_fee_pips p) then lp_swap_limit_1 p
      else after_fee amount (lp_fee_pips p))"
    define out where "out = swap_out (lp_reserve1 p) (lp_reserve0 p) capped"
    have "lossless_swap p token amount =
        Inr (p\<lparr>lp_reserve1 := saturating_add (lp_reserve1 p) amount, lp_reserve0 := saturating_sub (lp_reserve0 p) out\<rparr>,
             \<lparr>hop_out = out, hop_hit_limit = lp_swap_limit_1 p < after_fee amount (lp_fee_pips p)\<rparr>)"
      using 2 by (simp add: lossless_swap_def Let_def out_def capped_def)
    then show ?thesis using swap_side_exact [OF capped_def out_def] 2 by simp
  qed (simp add: lossless_swap_def)
qed

text \<open>
  The steps of a stage never spend more of a token than there is: if the scaled weights of the steps
  that take it add up to at most one, the rounded amounts add up to at most its balance.
\<close>

lemma stage_never_overspends:
  assumes "(\<Sum>step\<leftarrow>filter (\<lambda>step. es_token_in step = token) steps. min (uint (scale (es_weight step))) 1000000000) \<le> 1000000000"
  shows "(\<Sum>step\<leftarrow>filter (\<lambda>step. es_token_in step = token) steps.
      uint (weighted_amount scale (balance_of balances (es_token_in step)) (es_weight step))) \<le> uint (balance_of balances token)"
proof -
  let ?b = "uint (balance_of balances token)" and ?w = "\<lambda>step. min (uint (scale (es_weight step))) 1000000000"
  let ?steps = "filter (\<lambda>step. es_token_in step = token) steps"
  have "1000000000 * (\<Sum>step\<leftarrow>?steps. uint (weighted_amount scale (balance_of balances (es_token_in step)) (es_weight step)))
      \<le> ?b * (\<Sum>step\<leftarrow>?steps. ?w step)"
  proof (induction steps)
    case (Cons step steps)
    have "1000000000 * (?b * ?w step div 1000000000) \<le> ?b * ?w step"
      using div_mult_mod_eq [of "?b * ?w step" 1000000000] pos_mod_sign [of 1000000000 "?b * ?w step"] by linarith
    with Cons show ?case by (simp add: weighted_exact algebra_simps)
  qed simp
  also have "\<dots> \<le> ?b * 1000000000" using assms by (intro mult_left_mono) simp_all
  finally show ?thesis by simp
qed

section \<open>Errors of a replay\<close>

definition resolved :: "(pool_ref \<Rightarrow> lossless_pool option) \<Rightarrow> 'f executable_step \<Rightarrow> bool" where
  "resolved resolve step \<longleftrightarrow> (case es_kind step of Swap pool \<Rightarrow> resolve pool \<noteq> None | _ \<Rightarrow> True)"

definition trades :: "lossless_pool \<Rightarrow> token_address set" where
  "trades p = {lp_token0 p, lp_token1 p}"

definition tradable :: "(pool_ref \<Rightarrow> lossless_pool option) \<Rightarrow> 'f executable_step \<Rightarrow> bool" where
  "tradable resolve step \<longleftrightarrow>
     (case es_kind step of Swap pool \<Rightarrow> es_token_in step \<in> trades (the (resolve pool)) | _ \<Rightarrow> True)"

text \<open>The book has an entry for every resolved pool of the plan, trading that pool's tokens.\<close>

definition book_ok :: "(pool_ref \<Rightarrow> lossless_pool option) \<Rightarrow> 'f executable_step list \<Rightarrow> book \<Rightarrow> bool" where
  "book_ok resolve steps book \<longleftrightarrow>
     (\<forall>step \<in> set steps. \<forall>pool. es_kind step = Swap pool \<longrightarrow>
        (\<exists>p q. map_of book pool = Some q \<and> resolve pool = Some p \<and> trades q = trades p))"

definition book_from :: "(pool_ref \<Rightarrow> lossless_pool option) \<Rightarrow> book \<Rightarrow> bool" where
  "book_from resolve book \<longleftrightarrow> (\<forall>pool q. map_of book pool = Some q \<longrightarrow> resolve pool = Some q)"

lemma book_ok_Swap:
  "book_from resolve b \<Longrightarrow> map_of b pool \<noteq> None \<Longrightarrow> es_kind step = Swap pool \<Longrightarrow> book_ok resolve steps b \<Longrightarrow>
     book_ok resolve (step # steps) b \<and> resolved resolve step"
  by (fastforce simp: book_ok_def book_from_def resolved_def)

lemma build_book_spec:
  "book_from resolve book \<Longrightarrow>
     (case build_book resolve steps book of
        Inl e \<Rightarrow> e = PoolNotFound \<and> \<not> list_all (resolved resolve) steps
      | Inr b \<Rightarrow> book_from resolve b \<and> list_all (resolved resolve) steps \<and> book_ok resolve steps b \<and>
          (\<forall>pool. map_of book pool \<noteq> None \<longrightarrow> map_of b pool \<noteq> None))"
proof (induction resolve steps book rule: build_book.induct)
  case (1 resolve book)
  then show ?case by (simp add: book_ok_def)
next
  case (2 resolve step steps book)
  show ?case
  proof (cases "es_kind step")
    case (Swap pool)
    show ?thesis
    proof (cases "hm_contains book pool")
      case True
      then have "map_of book pool \<noteq> None" by (simp add: hm_contains_def)
      note IH = 2(1) [OF Swap True 2(5)]
      show ?thesis
      proof (cases "build_book resolve steps book")
        case (Inl e)
        then show ?thesis using IH Swap True by simp
      next
        case (Inr b)
        then show ?thesis using IH Swap True book_ok_Swap [of resolve b pool step steps] \<open>map_of book pool \<noteq> None\<close>
          by simp
      qed
    next
      case False
      show ?thesis
      proof (cases "resolve pool")
        case None
        then show ?thesis using Swap False by (simp add: resolved_def)
      next
        case (Some p)
        have new: "map_of book pool = None" using False by (simp add: hm_contains_def)
        have from': "book_from resolve (AList.update pool p book)"
          using 2(5) Some by (auto simp: book_from_def hm_simps split: if_splits)
        note IH = 2(2) [OF Swap False Some from']
        show ?thesis
        proof (cases "build_book resolve steps (AList.update pool p book)")
          case (Inl e)
          then show ?thesis using IH Swap False Some by simp
        next
          case (Inr b)
          then have "map_of b pool \<noteq> None" using IH by (simp add: hm_simps)
          then show ?thesis using IH Inr Swap False Some new book_ok_Swap [of resolve b pool step steps]
            by (simp add: hm_simps)
        qed
      qed
    qed
  qed (use 2 in \<open>auto simp: book_ok_def resolved_def split: sum.splits\<close>)
qed

lemma swap_trades: "lossless_swap p token amount = Inr (p', hop) \<Longrightarrow> trades p' = trades p"
  by (auto simp: lossless_swap_def Let_def trades_def split: if_splits)

lemma swap_error: "lossless_swap p token amount = Inl e \<longleftrightarrow> e = TokenNotInPool \<and> token \<notin> trades p"
  by (auto simp: lossless_swap_def Let_def trades_def)

lemma replay_step_spec:
  assumes ok: "book_ok resolve steps (rp_book r)" and step: "step \<in> set steps"
  shows "case replay_step scale balances step r of
      Inl e \<Rightarrow> e = TokenNotInPool \<and> \<not> tradable resolve step
    | Inr r' \<Rightarrow> book_ok resolve steps (rp_book r')"
proof (cases "es_kind step")
  case (Swap pool)
  with ok step obtain p q where pq: "map_of (rp_book r) pool = Some q" "resolve pool = Some p" "trades q = trades p"
    unfolding book_ok_def by blast
  let ?a = "weighted_amount scale (balance_of balances (es_token_in step)) (es_weight step)"
  show ?thesis
  proof (cases "lossless_swap q (es_token_in step) ?a")
    case (Inl e)
    then show ?thesis using ok pq Swap swap_error [of q "es_token_in step" ?a e]
      by (simp add: replay_step_def tradable_def Let_def)
  next
    case (Inr s)
    obtain q' hop where s: "s = (q', hop)" by fastforce
    have "trades q' = trades q" using swap_trades Inr s by blast
    then have "book_ok resolve steps (AList.update pool q' (rp_book r))"
      using ok pq by (auto simp: book_ok_def hm_simps)
    then show ?thesis using ok pq Swap Inr s by (simp add: replay_step_def Let_def)
  qed
qed (use ok in \<open>simp_all add: replay_step_def Let_def\<close>)

lemma replay_stage_spec:
  "book_ok resolve steps (rp_book r) \<Longrightarrow> set todo \<subseteq> set steps \<Longrightarrow>
     (case replay_stage scale balances todo r of
        Inl e \<Rightarrow> e = TokenNotInPool \<and> \<not> list_all (tradable resolve) steps
      | Inr r' \<Rightarrow> book_ok resolve steps (rp_book r'))"
proof (induction todo arbitrary: r)
  case (Cons step todo)
  then show ?case
    using replay_step_spec [of resolve steps r step scale balances]
    by (cases "replay_step scale balances step r") (auto simp: list_all_iff)
qed simp

lemma replay_stages_spec:
  "book_ok resolve steps book \<Longrightarrow>
     (case replay_stages scale steps stages book balances hit of
        Inl e \<Rightarrow> e = TokenNotInPool \<and> \<not> list_all (tradable resolve) steps
      | Inr r \<Rightarrow> True)"
proof (induction stages arbitrary: book balances hit)
  case (Cons stage stages)
  let ?r = "\<lparr>rp_book = book, rp_next = [], rp_hit = hit\<rparr>" and ?todo = "filter (\<lambda>step. es_stage step = stage) steps"
  show ?case
    using replay_stage_spec [of resolve steps ?r ?todo scale balances] Cons
    by (cases "replay_stage scale balances ?todo ?r") (auto split: sum.splits)
qed simp

text \<open>
  A replay has no error of its own: it fails with a missing pool exactly when the resolver cannot
  produce one that the plan swaps through, and with a foreign token only when a step swaps a token
  its pool does not trade. With every pool resolved and every step tradable it returns an outcome.
\<close>

lemma replay_errors_exact:
  "case replay_plan_lossless scale plan resolve entry_amount of
     Inl PoolNotFound \<Rightarrow> \<not> list_all (resolved resolve) (ep_steps plan)
   | Inl TokenNotInPool \<Rightarrow> list_all (resolved resolve) (ep_steps plan) \<and> \<not> list_all (tradable resolve) (ep_steps plan)
   | Inr outcome \<Rightarrow> list_all (resolved resolve) (ep_steps plan)"
proof (cases "build_book resolve (ep_steps plan) []")
  case (Inl e)
  then show ?thesis
    using build_book_spec [of resolve "[]" "ep_steps plan"] by (simp add: replay_plan_lossless_def book_from_def)
next
  case (Inr book)
  then have "book_ok resolve (ep_steps plan) book" "list_all (resolved resolve) (ep_steps plan)"
    using build_book_spec [of resolve "[]" "ep_steps plan"] by (simp_all add: book_from_def)
  then show ?thesis
    using Inr replay_stages_spec [of resolve "ep_steps plan" book scale
        "[0..<Suc (Max (set (map es_stage (ep_steps plan))))]" "[(ep_source_asset plan, entry_amount)]" False]
    by (auto simp: replay_plan_lossless_def Let_def split: sum.splits)
qed

lemma from_pool_state_total:
  "price_in_tick s \<Longrightarrow> pool_fee_tick_spacing (pm_fee metadata) \<noteq> 0 \<Longrightarrow>
     \<exists>p. from_pool_state s metadata chain = Some (Inr p) \<and> lp_reserve0 p = state_virtual_reserve_x s \<and>
       lp_reserve1 p = state_virtual_reserve_y s"
  using swap_limit_x_exact [of s] swap_limit_y_exact [of s] by (fastforce simp: from_pool_state_def)

end
