(* ===== verification/PlanReplay.thy ===== *)
theory PlanReplay
  imports LosslessReplay RoutingFilter
begin

text \<open>
  The plan an optimizer step hands out and its float replay: the flows read off a trained model
  (model.rs, FlowRecord and FlowSummary), \<open>build_plan\<close> (plan.rs) and the sequential replay of flows and
  plans against a mutable book of reserves (replay.rs). The arithmetic of f32 is the parameter
  \<open>float_ops\<close>; which cells merge, which steps run, in what order and against which entry is modelled.
\<close>

section \<open>Floating point\<close>

record 'f float_ops =
  fl_zero :: 'f
  fl_epsilon :: 'f
  fl_add :: "'f \<Rightarrow> 'f \<Rightarrow> 'f"
  fl_sub :: "'f \<Rightarrow> 'f \<Rightarrow> 'f"
  fl_mul :: "'f \<Rightarrow> 'f \<Rightarrow> 'f"
  fl_div :: "'f \<Rightarrow> 'f \<Rightarrow> 'f"
  fl_min :: "'f \<Rightarrow> 'f \<Rightarrow> 'f"
  fl_max :: "'f \<Rightarrow> 'f \<Rightarrow> 'f"
  fl_neg :: "'f \<Rightarrow> 'f"
  fl_ln :: "'f \<Rightarrow> 'f"
  fl_exp :: "'f \<Rightarrow> 'f"
  fl_less :: "'f \<Rightarrow> 'f \<Rightarrow> bool"
  fl_le :: "'f \<Rightarrow> 'f \<Rightarrow> bool"
  fl_finite :: "'f \<Rightarrow> bool"

text \<open>\<open>*map.entry(k).or_default() += v\<close>.\<close>

definition add_entry :: "'f float_ops \<Rightarrow> 'k \<Rightarrow> 'f \<Rightarrow> ('k, 'f) hmap \<Rightarrow> ('k, 'f) hmap" where
  "add_entry F k v m = AList.update k (fl_add F (case map_of m k of None \<Rightarrow> fl_zero F | Some w \<Rightarrow> w) v) m"

definition sum_floats :: "'f float_ops \<Rightarrow> 'f list \<Rightarrow> 'f" where
  "sum_floats F xs = foldl (fl_add F) (fl_zero F) xs"

section \<open>Flows\<close>

record 'f flow_record =
  fr_stage :: nat
  fr_token_in :: token_address
  fr_token_out :: token_address
  fr_pool_id :: "pool_ref option"
  fr_amount_in :: 'f
  fr_amount_out :: 'f
  fr_weight :: 'f

record 'f flow_summary =
  fs_pool_inputs :: "(pool_ref, 'f) hmap"
  fs_token_flows :: "(token_address, 'f) hmap"
  fs_route_entropy :: 'f
  fs_effective_pools :: 'f

definition summary_step :: "'f float_ops \<Rightarrow> 'f flow_record \<Rightarrow> (pool_ref, 'f) hmap \<times> (token_address, 'f) hmap \<Rightarrow>
    (pool_ref, 'f) hmap \<times> (token_address, 'f) hmap" where
  "summary_step F flow = (\<lambda>(pools, tokens).
     ((case fr_pool_id flow of None \<Rightarrow> pools | Some pool \<Rightarrow> add_entry F pool (fr_amount_in flow) pools),
      add_entry F (fr_token_in flow) (fr_amount_in flow) tokens))"

definition flow_summary_from :: "'f float_ops \<Rightarrow> 'f flow_record list \<Rightarrow> 'f flow_summary" where
  "flow_summary_from F flows =
     (case fold (summary_step F) flows ([], []) of (pools, tokens) \<Rightarrow>
       (let total = sum_floats F (map snd pools);
            shares = filter (\<lambda>share. fl_less F (fl_zero F) share) (map (\<lambda>(_, amount). fl_div F amount total) pools);
            entropy = (if fl_less F (fl_zero F) total
                       then fl_neg F (sum_floats F (map (\<lambda>share. fl_mul F share (fl_ln F share)) shares))
                       else fl_zero F)
        in \<lparr>fs_pool_inputs = pools, fs_token_flows = tokens, fs_route_entropy = entropy,
            fs_effective_pools = fl_exp F entropy\<rparr>))"

section \<open>Building a plan\<close>

type_synonym cell_key = "nat \<times> token_address \<times> token_address \<times> step_kind"

record 'f accum =
  ac_weight :: 'f
  ac_amount_in :: 'f
  ac_amount_out :: 'f

definition flow_kind :: "(token_address \<times> token_address) list \<Rightarrow> 'f flow_record \<Rightarrow> step_kind option" where
  "flow_kind bridges flow =
     (if fr_token_in flow \<noteq> fr_token_out flow \<and> (fr_token_in flow, fr_token_out flow) \<in> set bridges then Some Bridge
      else case fr_pool_id flow of
        Some pool \<Rightarrow> Some (Swap pool)
      | None \<Rightarrow> if fr_token_in flow = fr_token_out flow then Some Carry else None)"

fun merge_flows :: "'f float_ops \<Rightarrow> 'f \<Rightarrow> (token_address \<times> token_address) list \<Rightarrow> 'f flow_record list \<Rightarrow>
    (cell_key, 'f accum) hmap \<Rightarrow> (cell_key, 'f accum) hmap" where
  "merge_flows F min_weight bridges [] merged = merged"
| "merge_flows F min_weight bridges (flow # flows) merged =
     (case flow_kind bridges flow of
        None \<Rightarrow> merge_flows F min_weight bridges flows merged
      | Some kind \<Rightarrow>
          if fl_less F (fr_weight flow) min_weight then merge_flows F min_weight bridges flows merged
          else let key = (fr_stage flow, fr_token_in flow, fr_token_out flow, kind);
                   acc = (case map_of merged key of
                            None \<Rightarrow> \<lparr>ac_weight = fl_zero F, ac_amount_in = fl_zero F, ac_amount_out = fl_zero F\<rparr>
                          | Some acc \<Rightarrow> acc)
               in merge_flows F min_weight bridges flows
                    (AList.update key \<lparr>ac_weight = fl_add F (ac_weight acc) (fr_weight flow),
                                       ac_amount_in = fl_add F (ac_amount_in acc) (fr_amount_in flow),
                                       ac_amount_out = fl_add F (ac_amount_out acc) (fr_amount_out flow)\<rparr> merged))"

definition group_totals :: "'f float_ops \<Rightarrow> (cell_key, 'f accum) hmap \<Rightarrow> (nat \<times> token_address, 'f) hmap" where
  "group_totals F merged =
     fold (\<lambda>((stage, token_in, _, _), acc). add_entry F (stage, token_in) (ac_weight acc)) merged []"

definition plan_step :: "'f float_ops \<Rightarrow> (nat \<times> token_address, 'f) hmap \<Rightarrow> cell_key \<times> 'f accum \<Rightarrow> 'f executable_step" where
  "plan_step F totals = (\<lambda>((stage, token_in, token_out, kind), acc).
     (let total = (case map_of totals (stage, token_in) of None \<Rightarrow> fl_zero F | Some t \<Rightarrow> t)
      in \<lparr>es_stage = stage, es_token_in = token_in, es_token_out = token_out, es_kind = kind,
          es_weight = (if fl_less F (fl_zero F) total then fl_div F (ac_weight acc) total else fl_zero F),
          es_amount_in = ac_amount_in acc, es_amount_out = ac_amount_out acc\<rparr>))"

definition build_plan :: "'f float_ops \<Rightarrow> 'f flow_record list \<Rightarrow> token_address \<Rightarrow> token_address \<Rightarrow> 'f \<Rightarrow> 'f \<Rightarrow>
    (token_address \<times> token_address) list \<Rightarrow> 'f execution_plan" where
  "build_plan F flows source_asset output_asset entry_amount min_weight bridges =
     (let merged = merge_flows F min_weight bridges flows [];
          totals = group_totals F merged
      in \<lparr>ep_source_asset = source_asset, ep_output_asset = output_asset, ep_entry_amount = entry_amount,
          ep_steps = sort_key es_stage (map (plan_step F totals) merged)\<rparr>)"

section \<open>Float replay\<close>

datatype replay_error = PoolNotFound | ReplayTokenNotInPool

record 'f pool_book_entry =
  pb_token0 :: token_address
  pb_token1 :: token_address
  pb_reserve0 :: 'f
  pb_reserve1 :: 'f
  pb_fee :: 'f
  pb_max_swap_0 :: 'f
  pb_max_swap_1 :: 'f

definition book_swap :: "'f float_ops \<Rightarrow> 'f pool_book_entry \<Rightarrow> token_address \<Rightarrow> 'f \<Rightarrow>
    replay_error + 'f pool_book_entry \<times> 'f" where
  "book_swap F entry token_in amount_in =
     (let forward = (token_in = pb_token0 entry)
      in if \<not> forward \<and> token_in \<noteq> pb_token1 entry then Inl ReplayTokenNotInPool
         else let (x, y, max_swap) =
                    (if forward then (pb_reserve0 entry, pb_reserve1 entry, pb_max_swap_0 entry)
                     else (pb_reserve1 entry, pb_reserve0 entry, pb_max_swap_1 entry));
                  capped = fl_min F (fl_mul F amount_in (pb_fee entry)) max_swap;
                  out = fl_max F (fl_div F (fl_mul F y capped) (fl_add F (fl_add F x capped) (fl_epsilon F))) (fl_zero F)
              in Inr (if forward
                      then entry\<lparr>pb_reserve0 := fl_add F (pb_reserve0 entry) amount_in,
                                 pb_reserve1 := fl_sub F (pb_reserve1 entry) out\<rparr>
                      else entry\<lparr>pb_reserve1 := fl_add F (pb_reserve1 entry) amount_in,
                                 pb_reserve0 := fl_sub F (pb_reserve0 entry) out\<rparr>, out))"

datatype replay_action = SwapAction pool_ref | PassAction | DropAction

record 'f replay_step =
  rp_stage :: nat
  rp_token_in :: token_address
  rp_token_out :: token_address
  rp_action :: replay_action
  rp_weight :: 'f

type_synonym 'f reserve_book = "(pool_ref, 'f pool_book_entry) hmap"
type_synonym 'f float_balances = "(token_address, 'f) hmap"

definition book_insert :: "'f pool_reserves \<Rightarrow> 'f reserve_book \<Rightarrow> 'f reserve_book" where
  "book_insert reserve book =
     (if hm_contains book (rs_pool_id reserve) then book
      else AList.update (rs_pool_id reserve)
        \<lparr>pb_token0 = rs_token0 reserve, pb_token1 = rs_token1 reserve,
         pb_reserve0 = vr_token_0 (rs_value reserve), pb_reserve1 = vr_token_1 (rs_value reserve),
         pb_fee = vr_fee_multiplier (rs_value reserve),
         pb_max_swap_0 = vr_max_swap_0 (rs_value reserve), pb_max_swap_1 = vr_max_swap_1 (rs_value reserve)\<rparr> book)"

definition float_balance :: "'f float_ops \<Rightarrow> 'f float_balances \<Rightarrow> token_address \<Rightarrow> 'f" where
  "float_balance F balances token = (case map_of balances token of None \<Rightarrow> fl_zero F | Some b \<Rightarrow> b)"

fun float_stage :: "'f float_ops \<Rightarrow> 'f replay_step list \<Rightarrow> 'f float_balances \<Rightarrow> 'f reserve_book \<Rightarrow> 'f float_balances \<Rightarrow>
    replay_error + 'f reserve_book \<times> 'f float_balances" where
  "float_stage F [] balances book upcoming = Inr (book, upcoming)"
| "float_stage F (step # steps) balances book upcoming =
     (let amount_in = fl_mul F (float_balance F balances (rp_token_in step)) (rp_weight step)
      in if fl_le F amount_in (fl_zero F) then float_stage F steps balances book upcoming
         else case rp_action step of
           SwapAction pool \<Rightarrow>
             (case map_of book pool of
                None \<Rightarrow> Inl PoolNotFound
              | Some entry \<Rightarrow>
                  (case book_swap F entry (rp_token_in step) amount_in of
                     Inl e \<Rightarrow> Inl e
                   | Inr (entry', out) \<Rightarrow>
                       float_stage F steps balances (AList.update pool entry' book) (add_entry F (rp_token_out step) out upcoming)))
         | PassAction \<Rightarrow> float_stage F steps balances book (add_entry F (rp_token_out step) amount_in upcoming)
         | DropAction \<Rightarrow> float_stage F steps balances book upcoming)"

fun float_stages :: "'f float_ops \<Rightarrow> 'f replay_step list \<Rightarrow> nat list \<Rightarrow> 'f float_balances \<Rightarrow> 'f reserve_book \<Rightarrow>
    replay_error + 'f float_balances" where
  "float_stages F steps [] balances book = Inr balances"
| "float_stages F steps (stage # stages) balances book =
     (case float_stage F (filter (\<lambda>s. rp_stage s = stage) steps) balances book [] of
        Inl e \<Rightarrow> Inl e
      | Inr (book', balances') \<Rightarrow> float_stages F steps stages balances' book')"

definition replay_steps :: "'f float_ops \<Rightarrow> 'f replay_step list \<Rightarrow> 'f pool_reserves list \<Rightarrow> token_address \<Rightarrow> token_address \<Rightarrow>
    'f \<Rightarrow> replay_error + 'f" where
  "replay_steps F steps reserves source_asset output_asset deposit =
     (let book = fold book_insert reserves [];
          balances = [(source_asset, deposit)]
      in if steps = [] then Inr (float_balance F balances output_asset)
         else case float_stages F steps [0..<Suc (Max (set (map rp_stage steps)))] balances book of
                Inl e \<Rightarrow> Inl e
              | Inr final \<Rightarrow> Inr (float_balance F final output_asset))"

definition flow_step :: "'f flow_record \<Rightarrow> 'f replay_step" where
  "flow_step flow = \<lparr>rp_stage = fr_stage flow, rp_token_in = fr_token_in flow, rp_token_out = fr_token_out flow,
     rp_action = (case fr_pool_id flow of
         Some pool \<Rightarrow> SwapAction pool
       | None \<Rightarrow> if fr_token_in flow = fr_token_out flow then PassAction else DropAction),
     rp_weight = fr_weight flow\<rparr>"

definition replay_flows :: "'f float_ops \<Rightarrow> 'f flow_record list \<Rightarrow> 'f pool_reserves list \<Rightarrow> token_address \<Rightarrow> token_address \<Rightarrow>
    'f \<Rightarrow> replay_error + 'f" where
  "replay_flows F flows reserves source_asset output_asset deposit =
     replay_steps F (map flow_step flows) reserves source_asset output_asset deposit"

definition plan_replay_step :: "'f executable_step \<Rightarrow> 'f replay_step" where
  "plan_replay_step step = \<lparr>rp_stage = es_stage step, rp_token_in = es_token_in step, rp_token_out = es_token_out step,
     rp_action = (case es_kind step of
         Swap pool \<Rightarrow> SwapAction pool
       | Carry \<Rightarrow> if es_token_in step = es_token_out step then PassAction else DropAction
       | Bridge \<Rightarrow> PassAction),
     rp_weight = es_weight step\<rparr>"

definition replay_plan :: "'f float_ops \<Rightarrow> 'f execution_plan \<Rightarrow> 'f pool_reserves list \<Rightarrow> replay_error + 'f" where
  "replay_plan F plan reserves =
     replay_steps F (map plan_replay_step (ep_steps plan)) reserves
       (ep_source_asset plan) (ep_output_asset plan) (ep_entry_amount plan)"

end
