(* ===== verification/OptimizerRunner.thy ===== *)
theory OptimizerRunner
  imports PlanReplay
begin

text \<open>
  The optimizer's sessions (execution.rs): its configuration, results and errors, the validation of a
  snapshot, and the steps that initialize, update or continue a session. The tensor model behind a
  session is the parameter \<open>model_ops\<close>: its construction, reconciliation, training, evaluation and flow
  extraction. What is modelled is everything around it: which snapshot reaches it, in which order the
  checks run, which keys and counts the session records, and what each step reports.
\<close>

section \<open>Types\<close>

datatype optimization_backend_selection = AutoBackend | WgpuBackend | CpuBackend

datatype optimization_backend_used = UsedWgpu | UsedCpu

datatype optimization_error =
  ModelInitAssetNotFound | ModelOutputAssetNotFound | InvalidInitAssetIndex | InvalidLayoutIndex | InvalidOutputIndex

datatype 'f optimization_step_error =
  EmptyReserves
| DuplicateReserveKey
| InvalidInputAmount 'f
| OutputAssetNotFound
| SourceAssetNotFound
| ModelInit optimization_error

datatype 'f optimization_init_error = WgpuUnavailable | InitStep "'f optimization_step_error"

datatype optimization_step_status = Initialized | Updated | Extended | Reinitialized | Continued

record 'f optimization_step_result =
  sr_status :: optimization_step_status
  sr_input_amount :: 'f
  sr_output_amount :: 'f
  sr_profit_amount :: 'f
  sr_reserves_count :: nat
  sr_disabled_count :: nat
  sr_pool_slots :: nat
  sr_route_entropy :: 'f
  sr_effective_pools :: 'f
  sr_routed_pool_count :: nat
  sr_iterations_completed :: nat

record 'f step_config =
  st_input_amount :: 'f
  st_iterations :: nat

datatype reserve_key = ReserveKey (rk_pool_id: pool_ref) (rk_token0: token_address) (rk_token1: token_address)

datatype 'f step_update = NewReserves "'f pool_reserves list" "pool_ref set" | Continue

datatype reconcile_outcome = Grew | Refreshed

record ('m, 'o, 'f) model_ops =
  mo_init_route :: "token_address \<Rightarrow> token_address \<Rightarrow> 'f pool_reserves list \<Rightarrow> (token_address \<times> token_address) list \<Rightarrow>
    pool_ref set \<Rightarrow> optimization_error + 'm"
  mo_reconcile :: "'m \<Rightarrow> 'f pool_reserves list \<Rightarrow> (token_address \<times> token_address) list \<Rightarrow> pool_ref set \<Rightarrow>
    optimization_error + 'm \<times> reconcile_outcome"
  mo_init_optimizer :: 'o
  mo_optimize_with :: "'m \<Rightarrow> 'o \<Rightarrow> 'f \<Rightarrow> nat \<Rightarrow> 'm \<times> 'o"
  mo_evaluate :: "'m \<Rightarrow> 'f \<Rightarrow> 'f"
  mo_extract_flows :: "'m \<Rightarrow> 'f \<Rightarrow> optimization_error + 'f flow_record list"
  mo_pool_slots :: "'m \<Rightarrow> nat"
  mo_plan_min_weight :: 'f

record ('m, 'o) optimization_session =
  os_model :: 'm
  os_optimizer :: 'o
  os_session_config :: session_config
  os_reserve_keys :: "reserve_key set"
  os_disabled_count :: nat

type_synonym ('x, 'f, 'e) step_outcome = "'e + 'x \<times> 'f optimization_step_result \<times> 'f execution_plan option"

section \<open>Configurations\<close>

text \<open>Bridges are a hash set: equality of configurations ignores their order.\<close>

definition session_config_eq :: "session_config \<Rightarrow> session_config \<Rightarrow> bool" where
  "session_config_eq a b \<longleftrightarrow> sc_source_asset a = sc_source_asset b \<and> sc_output_asset a = sc_output_asset b \<and>
     set (sc_bridges a) = set (sc_bridges b) \<and> sc_whitelist a = sc_whitelist b"

fun select_backend :: "optimization_backend_selection \<Rightarrow> bool \<Rightarrow> 'f optimization_init_error + optimization_backend_used" where
  "select_backend AutoBackend wgpu_available = Inr (if wgpu_available then UsedWgpu else UsedCpu)"
| "select_backend WgpuBackend wgpu_available = (if wgpu_available then Inr UsedWgpu else Inl WgpuUnavailable)"
| "select_backend CpuBackend wgpu_available = Inr UsedCpu"

section \<open>Validation\<close>

definition reserve_key_of :: "'f pool_reserves \<Rightarrow> reserve_key" where
  "reserve_key_of reserve = ReserveKey (rs_pool_id reserve) (rs_token0 reserve) (rs_token1 reserve)"

fun collect_keys :: "'f pool_reserves list \<Rightarrow> reserve_key set \<Rightarrow> 'f optimization_step_error + reserve_key set" where
  "collect_keys [] keys = Inr keys"
| "collect_keys (reserve # reserves) keys =
     (if reserve_key_of reserve \<notin> keys then collect_keys reserves (insert (reserve_key_of reserve) keys)
      else Inl DuplicateReserveKey)"

definition reserve_keys :: "'f pool_reserves list \<Rightarrow> 'f optimization_step_error + reserve_key set" where
  "reserve_keys reserves = collect_keys reserves {}"

definition validate_step_config :: "'f float_ops \<Rightarrow> 'f step_config \<Rightarrow> 'f optimization_step_error option" where
  "validate_step_config F step_config =
     (if \<not> fl_finite F (st_input_amount step_config) \<or> fl_le F (st_input_amount step_config) (fl_zero F)
      then Some (InvalidInputAmount (st_input_amount step_config)) else None)"

definition reserves_reach_route :: "'f pool_reserves list \<Rightarrow> session_config \<Rightarrow> bool" where
  "reserves_reach_route reserves cfg =
     (let admissible = admissible_reserves reserves cfg
      in list_ex (\<lambda>r. rs_token1 r = sc_output_asset cfg) admissible \<and>
         list_ex (\<lambda>r. rs_token0 r = sc_source_asset cfg \<or> rs_token1 r = sc_source_asset cfg) admissible)"

definition validate_reserve_snapshot :: "'f float_ops \<Rightarrow> 'f pool_reserves list \<Rightarrow> session_config \<Rightarrow> 'f step_config \<Rightarrow>
    'f optimization_step_error + reserve_key set" where
  "validate_reserve_snapshot F reserves cfg step_config =
     (case validate_step_config F step_config of
        Some e \<Rightarrow> Inl e
      | None \<Rightarrow>
          if reserves = [] then Inl EmptyReserves
          else case reserve_keys reserves of
            Inl e \<Rightarrow> Inl e
          | Inr keys \<Rightarrow>
              if list_all (\<lambda>r. rs_token1 r \<noteq> sc_output_asset cfg) reserves then Inl OutputAssetNotFound
              else if list_all (\<lambda>r. rs_token0 r \<noteq> sc_source_asset cfg \<and> rs_token1 r \<noteq> sc_source_asset cfg) reserves
              then Inl SourceAssetNotFound
              else Inr keys)"

definition effective_disabled_count :: "'f pool_reserves list \<Rightarrow> pool_ref set \<Rightarrow> nat" where
  "effective_disabled_count reserves disabled = card (set (map rs_pool_id reserves) \<inter> disabled)"

section \<open>Steps\<close>

definition run_optimization_chunk :: "'f float_ops \<Rightarrow> ('m, 'o, 'f) model_ops \<Rightarrow> ('m, 'o) optimization_session \<Rightarrow>
    'f step_config \<Rightarrow> optimization_step_status \<Rightarrow>
    (('m, 'o) optimization_session, 'f, 'f optimization_step_error) step_outcome" where
  "run_optimization_chunk F M session step_config status =
     (case validate_step_config F step_config of
        Some e \<Rightarrow> Inl e
      | None \<Rightarrow>
          (let cfg = os_session_config session;
               amount = st_input_amount step_config;
               (model, optimizer) = mo_optimize_with M (os_model session) (os_optimizer session) amount (st_iterations step_config);
               output_amount = mo_evaluate M model amount;
               (entropy, effective, routed, plan) =
                 (case mo_extract_flows M model amount of
                    Inr flows \<Rightarrow>
                      (let summary = flow_summary_from F flows
                       in (fs_route_entropy summary, fs_effective_pools summary, length (fs_pool_inputs summary),
                           Some (build_plan F flows (sc_source_asset cfg) (sc_output_asset cfg) amount
                             (mo_plan_min_weight M) (sc_bridges cfg))))
                  | Inl _ \<Rightarrow> (fl_zero F, fl_zero F, 0, None))
           in Inr (session\<lparr>os_model := model, os_optimizer := optimizer\<rparr>,
                   \<lparr>sr_status = status, sr_input_amount = amount, sr_output_amount = output_amount,
                    sr_profit_amount = fl_sub F output_amount amount,
                    sr_reserves_count = card (os_reserve_keys session), sr_disabled_count = os_disabled_count session,
                    sr_pool_slots = mo_pool_slots M model, sr_route_entropy = entropy, sr_effective_pools = effective,
                    sr_routed_pool_count = routed, sr_iterations_completed = st_iterations step_config\<rparr>,
                   plan)))"

definition initialize_session_with_status :: "'f float_ops \<Rightarrow> ('m, 'o, 'f) model_ops \<Rightarrow> 'f pool_reserves list \<Rightarrow>
    session_config \<Rightarrow> 'f step_config \<Rightarrow> optimization_step_status \<Rightarrow> pool_ref set \<Rightarrow>
    (('m, 'o) optimization_session, 'f, 'f optimization_step_error) step_outcome" where
  "initialize_session_with_status F M reserves cfg step_config status disabled =
     (case validate_reserve_snapshot F reserves cfg step_config of
        Inl e \<Rightarrow> Inl e
      | Inr keys \<Rightarrow>
          (case mo_init_route M (sc_source_asset cfg) (sc_output_asset cfg) reserves (sc_bridges cfg) disabled of
             Inl source \<Rightarrow> Inl (ModelInit source)
           | Inr model \<Rightarrow>
               run_optimization_chunk F M
                 \<lparr>os_model = model, os_optimizer = mo_init_optimizer M, os_session_config = cfg, os_reserve_keys = keys,
                  os_disabled_count = effective_disabled_count reserves disabled\<rparr> step_config status))"

definition initialize_session :: "'f float_ops \<Rightarrow> ('m, 'o, 'f) model_ops \<Rightarrow> 'f pool_reserves list \<Rightarrow>
    session_config \<Rightarrow> 'f step_config \<Rightarrow> (('m, 'o) optimization_session, 'f, 'f optimization_step_error) step_outcome" where
  "initialize_session F M reserves cfg step_config =
     initialize_session_with_status F M (admissible_reserves reserves cfg) cfg step_config Initialized {}"

definition run_step_with_reserves :: "'f float_ops \<Rightarrow> ('m, 'o, 'f) model_ops \<Rightarrow> ('m, 'o) optimization_session \<Rightarrow>
    'f pool_reserves list \<Rightarrow> pool_ref set \<Rightarrow> 'f step_config \<Rightarrow>
    (('m, 'o) optimization_session, 'f, 'f optimization_step_error) step_outcome" where
  "run_step_with_reserves F M session snapshot disabled step_config =
     (let cfg = os_session_config session; reserves = admissible_reserves snapshot cfg
      in case validate_reserve_snapshot F reserves cfg step_config of
           Inl e \<Rightarrow> Inl e
         | Inr incoming_keys \<Rightarrow>
             (let updated = session\<lparr>os_reserve_keys := incoming_keys,
                                    os_disabled_count := effective_disabled_count reserves disabled\<rparr>
              in case mo_reconcile M (os_model session) reserves (sc_bridges cfg) disabled of
                   Inr (model, Refreshed) \<Rightarrow> run_optimization_chunk F M (updated\<lparr>os_model := model\<rparr>) step_config Updated
                 | Inr (model, Grew) \<Rightarrow>
                     run_optimization_chunk F M (updated\<lparr>os_model := model, os_optimizer := mo_init_optimizer M\<rparr>)
                       step_config Extended
                 | Inl _ \<Rightarrow> initialize_session_with_status F M reserves cfg step_config Reinitialized disabled))"

fun run_optimization_step :: "'f float_ops \<Rightarrow> ('m, 'o, 'f) model_ops \<Rightarrow> ('m, 'o) optimization_session \<Rightarrow>
    'f step_update \<Rightarrow> 'f step_config \<Rightarrow>
    (('m, 'o) optimization_session, 'f, 'f optimization_step_error) step_outcome" where
  "run_optimization_step F M session Continue step_config = run_optimization_chunk F M session step_config Continued"
| "run_optimization_step F M session (NewReserves reserves disabled) step_config =
     run_step_with_reserves F M session reserves disabled step_config"

section \<open>Runners\<close>

record ('m, 'o, 'f) optimization_runner =
  or_backend :: optimization_backend_used
  or_session :: "('m, 'o) optimization_session"
  or_step_config :: "'f step_config"

definition wrap_runner :: "optimization_backend_used \<Rightarrow> 'f step_config \<Rightarrow>
    (('m, 'o) optimization_session, 'f, 'e) step_outcome \<Rightarrow> (('m, 'o, 'f) optimization_runner, 'f, 'e) step_outcome" where
  "wrap_runner backend step_config outcome =
     (case outcome of
        Inl e \<Rightarrow> Inl e
      | Inr (session, result, plan) \<Rightarrow>
          Inr (\<lparr>or_backend = backend, or_session = session, or_step_config = step_config\<rparr>, result, plan))"

definition runner_init :: "'f float_ops \<Rightarrow> (optimization_backend_used \<Rightarrow> ('m, 'o, 'f) model_ops) \<Rightarrow> bool \<Rightarrow>
    optimization_backend_selection \<Rightarrow> 'f pool_reserves list \<Rightarrow> session_config \<Rightarrow> 'f step_config \<Rightarrow>
    (('m, 'o, 'f) optimization_runner, 'f, 'f optimization_init_error) step_outcome" where
  "runner_init F M wgpu_available selection reserves cfg step_config =
     (case select_backend selection wgpu_available of
        Inl e \<Rightarrow> Inl e
      | Inr backend \<Rightarrow>
          (case wrap_runner backend step_config (initialize_session F (M backend) reserves cfg step_config) of
             Inl e \<Rightarrow> Inl (InitStep e)
           | Inr outcome \<Rightarrow> Inr outcome))"

definition runner_run :: "'f float_ops \<Rightarrow> (optimization_backend_used \<Rightarrow> ('m, 'o, 'f) model_ops) \<Rightarrow>
    ('m, 'o, 'f) optimization_runner \<Rightarrow> 'f step_update \<Rightarrow>
    (('m, 'o, 'f) optimization_runner, 'f, 'f optimization_step_error) step_outcome" where
  "runner_run F M runner update =
     wrap_runner (or_backend runner) (or_step_config runner)
       (run_optimization_step F (M (or_backend runner)) (or_session runner) update (or_step_config runner))"

end
