(* ===== verification/ClientCore.thy ===== *)
theory ClientCore
  imports Wire ReserveProjection OptimizerRunner
begin

text \<open>
  The client engine's pure core (aa-client-core): the catalog and the projection of a slice into
  reserves (lib.rs), the ledger of in-flight fetches (pending.rs), and the reducer over the session's
  lifecycle (state.rs) with its start (runtime.rs). HTTP, timers and threads run the effects outside.
\<close>

section \<open>Catalog\<close>

record 'f client_env =
  ce_wire :: wire_ops
  ce_show_tick :: "32 word \<Rightarrow> string"
  ce_amounts :: "'f amount_env"

datatype wire_adapter_error = AdapterHexParse string string | Projection pool_reserve_projection_error

datatype catalog_fault = CatalogHexParse string string | MissingDecimals pool_ref address

record pool_entry =
  pe_token0 :: token_address
  pe_token1 :: token_address
  pe_fee :: pool_fee
  pe_token0_decimals :: token_decimals
  pe_token1_decimals :: token_decimals

record catalog =
  ct_chain :: chain_key
  ct_pools :: "(pool_ref, pool_entry) hmap"
  ct_request :: "pool_query list"
  ct_excluded :: "catalog_fault list"

definition add_token_decimals :: "wire_ops \<Rightarrow> token_meta_entry \<Rightarrow> (address, token_decimals) hmap \<Rightarrow> (address, token_decimals) hmap" where
  "add_token_decimals W token decimals =
     (case (wo_parse_address W (te_address token), try_from_u256 (ucast (te_decimals token))) of
        (Some address, Inr value) \<Rightarrow> AList.update address value decimals
      | _ \<Rightarrow> decimals)"

definition catalog_decimals :: "wire_ops \<Rightarrow> token_meta_entry list \<Rightarrow> (address, token_decimals) hmap" where
  "catalog_decimals W tokens = fold (add_token_decimals W) tokens []"

definition resolve_entry :: "wire_ops \<Rightarrow> chain_key \<Rightarrow> pool_meta_entry \<Rightarrow> hex_fault + pool_ref \<times> address \<times> address" where
  "resolve_entry W chain entry =
     (case pool_ref_of W (me_key entry) chain of
        Inl fault \<Rightarrow> Inl fault
      | Inr pool \<Rightarrow>
     (case parse_address W (me_token0 entry) ''pool.token0'' of
        Inl fault \<Rightarrow> Inl fault
      | Inr token0 \<Rightarrow>
     (case parse_address W (me_token1 entry) ''pool.token1'' of
        Inl fault \<Rightarrow> Inl fault
      | Inr token1 \<Rightarrow> Inr (pool, token0, token1))))"

fun parse_entries :: "wire_ops \<Rightarrow> chain_key \<Rightarrow> (address, token_decimals) hmap \<Rightarrow> pool_meta_entry list \<Rightarrow> catalog \<Rightarrow> catalog" where
  "parse_entries W chain decimals [] catalog = catalog"
| "parse_entries W chain decimals (entry # entries) catalog =
     (case resolve_entry W chain entry of
        Inl fault \<Rightarrow>
          parse_entries W chain decimals entries
            (catalog\<lparr>ct_excluded := ct_excluded catalog @ [CatalogHexParse (hf_field fault) (hf_value fault)]\<rparr>)
      | Inr (pool, token0, token1) \<Rightarrow>
          (case (map_of decimals token0, map_of decimals token1) of
             (Some token0_decimals, Some token1_decimals) \<Rightarrow>
               parse_entries W chain decimals entries
                 (catalog\<lparr>ct_pools := AList.update pool
                            \<lparr>pe_token0 = TokenAddress token0 chain, pe_token1 = TokenAddress token1 chain,
                             pe_fee = Static (me_fee_pips entry) (me_tick_spacing entry),
                             pe_token0_decimals = token0_decimals, pe_token1_decimals = token1_decimals\<rparr> (ct_pools catalog),
                          ct_request := ct_request catalog @ [me_key entry]\<rparr>)
           | _ \<Rightarrow>
               parse_entries W chain decimals entries
                 (catalog\<lparr>ct_excluded := ct_excluded catalog @
                    [MissingDecimals pool (if hm_contains decimals token0 then token1 else token0)]\<rparr>)))"

definition parse_catalog :: "wire_ops \<Rightarrow> pools_meta_response \<Rightarrow> chain_key \<Rightarrow> catalog" where
  "parse_catalog W meta chain =
     parse_entries W chain (catalog_decimals W (mr_tokens meta)) (mr_pools meta)
       \<lparr>ct_chain = chain, ct_pools = [], ct_request = [], ct_excluded = []\<rparr>"

definition catalog_len :: "catalog \<Rightarrow> nat" where
  "catalog_len catalog = length (ct_pools catalog)"

definition catalog_is_empty :: "catalog \<Rightarrow> bool" where
  "catalog_is_empty catalog \<longleftrightarrow> ct_pools catalog = []"

section \<open>Projection of a slice\<close>

definition adapter_fault :: "hex_fault \<Rightarrow> wire_adapter_error" where
  "adapter_fault fault = AdapterHexParse (hf_field fault) (hf_value fault)"

fun project_slices :: "'f client_env \<Rightarrow> catalog \<Rightarrow> pool_slice list \<Rightarrow> wire_adapter_error + 'f pool_reserves list" where
  "project_slices C catalog [] = Inr []"
| "project_slices C catalog (slice_pool # slices) =
     (case sl_state slice_pool of
        Incomplete \<Rightarrow> project_slices C catalog slices
      | Complete state \<Rightarrow>
     (case pool_ref_of (ce_wire C) (sl_key slice_pool) (ct_chain catalog) of
        Inl fault \<Rightarrow> Inl (adapter_fault fault)
      | Inr pool \<Rightarrow>
     (case map_of (ct_pools catalog) pool of
        None \<Rightarrow> project_slices C catalog slices
      | Some entry \<Rightarrow>
     (case parse_pool_state (ce_wire C) (ce_show_tick C) state of
        Inl fault \<Rightarrow> Inl (adapter_fault fault)
      | Inr pool_state \<Rightarrow>
     (case pool_reserve_values (ce_amounts C) pool pool_state (pe_fee entry) (pe_token0 entry) (pe_token1 entry)
             (pe_token0_decimals entry) (pe_token1_decimals entry) of
        Inl source \<Rightarrow> Inl (Projection source)
      | Inr value \<Rightarrow>
     (case project_slices C catalog slices of
        Inl e \<Rightarrow> Inl e
      | Inr projected \<Rightarrow>
          Inr (\<lparr>rs_token0 = pe_token0 entry, rs_token1 = pe_token1 entry, rs_pool_id = pool, rs_value = value\<rparr> # projected)))))))"

definition project_slice :: "'f client_env \<Rightarrow> catalog \<Rightarrow> slice_response \<Rightarrow> wire_adapter_error + 'f pool_reserves list" where
  "project_slice C catalog response =
     (case project_slices C catalog (sp_pools response) of
        Inl e \<Rightarrow> Inl e
      | Inr projected \<Rightarrow> Inr (concat (map (\<lambda>r. [r, inverse_reserves r]) (sort_key rs_pool_id projected))))"

section \<open>In-flight fetches\<close>

datatype fetch_kind = MetaKind | HealthKind | SliceKind

record fetch_slot =
  ft_id :: u64
  ft_dispatched_at :: u64

record pending_fetches =
  pf_next_id :: u64
  pf_now :: u64
  pf_meta :: "fetch_slot option"
  pf_slice :: "fetch_slot option"
  pf_health :: "fetch_slot option"

definition FETCH_TTL_TICKS :: u64 where
  "FETCH_TTL_TICKS = 10"

definition fetches_new :: pending_fetches where
  "fetches_new = \<lparr>pf_next_id = 0, pf_now = 0, pf_meta = None, pf_slice = None, pf_health = None\<rparr>"

definition fetches_advance :: "pending_fetches \<Rightarrow> pending_fetches" where
  "fetches_advance p = p\<lparr>pf_now := pf_now p + 1\<rparr>"

fun fetch_slot_of :: "fetch_kind \<Rightarrow> pending_fetches \<Rightarrow> fetch_slot option" where
  "fetch_slot_of MetaKind p = pf_meta p"
| "fetch_slot_of HealthKind p = pf_health p"
| "fetch_slot_of SliceKind p = pf_slice p"

fun set_fetch_slot :: "fetch_kind \<Rightarrow> fetch_slot option \<Rightarrow> pending_fetches \<Rightarrow> pending_fetches" where
  "set_fetch_slot MetaKind slot p = p\<lparr>pf_meta := slot\<rparr>"
| "set_fetch_slot HealthKind slot p = p\<lparr>pf_health := slot\<rparr>"
| "set_fetch_slot SliceKind slot p = p\<lparr>pf_slice := slot\<rparr>"

definition fetch_is_fresh :: "fetch_kind \<Rightarrow> pending_fetches \<Rightarrow> bool" where
  "fetch_is_fresh kind p =
     (case fetch_slot_of kind p of
        Some slot \<Rightarrow> pf_now p - ft_dispatched_at slot < FETCH_TTL_TICKS
      | None \<Rightarrow> False)"

definition ensure_fetch :: "fetch_kind \<Rightarrow> pending_fetches \<Rightarrow> pending_fetches \<times> u64 option" where
  "ensure_fetch kind p =
     (if fetch_is_fresh kind p then (p, None)
      else (set_fetch_slot kind (Some \<lparr>ft_id = pf_next_id p, ft_dispatched_at = pf_now p\<rparr>) (p\<lparr>pf_next_id := pf_next_id p + 1\<rparr>),
            Some (pf_next_id p)))"

definition accept_fetch :: "fetch_kind \<Rightarrow> u64 \<Rightarrow> pending_fetches \<Rightarrow> pending_fetches \<times> bool" where
  "accept_fetch kind rid p =
     (let matched = (case fetch_slot_of kind p of Some slot \<Rightarrow> ft_id slot = rid | None \<Rightarrow> False)
      in (if matched then set_fetch_slot kind None p else p, matched))"

section \<open>State\<close>

record 'f client_config =
  cc_chain :: chain_key
  cc_optimization :: session_config
  cc_step :: "'f step_config"
  cc_backend :: optimization_backend_selection

record route =
  rt_source :: address
  rt_output :: address

definition route_arbitrage :: "address \<Rightarrow> route" where
  "route_arbitrage asset = \<lparr>rt_source = asset, rt_output = asset\<rparr>"

record slice_provenance =
  pv_block_hash :: block_hash
  pv_confirmations :: u64

datatype await_reason = AwaitBootstrapping | NoRoute

datatype 'f work =
  Awaiting await_reason
| Optimizing slice_provenance "'f optimization_step_result option" "'f execution_plan option"

datatype 'f client_session = NoCatalog | SessionReady catalog "'f work"

datatype optimize_stage = StageInit | StageRun

datatype effect_error =
  FetchError fetch_kind string
| AdapterError wire_adapter_error
| ProvenanceError string string
| OptimizeError optimize_stage string

record 'f app_state =
  as_config :: "'f client_config"
  as_health :: "health_response option"
  as_last_error :: "effect_error option"
  as_session :: "'f client_session"
  as_pending :: pending_fetches

datatype 'f client_event =
  MetaFetched u64 pools_meta_response
| SliceFetched u64 slice_response
| HealthFetched u64 health_response
| FetchFailed u64 fetch_kind string
| OptimizerStepped "'f optimization_step_result" "'f execution_plan option"
| EffectFailed effect_error
| ClientTick
| SetRoute route

datatype 'f client_effect =
  FetchMeta u64
| FetchHealth u64
| FetchSlice u64 "pool_query list"
| PushReserves "'f pool_reserves list" session_config

definition app_started :: "'f client_config \<Rightarrow> 'f app_state" where
  "app_started config = \<lparr>as_config = config, as_health = None, as_last_error = None, as_session = NoCatalog,
     as_pending = fetches_new\<rparr>"

definition held_catalog :: "'f app_state \<Rightarrow> catalog option" where
  "held_catalog s = (case as_session s of NoCatalog \<Rightarrow> None | SessionReady catalog _ \<Rightarrow> Some catalog)"

section \<open>Reducer\<close>

definition is_productive :: "'f pool_reserves list \<Rightarrow> 'f client_config \<Rightarrow> bool" where
  "is_productive reserves config \<longleftrightarrow> reserves \<noteq> [] \<and> reserves_reach_route reserves (cc_optimization config)"

definition parse_provenance :: "wire_ops \<Rightarrow> slice_response \<Rightarrow> effect_error + slice_provenance" where
  "parse_provenance W response =
     (case wo_parse_hash W (sp_block_hash response) of
        None \<Rightarrow> Inl (ProvenanceError ''block_hash'' (sp_block_hash response))
      | Some h \<Rightarrow> Inr \<lparr>pv_block_hash = h, pv_confirmations = sp_confirmations response\<rparr>)"

definition with_slot :: "fetch_kind \<Rightarrow> 'f app_state \<Rightarrow> 'f app_state \<times> u64 option" where
  "with_slot kind s = (case ensure_fetch kind (as_pending s) of (p, rid) \<Rightarrow> (s\<lparr>as_pending := p\<rparr>, rid))"

definition on_tick :: "'f app_state \<Rightarrow> 'f app_state \<times> 'f client_effect list" where
  "on_tick s =
     (let s = s\<lparr>as_pending := fetches_advance (as_pending s)\<rparr>;
          (s, health_id) = with_slot HealthKind s;
          effects = (case health_id of None \<Rightarrow> [] | Some rid \<Rightarrow> [FetchHealth rid])
      in case held_catalog s of
           None \<Rightarrow>
             (case with_slot MetaKind s of
                (s, None) \<Rightarrow> (s, effects)
              | (s, Some rid) \<Rightarrow> (s, effects @ [FetchMeta rid]))
         | Some catalog \<Rightarrow>
             (case with_slot SliceKind s of
                (s, None) \<Rightarrow> (s, effects)
              | (s, Some rid) \<Rightarrow> (s, effects @ [FetchSlice rid (ct_request catalog)])))"

definition on_meta :: "'f client_env \<Rightarrow> pools_meta_response \<Rightarrow> 'f app_state \<Rightarrow> 'f app_state \<times> 'f client_effect list" where
  "on_meta C response s =
     (let catalog = parse_catalog (ce_wire C) response (cc_chain (as_config s));
          session = (case as_session s of
              SessionReady _ work \<Rightarrow> SessionReady catalog work
            | NoCatalog \<Rightarrow> SessionReady catalog (Awaiting AwaitBootstrapping))
      in case with_slot SliceKind (s\<lparr>as_session := session\<rparr>) of
           (s, Some rid) \<Rightarrow> (s, [FetchSlice rid (ct_request catalog)])
         | (s, None) \<Rightarrow> (s, []))"

definition on_slice :: "'f client_env \<Rightarrow> slice_response \<Rightarrow> 'f app_state \<Rightarrow> 'f app_state \<times> 'f client_effect list" where
  "on_slice C response s =
     (case as_session s of
        NoCatalog \<Rightarrow> (s, [])
      | SessionReady catalog work \<Rightarrow>
          (case project_slice C catalog response of
             Inl e \<Rightarrow> (s\<lparr>as_last_error := Some (AdapterError e)\<rparr>, [])
           | Inr reserves \<Rightarrow>
               (case parse_provenance (ce_wire C) response of
                  Inl e \<Rightarrow> (s\<lparr>as_last_error := Some e\<rparr>, [])
                | Inr provenance \<Rightarrow>
                    if \<not> is_productive reserves (as_config s) then
                      (case work of
                         Awaiting _ \<Rightarrow> (s\<lparr>as_session := SessionReady catalog (Awaiting NoRoute)\<rparr>, [])
                       | Optimizing _ _ _ \<Rightarrow> (s, []))
                    else
                      let (last_step, plan) = (case work of
                            Awaiting _ \<Rightarrow> (None, None)
                          | Optimizing _ last_step plan \<Rightarrow> (last_step, plan))
                      in (s\<lparr>as_session := SessionReady catalog (Optimizing provenance last_step plan), as_last_error := None\<rparr>,
                          [PushReserves reserves (cc_optimization (as_config s))]))))"

definition on_step :: "'f optimization_step_result \<Rightarrow> 'f execution_plan option \<Rightarrow> 'f app_state \<Rightarrow> 'f app_state" where
  "on_step result plan s =
     (case as_session s of
        SessionReady catalog (Optimizing latest _ _) \<Rightarrow>
          s\<lparr>as_session := SessionReady catalog (Optimizing latest (Some result) plan)\<rparr>
      | _ \<Rightarrow> s)"

definition on_set_route :: "route \<Rightarrow> 'f app_state \<Rightarrow> 'f app_state" where
  "on_set_route r s =
     (let config = as_config s;
          source = TokenAddress (rt_source r) (cc_chain config);
          sink = TokenAddress (rt_output r) (cc_chain config);
          optimization = cc_optimization config
      in if sc_source_asset optimization = source \<and> sc_output_asset optimization = sink then s
         else let s = s\<lparr>as_config := config\<lparr>cc_optimization := optimization\<lparr>sc_source_asset := source, sc_output_asset := sink\<rparr>\<rparr>\<rparr>
              in case as_session s of
                   SessionReady catalog _ \<Rightarrow> s\<lparr>as_session := SessionReady catalog (Awaiting AwaitBootstrapping)\<rparr>
                 | NoCatalog \<Rightarrow> s)"

definition with_accepted :: "fetch_kind \<Rightarrow> u64 \<Rightarrow> ('f app_state \<Rightarrow> 'f app_state \<times> 'f client_effect list) \<Rightarrow>
    'f app_state \<Rightarrow> 'f app_state \<times> 'f client_effect list" where
  "with_accepted kind rid k s =
     (case accept_fetch kind rid (as_pending s) of
        (p, True) \<Rightarrow> k (s\<lparr>as_pending := p\<rparr>)
      | (p, False) \<Rightarrow> (s\<lparr>as_pending := p\<rparr>, []))"

fun client_transition :: "'f client_env \<Rightarrow> 'f app_state \<Rightarrow> 'f client_event \<Rightarrow> 'f app_state \<times> 'f client_effect list" where
  "client_transition C s ClientTick = on_tick s"
| "client_transition C s (MetaFetched rid response) = with_accepted MetaKind rid (on_meta C response) s"
| "client_transition C s (SliceFetched rid response) = with_accepted SliceKind rid (on_slice C response) s"
| "client_transition C s (HealthFetched rid response) =
     with_accepted HealthKind rid (\<lambda>s. (s\<lparr>as_health := Some response\<rparr>, [])) s"
| "client_transition C s (FetchFailed rid kind message) =
     with_accepted kind rid (\<lambda>s. (s\<lparr>as_last_error := Some (FetchError kind message)\<rparr>, [])) s"
| "client_transition C s (OptimizerStepped result plan) = (on_step result plan s, [])"
| "client_transition C s (EffectFailed e) = (s\<lparr>as_last_error := Some e\<rparr>, [])"
| "client_transition C s (SetRoute r) = (on_set_route r s, [])"

section \<open>Start\<close>

definition CLIENT_CHAIN :: chain_key where
  "CLIENT_CHAIN = Ethereum"

definition session_config_for :: "'f step_config \<Rightarrow> route \<Rightarrow> 'f client_config" where
  "session_config_for step r =
     \<lparr>cc_chain = CLIENT_CHAIN,
      cc_optimization = \<lparr>sc_source_asset = TokenAddress (rt_source r) CLIENT_CHAIN,
        sc_output_asset = TokenAddress (rt_output r) CLIENT_CHAIN, sc_bridges = [], sc_whitelist = None\<rparr>,
      cc_step = step, cc_backend = CpuBackend\<rparr>"

text \<open>The placeholder route of \<open>init\<close> is the cycle on a constant token of tokens.rs, here an argument.\<close>

definition client_init :: "'f client_env \<Rightarrow> 'f step_config \<Rightarrow> address \<Rightarrow> 'f app_state \<times> 'f client_effect list" where
  "client_init C step asset =
     client_transition C (app_started (session_config_for step (route_arbitrage asset))) ClientTick"

end
