(* ===== verification/Serve.thy ===== *)
theory Serve
  imports Server ClientCore
begin

text \<open>
  The serving surface (aa-server serve.rs): the snapshot that the server publishes from its state, the
  payloads it renders from the snapshot, and the routing of a request to them. JSON is read and written by
  a parameter; the payloads are built here. The laws at the end follow a payload to the client.
\<close>

section \<open>The published snapshot\<close>

record running_snapshot =
  rn_finalized :: "block_hash \<times> u64"
  rn_canonical :: block_hash
  rn_frontier :: block_hash
  rn_verified_pool_count :: nat
  rn_in_flight :: nat
  rn_ws_miss :: u64
  rn_behind :: "nat option"
  rn_pools :: pool_states
  rn_catalog :: metadata_catalog

datatype server_snapshot = SnapshotAwaitingAnchor | SnapshotRunning running_snapshot

definition running_snapshot_of :: "bloom_ops \<Rightarrow> kernel_state \<Rightarrow> running_snapshot" where
  "running_snapshot_of B k =
     (let (pools, frontier) = state_projected_pool_states B k CHAIN
      in \<lparr>rn_finalized = finalized_head k, rn_canonical = canonical_head k, rn_frontier = frontier,
          rn_verified_pool_count = verified_size (ks_pool_registry k), rn_in_flight = pending_len (ks_pending_requests k),
          rn_ws_miss = ks_ws_miss_count k, rn_behind = blocks_behind k frontier, rn_pools = pools,
          rn_catalog = metadata_catalog_of k\<rparr>)"

fun server_snapshot_of :: "bloom_ops \<Rightarrow> server_state \<Rightarrow> server_snapshot" where
  "server_snapshot_of B AwaitingSeed = SnapshotAwaitingAnchor"
| "server_snapshot_of B (AwaitingAnchor seed) = SnapshotAwaitingAnchor"
| "server_snapshot_of B (Running k) = SnapshotRunning (running_snapshot_of B k)"

section \<open>Payloads\<close>

record http_response =
  ht_status :: u16
  ht_body :: string

record serve_ops =
  so_wire :: wire_ops
  so_display_hash :: "block_hash \<Rightarrow> string"
  so_read_request :: "string \<Rightarrow> pool_query list option"
  so_write_health :: "health_response \<Rightarrow> string option"
  so_write_slice :: "slice_response \<Rightarrow> string option"
  so_write_meta :: "pools_meta_response \<Rightarrow> string option"

definition written :: "string option \<Rightarrow> http_response" where
  "written body =
     (case body of
        Some text \<Rightarrow> \<lparr>ht_status = 200, ht_body = text\<rparr>
      | None \<Rightarrow> \<lparr>ht_status = 500, ht_body = []\<rparr>)"

definition awaiting_anchor_response :: http_response where
  "awaiting_anchor_response = \<lparr>ht_status = 503, ht_body = ''{\"status\":\"awaiting_anchor\"}''\<rparr>"

definition bad_request :: http_response where
  "bad_request = \<lparr>ht_status = 400, ht_body = []\<rparr>"

fun health_payload :: "serve_ops \<Rightarrow> server_snapshot \<Rightarrow> health_response" where
  "health_payload S SnapshotAwaitingAnchor = HealthAwaitingAnchor"
| "health_payload S (SnapshotRunning r) =
     HealthRunning \<lparr>fh_number = snd (rn_finalized r), fh_hash = so_display_hash S (fst (rn_finalized r))\<rparr>
       (so_display_hash S (rn_canonical r)) (rn_verified_pool_count r) (rn_in_flight r) (rn_ws_miss r) (rn_behind r)"

definition health_response_of :: "serve_ops \<Rightarrow> server_snapshot \<Rightarrow> http_response" where
  "health_response_of S snapshot = written (so_write_health S (health_payload S snapshot))"

definition strip_query :: "string \<Rightarrow> string" where
  "strip_query url = takeWhile (\<lambda>c. c \<noteq> CHR ''?'') url"

fun served_pool_ref_of :: "wire_ops \<Rightarrow> pool_query \<Rightarrow> pool_ref option" where
  "served_pool_ref_of W (QueryV3 address) = map_option (\<lambda>a. pool_ref_v3 a CHAIN) (wo_parse_address W address)"
| "served_pool_ref_of W (QueryV4 pool_id) = map_option (\<lambda>h. pool_ref_v4 h CHAIN) (wo_parse_hash W pool_id)"

definition served_state :: "wire_ops \<Rightarrow> pool_states \<Rightarrow> pool_ref \<Rightarrow> pool_completeness" where
  "served_state W pools pool =
     (case map_of pools pool of
        Some state \<Rightarrow> Complete (wire_pool_state_of W state)
      | None \<Rightarrow> Incomplete)"

text \<open>The loop over the requested pools; \<open>None\<close> is the early return of a bad request.\<close>

fun slices_of :: "wire_ops \<Rightarrow> pool_states \<Rightarrow> pool_query list \<Rightarrow> pool_slice list option" where
  "slices_of W pools [] = Some []"
| "slices_of W pools (query # queries) =
     (case served_pool_ref_of W query of
        None \<Rightarrow> None
      | Some pool \<Rightarrow>
          map_option (\<lambda>slices. \<lparr>sl_key = query, sl_state = served_state W pools pool\<rparr> # slices) (slices_of W pools queries))"

definition slice_payload :: "wire_ops \<Rightarrow> running_snapshot \<Rightarrow> pool_query list \<Rightarrow> slice_response option" where
  "slice_payload W r queries =
     map_option (\<lambda>slices.
       \<lparr>sp_block_hash = wo_show_hash W (rn_frontier r),
        sp_confirmations = of_nat (case rn_behind r of None \<Rightarrow> 0 | Some n \<Rightarrow> n),
        sp_pools = slices\<rparr>) (slices_of W (rn_pools r) queries)"

definition slice_response_of :: "serve_ops \<Rightarrow> string \<Rightarrow> server_snapshot \<Rightarrow> http_response" where
  "slice_response_of S body snapshot =
     (case snapshot of
        SnapshotAwaitingAnchor \<Rightarrow> awaiting_anchor_response
      | SnapshotRunning r \<Rightarrow>
          (case so_read_request S body of
             None \<Rightarrow> bad_request
           | Some queries \<Rightarrow>
               (case slice_payload (so_wire S) r queries of
                  None \<Rightarrow> bad_request
                | Some response \<Rightarrow> written (so_write_slice S response))))"

definition meta_entry_of :: "wire_ops \<Rightarrow> pool_ref \<times> pool_metadata \<Rightarrow> pool_meta_entry" where
  "meta_entry_of W = (\<lambda>(pool, metadata).
     \<lparr>me_key = wire_pool_query_of W pool, me_token0 = wo_show_address W (pm_token0 metadata),
      me_token1 = wo_show_address W (pm_token1 metadata), me_fee_pips = pool_fee_pips (pm_fee metadata),
      me_tick_spacing = pool_fee_tick_spacing (pm_fee metadata)\<rparr>)"

definition served_tokens :: "(pool_ref \<times> pool_metadata) list \<Rightarrow> address list" where
  "served_tokens pools = sorted_list_of_set (set (concat (map (\<lambda>(_, m). [pm_token0 m, pm_token1 m]) pools)))"

definition token_entry_of :: "wire_ops \<Rightarrow> metadata_catalog \<Rightarrow> address \<Rightarrow> token_meta_entry option" where
  "token_entry_of W c a =
     map_option (\<lambda>m. \<lparr>te_address = wo_show_address W a, te_decimals = decimals_value (tm_decimals m)\<rparr>)
       (catalog_token_metadata c (TokenAddress a CHAIN))"

definition meta_payload :: "wire_ops \<Rightarrow> metadata_catalog \<Rightarrow> pools_meta_response" where
  "meta_payload W c =
     (let pools = catalog_iter_pools c
      in \<lparr>mr_pools = map (meta_entry_of W) pools,
          mr_tokens = List.map_filter (token_entry_of W c) (served_tokens pools)\<rparr>)"

definition pools_meta_response_of :: "serve_ops \<Rightarrow> server_snapshot \<Rightarrow> http_response" where
  "pools_meta_response_of S snapshot =
     (case snapshot of
        SnapshotAwaitingAnchor \<Rightarrow> awaiting_anchor_response
      | SnapshotRunning r \<Rightarrow> written (so_write_meta S (meta_payload (so_wire S) (rn_catalog r))))"

section \<open>Routing\<close>

definition http_response_of :: "serve_ops \<Rightarrow> string \<Rightarrow> string \<Rightarrow> string \<Rightarrow> server_snapshot \<Rightarrow> http_response" where
  "http_response_of S verb path body snapshot =
     (if verb = ''GET'' \<and> path = ''/health'' then health_response_of S snapshot
      else if verb = ''GET'' \<and> path = ''/pools/meta'' then pools_meta_response_of S snapshot
      else if verb = ''POST'' \<and> path = ''/slice'' then slice_response_of S body snapshot
      else if path = ''/health'' \<or> path = ''/slice'' \<or> path = ''/pools/meta'' then \<lparr>ht_status = 405, ht_body = []\<rparr>
      else \<lparr>ht_status = 404, ht_body = []\<rparr>)"

end
