(* ===== verification/MetadataCache.thy ===== *)
theory MetadataCache
  imports Registries Endpoints
begin

text \<open>
  The persistent cache of metadata (client-evm client/metadata_cache.rs) and the resolution of a request
  through it (aa-server runtime.rs, aa-cli app.rs). The key-value store is the redb crate's: two tables
  from byte strings to byte strings, a transaction that fails at the environment's word and then
  leaves them unchanged. The bytes of a value are serde's and are parameters; the keys are made here.
\<close>

section \<open>Bytes\<close>

text \<open>The big-endian bytes of a word, and the word of a byte string.\<close>

definition be_bytes :: "nat \<Rightarrow> 'a::len word \<Rightarrow> u8 list" where
  "be_bytes n w = map (\<lambda>i. ucast (drop_bit (8 * i) w)) (rev [0..<n])"

definition from_be :: "u8 list \<Rightarrow> 'a::len word" where
  "from_be bs = fold (\<lambda>b acc. acc * 256 + ucast b) bs 0"

fun bytes_less :: "u8 list \<Rightarrow> u8 list \<Rightarrow> bool" where
  "bytes_less as [] \<longleftrightarrow> False"
| "bytes_less [] (b # bs) \<longleftrightarrow> True"
| "bytes_less (a # as) (b # bs) \<longleftrightarrow> a < b \<or> a = b \<and> bytes_less as bs"

section \<open>Keys\<close>

definition PROTO_TAG_V3 :: u8 where
  "PROTO_TAG_V3 = 0"

definition PROTO_TAG_V4 :: u8 where
  "PROTO_TAG_V4 = 1"

fun chain_tag :: "chain_key \<Rightarrow> u8" where
  "chain_tag Ethereum = 0"
| "chain_tag Arbitrum = 1"
| "chain_tag Base = 2"
| "chain_tag Optimism = 3"
| "chain_tag Polygon = 4"
| "chain_tag Bnb = 5"
| "chain_tag Avalanche = 6"

definition composite_key :: "chain_key \<Rightarrow> address \<Rightarrow> u8 list" where
  "composite_key chain a = chain_tag chain # be_bytes 20 a"

definition token_key :: "token_address \<Rightarrow> u8 list" where
  "token_key token = composite_key (ta_chain token) (ta_address token)"

fun pool_key :: "chain_key \<Rightarrow> protocol_pool_key \<Rightarrow> u8 list" where
  "pool_key chain (UniswapV3 a) = chain_tag chain # PROTO_TAG_V3 # be_bytes 20 a"
| "pool_key chain (UniswapV4 p) = chain_tag chain # PROTO_TAG_V4 # be_bytes 32 p"

fun decode_pool_candidate :: "u8 list \<Rightarrow> protocol_pool_key option" where
  "decode_pool_candidate [] = None"
| "decode_pool_candidate (proto_tag # id_bytes) =
     (if proto_tag = PROTO_TAG_V3 then (if length id_bytes = 20 then Some (UniswapV3 (from_be id_bytes)) else None)
      else if proto_tag = PROTO_TAG_V4 then (if length id_bytes = 32 then Some (UniswapV4 (from_be id_bytes)) else None)
      else None)"

section \<open>The store\<close>

datatype metadata_cache_error = DatabaseFault string | SerializationFault string

type_synonym byte_table = "(u8 list, u8 list) hmap"

record metadata_cache =
  db_pools :: byte_table
  db_tokens :: byte_table

definition cache_opened :: metadata_cache where
  "cache_opened = \<lparr>db_pools = [], db_tokens = []\<rparr>"

record json_ops =
  js_pool_to :: "pool_metadata \<Rightarrow> string + u8 list"
  js_pool_from :: "u8 list \<Rightarrow> string + pool_metadata"
  js_token_to :: "token_metadata \<Rightarrow> string + u8 list"
  js_token_from :: "u8 list \<Rightarrow> string + token_metadata"

text \<open>The loops over the requested keys and over the entries to write, shared by both tables.\<close>

fun load_hits :: "('k \<Rightarrow> u8 list) \<Rightarrow> (u8 list \<Rightarrow> string + 'm) \<Rightarrow> byte_table \<Rightarrow> 'k list \<Rightarrow> ('k, 'm) hmap \<Rightarrow>
    metadata_cache_error + ('k, 'm) hmap" where
  "load_hits key read table [] hits = Inr hits"
| "load_hits key read table (k # ks) hits =
     (case map_of table (key k) of
        None \<Rightarrow> load_hits key read table ks hits
      | Some value \<Rightarrow>
          (case read value of
             Inl e \<Rightarrow> Inl (SerializationFault e)
           | Inr m \<Rightarrow> load_hits key read table ks (AList.update k m hits)))"

fun store_entries :: "('k \<Rightarrow> u8 list) \<Rightarrow> ('m \<Rightarrow> string + u8 list) \<Rightarrow> ('k \<times> 'm) list \<Rightarrow> byte_table \<Rightarrow>
    metadata_cache_error + byte_table" where
  "store_entries key write [] table = Inr table"
| "store_entries key write ((k, m) # entries) table =
     (case write m of
        Inl e \<Rightarrow> Inl (SerializationFault e)
      | Inr value \<Rightarrow> store_entries key write entries (AList.update (key k) value table))"

definition successes :: "('k, 'f + 'm) hmap \<Rightarrow> ('k \<times> 'm) list" where
  "successes results = List.map_filter (\<lambda>(k, r). case r of Inr m \<Rightarrow> Some (k, m) | Inl _ \<Rightarrow> None) results"

text \<open>A transaction's first database fault, when it has one, is the argument before the database.\<close>

definition load_pool_metadata :: "json_ops \<Rightarrow> string option \<Rightarrow> metadata_cache \<Rightarrow> chain_key \<Rightarrow> protocol_pool_key set \<Rightarrow>
    metadata_cache_error + (protocol_pool_key, pool_metadata) hmap" where
  "load_pool_metadata J fault db chain candidates =
     (case fault of
        Some e \<Rightarrow> Inl (DatabaseFault e)
      | None \<Rightarrow> load_hits (pool_key chain) (js_pool_from J) (db_pools db) (sorted_list_of_set candidates) [])"

definition store_pool_metadata :: "json_ops \<Rightarrow> string option \<Rightarrow> chain_key \<Rightarrow> (protocol_pool_key, pool_metadata_result) hmap \<Rightarrow>
    metadata_cache \<Rightarrow> metadata_cache \<times> (metadata_cache_error + unit)" where
  "store_pool_metadata J fault chain results db =
     (if successes results = [] then (db, Inr ())
      else case fault of
        Some e \<Rightarrow> (db, Inl (DatabaseFault e))
      | None \<Rightarrow>
          (case store_entries (pool_key chain) (js_pool_to J) (successes results) (db_pools db) of
             Inl e \<Rightarrow> (db, Inl e)
           | Inr table \<Rightarrow> (db\<lparr>db_pools := table\<rparr>, Inr ())))"

definition load_pool_candidates :: "string option \<Rightarrow> metadata_cache \<Rightarrow> chain_key \<Rightarrow>
    metadata_cache_error + protocol_pool_key set" where
  "load_pool_candidates fault db chain =
     (case fault of
        Some e \<Rightarrow> Inl (DatabaseFault e)
      | None \<Rightarrow>
          (let tag = chain_tag chain;
               range = filter (\<lambda>(key, _). \<not> bytes_less key [tag] \<and> bytes_less key [tag + 1]) (db_pools db)
           in Inr (set (List.map_filter (\<lambda>(key, _). case key of [] \<Rightarrow> None | _ # identity \<Rightarrow> decode_pool_candidate identity) range))))"

definition load_token_metadata :: "json_ops \<Rightarrow> string option \<Rightarrow> metadata_cache \<Rightarrow> token_address set \<Rightarrow>
    metadata_cache_error + (token_address, token_metadata) hmap" where
  "load_token_metadata J fault db tokens =
     (case fault of
        Some e \<Rightarrow> Inl (DatabaseFault e)
      | None \<Rightarrow> load_hits token_key (js_token_from J) (db_tokens db) (sorted_list_of_set tokens) [])"

definition store_token_metadata :: "json_ops \<Rightarrow> string option \<Rightarrow> (token_address, token_metadata_result) hmap \<Rightarrow>
    metadata_cache \<Rightarrow> metadata_cache \<times> (metadata_cache_error + unit)" where
  "store_token_metadata J fault results db =
     (if successes results = [] then (db, Inr ())
      else case fault of
        Some e \<Rightarrow> (db, Inl (DatabaseFault e))
      | None \<Rightarrow>
          (case store_entries token_key (js_token_to J) (successes results) (db_tokens db) of
             Inl e \<Rightarrow> (db, Inl e)
           | Inr table \<Rightarrow> (db\<lparr>db_tokens := table\<rparr>, Inr ())))"

section \<open>Resolution through the cache\<close>

text \<open>
  What both of the server's resolvers do, over what the cache loaded, its store and a fetch: a load
  fault is no hits, a store fault is ignored, a fetch fault is the result.
\<close>

definition loaded_or_empty :: "metadata_cache_error + ('k, 'm) hmap \<Rightarrow> ('k, 'm) hmap" where
  "loaded_or_empty loaded = (case loaded of Inr cached \<Rightarrow> cached | Inl _ \<Rightarrow> [])"

definition cache_misses :: "'k set \<Rightarrow> ('k, 'm) hmap \<Rightarrow> 'k set" where
  "cache_misses wanted cached = Set.filter (\<lambda>k. \<not> hm_contains cached k) wanted"

definition with_hits :: "('k, 'f + 'm) hmap \<Rightarrow> ('k, 'm) hmap \<Rightarrow> ('k, 'f + 'm) hmap" where
  "with_hits metadata cached = hm_extend metadata (map (\<lambda>(k, m). (k, Inr m)) cached)"

definition cached_metadata_with :: "'k set \<Rightarrow> metadata_cache_error + ('k, 'm) hmap \<Rightarrow>
    (('k, 'f + 'm) hmap \<Rightarrow> metadata_cache \<Rightarrow> metadata_cache \<times> (metadata_cache_error + unit)) \<Rightarrow>
    ('k set \<Rightarrow> client_evm_error + ('k, 'f + 'm) hmap) \<Rightarrow> metadata_cache \<Rightarrow>
    metadata_cache \<times> (client_evm_error + ('k, 'f + 'm) hmap)" where
  "cached_metadata_with wanted loaded store fetch db =
     (let cached = loaded_or_empty loaded
      in case fetch (cache_misses wanted cached) of
           Inl e \<Rightarrow> (db, Inl e)
         | Inr metadata \<Rightarrow> (fst (store metadata db), Inr (with_hits metadata cached)))"

definition cached_pool_metadata :: "json_ops \<Rightarrow> string option \<Rightarrow> string option \<Rightarrow> chain_key \<Rightarrow> protocol_pool_key set \<Rightarrow>
    (protocol_pool_key set \<Rightarrow> client_evm_error + (protocol_pool_key, pool_metadata_result) hmap) \<Rightarrow> metadata_cache \<Rightarrow>
    metadata_cache \<times> (client_evm_error + (protocol_pool_key, pool_metadata_result) hmap)" where
  "cached_pool_metadata J load_fault store_fault chain candidates fetch db =
     cached_metadata_with candidates (load_pool_metadata J load_fault db chain candidates)
       (store_pool_metadata J store_fault chain) fetch db"

definition cached_token_metadata :: "json_ops \<Rightarrow> string option \<Rightarrow> string option \<Rightarrow> token_address set \<Rightarrow>
    (token_address set \<Rightarrow> client_evm_error + (token_address, token_metadata_result) hmap) \<Rightarrow> metadata_cache \<Rightarrow>
    metadata_cache \<times> (client_evm_error + (token_address, token_metadata_result) hmap)" where
  "cached_token_metadata J load_fault store_fault tokens fetch db =
     cached_metadata_with tokens (load_token_metadata J load_fault db tokens) (store_token_metadata J store_fault) fetch db"

text \<open>The command line's resolver of pools, which asks two services for the two protocols.\<close>

definition resolve_pool_metadata_with :: "json_ops \<Rightarrow> string option \<Rightarrow> string option \<Rightarrow> chain_key \<Rightarrow> protocol_pool_key set \<Rightarrow>
    (protocol_pool_key set \<Rightarrow> client_evm_error + (protocol_pool_key, pool_metadata_result) hmap) \<Rightarrow>
    (protocol_pool_key set \<Rightarrow> client_evm_error + (protocol_pool_key, pool_metadata_result) hmap) \<Rightarrow> metadata_cache \<Rightarrow>
    metadata_cache \<times> (client_evm_error + (protocol_pool_key, pool_metadata_result) hmap)" where
  "resolve_pool_metadata_with J load_fault store_fault chain candidates fetch_v3 fetch_v4 db =
     (let cached = loaded_or_empty (load_pool_metadata J load_fault db chain candidates);
          misses = cache_misses candidates cached
      in case fetch_v3 (Set.filter (\<lambda>k. uniswap_v4_pool_id k = None) misses) of
           Inl e \<Rightarrow> (db, Inl e)
         | Inr metadata \<Rightarrow>
             (case fetch_v4 (Set.filter (\<lambda>k. uniswap_v4_pool_id k \<noteq> None) misses) of
                Inl e \<Rightarrow> (db, Inl e)
              | Inr v4_metadata \<Rightarrow>
                  (let metadata = hm_extend metadata v4_metadata
                   in (fst (store_pool_metadata J store_fault chain metadata db), Inr (with_hits metadata cached)))))"

end
