(* ===== verification/Bootstrap.thy ===== *)
theory Bootstrap
  imports GraphInvariants PendingRequests Registries
begin

text \<open>
  \<open>client-evm/src/bootstrap/mod.rs\<close> and \<open>bootstrap/pending_requests.rs\<close>: the sequential phase that
  fetches a recent window of blocks before a chain's kernel starts. The hash that names the filler
  block of a gap (a domain-separated keccak) is the parameter \<open>F\<close>.
\<close>

section \<open>Requests\<close>

datatype get_finalized_header = GetFinalizedHeader

datatype get_pool_candidates =
  GetPoolCandidatesInRange (gpc_from_block: u64) (gpc_scan_tip: "u64 option")

datatype boot_request_id =
  BootFinalizedHeaderId request_id
| BootPoolCandidatesId request_id
| BootPoolMetadataId request_id
| BootTokenMetadataId request_id

datatype boot_issued =
  BootFinalizedHeader "get_finalized_header issued_request"
| BootPoolCandidates "get_pool_candidates issued_request"
| BootPoolMetadata "get_pool_metadata issued_request"
| BootTokenMetadata "get_token_metadata issued_request"

record boot_requests =
  br_ids :: request_id
  br_finalized_header :: "get_finalized_header request_collection"
  br_pool_candidates :: "get_pool_candidates request_collection"
  br_pool_metadata :: "get_pool_metadata request_collection"
  br_token_metadata :: "get_token_metadata request_collection"

definition boot_requests_new :: boot_requests where
  "boot_requests_new = \<lparr>br_ids = ids_new, br_finalized_header = [], br_pool_candidates = [],
     br_pool_metadata = [], br_token_metadata = []\<rparr>"

definition boot_header_access :: "(boot_requests, get_finalized_header) store_access" where
  "boot_header_access = \<lparr>sa_ids = br_ids, sa_set_ids = (\<lambda>n s. s\<lparr>br_ids := n\<rparr>),
     sa_coll = br_finalized_header, sa_set_coll = (\<lambda>c s. s\<lparr>br_finalized_header := c\<rparr>)\<rparr>"

definition boot_candidates_access :: "(boot_requests, get_pool_candidates) store_access" where
  "boot_candidates_access = \<lparr>sa_ids = br_ids, sa_set_ids = (\<lambda>n s. s\<lparr>br_ids := n\<rparr>),
     sa_coll = br_pool_candidates, sa_set_coll = (\<lambda>c s. s\<lparr>br_pool_candidates := c\<rparr>)\<rparr>"

definition boot_pools_access :: "(boot_requests, get_pool_metadata) store_access" where
  "boot_pools_access = \<lparr>sa_ids = br_ids, sa_set_ids = (\<lambda>n s. s\<lparr>br_ids := n\<rparr>),
     sa_coll = br_pool_metadata, sa_set_coll = (\<lambda>c s. s\<lparr>br_pool_metadata := c\<rparr>)\<rparr>"

definition boot_tokens_access :: "(boot_requests, get_token_metadata) store_access" where
  "boot_tokens_access = \<lparr>sa_ids = br_ids, sa_set_ids = (\<lambda>n s. s\<lparr>br_ids := n\<rparr>),
     sa_coll = br_token_metadata, sa_set_coll = (\<lambda>c s. s\<lparr>br_token_metadata := c\<rparr>)\<rparr>"

lemmas boot_access_defs = boot_header_access_def boot_candidates_access_def boot_pools_access_def
  boot_tokens_access_def

interpretation boot_headers: request_store boot_header_access
  by unfold_locales (simp_all add: boot_access_defs)

interpretation boot_candidates: request_store boot_candidates_access
  by unfold_locales (simp_all add: boot_access_defs)

interpretation boot_pools: request_store boot_pools_access
  by unfold_locales (simp_all add: boot_access_defs)

interpretation boot_tokens: request_store boot_tokens_access
  by unfold_locales (simp_all add: boot_access_defs)

definition boot_retry_typed :: "(boot_requests, 'r) store_access \<Rightarrow> ('r issued_request \<Rightarrow> boot_issued) \<Rightarrow>
    boot_requests \<Rightarrow> request_id \<Rightarrow> tick \<Rightarrow> boot_requests \<times> boot_issued option" where
  "boot_retry_typed A wrap s i t =
     (let (s, issued) = retry_request A s i t in (s, map_option wrap issued))"

fun boot_retry :: "boot_requests \<Rightarrow> boot_request_id \<Rightarrow> tick \<Rightarrow> boot_requests \<times> boot_issued option" where
  "boot_retry s (BootFinalizedHeaderId i) t = boot_retry_typed boot_header_access BootFinalizedHeader s i t"
| "boot_retry s (BootPoolCandidatesId i) t = boot_retry_typed boot_candidates_access BootPoolCandidates s i t"
| "boot_retry s (BootPoolMetadataId i) t = boot_retry_typed boot_pools_access BootPoolMetadata s i t"
| "boot_retry s (BootTokenMetadataId i) t = boot_retry_typed boot_tokens_access BootTokenMetadata s i t"

definition boot_expired_ids :: "boot_requests \<Rightarrow> tick \<Rightarrow> boot_request_id list" where
  "boot_expired_ids s t =
     map BootFinalizedHeaderId (expired_request_ids boot_header_access s t) @
     map BootPoolCandidatesId (expired_request_ids boot_candidates_access s t) @
     map BootPoolMetadataId (expired_request_ids boot_pools_access s t) @
     map BootTokenMetadataId (expired_request_ids boot_tokens_access s t)"

definition boot_retry_expired :: "boot_requests \<Rightarrow> tick \<Rightarrow> boot_requests \<times> boot_issued list" where
  "boot_retry_expired s t =
     fold (\<lambda>i (requests, effects).
         (let (requests, issued) = boot_retry requests i t
          in (requests, effects @ (case issued of None \<Rightarrow> [] | Some r \<Rightarrow> [r]))))
       (boot_expired_ids s t) (s, [])"

section \<open>The seed of the graph\<close>

record range_log_block =
  rb_number :: u64
  rb_hash :: block_hash
  rb_logs :: "pool_log list"

record finalized_anchor =
  fa_hash :: block_hash
  fa_number :: u64

text \<open>The window above the anchor, by number: the first block of a number is kept.\<close>

definition recent_blocks :: "range_log_block list \<Rightarrow> u64 \<Rightarrow> (u64, range_log_block) bmap" where
  "recent_blocks window n =
     fold (\<lambda>b recent. if rb_number b > n \<and> map_of recent (rb_number b) = None
                      then bm_insert (rb_number b) b recent else recent) window []"

text \<open>A seed block is its hash, its parent's hash, its number and its logs.\<close>

fun link_window :: "(block_hash \<Rightarrow> block_hash \<Rightarrow> block_hash) \<Rightarrow> (u64, range_log_block) bmap \<Rightarrow> u64 \<Rightarrow>
    block_hash \<Rightarrow> seed_block list" where
  "link_window F [] previous_number previous_hash = []"
| "link_window F ((number, b) # rest) previous_number previous_hash =
     (if number = previous_number + 1
      then (rb_hash b, previous_hash, number, rb_logs b) # link_window F rest number (rb_hash b)
      else (let filler = F previous_hash (rb_hash b)
            in (filler, previous_hash, number - 1, []) #
               (rb_hash b, filler, number, rb_logs b) # link_window F rest number (rb_hash b)))"

definition from_window :: "(block_hash \<Rightarrow> block_hash \<Rightarrow> block_hash) \<Rightarrow> range_log_block list \<Rightarrow> finalized_anchor \<Rightarrow>
    u64 \<Rightarrow> seed_block list" where
  "from_window F window anchor tip_trim =
     (let recent = recent_blocks window (fa_number anchor)
      in if recent = [] then []
         else (let highest_retained = saturating_sub (fst (last recent)) tip_trim;
                   retained = filter (\<lambda>(number, _). number \<le> highest_retained) recent
               in link_window F retained (fa_number anchor) (fa_hash anchor)))"

section \<open>State\<close>

record bootstrap_policy =
  bp_tip_trim :: u64
  bp_deadline_ticks :: u64

type_synonym verified_metadata = "(protocol_pool_key, pool_metadata_result) hmap"

definition referenced_tokens :: "verified_metadata \<Rightarrow> chain_key \<Rightarrow> token_address set" where
  "referenced_tokens metadata chain =
     (\<Union>(candidate, result) \<in> set metadata. case result of
        Inr m \<Rightarrow> {TokenAddress (pm_token0 m) chain, TokenAddress (pm_token1 m) chain}
      | Inl _ \<Rightarrow> {})"

definition into_registry :: "verified_metadata \<Rightarrow> chain_key \<Rightarrow> trusted_pool_registry" where
  "into_registry metadata chain = pool_with_metadata_results pool_registry_new chain metadata"

record bootstrap_outcome =
  bo_anchor :: finalized_anchor
  bo_pool_snapshots :: "(pool_ref, pool_state) hmap"
  bo_pool_registry :: trusted_pool_registry
  bo_token_registry :: token_registry
  bo_seed_blocks :: "seed_block list"

datatype completion_t = CompletedReady bootstrap_outcome | CompletedAbandoned

datatype phase =
  AnchoringChain
| Discovering finalized_anchor "range_log_block list"
| ValidatingPools finalized_anchor "seed_block list"
| ResolvingTokens finalized_anchor "seed_block list" verified_metadata
| Ready bootstrap_outcome
| Abandoned

record boot_state =
  bs_pending :: boot_requests
  bs_phase :: phase
  bs_policy :: bootstrap_policy
  bs_started_at :: tick
  bs_tick :: tick

datatype boot_event =
  BootHeaderReceived request_id finalized_anchor
| BootCandidatesReceived request_id "range_log_block list" u64 "u64 option"
| BootPoolsReceived request_id "(protocol_pool_key, pool_metadata_result) hmap"
| BootTokensReceived request_id "(token_address, token_metadata_result) hmap"
| BootRequestFailed boot_request_id
| BootTick

section \<open>Transition\<close>

text \<open>Entering a phase issues its one request.\<close>

definition enter_phase :: "(boot_requests, 'r) store_access \<Rightarrow> ('r issued_request \<Rightarrow> boot_issued) \<Rightarrow> 'r \<Rightarrow>
    phase \<Rightarrow> boot_state \<Rightarrow> boot_state \<times> boot_issued list" where
  "enter_phase A wrap payload phase s =
     (let (pending, i) = issue_request A (bs_pending s) payload (bs_tick s)
      in (s\<lparr>bs_pending := pending, bs_phase := phase\<rparr>,
          [wrap \<lparr>ir_request_id = i, ir_request_payload = payload\<rparr>]))"

definition boot_init :: "bootstrap_policy \<Rightarrow> boot_state \<times> boot_issued list" where
  "boot_init policy =
     enter_phase boot_header_access BootFinalizedHeader GetFinalizedHeader AnchoringChain
       \<lparr>bs_pending = boot_requests_new, bs_phase = AnchoringChain, bs_policy = policy,
        bs_started_at = tick_initial, bs_tick = tick_initial\<rparr>"

definition completion :: "boot_state \<Rightarrow> completion_t option" where
  "completion s = (case bs_phase s of
     Ready outcome \<Rightarrow> Some (CompletedReady outcome) | Abandoned \<Rightarrow> Some CompletedAbandoned | _ \<Rightarrow> None)"

fun degraded :: "(block_hash \<Rightarrow> block_hash \<Rightarrow> block_hash) \<Rightarrow> chain_key \<Rightarrow> phase \<Rightarrow> u64 \<Rightarrow> phase" where
  "degraded F chain AnchoringChain tip_trim = Abandoned"
| "degraded F chain (Discovering anchor blocks) tip_trim =
     Ready \<lparr>bo_anchor = anchor, bo_pool_snapshots = [], bo_pool_registry = pool_registry_new,
            bo_token_registry = token_registry_new, bo_seed_blocks = from_window F blocks anchor tip_trim\<rparr>"
| "degraded F chain (ValidatingPools anchor seed) tip_trim =
     Ready \<lparr>bo_anchor = anchor, bo_pool_snapshots = [], bo_pool_registry = pool_registry_new,
            bo_token_registry = token_registry_new, bo_seed_blocks = seed\<rparr>"
| "degraded F chain (ResolvingTokens anchor seed verified) tip_trim =
     Ready \<lparr>bo_anchor = anchor, bo_pool_snapshots = [], bo_pool_registry = into_registry verified chain,
            bo_token_registry = token_registry_new, bo_seed_blocks = seed\<rparr>"
| "degraded F chain (Ready outcome) tip_trim = Ready outcome"
| "degraded F chain Abandoned tip_trim = Abandoned"

definition candidates_of :: "range_log_block list \<Rightarrow> protocol_pool_key set" where
  "candidates_of blocks = (\<Union>b \<in> set blocks. pl_pool ` set (rb_logs b))"

text \<open>The response arms take the request first; the phase only advances on a request that was pending.\<close>

definition header_arm :: "boot_state \<Rightarrow> request_id \<Rightarrow> finalized_anchor \<Rightarrow> boot_state \<times> boot_issued list" where
  "header_arm s i anchor =
     (let (pending, taken) = take_request boot_header_access (bs_pending s) i;
          s = s\<lparr>bs_pending := pending\<rparr>
      in case bs_phase s of
           AnchoringChain \<Rightarrow>
             (if taken \<noteq> None
              then enter_phase boot_candidates_access BootPoolCandidates
                (GetPoolCandidatesInRange (fa_number anchor) None) (Discovering anchor []) s
              else (s, []))
         | _ \<Rightarrow> (s, []))"

definition candidates_arm :: "(block_hash \<Rightarrow> block_hash \<Rightarrow> block_hash) \<Rightarrow> boot_state \<Rightarrow> request_id \<Rightarrow>
    range_log_block list \<Rightarrow> u64 \<Rightarrow> u64 option \<Rightarrow> boot_state \<times> boot_issued list" where
  "candidates_arm F s i blocks scan_tip next_from =
     (let (pending, taken) = take_request boot_candidates_access (bs_pending s) i;
          s = s\<lparr>bs_pending := pending\<rparr>
      in case bs_phase s of
           Discovering anchor accumulated \<Rightarrow>
             (if taken \<noteq> None
              then let accumulated = accumulated @ blocks
                   in case next_from of
                        Some from_block \<Rightarrow>
                          enter_phase boot_candidates_access BootPoolCandidates
                            (GetPoolCandidatesInRange from_block (Some scan_tip)) (Discovering anchor accumulated) s
                      | None \<Rightarrow>
                          enter_phase boot_pools_access BootPoolMetadata
                            (GetPoolMetadata (fa_hash anchor) (candidates_of accumulated))
                            (ValidatingPools anchor
                              (from_window F accumulated anchor (bp_tip_trim (bs_policy s)))) s
              else (s, []))
         | _ \<Rightarrow> (s, []))"

definition pools_arm :: "chain_key \<Rightarrow> boot_state \<Rightarrow> request_id \<Rightarrow> verified_metadata \<Rightarrow>
    boot_state \<times> boot_issued list" where
  "pools_arm chain s i metadata =
     (let (pending, taken) = take_request boot_pools_access (bs_pending s) i;
          s = s\<lparr>bs_pending := pending\<rparr>
      in case bs_phase s of
           ValidatingPools anchor seed \<Rightarrow>
             (if taken \<noteq> None
              then enter_phase boot_tokens_access BootTokenMetadata
                (GetTokenMetadata (fa_hash anchor) (referenced_tokens metadata chain))
                (ResolvingTokens anchor seed metadata) s
              else (s, []))
         | _ \<Rightarrow> (s, []))"

definition tokens_arm :: "chain_key \<Rightarrow> boot_state \<Rightarrow> request_id \<Rightarrow> (token_address, token_metadata_result) hmap \<Rightarrow>
    boot_state \<times> boot_issued list" where
  "tokens_arm chain s i metadata =
     (let (pending, taken) = take_request boot_tokens_access (bs_pending s) i;
          s = s\<lparr>bs_pending := pending\<rparr>
      in case bs_phase s of
           ResolvingTokens anchor seed verified \<Rightarrow>
             (if taken \<noteq> None
              then (s\<lparr>bs_phase := Ready \<lparr>bo_anchor = anchor, bo_pool_snapshots = [],
                     bo_pool_registry = into_registry verified chain,
                     bo_token_registry = token_with_metadata_results token_registry_new metadata,
                     bo_seed_blocks = seed\<rparr>\<rparr>, [])
              else (s, []))
         | _ \<Rightarrow> (s, []))"

definition boot_tick_arm :: "(block_hash \<Rightarrow> block_hash \<Rightarrow> block_hash) \<Rightarrow> chain_key \<Rightarrow> boot_state \<Rightarrow>
    boot_state \<times> boot_issued list" where
  "boot_tick_arm F chain s =
     (let s = s\<lparr>bs_tick := tick_next (bs_tick s)\<rparr>
      in if completion s \<noteq> None then (s, [])
         else if elapsed_since (bs_tick s) (bs_started_at s) \<ge> bp_deadline_ticks (bs_policy s)
         then (s\<lparr>bs_phase := degraded F chain (bs_phase s) (bp_tip_trim (bs_policy s))\<rparr>, [])
         else (let (pending, issued) = boot_retry_expired (bs_pending s) (bs_tick s)
               in (s\<lparr>bs_pending := pending\<rparr>, issued)))"

fun boot_transition :: "(block_hash \<Rightarrow> block_hash \<Rightarrow> block_hash) \<Rightarrow> chain_key \<Rightarrow> boot_state \<Rightarrow> boot_event \<Rightarrow>
    boot_state \<times> boot_issued list" where
  "boot_transition F chain s (BootHeaderReceived i anchor) = header_arm s i anchor"
| "boot_transition F chain s (BootCandidatesReceived i blocks scan_tip next_from) =
     candidates_arm F s i blocks scan_tip next_from"
| "boot_transition F chain s (BootPoolsReceived i metadata) = pools_arm chain s i metadata"
| "boot_transition F chain s (BootTokensReceived i metadata) = tokens_arm chain s i metadata"
| "boot_transition F chain s (BootRequestFailed i) =
     (let (pending, issued) = boot_retry (bs_pending s) i (bs_tick s)
      in (s\<lparr>bs_pending := pending\<rparr>, case issued of None \<Rightarrow> [] | Some r \<Rightarrow> [r]))"
| "boot_transition F chain s BootTick = boot_tick_arm F chain s"

end
