(* ===== verification/ServerRuntime.thy ===== *)
theory ServerRuntime
  imports Serve MetadataCache Bootstrap
begin

text \<open>
  The runtime adapter of the server (aa-server runtime.rs): what executing each effect of the server feeds
  back as inputs, the seed read from the cache at a warm start, the heads of the live stream, and the
  publication of snapshots. The answers of the network and of the database at one call are parameters,
  a record of what each service says; threads, sockets and log lines are not modelled.
\<close>

section \<open>Services\<close>

text \<open>Of a header, the fields that are read.\<close>

record client_head =
  hd_hash :: block_hash
  hd_parent_hash :: block_hash
  hd_logs_bloom :: bloom
  hd_number :: u64

datatype stream_event =
  Subscribed string
| NewHeadStreamed string client_head
| PoolLogStreamed string block_hash pool_log
| Closed string

record rpc_services =
  rp_block_header :: "block_hash \<Rightarrow> client_evm_error + client_head option"
  rp_block_logs :: "block_hash \<Rightarrow> client_evm_error + pool_log list"
  rp_pool_metadata :: "block_hash \<Rightarrow> protocol_pool_key set \<Rightarrow> client_evm_error + (protocol_pool_key, pool_metadata_result) hmap"
  rp_token_metadata :: "block_hash \<Rightarrow> token_address set \<Rightarrow> client_evm_error + (token_address, token_metadata_result) hmap"
  rp_pool_data :: "block_hash \<Rightarrow> pool_ref set \<Rightarrow> client_evm_error + (pool_ref, pool_data_result) hmap"
  rp_logs_range :: "u64 \<Rightarrow> u64 \<Rightarrow> client_evm_error + range_log_block list"
  rp_canonical_header :: "u64 \<Rightarrow> client_evm_error + client_head option"
  rp_finalized_header :: "client_evm_error + client_head option"

text \<open>The first fault of each kind of transaction with the database, when it has one.\<close>

record cache_faults =
  cf_candidates :: "string option"
  cf_load_pools :: "string option"
  cf_store_pools :: "string option"
  cf_load_tokens :: "string option"
  cf_store_tokens :: "string option"

record runtime_env =
  re_rpc :: rpc_services
  re_faults :: cache_faults
  re_json :: json_ops

section \<open>Requests of the kernel\<close>

definition request_failed :: "any_request_id \<Rightarrow> client_evm_error \<Rightarrow> event" where
  "request_failed i e = RequestFailed i"

text \<open>
  The dispatch on a request, over the fetchers it is given. The two fetchers of metadata go through the
  cache and thread it; the others do not touch it.
\<close>

record 's fetchers =
  ft_block_header :: "block_hash \<Rightarrow> client_evm_error + client_head option"
  ft_block_logs :: "block_hash \<Rightarrow> client_evm_error + pool_log list"
  ft_pool_metadata :: "block_hash \<Rightarrow> protocol_pool_key set \<Rightarrow> 's \<Rightarrow>
    's \<times> (client_evm_error + (protocol_pool_key, pool_metadata_result) hmap)"
  ft_token_metadata :: "block_hash \<Rightarrow> token_address set \<Rightarrow> 's \<Rightarrow>
    's \<times> (client_evm_error + (token_address, token_metadata_result) hmap)"
  ft_pool_data :: "block_hash \<Rightarrow> pool_ref set \<Rightarrow> client_evm_error + (pool_ref, pool_data_result) hmap"
  ft_logs_range :: "u64 \<Rightarrow> u64 \<Rightarrow> client_evm_error + range_log_block list"
  ft_canonical_header :: "u64 \<Rightarrow> client_evm_error + client_head option"

fun execute_request_with :: "'s fetchers \<Rightarrow> any_issued_request \<Rightarrow> 's \<Rightarrow> 's \<times> event" where
  "execute_request_with F (BlockHeader request) db =
     (let request_id = ir_request_id request
      in (db, case ft_block_header F (gbh_block_hash (ir_request_payload request)) of
            Inr (Some header) \<Rightarrow>
              BlockHeaderReceived request_id (hd_hash header) (hd_parent_hash header) (hd_logs_bloom header) (hd_number header)
          | Inr None \<Rightarrow> BlockHeaderNotFound request_id
          | Inl e \<Rightarrow> request_failed (BlockHeaderId request_id) e))"
| "execute_request_with F (BlockLogs request) db =
     (let request_id = ir_request_id request
      in (db, case ft_block_logs F (gbl_block_hash (ir_request_payload request)) of
            Inr logs \<Rightarrow> BlockLogsReceived request_id logs
          | Inl e \<Rightarrow> request_failed (BlockLogsId request_id) e))"
| "execute_request_with F (PoolMetadata request) db =
     (let request_id = ir_request_id request;
          payload = ir_request_payload request;
          (db, outcome) = ft_pool_metadata F (gpm_at payload) (gpm_candidates payload) db
      in (db, case outcome of
            Inr metadata \<Rightarrow> PoolMetadataReceived request_id metadata
          | Inl e \<Rightarrow> request_failed (PoolMetadataId request_id) e))"
| "execute_request_with F (TokenMetadata request) db =
     (let request_id = ir_request_id request;
          payload = ir_request_payload request;
          (db, outcome) = ft_token_metadata F (gtm_at payload) (gtm_tokens payload) db
      in (db, case outcome of
            Inr metadata \<Rightarrow> TokenMetadataReceived request_id metadata
          | Inl e \<Rightarrow> request_failed (TokenMetadataId request_id) e))"
| "execute_request_with F (PoolData request) db =
     (let request_id = ir_request_id request;
          payload = ir_request_payload request
      in (db, case ft_pool_data F (gpd_at payload) (gpd_pools payload) of
            Inr pools \<Rightarrow> PoolDataReceived request_id pools
          | Inl e \<Rightarrow> request_failed (PoolDataId request_id) e))"
| "execute_request_with F (LogsRange request) db =
     (let request_id = ir_request_id request;
          payload = ir_request_payload request
      in (db, case ft_logs_range F (glr_from payload) (glr_to payload) of
            Inr blocks \<Rightarrow> BlockLogsRangeReceived request_id (map (\<lambda>b. (rb_hash b, rb_logs b)) blocks)
          | Inl e \<Rightarrow> request_failed (LogsRangeId request_id) e))"
| "execute_request_with F (CanonicalHeader request) db =
     (let request_id = ir_request_id request
      in (db, case ft_canonical_header F (gch_number (ir_request_payload request)) of
            Inr (Some header) \<Rightarrow> CanonicalHeaderAtHeightReceived request_id (hd_hash header) (hd_number header)
          | Inr None \<Rightarrow> RequestFailed (CanonicalHeaderId request_id)
          | Inl e \<Rightarrow> request_failed (CanonicalHeaderId request_id) e))"

definition server_fetchers :: "runtime_env \<Rightarrow> metadata_cache fetchers" where
  "server_fetchers E =
     \<lparr>ft_block_header = rp_block_header (re_rpc E),
      ft_block_logs = rp_block_logs (re_rpc E),
      ft_pool_metadata = (\<lambda>at candidates.
        cached_pool_metadata (re_json E) (cf_load_pools (re_faults E)) (cf_store_pools (re_faults E)) CHAIN candidates
          (rp_pool_metadata (re_rpc E) at)),
      ft_token_metadata = (\<lambda>at tokens.
        cached_token_metadata (re_json E) (cf_load_tokens (re_faults E)) (cf_store_tokens (re_faults E)) tokens
          (rp_token_metadata (re_rpc E) at)),
      ft_pool_data = rp_pool_data (re_rpc E),
      ft_logs_range = rp_logs_range (re_rpc E),
      ft_canonical_header = rp_canonical_header (re_rpc E)\<rparr>"

definition execute_kernel_request :: "runtime_env \<Rightarrow> any_issued_request \<Rightarrow> metadata_cache \<Rightarrow> metadata_cache \<times> event" where
  "execute_kernel_request E = execute_request_with (server_fetchers E)"

section \<open>The other effects\<close>

definition fetch_anchor :: "rpc_services \<Rightarrow> anchor_header option" where
  "fetch_anchor R =
     (case rp_finalized_header R of
        Inr (Some header) \<Rightarrow> Some \<lparr>ah_hash = hd_hash header, ah_number = hd_number header\<rparr>
      | Inr None \<Rightarrow> None
      | Inl e \<Rightarrow> None)"

definition all_valid :: "('k, 'm) hmap \<Rightarrow> ('k, 'f + 'm) hmap" where
  "all_valid metadata = map (\<lambda>(k, m). (k, Inr m)) metadata"

definition seed_tokens :: "chain_key \<Rightarrow> (protocol_pool_key, pool_metadata) hmap \<Rightarrow> token_address set" where
  "seed_tokens chain metadata =
     (\<Union>m\<in>set (map snd metadata). {TokenAddress (pm_token0 m) chain, TokenAddress (pm_token1 m) chain})"

definition load_registry_seed :: "runtime_env \<Rightarrow> metadata_cache \<Rightarrow> registry_seed" where
  "load_registry_seed E db =
     (let J = re_json E;
          faults = re_faults E;
          candidates = (case load_pool_candidates (cf_candidates faults) db CHAIN of Inr c \<Rightarrow> c | Inl _ \<Rightarrow> {});
          pool_metadata = loaded_or_empty (load_pool_metadata J (cf_load_pools faults) db CHAIN candidates);
          tokens = seed_tokens CHAIN pool_metadata;
          token_metadata = loaded_or_empty (load_token_metadata J (cf_load_tokens faults) db tokens)
      in \<lparr>rs_pool_registry = pool_with_metadata_results pool_registry_new CHAIN (all_valid pool_metadata),
          rs_token_registry = token_with_metadata_results token_registry_new (all_valid token_metadata)\<rparr>)"

fun execute_effect :: "runtime_env \<Rightarrow> server_effect \<Rightarrow> metadata_cache \<Rightarrow> metadata_cache \<times> server_input list" where
  "execute_effect E LoadRegistrySeed db = (db, [RegistrySeed (load_registry_seed E db)])"
| "execute_effect E FetchFinalizedHeader db = (db, [FinalizedHeader (fetch_anchor (re_rpc E))])"
| "execute_effect E (KernelEffect (Request request)) db =
     (let (db, e) = execute_kernel_request E request db in (db, [KernelInput e]))"

section \<open>Subscriptions and observation\<close>

fun map_new_head :: "stream_event \<Rightarrow> server_input option" where
  "map_new_head (NewHeadStreamed subscription header) =
     Some (KernelInput (HeadObserved (hd_hash header) (hd_parent_hash header) (hd_logs_bloom header) (hd_number header)))"
| "map_new_head (PoolLogStreamed subscription h log) = None"
| "map_new_head (Subscribed subscription) = None"
| "map_new_head (Closed subscription) = None"

record observer =
  ob_last_log_millis :: u64
  ob_snapshot :: server_snapshot

definition observer_new :: observer where
  "observer_new = \<lparr>ob_last_log_millis = 0, ob_snapshot = SnapshotAwaitingAnchor\<rparr>"

definition TICK_INTERVAL :: u64 where
  "TICK_INTERVAL = 1000"

definition observe_state :: "bloom_ops \<Rightarrow> u64 \<Rightarrow> server_state \<Rightarrow> observer \<Rightarrow> observer" where
  "observe_state B now s ob =
     (if saturating_sub now (ob_last_log_millis ob) < TICK_INTERVAL then ob
      else \<lparr>ob_last_log_millis = now, ob_snapshot = server_snapshot_of B s\<rparr>)"

end
