(* ===== verification/BootstrapLaws.thy ===== *)
theory BootstrapLaws
  imports Bootstrap FinalizationLaws Machines
begin

text \<open>
  Results on the bootstrap: the seed it builds is one chain that a kernel's graph connects to the
  anchor, each phase has exactly its own request in flight, and it ends by its deadline with a result
  that no later event changes.
\<close>

section \<open>The seed is one chain down to the anchor\<close>

fun chained :: "block_hash \<Rightarrow> seed_block list \<Rightarrow> bool" where
  "chained a [] \<longleftrightarrow> True"
| "chained a ((h, p, n, logs) # bs) \<longleftrightarrow> p = a \<and> chained h bs"

lemma chained_append: "chained a (xs @ ys) \<longleftrightarrow> chained a xs \<and> chained (last (a # map fst xs)) ys"
  by (induction a xs rule: chained.induct) auto

lemma node_of_flat:
  assumes "graph_ok g" and "flat g h = Some (p, d)" and "connected g h \<noteq> None"
  shows "map_of (bg_nodes g) h = Some (Connected (if p = anchor_hash g then Anchor else Block p) d)"
proof -
  obtain r d' where n: "map_of (bg_nodes g) h = Some (Connected r d')"
    using assms(3) by (auto simp: connected_def is_conn_def)
  show ?thesis
  proof (cases r)
    case Anchor
    with n assms(2) show ?thesis by (simp add: flat_def connected_parent_hash_def)
  next
    case (Block q)
    moreover have "tree_ok_upto (anchor_hash g) (map_of (bg_nodes g)) (\<lambda>_ _. False)"
      using assms(1) by (simp add: graph_ok_def)
    ultimately have "q \<noteq> anchor_hash g" using tree_ok_parent n by blast
    with Block n assms(2) show ?thesis by (auto simp: flat_def connected_parent_hash_def)
  qed
qed

lemma chain_path:
  assumes ok: "graph_ok g" and ch: "chained (anchor_hash g) bs"
    and flat: "\<forall>b \<in> set bs. \<exists>d. flat g (fst b) = Some (fst (snd b), d)"
  shows "(\<forall>b \<in> set bs. connected g (fst b) \<noteq> None) \<and>
    (bs \<noteq> [] \<longrightarrow> connected_oldest_to_newest g (fst (last bs)) = map fst bs)"
  using ch flat
proof (induction bs rule: rev_induct)
  case (snoc b bs)
  obtain h p n logs where b: "b = (h, p, n, logs)" by (cases b)
  have ch: "chained (anchor_hash g) bs"
    using snoc.prems(1) by (simp add: chained_append)
  have fl: "\<forall>b \<in> set bs. \<exists>d. flat g (fst b) = Some (fst (snd b), d)"
    using snoc.prems(2) by simp
  have IH: "\<forall>b \<in> set bs. connected g (fst b) \<noteq> None"
    "bs \<noteq> [] \<Longrightarrow> connected_oldest_to_newest g (fst (last bs)) = map fst bs"
    using snoc.IH [OF ch fl] by auto
  have p: "p = last (anchor_hash g # map fst bs)"
    using snoc.prems(1) by (simp add: chained_append b)
  obtain d where d: "flat g h = Some (p, d)"
    using snoc.prems(2) by (auto simp: b)
  have reach: "p = anchor_hash g \<or> connected g p \<noteq> None"
    using IH(1) p by (cases bs rule: rev_cases) auto
  have conn: "connected g h \<noteq> None"
  proof -
    have "flat_reach (anchor_hash g) (flat g) h"
      using reach d connected_iff_flat_reach [OF ok, of p]
      by (auto simp: connected_def intro: flat_reach.intros)
    then show ?thesis using connected_iff_flat_reach [OF ok, of h] by (simp add: connected_def)
  qed
  note node = node_of_flat [OF ok d conn]
  have "connected_oldest_to_newest g h = map fst bs @ [h]"
  proof (cases bs rule: rev_cases)
    case Nil
    then show ?thesis using node path_child [OF ok] p by simp
  next
    case (snoc cs c)
    then have pc: "p = fst c" and "connected g p \<noteq> None" using p IH(1) by auto
    then have "p \<noteq> anchor_hash g" using graph_ok_anchor_not_connected [OF ok] by auto
    then have "map_of (bg_nodes g) h = Some (Connected (Block p) d)" using node by simp
    from path_step [OF ok this] show ?thesis using IH(2) snoc pc by simp
  qed
  then show ?case using IH(1) conn by (auto simp: b)
qed simp

lemma seed_entries:
  assumes "distinct (map fst (map seed_entry bs))"
  shows "\<forall>b \<in> set bs. \<exists>d. map_of (map seed_entry bs) (fst b) = Some (fst (snd b), d)"
proof
  fix b assume "b \<in> set bs"
  moreover have "seed_entry b = (fst b, fst (snd b), snd (snd (seed_entry b)))"
    by (simp add: seed_entry_def split_beta)
  ultimately have "(fst b, fst (snd b), snd (snd (seed_entry b))) \<in> set (map seed_entry bs)"
    by (metis image_eqI list.set_map)
  from map_of_is_SomeI [OF assms this]
  show "\<exists>d. map_of (map seed_entry bs) (fst b) = Some (fst (snd b), d)" by blast
qed

lemma flat_from_chain:
  assumes "chained a bs" and "distinct (a # map fst bs)"
  shows "flat (from_seed a n bs) = map_of (map seed_entry bs)"
  using assms
proof (induction bs rule: rev_induct)
  case Nil
  show ?case by (simp add: from_seed_def graph_new_def flat_def fun_eq_iff)
next
  case (snoc b bs)
  obtain h p k logs where b: "b = (h, p, k, logs)" by (cases b)
  let ?g = "from_seed a n bs"
  let ?d = "\<lparr>bd_number = k, bd_logs_bloom = None, bd_logs = Complete (key_by_log_index logs)\<rparr>"
  have IH: "flat ?g = map_of (map seed_entry bs)" and ch: "chained a bs"
    using snoc by (auto simp: chained_append)
  have ok: "graph_ok ?g" and a: "anchor_hash ?g = a"
    by (simp_all add: graph_ok_from_seed anchor_hash_def anchor_from_seed)
  have p: "p = last (a # map fst bs)" using snoc.prems(1) by (simp add: chained_append b)
  have "distinct (map fst (map seed_entry bs))" unfolding seed_keys using snoc.prems(2) by simp
  then have flat: "\<forall>b \<in> set bs. \<exists>d. flat ?g (fst b) = Some (fst (snd b), d)"
    unfolding IH by (rule seed_entries)
  have "chained (anchor_hash ?g) bs" using ch by (simp add: a)
  from chain_path [OF ok this flat] have "p = a \<or> connected ?g p \<noteq> None"
    using p by (cases bs rule: rev_cases) (auto simp: a)
  moreover have "p \<in> set (a # map fst bs)" unfolding p by (rule last_in_set) simp
  then have "h \<noteq> p" "h \<noteq> a" using snoc.prems(2) unfolding b by force+
  moreover have "flat ?g h = None"
    unfolding IH map_of_eq_None_iff set_map [symmetric] seed_keys using snoc.prems(2) by (simp add: b)
  ultimately have "snd (with_data_capped ?g h p ?d MAX_PENDING_BLOCKS) = Admitted"
    using a by (auto simp: with_data_capped_def Let_def flat_def anchor_hash_def connected_def)
  moreover note admit_cases [OF ok surjective_pairing, of h p ?d MAX_PENDING_BLOCKS]
  ultimately have "flat (from_seed a n (bs @ [b])) = (flat ?g)(h \<mapsto> (p, ?d))"
    by (simp add: from_seed_def b)
  then show ?case
    using \<open>flat ?g h = None\<close> unfolding IH
    by (auto simp: fun_eq_iff map_add_def b seed_entry_def split: option.split)
qed

lemma seed_chain_connects:
  assumes ch: "chained a bs" and d: "distinct (a # map fst bs)"
  shows "(\<forall>b \<in> set bs. connected (from_seed a n bs) (fst b) \<noteq> None) \<and>
    (bs \<noteq> [] \<longrightarrow> connected_oldest_to_newest (from_seed a n bs) (fst (last bs)) = map fst bs) \<and>
    missing_parents (from_seed a n bs) = []"
proof -
  let ?g = "from_seed a n bs"
  have ok: "graph_ok ?g" and a: "anchor_hash ?g = a"
    by (simp_all add: graph_ok_from_seed anchor_hash_def anchor_from_seed)
  have flat: "flat ?g = map_of (map seed_entry bs)" by (rule flat_from_chain [OF assms])
  have dist: "distinct (map fst (map seed_entry bs))" unfolding seed_keys using d by simp
  have some: "\<forall>b \<in> set bs. \<exists>d. flat ?g (fst b) = Some (fst (snd b), d)"
    unfolding flat by (rule seed_entries [OF dist])
  have "chained (anchor_hash ?g) bs" using ch a by simp
  note path = chain_path [OF ok this some]
  have "missing_parents ?g = []"
  proof (rule ccontr)
    assume "missing_parents ?g \<noteq> []"
    then obtain m where "m \<in> set (missing_parents ?g)" by (meson list.set_sel(1))
    then obtain h d where pend: "map_of (bg_nodes ?g) h = Some (Pending m d)"
      using missing_parents_set [of ?g m] ok by (auto simp: graph_ok_def)
    then have "flat ?g h \<noteq> None" by (simp add: flat_def)
    then have "h \<in> fst ` set bs"
      unfolding flat using seed_keys [of bs] by (metis list.set_map map_of_eq_None_iff)
    then have "connected ?g h \<noteq> None" using path by auto
    with pend show False by (auto simp: connected_def is_conn_def)
  qed
  with path show ?thesis by simp
qed

section \<open>The window becomes a chain\<close>

lemma recent_blocks_spec:
  "bm_wf (recent_blocks window n) \<and>
   (\<forall>k b. map_of (recent_blocks window n) k = Some b \<longleftrightarrow> k > n \<and> find (\<lambda>b. rb_number b = k) window = Some b)"
proof (induction window rule: rev_induct)
  case (snoc b bs)
  let ?r = "recent_blocks bs n"
  have step: "recent_blocks (bs @ [b]) n = (if rb_number b > n \<and> map_of ?r (rb_number b) = None
      then bm_insert (rb_number b) b ?r else ?r)"
    by (simp add: recent_blocks_def)
  have find: "find P (xs @ ys) = (case find P xs of Some x \<Rightarrow> Some x | None \<Rightarrow> find P ys)"
    for P and xs ys :: "range_log_block list"
    by (induction xs) auto
  have absent: "map_of ?r k = None \<longleftrightarrow> \<not> (k > n \<and> find (\<lambda>b. rb_number b = k) bs \<noteq> None)" for k
    using snoc.IH by (metis not_None_eq option.exhaust)
  show ?case
    using snoc.IH absent unfolding step
    by (auto simp: find split: option.split if_splits)
qed (simp add: recent_blocks_def)

lemma link_window_chained: "chained a (link_window F ws n a)"
proof (induction ws arbitrary: n a)
  case (Cons w ws)
  then show ?case by (cases w) (simp add: Let_def)
qed simp

definition seed_number :: "seed_block \<Rightarrow> u64" where
  "seed_number b = fst (snd (snd b))"

lemma seed_number_simp [simp]: "seed_number (h, p, n, logs) = n"
  by (simp add: seed_number_def)

lemma word_between:
  fixes n k :: u64
  assumes "n < k" and "k \<noteq> n + 1"
  shows "n < k - 1 \<and> k - 1 < k"
proof -
  have "k \<noteq> 0" using assms(1) by auto
  then have k: "unat (k - 1) = unat k - 1" by (simp add: unat_minus_one)
  have "unat n + 1 < 2 ^ 64"
    using assms(1) unsigned_less [of k, where 'a = nat] by (simp add: word_less_nat_alt)
  then have "unat (n + 1) = unat n + 1" using unatSuc [of n] unat_arith_simps(2) by (simp add: unat_word_ariths(1))
  with assms k show ?thesis by (auto simp: word_less_nat_alt word_unat_eq_iff)
qed

lemma link_window_numbers:
  assumes "bm_wf ws" and "\<forall>k \<in> fst ` set ws. n < k"
  shows "sorted_wrt (<) (n # map seed_number (link_window F ws n a))"
  using assms
proof (induction ws arbitrary: n a)
  case (Cons w ws)
  obtain k b where w: "w = (k, b)" by (cases w)
  have IH: "sorted_wrt (<) (k # map seed_number (link_window F ws k (rb_hash b)))"
    using Cons by (intro Cons.IH) (auto simp: w)
  have nk: "n < k" using Cons.prems by (simp add: w)
  have "n < k - 1 \<and> k - 1 < k" if "k \<noteq> n + 1"
    using nk that by (intro word_between)
  then show ?case
    using IH nk by (auto simp: w Let_def intro: order.strict_trans)
qed simp

lemma recent_keys_above: "k \<in> fst ` set (recent_blocks window n) \<Longrightarrow> n < k"
  using recent_blocks_spec [of window n] by (metis map_of_eq_None_iff not_None_eq)

lemma from_window_shape:
  "chained (fa_hash anchor) (from_window F window anchor trim) \<and>
   sorted_wrt (<) (fa_number anchor # map seed_number (from_window F window anchor trim))"
proof (cases "recent_blocks window (fa_number anchor) = []")
  case False
  let ?recent = "recent_blocks window (fa_number anchor)"
  let ?retained = "filter (\<lambda>(number, _). number \<le> saturating_sub (fst (last ?recent)) trim) ?recent"
  have "bm_wf ?recent" using recent_blocks_spec by blast
  then have "bm_wf ?retained" by (auto simp: bm_wf_def sorted_wrt_map sorted_wrt_filter)
  moreover have "\<forall>k \<in> fst ` set ?retained. fa_number anchor < k"
    using recent_keys_above [of _ window "fa_number anchor"] by force
  ultimately show ?thesis
    using False link_window_chained link_window_numbers
    by (simp add: from_window_def Let_def del: sorted_wrt.simps)
qed (simp add: from_window_def)

lemma link_window_blocks: "(k, b) \<in> set ws \<Longrightarrow> \<exists>p. (rb_hash b, p, k, rb_logs b) \<in> set (link_window F ws n a)"
proof (induction ws arbitrary: n a)
  case (Cons w ws)
  obtain k' b' where w: "w = (k', b')" by (cases w)
  show ?case
  proof (cases "(k, b) = w")
    case True
    then show ?thesis by (auto simp: w Let_def)
  next
    case False
    with Cons obtain p where "(rb_hash b, p, k, rb_logs b) \<in> set (link_window F ws k' (rb_hash b'))"
      by force
    then show ?thesis by (auto simp: w Let_def)
  qed
qed simp

text \<open>
  The seed of a bootstrap is one chain down to its anchor. If the filler hashes collide with
  nothing, then in the graph a kernel builds from the seed every block is connected, the ancestry of
  the newest block is the whole seed in order, heights ascend from the anchor, no parent is missing
  (so activation requests no header), and every retained block of the window is there with its logs.
\<close>

lemma bootstrap_seed_connects:
  assumes "distinct (fa_hash anchor # map fst (from_window F window anchor trim))"
  shows "let seed = from_window F window anchor trim; g = from_seed (fa_hash anchor) (fa_number anchor) seed
    in (\<forall>b \<in> set seed. connected g (fst b) \<noteq> None) \<and>
      (seed \<noteq> [] \<longrightarrow> connected_oldest_to_newest g (fst (last seed)) = map fst seed) \<and>
      sorted_wrt (<) (fa_number anchor # map seed_number seed) \<and>
      missing_parents g = [] \<and>
      (\<forall>k b. map_of (recent_blocks window (fa_number anchor)) k = Some b \<and>
         k \<le> saturating_sub (fst (last (recent_blocks window (fa_number anchor)))) trim \<longrightarrow>
         (\<exists>p. (rb_hash b, p, k, rb_logs b) \<in> set seed))"
proof -
  have "\<exists>p. (rb_hash b, p, k, rb_logs b) \<in> set (from_window F window anchor trim)"
    if "map_of (recent_blocks window (fa_number anchor)) k = Some b"
      and "k \<le> saturating_sub (fst (last (recent_blocks window (fa_number anchor)))) trim" for k b
    using that map_of_SomeD [OF that(1)] unfolding from_window_def
    by (auto simp: Let_def intro!: link_window_blocks)
  then show ?thesis
    using seed_chain_connects [OF conjunct1 [OF from_window_shape] assms] from_window_shape [of anchor F window trim]
    by (simp add: Let_def)
qed

definition demo_window :: "range_log_block list" where
  "demo_window = [\<lparr>rb_number = 11, rb_hash = 2, rb_logs = [demo_swap]\<rparr>, \<lparr>rb_number = 14, rb_hash = 5, rb_logs = []\<rparr>]"

section \<open>One request per phase\<close>

definition pending_counts :: "boot_requests \<Rightarrow> nat list" where
  "pending_counts r = [length (br_finalized_header r), length (br_pool_candidates r),
     length (br_pool_metadata r), length (br_token_metadata r)]"

text \<open>How many requests of each kind a phase waits for; the terminal phases wait for none that matters.\<close>

fun awaited :: "phase \<Rightarrow> nat list option" where
  "awaited AnchoringChain = Some [1, 0, 0, 0]"
| "awaited (Discovering _ _) = Some [0, 1, 0, 0]"
| "awaited (ValidatingPools _ _) = Some [0, 0, 1, 0]"
| "awaited (ResolvingTokens _ _ _) = Some [0, 0, 0, 1]"
| "awaited _ = None"

lemma single_coll: "length c = Suc 0 \<Longrightarrow> \<exists>i p. c = [(i, p)]"
  by (cases c) (auto simp: length_Suc_conv)

lemma delete_single: "length c \<le> 1 \<Longrightarrow> length (AList.delete i c) = (if map_of c i = None then length c else 0)"
  by (cases c) auto

lemma retry_length:
  assumes "request_store A" and "length (sa_coll A s) \<le> 1"
  shows "length (sa_coll A (fst (retry_request A s i t))) = length (sa_coll A s)"
proof (cases "map_of (sa_coll A s) i")
  case None
  then show ?thesis by (simp add: request_store.retry_None [OF assms(1)])
next
  case (Some q)
  then have "AList.delete i (sa_coll A s) = []" "length (sa_coll A s) = 1"
    using assms(2) by (cases "sa_coll A s"; simp split: if_splits)+
  then show ?thesis
    by (simp add: request_store.retry_Some [OF assms(1) Some] coll_insert_def)
qed

lemma retry_counts:
  assumes "\<forall>n \<in> set (pending_counts r). n \<le> 1"
  shows "pending_counts (fst (boot_retry r i t)) = pending_counts r"
proof -
  have eq: "fst (boot_retry_typed A wrap r i t) = fst (retry_request A r i t)"
    for A :: "(boot_requests, 'r) store_access" and wrap i
    by (simp add: boot_retry_typed_def split_beta Let_def)
  show ?thesis
    using assms
      retry_length [OF boot_headers.request_store_axioms, of r _ t]
      retry_length [OF boot_candidates.request_store_axioms, of r _ t]
      retry_length [OF boot_pools.request_store_axioms, of r _ t]
      retry_length [OF boot_tokens.request_store_axioms, of r _ t]
    by (cases i) (auto simp: eq pending_counts_def boot_access_defs retry_request_def take_request_def
        issue_request_def coll_remove_def Let_def ids_issue_def split: option.splits prod.splits)
qed

lemma retry_expired_counts:
  assumes "\<forall>n \<in> set (pending_counts r). n \<le> 1"
  shows "pending_counts (fst (boot_retry_expired r t)) = pending_counts r"
proof -
  have "pending_counts (fst (fold (\<lambda>i (requests, effects).
         (let (requests, issued) = boot_retry requests i t
          in (requests, effects @ (case issued of None \<Rightarrow> [] | Some r \<Rightarrow> [r])))) is (r, es))) = pending_counts r"
    for "is" es
    using assms
  proof (induction "is" arbitrary: r es)
    case (Cons i js)
    then show ?case using retry_counts [OF Cons.prems, of i t] by (simp add: split_beta Let_def)
  qed simp
  then show ?thesis by (simp add: boot_retry_expired_def)
qed

text \<open>
  The invariant: the requests in flight are those the phase waits for; every seed in hand is a chain
  down to the anchor; the registries of the outcome satisfy theirs.
\<close>

definition seed_ok :: "finalized_anchor \<Rightarrow> seed_block list \<Rightarrow> bool" where
  "seed_ok anchor seed \<longleftrightarrow> chained (fa_hash anchor) seed \<and>
     sorted_wrt (<) (fa_number anchor # map seed_number seed)"

fun phase_ok :: "chain_key \<Rightarrow> phase \<Rightarrow> bool" where
  "phase_ok chain (ValidatingPools anchor seed) \<longleftrightarrow> seed_ok anchor seed"
| "phase_ok chain (ResolvingTokens anchor seed verified) \<longleftrightarrow> seed_ok anchor seed"
| "phase_ok chain (Ready outcome) \<longleftrightarrow> seed_ok (bo_anchor outcome) (bo_seed_blocks outcome) \<and>
     bo_pool_snapshots outcome = [] \<and> pool_registry_inv chain (bo_pool_registry outcome) \<and>
     token_registry_inv (bo_token_registry outcome)"
| "phase_ok chain _ \<longleftrightarrow> True"

definition boot_ok :: "chain_key \<Rightarrow> boot_state \<Rightarrow> bool" where
  "boot_ok chain s \<longleftrightarrow> phase_ok chain (bs_phase s) \<and>
     (\<forall>c. awaited (bs_phase s) = Some c \<longrightarrow> pending_counts (bs_pending s) = c)"

lemma seed_ok_from_window: "seed_ok anchor (from_window F window anchor trim)"
  unfolding seed_ok_def by (rule from_window_shape)

lemma registries_new: "pool_registry_inv chain pool_registry_new" "token_registry_inv token_registry_new"
  by (simp_all add: pool_registry_inv_def pool_registry_new_def token_registry_inv_def token_registry_new_def)

lemma into_registry_inv: "pool_registry_inv chain (into_registry verified chain)"
  by (simp add: into_registry_def pool_results_apply_all pools.all_inv registries_new)

lemma degraded_ok: "phase_ok chain p \<Longrightarrow> phase_ok chain (degraded F chain p trim) \<and> awaited (degraded F chain p trim) = None"
  by (cases p) (simp_all add: seed_ok_from_window into_registry_inv registries_new)

lemma awaited_small: "awaited p = Some c \<Longrightarrow> \<forall>n \<in> set c. n \<le> 1"
  by (cases p) auto

lemmas boot_request_simps = boot_access_defs take_request_def issue_request_def ids_issue_def
  coll_remove_def coll_insert_def enter_phase_def

lemma boot_ok_header: "boot_ok chain s \<Longrightarrow> boot_ok chain (fst (header_arm s i anchor))"
  unfolding header_arm_def boot_ok_def
  by (cases "bs_phase s") (auto simp: boot_request_simps pending_counts_def Let_def delete_single dest!: single_coll)

lemma boot_ok_candidates: "boot_ok chain s \<Longrightarrow> boot_ok chain (fst (candidates_arm F s i blocks tip next))"
  unfolding candidates_arm_def boot_ok_def
  by (cases "bs_phase s"; cases "next")
    (auto simp: boot_request_simps pending_counts_def Let_def delete_single seed_ok_from_window
      dest!: single_coll split: if_splits)

lemma boot_ok_pools: "boot_ok chain s \<Longrightarrow> boot_ok chain (fst (pools_arm chain s i metadata))"
  unfolding pools_arm_def boot_ok_def
  by (cases "bs_phase s") (auto simp: boot_request_simps pending_counts_def Let_def delete_single dest!: single_coll)

lemma boot_ok_tokens: "boot_ok chain s \<Longrightarrow> boot_ok chain (fst (tokens_arm chain s i metadata))"
  unfolding tokens_arm_def boot_ok_def
  by (cases "bs_phase s")
    (auto simp: boot_request_simps pending_counts_def Let_def delete_single into_registry_inv
      token_results_apply_all tokens.all_inv registries_new dest!: single_coll)

lemma boot_ok_tick: "boot_ok chain s \<Longrightarrow> boot_ok chain (fst (boot_tick_arm F chain s))"
proof -
  assume ok: "boot_ok chain s"
  have "pending_counts (fst (boot_retry_expired (bs_pending s) t)) = pending_counts (bs_pending s)"
    if "awaited (bs_phase s) \<noteq> None" for t
    using that ok awaited_small by (intro retry_expired_counts) (auto simp: boot_ok_def)
  then show ?thesis
    using ok degraded_ok unfolding boot_tick_arm_def boot_ok_def
    by (auto simp: Let_def split_beta)
qed

lemma boot_ok_step: "boot_ok chain s \<Longrightarrow> boot_ok chain (fst (boot_transition F chain s e))"
proof (cases e)
  case (BootRequestFailed i)
  assume ok: "boot_ok chain s"
  have "pending_counts (fst (boot_retry (bs_pending s) i t)) = pending_counts (bs_pending s)"
    if "awaited (bs_phase s) \<noteq> None" for t
    using that ok awaited_small by (intro retry_counts) (auto simp: boot_ok_def)
  with ok BootRequestFailed show ?thesis by (auto simp: boot_ok_def split_beta Let_def)
qed (simp_all add: boot_ok_header boot_ok_candidates boot_ok_pools boot_ok_tokens boot_ok_tick)

definition boot_start :: "boot_state \<Rightarrow> bool" where
  "boot_start s \<longleftrightarrow> (\<exists>policy. s = fst (boot_init policy))"

lemma boot_ok_init: "boot_ok chain (fst (boot_init policy))"
  by (simp add: boot_init_def boot_ok_def boot_request_simps pending_counts_def boot_requests_new_def Let_def)

interpretation boot: state_machine boot_start "boot_transition F chain" "\<lambda>_. True" "boot_ok chain" for F chain
  by unfold_locales (auto simp: boot_start_def boot_ok_init boot_ok_step)

text \<open>
  C39. A bootstrap never stalls and never over-asks: in every state that the driver can reach, a phase
  that is not terminal has exactly one request in flight, and it is the request whose answer moves
  the phase on; so a failed or lost answer always leaves something to retry.
\<close>

theorem bootstrap_one_request_per_phase:
  assumes "s = boot.run F chain (fst (boot_init policy)) es"
  shows "case bs_phase s of
      AnchoringChain \<Rightarrow> pending_counts (bs_pending s) = [1, 0, 0, 0]
    | Discovering _ _ \<Rightarrow> pending_counts (bs_pending s) = [0, 1, 0, 0]
    | ValidatingPools _ _ \<Rightarrow> pending_counts (bs_pending s) = [0, 0, 1, 0]
    | ResolvingTokens _ _ _ \<Rightarrow> pending_counts (bs_pending s) = [0, 0, 0, 1]
    | _ \<Rightarrow> completion s \<noteq> None"
proof -
  have "boot_ok chain s"
    unfolding assms by (rule boot.run_from_start) (auto simp: boot_start_def list_all_iff)
  then show ?thesis by (simp add: boot_ok_def completion_def split: phase.split)
qed

definition demo_policy :: bootstrap_policy where
  "demo_policy = \<lparr>bp_tip_trim = 0, bp_deadline_ticks = 3\<rparr>"

theorem bootstrap_one_request_per_phase_witness:
  "pending_counts (bs_pending (boot.run (\<lambda>l u. 1000 * u + l) Ethereum (fst (boot_init demo_policy))
     [BootHeaderReceived 1 \<lparr>fa_hash = 1, fa_number = 10\<rparr>, BootTick])) = [0, 1, 0, 0]"
proof -
  let ?s = "boot.run (\<lambda>l u. 1000 * u + l) Ethereum (fst (boot_init demo_policy))
     [BootHeaderReceived 1 \<lparr>fa_hash = 1, fa_number = 10\<rparr>, BootTick]"
  have "case bs_phase ?s of Discovering _ _ \<Rightarrow> True | _ \<Rightarrow> False"
    unfolding boot.run.simps by code_simp
  then show ?thesis
    using bootstrap_one_request_per_phase [OF refl, of "\<lambda>l u. 1000 * u + l" Ethereum demo_policy
        "[BootHeaderReceived 1 \<lparr>fa_hash = 1, fa_number = 10\<rparr>, BootTick]"]
    by (auto split: phase.splits)
qed

section \<open>Termination\<close>

definition tick_count :: "boot_event list \<Rightarrow> nat" where
  "tick_count es = length (filter (\<lambda>e. e = BootTick) es)"

lemma completion_final: "completion s = Some c \<Longrightarrow> completion (fst (boot_transition F chain s e)) = Some c"
  by (cases e; cases "bs_phase s")
    (auto simp: completion_def header_arm_def candidates_arm_def pools_arm_def tokens_arm_def boot_tick_arm_def
      Let_def split_beta)

lemma arm_frame:
  "e \<noteq> BootTick \<Longrightarrow> bs_tick (fst (boot_transition F chain s e)) = bs_tick s \<and>
     bs_policy (fst (boot_transition F chain s e)) = bs_policy s \<and>
     bs_started_at (fst (boot_transition F chain s e)) = bs_started_at s"
  by (cases e; cases "bs_phase s")
    (auto simp: header_arm_def candidates_arm_def pools_arm_def tokens_arm_def enter_phase_def
      Let_def split_beta split: option.split)

lemma degraded_complete: "completion (s\<lparr>bs_phase := degraded F chain p trim\<rparr>) \<noteq> None"
  by (cases p) (simp_all add: completion_def)

text \<open>Until it completes, a bootstrap counts its ticks, and the count is below the deadline.\<close>

definition counting :: "nat \<Rightarrow> boot_state \<Rightarrow> bool" where
  "counting k s \<longleftrightarrow> completion s \<noteq> None \<or>
     bs_tick s = of_nat k \<and> bs_started_at s = 0 \<and> k < max 1 (unat (bp_deadline_ticks (bs_policy s)))"

lemma counting_other: "counting k s \<Longrightarrow> e \<noteq> BootTick \<Longrightarrow> counting k (fst (boot_transition F chain s e))"
  unfolding counting_def using completion_final [of s _ F chain e] arm_frame [of e F chain s] by auto

lemma counting_tick:
  assumes "counting k s"
  shows "counting (Suc k) (fst (boot_transition F chain s BootTick))"
proof (cases "completion s")
  case None
  let ?d = "bp_deadline_ticks (bs_policy s)"
  have k: "bs_tick s = of_nat k" "bs_started_at s = 0" "k < max 1 (unat ?d)"
    using assms None by (auto simp: counting_def)
  have "k < 2 ^ 64 - 1"
    using k(3) unsigned_less [of ?d, where 'a = nat] by (auto simp: max_def split: if_splits)
  then have "unat (of_nat (Suc k) :: u64) = Suc k" by (simp only: unat_of_nat) simp
  then have t: "of_nat (Suc k) \<ge> ?d \<longleftrightarrow> Suc k \<ge> unat ?d"
    by (simp only: word_le_nat_alt)
  have tick: "tick_next (bs_tick s) = of_nat (Suc k)" using k(1) by (simp add: tick_next_def add.commute)
  show ?thesis
  proof (cases "Suc k \<ge> unat ?d")
    case True
    then have "completion (fst (boot_transition F chain s BootTick)) \<noteq> None"
      using None degraded_complete tick k(2) t
      by (simp add: boot_tick_arm_def Let_def elapsed_since_def completion_def)
    then show ?thesis by (simp add: counting_def)
  next
    case False
    then show ?thesis
      using None tick k(2) t
      by (simp add: boot_tick_arm_def Let_def elapsed_since_def completion_def counting_def split_beta)
  qed
next
  case (Some c)
  from completion_final [OF this, of F chain BootTick] show ?thesis by (simp add: counting_def)
qed

lemma counting_run: "counting k s \<Longrightarrow> counting (k + tick_count es) (boot.run F chain s es)"
proof (induction es arbitrary: k s)
  case (Cons e es)
  show ?case
  proof (cases "e = BootTick")
    case True
    then show ?thesis using Cons.IH [OF counting_tick [OF Cons.prems]] by (simp add: tick_count_def)
  next
    case False
    then show ?thesis using Cons.IH [OF counting_other [OF Cons.prems]] by (simp add: tick_count_def)
  qed
qed (simp add: tick_count_def)

lemma policy_run: "bs_policy (boot.run F chain s es) = bs_policy s"
proof -
  have "bs_policy (fst (boot_transition F chain t e)) = bs_policy t" for t e
    by (cases "e = BootTick")
      (simp_all add: arm_frame boot_tick_arm_def Let_def split_beta)
  then show ?thesis using boot.run_keeps [of "\<lambda>t. bs_policy t = bs_policy s" s F chain es] by simp
qed

text \<open>
  C40. Every bootstrap ends, and its end is final: whatever the answers and failures in between, once
  as many ticks have passed as the deadline allows the bootstrap is complete, and no later event
  changes the result it then reports.
\<close>

theorem bootstrap_ends_by_deadline:
  assumes "tick_count es \<ge> max 1 (unat (bp_deadline_ticks policy))"
  shows "\<exists>c. completion (boot.run F chain (fst (boot_init policy)) es) = Some c \<and>
    completion (boot.run F chain (fst (boot_init policy)) (es @ later)) = Some c"
proof -
  let ?s = "boot.run F chain (fst (boot_init policy)) es"
  have "counting 0 (fst (boot_init policy))"
    by (simp add: counting_def boot_init_def enter_phase_def split_beta Let_def tick_initial_def less_max_iff_disj)
  from counting_run [OF this, of es F chain] have "counting (tick_count es) ?s" by simp
  moreover have "bs_policy ?s = policy"
    by (simp add: policy_run boot_init_def enter_phase_def split_beta Let_def)
  ultimately obtain c where "completion ?s = Some c" using assms by (auto simp: counting_def)
  moreover from this have "completion (boot.run F chain ?s later) = Some c"
    using boot.run_keeps [of "\<lambda>t. completion t = Some c"] completion_final by blast
  ultimately show ?thesis by (auto simp: boot.run_append)
qed

theorem bootstrap_ends_by_deadline_witness:
  "\<exists>c. completion (boot.run (\<lambda>l u. 1000 * u + l) Ethereum (fst (boot_init demo_policy))
     [BootTick, BootHeaderReceived 1 \<lparr>fa_hash = 1, fa_number = 10\<rparr>, BootTick, BootTick]) = Some c"
proof -
  have "tick_count [BootTick, BootHeaderReceived 1 \<lparr>fa_hash = 1, fa_number = 10\<rparr>, BootTick, BootTick] \<ge>
      max 1 (unat (bp_deadline_ticks demo_policy))"
    by (simp add: tick_count_def demo_policy_def)
  from bootstrap_ends_by_deadline [OF this] show ?thesis by blast
qed

end
