(* ===== verification/MultiChain.thy ===== *)
theory MultiChain
  imports KernelLaws BootstrapLaws ReserveProjection OptimizerRunner
begin

text \<open>
  The multi-chain state (multi_chain_kernel.rs): one lifecycle per chain, a bootstrap with a buffer of
  live data or a running kernel, and the optimization fields that span the chains.

  \<open>env\<close> collects what the source takes from outside the integers: the bloom test of a header, the hash
  of a bridged gap, and the floating-point conversions between raw and normalized amounts.
\<close>

section \<open>Floating-point interface\<close>

record 'f env = "'f amount_env" +
  env_bloom :: bloom_ops
  env_filler :: "block_hash \<Rightarrow> block_hash \<Rightarrow> block_hash"
  env_minus :: "'f \<Rightarrow> 'f \<Rightarrow> 'f"
  env_scale :: "'f \<Rightarrow> u64"

section \<open>State\<close>

record finalized_refresh_policy_t =
  rp_target_len :: nat
  rp_retry_stride :: nat

record 'f chain_pool_reserves =
  cr_block_hash :: block_hash
  cr_reserves :: "'f pool_reserves list"

record 'f optimization_pool_reserves =
  or_block_hashes :: "(chain_key, block_hash) bmap"
  or_reserves :: "'f pool_reserves list"

datatype plan_verification_failure =
  InitAssetUnknown
| AmountConversion
| BridgeTokenUnknown
| BridgeDecimalsMismatch
| ReplayFailed lossless_replay_error

datatype 'f plan_verification =
  Verified 'f bool
| Unverifiable plan_verification_failure

datatype subscription_data =
  NewHead block_hash block_hash bloom u64
| PoolLogData block_hash "pool_log list"

fun into_kernel_event :: "subscription_data \<Rightarrow> event" where
  "into_kernel_event (NewHead h parent bloom number) = HeadObserved h parent bloom number"
| "into_kernel_event (PoolLogData h logs) = LogObserved h logs"

datatype chain_lifecycle =
  Bootstrapping boot_state "subscription_data list"
| Active kernel_state

record 'f multi_state =
  ms_chains :: "(chain_key, chain_lifecycle) bmap"
  ms_latest_optimization_result :: "'f optimization_step_result option"
  ms_latest_plan_verification :: "'f plan_verification option"
  ms_last_optimized_block :: "(chain_key, block_hash) bmap"

datatype 'f multi_event =
  FinalizedHeaderReceived chain_key block_hash u64
| FinalizedHeaderUnavailable chain_key
| SubscriptionData chain_key subscription_data
| ChainEvent chain_key event
| BootstrapEvent chain_key boot_event
| OptimizationStepCompleted "'f optimization_step_result" "'f execution_plan option"
| MultiTick

datatype 'f multi_effect =
  FetchFinalizedHeaderOf chain_key
| ChainEffect chain_key effect
| BootstrapEffect chain_key boot_issued
| RunOptimization "'f optimization_pool_reserves"

section \<open>Policies\<close>

fun finalized_refresh_policy :: "chain_key \<Rightarrow> finalized_refresh_policy_t" where
  "finalized_refresh_policy Ethereum =
     \<lparr>rp_target_len = approx_finalized_block_age Ethereum + 8, rp_retry_stride = 8\<rparr>"
| "finalized_refresh_policy Arbitrum =
     \<lparr>rp_target_len = approx_finalized_block_age Arbitrum + 64, rp_retry_stride = 32\<rparr>"
| "finalized_refresh_policy Base =
     \<lparr>rp_target_len = approx_finalized_block_age Base + 32, rp_retry_stride = 16\<rparr>"
| "finalized_refresh_policy Optimism =
     \<lparr>rp_target_len = approx_finalized_block_age Optimism + 32, rp_retry_stride = 16\<rparr>"
| "finalized_refresh_policy Polygon =
     \<lparr>rp_target_len = approx_finalized_block_age Polygon + 64, rp_retry_stride = 32\<rparr>"
| "finalized_refresh_policy Bnb =
     \<lparr>rp_target_len = approx_finalized_block_age Bnb + 32, rp_retry_stride = 16\<rparr>"
| "finalized_refresh_policy Avalanche =
     \<lparr>rp_target_len = approx_finalized_block_age Avalanche + 16, rp_retry_stride = 8\<rparr>"

fun bootstrap_policy_of :: "chain_key \<Rightarrow> bootstrap_policy" where
  "bootstrap_policy_of Ethereum = \<lparr>bp_tip_trim = 4, bp_deadline_ticks = 180\<rparr>"
| "bootstrap_policy_of Arbitrum = \<lparr>bp_tip_trim = 8, bp_deadline_ticks = 180\<rparr>"
| "bootstrap_policy_of Base = \<lparr>bp_tip_trim = 8, bp_deadline_ticks = 180\<rparr>"
| "bootstrap_policy_of Optimism = \<lparr>bp_tip_trim = 8, bp_deadline_ticks = 180\<rparr>"
| "bootstrap_policy_of Polygon = \<lparr>bp_tip_trim = 16, bp_deadline_ticks = 180\<rparr>"
| "bootstrap_policy_of Bnb = \<lparr>bp_tip_trim = 12, bp_deadline_ticks = 180\<rparr>"
| "bootstrap_policy_of Avalanche = \<lparr>bp_tip_trim = 6, bp_deadline_ticks = 180\<rparr>"

section \<open>Projection for the optimizer\<close>

definition projection_metadata :: "kernel_state \<Rightarrow> chain_key \<Rightarrow> pool_ref \<Rightarrow>
    (token_address \<times> token_address \<times> pool_fee \<times> token_decimals \<times> token_decimals) option" where
  "projection_metadata k chain pool =
     (case pool_verified_metadata (ks_pool_registry k) pool of
        None \<Rightarrow> None
      | Some metadata \<Rightarrow>
          (let token0 = TokenAddress (pm_token0 metadata) chain; token1 = TokenAddress (pm_token1 metadata) chain
           in case token_verified_metadata (ks_token_registry k) token0 of
                None \<Rightarrow> None
              | Some m0 \<Rightarrow>
                  (case token_verified_metadata (ks_token_registry k) token1 of
                     None \<Rightarrow> None
                   | Some m1 \<Rightarrow> Some (token0, token1, pm_fee metadata, tm_decimals m0, tm_decimals m1))))"

definition sorted_pool_states_for_projection :: "pool_states \<Rightarrow> pool_states \<Rightarrow> (pool_ref \<times> pool_state) list" where
  "sorted_pool_states_for_projection finalized overlay = sort_key fst (hm_extend finalized overlay)"

text \<open>The loop over the pools: the first pool without metadata or values decides.\<close>

fun project_pools :: "'f env \<Rightarrow> kernel_state \<Rightarrow> chain_key \<Rightarrow> (pool_ref \<times> pool_state) list \<Rightarrow>
    pool_reserve_projection_error + 'f pool_reserves list option" where
  "project_pools E k chain [] = Inr (Some [])"
| "project_pools E k chain ((pool, s) # pools) =
     (case projection_metadata k chain pool of
        None \<Rightarrow> Inr None
      | Some (token0, token1, fee, decimals0, decimals1) \<Rightarrow>
          (case pool_reserve_values E pool s fee token0 token1 decimals0 decimals1 of
             Inl e \<Rightarrow> Inl e
           | Inr v \<Rightarrow>
               (let reserve = \<lparr>rs_token0 = token0, rs_token1 = token1, rs_pool_id = pool, rs_value = v\<rparr>
                in case project_pools E k chain pools of
                     Inl e \<Rightarrow> Inl e
                   | Inr None \<Rightarrow> Inr None
                   | Inr (Some rest) \<Rightarrow> Inr (Some (reserve # inverse_reserves reserve # rest)))))"

definition pool_reserves_for_optimization :: "'f env \<Rightarrow> (chain_key, chain_lifecycle) bmap \<Rightarrow> chain_key \<Rightarrow>
    optimization_state_update \<Rightarrow> pool_reserve_projection_error + 'f chain_pool_reserves option" where
  "pool_reserves_for_optimization E chain_map chain update =
     (case map_of chain_map chain of
        Some (Active k) \<Rightarrow>
          (case project_pools E k chain (sorted_pool_states_for_projection (ks_snapshot k) (ou_pool_states update)) of
             Inl e \<Rightarrow> Inl e
           | Inr None \<Rightarrow> Inr None
           | Inr (Some reserves) \<Rightarrow>
               Inr (Some \<lparr>cr_block_hash = ou_block_hash update, cr_reserves = reserves\<rparr>))
      | _ \<Rightarrow> Inr None)"

text \<open>One chain's contribution to the merge: the precomputed reserves for the triggering chain.\<close>

definition merge_chain :: "'f env \<Rightarrow> (chain_key, chain_lifecycle) bmap \<Rightarrow> chain_key \<Rightarrow> 'f chain_pool_reserves \<Rightarrow>
    chain_key \<times> chain_lifecycle \<Rightarrow> 'f optimization_pool_reserves \<Rightarrow> 'f optimization_pool_reserves" where
  "merge_chain E chain_map precomputed_chain precomputed = (\<lambda>(chain, lifecycle) input.
     (case lifecycle of
        Bootstrapping _ _ \<Rightarrow> input
      | Active k \<Rightarrow>
          (let add = (\<lambda>r. \<lparr>or_block_hashes = bm_insert chain (cr_block_hash r) (or_block_hashes input),
                            or_reserves = or_reserves input @ cr_reserves r\<rparr>)
           in if chain = precomputed_chain then add precomputed
              else case pool_reserves_for_optimization E chain_map chain (optimization_update (env_bloom E) k chain) of
                     Inr (Some r) \<Rightarrow> add r
                   | _ \<Rightarrow> input)))"

definition merged_optimization_reserves :: "'f env \<Rightarrow> (chain_key, chain_lifecycle) bmap \<Rightarrow> chain_key \<Rightarrow>
    'f chain_pool_reserves \<Rightarrow> 'f optimization_pool_reserves" where
  "merged_optimization_reserves E chain_map precomputed_chain precomputed =
     fold (merge_chain E chain_map precomputed_chain precomputed) chain_map \<lparr>or_block_hashes = [], or_reserves = []\<rparr>"

section \<open>Verification of a plan\<close>

definition verified_decimals :: "(chain_key, chain_lifecycle) bmap \<Rightarrow> token_address \<Rightarrow> token_decimals option" where
  "verified_decimals chain_map token =
     (case map_of chain_map (ta_chain token) of
        Some (Active k) \<Rightarrow> map_option tm_decimals (token_verified_metadata (ks_token_registry k) token)
      | _ \<Rightarrow> None)"

fun check_bridge_steps :: "(chain_key, chain_lifecycle) bmap \<Rightarrow> 'f executable_step list \<Rightarrow>
    plan_verification_failure option" where
  "check_bridge_steps chain_map [] = None"
| "check_bridge_steps chain_map (step # steps) =
     (if es_kind step \<noteq> Bridge then check_bridge_steps chain_map steps
      else case (verified_decimals chain_map (es_token_in step), verified_decimals chain_map (es_token_out step)) of
        (Some decimals_in, Some decimals_out) \<Rightarrow>
          (if decimals_in \<noteq> decimals_out then Some BridgeDecimalsMismatch else check_bridge_steps chain_map steps)
      | _ \<Rightarrow> Some BridgeTokenUnknown)"

fun pools_by_chain :: "'f executable_step list \<Rightarrow> (chain_key, pool_ref list) bmap \<Rightarrow> (chain_key, pool_ref list) bmap" where
  "pools_by_chain [] pools = pools"
| "pools_by_chain (step # steps) pools =
     (case es_kind step of
        Swap pool \<Rightarrow>
          pools_by_chain steps (bm_insert (pr_chain pool)
            ((case map_of pools (pr_chain pool) of None \<Rightarrow> [] | Some ps \<Rightarrow> ps) @ [pool]) pools)
      | _ \<Rightarrow> pools_by_chain steps pools)"

definition resolve_pool :: "bloom_ops \<Rightarrow> chain_key \<Rightarrow> kernel_state \<Rightarrow> pool_ref \<Rightarrow> lossless_pool option" where
  "resolve_pool B chain k pool =
     (let overlay = ou_pool_states (optimization_update B k chain);
          state = (case map_of overlay pool of Some s \<Rightarrow> Some s | None \<Rightarrow> map_of (ks_snapshot k) pool)
      in case state of
           None \<Rightarrow> None
         | Some s \<Rightarrow>
             (case pool_verified_metadata (ks_pool_registry k) pool of
                None \<Rightarrow> None
              | Some metadata \<Rightarrow>
                  (case the (from_pool_state s metadata chain) of Inl _ \<Rightarrow> None | Inr p \<Rightarrow> Some p)))"

definition add_chain_pools :: "bloom_ops \<Rightarrow> (chain_key, chain_lifecycle) bmap \<Rightarrow> chain_key \<times> pool_ref list \<Rightarrow>
    book \<Rightarrow> book" where
  "add_chain_pools B chain_map = (\<lambda>(chain, pools) book.
     (case map_of chain_map chain of
        Some (Active k) \<Rightarrow>
          fold (\<lambda>pool book. (case resolve_pool B chain k pool of
              None \<Rightarrow> book | Some p \<Rightarrow> AList.update pool p book)) pools book
      | _ \<Rightarrow> book))"

definition lossless_pools_for_plan :: "bloom_ops \<Rightarrow> (chain_key, chain_lifecycle) bmap \<Rightarrow> 'f execution_plan \<Rightarrow> book" where
  "lossless_pools_for_plan B chain_map plan =
     fold (add_chain_pools B chain_map) (pools_by_chain (ep_steps plan) []) []"

definition verify_plan :: "'f env \<Rightarrow> (chain_key, chain_lifecycle) bmap \<Rightarrow> 'f execution_plan \<Rightarrow> 'f plan_verification" where
  "verify_plan E chain_map plan =
     (case verified_decimals chain_map (ep_source_asset plan) of
        None \<Rightarrow> Unverifiable InitAssetUnknown
      | Some source_decimals \<Rightarrow>
     (case verified_decimals chain_map (ep_output_asset plan) of
        None \<Rightarrow> Unverifiable InitAssetUnknown
      | Some output_decimals \<Rightarrow>
     (case check_bridge_steps chain_map (ep_steps plan) of
        Some failure \<Rightarrow> Unverifiable failure
      | None \<Rightarrow>
     (case env_raw_amount E (ep_entry_amount plan) source_decimals of
        Inl _ \<Rightarrow> Unverifiable AmountConversion
      | Inr entry \<Rightarrow>
          (let book = lossless_pools_for_plan (env_bloom E) chain_map plan
           in case replay_plan_lossless (env_scale E) plan (map_of book) entry of
                Inl e \<Rightarrow> Unverifiable (ReplayFailed e)
              | Inr outcome \<Rightarrow>
                  (case env_token_amount E (lo_output outcome) output_decimals of
                     Inl _ \<Rightarrow> Unverifiable AmountConversion
                   | Inr output \<Rightarrow>
                       Verified (env_minus E output (ep_entry_amount plan)) (lo_hit_tick_limit outcome)))))))"

section \<open>Lifecycle of a chain\<close>

definition wrap_chain_effects :: "chain_key \<Rightarrow> effect list \<Rightarrow> 'f multi_effect list" where
  "wrap_chain_effects chain effects = map (ChainEffect chain) effects"

definition wrap_bootstrap_effects :: "chain_key \<Rightarrow> boot_issued list \<Rightarrow> 'f multi_effect list" where
  "wrap_bootstrap_effects chain effects = map (BootstrapEffect chain) effects"

definition multi_init_chain :: "chain_key \<Rightarrow> (chain_key, chain_lifecycle) bmap \<times> 'f multi_effect list \<Rightarrow>
    (chain_key, chain_lifecycle) bmap \<times> 'f multi_effect list" where
  "multi_init_chain chain = (\<lambda>(chain_map, effects).
     (let (bootstrap_state, bootstrap_effects) = boot_init (bootstrap_policy_of chain)
      in (bm_insert chain (Bootstrapping bootstrap_state []) chain_map,
          effects @ wrap_bootstrap_effects chain bootstrap_effects)))"

definition multi_init :: "chain_key list \<Rightarrow> 'f multi_state \<times> 'f multi_effect list" where
  "multi_init keys =
     (let (chain_map, effects) = fold multi_init_chain keys ([], [])
      in (\<lparr>ms_chains = chain_map, ms_latest_optimization_result = None, ms_latest_plan_verification = None,
           ms_last_optimized_block = []\<rparr>, effects))"

definition with_chain_lifecycle :: "'f multi_state \<Rightarrow> chain_key \<Rightarrow>
    (chain_lifecycle \<Rightarrow> chain_lifecycle option \<times> 'f multi_effect list) \<Rightarrow> 'f multi_state \<times> 'f multi_effect list" where
  "with_chain_lifecycle s chain f =
     (case map_of (ms_chains s) chain of
        None \<Rightarrow> (s, [])
      | Some lifecycle \<Rightarrow>
          (let (lifecycle, effects) = f lifecycle; chain_map = AList.delete chain (ms_chains s)
           in (s\<lparr>ms_chains := (case lifecycle of None \<Rightarrow> chain_map | Some l \<Rightarrow> bm_insert chain l chain_map)\<rparr>, effects)))"

definition activate_bootstrap_outcome :: "bootstrap_outcome \<Rightarrow> kernel_state \<times> effect list" where
  "activate_bootstrap_outcome outcome =
     activate_from_seed (fa_hash (bo_anchor outcome)) (fa_number (bo_anchor outcome)) (bo_pool_snapshots outcome)
       (bo_pool_registry outcome) (bo_token_registry outcome) (bo_seed_blocks outcome)"

definition replay_buffered_subscription_data :: "bloom_ops \<Rightarrow> chain_key \<Rightarrow> kernel_state \<Rightarrow> subscription_data list \<Rightarrow>
    kernel_state \<times> 'f multi_effect list" where
  "replay_buffered_subscription_data B chain k buffered =
     fold (\<lambda>data (k, effects).
         (let (k, kernel_effects) = transition B chain k (into_kernel_event data)
          in (k, effects @ wrap_chain_effects chain kernel_effects)))
       buffered (k, [])"

definition advance_bootstrap :: "'f env \<Rightarrow> chain_key \<Rightarrow> boot_state \<Rightarrow> subscription_data list \<Rightarrow> boot_event \<Rightarrow>
    chain_lifecycle option \<times> 'f multi_effect list" where
  "advance_bootstrap E chain b buffered e =
     (let (b, boot_effects) = boot_transition (env_filler E) chain b e;
          effects = wrap_bootstrap_effects chain boot_effects
      in case completion b of
           Some (CompletedReady outcome) \<Rightarrow>
             (let (k, activation_effects) = activate_bootstrap_outcome outcome;
                  (k, replay_effects) = replay_buffered_subscription_data (env_bloom E) chain k buffered
              in (Some (Active k), effects @ wrap_chain_effects chain activation_effects @ replay_effects))
         | Some CompletedAbandoned \<Rightarrow> (None, effects)
         | None \<Rightarrow> (Some (Bootstrapping b buffered), effects))"

section \<open>Handlers\<close>

definition finalized_header_received :: "'f env \<Rightarrow> 'f multi_state \<Rightarrow> chain_key \<Rightarrow> block_hash \<Rightarrow> u64 \<Rightarrow>
    'f multi_state \<times> 'f multi_effect list" where
  "finalized_header_received E s chain h number =
     with_chain_lifecycle s chain (\<lambda>lifecycle. case lifecycle of
         Active k \<Rightarrow>
           (let (k, effects) = transition (env_bloom E) chain k (FinalizedBlockObserved h number)
            in (Some (Active k), wrap_chain_effects chain effects))
       | other \<Rightarrow> (Some other, []))"

definition finalized_header_unavailable :: "'f multi_state \<Rightarrow> chain_key \<Rightarrow> 'f multi_state \<times> 'f multi_effect list" where
  "finalized_header_unavailable s chain = (s, [])"

definition bootstrap_event :: "'f env \<Rightarrow> 'f multi_state \<Rightarrow> chain_key \<Rightarrow> boot_event \<Rightarrow>
    'f multi_state \<times> 'f multi_effect list" where
  "bootstrap_event E s chain e =
     with_chain_lifecycle s chain (\<lambda>lifecycle. case lifecycle of
         Bootstrapping b buffered \<Rightarrow> advance_bootstrap E chain b buffered e
       | other \<Rightarrow> (Some other, []))"

definition buffer_subscription_data :: "'f multi_state \<Rightarrow> chain_key \<Rightarrow> subscription_data \<Rightarrow>
    'f multi_state \<times> 'f multi_effect list" where
  "buffer_subscription_data s chain data =
     with_chain_lifecycle s chain (\<lambda>lifecycle. case lifecycle of
         Bootstrapping b buffered \<Rightarrow> (Some (Bootstrapping b (buffered @ [data])), [])
       | other \<Rightarrow> (Some other, []))"

text \<open>The effects of an active chain's progress, and the dispatch of the optimizer behind its gate.\<close>

definition chain_progressed :: "'f env \<Rightarrow> 'f multi_state \<Rightarrow> chain_key \<Rightarrow> nat option \<Rightarrow> kernel_state \<Rightarrow> effect list \<Rightarrow>
    'f multi_state \<times> 'f multi_effect list" where
  "chain_progressed E s chain before_len k effects =
     (let refresh_policy = finalized_refresh_policy chain;
          effects = wrap_chain_effects chain effects @
            (if should_fetch_finalized_header before_len (canonical_path_len_from_finalized k)
                  (rp_target_len refresh_policy) (rp_retry_stride refresh_policy)
             then [FetchFinalizedHeaderOf chain] else []);
          update = optimization_update_if_changed (env_bloom E) k chain (map_of (ms_last_optimized_block s) chain);
          s = s\<lparr>ms_chains := bm_insert chain (Active k) (ms_chains s)\<rparr>
      in case update of
           None \<Rightarrow> (s, effects)
         | Some update \<Rightarrow>
             (case pool_reserves_for_optimization E (ms_chains s) chain update of
                Inr (Some chain_reserves) \<Rightarrow>
                  (let s = s\<lparr>ms_last_optimized_block :=
                              bm_insert chain (ou_block_hash update) (ms_last_optimized_block s)\<rparr>;
                       input = merged_optimization_reserves E (ms_chains s) chain chain_reserves
                   in (s, effects @ (if or_reserves input \<noteq> [] then [RunOptimization input] else [])))
              | _ \<Rightarrow> (s, effects)))"

definition chain_event :: "'f env \<Rightarrow> 'f multi_state \<Rightarrow> chain_key \<Rightarrow> event \<Rightarrow> 'f multi_state \<times> 'f multi_effect list" where
  "chain_event E s chain e =
     (case map_of (ms_chains s) chain of
        Some (Active k) \<Rightarrow>
          (let before_len = canonical_path_len_from_finalized k;
               removed = s\<lparr>ms_chains := AList.delete chain (ms_chains s)\<rparr>
           in case transition_outcome (env_bloom E) chain k e of
                Inert k \<Rightarrow> (removed\<lparr>ms_chains := bm_insert chain (Active k) (ms_chains removed)\<rparr>, [])
              | Progressed k effects \<Rightarrow> chain_progressed E removed chain before_len k effects)
      | Some existing_chain \<Rightarrow>
          (s\<lparr>ms_chains := bm_insert chain existing_chain (AList.delete chain (ms_chains s))\<rparr>, [])
      | None \<Rightarrow> (s, []))"

definition subscription_data_received :: "'f env \<Rightarrow> 'f multi_state \<Rightarrow> chain_key \<Rightarrow> subscription_data \<Rightarrow>
    'f multi_state \<times> 'f multi_effect list" where
  "subscription_data_received E s chain data =
     (case map_of (ms_chains s) chain of
        Some (Bootstrapping _ _) \<Rightarrow> buffer_subscription_data s chain data
      | _ \<Rightarrow> chain_event E s chain (into_kernel_event data))"

definition optimization_step_completed :: "'f env \<Rightarrow> 'f multi_state \<Rightarrow> 'f optimization_step_result \<Rightarrow>
    'f execution_plan option \<Rightarrow> 'f multi_state \<times> 'f multi_effect list" where
  "optimization_step_completed E s result plan =
     (s\<lparr>ms_latest_optimization_result := Some result,
        ms_latest_plan_verification := map_option (verify_plan E (ms_chains s)) plan\<rparr>, [])"

definition multi_tick_chain :: "'f env \<Rightarrow> chain_key \<times> chain_lifecycle \<Rightarrow>
    (chain_key, chain_lifecycle) bmap \<times> 'f multi_effect list \<Rightarrow> (chain_key, chain_lifecycle) bmap \<times> 'f multi_effect list" where
  "multi_tick_chain E = (\<lambda>(chain, lifecycle) (chain_map, effects).
     (case lifecycle of
        Bootstrapping b buffered \<Rightarrow>
          (let (lifecycle, chain_effects) = advance_bootstrap E chain b buffered BootTick
           in (case lifecycle of None \<Rightarrow> chain_map | Some l \<Rightarrow> bm_insert chain l chain_map, effects @ chain_effects))
      | Active k \<Rightarrow>
          (let (k, chain_effects) = transition (env_bloom E) chain k TickEvent
           in (bm_insert chain (Active k) chain_map, effects @ wrap_chain_effects chain chain_effects))))"

definition multi_tick :: "'f env \<Rightarrow> 'f multi_state \<Rightarrow> 'f multi_state \<times> 'f multi_effect list" where
  "multi_tick E s =
     (let (chain_map, effects) = fold (multi_tick_chain E) (ms_chains s) ([], [])
      in (s\<lparr>ms_chains := chain_map\<rparr>, effects))"

fun multi_transition :: "'f env \<Rightarrow> 'f multi_state \<Rightarrow> 'f multi_event \<Rightarrow> 'f multi_state \<times> 'f multi_effect list" where
  "multi_transition E s (FinalizedHeaderReceived chain h number) = finalized_header_received E s chain h number"
| "multi_transition E s (FinalizedHeaderUnavailable chain) = finalized_header_unavailable s chain"
| "multi_transition E s (SubscriptionData chain data) = subscription_data_received E s chain data"
| "multi_transition E s (ChainEvent chain e) = chain_event E s chain e"
| "multi_transition E s (BootstrapEvent chain e) = bootstrap_event E s chain e"
| "multi_transition E s (OptimizationStepCompleted result plan) = optimization_step_completed E s result plan"
| "multi_transition E s MultiTick = multi_tick E s"

section \<open>Observation\<close>

datatype chain_status = Initializing | ActiveStatus

record chain_progress =
  cp_verified_pools :: nat
  cp_blocks_behind_tip :: "nat option"
  cp_canonical_window :: "nat option"
  cp_in_flight_requests :: nat
  cp_ws_misses :: u64

datatype chain_observation = ObservedInitializing nat | ObservedActive chain_progress

definition status :: "'f multi_state \<Rightarrow> chain_key \<Rightarrow> chain_status option" where
  "status s chain = map_option (\<lambda>l. case l of Bootstrapping _ _ \<Rightarrow> Initializing | Active _ \<Rightarrow> ActiveStatus)
     (map_of (ms_chains s) chain)"

definition observe_chain :: "chain_lifecycle \<Rightarrow> block_hash option \<Rightarrow> chain_observation" where
  "observe_chain lifecycle last_optimized =
     (case lifecycle of
        Bootstrapping _ buffered \<Rightarrow> ObservedInitializing (length buffered)
      | Active k \<Rightarrow> ObservedActive
          \<lparr>cp_verified_pools = length (pr_verified (ks_pool_registry k)),
           cp_blocks_behind_tip = Option.bind last_optimized (blocks_behind k),
           cp_canonical_window = canonical_path_len_from_finalized k,
           cp_in_flight_requests = pending_len (ks_pending_requests k),
           cp_ws_misses = ks_ws_miss_count k\<rparr>)"

definition observe :: "'f multi_state \<Rightarrow> (chain_key \<times> chain_observation) list" where
  "observe s = map (\<lambda>(chain, lifecycle). (chain, observe_chain lifecycle (map_of (ms_last_optimized_block s) chain)))
     (ms_chains s)"

end
