(* ===== verification/OptimizerWorker.thy ===== *)
theory OptimizerWorker
  imports ClientCore
begin

text \<open>
  The optimizer's threads: the one-place mailbox that carries snapshots to them (latest_slot.rs, the
  same in aa-client-core and aa-cli), the client's self-clocked worker (aa-client-core optimizer.rs)
  and the command line's (aa-cli optimization.rs). A worker is a state and a pass of its loop; a pass
  that waits on the mailbox is \<open>None\<close>, so blocking is visible. The text of an error is a parameter.
\<close>

section \<open>The mailbox\<close>

text \<open>A lock is poisoned when a thread panics while it holds it.\<close>

datatype 'a lock = Lock 'a | PoisonedLock

record 'a latest_slot =
  ls_latest :: "'a option"
  ls_closed :: bool

datatype latest_send_error = SendClosed | SendPoisoned

datatype latest_receive_error = ReceiveClosed | ReceivePoisoned

definition latest_slot_new :: "'a latest_slot lock" where
  "latest_slot_new = Lock \<lparr>ls_latest = None, ls_closed = False\<rparr>"

definition slot_send :: "'a latest_slot lock \<Rightarrow> 'a \<Rightarrow> 'a latest_slot lock \<times> (latest_send_error + unit)" where
  "slot_send slot value =
     (case slot of
        Lock state \<Rightarrow>
          if ls_closed state then (slot, Inl SendClosed)
          else (Lock (state\<lparr>ls_latest := Some value\<rparr>), Inr ())
      | PoisonedLock \<Rightarrow> (slot, Inl SendPoisoned))"

text \<open>One pass of the loop of \<open>wait_take\<close>: \<open>None\<close> when it goes on waiting.\<close>

definition slot_wait_take :: "'a latest_slot lock \<Rightarrow> ('a latest_slot lock \<times> (latest_receive_error + 'a)) option" where
  "slot_wait_take slot =
     (case slot of
        Lock state \<Rightarrow>
          (case ls_latest state of
             Some value \<Rightarrow> Some (Lock (state\<lparr>ls_latest := None\<rparr>), Inr value)
           | None \<Rightarrow> if ls_closed state then Some (slot, Inl ReceiveClosed) else None)
      | PoisonedLock \<Rightarrow> Some (slot, Inl ReceivePoisoned))"

definition slot_try_take :: "'a latest_slot lock \<Rightarrow> 'a latest_slot lock \<times> (latest_receive_error + 'a option)" where
  "slot_try_take slot =
     (case slot of
        Lock state \<Rightarrow>
          (case ls_latest state of
             Some value \<Rightarrow> (Lock (state\<lparr>ls_latest := None\<rparr>), Inr (Some value))
           | None \<Rightarrow> if ls_closed state then (slot, Inl ReceiveClosed) else (slot, Inr None))
      | PoisonedLock \<Rightarrow> (slot, Inl ReceivePoisoned))"

definition slot_close :: "'a latest_slot lock \<Rightarrow> 'a latest_slot lock" where
  "slot_close slot = (case slot of Lock state \<Rightarrow> Lock (state\<lparr>ls_closed := True\<rparr>) | PoisonedLock \<Rightarrow> PoisonedLock)"

section \<open>The client's worker\<close>

record 'f reserve_snapshot =
  sn_reserves :: "'f pool_reserves list"
  sn_session :: session_config

record ('m, 'o, 'f) worker_env =
  we_floats :: "'f float_ops"
  we_models :: "optimization_backend_used \<Rightarrow> ('m, 'o, 'f) model_ops"
  we_wgpu :: bool
  we_backend :: optimization_backend_selection
  we_step :: "'f step_config"
  we_show_init :: "'f optimization_init_error \<Rightarrow> string"
  we_show_step :: "'f optimization_step_error \<Rightarrow> string"

fun is_route_gap :: "'f optimization_step_error \<Rightarrow> bool" where
  "is_route_gap OutputAssetNotFound = True"
| "is_route_gap SourceAssetNotFound = True"
| "is_route_gap _ = False"

text \<open>The positions of the loop in \<open>run\<close>: its init path, which may hold a retargeted snapshot, the
  grind over a live session, and the end.\<close>

datatype ('m, 'o, 'f) worker =
  Initializing "'f reserve_snapshot option"
| Grinding "('m, 'o, 'f) optimization_runner" session_config
| Exited

type_synonym ('m, 'o, 'f) worker_pass =
  "'f reserve_snapshot latest_slot lock \<times> ('m, 'o, 'f) worker \<times> 'f client_event list"

text \<open>Returning drops the receiver, which closes the mailbox.\<close>

definition worker_return :: "'f reserve_snapshot latest_slot lock \<Rightarrow> 'f client_event list \<Rightarrow> ('m, 'o, 'f) worker_pass" where
  "worker_return slot events = (slot_close slot, Exited, events)"

text \<open>\<open>events.send\<close> fails when the engine's receiver is gone; a failed report is ignored.\<close>

definition worker_report :: "bool \<Rightarrow> 'f reserve_snapshot latest_slot lock \<Rightarrow> optimize_stage \<Rightarrow> string \<Rightarrow> ('m, 'o, 'f) worker_pass" where
  "worker_report sink_open slot stage message =
     worker_return slot (if sink_open then [EffectFailed (OptimizeError stage message)] else [])"

definition worker_stepped :: "bool \<Rightarrow> 'f reserve_snapshot latest_slot lock \<Rightarrow> session_config \<Rightarrow>
    ('m, 'o, 'f) optimization_runner \<times> 'f optimization_step_result \<times> 'f execution_plan option \<Rightarrow> ('m, 'o, 'f) worker_pass" where
  "worker_stepped sink_open slot session = (\<lambda>(runner, result, plan).
     if sink_open then (slot, Grinding runner session, [OptimizerStepped result plan]) else worker_return slot [])"

definition worker_initialize :: "('m, 'o, 'f) worker_env \<Rightarrow> bool \<Rightarrow> 'f reserve_snapshot latest_slot lock \<Rightarrow>
    'f reserve_snapshot \<Rightarrow> ('m, 'o, 'f) worker_pass" where
  "worker_initialize E sink_open slot snapshot =
     (case runner_init (we_floats E) (we_models E) (we_wgpu E) (we_backend E) (sn_reserves snapshot) (sn_session snapshot) (we_step E) of
        Inr outcome \<Rightarrow> worker_stepped sink_open slot (sn_session snapshot) outcome
      | Inl e \<Rightarrow>
          if (case e of InitStep f \<Rightarrow> is_route_gap f | WgpuUnavailable \<Rightarrow> False)
          then (slot, Initializing None, [])
          else worker_report sink_open slot StageInit (we_show_init E e))"

definition worker_grind :: "('m, 'o, 'f) worker_env \<Rightarrow> bool \<Rightarrow> 'f reserve_snapshot latest_slot lock \<Rightarrow>
    ('m, 'o, 'f) optimization_runner \<Rightarrow> session_config \<Rightarrow> 'f step_update \<Rightarrow> ('m, 'o, 'f) worker_pass" where
  "worker_grind E sink_open slot runner session update =
     (case runner_run (we_floats E) (we_models E) runner update of
        Inr outcome \<Rightarrow> worker_stepped sink_open slot session outcome
      | Inl e \<Rightarrow> worker_report sink_open slot StageRun (we_show_step E e))"

fun worker_step :: "('m, 'o, 'f) worker_env \<Rightarrow> bool \<Rightarrow> 'f reserve_snapshot latest_slot lock \<Rightarrow> ('m, 'o, 'f) worker \<Rightarrow>
    ('m, 'o, 'f) worker_pass option" where
  "worker_step E sink_open slot (Initializing (Some snapshot)) = Some (worker_initialize E sink_open slot snapshot)"
| "worker_step E sink_open slot (Initializing None) =
     (case slot_wait_take slot of
        None \<Rightarrow> None
      | Some (slot, Inl _) \<Rightarrow> Some (worker_return slot [])
      | Some (slot, Inr snapshot) \<Rightarrow> Some (worker_initialize E sink_open slot snapshot))"
| "worker_step E sink_open slot (Grinding runner session) = Some
     (case slot_try_take slot of
        (slot, Inl _) \<Rightarrow> worker_return slot []
      | (slot, Inr None) \<Rightarrow> worker_grind E sink_open slot runner session Continue
      | (slot, Inr (Some snapshot)) \<Rightarrow>
          if \<not> session_config_eq (sn_session snapshot) session then (slot, Initializing (Some snapshot), [])
          else if reserves_reach_route (sn_reserves snapshot) session
          then worker_grind E sink_open slot runner session (NewReserves (sn_reserves snapshot) {})
          else worker_grind E sink_open slot runner session Continue)"
| "worker_step E sink_open slot Exited = None"

section \<open>The command line's worker\<close>

datatype 'f run_optimization_error =
  RunReceive latest_receive_error
| RunInit "'f optimization_init_error"
| RunStep "'f optimization_step_error"

datatype ('m, 'o, 'f) cli_worker =
  CliWaiting
| CliGrinding "('m, 'o, 'f) optimization_runner"
| CliDone "'f run_optimization_error + unit"

type_synonym ('m, 'o, 'f) cli_pass =
  "'f pool_reserves list latest_slot lock \<times> ('m, 'o, 'f) cli_worker \<times>
     ('f optimization_step_result \<times> 'f execution_plan option) list"

definition cli_return :: "'f pool_reserves list latest_slot lock \<Rightarrow> 'f run_optimization_error + unit \<Rightarrow> ('m, 'o, 'f) cli_pass" where
  "cli_return slot result = (slot_close slot, CliDone result, [])"

definition cli_stepped :: "bool \<Rightarrow> 'f pool_reserves list latest_slot lock \<Rightarrow>
    ('m, 'o, 'f) optimization_runner \<times> 'f optimization_step_result \<times> 'f execution_plan option \<Rightarrow> ('m, 'o, 'f) cli_pass" where
  "cli_stepped sink_open slot = (\<lambda>(runner, result, plan).
     if sink_open then (slot, CliGrinding runner, [(result, plan)]) else cli_return slot (Inr ()))"

fun cli_step :: "('m, 'o, 'f) worker_env \<Rightarrow> session_config \<Rightarrow> bool \<Rightarrow> 'f pool_reserves list latest_slot lock \<Rightarrow>
    ('m, 'o, 'f) cli_worker \<Rightarrow> ('m, 'o, 'f) cli_pass option" where
  "cli_step E cfg sink_open slot CliWaiting =
     (case slot_wait_take slot of
        None \<Rightarrow> None
      | Some (slot, Inl e) \<Rightarrow> Some (cli_return slot (Inl (RunReceive e)))
      | Some (slot, Inr reserves) \<Rightarrow> Some
          (case runner_init (we_floats E) (we_models E) (we_wgpu E) (we_backend E) reserves cfg (we_step E) of
             Inr outcome \<Rightarrow> cli_stepped sink_open slot outcome
           | Inl (InitStep OutputAssetNotFound) \<Rightarrow> (slot, CliWaiting, [])
           | Inl e \<Rightarrow> cli_return slot (Inl (RunInit e))))"
| "cli_step E cfg sink_open slot (CliGrinding runner) = Some
     (case slot_try_take slot of
        (slot, Inl e) \<Rightarrow> cli_return slot (Inl (RunReceive e))
      | (slot, Inr taken) \<Rightarrow>
          (let update = (case taken of
                 Some reserves \<Rightarrow> if reserves_reach_route reserves cfg then NewReserves reserves {} else Continue
               | None \<Rightarrow> Continue)
           in case runner_run (we_floats E) (we_models E) runner update of
                Inr outcome \<Rightarrow> cli_stepped sink_open slot outcome
              | Inl e \<Rightarrow> cli_return slot (Inl (RunStep e))))"
| "cli_step E cfg sink_open slot (CliDone result) = None"

end
