(* ===== verification/Tokens.thy ===== *)
theory Tokens
  imports PoolTypes
begin

text \<open>
  The well-known tokens of the supported chains (client-evm tokens.rs): one constant per token. The zero
  address stands for a chain's native currency.
\<close>

definition ETHEREUM_USDC_TOKEN_ADDRESS :: token_address where
  "ETHEREUM_USDC_TOKEN_ADDRESS = TokenAddress 0xa0b86991c6218b36c1d19d4a2e9eb0ce3606eb48 Ethereum"

definition ETHEREUM_USDT_TOKEN_ADDRESS :: token_address where
  "ETHEREUM_USDT_TOKEN_ADDRESS = TokenAddress 0xdac17f958d2ee523a2206206994597c13d831ec7 Ethereum"

definition ETHEREUM_WBTC_TOKEN_ADDRESS :: token_address where
  "ETHEREUM_WBTC_TOKEN_ADDRESS = TokenAddress 0x2260fac5e5542a773aa44fbcfedf7c193bc2c599 Ethereum"

definition ETHEREUM_DAI_TOKEN_ADDRESS :: token_address where
  "ETHEREUM_DAI_TOKEN_ADDRESS = TokenAddress 0x6b175474e89094c44da98b954eedeac495271d0f Ethereum"

definition ETHEREUM_NATIVE_TOKEN_ADDRESS :: token_address where
  "ETHEREUM_NATIVE_TOKEN_ADDRESS = TokenAddress 0 Ethereum"

definition ETHEREUM_WETH_TOKEN_ADDRESS :: token_address where
  "ETHEREUM_WETH_TOKEN_ADDRESS = TokenAddress 0xc02aaa39b223fe8d0a0e5c4f27ead9083c756cc2 Ethereum"

definition ARBITRUM_USDC_TOKEN_ADDRESS :: token_address where
  "ARBITRUM_USDC_TOKEN_ADDRESS = TokenAddress 0xaf88d065e77c8cc2239327c5edb3a432268e5831 Arbitrum"

definition ARBITRUM_USDT_TOKEN_ADDRESS :: token_address where
  "ARBITRUM_USDT_TOKEN_ADDRESS = TokenAddress 0xfd086bc7cd5c481dcc9c85ebe478a1c0b69fcbb9 Arbitrum"

definition ARBITRUM_WBTC_TOKEN_ADDRESS :: token_address where
  "ARBITRUM_WBTC_TOKEN_ADDRESS = TokenAddress 0x2f2a2543b76a4166549f7aab2e75bef0aefc5b0f Arbitrum"

definition ARBITRUM_NATIVE_TOKEN_ADDRESS :: token_address where
  "ARBITRUM_NATIVE_TOKEN_ADDRESS = TokenAddress 0 Arbitrum"

definition ARBITRUM_WETH_TOKEN_ADDRESS :: token_address where
  "ARBITRUM_WETH_TOKEN_ADDRESS = TokenAddress 0x82af49447d8a07e3bd95bd0d56f35241523fbab1 Arbitrum"

definition BASE_USDC_TOKEN_ADDRESS :: token_address where
  "BASE_USDC_TOKEN_ADDRESS = TokenAddress 0x833589fcd6edb6e08f4c7c32d4f71b54bda02913 Base"

definition BASE_CBBTC_TOKEN_ADDRESS :: token_address where
  "BASE_CBBTC_TOKEN_ADDRESS = TokenAddress 0xcbb7c0000ab88b473b1f5afd9ef808440eed33bf Base"

definition BASE_NATIVE_TOKEN_ADDRESS :: token_address where
  "BASE_NATIVE_TOKEN_ADDRESS = TokenAddress 0 Base"

definition BASE_WETH_TOKEN_ADDRESS :: token_address where
  "BASE_WETH_TOKEN_ADDRESS = TokenAddress 0x4200000000000000000000000000000000000006 Base"

definition OPTIMISM_USDC_TOKEN_ADDRESS :: token_address where
  "OPTIMISM_USDC_TOKEN_ADDRESS = TokenAddress 0x0b2c639c533813f4aa9d7837caf62653d097ff85 Optimism"

definition OPTIMISM_USDT_TOKEN_ADDRESS :: token_address where
  "OPTIMISM_USDT_TOKEN_ADDRESS = TokenAddress 0x94b008aa00579c1307b0ef2c499ad98a8ce58e58 Optimism"

definition OPTIMISM_WBTC_TOKEN_ADDRESS :: token_address where
  "OPTIMISM_WBTC_TOKEN_ADDRESS = TokenAddress 0x68f180fcce6836688e9084f035309e29bf0a2095 Optimism"

definition OPTIMISM_DAI_TOKEN_ADDRESS :: token_address where
  "OPTIMISM_DAI_TOKEN_ADDRESS = TokenAddress 0xda10009cbd5d07dd0cecc66161fc93d7c9000da1 Optimism"

definition OPTIMISM_NATIVE_TOKEN_ADDRESS :: token_address where
  "OPTIMISM_NATIVE_TOKEN_ADDRESS = TokenAddress 0 Optimism"

definition OPTIMISM_WETH_TOKEN_ADDRESS :: token_address where
  "OPTIMISM_WETH_TOKEN_ADDRESS = TokenAddress 0x4200000000000000000000000000000000000006 Optimism"

definition POLYGON_USDC_TOKEN_ADDRESS :: token_address where
  "POLYGON_USDC_TOKEN_ADDRESS = TokenAddress 0x3c499c542cef5e3811e1192ce70d8cc03d5c3359 Polygon"

definition POLYGON_USDT_TOKEN_ADDRESS :: token_address where
  "POLYGON_USDT_TOKEN_ADDRESS = TokenAddress 0xc2132d05d31c914a87c6611c10748aeb04b58e8f Polygon"

definition POLYGON_WBTC_TOKEN_ADDRESS :: token_address where
  "POLYGON_WBTC_TOKEN_ADDRESS = TokenAddress 0x1bfd67037b42cf73acf2047067bd4f2c47d9bfd6 Polygon"

definition POLYGON_NATIVE_TOKEN_ADDRESS :: token_address where
  "POLYGON_NATIVE_TOKEN_ADDRESS = TokenAddress 0 Polygon"

definition POLYGON_WETH_TOKEN_ADDRESS :: token_address where
  "POLYGON_WETH_TOKEN_ADDRESS = TokenAddress 0x7ceb23fd6bc0add59e62ac25578270cff1b9f619 Polygon"

definition BNB_USDC_TOKEN_ADDRESS :: token_address where
  "BNB_USDC_TOKEN_ADDRESS = TokenAddress 0x8ac76a51cc950d9822d68b83fe1ad97b32cd580d Bnb"

definition BNB_USDT_TOKEN_ADDRESS :: token_address where
  "BNB_USDT_TOKEN_ADDRESS = TokenAddress 0x55d398326f99059ff775485246999027b3197955 Bnb"

definition BNB_BTCB_TOKEN_ADDRESS :: token_address where
  "BNB_BTCB_TOKEN_ADDRESS = TokenAddress 0x7130d2a12b9bcbfae4f2634d864a1ee1ce3ead9c Bnb"

definition BNB_NATIVE_TOKEN_ADDRESS :: token_address where
  "BNB_NATIVE_TOKEN_ADDRESS = TokenAddress 0 Bnb"

definition BNB_WETH_TOKEN_ADDRESS :: token_address where
  "BNB_WETH_TOKEN_ADDRESS = TokenAddress 0x2170ed0880ac9a755fd29b2688956bd959f933f8 Bnb"

definition AVALANCHE_USDC_TOKEN_ADDRESS :: token_address where
  "AVALANCHE_USDC_TOKEN_ADDRESS = TokenAddress 0xb97ef9ef8734c71904d8002f8b6bc66dd9c48a6e Avalanche"

definition AVALANCHE_USDT_TOKEN_ADDRESS :: token_address where
  "AVALANCHE_USDT_TOKEN_ADDRESS = TokenAddress 0x9702230a8ea53601f5cd2dc00fdbc13d4df4a8c7 Avalanche"

definition AVALANCHE_WBTC_TOKEN_ADDRESS :: token_address where
  "AVALANCHE_WBTC_TOKEN_ADDRESS = TokenAddress 0x50b7545627a5162f82a992c33b87adc75187b218 Avalanche"

definition AVALANCHE_NATIVE_TOKEN_ADDRESS :: token_address where
  "AVALANCHE_NATIVE_TOKEN_ADDRESS = TokenAddress 0 Avalanche"

definition AVALANCHE_WETH_TOKEN_ADDRESS :: token_address where
  "AVALANCHE_WETH_TOKEN_ADDRESS = TokenAddress 0x49d5c2bdffac6ce2bfdb6640f4f80f226bc10bab Avalanche"

lemmas token_constants =
  ETHEREUM_USDC_TOKEN_ADDRESS_def
  ETHEREUM_USDT_TOKEN_ADDRESS_def
  ETHEREUM_WBTC_TOKEN_ADDRESS_def
  ETHEREUM_DAI_TOKEN_ADDRESS_def
  ETHEREUM_NATIVE_TOKEN_ADDRESS_def
  ETHEREUM_WETH_TOKEN_ADDRESS_def
  ARBITRUM_USDC_TOKEN_ADDRESS_def
  ARBITRUM_USDT_TOKEN_ADDRESS_def
  ARBITRUM_WBTC_TOKEN_ADDRESS_def
  ARBITRUM_NATIVE_TOKEN_ADDRESS_def
  ARBITRUM_WETH_TOKEN_ADDRESS_def
  BASE_USDC_TOKEN_ADDRESS_def
  BASE_CBBTC_TOKEN_ADDRESS_def
  BASE_NATIVE_TOKEN_ADDRESS_def
  BASE_WETH_TOKEN_ADDRESS_def
  OPTIMISM_USDC_TOKEN_ADDRESS_def
  OPTIMISM_USDT_TOKEN_ADDRESS_def
  OPTIMISM_WBTC_TOKEN_ADDRESS_def
  OPTIMISM_DAI_TOKEN_ADDRESS_def
  OPTIMISM_NATIVE_TOKEN_ADDRESS_def
  OPTIMISM_WETH_TOKEN_ADDRESS_def
  POLYGON_USDC_TOKEN_ADDRESS_def
  POLYGON_USDT_TOKEN_ADDRESS_def
  POLYGON_WBTC_TOKEN_ADDRESS_def
  POLYGON_NATIVE_TOKEN_ADDRESS_def
  POLYGON_WETH_TOKEN_ADDRESS_def
  BNB_USDC_TOKEN_ADDRESS_def
  BNB_USDT_TOKEN_ADDRESS_def
  BNB_BTCB_TOKEN_ADDRESS_def
  BNB_NATIVE_TOKEN_ADDRESS_def
  BNB_WETH_TOKEN_ADDRESS_def
  AVALANCHE_USDC_TOKEN_ADDRESS_def
  AVALANCHE_USDT_TOKEN_ADDRESS_def
  AVALANCHE_WBTC_TOKEN_ADDRESS_def
  AVALANCHE_NATIVE_TOKEN_ADDRESS_def
  AVALANCHE_WETH_TOKEN_ADDRESS_def

end
