(* ===== verification/CliRuntime.thy ===== *)
theory CliRuntime
  imports ServerRuntime MultiChain OptimizerWorker Tokens
begin

text \<open>
  The runtime adapter of the terminal program (aa-cli app.rs): what executing each effect of the
  multi-chain state feeds back, behind the cache, the two metadata services and the token whitelist; the
  mapping of the live streams; the backoff between reconnections; the configuration of the optimizer's
  session. The services and the database answer by parameters, as for the server; log lines are left out.
\<close>

section \<open>Reconnecting\<close>

text \<open>A duration in nanoseconds; doubling one panics when it exceeds 64 bits of seconds.\<close>

type_synonym duration = nat

definition RECONNECT_BASE :: duration where
  "RECONNECT_BASE = 250 * 10 ^ 6"

definition RECONNECT_CAP :: duration where
  "RECONNECT_CAP = 30 * 10 ^ 9"

definition RECONNECT_STABILITY_WINDOW :: duration where
  "RECONNECT_STABILITY_WINDOW = 10 * 10 ^ 9"

definition duration_double :: "duration \<Rightarrow> duration option" where
  "duration_double d = (if 2 * d < 2 ^ 64 * 10 ^ 9 then Some (2 * d) else None)"

definition next_reconnect_delay :: "duration option \<Rightarrow> duration \<Rightarrow> duration option" where
  "next_reconnect_delay previous ran_for =
     (if ran_for \<ge> RECONNECT_STABILITY_WINDOW then Some RECONNECT_BASE
      else case previous of
        None \<Rightarrow> Some RECONNECT_BASE
      | Some previous \<Rightarrow> map_option (\<lambda>d. min d RECONNECT_CAP) (duration_double previous))"

text \<open>The waits of the loop, given how long each of its attempts ran.\<close>

fun reconnect_loop :: "duration option \<Rightarrow> duration list \<Rightarrow> duration list option" where
  "reconnect_loop previous_delay [] = Some []"
| "reconnect_loop previous_delay (ran_for # rest) =
     (case next_reconnect_delay previous_delay ran_for of
        None \<Rightarrow> None
      | Some delay \<Rightarrow> map_option (Cons delay) (reconnect_loop (Some delay) rest))"

section \<open>Slow transitions\<close>

definition SLOW_TRANSITION_WARN_MILLIS :: u64 where
  "SLOW_TRANSITION_WARN_MILLIS = 25"

definition slow_transition_log :: "u64 \<Rightarrow> string \<Rightarrow> string option" where
  "slow_transition_log elapsed_micros input_line =
     (let millis = elapsed_micros div 1000
      in if millis \<ge> SLOW_TRANSITION_WARN_MILLIS
         then Some (''warn slow_transition ms='' @ show_decimal (unat millis) @ '' '' @ input_line) else None)"

section \<open>Services and state\<close>

record cli_env =
  ce_rpc :: "chain_key \<Rightarrow> rpc_services"
  ce_candidates_window :: "chain_key \<Rightarrow> u64 \<Rightarrow> u64 option \<Rightarrow> client_evm_error + range_log_block list \<times> u64 \<times> u64 option"
  ce_v4_metadata :: "chain_key \<Rightarrow> protocol_pool_key set \<Rightarrow> client_evm_error + (protocol_pool_key, pool_metadata_result) hmap"
  ce_faults :: cache_faults
  ce_json :: json_ops

record 'f client_evm_runtime =
  cr_metadata_cache :: metadata_cache
  cr_optimization_sender :: "'f optimization_pool_reserves latest_slot lock option"

section \<open>Resolution of metadata\<close>

definition cli_pool_metadata :: "token_whitelist option \<Rightarrow> cli_env \<Rightarrow> chain_key \<Rightarrow> block_hash \<Rightarrow> protocol_pool_key set \<Rightarrow>
    metadata_cache \<Rightarrow> metadata_cache \<times> (client_evm_error + (protocol_pool_key, pool_metadata_result) hmap)" where
  "cli_pool_metadata whitelist E chain at candidates db =
     (let (db, outcome) = resolve_pool_metadata_with (ce_json E) (cf_load_pools (ce_faults E)) (cf_store_pools (ce_faults E))
            chain candidates (rp_pool_metadata (ce_rpc E chain) at) (ce_v4_metadata E chain) db
      in (db, case outcome of
            Inl e \<Rightarrow> Inl e
          | Inr results \<Rightarrow>
              Inr (case whitelist of Some w \<Rightarrow> gate_pool_metadata_results w chain results | None \<Rightarrow> results)))"

definition cli_token_metadata :: "cli_env \<Rightarrow> chain_key \<Rightarrow> block_hash \<Rightarrow> token_address set \<Rightarrow>
    metadata_cache \<Rightarrow> metadata_cache \<times> (client_evm_error + (token_address, token_metadata_result) hmap)" where
  "cli_token_metadata E chain at tokens db =
     (let cached = loaded_or_empty (load_token_metadata (ce_json E) (cf_load_tokens (ce_faults E)) db tokens);
          misses = cache_misses tokens cached
      in case rp_token_metadata (ce_rpc E chain) at misses of
           Inl e \<Rightarrow> (db, Inl e)
         | Inr metadata \<Rightarrow>
             (fst (store_token_metadata (ce_json E) (cf_store_tokens (ce_faults E)) metadata db), Inr (with_hits metadata cached)))"

section \<open>Effects of an active chain\<close>

fun execute_chain_effect_with :: "chain_key \<Rightarrow> 's fetchers \<Rightarrow> effect \<Rightarrow> 's \<Rightarrow> 's \<times> 'f multi_event list" where
  "execute_chain_effect_with chain F (Request (BlockHeader request)) db =
     (let request_id = ir_request_id request
      in (db, case ft_block_header F (gbh_block_hash (ir_request_payload request)) of
            Inr (Some header) \<Rightarrow> [ChainEvent chain
              (BlockHeaderReceived request_id (hd_hash header) (hd_parent_hash header) (hd_logs_bloom header) (hd_number header))]
          | Inr None \<Rightarrow> [ChainEvent chain (BlockHeaderNotFound request_id)]
          | Inl e \<Rightarrow> [ChainEvent chain (RequestFailed (BlockHeaderId request_id))]))"
| "execute_chain_effect_with chain F (Request (BlockLogs request)) db =
     (let request_id = ir_request_id request
      in (db, case ft_block_logs F (gbl_block_hash (ir_request_payload request)) of
            Inr logs \<Rightarrow> [ChainEvent chain (BlockLogsReceived request_id logs)]
          | Inl e \<Rightarrow> [ChainEvent chain (RequestFailed (BlockLogsId request_id))]))"
| "execute_chain_effect_with chain F (Request (PoolMetadata request)) db =
     (let request_id = ir_request_id request;
          payload = ir_request_payload request;
          (db, outcome) = ft_pool_metadata F (gpm_at payload) (gpm_candidates payload) db
      in (db, case outcome of
            Inr metadata \<Rightarrow> [ChainEvent chain (PoolMetadataReceived request_id metadata)]
          | Inl e \<Rightarrow> [ChainEvent chain (RequestFailed (PoolMetadataId request_id))]))"
| "execute_chain_effect_with chain F (Request (TokenMetadata request)) db =
     (let request_id = ir_request_id request;
          payload = ir_request_payload request;
          (db, outcome) = ft_token_metadata F (gtm_at payload) (gtm_tokens payload) db
      in (db, case outcome of
            Inr metadata \<Rightarrow> [ChainEvent chain (TokenMetadataReceived request_id metadata)]
          | Inl e \<Rightarrow> [ChainEvent chain (RequestFailed (TokenMetadataId request_id))]))"
| "execute_chain_effect_with chain F (Request (PoolData request)) db =
     (let request_id = ir_request_id request;
          payload = ir_request_payload request
      in (db, case ft_pool_data F (gpd_at payload) (gpd_pools payload) of
            Inr pools \<Rightarrow> [ChainEvent chain (PoolDataReceived request_id pools)]
          | Inl e \<Rightarrow> [ChainEvent chain (RequestFailed (PoolDataId request_id))]))"
| "execute_chain_effect_with chain F (Request (LogsRange request)) db =
     (let request_id = ir_request_id request;
          payload = ir_request_payload request
      in (db, case ft_logs_range F (glr_from payload) (glr_to payload) of
            Inr blocks \<Rightarrow> [ChainEvent chain (BlockLogsRangeReceived request_id (map (\<lambda>b. (rb_hash b, rb_logs b)) blocks))]
          | Inl e \<Rightarrow> [ChainEvent chain (RequestFailed (LogsRangeId request_id))]))"
| "execute_chain_effect_with chain F (Request (CanonicalHeader request)) db =
     (let request_id = ir_request_id request
      in (db, case ft_canonical_header F (gch_number (ir_request_payload request)) of
            Inr (Some header) \<Rightarrow>
              [ChainEvent chain (CanonicalHeaderAtHeightReceived request_id (hd_hash header) (hd_number header))]
          | Inr None \<Rightarrow> [ChainEvent chain (RequestFailed (CanonicalHeaderId request_id))]
          | Inl e \<Rightarrow> [ChainEvent chain (RequestFailed (CanonicalHeaderId request_id))]))"

definition cli_fetchers :: "token_whitelist option \<Rightarrow> cli_env \<Rightarrow> chain_key \<Rightarrow> metadata_cache fetchers" where
  "cli_fetchers whitelist E chain =
     \<lparr>ft_block_header = rp_block_header (ce_rpc E chain),
      ft_block_logs = rp_block_logs (ce_rpc E chain),
      ft_pool_metadata = cli_pool_metadata whitelist E chain,
      ft_token_metadata = cli_token_metadata E chain,
      ft_pool_data = rp_pool_data (ce_rpc E chain),
      ft_logs_range = rp_logs_range (ce_rpc E chain),
      ft_canonical_header = rp_canonical_header (ce_rpc E chain)\<rparr>"

definition execute_chain_effect :: "token_whitelist option \<Rightarrow> cli_env \<Rightarrow> chain_key \<Rightarrow> effect \<Rightarrow>
    metadata_cache \<Rightarrow> metadata_cache \<times> 'f multi_event list" where
  "execute_chain_effect whitelist E chain = execute_chain_effect_with chain (cli_fetchers whitelist E chain)"

section \<open>Effects of a loading chain\<close>

text \<open>The candidates of a bootstrap are widened by every pool that the cache knows.\<close>

definition widened_candidates :: "cli_env \<Rightarrow> chain_key \<Rightarrow> metadata_cache \<Rightarrow> protocol_pool_key set \<Rightarrow> protocol_pool_key set" where
  "widened_candidates E chain db candidates =
     (case load_pool_candidates (cf_candidates (ce_faults E)) db chain of
        Inr known \<Rightarrow> candidates \<union> known
      | Inl _ \<Rightarrow> candidates)"

fun bootstrap_answer :: "token_whitelist option \<Rightarrow> cli_env \<Rightarrow> chain_key \<Rightarrow> boot_issued \<Rightarrow>
    metadata_cache \<Rightarrow> metadata_cache \<times> boot_event" where
  "bootstrap_answer whitelist E chain (BootFinalizedHeader request) db =
     (let request_id = ir_request_id request
      in (db, case rp_finalized_header (ce_rpc E chain) of
            Inr (Some header) \<Rightarrow> BootHeaderReceived request_id \<lparr>fa_hash = hd_hash header, fa_number = hd_number header\<rparr>
          | Inr None \<Rightarrow> BootRequestFailed (BootFinalizedHeaderId request_id)
          | Inl e \<Rightarrow> BootRequestFailed (BootFinalizedHeaderId request_id)))"
| "bootstrap_answer whitelist E chain (BootPoolCandidates request) db =
     (let request_id = ir_request_id request;
          payload = ir_request_payload request
      in (db, case ce_candidates_window E chain (gpc_from_block payload) (gpc_scan_tip payload) of
            Inr (blocks, scan_tip, next_from) \<Rightarrow> BootCandidatesReceived request_id blocks scan_tip next_from
          | Inl e \<Rightarrow> BootRequestFailed (BootPoolCandidatesId request_id)))"
| "bootstrap_answer whitelist E chain (BootPoolMetadata request) db =
     (let request_id = ir_request_id request;
          payload = ir_request_payload request;
          candidates = widened_candidates E chain db (gpm_candidates payload);
          (db, outcome) = cli_pool_metadata whitelist E chain (gpm_at payload) candidates db
      in (db, case outcome of
            Inr metadata \<Rightarrow> BootPoolsReceived request_id metadata
          | Inl e \<Rightarrow> BootRequestFailed (BootPoolMetadataId request_id)))"
| "bootstrap_answer whitelist E chain (BootTokenMetadata request) db =
     (let request_id = ir_request_id request;
          payload = ir_request_payload request;
          (db, outcome) = cli_token_metadata E chain (gtm_at payload) (gtm_tokens payload) db
      in (db, case outcome of
            Inr metadata \<Rightarrow> BootTokensReceived request_id metadata
          | Inl e \<Rightarrow> BootRequestFailed (BootTokenMetadataId request_id)))"

definition execute_bootstrap_effect :: "token_whitelist option \<Rightarrow> cli_env \<Rightarrow> chain_key \<Rightarrow> boot_issued \<Rightarrow>
    metadata_cache \<Rightarrow> metadata_cache \<times> 'f multi_event list" where
  "execute_bootstrap_effect whitelist E chain request db =
     (let (db, e) = bootstrap_answer whitelist E chain request db in (db, [BootstrapEvent chain e]))"

section \<open>Every effect\<close>

definition send_optimization_input :: "'f optimization_pool_reserves \<Rightarrow> 'f optimization_pool_reserves latest_slot lock option \<Rightarrow>
    'f optimization_pool_reserves latest_slot lock option" where
  "send_optimization_input input sender =
     (if or_reserves input = [] then sender
      else case sender of
        Some slot \<Rightarrow> Some (fst (slot_send slot input))
      | None \<Rightarrow> None)"

fun cli_execute_effect :: "token_whitelist option \<Rightarrow> cli_env \<Rightarrow> 'f multi_effect \<Rightarrow> 'f client_evm_runtime \<Rightarrow>
    'f client_evm_runtime \<times> 'f multi_event list" where
  "cli_execute_effect whitelist E (FetchFinalizedHeaderOf chain) runtime =
     (runtime, case rp_finalized_header (ce_rpc E chain) of
        Inr (Some header) \<Rightarrow> [FinalizedHeaderReceived chain (hd_hash header) (hd_number header)]
      | Inr None \<Rightarrow> [FinalizedHeaderUnavailable chain]
      | Inl e \<Rightarrow> [FinalizedHeaderUnavailable chain])"
| "cli_execute_effect whitelist E (ChainEffect chain effect) runtime =
     (let (db, events) = execute_chain_effect whitelist E chain effect (cr_metadata_cache runtime)
      in (runtime\<lparr>cr_metadata_cache := db\<rparr>, events))"
| "cli_execute_effect whitelist E (BootstrapEffect chain request) runtime =
     (let (db, events) = execute_bootstrap_effect whitelist E chain request (cr_metadata_cache runtime)
      in (runtime\<lparr>cr_metadata_cache := db\<rparr>, events))"
| "cli_execute_effect whitelist E (RunOptimization input) runtime =
     (runtime\<lparr>cr_optimization_sender := send_optimization_input input (cr_optimization_sender runtime)\<rparr>, [])"

section \<open>Subscriptions\<close>

datatype cli_subscription =
  NewHeadsSubscription chain_key
| PoolEventsSubscription chain_key
| TickSubscription duration
| OptimizationSubscription

definition cli_subscriptions :: "cli_subscription list" where
  "cli_subscriptions =
     concat (map (\<lambda>chain. [NewHeadsSubscription chain, PoolEventsSubscription chain]) ACTIVE_CHAINS) @
     [TickSubscription (1000 * 10 ^ 6), OptimizationSubscription]"

fun map_new_head_data :: "stream_event \<Rightarrow> subscription_data option" where
  "map_new_head_data (NewHeadStreamed subscription header) =
     Some (NewHead (hd_hash header) (hd_parent_hash header) (hd_logs_bloom header) (hd_number header))"
| "map_new_head_data (PoolLogStreamed subscription h log) = None"
| "map_new_head_data (Subscribed subscription) = None"
| "map_new_head_data (Closed subscription) = None"

fun map_pool_log_data :: "stream_event \<Rightarrow> (block_hash \<times> pool_log) option" where
  "map_pool_log_data (PoolLogStreamed subscription h log) = Some (h, log)"
| "map_pool_log_data (NewHeadStreamed subscription header) = None"
| "map_pool_log_data (Subscribed subscription) = None"
| "map_pool_log_data (Closed subscription) = None"

text \<open>The optimizer's thread is started once: a second start leaves the first mailbox.\<close>

definition spawn_optimization :: "'f client_evm_runtime \<Rightarrow> 'f client_evm_runtime" where
  "spawn_optimization runtime =
     (case cr_optimization_sender runtime of
        None \<Rightarrow> runtime\<lparr>cr_optimization_sender := Some latest_slot_new\<rparr>
      | Some _ \<Rightarrow> runtime)"

definition chain_ws_endpoints :: "chain_subscriptions \<Rightarrow> chain_key \<Rightarrow> ws_subscription_endpoint list" where
  "chain_ws_endpoints ws chain = filter (\<lambda>endpoint. ws_chain endpoint = chain) (plan_ws_subscriptions ws)"

section \<open>The optimizer's session\<close>

text \<open>Synthetic 1:1 connections: hubs of the same asset on other chains, and wrapping of native ether.\<close>

definition default_optimization_bridges :: "(token_address \<times> token_address) list" where
  "default_optimization_bridges =
    [(ETHEREUM_USDC_TOKEN_ADDRESS, ARBITRUM_USDC_TOKEN_ADDRESS),
     (ARBITRUM_USDC_TOKEN_ADDRESS, ETHEREUM_USDC_TOKEN_ADDRESS),
     (ETHEREUM_USDC_TOKEN_ADDRESS, BASE_USDC_TOKEN_ADDRESS),
     (BASE_USDC_TOKEN_ADDRESS, ETHEREUM_USDC_TOKEN_ADDRESS),
     (ETHEREUM_USDC_TOKEN_ADDRESS, OPTIMISM_USDC_TOKEN_ADDRESS),
     (OPTIMISM_USDC_TOKEN_ADDRESS, ETHEREUM_USDC_TOKEN_ADDRESS),
     (ETHEREUM_USDC_TOKEN_ADDRESS, POLYGON_USDC_TOKEN_ADDRESS),
     (POLYGON_USDC_TOKEN_ADDRESS, ETHEREUM_USDC_TOKEN_ADDRESS),
     (ETHEREUM_USDC_TOKEN_ADDRESS, BNB_USDC_TOKEN_ADDRESS),
     (BNB_USDC_TOKEN_ADDRESS, ETHEREUM_USDC_TOKEN_ADDRESS),
     (ETHEREUM_USDC_TOKEN_ADDRESS, AVALANCHE_USDC_TOKEN_ADDRESS),
     (AVALANCHE_USDC_TOKEN_ADDRESS, ETHEREUM_USDC_TOKEN_ADDRESS),
     (ETHEREUM_USDT_TOKEN_ADDRESS, ARBITRUM_USDT_TOKEN_ADDRESS),
     (ARBITRUM_USDT_TOKEN_ADDRESS, ETHEREUM_USDT_TOKEN_ADDRESS),
     (ETHEREUM_USDT_TOKEN_ADDRESS, OPTIMISM_USDT_TOKEN_ADDRESS),
     (OPTIMISM_USDT_TOKEN_ADDRESS, ETHEREUM_USDT_TOKEN_ADDRESS),
     (ETHEREUM_USDT_TOKEN_ADDRESS, POLYGON_USDT_TOKEN_ADDRESS),
     (POLYGON_USDT_TOKEN_ADDRESS, ETHEREUM_USDT_TOKEN_ADDRESS),
     (ETHEREUM_USDT_TOKEN_ADDRESS, BNB_USDT_TOKEN_ADDRESS),
     (BNB_USDT_TOKEN_ADDRESS, ETHEREUM_USDT_TOKEN_ADDRESS),
     (ETHEREUM_USDT_TOKEN_ADDRESS, AVALANCHE_USDT_TOKEN_ADDRESS),
     (AVALANCHE_USDT_TOKEN_ADDRESS, ETHEREUM_USDT_TOKEN_ADDRESS),
     (ETHEREUM_WBTC_TOKEN_ADDRESS, ARBITRUM_WBTC_TOKEN_ADDRESS),
     (ARBITRUM_WBTC_TOKEN_ADDRESS, ETHEREUM_WBTC_TOKEN_ADDRESS),
     (ETHEREUM_WBTC_TOKEN_ADDRESS, BASE_CBBTC_TOKEN_ADDRESS),
     (BASE_CBBTC_TOKEN_ADDRESS, ETHEREUM_WBTC_TOKEN_ADDRESS),
     (ETHEREUM_WBTC_TOKEN_ADDRESS, OPTIMISM_WBTC_TOKEN_ADDRESS),
     (OPTIMISM_WBTC_TOKEN_ADDRESS, ETHEREUM_WBTC_TOKEN_ADDRESS),
     (ETHEREUM_WBTC_TOKEN_ADDRESS, POLYGON_WBTC_TOKEN_ADDRESS),
     (POLYGON_WBTC_TOKEN_ADDRESS, ETHEREUM_WBTC_TOKEN_ADDRESS),
     (ETHEREUM_WBTC_TOKEN_ADDRESS, BNB_BTCB_TOKEN_ADDRESS),
     (BNB_BTCB_TOKEN_ADDRESS, ETHEREUM_WBTC_TOKEN_ADDRESS),
     (ETHEREUM_WBTC_TOKEN_ADDRESS, AVALANCHE_WBTC_TOKEN_ADDRESS),
     (AVALANCHE_WBTC_TOKEN_ADDRESS, ETHEREUM_WBTC_TOKEN_ADDRESS),
     (ETHEREUM_WETH_TOKEN_ADDRESS, ARBITRUM_WETH_TOKEN_ADDRESS),
     (ARBITRUM_WETH_TOKEN_ADDRESS, ETHEREUM_WETH_TOKEN_ADDRESS),
     (ETHEREUM_WETH_TOKEN_ADDRESS, BASE_WETH_TOKEN_ADDRESS),
     (BASE_WETH_TOKEN_ADDRESS, ETHEREUM_WETH_TOKEN_ADDRESS),
     (ETHEREUM_WETH_TOKEN_ADDRESS, OPTIMISM_WETH_TOKEN_ADDRESS),
     (OPTIMISM_WETH_TOKEN_ADDRESS, ETHEREUM_WETH_TOKEN_ADDRESS),
     (ETHEREUM_WETH_TOKEN_ADDRESS, POLYGON_WETH_TOKEN_ADDRESS),
     (POLYGON_WETH_TOKEN_ADDRESS, ETHEREUM_WETH_TOKEN_ADDRESS),
     (ETHEREUM_WETH_TOKEN_ADDRESS, BNB_WETH_TOKEN_ADDRESS),
     (BNB_WETH_TOKEN_ADDRESS, ETHEREUM_WETH_TOKEN_ADDRESS),
     (ETHEREUM_WETH_TOKEN_ADDRESS, AVALANCHE_WETH_TOKEN_ADDRESS),
     (AVALANCHE_WETH_TOKEN_ADDRESS, ETHEREUM_WETH_TOKEN_ADDRESS),
     (ETHEREUM_DAI_TOKEN_ADDRESS, OPTIMISM_DAI_TOKEN_ADDRESS),
     (OPTIMISM_DAI_TOKEN_ADDRESS, ETHEREUM_DAI_TOKEN_ADDRESS),
     (ETHEREUM_NATIVE_TOKEN_ADDRESS, ETHEREUM_WETH_TOKEN_ADDRESS),
     (ETHEREUM_WETH_TOKEN_ADDRESS, ETHEREUM_NATIVE_TOKEN_ADDRESS),
     (ARBITRUM_NATIVE_TOKEN_ADDRESS, ARBITRUM_WETH_TOKEN_ADDRESS),
     (ARBITRUM_WETH_TOKEN_ADDRESS, ARBITRUM_NATIVE_TOKEN_ADDRESS),
     (BASE_NATIVE_TOKEN_ADDRESS, BASE_WETH_TOKEN_ADDRESS),
     (BASE_WETH_TOKEN_ADDRESS, BASE_NATIVE_TOKEN_ADDRESS),
     (OPTIMISM_NATIVE_TOKEN_ADDRESS, OPTIMISM_WETH_TOKEN_ADDRESS),
     (OPTIMISM_WETH_TOKEN_ADDRESS, OPTIMISM_NATIVE_TOKEN_ADDRESS)]"

datatype cli_error = InitAssetNotWhitelisted token_address

definition optimization_session_config :: "token_whitelist option \<Rightarrow>
    cli_error + session_config \<times> (token_address \<times> token_address) list" where
  "optimization_session_config whitelist =
     (let bridges = default_optimization_bridges
      in case whitelist of
           None \<Rightarrow>
             Inr (\<lparr>sc_source_asset = ETHEREUM_USDC_TOKEN_ADDRESS, sc_output_asset = ETHEREUM_USDC_TOKEN_ADDRESS,
                   sc_bridges = bridges, sc_whitelist = None\<rparr>, [])
         | Some w \<Rightarrow>
             if \<not> allows w ETHEREUM_USDC_TOKEN_ADDRESS
             then Inl (InitAssetNotWhitelisted ETHEREUM_USDC_TOKEN_ADDRESS)
             else (let kept = filter (\<lambda>(a, b). allows w a \<and> allows w b) bridges;
                       dropped = filter (\<lambda>(a, b). \<not> (allows w a \<and> allows w b)) bridges
                   in Inr (\<lparr>sc_source_asset = ETHEREUM_USDC_TOKEN_ADDRESS, sc_output_asset = ETHEREUM_USDC_TOKEN_ADDRESS,
                            sc_bridges = kept, sc_whitelist = Some w\<rparr>, dropped)))"

text \<open>The amount and the iterations of a step; the amount is a float and a parameter.\<close>

definition default_optimization_step_config :: "'f \<Rightarrow> 'f step_config" where
  "default_optimization_step_config thousand = \<lparr>st_input_amount = thousand, st_iterations = 10\<rparr>"

end
