(* ===== verification/EntryLedger.thy ===== *)
theory EntryLedger
  imports RequestTracking
begin

text \<open>
  A ledger of requests entry by entry, as pairs of a key and a payload: the locale of one collection of
  a ledger that holds several, and what taking, issuing and retrying a request do to the entries of the
  whole. No bound on the ids is assumed.
\<close>

definition coll_entries :: "(request_id \<Rightarrow> 'k) \<Rightarrow> ('r \<Rightarrow> 'p) \<Rightarrow> 'r request_collection \<Rightarrow> ('k \<times> 'p) set" where
  "coll_entries name payload c = (\<lambda>(i, q). (name i, payload (pp_payload q))) ` set c"

lemma coll_entries_insert: "coll_entries f g (coll_insert i p t c) \<subseteq> insert (f i, g p) (coll_entries f g c)"
proof -
  have "set (AList.update i v c) \<subseteq> insert (i, v) (set c)" for v
    by (induction c) auto
  from this [of "\<lparr>pp_payload = p, pp_dispatched_at = t\<rparr>"] show ?thesis
    by (force simp: coll_entries_def coll_insert_def)
qed

lemma set_delete: "set (AList.delete i c) = {e \<in> set c. fst e \<noteq> i}"
  by (auto simp: AList.delete_eq)

lemma coll_entries_delete: "inj f \<Longrightarrow> coll_entries f g (AList.delete i c) = {e \<in> coll_entries f g c. fst e \<noteq> f i}"
  by (force simp: coll_entries_def set_delete dest: injD)

lemma coll_entries_retain: "coll_entries f g (coll_retain keep c) \<subseteq> coll_entries f g c"
  by (auto simp: coll_entries_def coll_retain_def)

locale entry_ledger = request_store A
  for A :: "('s, 'r) store_access" +
  fixes entries :: "'s \<Rightarrow> ('k \<times> 'p) set"
    and name :: "request_id \<Rightarrow> 'k"
    and payload :: "'r \<Rightarrow> 'p"
    and wrap :: "'r issued_request \<Rightarrow> 'i"
    and entry_of :: "'i \<Rightarrow> 'k \<times> 'p"
  assumes inj_name: "inj name"
    and entries_ids: "entries (sa_set_ids A n s) = entries s"
    and entries_coll: "entries (sa_set_coll A c s) = {e \<in> entries s. fst e \<notin> range name} \<union> coll_entries name payload c"
    and entries_own: "coll_entries name payload (sa_coll A s) = {e \<in> entries s. fst e \<in> range name}"
    and entry_wrap: "entry_of (wrap r) = (name (ir_request_id r), payload (ir_request_payload r))"
begin

lemma taken_entries: "entries (fst (take_request A s i)) = {e \<in> entries s. fst e \<noteq> name i}"
  unfolding take_request_def coll_remove_def split_beta Let_def fst_conv entries_coll
    coll_entries_delete [OF inj_name] entries_own by auto

lemma issued_entry:
  "entry_of (wrap \<lparr>ir_request_id = snd (issue_request A s p t), ir_request_payload = p\<rparr>) =
     (name (snd (issue_request A s p t)), payload p)"
  by (simp add: entry_wrap)

lemma issued_entries:
  "entries (fst (issue_request A s p t)) \<subseteq> insert (name (snd (issue_request A s p t)), payload p) (entries s)"
proof -
  have eq: "fst (issue_request A s p t) =
      sa_set_coll A (coll_insert (sa_ids A s + 1) p t (sa_coll A s)) (sa_set_ids A (sa_ids A s + 1) s)"
    by (simp add: issue_request_def ids_issue_def raw_id_next_def Let_def coll_set_ids)
  then show ?thesis
    using coll_entries_insert [of name payload "sa_ids A s + 1" p t "sa_coll A s"]
    unfolding eq issue_id entries_coll entries_ids entries_own by auto
qed

lemma retried_entries:
  "entries (fst (retry_request A s i t)) \<subseteq> {e \<in> entries s. fst e \<noteq> name i} \<union>
     (case snd (retry_request A s i t) of None \<Rightarrow> {} | Some r \<Rightarrow> {entry_of (wrap r)})"
proof (cases "map_of (sa_coll A s) i")
  case None
  then have "name i \<notin> fst ` coll_entries name payload (sa_coll A s)"
    by (force simp: coll_entries_def map_of_eq_None_iff dest: injD [OF inj_name])
  then have "entries s \<subseteq> {e \<in> entries s. fst e \<noteq> name i}"
    unfolding entries_own by (auto simp: image_iff)
  with None show ?thesis by (auto simp: retry_None)
next
  case (Some q)
  obtain s' where s': "take_request A s i = (s', Some q)"
    using take_result [of s i] Some by (metis prod.collapse)
  then have taken: "entries s' = {e \<in> entries s. fst e \<noteq> name i}"
    using taken_entries [of s i] by simp
  show ?thesis
    using issued_entries [of s' "pp_payload q" t]
    by (auto simp: retry_request_def s' taken split_beta Let_def entry_wrap)
qed

end

end
