(* ===== verification/LedgerEntries.thy ===== *)
theory LedgerEntries
  imports KernelLaws EntryLedger
begin

text \<open>
  The ledger of the kernel entry by entry: a transition drops the entry its event answers and emits the
  request of every entry it adds.
\<close>

section \<open>The entries of a ledger\<close>

definition ledger_entries :: "pending_requests \<Rightarrow> (any_request_id \<times> any_payload) set" where
  "ledger_entries s =
     coll_entries BlockHeaderId BlockHeaderP (rq_block_headers s) \<union> coll_entries BlockLogsId BlockLogsP (rq_block_logs s) \<union>
     coll_entries PoolMetadataId PoolMetadataP (rq_pool_metadata s) \<union>
     coll_entries TokenMetadataId TokenMetadataP (rq_token_metadata s) \<union>
     coll_entries PoolDataId PoolDataP (rq_pool_data s) \<union> coll_entries LogsRangeId LogsRangeP (rq_logs_range s) \<union>
     coll_entries CanonicalHeaderId CanonicalHeaderP (rq_canonical_header s)"

fun request_key :: "any_issued_request \<Rightarrow> any_request_id" where
  "request_key (BlockHeader r) = BlockHeaderId (ir_request_id r)"
| "request_key (BlockLogs r) = BlockLogsId (ir_request_id r)"
| "request_key (PoolMetadata r) = PoolMetadataId (ir_request_id r)"
| "request_key (TokenMetadata r) = TokenMetadataId (ir_request_id r)"
| "request_key (PoolData r) = PoolDataId (ir_request_id r)"
| "request_key (LogsRange r) = LogsRangeId (ir_request_id r)"
| "request_key (CanonicalHeader r) = CanonicalHeaderId (ir_request_id r)"

definition request_entry :: "any_issued_request \<Rightarrow> any_request_id \<times> any_payload" where
  "request_entry r = (request_key r, issued_payload r)"

text \<open>The seven collections share the laws of a ledger's collection, and the emission of a request's effect.\<close>

locale entry_store = entry_ledger A ledger_entries name payload wrap entry_of
  for A :: "(pending_requests, 'r) store_access" and name payload wrap
    and entry_of :: "any_issued_request \<Rightarrow> any_request_id \<times> any_payload"
begin

lemma issue_effect_entries:
  "\<exists>e. snd (issue_effect A wrap t p x) = snd x @ [e] \<and>
     ledger_entries (fst (issue_effect A wrap t p x)) \<subseteq> insert (entry_of (effect_request e)) (ledger_entries (fst x))"
  using issued_entries [of "fst x" p t] by (simp add: issue_effect_def split_beta Let_def entry_wrap)

lemma retry_entries:
  "ledger_entries (fst (retry_typed A wrap s i t)) \<subseteq> {e \<in> ledger_entries s. fst e \<noteq> name i} \<union>
     (case snd (retry_typed A wrap s i t) of None \<Rightarrow> {} | Some r \<Rightarrow> {entry_of r})"
  using retried_entries [of s i t] by (auto simp: retry_typed_def split_beta Let_def split: option.splits)

end

interpretation block_header_entries: entry_store block_headers_access BlockHeaderId BlockHeaderP BlockHeader request_entry
  by unfold_locales (auto simp: access_defs ledger_entries_def coll_entries_def request_entry_def inj_def)

interpretation block_log_entries: entry_store block_logs_access BlockLogsId BlockLogsP BlockLogs request_entry
  by unfold_locales (auto simp: access_defs ledger_entries_def coll_entries_def request_entry_def inj_def)

interpretation pool_metadata_entries: entry_store pool_metadata_access PoolMetadataId PoolMetadataP PoolMetadata request_entry
  by unfold_locales (auto simp: access_defs ledger_entries_def coll_entries_def request_entry_def inj_def)

interpretation token_metadata_entries: entry_store token_metadata_access TokenMetadataId TokenMetadataP TokenMetadata request_entry
  by unfold_locales (auto simp: access_defs ledger_entries_def coll_entries_def request_entry_def inj_def)

interpretation pool_data_entries: entry_store pool_data_access PoolDataId PoolDataP PoolData request_entry
  by unfold_locales (auto simp: access_defs ledger_entries_def coll_entries_def request_entry_def inj_def)

interpretation logs_range_entries: entry_store logs_range_access LogsRangeId LogsRangeP LogsRange request_entry
  by unfold_locales (auto simp: access_defs ledger_entries_def coll_entries_def request_entry_def inj_def)

interpretation canonical_header_entries: entry_store canonical_header_access CanonicalHeaderId CanonicalHeaderP CanonicalHeader request_entry
  by unfold_locales (auto simp: access_defs ledger_entries_def coll_entries_def request_entry_def inj_def)

lemmas take_entries_all = block_header_entries.taken_entries
  block_log_entries.taken_entries
  pool_metadata_entries.taken_entries
  token_metadata_entries.taken_entries
  pool_data_entries.taken_entries
  logs_range_entries.taken_entries
  canonical_header_entries.taken_entries

lemmas issue_effect_entries_all = block_header_entries.issue_effect_entries
  block_log_entries.issue_effect_entries
  pool_metadata_entries.issue_effect_entries
  token_metadata_entries.issue_effect_entries
  pool_data_entries.issue_effect_entries
  logs_range_entries.issue_effect_entries
  canonical_header_entries.issue_effect_entries

lemmas retry_entries_all = block_header_entries.retry_entries
  block_log_entries.retry_entries
  pool_metadata_entries.retry_entries
  token_metadata_entries.retry_entries
  pool_data_entries.retry_entries
  logs_range_entries.retry_entries
  canonical_header_entries.retry_entries

section \<open>Every entry has its effect\<close>

text \<open>
  What an operation may do to the entries: keep some and add some, and each added one is the request of
  an effect it emits.
\<close>

definition entry_of :: "effect \<Rightarrow> any_request_id \<times> any_payload" where
  "entry_of e = request_entry (effect_request e)"

definition spawns :: "pending_requests \<times> effect list \<Rightarrow> pending_requests \<times> effect list \<Rightarrow> bool" where
  "spawns x y \<longleftrightarrow> set (snd x) \<subseteq> set (snd y) \<and> ledger_entries (fst y) \<subseteq> ledger_entries (fst x) \<union> entry_of ` set (snd y)"

lemma spawns_trans: "spawns x y \<Longrightarrow> spawns y z \<Longrightarrow> spawns x z"
  unfolding spawns_def by blast

lemma issue_step_spawns: "issue_step x y \<Longrightarrow> spawns x y"
proof -
  assume "issue_step x y"
  then have "\<exists>e. snd y = snd x @ [e] \<and>
      ledger_entries (fst y) \<subseteq> insert (request_entry (effect_request e)) (ledger_entries (fst x))"
    by (induction rule: issue_step.induct) (rule issue_effect_entries_all)+
  then show ?thesis by (auto simp: spawns_def entry_of_def)
qed

lemma issues_spawns: "issues x y \<Longrightarrow> spawns x y"
proof (induction rule: issues.induct)
  case (issues_step x y z)
  then show ?case using issue_step_spawns spawns_trans by blast
qed (simp add: spawns_def)

lemma only_issues_spawns:
  "only_issues f \<Longrightarrow> spawns (ks_pending_requests s, es) (ks_pending_requests (fst (f (s, es))), snd (f (s, es)))"
  using only_issuesD [of f s es] by (auto dest: issues_spawns)

lemma retry_spawns:
  "ledger_entries (fst (retry s i t)) \<subseteq> {e \<in> ledger_entries s. fst e \<noteq> i} \<union>
     (case snd (retry s i t) of None \<Rightarrow> {} | Some r \<Rightarrow> {entry_of (Request r)})"
  unfolding entry_of_def effect_request.simps
  by (cases i; simp only: retry.simps) (rule retry_entries_all)+

lemma retry_loop_spawns:
  "ledger_entries (fst (retry_loop is t (s, es))) \<subseteq> ledger_entries s \<union> (entry_of \<circ> Request) ` set (snd (retry_loop is t (s, es)))
   \<and> set es \<subseteq> set (snd (retry_loop is t (s, es)))"
proof (induction "is" arbitrary: s es)
  case (Cons i js)
  let ?s = "fst (retry s i t)" and ?es = "es @ (case snd (retry s i t) of None \<Rightarrow> [] | Some r \<Rightarrow> [r])"
  have step: "retry_loop (i # js) t (s, es) = retry_loop js t (?s, ?es)"
    by (simp add: retry_loop_def split_beta Let_def)
  have "ledger_entries ?s \<subseteq> ledger_entries s \<union> (entry_of \<circ> Request) ` set ?es"
    using retry_spawns [of s i t] by (auto split: option.splits)
  with Cons.IH [of ?s ?es] show ?case unfolding step by (auto split: option.splits)
qed (simp add: retry_loop_def)

lemma retained_entries: "ledger_entries (retaining_block_targets s hs) \<subseteq> ledger_entries s"
  unfolding ledger_entries_def retaining_block_targets_def
  by (auto dest: subsetD [OF coll_entries_retain])

text \<open>The request an event answers.\<close>

fun answered_key :: "event \<Rightarrow> any_request_id option" where
  "answered_key (BlockHeaderReceived i h p b n) = Some (BlockHeaderId i)"
| "answered_key (BlockHeaderNotFound i) = Some (BlockHeaderId i)"
| "answered_key (CanonicalHeaderAtHeightReceived i h n) = Some (CanonicalHeaderId i)"
| "answered_key (BlockLogsReceived i logs) = Some (BlockLogsId i)"
| "answered_key (BlockLogsRangeReceived i blocks) = Some (LogsRangeId i)"
| "answered_key (PoolMetadataReceived i m) = Some (PoolMetadataId i)"
| "answered_key (TokenMetadataReceived i m) = Some (TokenMetadataId i)"
| "answered_key (PoolDataReceived i m) = Some (PoolDataId i)"
| "answered_key (RequestFailed i) = Some i"
| "answered_key _ = None"

definition unanswered :: "event \<Rightarrow> pending_requests \<Rightarrow> (any_request_id \<times> any_payload) set" where
  "unanswered e r = {x \<in> ledger_entries r. answered_key e \<noteq> Some (fst x)}"

lemma schedule_entries:
  assumes "only_issues f" "ledger_entries (ks_pending_requests s) \<subseteq> X"
  shows "ledger_entries (ks_pending_requests (fst (f (s, [])))) \<subseteq> X \<union> entry_of ` set (snd (f (s, [])))"
  using only_issues_spawns [OF assms(1), of s "[]"] assms(2) by (auto simp: spawns_def)

lemma answer_entries:
  assumes "ledger_entries (fst (take_request A (ks_pending_requests s) i)) \<subseteq> X"
    and "\<And>p s. ks_pending_requests (respond p s) = ks_pending_requests s"
  shows "ledger_entries (ks_pending_requests (fst (answer B chain A s i respond))) \<subseteq>
    X \<union> entry_of ` set (snd (answer B chain A s i respond))"
proof (cases "snd (take_request A (ks_pending_requests s) i)")
  case None
  then show ?thesis using assms(1) by (auto simp: answer_def split_beta Let_def)
next
  case (Some p)
  let ?s = "respond (pp_payload p) (s\<lparr>ks_pending_requests := fst (take_request A (ks_pending_requests s) i)\<rparr>)"
  have eq: "answer B chain A s i respond = schedule_unknown_canonical_requests B chain (?s, [])"
    using Some by (simp add: answer_def split_beta Let_def)
  have "ledger_entries (ks_pending_requests ?s) \<subseteq> X" using assms by simp
  from schedule_entries [OF only_issues_schedule this] show ?thesis unfolding eq .
qed

lemma activate_entries:
  "ledger_entries (ks_pending_requests (fst (activate_from_seed h n sn ps ts bs))) \<subseteq>
     entry_of ` set (snd (activate_from_seed h n sn ps ts bs))"
  using issues_spawns [OF activate_issues [of h n sn ps ts bs]]
  by (simp add: spawns_def pending_requests_new_def ledger_entries_def coll_entries_def)

lemma header_received_entries:
  "ledger_entries (ks_pending_requests (fst (header_received B chain s i h p b n))) \<subseteq>
     {e \<in> ledger_entries (ks_pending_requests s). fst e \<noteq> BlockHeaderId i} \<union>
     entry_of ` set (snd (header_received B chain s i h p b n))" (is "_ \<subseteq> ?X \<union> _")
proof -
  let ?s = "with_log_header_received s h p n b (max_pending_blocks chain)
    \<lparr>ks_pending_requests := fst (take_request block_headers_access (ks_pending_requests s) i)\<rparr>"
  let ?rest = "\<lambda>x. with_finality_probe_if_orphan_suspected h n (schedule_unknown_canonical_requests B chain x)"
  have rest: "only_issues ?rest" by (rule only_issues_comp [OF only_issues_schedule only_issues_probe])
  have "header_received B chain s i h p b n = ?rest
      (case snd (take_request block_headers_access (ks_pending_requests s) i) of
         Some q \<Rightarrow> if gbh_block_hash (pp_payload q) \<noteq> h
                   then issue block_headers_access BlockHeader (pp_payload q) (?s, []) else (?s, [])
       | None \<Rightarrow> (?s, []))"
    by (simp add: header_received_def split_beta Let_def cong: option.case_cong if_cong)
  then consider (plain) "header_received B chain s i h p b n = ?rest (?s, [])"
    | (again) payload where "header_received B chain s i h p b n = ?rest (issue block_headers_access BlockHeader payload (?s, []))"
    by (cases "snd (take_request block_headers_access (ks_pending_requests s) i)") (simp_all split: if_splits)
  then show ?thesis
  proof cases
    case plain
    show ?thesis unfolding plain
      by (rule schedule_entries [OF rest]) (simp add: take_entries_all)
  next
    case again
    show ?thesis unfolding again
      by (rule schedule_entries [OF only_issues_comp [OF issue_onlys(1) rest]]) (simp add: take_entries_all)
  qed
qed

lemma head_observed_entries:
  "ledger_entries (ks_pending_requests (fst (outcome_result (head_observed B chain s h p b n)))) \<subseteq>
     ledger_entries (ks_pending_requests s) \<union> entry_of ` set (snd (outcome_result (head_observed B chain s h p b n)))"
proof -
  obtain s' adm where res: "with_log_head_observed s h p n b (max_pending_blocks chain) = (s', adm)" by fastforce
  have pr: "ks_pending_requests s' = ks_pending_requests s"
    using feed_requests(3) [of s h p n b "max_pending_blocks chain"] by (simp add: res)
  let ?rest = "\<lambda>x. with_finality_probe_if_orphan_suspected h n (schedule_unknown_canonical_requests B chain x)"
  have rest: "only_issues ?rest" by (rule only_issues_comp [OF only_issues_schedule only_issues_probe])
  have missing: "spawns (ks_pending_requests s, []) (request_missing_header (ks_pending_requests s) (ks_tick s') h)"
    by (rule issues_spawns [OF request_missing_header_issues])
  consider (self) "head_observed B chain s h p b n = Progressed
      (s'\<lparr>ks_pending_requests := fst (request_missing_header (ks_pending_requests s) (ks_tick s') h)\<rparr>)
      (snd (request_missing_header (ks_pending_requests s) (ks_tick s') h))"
    | (inert) "head_observed B chain s h p b n = Inert s'"
    | (full) "head_observed B chain s h p b n = progress (?rest (s', []))"
  proof (cases "adm = SelfParent")
    case True
    then show thesis using that(1) by (simp add: head_observed_def res pr split_beta Let_def)
  next
    case False
    show thesis
    proof (cases "adm = DuplicateBlock \<and> h = bg_observed_head (ks_graph s)")
      case True
      then have "head_observed B chain s h p b n = Inert s'"
        by (simp add: head_observed_def res conjunct2 [OF True, symmetric])
      then show thesis by (rule that(2))
    next
      case False
      with \<open>adm \<noteq> SelfParent\<close> show thesis using that(3) by (auto simp: head_observed_def res)
    qed
  qed
  then show ?thesis
  proof cases
    case self
    then show ?thesis using missing by (simp add: spawns_def)
  next
    case inert
    then show ?thesis by (simp add: pr)
  next
    case full
    then show ?thesis using schedule_entries [OF rest, of s' "ledger_entries (ks_pending_requests s)"] by (simp add: pr)
  qed
qed

lemma answered_arm:
  assumes "transition B chain s e = answer B chain A s i respond" "answered_key e = Some k"
    and "ledger_entries (fst (take_request A (ks_pending_requests s) i)) = {x \<in> ledger_entries (ks_pending_requests s). fst x \<noteq> k}"
    and "\<And>p s. ks_pending_requests (respond p s) = ks_pending_requests s"
  shows "ledger_entries (ks_pending_requests (fst (transition B chain s e))) \<subseteq>
     unanswered e (ks_pending_requests s) \<union> entry_of ` set (snd (transition B chain s e))"
proof -
  have "unanswered e (ks_pending_requests s) = {x \<in> ledger_entries (ks_pending_requests s). fst x \<noteq> k}"
    using assms(2) by (auto simp: unanswered_def)
  with answer_entries [of A s i _ respond B chain] assms(1,3,4) show ?thesis by simp
qed

text \<open>A transition drops the entries that its event answers; whatever it adds, it emits.\<close>

lemma transition_entries:
  "ledger_entries (ks_pending_requests (fst (transition B chain s e))) \<subseteq>
     unanswered e (ks_pending_requests s) \<union> entry_of ` set (snd (transition B chain s e))"
proof (cases e)
  case (HeadObserved h p b n)
  then show ?thesis using head_observed_entries [of B chain s h p b n] by (simp add: transition_def unanswered_def)
next
  case (FinalizedBlockObserved h n)
  have "ledger_entries (ks_pending_requests (with_finalized_block_observed B s chain h)) \<subseteq> ledger_entries (ks_pending_requests s)"
    using retained_entries by (auto simp: with_finalized_block_observed_def split_beta Let_def)
  from schedule_entries [OF only_issues_ranges this] FinalizedBlockObserved show ?thesis
    by (simp add: transition_def unanswered_def)
next
  case (BlockHeaderReceived i h p b n)
  then show ?thesis using header_received_entries [of B chain s i h p b n]
    by (auto simp: transition_def unanswered_def)
next
  case (CanonicalHeaderAtHeightReceived i h n)
  then show ?thesis
    using activate_entries [of h n "[]" "ks_pool_registry s" "ks_token_registry s" "[]"]
    by (auto simp: transition_def canonical_header_received_def unanswered_def split_beta Let_def take_entries_all)
next
  case (RequestFailed i)
  then show ?thesis using retry_spawns [of "ks_pending_requests s" i "ks_tick s"]
    by (auto simp: transition_def unanswered_def split_beta Let_def split: option.splits)
next
  case TickEvent
  then show ?thesis
    using retry_loop_spawns [of "expired_ids (ks_pending_requests s) (tick_next (ks_tick s))" "tick_next (ks_tick s)" "ks_pending_requests s" "[]"]
    by (auto simp: transition_def unanswered_def retry_expired_loop split_beta Let_def)
next
  case (LogObserved h logs)
  then show ?thesis
    using schedule_entries [OF only_issues_schedule, of "with_log_streamed s h logs" "ledger_entries (ks_pending_requests s)" B chain]
    by (auto simp: transition_def unanswered_def)
next
  case (BlockHeaderNotFound i)
  then show ?thesis by (auto simp: transition_def unanswered_def take_entries_all split_beta Let_def)
next
  case (BlockLogsReceived i logs)
  then show ?thesis
    by (intro answered_arm [where A = block_logs_access and i = i and k = "BlockLogsId i" and respond = "\<lambda>payload s. with_log_complete s (gbl_block_hash payload) logs"])
      (simp_all add: transition_def take_entries_all)
next
  case (BlockLogsRangeReceived i received)
  then show ?thesis
    by (intro answered_arm [where A = logs_range_access and i = i and k = "LogsRangeId i" and respond = "\<lambda>payload. apply_range received (glr_covered payload)"])
      (simp_all add: transition_def take_entries_all)
next
  case (PoolMetadataReceived i metadata)
  then show ?thesis
    by (intro answered_arm [where A = pool_metadata_access and i = i and k = "PoolMetadataId i" and respond = "accept_pool_metadata chain metadata"])
      (simp_all add: transition_def take_entries_all)
next
  case (TokenMetadataReceived i metadata)
  then show ?thesis
    by (intro answered_arm [where A = token_metadata_access and i = i and k = "TokenMetadataId i" and respond = "accept_token_metadata metadata"])
      (simp_all add: transition_def take_entries_all)
next
  case (PoolDataReceived i pools)
  then show ?thesis
    by (intro answered_arm [where A = pool_data_access and i = i and k = "PoolDataId i" and respond = "\<lambda>payload s. with_finalized_pool_seeds s (gpd_at payload) pools"])
      (simp_all add: transition_def take_entries_all)
qed

end
