(* ===== verification/MultiChainLaws.thy ===== *)
theory MultiChainLaws
  imports MultiChain
begin

text \<open>
  The multi-chain state as a machine: every lifecycle keeps its own invariant, an event of one chain
  leaves the others alone, buffering a chain's live data during its bootstrap loses nothing, and the
  optimizer is dispatched once per frontier with what a full projection would give.
\<close>

section \<open>The invariant\<close>

text \<open>An active kernel is one the kernel's own theory can reach, so its invariants and laws hold for it.\<close>

fun lifecycle_ok :: "bloom_ops \<Rightarrow> chain_key \<Rightarrow> chain_lifecycle \<Rightarrow> bool" where
  "lifecycle_ok B chain (Bootstrapping b buffered) \<longleftrightarrow> boot_ok chain b \<and> completion b = None"
| "lifecycle_ok B chain (Active k) \<longleftrightarrow> reachable B chain k"

definition multi_ok :: "bloom_ops \<Rightarrow> 'f multi_state \<Rightarrow> bool" where
  "multi_ok B s \<longleftrightarrow> bm_wf (ms_chains s) \<and>
     (\<forall>chain l. map_of (ms_chains s) chain = Some l \<longrightarrow> lifecycle_ok B chain l)"

lemma bm_wf_delete: "bm_wf m \<Longrightarrow> bm_wf (AList.delete k m)"
  by (induction m) (auto simp: AList.delete_eq)

text \<open>The replay of the buffer is a run of the kernel.\<close>

lemma replay_is_run:
  "replay_buffered_subscription_data B chain k buffered =
     (kern.run B chain k (map into_kernel_event buffered),
      wrap_chain_effects chain (kern.trace B chain k (map into_kernel_event buffered)) :: 'f multi_effect list)"
proof -
  have "fold (\<lambda>data (k, effects).
         (let (k, kernel_effects) = transition B chain k (into_kernel_event data)
          in (k, effects @ wrap_chain_effects chain kernel_effects))) buffered (k, es) =
      (kern.run B chain k (map into_kernel_event buffered),
       es @ wrap_chain_effects chain (kern.trace B chain k (map into_kernel_event buffered)))" for es :: "'f multi_effect list"
    by (induction buffered arbitrary: k es) (simp_all add: wrap_chain_effects_def split_beta Let_def)
  then show ?thesis by (simp add: replay_buffered_subscription_data_def)
qed

lemma reachable_run: "reachable B chain k \<Longrightarrow> reachable B chain (kern.run B chain k es)"
  by (rule kern.run_keeps) (simp_all add: reach_step)

lemma reachable_activated:
  assumes "boot_ok chain b" and "completion b = Some (CompletedReady outcome)"
  shows "reachable B chain (fst (activate_bootstrap_outcome outcome))"
  using assms reach_activate [of "bo_pool_snapshots outcome" chain]
  by (auto simp: completion_def boot_ok_def activate_bootstrap_outcome_def split: phase.splits)

lemma lifecycle_ok_advance:
  assumes "boot_ok chain b" and "fst (advance_bootstrap E chain b buffered e) = Some l"
  shows "lifecycle_ok (env_bloom E) chain l"
proof -
  have b: "boot_ok chain (fst (boot_transition (env_filler E) chain b e))" using assms(1) by (rule boot.inv_step) simp
  show ?thesis
    using assms(2) b reachable_activated [OF b]
    by (auto simp: advance_bootstrap_def replay_is_run split_beta Let_def reachable_run
        split: option.splits completion_t.splits)
qed

lemma chain_progressed_chains:
  "ms_chains (fst (chain_progressed E s chain len k es)) = bm_insert chain (Active k) (ms_chains s)"
  by (auto simp: chain_progressed_def Let_def split: option.splits sum.splits)

text \<open>What an active chain's event does to the chain map: the kernel's transition, inert or not.\<close>

lemma chain_event_chains:
  assumes "map_of (ms_chains s) chain = Some (Active k)"
  shows "ms_chains (fst (chain_event E s chain e)) =
    bm_insert chain (Active (fst (transition (env_bloom E) chain k e))) (AList.delete chain (ms_chains s))"
  using assms
  by (cases "transition_outcome (env_bloom E) chain k e")
    (simp_all add: chain_event_def Let_def chain_progressed_chains transition_def)

section \<open>One step of one chain\<close>

text \<open>
  The reference: what an event means for the lifecycle of one chain alone, without the map, the other
  chains and the optimization fields.
\<close>

definition active_step :: "'f env \<Rightarrow> chain_key \<Rightarrow> event \<Rightarrow> chain_lifecycle \<Rightarrow> chain_lifecycle" where
  "active_step E chain e l =
     (case l of Active k \<Rightarrow> Active (fst (transition (env_bloom E) chain k e)) | Bootstrapping b buffered \<Rightarrow> l)"

fun lifecycle_step :: "'f env \<Rightarrow> chain_key \<Rightarrow> 'f multi_event \<Rightarrow> chain_lifecycle \<Rightarrow> chain_lifecycle option" where
  "lifecycle_step E chain (FinalizedHeaderReceived c h number) l =
     Some (if c = chain then active_step E chain (FinalizedBlockObserved h number) l else l)"
| "lifecycle_step E chain (FinalizedHeaderUnavailable c) l = Some l"
| "lifecycle_step E chain (SubscriptionData c data) l =
     Some (if c = chain
           then (case l of Bootstrapping b buffered \<Rightarrow> Bootstrapping b (buffered @ [data])
                 | Active k \<Rightarrow> active_step E chain (into_kernel_event data) l)
           else l)"
| "lifecycle_step E chain (ChainEvent c e) l = Some (if c = chain then active_step E chain e l else l)"
| "lifecycle_step E chain (BootstrapEvent c e) l =
     (if c = chain
      then (case l of Bootstrapping b buffered \<Rightarrow> fst (advance_bootstrap E chain b buffered e) | Active k \<Rightarrow> Some l)
      else Some l)"
| "lifecycle_step E chain (OptimizationStepCompleted result plan) l = Some l"
| "lifecycle_step E chain MultiTick l =
     (case l of Bootstrapping b buffered \<Rightarrow> fst (advance_bootstrap E chain b buffered BootTick)
      | Active k \<Rightarrow> Some (active_step E chain TickEvent l))"

fun lifecycle_run :: "'f env \<Rightarrow> chain_key \<Rightarrow> 'f multi_event list \<Rightarrow> chain_lifecycle option \<Rightarrow> chain_lifecycle option" where
  "lifecycle_run E chain [] l = l"
| "lifecycle_run E chain (e # es) l = lifecycle_run E chain es (Option.bind l (lifecycle_step E chain e))"

lemma with_chain_lifecycle_at:
  "map_of (ms_chains (fst (with_chain_lifecycle s c f))) chain =
     (if c = chain then Option.bind (map_of (ms_chains s) chain) (\<lambda>l. fst (f l)) else map_of (ms_chains s) chain)"
  by (cases "map_of (ms_chains s) c")
    (auto simp: with_chain_lifecycle_def split_beta Let_def hm_simps split: option.splits)

lemma chain_event_at:
  "map_of (ms_chains (fst (chain_event E s c e))) chain =
     (if c = chain then map_option (active_step E chain e) (map_of (ms_chains s) chain) else map_of (ms_chains s) chain)"
proof (cases "map_of (ms_chains s) c")
  case None
  then show ?thesis by (auto simp: chain_event_def)
next
  case (Some l)
  show ?thesis
  proof (cases l)
    case (Active k)
    then show ?thesis using Some by (auto simp: chain_event_chains active_step_def)
  next
    case (Bootstrapping b buffered)
    then show ?thesis using Some by (auto simp: chain_event_def active_step_def)
  qed
qed

lemma tick_fold_at:
  "hm_wf m \<Longrightarrow> map_of (fst (fold (multi_tick_chain E) m (acc, es))) chain =
     (case map_of m chain of
        Some l \<Rightarrow> (case lifecycle_step E chain MultiTick l of Some l' \<Rightarrow> Some l' | None \<Rightarrow> map_of acc chain)
      | None \<Rightarrow> map_of acc chain)"
proof (induction m arbitrary: acc es)
  case (Cons e m)
  obtain c l where e: "e = (c, l)" by fastforce
  have wf: "hm_wf m" and fresh: "map_of m c = None" using Cons.prems by (auto simp: hm_wf_def e map_of_eq_None_iff)
  obtain acc' es' where step: "multi_tick_chain E e (acc, es) = (acc', es')" by fastforce
  have "map_of acc' d = (if d = c then (case lifecycle_step E c MultiTick l of Some l' \<Rightarrow> Some l' | None \<Rightarrow> map_of acc c)
      else map_of acc d)" for d
    using step by (auto simp: multi_tick_chain_def e active_step_def split_beta Let_def hm_simps
        split: chain_lifecycle.splits option.splits)
  then show ?case
    using Cons.IH [OF wf, of acc' es'] step fresh by (auto simp: e split: option.splits)
qed simp

lemma multi_transition_at:
  assumes "bm_wf (ms_chains s)"
  shows "map_of (ms_chains (fst (multi_transition E s e))) chain =
    Option.bind (map_of (ms_chains s) chain) (lifecycle_step E chain e)"
proof (cases e)
  case (MultiTick)
  have "hm_wf (ms_chains s)" using assms by (rule bm_wf_hm_wf)
  from tick_fold_at [OF this, of E "[]" "[]" chain] show ?thesis
    by (auto simp: MultiTick multi_tick_def split_beta Let_def split: option.splits)
next
  case (SubscriptionData c data)
  show ?thesis
  proof (cases "map_of (ms_chains s) c")
    case None
    then show ?thesis
      by (cases "map_of (ms_chains s) chain") (auto simp: SubscriptionData subscription_data_received_def chain_event_def)
  next
    case (Some l)
    then show ?thesis
      by (cases l; cases "map_of (ms_chains s) chain")
        (auto simp: SubscriptionData subscription_data_received_def buffer_subscription_data_def
          with_chain_lifecycle_at chain_event_at)
  qed
qed (auto simp: finalized_header_received_def finalized_header_unavailable_def bootstrap_event_def
    optimization_step_completed_def with_chain_lifecycle_at chain_event_at active_step_def split_beta Let_def
    split: bind_splits chain_lifecycle.splits)

lemma lifecycle_step_ok:
  assumes "lifecycle_ok (env_bloom E) chain l" and "lifecycle_step E chain e l = Some l'"
  shows "lifecycle_ok (env_bloom E) chain l'"
proof -
  have active: "lifecycle_ok (env_bloom E) chain (active_step E chain ev l)" for ev
    using assms(1) by (cases l) (simp_all add: active_step_def reach_step)
  show ?thesis
    using assms active
    by (cases e; cases l) (auto intro: lifecycle_ok_advance split: if_splits)
qed

lemma bm_wf_with_lifecycle: "bm_wf (ms_chains s) \<Longrightarrow> bm_wf (ms_chains (fst (with_chain_lifecycle s c f)))"
  by (auto simp: with_chain_lifecycle_def split_beta Let_def bm_wf_delete split: option.splits)

lemma bm_wf_chain_event: "bm_wf (ms_chains s) \<Longrightarrow> bm_wf (ms_chains (fst (chain_event E s c e)))"
  by (auto simp: chain_event_def Let_def bm_wf_delete chain_progressed_chains
      split: option.splits chain_lifecycle.splits transition_outcome_t.splits)

lemma bm_wf_tick: "bm_wf m \<Longrightarrow> bm_wf (fst (fold (multi_tick_chain E) xs (m, es)))"
proof (induction xs arbitrary: m es)
  case (Cons x xs)
  obtain m' es' where step: "multi_tick_chain E x (m, es) = (m', es')" by fastforce
  then have "bm_wf m'" using Cons.prems
    by (auto simp: multi_tick_chain_def split_beta Let_def split: chain_lifecycle.splits option.splits)
  then show ?case using Cons.IH step by simp
qed simp

lemma bm_wf_transition: "bm_wf (ms_chains s) \<Longrightarrow> bm_wf (ms_chains (fst (multi_transition E s e)))"
  by (cases e) (simp_all add: finalized_header_received_def finalized_header_unavailable_def bootstrap_event_def
      optimization_step_completed_def subscription_data_received_def buffer_subscription_data_def
      bm_wf_with_lifecycle bm_wf_chain_event multi_tick_def split_beta Let_def bm_wf_tick
      split: option.splits chain_lifecycle.splits)

lemma multi_ok_step: "multi_ok (env_bloom E) s \<Longrightarrow> multi_ok (env_bloom E) (fst (multi_transition E s e))"
  unfolding multi_ok_def
  by (auto simp: bm_wf_transition multi_transition_at bind_eq_Some_conv intro: lifecycle_step_ok)

lemma multi_init_fold:
  "map_of (fst (fold multi_init_chain keys (m, es))) chain =
     (if chain \<in> set keys then Some (Bootstrapping (fst (boot_init (bootstrap_policy_of chain))) []) else map_of m chain)"
  "bm_wf m \<Longrightarrow> bm_wf (fst (fold multi_init_chain keys (m, es)))"
  by (induction keys arbitrary: m es) (simp_all add: multi_init_chain_def split_beta Let_def)

lemma multi_init_at:
  "map_of (ms_chains (fst (multi_init keys))) chain =
     (if chain \<in> set keys then Some (Bootstrapping (fst (boot_init (bootstrap_policy_of chain))) []) else None)"
  "bm_wf (ms_chains (fst (multi_init keys)))"
  by (simp_all add: multi_init_def multi_init_fold split_beta)

lemma boot_init_incomplete: "completion (fst (boot_init policy)) = None"
  by (simp add: boot_init_def enter_phase_def completion_def split_beta Let_def)

lemma multi_ok_init: "multi_ok B (fst (multi_init keys))"
  by (simp add: multi_ok_def multi_init_at boot_ok_init boot_init_incomplete)

interpretation multi: state_machine "\<lambda>s. \<exists>keys. s = fst (multi_init keys)" "multi_transition E" "\<lambda>_. True"
    "multi_ok (env_bloom E)" for E
  by unfold_locales (auto simp: multi_ok_init multi_ok_step)

lemma multi_run_ok: "multi_ok (env_bloom E) (multi.run E (fst (multi_init keys)) es)"
  by (rule multi.run_from_start) (auto simp: list_all_iff)

lemma lifecycle_run_at:
  "bm_wf (ms_chains s) \<Longrightarrow>
     map_of (ms_chains (multi.run E s es)) chain = lifecycle_run E chain es (map_of (ms_chains s) chain)"
  by (induction es arbitrary: s) (simp_all add: bm_wf_transition multi_transition_at)

section \<open>The chains are independent\<close>

declare multi_transition.simps [simp del]

text \<open>
  C6. The multi-chain state is the product of its chains. After any events, the lifecycle of a chain is
  what the events alone make of it from its own start: no event of another chain, no optimization
  result and no dispatch has any effect on it, and a chain that was not configured never appears.
\<close>

theorem chains_are_independent:
  "map_of (ms_chains (multi.run E (fst (multi_init keys)) es)) chain =
     lifecycle_run E chain es
       (if chain \<in> set keys then Some (Bootstrapping (fst (boot_init (bootstrap_policy_of chain))) []) else None)"
  using lifecycle_run_at [OF multi_init_at(2), of E keys es chain] by (simp add: multi_init_at(1))

text \<open>
  C5. Whatever arrives and in whatever order, every active chain holds a kernel that is reachable by
  its own transitions from an activation with well-formed registries, so every invariant of the kernel
  holds of it; and every chain that still loads has an unfinished bootstrap with the one request its
  phase awaits.
\<close>

theorem every_lifecycle_sound:
  "case map_of (ms_chains (multi.run E (fst (multi_init keys)) es)) chain of
     None \<Rightarrow> True
   | Some (Active k) \<Rightarrow> reachable (env_bloom E) chain k \<and> kernel_ok chain k
   | Some (Bootstrapping b buffered) \<Rightarrow> completion b = None \<and> awaited (bs_phase b) = Some (pending_counts (bs_pending b))"
proof -
  have waits: "\<exists>c. awaited (bs_phase b) = Some c" if "completion b = None" for b
    using that by (cases "bs_phase b") (simp_all add: completion_def)
  show ?thesis
  proof (cases "map_of (ms_chains (multi.run E (fst (multi_init keys)) es)) chain")
    case (Some l)
    then have "lifecycle_ok (env_bloom E) chain l" using multi_run_ok [of E keys es] by (simp add: multi_ok_def)
    then show ?thesis
      using Some waits by (cases l) (auto simp: reachable_ok boot_ok_def)
  qed simp
qed

section \<open>Buffered data\<close>

definition chain_requests :: "chain_key \<Rightarrow> 'f multi_effect list \<Rightarrow> effect list" where
  "chain_requests chain effects =
     concat (map (\<lambda>e. case e of ChainEffect c k \<Rightarrow> if c = chain then [k] else [] | _ \<Rightarrow> []) effects)"

lemma chain_requests_simps [simp]:
  "chain_requests chain [] = []"
  "chain_requests chain (xs @ ys) = chain_requests chain xs @ chain_requests chain ys"
  "chain_requests chain (wrap_chain_effects chain es) = es"
  "chain_requests chain (wrap_bootstrap_effects c bs) = []"
  "chain_requests chain (FetchFinalizedHeaderOf c # xs) = chain_requests chain xs"
  "chain_requests chain (RunOptimization input # xs) = chain_requests chain xs"
  by (simp_all add: chain_requests_def wrap_chain_effects_def wrap_bootstrap_effects_def comp_def)

lemma chain_event_requests:
  assumes "map_of (ms_chains s) chain = Some (Active k)"
  shows "chain_requests chain (snd (chain_event E s chain e)) = snd (transition (env_bloom E) chain k e)"
  using assms
  by (cases "transition_outcome (env_bloom E) chain k e")
    (auto simp: chain_event_def chain_progressed_def transition_def Let_def split: option.splits sum.splits)

lemma live_data_requests:
  "bm_wf (ms_chains s) \<Longrightarrow> map_of (ms_chains s) chain = Some (Active k) \<Longrightarrow>
     chain_requests chain (multi.trace E s (map (SubscriptionData chain) ds)) =
       kern.trace (env_bloom E) chain k (map into_kernel_event ds)"
proof (induction ds arbitrary: s k)
  case (Cons d ds)
  let ?s = "fst (multi_transition E s (SubscriptionData chain d))"
  have "map_of (ms_chains ?s) chain = Some (Active (fst (transition (env_bloom E) chain k (into_kernel_event d))))"
    using Cons.prems by (simp add: multi_transition_at active_step_def)
  then have "chain_requests chain (multi.trace E ?s (map (SubscriptionData chain) ds)) =
      kern.trace (env_bloom E) chain (fst (transition (env_bloom E) chain k (into_kernel_event d))) (map into_kernel_event ds)"
    using Cons.IH [of ?s] bm_wf_transition Cons.prems by blast
  moreover have "snd (multi_transition E s (SubscriptionData chain d)) = snd (chain_event E s chain (into_kernel_event d))"
    using Cons.prems by (simp add: multi_transition.simps subscription_data_received_def)
  ultimately show ?case using Cons.prems chain_event_requests [of s chain k E] by simp
qed simp

lemma buffered_data:
  "bm_wf (ms_chains s) \<Longrightarrow> map_of (ms_chains s) chain = Some (Bootstrapping b buffered) \<Longrightarrow>
     map_of (ms_chains (multi.run E s (map (SubscriptionData chain) ds))) chain = Some (Bootstrapping b (buffered @ ds)) \<and>
     multi.trace E s (map (SubscriptionData chain) ds) = []"
proof (induction ds arbitrary: s buffered)
  case (Cons d ds)
  let ?s = "fst (multi_transition E s (SubscriptionData chain d))"
  have "map_of (ms_chains ?s) chain = Some (Bootstrapping b (buffered @ [d]))"
    using Cons.prems by (simp add: multi_transition_at)
  moreover have "snd (multi_transition E s (SubscriptionData chain d)) = []"
    using Cons.prems by (simp add: multi_transition.simps subscription_data_received_def buffer_subscription_data_def with_chain_lifecycle_def)
  ultimately show ?case using Cons.IH [of ?s "buffered @ [d]"] bm_wf_transition [OF Cons.prems(1)] Cons.prems by simp
qed simp

lemma absent_data:
  "bm_wf (ms_chains s) \<Longrightarrow> map_of (ms_chains s) chain = None \<Longrightarrow>
     multi.trace E s (map (SubscriptionData chain) ds) = []"
proof (induction ds arbitrary: s)
  case (Cons d ds)
  let ?s = "fst (multi_transition E s (SubscriptionData chain d))"
  have "map_of (ms_chains ?s) chain = None"
    using Cons.prems by (simp add: multi_transition_at)
  moreover have "snd (multi_transition E s (SubscriptionData chain d)) = []"
    using Cons.prems by (simp add: multi_transition.simps subscription_data_received_def chain_event_def)
  ultimately show ?case using Cons.IH [of ?s] bm_wf_transition [OF Cons.prems(1)] Cons.prems by simp
qed simp

lemma active_data_run:
  "lifecycle_run E chain (map (SubscriptionData chain) ds) (Some (Active k)) =
     Some (Active (kern.run (env_bloom E) chain k (map into_kernel_event ds)))"
  by (induction ds arbitrary: k) (simp_all add: active_step_def)

lemma lifecycle_run_append: "lifecycle_run E chain (es @ es') l = lifecycle_run E chain es' (lifecycle_run E chain es l)"
  by (induction es arbitrary: l) simp_all

lemma absent_run: "lifecycle_run E chain es None = None"
  by (induction es) simp_all

lemma bootstrap_event_effects:
  assumes "map_of (ms_chains s) chain = Some (Bootstrapping b buffered)"
  shows "snd (multi_transition E s (BootstrapEvent chain e)) = snd (advance_bootstrap E chain b buffered e)"
  using assms by (simp add: multi_transition.simps bootstrap_event_def with_chain_lifecycle_def split_beta Let_def)

text \<open>
  C7. Buffering loses nothing. Live data that reaches a chain before its bootstrap completes leads to
  the same lifecycle, and to the same kernel requests in the same order, as the same data delivered
  right after the completion.
\<close>

theorem buffered_data_as_live:
  assumes "s = multi.run E (fst (multi_init keys)) es"
    and "map_of (ms_chains s) chain = Some (Bootstrapping b [])"
    and "completion (fst (boot_transition (env_filler E) chain b e)) \<noteq> None"
  shows "let before = map (SubscriptionData chain) ds @ [BootstrapEvent chain e];
        after = BootstrapEvent chain e # map (SubscriptionData chain) ds
      in map_of (ms_chains (multi.run E s before)) chain = map_of (ms_chains (multi.run E s after)) chain \<and>
        chain_requests chain (multi.trace E s before) = chain_requests chain (multi.trace E s after)"
proof -
  have wf: "bm_wf (ms_chains s)" using multi_run_ok [of E keys es] assms(1) by (simp add: multi_ok_def)
  let ?data = "map (SubscriptionData chain) ds"
  let ?mid = "multi.run E s ?data" and ?act = "fst (multi_transition E s (BootstrapEvent chain e))"
  have mid: "map_of (ms_chains ?mid) chain = Some (Bootstrapping b ds)" "multi.trace E s ?data = []"
    using buffered_data [OF wf assms(2), of E ds] by simp_all
  have act: "map_of (ms_chains ?act) chain = fst (advance_bootstrap E chain b [] e)"
    using wf assms(2) by (simp add: multi_transition_at)
  have wf': "bm_wf (ms_chains ?act)" using wf by (rule bm_wf_transition)
  have before: "map_of (ms_chains (multi.run E s (?data @ [BootstrapEvent chain e]))) chain = fst (advance_bootstrap E chain b ds e)"
    using lifecycle_run_at [OF wf, of E "?data @ [BootstrapEvent chain e]" chain]
      trans [OF lifecycle_run_at [OF wf, symmetric] mid(1)]
    by (simp add: lifecycle_run_append)
  have before_trace: "multi.trace E s (?data @ [BootstrapEvent chain e]) = snd (advance_bootstrap E chain b ds e)"
    using mid(2) bootstrap_event_effects [OF mid(1), of E e] by (simp add: multi.trace_append)
  have after: "map_of (ms_chains (multi.run E s (BootstrapEvent chain e # ?data))) chain =
      lifecycle_run E chain ?data (fst (advance_bootstrap E chain b [] e))"
    using lifecycle_run_at [OF wf', of E ?data chain] act by simp
  have after_trace: "multi.trace E s (BootstrapEvent chain e # ?data) = snd (advance_bootstrap E chain b [] e) @ multi.trace E ?act ?data"
    using bootstrap_event_effects [OF assms(2), of E e] by simp
  obtain c where c: "completion (fst (boot_transition (env_filler E) chain b e)) = Some c" using assms(3) by blast
  show ?thesis
  proof (cases c)
    case (CompletedReady outcome)
    let ?k = "fst (activate_bootstrap_outcome outcome)"
    have "map_of (ms_chains ?act) chain = Some (Active ?k)"
      using act c CompletedReady by (simp add: advance_bootstrap_def replay_is_run split_beta Let_def)
    then have "chain_requests chain (multi.trace E ?act ?data) = kern.trace (env_bloom E) chain ?k (map into_kernel_event ds)"
      by (rule live_data_requests [OF wf'])
    then show ?thesis
      unfolding Let_def before before_trace after after_trace using c CompletedReady
      by (simp add: advance_bootstrap_def replay_is_run active_data_run split_beta Let_def)
  next
    case CompletedAbandoned
    then have "multi.trace E ?act ?data = []"
      using act c by (intro absent_data [OF wf']) (simp add: advance_bootstrap_def split_beta Let_def)
    then show ?thesis
      unfolding Let_def before before_trace after after_trace using c CompletedAbandoned
      by (simp add: advance_bootstrap_def absent_run split_beta Let_def)
  qed
qed

definition demo_env :: "nat env" where
  "demo_env = \<lparr>env_token_amount = (\<lambda>_ _. Inr 0), env_raw_amount = (\<lambda>_ _. Inr 0), env_fee_multiplier = (\<lambda>_. 0),
     env_bloom = flag_bloom, env_filler = (\<lambda>l u. 1000 * u + l), env_minus = (-), env_scale = (\<lambda>_. 0)\<rparr>"

definition demo_loading :: "nat multi_event list" where
  "demo_loading = map (BootstrapEvent Ethereum)
     [BootHeaderReceived 1 \<lparr>fa_hash = 1, fa_number = 10\<rparr>, BootCandidatesReceived 2 [] 10 None, BootPoolsReceived 3 []]"

theorem buffered_data_as_live_witness:
  "\<exists>b. map_of (ms_chains (multi.run demo_env (fst (multi_init [Ethereum])) demo_loading)) Ethereum =
        Some (Bootstrapping b []) \<and>
     map_of (ms_chains (multi.run demo_env (multi.run demo_env (fst (multi_init [Ethereum])) demo_loading)
       [SubscriptionData Ethereum (NewHead 2 1 0 11), BootstrapEvent Ethereum (BootTokensReceived 4 [])])) Ethereum =
     map_of (ms_chains (multi.run demo_env (multi.run demo_env (fst (multi_init [Ethereum])) demo_loading)
       [BootstrapEvent Ethereum (BootTokensReceived 4 []), SubscriptionData Ethereum (NewHead 2 1 0 11)])) Ethereum"
proof -
  let ?s = "multi.run demo_env (fst (multi_init [Ethereum])) demo_loading"
  have "case map_of (ms_chains ?s) Ethereum of
      Some (Bootstrapping b []) \<Rightarrow> completion (fst (boot_transition (env_filler demo_env) Ethereum b (BootTokensReceived 4 []))) \<noteq> None
    | _ \<Rightarrow> False"
    unfolding demo_loading_def list.map multi.run.simps by code_simp
  then obtain b where b: "map_of (ms_chains ?s) Ethereum = Some (Bootstrapping b [])"
    "completion (fst (boot_transition (env_filler demo_env) Ethereum b (BootTokensReceived 4 []))) \<noteq> None"
    by (auto split: option.splits chain_lifecycle.splits list.splits)
  from buffered_data_as_live [OF refl this, of "[NewHead 2 1 0 11]"] b(1) show ?thesis by (simp add: Let_def)
qed

section \<open>Dispatch of the optimizer\<close>

text \<open>The reference: the projection of one chain from its kernel, and of all chains together.\<close>

definition chain_projection :: "'f env \<Rightarrow> (chain_key, chain_lifecycle) bmap \<Rightarrow> chain_key \<Rightarrow> chain_lifecycle \<Rightarrow>
    'f chain_pool_reserves option" where
  "chain_projection E m chain l =
     (case l of
        Active k \<Rightarrow>
          (case pool_reserves_for_optimization E m chain (optimization_update (env_bloom E) k chain) of
             Inr r \<Rightarrow> r | Inl e \<Rightarrow> None)
      | Bootstrapping b buffered \<Rightarrow> None)"

definition projected_reserves :: "'f env \<Rightarrow> (chain_key, chain_lifecycle) bmap \<Rightarrow> 'f pool_reserves list" where
  "projected_reserves E m =
     concat (map (\<lambda>(chain, l). case chain_projection E m chain l of None \<Rightarrow> [] | Some r \<Rightarrow> cr_reserves r) m)"

text \<open>
  A dispatch is sound when one chain's frontier moved past its last dispatched block and is now
  recorded, and the input is the projection of every active chain as it is after the event.
\<close>

definition dispatch_sound :: "'f env \<Rightarrow> 'f multi_state \<Rightarrow> 'f multi_state \<Rightarrow> 'f optimization_pool_reserves \<Rightarrow> bool" where
  "dispatch_sound E s s' input \<longleftrightarrow>
     or_reserves input = projected_reserves E (ms_chains s') \<and> or_reserves input \<noteq> [] \<and>
     map_of (or_block_hashes input) = (\<lambda>c. Option.bind (map_of (ms_chains s') c)
        (\<lambda>l. map_option cr_block_hash (chain_projection E (ms_chains s') c l))) \<and>
     (\<exists>chain k frontier. map_of (ms_chains s') chain = Some (Active k) \<and>
        frontier = ou_block_hash (optimization_update (env_bloom E) k chain) \<and>
        map_of (ms_last_optimized_block s) chain \<noteq> Some frontier \<and>
        map_of (ms_last_optimized_block s') chain = Some frontier \<and>
        map_of (or_block_hashes input) chain = Some frontier)"

lemma update_if_changed_exact:
  "optimization_update_if_changed B k chain dispatched =
     (if dispatched = Some (ou_block_hash (optimization_update B k chain)) then None else Some (optimization_update B k chain))"
  by (simp add: optimization_update_if_changed_def optimization_update_def state_projected_pool_states_def
      projected_pool_states_if_changed_def projected_pool_states_def Let_def split: option.splits)

definition merge_projected :: "'f chain_pool_reserves option \<Rightarrow> chain_key \<Rightarrow> 'f optimization_pool_reserves \<Rightarrow>
    'f optimization_pool_reserves" where
  "merge_projected r chain input =
     (case r of None \<Rightarrow> input
      | Some r \<Rightarrow> \<lparr>or_block_hashes = bm_insert chain (cr_block_hash r) (or_block_hashes input),
                   or_reserves = or_reserves input @ cr_reserves r\<rparr>)"

lemma merge_chain_eq:
  assumes "c = chain \<Longrightarrow> chain_projection E m c l = Some pre"
  shows "merge_chain E m chain pre (c, l) input = merge_projected (chain_projection E m c l) c input"
  using assms
  by (cases l) (auto simp: merge_chain_def merge_projected_def chain_projection_def Let_def split: sum.splits option.splits)

lemma merge_fold:
  assumes "hm_wf xs" and "\<And>l. map_of xs chain = Some l \<Longrightarrow> chain_projection E m chain l = Some pre"
  shows "or_reserves (fold (merge_chain E m chain pre) xs input) = or_reserves input @
      concat (map (\<lambda>(c, l). case chain_projection E m c l of None \<Rightarrow> [] | Some r \<Rightarrow> cr_reserves r) xs) \<and>
    (\<forall>d. map_of (or_block_hashes (fold (merge_chain E m chain pre) xs input)) d =
      (case Option.bind (map_of xs d) (chain_projection E m d) of
         None \<Rightarrow> map_of (or_block_hashes input) d | Some r \<Rightarrow> Some (cr_block_hash r)))"
  using assms
proof (induction xs arbitrary: input)
  case (Cons e xs)
  obtain c l where e: "e = (c, l)" by fastforce
  have wf: "hm_wf xs" and fresh: "map_of xs c = None" using Cons.prems by (auto simp: hm_wf_def e map_of_eq_None_iff)
  have pre: "chain_projection E m chain l' = Some pre" if "map_of xs chain = Some l'" for l'
    using Cons.prems(2) [of l'] fresh that by (cases "chain = c") (simp_all add: e)
  have head: "merge_chain E m chain pre e input = merge_projected (chain_projection E m c l) c input"
    using Cons.prems(2) by (auto simp: e intro: merge_chain_eq)
  show ?case
    using Cons.IH [OF wf pre, of "merge_projected (chain_projection E m c l) c input"] head fresh
    by (auto simp: e merge_projected_def split: option.splits)
qed simp

lemma chain_progressed_dispatch:
  assumes wf: "bm_wf (ms_chains s)" and dispatch: "RunOptimization input \<in> set (snd (chain_progressed E s chain len k es))"
  shows "dispatch_sound E s (fst (chain_progressed E s chain len k es)) input"
proof -
  let ?m = "bm_insert chain (Active k) (ms_chains s)" and ?u = "optimization_update (env_bloom E) k chain"
  let ?s' = "fst (chain_progressed E s chain len k es)"
  from dispatch obtain r where new: "map_of (ms_last_optimized_block s) chain \<noteq> Some (ou_block_hash ?u)"
      and r: "pool_reserves_for_optimization E ?m chain ?u = Inr (Some r)"
      and input: "input = merged_optimization_reserves E ?m chain r" "or_reserves input \<noteq> []"
    by (auto simp: chain_progressed_def wrap_chain_effects_def update_if_changed_exact Let_def
        split: if_splits option.splits sum.splits)
  have s': "ms_chains ?s' = ?m" "map_of (ms_last_optimized_block ?s') chain = Some (ou_block_hash ?u)"
    using new r by (simp_all add: chain_progressed_def update_if_changed_exact Let_def)
  have at: "map_of ?m chain = Some (Active k)" by simp
  have proj: "chain_projection E ?m chain l = Some r" if "map_of ?m chain = Some l" for l
  proof -
    have "l = Active k" using that at by simp
    then show ?thesis using r by (simp add: chain_projection_def)
  qed
  have hash: "cr_block_hash r = ou_block_hash ?u"
    using r by (auto simp: pool_reserves_for_optimization_def split: option.splits sum.splits)
  have "hm_wf ?m" using wf by (intro bm_wf_hm_wf) simp
  note merge = merge_fold [OF this proj, of "\<lparr>or_block_hashes = [], or_reserves = []\<rparr>", folded merged_optimization_reserves_def]
  have reserves: "or_reserves input = projected_reserves E ?m"
    using merge by (simp add: input(1) projected_reserves_def)
  have hashes: "map_of (or_block_hashes input) d = Option.bind (map_of ?m d)
      (\<lambda>l. map_option cr_block_hash (chain_projection E ?m d l))" for d
    using merge by (auto simp: input(1) split: option.splits bind_splits)
  then have "map_of (or_block_hashes input) chain = Some (ou_block_hash ?u)"
    using proj [OF at] hash by simp
  with new at s' have "\<exists>chain k frontier. map_of (ms_chains ?s') chain = Some (Active k) \<and>
      frontier = ou_block_hash (optimization_update (env_bloom E) k chain) \<and>
      map_of (ms_last_optimized_block s) chain \<noteq> Some frontier \<and>
      map_of (ms_last_optimized_block ?s') chain = Some frontier \<and>
      map_of (or_block_hashes input) chain = Some frontier"
    by (intro exI [of _ chain] exI [of _ k]) simp
  then show ?thesis
    unfolding dispatch_sound_def using reserves hashes input(2) s'(1) by (simp add: fun_eq_iff)
qed

text \<open>Only a progressing kernel event of an active chain dispatches.\<close>

definition dispatches :: "'f multi_effect list \<Rightarrow> bool" where
  "dispatches effects \<longleftrightarrow> (\<exists>input. RunOptimization input \<in> set effects)"

lemma dispatches_simps [simp]:
  "\<not> dispatches []" "\<not> dispatches (wrap_chain_effects c es)" "\<not> dispatches (wrap_bootstrap_effects c bs)"
  "dispatches (xs @ ys) \<longleftrightarrow> dispatches xs \<or> dispatches ys"
  by (auto simp: dispatches_def wrap_chain_effects_def wrap_bootstrap_effects_def)

lemma advance_no_dispatch: "\<not> dispatches (snd (advance_bootstrap E c b buffered e))"
  by (simp add: advance_bootstrap_def replay_is_run split_beta Let_def split: option.split completion_t.split)

lemma tick_no_dispatch: "dispatches (snd (fold (multi_tick_chain E) xs (m, es))) \<longleftrightarrow> dispatches es"
proof (induction xs arbitrary: m es)
  case (Cons x xs)
  obtain m' es' where step: "multi_tick_chain E x (m, es) = (m', es')" by fastforce
  then have "dispatches es' \<longleftrightarrow> dispatches es"
    by (auto simp: multi_tick_chain_def advance_no_dispatch split_beta Let_def split: chain_lifecycle.splits)
  then show ?case using Cons.IH step by simp
qed simp

lemma dispatch_from_chain_event:
  assumes "dispatches (snd (multi_transition E s e))"
  shows "\<exists>chain ev. multi_transition E s e = chain_event E s chain ev"
proof (cases e)
  case (SubscriptionData c data)
  then show ?thesis
    using assms by (auto simp: multi_transition.simps subscription_data_received_def buffer_subscription_data_def
        with_chain_lifecycle_def split: option.splits chain_lifecycle.splits)
next
  case (BootstrapEvent c ev)
  then show ?thesis
    using assms
    by (auto simp: multi_transition.simps bootstrap_event_def advance_no_dispatch with_chain_lifecycle_def split_beta Let_def
        split: option.splits chain_lifecycle.splits)
qed (use assms in \<open>auto simp: multi_transition.simps finalized_header_received_def finalized_header_unavailable_def
    optimization_step_completed_def multi_tick_def tick_no_dispatch with_chain_lifecycle_def split_beta Let_def
    split: option.splits chain_lifecycle.splits\<close>)

lemma dispatch_sound_cong:
  "ms_last_optimized_block s = ms_last_optimized_block t \<Longrightarrow> dispatch_sound E s s' input \<longleftrightarrow> dispatch_sound E t s' input"
  unfolding dispatch_sound_def by simp

lemma chain_event_dispatch:
  assumes wf: "bm_wf (ms_chains s)" and dispatch: "RunOptimization input \<in> set (snd (chain_event E s chain e))"
  shows "dispatch_sound E s (fst (chain_event E s chain e)) input"
proof -
  from dispatch obtain k k' es where k: "map_of (ms_chains s) chain = Some (Active k)"
      and progress: "transition_outcome (env_bloom E) chain k e = Progressed k' es"
    by (auto simp: chain_event_def Let_def split: option.splits chain_lifecycle.splits transition_outcome_t.splits)
  let ?s = "s\<lparr>ms_chains := AList.delete chain (ms_chains s)\<rparr>"
  have e: "chain_event E s chain e = chain_progressed E ?s chain (canonical_path_len_from_finalized k) k' es"
    using k progress by (simp add: chain_event_def Let_def)
  have "bm_wf (ms_chains ?s)" using wf by (simp add: bm_wf_delete)
  from chain_progressed_dispatch [OF this dispatch [unfolded e]] show ?thesis
    unfolding e by (rule dispatch_sound_cong [THEN iffD1, rotated]) simp
qed

text \<open>
  The optimizer is dispatched only when a chain has moved. Every dispatch belongs to
  an active chain whose frontier after the event is not the block it was last dispatched for, and is
  recorded as such; and although the event's chain is spliced in from the gate's own projection, the
  input is the concatenation of the projections of all active chains after the event, each listed
  with its own frontier.
\<close>

lemma optimizer_dispatch_sound:
  "let s = multi.run E (fst (multi_init keys)) es; (s', effects) = multi_transition E s e
   in list_all (\<lambda>effect. case effect of RunOptimization input \<Rightarrow> dispatch_sound E s s' input | _ \<Rightarrow> True) effects"
proof -
  let ?s = "multi.run E (fst (multi_init keys)) es"
  have wf: "bm_wf (ms_chains ?s)" using multi_run_ok [of E keys es] by (simp add: multi_ok_def)
  have "dispatch_sound E ?s (fst (multi_transition E ?s e)) input"
    if "RunOptimization input \<in> set (snd (multi_transition E ?s e))" for input
  proof -
    have "dispatches (snd (multi_transition E ?s e))" using that by (auto simp: dispatches_def)
    then obtain chain ev where "multi_transition E ?s e = chain_event E ?s chain ev"
      using dispatch_from_chain_event by blast
    then show ?thesis using chain_event_dispatch [OF wf] that by metis
  qed
  then show ?thesis by (auto simp: Let_def split_beta list_all_iff split: multi_effect.split)
qed

section \<open>Verification of plans\<close>

text \<open>The reference: each pool resolved on its own, through the kernel of its chain.\<close>

definition resolve_directly :: "bloom_ops \<Rightarrow> (chain_key, chain_lifecycle) bmap \<Rightarrow> pool_ref \<Rightarrow> lossless_pool option" where
  "resolve_directly B m pool =
     (case map_of m (pr_chain pool) of
        Some (Active k) \<Rightarrow> resolve_pool B (pr_chain pool) k pool
      | _ \<Rightarrow> None)"

definition swap_pools :: "'f executable_step list \<Rightarrow> pool_ref set" where
  "swap_pools steps = {pool. \<exists>step \<in> set steps. es_kind step = Swap pool}"

lemma swap_pools_simps [simp]:
  "swap_pools [] = {}"
  "swap_pools (step # steps) = (case es_kind step of Swap pool \<Rightarrow> insert pool (swap_pools steps) | _ \<Rightarrow> swap_pools steps)"
  by (auto simp: swap_pools_def split: step_kind.split)

lemma build_book_cong:
  "(\<And>pool. pool \<in> swap_pools steps \<Longrightarrow> r pool = r' pool) \<Longrightarrow> build_book r steps book = build_book r' steps book"
  by (induction steps arbitrary: book) (auto split: step_kind.splits option.splits)

definition grouped :: "(chain_key, pool_ref list) bmap \<Rightarrow> bool" where
  "grouped pools \<longleftrightarrow> bm_wf pools \<and> (\<forall>c ps. map_of pools c = Some ps \<longrightarrow> (\<forall>p \<in> set ps. pr_chain p = c))"

definition pools_in :: "(chain_key, pool_ref list) bmap \<Rightarrow> pool_ref set" where
  "pools_in pools = {p. \<exists>ps. map_of pools (pr_chain p) = Some ps \<and> p \<in> set ps}"

lemma pools_by_chain_spec:
  "grouped pools \<Longrightarrow> grouped (pools_by_chain steps pools) \<and>
     pools_in (pools_by_chain steps pools) = pools_in pools \<union> swap_pools steps"
proof (induction steps arbitrary: pools)
  case (Cons step steps)
  show ?case
  proof (cases "es_kind step")
    case (Swap pool)
    let ?pools = "bm_insert (pr_chain pool)
      ((case map_of pools (pr_chain pool) of None \<Rightarrow> [] | Some ps \<Rightarrow> ps) @ [pool]) pools"
    have "grouped ?pools"
      using Cons.prems by (cases "map_of pools (pr_chain pool)") (auto simp: grouped_def)
    moreover have "pools_in ?pools = insert pool (pools_in pools)"
      by (auto simp: pools_in_def split: option.splits if_splits)
    ultimately show ?thesis using Cons.IH [of ?pools] Swap by simp
  qed (use Cons in simp_all)
qed simp

lemma resolve_fold:
  "map_of (fold (\<lambda>pool book. case f pool of None \<Rightarrow> book | Some p \<Rightarrow> AList.update pool p book) ps book) q =
     (if q \<in> set ps \<and> f q \<noteq> None then f q else map_of book q)"
  by (induction ps arbitrary: book) (auto simp: hm_simps split: option.splits if_splits)

lemma add_chain_pools_at:
  assumes "\<forall>p \<in> set ps. pr_chain p = c"
  shows "map_of (add_chain_pools B m (c, ps) book) q =
    (if q \<in> set ps \<and> resolve_directly B m q \<noteq> None then resolve_directly B m q else map_of book q)"
proof (cases "q \<in> set ps")
  case True
  then have q: "pr_chain q = c" using assms by blast
  show ?thesis
  proof (cases "map_of m c")
    case (Some l)
    then show ?thesis
      using True q by (cases l) (simp_all add: add_chain_pools_def resolve_fold resolve_directly_def)
  qed (use True q in \<open>simp add: add_chain_pools_def resolve_directly_def\<close>)
next
  case False
  then show ?thesis by (auto simp: add_chain_pools_def resolve_fold split: option.split chain_lifecycle.split)
qed

lemma book_fold:
  "bm_wf groups \<Longrightarrow> grouped groups \<Longrightarrow>
     map_of (fold (add_chain_pools B m) groups book) q =
     (if q \<in> pools_in groups \<and> resolve_directly B m q \<noteq> None then resolve_directly B m q else map_of book q)"
proof (induction groups arbitrary: book)
  case Nil
  then show ?case by (simp add: pools_in_def)
next
  case (Cons e groups)
  obtain c ps where e: "e = (c, ps)" by fastforce
  have fresh: "map_of groups c = None" using Cons.prems(1) by (force simp: e map_of_eq_None_iff)
  have own: "\<forall>p \<in> set ps. pr_chain p = c" using Cons.prems(2) by (simp add: grouped_def e)
  have rest: "bm_wf groups" "grouped groups"
    using Cons.prems fresh unfolding grouped_def e by (simp, metis bm_wf_Cons map_of_Cons_code(2) option.distinct(1))
  have "q \<in> pools_in (e # groups) \<longleftrightarrow> q \<in> set ps \<or> q \<in> pools_in groups"
    using own fresh by (auto simp: pools_in_def e)
  then show ?case
    using Cons.IH [OF rest, of "add_chain_pools B m e book"] add_chain_pools_at [OF own, of B m book q] by (simp add: e)
qed

lemma lossless_pools_exact:
  "pool \<in> swap_pools (ep_steps plan) \<Longrightarrow> map_of (lossless_pools_for_plan B m plan) pool = resolve_directly B m pool"
proof -
  assume pool: "pool \<in> swap_pools (ep_steps plan)"
  have "grouped []" by (simp add: grouped_def)
  then have g: "grouped (pools_by_chain (ep_steps plan) [])" "pools_in (pools_by_chain (ep_steps plan) []) = swap_pools (ep_steps plan)"
    using pools_by_chain_spec [of "[]" "ep_steps plan"] by (simp_all add: pools_in_def)
  then have "bm_wf (pools_by_chain (ep_steps plan) [])" by (simp add: grouped_def)
  from book_fold [OF this g(1), where m = m and B = B and book = "[]" and q = pool] show ?thesis
    using pool by (auto simp: lossless_pools_for_plan_def g(2))
qed

text \<open>
  Resolving a plan's pools in one batch per chain changes nothing: the replay that judges a plan is
  the replay in which every swap looks its own pool up in the kernel of that pool's chain, the
  freshest overlay before the finalized snapshot.
\<close>

lemma batched_resolution_exact:
  "replay_plan_lossless scale plan (map_of (lossless_pools_for_plan B m plan)) entry =
     replay_plan_lossless scale plan (resolve_directly B m) entry"
  unfolding replay_plan_lossless_def
  by (subst build_book_cong [of "ep_steps plan" _ "resolve_directly B m"]) (simp_all add: lossless_pools_exact)

end
