(* ===== verification/MultiEntries.thy ===== *)
theory MultiEntries
  imports LedgerEntries MultiChainLaws
begin

text \<open>
  The requests that the lifecycle of a chain waits for, and what a multi-chain transition does to them: an
  entry is dropped when its answer arrives, and each entry that appears has its effect among those emitted.
\<close>

section \<open>The ledger of a bootstrap\<close>

datatype boot_payload =
  BootHeaderP get_finalized_header
| BootCandidatesP get_pool_candidates
| BootPoolsP get_pool_metadata
| BootTokensP get_token_metadata

definition boot_entries :: "boot_requests \<Rightarrow> (boot_request_id \<times> boot_payload) set" where
  "boot_entries s =
     coll_entries BootFinalizedHeaderId BootHeaderP (br_finalized_header s) \<union>
     coll_entries BootPoolCandidatesId BootCandidatesP (br_pool_candidates s) \<union>
     coll_entries BootPoolMetadataId BootPoolsP (br_pool_metadata s) \<union>
     coll_entries BootTokenMetadataId BootTokensP (br_token_metadata s)"

fun boot_entry :: "boot_issued \<Rightarrow> boot_request_id \<times> boot_payload" where
  "boot_entry (BootFinalizedHeader r) = (BootFinalizedHeaderId (ir_request_id r), BootHeaderP (ir_request_payload r))"
| "boot_entry (BootPoolCandidates r) = (BootPoolCandidatesId (ir_request_id r), BootCandidatesP (ir_request_payload r))"
| "boot_entry (BootPoolMetadata r) = (BootPoolMetadataId (ir_request_id r), BootPoolsP (ir_request_payload r))"
| "boot_entry (BootTokenMetadata r) = (BootTokenMetadataId (ir_request_id r), BootTokensP (ir_request_payload r))"

text \<open>What an arm may do to the entries: keep some of a set and add those of the requests it emits.\<close>

definition boot_spawns :: "(boot_request_id \<times> boot_payload) set \<Rightarrow> boot_state \<times> boot_issued list \<Rightarrow> bool" where
  "boot_spawns X y \<longleftrightarrow> boot_entries (bs_pending (fst y)) \<subseteq> X \<union> boot_entry ` set (snd y)"

lemma boot_idle: "boot_entries (bs_pending s) \<subseteq> X \<Longrightarrow> boot_spawns X (s, es)"
  by (auto simp: boot_spawns_def)

text \<open>The four collections share the laws of a ledger's collection, and what entering a phase adds.\<close>

locale boot_store = entry_ledger A boot_entries name payload wrap boot_entry
  for A :: "(boot_requests, 'r) store_access" and name payload wrap
begin

lemma entered_entries:
  assumes "boot_entries (bs_pending s) \<subseteq> X"
  shows "boot_spawns X (enter_phase A wrap p ph s)"
  using issued_entries [of "bs_pending s" p "bs_tick s"] assms
  by (auto simp: boot_spawns_def enter_phase_def split_beta Let_def entry_wrap)

lemma retry_entries:
  "boot_entries (fst (boot_retry_typed A wrap s i t)) \<subseteq> {e \<in> boot_entries s. fst e \<noteq> name i} \<union>
     boot_entry ` set (case snd (boot_retry_typed A wrap s i t) of None \<Rightarrow> [] | Some r \<Rightarrow> [r])"
  using retried_entries [of s i t] by (auto simp: boot_retry_typed_def split_beta Let_def split: option.splits)

end

interpretation boot_header_entries:
  boot_store boot_header_access BootFinalizedHeaderId BootHeaderP BootFinalizedHeader
  by unfold_locales (auto simp: boot_access_defs boot_entries_def coll_entries_def inj_def)

interpretation boot_candidates_entries:
  boot_store boot_candidates_access BootPoolCandidatesId BootCandidatesP BootPoolCandidates
  by unfold_locales (auto simp: boot_access_defs boot_entries_def coll_entries_def inj_def)

interpretation boot_pools_entries:
  boot_store boot_pools_access BootPoolMetadataId BootPoolsP BootPoolMetadata
  by unfold_locales (auto simp: boot_access_defs boot_entries_def coll_entries_def inj_def)

interpretation boot_tokens_entries:
  boot_store boot_tokens_access BootTokenMetadataId BootTokensP BootTokenMetadata
  by unfold_locales (auto simp: boot_access_defs boot_entries_def coll_entries_def inj_def)

lemmas boot_taken_entries = boot_header_entries.taken_entries boot_candidates_entries.taken_entries
  boot_pools_entries.taken_entries boot_tokens_entries.taken_entries

lemmas boot_entered_entries = boot_header_entries.entered_entries boot_candidates_entries.entered_entries
  boot_pools_entries.entered_entries boot_tokens_entries.entered_entries

text \<open>The request an event answers.\<close>

fun boot_answered_key :: "boot_event \<Rightarrow> boot_request_id option" where
  "boot_answered_key (BootHeaderReceived i anchor) = Some (BootFinalizedHeaderId i)"
| "boot_answered_key (BootCandidatesReceived i blocks scan_tip next_from) = Some (BootPoolCandidatesId i)"
| "boot_answered_key (BootPoolsReceived i m) = Some (BootPoolMetadataId i)"
| "boot_answered_key (BootTokensReceived i m) = Some (BootTokenMetadataId i)"
| "boot_answered_key (BootRequestFailed i) = Some i"
| "boot_answered_key BootTick = None"

lemma boot_retry_entries:
  "boot_entries (fst (boot_retry s i t)) \<subseteq> {e \<in> boot_entries s. fst e \<noteq> i} \<union>
     boot_entry ` set (case snd (boot_retry s i t) of None \<Rightarrow> [] | Some r \<Rightarrow> [r])"
  by (cases i; simp only: boot_retry.simps)
    (rule boot_header_entries.retry_entries boot_candidates_entries.retry_entries
      boot_pools_entries.retry_entries boot_tokens_entries.retry_entries)+

lemma boot_retry_expired_entries:
  "boot_entries (fst (boot_retry_expired s t)) \<subseteq> boot_entries s \<union> boot_entry ` set (snd (boot_retry_expired s t))"
proof -
  let ?step = "\<lambda>i (requests, effects). (let (requests, issued) = boot_retry requests i t
          in (requests, effects @ (case issued of None \<Rightarrow> [] | Some r \<Rightarrow> [r])))"
  have "boot_entries (fst (fold ?step js (s, es))) \<subseteq> boot_entries s \<union> boot_entry ` set (snd (fold ?step js (s, es))) \<and>
      set es \<subseteq> set (snd (fold ?step js (s, es)))" for js es
  proof (induction js arbitrary: s es)
    case (Cons i js)
    show ?case using Cons.IH [of "fst (boot_retry s i t)" "es @ (case snd (boot_retry s i t) of None \<Rightarrow> [] | Some r \<Rightarrow> [r])"]
      boot_retry_entries [of s i t]
      by (auto simp: split_beta Let_def split: option.splits)
  qed simp
  then show ?thesis unfolding boot_retry_expired_def by blast
qed

definition boot_unanswered :: "boot_event \<Rightarrow> boot_requests \<Rightarrow> (boot_request_id \<times> boot_payload) set" where
  "boot_unanswered e r = {x \<in> boot_entries r. boot_answered_key e \<noteq> Some (fst x)}"

lemma boot_taken_unanswered:
  "boot_entries (fst (take_request boot_header_access r i)) \<subseteq> boot_unanswered (BootHeaderReceived i anchor) r"
  "boot_entries (fst (take_request boot_candidates_access r i)) \<subseteq> boot_unanswered (BootCandidatesReceived i blocks tip nf) r"
  "boot_entries (fst (take_request boot_pools_access r i)) \<subseteq> boot_unanswered (BootPoolsReceived i pm) r"
  "boot_entries (fst (take_request boot_tokens_access r i)) \<subseteq> boot_unanswered (BootTokensReceived i tm) r"
  by (auto simp: boot_unanswered_def boot_taken_entries)

lemma boot_transition_entries: "boot_spawns (boot_unanswered e (bs_pending s)) (boot_transition F chain s e)"
proof (cases e)
  case (BootRequestFailed i)
  then show ?thesis using boot_retry_entries [of "bs_pending s" i "bs_tick s"]
    by (auto simp: boot_spawns_def boot_unanswered_def split_beta Let_def)
next
  case BootTick
  then show ?thesis using boot_retry_expired_entries [of "bs_pending s" "tick_next (bs_tick s)"]
    by (auto simp: boot_spawns_def boot_unanswered_def boot_tick_arm_def split_beta Let_def)
qed (auto simp: header_arm_def candidates_arm_def pools_arm_def tokens_arm_def split_beta Let_def
    split: phase.split option.split intro!: boot_entered_entries boot_idle boot_taken_unanswered [THEN subsetD])

section \<open>The entries of a lifecycle\<close>

type_synonym chain_entry = "(any_request_id \<times> any_payload) + (boot_request_id \<times> boot_payload)"

fun lifecycle_entries :: "chain_lifecycle \<Rightarrow> chain_entry set" where
  "lifecycle_entries (Active k) = Inl ` ledger_entries (ks_pending_requests k)"
| "lifecycle_entries (Bootstrapping b buffered) = Inr ` boot_entries (bs_pending b)"

definition effect_entries :: "chain_key \<Rightarrow> 'f multi_effect set \<Rightarrow> chain_entry set" where
  "effect_entries chain es =
     {Inl (entry_of e) |e. ChainEffect chain e \<in> es} \<union> {Inr (boot_entry r) |r. BootstrapEffect chain r \<in> es}"

fun answers :: "chain_key \<Rightarrow> 'f multi_event \<Rightarrow> chain_entry \<Rightarrow> bool" where
  "answers chain (ChainEvent c e) (Inl x) \<longleftrightarrow> c = chain \<and> answered_key e = Some (fst x)"
| "answers chain (BootstrapEvent c e) (Inr x) \<longleftrightarrow> c = chain \<and> boot_answered_key e = Some (fst x)"
| "answers chain _ _ \<longleftrightarrow> False"

definition unanswered_entries :: "chain_key \<Rightarrow> 'f multi_event \<Rightarrow> chain_lifecycle \<Rightarrow> chain_entry set" where
  "unanswered_entries chain e l = {x \<in> lifecycle_entries l. \<not> answers chain e x}"

lemma effect_entries_mono: "A \<subseteq> B \<Longrightarrow> effect_entries chain A \<subseteq> effect_entries chain B"
  by (auto simp: effect_entries_def)

lemma effect_entries_simps [simp]:
  "effect_entries chain {} = {}"
  "effect_entries chain (A \<union> B) = effect_entries chain A \<union> effect_entries chain B"
  "effect_entries chain (set (wrap_chain_effects chain ks)) = Inl ` entry_of ` set ks"
  "effect_entries chain (set (wrap_bootstrap_effects chain bs)) = Inr ` boot_entry ` set bs"
  by (auto simp: effect_entries_def wrap_chain_effects_def wrap_bootstrap_effects_def)

lemma live_data_answers_nothing [simp]: "answered_key (into_kernel_event data) = None"
  by (cases data) simp_all

text \<open>A run of the kernel on live data keeps entries or adds those it emits.\<close>

lemma live_run_entries:
  "ledger_entries (ks_pending_requests (kern.run B chain k es)) \<subseteq>
     ledger_entries (ks_pending_requests k) \<union> entry_of ` set (kern.trace B chain k es)"
proof (induction es arbitrary: k)
  case (Cons e es)
  have "ledger_entries (ks_pending_requests (fst (transition B chain k e))) \<subseteq>
      ledger_entries (ks_pending_requests k) \<union> entry_of ` set (snd (transition B chain k e))"
    using transition_entries [of B chain k e] by (auto simp: unanswered_def)
  with Cons.IH [of "fst (transition B chain k e)"] show ?case by auto
qed simp

lemma advance_entries:
  assumes "fst (advance_bootstrap E chain b buffered e) = Some l"
  shows "lifecycle_entries l \<subseteq> Inr ` boot_unanswered e (bs_pending b) \<union>
    effect_entries chain (set (snd (advance_bootstrap E chain b buffered e)))"
proof (cases "completion (fst (boot_transition (env_filler E) chain b e))")
  case None
  with assms have l: "l = Bootstrapping (fst (boot_transition (env_filler E) chain b e)) buffered"
    and es: "snd (advance_bootstrap E chain b buffered e) = wrap_bootstrap_effects chain (snd (boot_transition (env_filler E) chain b e))"
    by (auto simp: advance_bootstrap_def split_beta Let_def)
  show ?thesis using boot_transition_entries [of e b "env_filler E" chain] unfolding l es by (auto simp: boot_spawns_def)
next
  case (Some c)
  with assms obtain outcome where c: "c = CompletedReady outcome"
    by (auto simp: advance_bootstrap_def split_beta Let_def split: completion_t.splits)
  let ?k = "fst (activate_bootstrap_outcome outcome)" and ?data = "map into_kernel_event buffered"
  have l: "l = Active (kern.run (env_bloom E) chain ?k ?data)"
    and es: "snd (advance_bootstrap E chain b buffered e) =
      wrap_bootstrap_effects chain (snd (boot_transition (env_filler E) chain b e)) @
      wrap_chain_effects chain (snd (activate_bootstrap_outcome outcome)) @
      wrap_chain_effects chain (kern.trace (env_bloom E) chain ?k ?data)"
    using assms Some c by (auto simp: advance_bootstrap_def replay_is_run split_beta Let_def)
  have "ledger_entries (ks_pending_requests ?k) \<subseteq> entry_of ` set (snd (activate_bootstrap_outcome outcome))"
    unfolding activate_bootstrap_outcome_def by (rule activate_entries)
  with live_run_entries [of "env_bloom E" chain ?k ?data]
  have "ledger_entries (ks_pending_requests (kern.run (env_bloom E) chain ?k ?data)) \<subseteq>
      entry_of ` set (snd (activate_bootstrap_outcome outcome)) \<union> entry_of ` set (kern.trace (env_bloom E) chain ?k ?data)"
    by blast
  from image_mono [OF this, of Inl] show ?thesis unfolding l es by (auto simp: image_Un)
qed

lemma active_entries:
  "lifecycle_entries (Active (fst (transition B chain k e))) \<subseteq>
     Inl ` unanswered e (ks_pending_requests k) \<union>
     effect_entries chain (set (wrap_chain_effects chain (snd (transition B chain k e))))"
  using transition_entries [of B chain k e] by auto

text \<open>What a tick emits for one chain is among what it emits.\<close>

fun tick_effects :: "'f env \<Rightarrow> chain_key \<Rightarrow> chain_lifecycle \<Rightarrow> 'f multi_effect list" where
  "tick_effects E chain (Active k) = wrap_chain_effects chain (snd (transition (env_bloom E) chain k TickEvent))"
| "tick_effects E chain (Bootstrapping b buffered) = snd (advance_bootstrap E chain b buffered BootTick)"

lemma tick_fold_effects:
  "set es \<subseteq> set (snd (fold (multi_tick_chain E) m (acc, es))) \<and>
   (\<forall>(chain, l)\<in>set m. set (tick_effects E chain l) \<subseteq> set (snd (fold (multi_tick_chain E) m (acc, es))))"
proof (induction m arbitrary: acc es)
  case (Cons x m)
  obtain c l where x: "x = (c, l)" by (cases x)
  obtain acc' where step: "multi_tick_chain E x (acc, es) = (acc', es @ tick_effects E c l)"
    by (cases l) (auto simp: x multi_tick_chain_def split_beta Let_def)
  from Cons.IH [of "es @ tick_effects E c l" acc'] show ?case by (auto simp: step [unfolded x] x)
qed simp

lemma chain_requests_emitted: "set (wrap_chain_effects chain (chain_requests chain es)) \<subseteq> set es"
  by (auto simp: chain_requests_def wrap_chain_effects_def split: multi_effect.splits if_splits)

text \<open>The three ways a lifecycle moves: it stays, its kernel takes a step, its bootstrap takes one.\<close>

lemma stays_entries:
  assumes "l' = l" "\<And>x. x \<in> lifecycle_entries l \<Longrightarrow> \<not> answers chain e x"
  shows "lifecycle_entries l' \<subseteq> unanswered_entries chain e l \<union> X"
  using assms by (auto simp: unanswered_entries_def)

lemma kernel_entries:
  assumes "l = Active k" "l' = Active (fst (transition B chain k ke))"
    and "set (wrap_chain_effects chain (snd (transition B chain k ke))) \<subseteq> es"
    and "\<And>x. answers chain e (Inl x) \<longleftrightarrow> answered_key ke = Some (fst x)"
  shows "lifecycle_entries l' \<subseteq> unanswered_entries chain e l \<union> effect_entries chain es"
proof -
  have "Inl ` unanswered ke (ks_pending_requests k) \<subseteq> unanswered_entries chain e l"
    by (auto simp: unanswered_entries_def unanswered_def assms(1,4))
  with active_entries [of B chain k ke] effect_entries_mono [OF assms(3), of chain] show ?thesis
    unfolding assms(2) by blast
qed

lemma loading_entries:
  assumes "l = Bootstrapping b buffered" "fst (advance_bootstrap E chain b buffered be) = Some l'"
    and "set (snd (advance_bootstrap E chain b buffered be)) \<subseteq> es"
    and "\<And>x. answers chain e (Inr x) \<longleftrightarrow> boot_answered_key be = Some (fst x)"
  shows "lifecycle_entries l' \<subseteq> unanswered_entries chain e l \<union> effect_entries chain es"
proof -
  have "Inr ` boot_unanswered be (bs_pending b) \<subseteq> unanswered_entries chain e l"
    by (auto simp: unanswered_entries_def boot_unanswered_def assms(1,4))
  with advance_entries [OF assms(2)] effect_entries_mono [OF assms(3), of chain] show ?thesis by blast
qed

lemma chain_event_emits:
  assumes "map_of (ms_chains s) chain = Some (Active k)"
  shows "set (wrap_chain_effects chain (snd (transition (env_bloom E) chain k e))) \<subseteq> set (snd (chain_event E s chain e))"
  using chain_requests_emitted [of chain "snd (chain_event E s chain e)"] unfolding chain_event_requests [OF assms] .

lemma tick_entries:
  assumes "map_of (ms_chains s) chain = Some l" "lifecycle_step E chain MultiTick l = Some l'"
  shows "lifecycle_entries l' \<subseteq> unanswered_entries chain MultiTick l \<union> effect_entries chain (set (snd (multi_tick E s)))"
proof -
  have "(chain, l) \<in> set (ms_chains s)" using assms(1) by (rule map_of_SomeD)
  then have emitted: "set (tick_effects E chain l) \<subseteq> set (snd (multi_tick E s))"
    using tick_fold_effects [of "[]" E "ms_chains s" "[]"]
    by (fastforce simp: multi_tick_def split_beta Let_def)
  show ?thesis
  proof (cases l)
    case (Active k)
    with assms(2) emitted show ?thesis by (intro kernel_entries [of _ k _ "env_bloom E" _ TickEvent]) (simp_all add: active_step_def)
  next
    case (Bootstrapping b buffered)
    with assms(2) emitted show ?thesis by (intro loading_entries [of _ b buffered E _ BootTick]) simp_all
  qed
qed

text \<open>
  A transition drops the entries of a lifecycle that its event answers; whatever it adds, it emits.
\<close>

lemma lifecycle_event_entries:
  assumes "bm_wf (ms_chains s)" "map_of (ms_chains s) chain = Some l"
    and "map_of (ms_chains (fst (multi_transition E s e))) chain = Some l'"
  shows "lifecycle_entries l' \<subseteq> unanswered_entries chain e l \<union> effect_entries chain (set (snd (multi_transition E s e)))"
proof -
  have step: "lifecycle_step E chain e l = Some l'"
    using multi_transition_at [OF assms(1), of E e chain] assms(2,3) by simp
  show ?thesis
  proof (cases e)
    case (FinalizedHeaderReceived c h n)
    show ?thesis
    proof (cases "c = chain \<and> (\<exists>k. l = Active k)")
      case True
      then obtain k where "c = chain" "l = Active k" by blast
      with step FinalizedHeaderReceived assms(2) show ?thesis
        by (intro kernel_entries [of _ k _ "env_bloom E" _ "FinalizedBlockObserved h n"])
          (simp_all add: active_step_def multi_transition.simps finalized_header_received_def with_chain_lifecycle_def split_beta Let_def)
    next
      case False
      with step FinalizedHeaderReceived show ?thesis
        by (intro stays_entries) (cases l; auto simp: active_step_def split: if_splits)+
    qed
  next
    case (SubscriptionData c data)
    consider (live) k where "c = chain" "l = Active k" | (held) b buffered where "c = chain" "l = Bootstrapping b buffered" | (other) "c \<noteq> chain"
      by (cases l) blast+
    then show ?thesis
    proof cases
      case live
      with step SubscriptionData assms(2) chain_event_emits [of s chain k E "into_kernel_event data"] show ?thesis
        by (intro kernel_entries [of _ k _ "env_bloom E" _ "into_kernel_event data"])
          (simp_all add: active_step_def multi_transition.simps subscription_data_received_def)
    qed (use step SubscriptionData in \<open>auto simp: unanswered_entries_def\<close>)
  next
    case (ChainEvent c ke)
    show ?thesis
    proof (cases "c = chain \<and> (\<exists>k. l = Active k)")
      case True
      then obtain k where "c = chain" "l = Active k" by blast
      with step ChainEvent assms(2) chain_event_emits [of s chain k E ke] show ?thesis
        by (intro kernel_entries [of _ k _ "env_bloom E" _ ke]) (simp_all add: active_step_def multi_transition.simps)
    next
      case False
      with step ChainEvent show ?thesis by (intro stays_entries) (cases l; auto simp: active_step_def split: if_splits)+
    qed
  next
    case (BootstrapEvent c be)
    show ?thesis
    proof (cases "c = chain \<and> (\<exists>b buffered. l = Bootstrapping b buffered)")
      case True
      then obtain b buffered where "c = chain" "l = Bootstrapping b buffered" by blast
      with step BootstrapEvent assms(2) show ?thesis
        by (intro loading_entries [of _ b buffered E _ be]) (simp_all add: bootstrap_event_effects)
    next
      case False
      with step BootstrapEvent show ?thesis by (intro stays_entries) (cases l; auto split: if_splits)+
    qed
  next
    case MultiTick
    with step tick_entries [OF assms(2)] show ?thesis by (simp add: multi_transition.simps)
  qed (use step in \<open>auto simp: unanswered_entries_def\<close>)
qed

end
