(* ===== verification/CacheLaws.thy ===== *)
theory CacheLaws
  imports MetadataCache
begin

text \<open>
  The laws of the metadata cache: its keys name their entries, what was stored is loaded, a cache whose
  rows are true stays so, and a resolution through it answers as the fetch alone would, whatever faults
  the database has.
\<close>

section \<open>Keys\<close>

lemma be_bytes_Suc: "be_bytes (Suc n) w = ucast (drop_bit (8 * n) w) # be_bytes n w"
  by (simp add: be_bytes_def)

lemma length_be_bytes [simp]: "length (be_bytes n w) = n"
  by (simp add: be_bytes_def)

lemma byte_of_word: "ucast (ucast w :: u8) = take_bit 8 (w :: 'a::len word)"
  by (rule bit_word_eqI) (auto simp: bit_ucast_iff bit_take_bit_iff dest: bit_imp_le_length)

lemma fold_be_bytes:
  "fold (\<lambda>b acc. acc * 256 + ucast b) (be_bytes n w) acc = acc * 256 ^ n + take_bit (8 * n) (w :: 'a::len word)"
proof (induction n arbitrary: acc)
  case (Suc n)
  have "push_bit (8 * n) (drop_bit (8 * n) (take_bit (8 + 8 * n) w)) + take_bit (8 * n) (take_bit (8 + 8 * n) w) = take_bit (8 + 8 * n) w"
    by (rule bits_ident)
  then have "push_bit (8 * n) (take_bit 8 (drop_bit (8 * n) w)) + take_bit (8 * n) w = take_bit (8 + 8 * n) w"
    by (simp add: drop_bit_take_bit)
  moreover have "push_bit (8 * n) x = x * 256 ^ n" for x :: "'a word"
    by (simp add: push_bit_eq_mult power_mult)
  ultimately show ?case
    using Suc by (simp add: be_bytes_Suc byte_of_word algebra_simps)
qed (simp add: be_bytes_def)

lemma from_be_bytes: "LENGTH('a) = 8 * n \<Longrightarrow> from_be (be_bytes n w) = (w :: 'a::len word)"
  unfolding from_be_def fold_be_bytes by (metis add_cancel_left_left mult_zero_left take_bit_length_eq)

lemma be_bytes_inj: "LENGTH('a) = 8 * n \<Longrightarrow> be_bytes n a = be_bytes n b \<Longrightarrow> a = (b :: 'a::len word)"
  by (metis from_be_bytes)

lemma chain_tag_inj: "chain_tag a = chain_tag b \<Longrightarrow> a = b"
  by (cases a; cases b; simp)

lemma decode_pool_key: "pool_key chain k = chain_tag chain # identity \<Longrightarrow> decode_pool_candidate identity = Some k"
  by (cases k) (auto simp: from_be_bytes PROTO_TAG_V3_def PROTO_TAG_V4_def)

lemma pool_key_shape: obtains identity where "pool_key chain k = chain_tag chain # identity"
  by (cases k) auto

lemma pool_key_inj: "pool_key chain k = pool_key chain' k' \<Longrightarrow> chain = chain' \<and> k = k'"
proof -
  assume eq: "pool_key chain k = pool_key chain' k'"
  obtain identity where shape: "pool_key chain k = chain_tag chain # identity" by (rule pool_key_shape)
  obtain identity' where shape': "pool_key chain' k' = chain_tag chain' # identity'" by (rule pool_key_shape)
  with eq shape have "chain = chain'" "identity = identity'" by (auto dest: chain_tag_inj)
  with decode_pool_key [OF shape] decode_pool_key [OF shape'] show ?thesis by simp
qed

lemma token_key_inj: "token_key t = token_key t' \<Longrightarrow> t = t'"
proof -
  assume eq: "token_key t = token_key t'"
  then have "ta_chain t = ta_chain t'" "be_bytes 20 (ta_address t) = be_bytes 20 (ta_address t')"
    by (auto simp: token_key_def composite_key_def dest: chain_tag_inj)
  moreover from this(2) have "ta_address t = ta_address t'" by (rule be_bytes_inj [rotated]) simp
  ultimately show ?thesis by (cases t; cases t') simp
qed

section \<open>Tables\<close>

text \<open>
  A table under injective keys. A row is true when what its value reads as is what the world says of its
  key; a value that does not read is a fault of the load, not an untruth.
\<close>

definition rows_true :: "('k \<Rightarrow> u8 list) \<Rightarrow> (u8 list \<Rightarrow> string + 'm) \<Rightarrow> ('k \<Rightarrow> 'm option) \<Rightarrow> byte_table \<Rightarrow> bool" where
  "rows_true key read truth table \<longleftrightarrow>
     (\<forall>k bs m. map_of table (key k) = Some bs \<longrightarrow> read bs = Inr m \<longrightarrow> truth k = Some m)"

definition reads_back :: "('m \<Rightarrow> string + u8 list) \<Rightarrow> (u8 list \<Rightarrow> string + 'm) \<Rightarrow> bool" where
  "reads_back write read \<longleftrightarrow> (\<forall>m bs. write m = Inr bs \<longrightarrow> read bs = Inr m)"

locale keyed_table =
  fixes key :: "'k \<Rightarrow> u8 list"
  assumes key_inj: "key a = key b \<Longrightarrow> a = b"
begin

lemma load_true:
  assumes "load_hits key read table ks hits = Inr r" "rows_true key read truth table"
    and "\<And>k m. map_of hits k = Some m \<Longrightarrow> truth k = Some m" and "map_of r k = Some m"
  shows "truth k = Some m"
  using assms
proof (induction ks arbitrary: hits)
  case (Cons j ks)
  show ?case
  proof (cases "map_of table (key j)")
    case None
    with Cons show ?thesis by simp
  next
    case (Some bs)
    with Cons.prems(1) obtain n where n: "read bs = Inr n" "load_hits key read table ks (AList.update j n hits) = Inr r"
      by (auto split: sum.splits)
    have "truth j = Some n" using Cons.prems(2) Some n(1) by (auto simp: rows_true_def)
    with Cons.prems(3) have "\<And>k m. map_of (AList.update j n hits) k = Some m \<Longrightarrow> truth k = Some m"
      by (auto simp: update_conv' split: if_splits)
    with Cons.IH [OF n(2) Cons.prems(2) _ Cons.prems(4)] show ?thesis by blast
  qed
qed simp

lemma load_domain:
  "load_hits key read table ks hits = Inr r \<Longrightarrow> map_of r k \<noteq> None \<Longrightarrow> k \<in> set ks \<or> map_of hits k \<noteq> None"
  by (induction ks arbitrary: hits) (fastforce simp: update_conv' split: option.splits sum.splits if_splits)+

lemma load_keeps:
  "load_hits key read table ks hits = Inr r \<Longrightarrow> map_of hits k = Some m \<Longrightarrow> k \<notin> set ks \<Longrightarrow> map_of r k = Some m"
  by (induction ks arbitrary: hits) (auto simp: update_conv' split: option.splits sum.splits)

lemma load_complete:
  assumes "load_hits key read table ks hits = Inr r" "k \<in> set ks" "map_of table (key k) = Some bs" "read bs = Inr m"
  shows "map_of r k = Some m"
  using assms(1,2)
proof (induction ks arbitrary: hits)
  case (Cons j ks)
  show ?case
  proof (cases "k \<in> set ks")
    case True
    with Cons show ?thesis by (auto split: option.splits sum.splits)
  next
    case False
    with Cons.prems have "j = k" by simp
    with Cons.prems(1) assms(3,4) have "load_hits key read table ks (AList.update k m hits) = Inr r" by simp
    from load_keeps [OF this _ False] show ?thesis by (simp add: update_conv')
  qed
qed simp

lemma store_true:
  assumes "store_entries key write entries table = Inr table'" "rows_true key read truth table" "reads_back write read"
    and "\<forall>(k, m)\<in>set entries. truth k = Some m"
  shows "rows_true key read truth table'"
  using assms
proof (induction entries arbitrary: table)
  case (Cons e entries)
  obtain k m where e: "e = (k, m)" by (cases e)
  with Cons.prems(1) obtain bs where w: "write m = Inr bs" "store_entries key write entries (AList.update (key k) bs table) = Inr table'"
    by (auto split: sum.splits)
  have "read bs = Inr m" using Cons.prems(3) w(1) by (simp add: reads_back_def)
  then have "rows_true key read truth (AList.update (key k) bs table)"
    using Cons.prems(2,4) e by (auto simp: rows_true_def update_conv' dest!: key_inj split: if_splits)
  from Cons.IH [OF w(2) this Cons.prems(3)] Cons.prems(4) show ?case by simp
qed simp

lemma store_keeps:
  "store_entries key write entries table = Inr table' \<Longrightarrow> k \<notin> fst ` set entries \<Longrightarrow> map_of table' (key k) = map_of table (key k)"
  by (induction entries arbitrary: table) (auto simp: update_conv' dest: key_inj split: sum.splits)

lemma store_complete:
  "store_entries key write entries table = Inr table' \<Longrightarrow> distinct (map fst entries) \<Longrightarrow> (k, m) \<in> set entries \<Longrightarrow>
   \<exists>bs. write m = Inr bs \<and> map_of table' (key k) = Some bs"
proof (induction entries arbitrary: table)
  case (Cons e entries)
  obtain j n where e: "e = (j, n)" by (cases e)
  with Cons.prems(1) obtain v where w: "write n = Inr v" "store_entries key write entries (AList.update (key j) v table) = Inr table'"
    by (auto split: sum.splits)
  show ?case
  proof (cases "(k, m) = (j, n)")
    case True
    with Cons.prems(2) e have "k \<notin> fst ` set entries" by auto
    from store_keeps [OF w(2) this] True w(1) show ?thesis by (simp add: update_conv')
  next
    case False
    with Cons.IH [OF w(2)] Cons.prems(2,3) e show ?thesis by auto
  qed
qed simp

lemma load_wf: "load_hits key read table ks hits = Inr r \<Longrightarrow> hm_wf hits \<Longrightarrow> hm_wf r"
  by (induction ks arbitrary: hits) (auto split: option.splits sum.splits)

text \<open>What was stored is what is loaded.\<close>

lemma load_stored:
  assumes "store_entries key write entries table = Inr table'" "distinct (map fst entries)" "(k, m) \<in> set entries"
    and "reads_back write read" "load_hits key read table' ks [] = Inr hits" "k \<in> set ks"
  shows "map_of hits k = Some m"
proof -
  obtain bs where "write m = Inr bs" "map_of table' (key k) = Some bs" using store_complete [OF assms(1-3)] by blast
  with assms(4) load_complete [OF assms(5,6)] show ?thesis by (simp add: reads_back_def)
qed

end

interpretation pool_rows: keyed_table "pool_key chain" for chain
  by unfold_locales (use pool_key_inj in blast)

interpretation token_rows: keyed_table token_key
  by unfold_locales (rule token_key_inj)

text \<open>The rows of one chain are not touched by what is stored for another.\<close>

lemma store_other_chain:
  "store_entries (pool_key chain) write entries table = Inr table' \<Longrightarrow> chain' \<noteq> chain \<Longrightarrow>
   map_of table' (pool_key chain' k) = map_of table (pool_key chain' k)"
  by (induction entries arbitrary: table) (auto split: sum.splits dest: pool_key_inj)

lemma load_store_keys:
  "store_entries key write entries table = Inr table' \<Longrightarrow> bs \<in> fst ` set table' \<Longrightarrow>
   bs \<in> fst ` set table \<or> (\<exists>k\<in>fst ` set entries. bs = key k)"
proof (induction entries arbitrary: table)
  case (Cons e entries)
  obtain k m where e: "e = (k, m)" by (cases e)
  with Cons.prems(1) obtain v where "store_entries key write entries (AList.update (key k) v table) = Inr table'"
    by (auto split: sum.splits)
  from Cons.IH [OF this Cons.prems(2)] e show ?case
    by (auto simp: dom_map_of_conv_image_fst [symmetric] dom_def)
qed simp

section \<open>The range of a chain\<close>

lemma in_chain_range:
  "tag < 255 \<Longrightarrow> \<not> bytes_less bs [tag] \<and> bytes_less bs [tag + 1] \<longleftrightarrow> (\<exists>identity. bs = tag # identity)"
proof (cases bs)
  case (Cons b identity)
  assume "tag < 255"
  then have "unat tag < 255" by (simp add: word_less_nat_alt)
  then have "unat (tag + 1) = unat tag + 1" by (simp add: unat_word_ariths)
  then have "b < tag + 1 \<longleftrightarrow> b \<le> tag" by (simp add: word_less_nat_alt word_le_nat_alt less_Suc_eq_le)
  with Cons show ?thesis by auto
qed simp

lemma chain_tag_bound: "chain_tag chain < 255"
  by (cases chain) simp_all

definition pool_rows_keyed :: "metadata_cache \<Rightarrow> bool" where
  "pool_rows_keyed db \<longleftrightarrow> (\<forall>bs\<in>fst ` set (db_pools db). \<exists>chain k. bs = pool_key chain k)"

lemma key_decoded:
  "(\<exists>identity. pool_key c k = chain_tag chain # identity \<and> decode_pool_candidate identity = Some j) \<longleftrightarrow> pool_key c k = pool_key chain j"
proof -
  obtain identity where shape: "pool_key c k = chain_tag c # identity" by (rule pool_key_shape)
  with decode_pool_key [OF shape] show ?thesis by (auto dest: chain_tag_inj pool_key_inj)
qed

lemma set_map_filter: "y \<in> set (List.map_filter f xs) \<longleftrightarrow> (\<exists>x\<in>set xs. f x = Some y)"
  by (induction xs) (auto simp: map_filter_simps split: option.splits)

lemma candidates_of_range:
  assumes "pool_rows_keyed db"
  shows "load_pool_candidates None db chain = Inr {k. pool_key chain k \<in> fst ` set (db_pools db)}"
proof -
  let ?row = "\<lambda>bs j. \<exists>identity. bs = chain_tag chain # identity \<and> decode_pool_candidate identity = Some j"
  have rows: "(\<exists>e\<in>set (db_pools db). ?row (fst e) j) \<longleftrightarrow> pool_key chain j \<in> fst ` set (db_pools db)" for j
  proof -
    have "?row (fst e) j \<longleftrightarrow> fst e = pool_key chain j" if "e \<in> set (db_pools db)" for e
      using that assms key_decoded unfolding pool_rows_keyed_def by (metis image_eqI)
    then have "(\<exists>e\<in>set (db_pools db). ?row (fst e) j) \<longleftrightarrow> (\<exists>e\<in>set (db_pools db). fst e = pool_key chain j)" by blast
    then show ?thesis by (simp only: image_iff eq_commute [of "pool_key chain j"])
  qed
  have elem: "(\<not> bytes_less bs [chain_tag chain] \<and> bytes_less bs [chain_tag chain + 1]) \<and>
      (case bs of [] \<Rightarrow> None | _ # identity \<Rightarrow> decode_pool_candidate identity) = Some j \<longleftrightarrow> ?row bs j" for bs j
    unfolding in_chain_range [OF chain_tag_bound] by (cases bs) simp_all
  have "j \<in> set (List.map_filter (\<lambda>(bs, _). case bs of [] \<Rightarrow> None | _ # identity \<Rightarrow> decode_pool_candidate identity)
      (filter (\<lambda>(bs, _). \<not> bytes_less bs [chain_tag chain] \<and> bytes_less bs [chain_tag chain + 1]) (db_pools db)))
      \<longleftrightarrow> (\<exists>e\<in>set (db_pools db). ?row (fst e) j)" for j
    unfolding set_map_filter set_filter Bex_def mem_Collect_eq split_beta using elem by blast
  with rows show ?thesis by (auto simp: load_pool_candidates_def Let_def)
qed

section \<open>Resolution through the cache\<close>

text \<open>
  What the chain would answer is the world: a result for every key. A fetch is truthful when it answers
  each key asked, and no other, with the world's result; it may still fail as a whole.
\<close>

definition fetch_truthful :: "('k \<Rightarrow> 'f + 'm) \<Rightarrow> ('k set \<Rightarrow> client_evm_error + ('k, 'f + 'm) hmap) \<Rightarrow> bool" where
  "fetch_truthful world fetch \<longleftrightarrow>
     (\<forall>ks r. fetch ks = Inr r \<longrightarrow> hm_wf r \<and> (\<forall>k. map_of r k = (if k \<in> ks then Some (world k) else None)))"

definition validated :: "('k \<Rightarrow> 'f + 'm) \<Rightarrow> 'k \<Rightarrow> 'm option" where
  "validated world k = (case world k of Inr m \<Rightarrow> Some m | Inl _ \<Rightarrow> None)"

definition pool_cache_true :: "json_ops \<Rightarrow> (chain_key \<Rightarrow> protocol_pool_key \<Rightarrow> pool_metadata_result) \<Rightarrow> metadata_cache \<Rightarrow> bool" where
  "pool_cache_true J world db \<longleftrightarrow> (\<forall>chain. rows_true (pool_key chain) (js_pool_from J) (validated (world chain)) (db_pools db))"

definition token_cache_true :: "json_ops \<Rightarrow> (token_address \<Rightarrow> token_metadata_result) \<Rightarrow> metadata_cache \<Rightarrow> bool" where
  "token_cache_true J world db \<longleftrightarrow> rows_true token_key (js_token_from J) (validated world) (db_tokens db)"

lemma validated_iff [simp]: "validated world k = Some m \<longleftrightarrow> world k = Inr m"
  by (simp add: validated_def split: sum.splits)

lemma in_successes: "(k, m) \<in> set (successes r) \<longleftrightarrow> (k, Inr m) \<in> set r"
  unfolding successes_def set_map_filter by (force split: sum.splits)

text \<open>Results that validate only what the world has.\<close>

definition results_true :: "('k \<Rightarrow> 'f + 'm) \<Rightarrow> ('k, 'f + 'm) hmap \<Rightarrow> bool" where
  "results_true world r \<longleftrightarrow> (\<forall>k m. (k, Inr m) \<in> set r \<longrightarrow> world k = Inr m)"

lemma with_hits_lookup:
  fixes metadata :: "('k, 'f + 'm) hmap"
  shows "hm_wf cached \<Longrightarrow> map_of (with_hits metadata cached) k = (case map_of cached k of None \<Rightarrow> map_of metadata k | Some m \<Rightarrow> Some (Inr m))"
proof -
  let ?hits = "map (\<lambda>(k, m). (k, Inr m :: 'f + 'm)) cached"
  assume "hm_wf cached"
  then have "map_of (rev ?hits) = map_of ?hits"
    by (intro map_of_rev_wf) (simp add: hm_wf_def comp_def split_beta)
  moreover have "map_of ?hits k = map_option Inr (map_of cached k)"
    by (induction cached) auto
  ultimately show ?thesis by (simp add: with_hits_def map_of_extend split: option.splits)
qed

context keyed_table
begin

text \<open>What the cache loads is known of wanted keys, and only truth.\<close>

lemma loaded_hits:
  assumes "rows_true key read truth table" "set ks \<subseteq> wanted"
    and "cached = loaded_or_empty loaded" "loaded = load_hits key read table ks [] \<or> (\<exists>e. loaded = Inl e)"
  shows "hm_wf cached \<and> (\<forall>k m. map_of cached k = Some m \<longrightarrow> k \<in> wanted \<and> truth k = Some m)"
proof (cases loaded)
  case (Inr r)
  with assms(4) have load: "load_hits key read table ks [] = Inr r" by auto
  have "map_of r k = Some m \<Longrightarrow> k \<in> wanted \<and> truth k = Some m" for k m
    using load_true [OF load assms(1)] load_domain [OF load, of k] assms(2) by auto
  with load_wf [OF load] assms(3) Inr show ?thesis by (simp add: loaded_or_empty_def)
qed (simp add: assms(3) loaded_or_empty_def)

end

lemma answers_as_world:
  assumes "hm_wf cached" "\<forall>k m. map_of cached k = Some m \<longrightarrow> k \<in> wanted \<and> world k = Inr m"
    and "fetch_truthful world fetch" "fetch (cache_misses wanted cached) = Inr r"
  shows "map_of (with_hits r cached) k = (if k \<in> wanted then Some (world k) else None)"
proof -
  from assms(3,4) have "map_of r k = (if k \<in> cache_misses wanted cached then Some (world k) else None)"
    by (simp add: fetch_truthful_def)
  then show ?thesis
    using assms(2) by (auto simp: with_hits_lookup [OF assms(1)] cache_misses_def hm_contains_def split: option.splits)
qed

lemma misses_wanted: "cache_misses wanted cached \<subseteq> wanted"
  by (auto simp: cache_misses_def)

lemma sorted_wanted: "set (sorted_list_of_set (ks :: 'a::linorder set)) \<subseteq> ks"
  by (cases "finite ks") simp_all

lemma stored_pools_true:
  assumes "reads_back (js_pool_to J) (js_pool_from J)" "pool_cache_true J world db" "results_true (world chain) r"
  shows "pool_cache_true J world (fst (store_pool_metadata J fault chain r db))"
proof (cases "\<exists>table. fault = None \<and> successes r \<noteq> [] \<and> store_entries (pool_key chain) (js_pool_to J) (successes r) (db_pools db) = Inr table")
  case True
  then obtain table where t: "fault = None" "successes r \<noteq> []"
    "store_entries (pool_key chain) (js_pool_to J) (successes r) (db_pools db) = Inr table" by blast
  have "rows_true (pool_key c) (js_pool_from J) (validated (world c)) table" for c
  proof (cases "c = chain")
    case True
    have "\<forall>(k, m)\<in>set (successes r). validated (world chain) k = Some m"
      using assms(3) by (auto simp: in_successes results_true_def)
    with True assms(1,2) pool_rows.store_true [OF t(3)] show ?thesis by (simp add: pool_cache_true_def)
  next
    case False
    then show ?thesis using assms(2) store_other_chain [OF t(3)] by (simp add: pool_cache_true_def rows_true_def)
  qed
  with t show ?thesis by (simp add: pool_cache_true_def store_pool_metadata_def)
qed (use assms(2) in \<open>auto simp: store_pool_metadata_def split: option.splits sum.splits\<close>)

lemma stored_tokens_true:
  assumes "reads_back (js_token_to J) (js_token_from J)" "token_cache_true J world db" "results_true (world) r"
  shows "token_cache_true J world (fst (store_token_metadata J fault r db))"
proof (cases "\<exists>table. fault = None \<and> successes r \<noteq> [] \<and> store_entries token_key (js_token_to J) (successes r) (db_tokens db) = Inr table")
  case True
  then obtain table where t: "fault = None" "successes r \<noteq> []"
    "store_entries token_key (js_token_to J) (successes r) (db_tokens db) = Inr table" by blast
  have "\<forall>(k, m)\<in>set (successes r). validated world k = Some m"
    using assms(3) by (auto simp: in_successes results_true_def)
  with t assms(1,2) token_rows.store_true [OF t(3)] show ?thesis by (simp add: token_cache_true_def store_token_metadata_def)
qed (use assms(2) in \<open>auto simp: store_token_metadata_def split: option.splits sum.splits\<close>)

lemma cached_metadata_cases:
  assumes "cached_metadata_with wanted loaded store fetch db = (db', answer)"
  obtains (failed) e where "fetch (cache_misses wanted (loaded_or_empty loaded)) = Inl e" "db' = db" "answer = Inl e"
  | (answered) r where "fetch (cache_misses wanted (loaded_or_empty loaded)) = Inr r" "db' = fst (store r db)"
      "answer = Inr (with_hits r (loaded_or_empty loaded))"
  using assms by (auto simp: cached_metadata_with_def Let_def split: sum.splits)

lemma pools_loaded:
  assumes "pool_cache_true J world db" "cached = loaded_or_empty (load_pool_metadata J fault db chain wanted)"
  shows "hm_wf cached \<and> (\<forall>k m. map_of cached k = Some m \<longrightarrow> k \<in> wanted \<and> world chain k = Inr m)"
proof -
  have "rows_true (pool_key chain) (js_pool_from J) (validated (world chain)) (db_pools db)"
    using assms(1) by (simp add: pool_cache_true_def)
  from pool_rows.loaded_hits [OF this sorted_wanted [of wanted] assms(2)] show ?thesis
    by (cases fault) (simp_all add: load_pool_metadata_def)
qed

lemma tokens_loaded:
  assumes "token_cache_true J world db" "cached = loaded_or_empty (load_token_metadata J fault db wanted)"
  shows "hm_wf cached \<and> (\<forall>k m. map_of cached k = Some m \<longrightarrow> k \<in> wanted \<and> world k = Inr m)"
proof -
  have "rows_true token_key (js_token_from J) (validated world) (db_tokens db)"
    using assms(1) by (simp add: token_cache_true_def)
  from token_rows.loaded_hits [OF this sorted_wanted [of wanted] assms(2)] show ?thesis
    by (cases fault) (simp_all add: load_token_metadata_def)
qed

lemma truthful_results: "fetch_truthful world fetch \<Longrightarrow> fetch ks = Inr r \<Longrightarrow> results_true world r"
  by (auto simp: fetch_truthful_def results_true_def hm_wf_in_set split: if_splits)

text \<open>
  C31. Resolving pool metadata through the cache is the fetch alone, seen from outside: with a cache
  whose rows are true, a fetch that answers truthfully or fails, and whatever faults the database has
  when it loads or stores, the result gives every wanted pool what the chain would answer and gives
  nothing else; when the fetch fails, the result is its failure for some of the wanted pools and the
  cache is as it was. The cache's rows stay true, for every chain.
\<close>

theorem cache_transparent:
  assumes "reads_back (js_pool_to J) (js_pool_from J)" "pool_cache_true J world db" "fetch_truthful (world chain) fetch"
    and "cached_pool_metadata J load_fault store_fault chain wanted fetch db = (db', answer)"
  shows "pool_cache_true J world db' \<and>
    (case answer of
       Inl e \<Rightarrow> db' = db \<and> (\<exists>ks\<subseteq>wanted. fetch ks = Inl e)
     | Inr r \<Rightarrow> \<forall>k. map_of r k = (if k \<in> wanted then Some (world chain k) else None))"
  using assms(4) unfolding cached_pool_metadata_def
proof (cases rule: cached_metadata_cases)
  case (failed e)
  then have "\<exists>ks\<subseteq>wanted. fetch ks = Inl e" by (intro exI conjI) (rule misses_wanted)
  with failed(2,3) assms(2) show ?thesis by simp
next
  case (answered r)
  note hits = pools_loaded [OF assms(2) refl, of load_fault chain wanted]
  have "map_of (with_hits r (loaded_or_empty (load_pool_metadata J load_fault db chain wanted))) k =
      (if k \<in> wanted then Some (world chain k) else None)" for k
    using hits answers_as_world [OF _ _ assms(3) answered(1)] by blast
  moreover have "pool_cache_true J world db'"
    using stored_pools_true [OF assms(1,2)] truthful_results [OF assms(3) answered(1)] answered(2) by blast
  ultimately show ?thesis using answered(3) by simp
qed

definition sample_metadata :: pool_metadata where
  "sample_metadata = \<lparr>pm_token0 = 1, pm_token1 = 2, pm_fee = Static 500 10\<rparr>"

definition sample_json :: json_ops where
  "sample_json =
     \<lparr>js_pool_to = (\<lambda>m. if m = sample_metadata then Inr [7] else Inl ''other''),
      js_pool_from = (\<lambda>bs. if bs = [7] then Inr sample_metadata else Inl ''corrupt''),
      js_token_to = (\<lambda>m. Inr (case tm_decimals m of TokenDecimals d \<Rightarrow> be_bytes 1 d)),
      js_token_from = (\<lambda>bs. Inr \<lparr>tm_decimals = TokenDecimals (from_be bs)\<rparr>)\<rparr>"

definition sample_world :: "chain_key \<Rightarrow> protocol_pool_key \<Rightarrow> pool_metadata_result" where
  "sample_world chain k = (if chain = Ethereum \<and> k = UniswapV3 1 then Inr sample_metadata else Inl (CallFailed Token0))"

definition sample_fetch :: "protocol_pool_key set \<Rightarrow> client_evm_error + (protocol_pool_key, pool_metadata_result) hmap" where
  "sample_fetch ks = (if ks = {UniswapV3 2} then Inr [(UniswapV3 2, Inl (CallFailed Token0))] else Inl (HttpTransport ''down''))"

definition sample_cache :: metadata_cache where
  "sample_cache = cache_opened\<lparr>db_pools := [(pool_key Ethereum (UniswapV3 1), [7])]\<rparr>"

lemma sample_wanted: "sorted_list_of_set {UniswapV3 1, UniswapV3 2} = [UniswapV3 1, UniswapV3 2]"
  by (simp add: insort_key.simps less_protocol_pool_key_def less_eq_protocol_pool_key_def lex_less_def lex_le_def)

lemma sample_resolution:
  "cached_pool_metadata sample_json None (Some ''disk full'') Ethereum {UniswapV3 1, UniswapV3 2} sample_fetch sample_cache =
     (sample_cache, Inr [(UniswapV3 2, Inl (CallFailed Token0)), (UniswapV3 1, Inr sample_metadata)])"
proof -
  have hits: "load_pool_metadata sample_json None sample_cache Ethereum {UniswapV3 1, UniswapV3 2} = Inr [(UniswapV3 1, sample_metadata)]"
    unfolding load_pool_metadata_def sample_wanted by (simp add: sample_cache_def sample_json_def be_bytes_def upt_rec)
  have "cache_misses {UniswapV3 1, UniswapV3 2} [(UniswapV3 1, sample_metadata)] = {UniswapV3 2}"
    by (auto simp: cache_misses_def hm_contains_def)
  then show ?thesis
    by (simp add: cached_pool_metadata_def cached_metadata_with_def hits loaded_or_empty_def sample_fetch_def
        store_pool_metadata_def successes_def map_filter_simps with_hits_def hm_extend_def)
qed

theorem cache_transparent_witness:
  "pool_cache_true sample_json sample_world sample_cache \<and>
   map_of [(UniswapV3 2, Inl (CallFailed Token0)), (UniswapV3 1, Inr sample_metadata)] (UniswapV3 1) = Some (sample_world Ethereum (UniswapV3 1))"
proof -
  have codec: "reads_back (js_pool_to sample_json) (js_pool_from sample_json)"
    by (simp add: reads_back_def sample_json_def)
  have "pool_cache_true sample_json sample_world sample_cache"
    by (auto simp: pool_cache_true_def rows_true_def sample_cache_def sample_json_def sample_world_def
        simp del: pool_key.simps dest: pool_key_inj split: if_splits)
  moreover have "fetch_truthful (sample_world Ethereum) sample_fetch"
    by (auto simp: fetch_truthful_def sample_fetch_def sample_world_def hm_wf_def)
  ultimately show ?thesis
    using cache_transparent [OF codec _ _ sample_resolution, of sample_world] by (auto split: if_splits dest: spec [of _ "UniswapV3 1"])
qed

text \<open>
  The command line's resolver, with a service per protocol, is the server's over the fetch that asks
  both and merges; so it is transparent too.
\<close>

definition split_fetch where
  "split_fetch fetch_v3 fetch_v4 misses =
     (case fetch_v3 (Set.filter (\<lambda>k. uniswap_v4_pool_id k = None) misses) of
        Inl e \<Rightarrow> Inl e
      | Inr metadata \<Rightarrow>
          (case fetch_v4 (Set.filter (\<lambda>k. uniswap_v4_pool_id k \<noteq> None) misses) of
             Inl e \<Rightarrow> Inl e
           | Inr v4_metadata \<Rightarrow> Inr (hm_extend metadata v4_metadata)))"

lemma command_line_resolver:
  "resolve_pool_metadata_with J load_fault store_fault chain candidates fetch_v3 fetch_v4 db =
   cached_pool_metadata J load_fault store_fault chain candidates (split_fetch fetch_v3 fetch_v4) db"
  by (simp add: resolve_pool_metadata_with_def cached_pool_metadata_def cached_metadata_with_def split_fetch_def Let_def split: sum.splits)

lemma split_fetch_truthful:
  assumes "fetch_truthful world fetch_v3" "fetch_truthful world fetch_v4"
  shows "fetch_truthful world (split_fetch fetch_v3 fetch_v4)"
  unfolding fetch_truthful_def
proof (intro allI impI)
  fix ks r assume "split_fetch fetch_v3 fetch_v4 ks = Inr r"
  then obtain a b where a: "fetch_v3 (Set.filter (\<lambda>k. uniswap_v4_pool_id k = None) ks) = Inr a"
    and b: "fetch_v4 (Set.filter (\<lambda>k. uniswap_v4_pool_id k \<noteq> None) ks) = Inr b" and r: "r = hm_extend a b"
    by (auto simp: split_fetch_def split: sum.splits)
  from assms(1) a have a': "hm_wf a" "\<And>k. map_of a k = (if k \<in> ks \<and> uniswap_v4_pool_id k = None then Some (world k) else None)"
    by (auto simp: fetch_truthful_def)
  from assms(2) b have "hm_wf b" "\<And>k. map_of b k = (if k \<in> ks \<and> uniswap_v4_pool_id k \<noteq> None then Some (world k) else None)"
    by (auto simp: fetch_truthful_def)
  then show "hm_wf r \<and> (\<forall>k. map_of r k = (if k \<in> ks then Some (world k) else None))"
    using a' by (auto simp: r map_of_extend map_of_rev_wf)
qed

lemma resolver_keeps_rows_keyed:
  assumes "pool_rows_keyed db" "cached_pool_metadata J load_fault store_fault chain wanted fetch db = (db', answer)"
  shows "pool_rows_keyed db'"
  using assms(2) unfolding cached_pool_metadata_def
proof (cases rule: cached_metadata_cases)
  case (answered r)
  then show ?thesis using assms(1)
    by (auto simp: pool_rows_keyed_def store_pool_metadata_def dest!: load_store_keys split: option.splits sum.splits if_splits)
      (metis fst_conv)
qed (use assms(1) in simp)

end
