(* ===== verification/RegistryRules.thy ===== *)
theory RegistryRules
  imports KernelLaws
begin

text \<open>
  What the kernel's registries hold of an admissible kind. \<open>P\<close> says which metadata is admissible for a
  pool, \<open>Q\<close> for a token: the kernel keeps both of everything it has verified, because it changes its
  registries only by the results it receives.
\<close>

definition results_hold :: "('k \<Rightarrow> 'm \<Rightarrow> bool) \<Rightarrow> ('k, 'f + 'm) hmap \<Rightarrow> bool" where
  "results_hold P r \<longleftrightarrow> (\<forall>k m. (k, Inr m) \<in> set r \<longrightarrow> P k m)"

definition pools_hold :: "(protocol_pool_key \<Rightarrow> pool_metadata \<Rightarrow> bool) \<Rightarrow> chain_key \<Rightarrow> trusted_pool_registry \<Rightarrow> bool" where
  "pools_hold P chain r \<longleftrightarrow> (\<forall>k m. pool_verified_metadata r (PoolRef k chain) = Some m \<longrightarrow> P k m)"

definition tokens_hold :: "(token_address \<Rightarrow> token_metadata \<Rightarrow> bool) \<Rightarrow> token_registry \<Rightarrow> bool" where
  "tokens_hold Q r \<longleftrightarrow> (\<forall>t m. map_of (tr_verified r) t = Some m \<longrightarrow> Q t m)"

lemma results_hold_filter: "results_hold P r \<Longrightarrow> results_hold P (filter keep r)"
  by (auto simp: results_hold_def)

lemma pools_hold_results:
  "results_hold P results \<Longrightarrow> pools_hold P chain r \<Longrightarrow> pools_hold P chain (pool_with_metadata_results r chain results)"
  unfolding pool_with_metadata_results_def
proof (induction results arbitrary: r)
  case (Cons e results)
  obtain k v where e: "e = (k, v)" by (cases e)
  have "pools_hold P chain (pool_result_step chain e r)"
    using Cons.prems e by (cases v) (auto simp: pools_hold_def pool_verified_metadata_def results_hold_def split: if_splits)
  with Cons show ?case by (simp add: results_hold_def)
qed simp

lemma tokens_hold_results:
  "results_hold P results \<Longrightarrow> tokens_hold P r \<Longrightarrow> tokens_hold P (token_with_metadata_results r results)"
  unfolding token_with_metadata_results_def
proof (induction results arbitrary: r)
  case (Cons e results)
  obtain k v where e: "e = (k, v)" by (cases e)
  have "tokens_hold P (token_result_step e r)"
    using Cons.prems e by (cases v) (auto simp: tokens_hold_def results_hold_def split: if_splits)
  with Cons show ?case by (simp add: results_hold_def)
qed simp

text \<open>The kernel changes its registries only by the results it receives.\<close>

fun event_holds :: "(protocol_pool_key \<Rightarrow> pool_metadata \<Rightarrow> bool) \<Rightarrow> (token_address \<Rightarrow> token_metadata \<Rightarrow> bool) \<Rightarrow> event \<Rightarrow> bool" where
  "event_holds P Q (PoolMetadataReceived i m) \<longleftrightarrow> results_hold P m"
| "event_holds P Q (TokenMetadataReceived i m) \<longleftrightarrow> results_hold Q m"
| "event_holds P Q _ \<longleftrightarrow> True"

definition registries_hold :: "(protocol_pool_key \<Rightarrow> pool_metadata \<Rightarrow> bool) \<Rightarrow> (token_address \<Rightarrow> token_metadata \<Rightarrow> bool) \<Rightarrow> chain_key \<Rightarrow> kernel_state \<Rightarrow> bool" where
  "registries_hold P Q chain k \<longleftrightarrow> pools_hold P chain (ks_pool_registry k) \<and> tokens_hold Q (ks_token_registry k)"

lemma registries_requests [simp]:
  "registries_hold P Q chain (s\<lparr>ks_pending_requests := r\<rparr>) = registries_hold P Q chain s"
  "registries_hold P Q chain (s\<lparr>ks_tick := t\<rparr>) = registries_hold P Q chain s"
  by (simp_all add: registries_hold_def)

lemma drained_registries [simp]: "registries_hold P Q chain (with_streamed_logs_drained s h) = registries_hold P Q chain s"
  by (simp add: registries_hold_def with_streamed_logs_drained_def with_log_streamed_def map_graph_def split: option.splits)

lemma log_complete_registries [simp]: "registries_hold P Q chain (with_log_complete s h logs) = registries_hold P Q chain s"
  by (simp add: registries_hold_def with_log_complete_def map_graph_def split_beta Let_def)

lemma apply_range_registries [simp]: "registries_hold P Q chain (apply_range xs cs s) = registries_hold P Q chain s"
proof -
  have "registries_hold P Q chain (fold (\<lambda>(h, logs) s. with_log_complete s h logs) xs s) = registries_hold P Q chain s" for xs s
    by (induction xs arbitrary: s) (auto split: prod.splits)
  moreover have "registries_hold P Q chain (fold (\<lambda>h s. if keep h then with_log_complete s h [] else s) ys s) =
      registries_hold P Q chain s" for keep ys s
    by (induction ys arbitrary: s) auto
  ultimately show ?thesis by (simp add: apply_range_def Let_def)
qed

lemma feed_registries [simp]:
  "registries_hold P Q chain (with_log_streamed s h logs) = registries_hold P Q chain s"
  "registries_hold P Q chain (with_streamed_logs_buffered s h logs) = registries_hold P Q chain s"
  "registries_hold P Q chain (fst (with_log_head_observed s h p n b cap)) = registries_hold P Q chain s"
  "registries_hold P Q chain (with_log_header_received s h p n b cap) = registries_hold P Q chain s"
  "registries_hold P Q chain (with_finalized_pool_seeds s at results) = registries_hold P Q chain s"
  "registries_hold P Q chain (with_finalized_block_observed B s chain h) = registries_hold P Q chain s"
  by (simp_all add: registries_hold_def with_log_streamed_def with_streamed_logs_buffered_def with_log_head_observed_def
      with_log_header_received_def with_finalized_pool_seeds_def with_finalized_block_observed_def map_graph_def
      with_streamed_logs_drained_def split_beta Let_def split: option.splits)

lemma scheduled_registries [simp]:
  "only_issues f \<Longrightarrow> registries_hold P Q chain (fst (f (s, es))) = registries_hold P Q chain s"
  by (simp add: registries_hold_def only_issues_state)

lemma activated_registries:
  "registries_hold P Q chain (fst (activate_from_seed h n sn ps ts bs)) \<longleftrightarrow> pools_hold P chain ps \<and> tokens_hold Q ts"
  by (simp add: registries_hold_def activate_from_seed_def split_beta Let_def)

lemma answered_registries:
  assumes "\<And>p s. registries_hold P Q chain s \<Longrightarrow> registries_hold P Q chain (respond p s)" "registries_hold P Q chain s"
  shows "registries_hold P Q chain (fst (answer B chain A s i respond))"
  using assms by (auto simp: answer_def split_beta Let_def scheduled_registries [OF only_issues_schedule] split: option.split)

lemma accepted_registries:
  "results_hold P m \<Longrightarrow> registries_hold P Q chain s \<Longrightarrow> registries_hold P Q chain (accept_pool_metadata chain m gp s)"
  "results_hold Q tm \<Longrightarrow> registries_hold P Q chain s \<Longrightarrow> registries_hold P Q chain (accept_token_metadata tm gt s)"
  by (auto simp: registries_hold_def accept_pool_metadata_def accept_token_metadata_def
      intro: pools_hold_results tokens_hold_results results_hold_filter)

lemma follow_up_registries:
  "registries_hold P Q chain (fst (with_finality_probe_if_orphan_suspected h n (schedule_unknown_canonical_requests B chain (s, es)))) =
   registries_hold P Q chain s"
  "registries_hold P Q chain (fst (with_finality_probe_if_orphan_suspected h n (schedule_unknown_canonical_requests B chain
      (issue block_headers_access BlockHeader payload (s, es))))) = registries_hold P Q chain s"
  using scheduled_registries [OF only_issues_comp [OF only_issues_schedule only_issues_probe]]
    scheduled_registries [OF only_issues_comp [OF issue_onlys(1) only_issues_comp [OF only_issues_schedule only_issues_probe]]]
  by simp_all

lemma header_received_registries:
  "registries_hold P Q chain s \<Longrightarrow> registries_hold P Q chain (fst (header_received B chain s i h p b n))"
  by (simp add: header_received_def split_beta Let_def follow_up_registries split: option.split)

lemma head_observed_registries:
  assumes "registries_hold P Q chain s"
  shows "registries_hold P Q chain (fst (outcome_result (head_observed B chain s h p b n)))"
proof -
  have "registries_hold P Q chain (fst (with_log_head_observed s h p n b (max_pending_blocks chain)))"
    using assms by simp
  then show ?thesis
    by (simp add: head_observed_def split_beta Let_def follow_up_registries)
qed

lemma transition_registries:
  assumes "registries_hold P Q chain s" "event_holds P Q e"
  shows "registries_hold P Q chain (fst (transition B chain s e))"
proof (cases e)
  case (HeadObserved h p b n)
  with head_observed_registries [OF assms(1)] show ?thesis by (simp add: transition_def)
next
  case (FinalizedBlockObserved h n)
  with assms(1) show ?thesis by (simp add: transition_def scheduled_registries [OF only_issues_ranges])
next
  case (BlockHeaderReceived i h p b n)
  with header_received_registries [OF assms(1)] show ?thesis by (simp add: transition_def)
next
  case (CanonicalHeaderAtHeightReceived i h n)
  moreover have "registries_hold P Q chain (fst (activate_from_seed h n [] (ks_pool_registry s) (ks_token_registry s) []))"
    unfolding activated_registries using assms(1) by (simp add: registries_hold_def)
  ultimately show ?thesis
    using assms(1) by (auto simp: transition_def canonical_header_received_def split_beta Let_def)
next
  case (LogObserved h logs)
  with assms(1) show ?thesis by (simp add: transition_def scheduled_registries [OF only_issues_schedule])
qed (use assms in \<open>auto simp: transition_def split_beta Let_def intro!: answered_registries accepted_registries\<close>)

end
