(* ===== verification/RuntimeLaws.thy ===== *)
theory RuntimeLaws
  imports ServerRuntime CacheLaws LedgerEntries RegistryRules
begin

text \<open>
  The server beside its runtime: a step relation of the loop, the workers that execute effects, the
  subscriptions and restarts, and what holds of every reachable run. Nothing the server awaits is
  lost, and no metadata enters the registries or the cache that the chain did not vouch for.
\<close>

section \<open>Runs\<close>

text \<open>
  A run has the state of the loop, the effects handed to the workers and not yet executed, the inputs
  sent and not yet folded, and the cache on disk. Executing an effect is one step, whatever the
  services and the database answer then; a restart loses everything but the cache.
\<close>

record server_run =
  sv_state :: server_state
  sv_effects :: "server_effect multiset"
  sv_queue :: "server_input list"
  sv_cache :: metadata_cache

definition server_boot :: "metadata_cache \<Rightarrow> server_run" where
  "server_boot db = \<lparr>sv_state = fst server_init, sv_effects = mset (snd server_init), sv_queue = [], sv_cache = db\<rparr>"

inductive server_step :: "bloom_ops \<Rightarrow> (runtime_env \<Rightarrow> bool) \<Rightarrow> server_run \<Rightarrow> server_run \<Rightarrow> bool" for B allowed where
  step_fold: "sv_queue r = i # q \<Longrightarrow> server_transition B (sv_state r) i = (s', es) \<Longrightarrow>
    server_step B allowed r (r\<lparr>sv_state := s', sv_effects := sv_effects r + mset es, sv_queue := q\<rparr>)"
| step_execute: "effect \<in># sv_effects r \<Longrightarrow> allowed E \<Longrightarrow> execute_effect E effect (sv_cache r) = (db', inputs) \<Longrightarrow>
    server_step B allowed r
      (r\<lparr>sv_effects := sv_effects r - {#effect#}, sv_queue := sv_queue r @ inputs, sv_cache := db'\<rparr>)"
| step_stream: "map_new_head e = Some i \<Longrightarrow> server_step B allowed r (r\<lparr>sv_queue := sv_queue r @ [i]\<rparr>)"
| step_clock: "server_step B allowed r (r\<lparr>sv_queue := sv_queue r @ [ServerTick]\<rparr>)"
| step_restart: "server_step B allowed r (server_boot (sv_cache r))"

inductive server_reaches :: "bloom_ops \<Rightarrow> (runtime_env \<Rightarrow> bool) \<Rightarrow> metadata_cache \<Rightarrow> server_run \<Rightarrow> bool" for B allowed db where
  reaches_boot: "server_reaches B allowed db (server_boot db)"
| reaches_step: "server_reaches B allowed db r \<Longrightarrow> server_step B allowed r r' \<Longrightarrow> server_reaches B allowed db r'"

section \<open>Nothing awaited is lost\<close>

lemma request_is_answered: "answered_key (snd (execute_request_with F request db)) = Some (request_key request)"
  by (cases request) (auto simp: Let_def request_failed_def split_beta split: sum.splits option.splits)

fun server_ledger :: "server_state \<Rightarrow> (any_request_id \<times> any_payload) set" where
  "server_ledger (Running k) = ledger_entries (ks_pending_requests k)"
| "server_ledger _ = {}"

definition answered_in :: "server_input list \<Rightarrow> any_request_id \<Rightarrow> bool" where
  "answered_in inputs k \<longleftrightarrow> (\<exists>e. KernelInput e \<in> set inputs \<and> answered_key e = Some k)"

definition fetched_in :: "server_effect multiset \<Rightarrow> any_request_id \<Rightarrow> any_payload \<Rightarrow> bool" where
  "fetched_in effects k p \<longleftrightarrow> (\<exists>request. KernelEffect (Request request) \<in># effects \<and> request_key request = k \<and> issued_payload request = p)"

text \<open>What a state of the lifecycle waits for is underway.\<close>

fun underway :: "server_state \<Rightarrow> server_effect multiset \<Rightarrow> server_input list \<Rightarrow> bool" where
  "underway AwaitingSeed effects inputs \<longleftrightarrow>
     LoadRegistrySeed \<in># effects \<or> (\<exists>seed. RegistrySeed seed \<in> set inputs)"
| "underway (AwaitingAnchor seed) effects inputs \<longleftrightarrow>
     FetchFinalizedHeader \<in># effects \<or> (\<exists>anchor. FinalizedHeader anchor \<in> set inputs)"
| "underway (Running k) effects inputs \<longleftrightarrow>
     (\<forall>(key, p)\<in>ledger_entries (ks_pending_requests k). fetched_in effects key p \<or> answered_in inputs key)"

lemma fetched_union: "fetched_in (effects + effects') k p \<longleftrightarrow> fetched_in effects k p \<or> fetched_in effects' k p"
  by (auto simp: fetched_in_def)

lemma entry_fetched: "(k, p) \<in> entry_of ` set es \<Longrightarrow> fetched_in (mset (kernel_effects es @ rest)) k p"
proof -
  assume "(k, p) \<in> entry_of ` set es"
  then obtain e where e: "e \<in> set es" "entry_of e = (k, p)" by auto
  obtain request where "e = Request request" by (cases e)
  with e show ?thesis by (auto simp: fetched_in_def kernel_effects_def entry_of_def request_entry_def)
qed

lemma running_underway:
  assumes "underway (Running k) effects (i # q)" "\<And>key. answered_in [i] key \<Longrightarrow> answered_key e = Some key"
  shows "underway (Running (fst (transition B CHAIN k e)))
    (effects + mset (kernel_effects (snd (transition B CHAIN k e)) @ rest)) q"
proof -
  have "fetched_in (effects + mset (kernel_effects (snd (transition B CHAIN k e)) @ rest)) key p \<or> answered_in q key"
    if "(key, p) \<in> ledger_entries (ks_pending_requests (fst (transition B CHAIN k e)))" for key p
  proof (cases "(key, p) \<in> unanswered e (ks_pending_requests k)")
    case True
    with assms(1) have "fetched_in effects key p \<or> answered_in (i # q) key" by (auto simp: unanswered_def)
    moreover have "\<not> answered_in [i] key" using assms(2) True by (auto simp: unanswered_def)
    ultimately show ?thesis by (auto simp: fetched_union answered_in_def)
  next
    case False
    with that transition_entries [of B CHAIN k e] have "(key, p) \<in> entry_of ` set (snd (transition B CHAIN k e))" by blast
    from entry_fetched [OF this, of rest] show ?thesis unfolding fetched_union by blast
  qed
  then show ?thesis by auto
qed

lemma fold_underway:
  assumes "underway s effects (i # q)" "server_transition B s i = (s', es)"
  shows "underway s' (effects + mset es) q"
  using assms
proof (induction B s i rule: server_transition.induct)
  case (9 B k e)
  with running_underway [of k effects "KernelInput e" q e B "[]"] show ?case
    by (auto simp: answered_in_def split_beta)
next
  case (10 B k anchor)
  with running_underway [of k effects "FinalizedHeader (Some anchor)" q _ B "[]"] show ?case
    by (auto simp: answered_in_def split_beta)
next
  case (12 B k)
  with running_underway [of k effects ServerTick q TickEvent B "[FetchFinalizedHeader]"] show ?case
    by (auto simp: answered_in_def split_beta)
next
  case (3 B seed anchor)
  let ?act = "activate_from_seed (ah_hash anchor) (ah_number anchor) [] (rs_pool_registry seed) (rs_token_registry seed) []"
  have "fetched_in (effects + mset (kernel_effects (snd ?act))) key p"
    if "(key, p) \<in> ledger_entries (ks_pending_requests (fst ?act))" for key p
  proof -
    from that activate_entries have "(key, p) \<in> entry_of ` set (snd ?act)" by blast
    from entry_fetched [OF this, of "[]"] show ?thesis unfolding fetched_union by simp
  qed
  with 3 show ?case by (auto simp: split_beta)
qed (auto simp: answered_in_def fetched_in_def)

lemma execute_underway:
  assumes "underway s effects inputs" "effect \<in># effects" "execute_effect E effect db = (db', answers)"
  shows "underway s (effects - {#effect#}) (inputs @ answers)"
proof (cases s)
  case AwaitingSeed
  with assms show ?thesis by (cases effect) (auto simp: in_diff_count)
next
  case (AwaitingAnchor seed)
  with assms show ?thesis by (cases effect) (auto simp: in_diff_count)
next
  case (Running k)
  have "fetched_in (effects - {#effect#}) key p \<or> answered_in (inputs @ answers) key"
    if "fetched_in effects key p \<or> answered_in inputs key" for key p
  proof (cases "answered_in inputs key \<or> fetched_in (effects - {#effect#}) key p")
    case True
    then show ?thesis by (auto simp: answered_in_def)
  next
    case False
    with that obtain request where "KernelEffect (Request request) \<in># effects" "request_key request = key"
      "KernelEffect (Request request) \<notin># effects - {#effect#}"
      by (auto simp: fetched_in_def)
    then have "effect = KernelEffect (Request request)"
      by (cases "effect = KernelEffect (Request request)") (simp_all add: in_diff_count)
    with assms(3) \<open>request_key request = key\<close> request_is_answered [of "server_fetchers E" request db] show ?thesis
      by (auto simp: answered_in_def execute_kernel_request_def split_beta)
  qed
  with assms(1) show ?thesis unfolding Running underway.simps by fast
qed

lemma more_inputs_underway: "underway s effects inputs \<Longrightarrow> underway s effects (inputs @ more_inputs)"
  by (cases s) (auto simp: answered_in_def)

lemma boot_underway: "underway (sv_state (server_boot db)) (sv_effects (server_boot db)) (sv_queue (server_boot db))"
  by (simp add: server_boot_def server_init_def)

text \<open>
  C26. The server never waits for something that nobody does. In every reachable run, whatever the services
  and the database answer, whatever the order in which effects are executed and inputs arrive, and after
  any number of restarts: while it waits for its seed, the seed is being read or is in the queue; while it
  waits for its anchor, the finalized header is being fetched or is in the queue; and once it runs, each
  request in its kernel's ledger is either with the workers, under its id and with its payload, or has its
  answer or its failure in the queue. So no request depends on its time-out to make progress.
\<close>

theorem nothing_awaited_is_lost:
  assumes "server_reaches B allowed db r"
  shows "underway (sv_state r) (sv_effects r) (sv_queue r)"
  using assms
proof (induction rule: server_reaches.induct)
  case (reaches_step r r')
  from reaches_step.hyps(2) reaches_step.IH show ?case
    by cases (auto simp: boot_underway more_inputs_underway fold_underway execute_underway)
qed (rule boot_underway)

definition sample_header :: client_head where
  "sample_header = \<lparr>hd_hash = 1, hd_parent_hash = 0, hd_logs_bloom = 0, hd_number = 10\<rparr>"

definition sample_env :: runtime_env where
  "sample_env = \<lparr>re_rpc =
      \<lparr>rp_block_header = (\<lambda>_. Inl (HttpTransport ''down'')), rp_block_logs = (\<lambda>_. Inr []), rp_pool_metadata = (\<lambda>_ _. Inr []),
       rp_token_metadata = (\<lambda>_ _. Inr []), rp_pool_data = (\<lambda>_ _. Inr []), rp_logs_range = (\<lambda>_ _. Inr []),
       rp_canonical_header = (\<lambda>_. Inr None), rp_finalized_header = Inr (Some sample_header)\<rparr>,
     re_faults = \<lparr>cf_candidates = None, cf_load_pools = None, cf_store_pools = None, cf_load_tokens = None, cf_store_tokens = None\<rparr>,
     re_json = sample_json\<rparr>"

definition sample_seed :: registry_seed where
  "sample_seed = \<lparr>rs_pool_registry = pool_registry_new, rs_token_registry = token_registry_new\<rparr>"

definition sample_kernel :: kernel_state where
  "sample_kernel = fst (transition demo_bloom CHAIN
     (fst (activate_from_seed 1 10 [] pool_registry_new token_registry_new [])) (HeadObserved 9 8 0 20))"

definition sample_run :: server_run where
  "sample_run = \<lparr>sv_state = Running sample_kernel,
     sv_effects = {#KernelEffect (Request (BlockHeader \<lparr>ir_request_id = 1, ir_request_payload = GetBlockHeader 8\<rparr>))#},
     sv_queue = [], sv_cache = cache_opened\<rparr>"

lemma sample_seeded: "load_registry_seed sample_env cache_opened = sample_seed"
  by (simp add: load_registry_seed_def sample_env_def sample_seed_def load_pool_candidates_def cache_opened_def
      loaded_or_empty_def load_pool_metadata_def load_token_metadata_def seed_tokens_def all_valid_def
      pool_with_metadata_results_def token_with_metadata_results_def Let_def map_filter_simps)

lemma sample_kernel_step:
  "transition demo_bloom CHAIN (fst (activate_from_seed 1 10 [] pool_registry_new token_registry_new [])) (HeadObserved 9 8 0 20) =
     (sample_kernel, [Request (BlockHeader \<lparr>ir_request_id = 1, ir_request_payload = GetBlockHeader 8\<rparr>)])"
  "snd (activate_from_seed 1 10 [] pool_registry_new token_registry_new []) = []"
  unfolding sample_kernel_def by code_simp+

lemma fold_reached:
  assumes "server_reaches B allowed db \<lparr>sv_state = s, sv_effects = effects, sv_queue = i # q, sv_cache = c\<rparr>"
    and "server_transition B s i = (s', es)"
  shows "server_reaches B allowed db \<lparr>sv_state = s', sv_effects = effects + mset es, sv_queue = q, sv_cache = c\<rparr>"
  using reaches_step [OF assms(1) step_fold [of _ i q B s' es]] assms(2) by simp

lemma execute_reached:
  assumes "server_reaches B allowed db \<lparr>sv_state = s, sv_effects = add_mset effect effects, sv_queue = q, sv_cache = c\<rparr>"
    and "allowed E" "execute_effect E effect c = (c', inputs)"
  shows "server_reaches B allowed db \<lparr>sv_state = s, sv_effects = effects, sv_queue = q @ inputs, sv_cache = c'\<rparr>"
  using reaches_step [OF assms(1) step_execute [of effect _ allowed E c' inputs]] assms(2,3) by simp

lemma sample_reached: "server_reaches demo_bloom (\<lambda>_. True) cache_opened sample_run"
proof -
  let ?R = "server_reaches demo_bloom (\<lambda>_. True) cache_opened"
  let ?r = "\<lambda>s es q. \<lparr>sv_state = s, sv_effects = es, sv_queue = q, sv_cache = cache_opened\<rparr>"
  let ?k = "fst (activate_from_seed 1 10 [] pool_registry_new token_registry_new [])"
  let ?anchor = "\<lparr>ah_hash = 1, ah_number = 10\<rparr>"
  have "?R (?r AwaitingSeed {#LoadRegistrySeed#} [])"
    using reaches_boot [of demo_bloom "\<lambda>_. True" cache_opened] by (simp add: server_boot_def server_init_def)
  from execute_reached [OF this, of sample_env cache_opened "[RegistrySeed sample_seed]"]
  have "?R (?r AwaitingSeed {#} [RegistrySeed sample_seed])" by (simp add: sample_seeded)
  from fold_reached [OF this, of "AwaitingAnchor sample_seed" "[FetchFinalizedHeader]"]
  have "?R (?r (AwaitingAnchor sample_seed) {#FetchFinalizedHeader#} [])" by simp
  from execute_reached [OF this, of sample_env cache_opened "[FinalizedHeader (Some ?anchor)]"]
  have "?R (?r (AwaitingAnchor sample_seed) {#} [FinalizedHeader (Some ?anchor)])"
    by (simp add: fetch_anchor_def sample_env_def sample_header_def)
  from fold_reached [OF this, of "Running ?k" "[]"]
  have "?R (?r (Running ?k) {#} [])"
    using sample_kernel_step(2) by (simp add: sample_seed_def split_beta kernel_effects_def)
  from reaches_step [OF this step_stream [of "NewHeadStreamed ''s'' \<lparr>hd_hash = 9, hd_parent_hash = 8, hd_logs_bloom = 0, hd_number = 20\<rparr>"]]
  have "?R (?r (Running ?k) {#} [KernelInput (HeadObserved 9 8 0 20)])" by simp
  from fold_reached [OF this, of "Running sample_kernel"
      "[KernelEffect (Request (BlockHeader \<lparr>ir_request_id = 1, ir_request_payload = GetBlockHeader 8\<rparr>))]"]
  show ?thesis using sample_kernel_step(1) by (simp add: sample_run_def kernel_effects_def)
qed

theorem nothing_awaited_is_lost_witness:
  "ledger_entries (ks_pending_requests sample_kernel) = {(BlockHeaderId 1, BlockHeaderP (GetBlockHeader 8))} \<and>
   fetched_in (sv_effects sample_run) (BlockHeaderId 1) (BlockHeaderP (GetBlockHeader 8))"
proof -
  have pending: "ks_pending_requests sample_kernel =
      pending_requests_new\<lparr>rq_ids := 1, rq_block_headers := [(1, \<lparr>pp_payload = GetBlockHeader 8, pp_dispatched_at = 0\<rparr>)]\<rparr>"
    unfolding sample_kernel_def by code_simp
  then have "ledger_entries (ks_pending_requests sample_kernel) = {(BlockHeaderId 1, BlockHeaderP (GetBlockHeader 8))}"
    by (simp add: ledger_entries_def coll_entries_def pending_requests_new_def)
  with nothing_awaited_is_lost [OF sample_reached] show ?thesis
    by (simp add: sample_run_def answered_in_def)
qed

section \<open>Only what the chain vouches for\<close>

text \<open>
  What is admissible here is what the world says; the lemmas of RegistryRules do the rest.
\<close>

definition vouched :: "('k \<Rightarrow> 'f + 'm) \<Rightarrow> 'k \<Rightarrow> 'm \<Rightarrow> bool" where
  "vouched world k m \<longleftrightarrow> world k = Inr m"

lemma results_true_iff: "results_true world r \<longleftrightarrow> results_hold (vouched world) r"
  by (simp add: results_true_def results_hold_def vouched_def)

text \<open>The seed of a warm start is well formed, and true when the cache is.\<close>

lemma loaded_results:
  "results_true world (all_valid metadata) \<longleftrightarrow> (\<forall>k m. (k, m) \<in> set metadata \<longrightarrow> world k = Inr m)"
  by (force simp: results_true_def all_valid_def)

lemma seed_well_formed: "registry_seed_ok (load_registry_seed E db)"
proof -
  have "pool_registry_inv CHAIN pool_registry_new" "token_registry_inv token_registry_new"
    by (simp_all add: pool_registry_inv_def token_registry_inv_def pool_registry_new_def token_registry_new_def)
  then show ?thesis
    unfolding registry_seed_ok_def load_registry_seed_def Let_def registry_seed.select_convs pool_results_apply_all token_results_apply_all
    by (intro conjI pools.all_inv tokens.all_inv)
qed

definition world_cache :: "json_ops \<Rightarrow> (chain_key \<Rightarrow> protocol_pool_key \<Rightarrow> pool_metadata_result) \<Rightarrow>
    (token_address \<Rightarrow> token_metadata_result) \<Rightarrow> metadata_cache \<Rightarrow> bool" where
  "world_cache J pools tokens db \<longleftrightarrow> pool_cache_true J pools db \<and> token_cache_true J tokens db"

lemma seed_true:
  assumes "world_cache (re_json E) pools tokens db"
  shows "pools_hold (vouched (pools CHAIN)) CHAIN (rs_pool_registry (load_registry_seed E db)) \<and>
    tokens_hold (vouched tokens) (rs_token_registry (load_registry_seed E db))"
proof -
  let ?J = "re_json E" and ?candidates = "case load_pool_candidates (cf_candidates (re_faults E)) db CHAIN of Inr c \<Rightarrow> c | Inl _ \<Rightarrow> {}"
  let ?pools = "loaded_or_empty (load_pool_metadata ?J (cf_load_pools (re_faults E)) db CHAIN ?candidates)"
  let ?tokens = "loaded_or_empty (load_token_metadata ?J (cf_load_tokens (re_faults E)) db (seed_tokens CHAIN ?pools))"
  have "results_true (pools CHAIN) (all_valid ?pools)"
    using pools_loaded [of ?J pools db, OF _ refl, of "cf_load_pools (re_faults E)" CHAIN ?candidates] assms
    by (auto simp: loaded_results world_cache_def hm_wf_in_set)
  moreover have "results_true tokens (all_valid ?tokens)"
    using tokens_loaded [of ?J tokens db, OF _ refl, of "cf_load_tokens (re_faults E)" "seed_tokens CHAIN ?pools"] assms
    by (auto simp: loaded_results world_cache_def hm_wf_in_set)
  moreover have "pools_hold (vouched (pools CHAIN)) CHAIN pool_registry_new" "tokens_hold (vouched tokens) token_registry_new"
    by (simp_all add: pools_hold_def tokens_hold_def pool_registry_new_def token_registry_new_def pool_verified_metadata_def)
  ultimately show ?thesis
    by (simp add: load_registry_seed_def Let_def pools_hold_results tokens_hold_results results_true_iff)
qed

text \<open>What a fetch validates is what the world has; it may fail, and it may fail to validate.\<close>

definition fetch_sound :: "('k \<Rightarrow> 'f + 'm) \<Rightarrow> ('k set \<Rightarrow> client_evm_error + ('k, 'f + 'm) hmap) \<Rightarrow> bool" where
  "fetch_sound world fetch \<longleftrightarrow> (\<forall>ks r. fetch ks = Inr r \<longrightarrow> results_true world r)"

definition services_sound :: "json_ops \<Rightarrow> (chain_key \<Rightarrow> protocol_pool_key \<Rightarrow> pool_metadata_result) \<Rightarrow>
    (token_address \<Rightarrow> token_metadata_result) \<Rightarrow> runtime_env \<Rightarrow> bool" where
  "services_sound J pools tokens E \<longleftrightarrow>
     re_json E = J \<and> (\<forall>at. fetch_sound (pools CHAIN) (rp_pool_metadata (re_rpc E) at)) \<and>
     (\<forall>at. fetch_sound tokens (rp_token_metadata (re_rpc E) at))"

definition codecs_ok :: "json_ops \<Rightarrow> bool" where
  "codecs_ok J \<longleftrightarrow> reads_back (js_pool_to J) (js_pool_from J) \<and> reads_back (js_token_to J) (js_token_from J)"

lemma set_hm_extend: "set (hm_extend m es) \<subseteq> set m \<union> set es"
proof (induction es arbitrary: m)
  case (Cons e es)
  obtain k v where e: "e = (k, v)" by (cases e)
  have "set (AList.update k v m) \<subseteq> insert (k, v) (set m)" by (induction m) auto
  with Cons.IH [of "AList.update k v m"] show ?case by (auto simp: hm_extend_def e)
qed (simp add: hm_extend_def)

lemma results_true_hits:
  "results_true world r \<Longrightarrow> \<forall>k m. (k, m) \<in> set cached \<longrightarrow> world k = Inr m \<Longrightarrow> results_true world (with_hits r cached)"
  using set_hm_extend [of r "map (\<lambda>(k, m). (k, Inr m)) cached"] by (fastforce simp: results_true_def with_hits_def)

lemma pool_resolution_true:
  assumes "codecs_ok J" "world_cache J pools tokens db" "fetch_sound (pools chain) fetch"
    and "cached_pool_metadata J lf sf chain wanted fetch db = (db', outcome)"
  shows "world_cache J pools tokens db' \<and> (\<forall>r. outcome = Inr r \<longrightarrow> results_true (pools chain) r)"
  using assms(4) unfolding cached_pool_metadata_def
proof (cases rule: cached_metadata_cases)
  case (failed e)
  with assms(2) show ?thesis by simp
next
  case (answered r)
  have r: "results_true (pools chain) r" using assms(3) answered(1) by (simp add: fetch_sound_def)
  have "db_tokens db' = db_tokens db" using answered(2)
    by (auto simp: store_pool_metadata_def split: option.splits sum.splits)
  moreover have "pool_cache_true J pools db'" unfolding answered(2)
    using stored_pools_true [of J pools db chain r sf] assms(1,2) r by (simp add: codecs_ok_def world_cache_def)
  moreover have "results_true (pools chain) (with_hits r (loaded_or_empty (load_pool_metadata J lf db chain wanted)))"
    using pools_loaded [of J pools db, OF _ refl, of lf chain wanted] assms(2)
    by (intro results_true_hits [OF r]) (auto simp: world_cache_def hm_wf_in_set)
  ultimately show ?thesis using assms(2) answered(3) by (simp add: world_cache_def token_cache_true_def)
qed

lemma token_resolution_true:
  assumes "codecs_ok J" "world_cache J pools tokens db" "fetch_sound tokens fetch"
    and "cached_token_metadata J lf sf wanted fetch db = (db', outcome)"
  shows "world_cache J pools tokens db' \<and> (\<forall>r. outcome = Inr r \<longrightarrow> results_true tokens r)"
  using assms(4) unfolding cached_token_metadata_def
proof (cases rule: cached_metadata_cases)
  case (failed e)
  with assms(2) show ?thesis by simp
next
  case (answered r)
  have r: "results_true tokens r" using assms(3) answered(1) by (simp add: fetch_sound_def)
  have "db_pools db' = db_pools db" using answered(2)
    by (auto simp: store_token_metadata_def split: option.splits sum.splits)
  moreover have "token_cache_true J tokens db'" unfolding answered(2)
    using stored_tokens_true [of J tokens db r sf] assms(1,2) r by (simp add: codecs_ok_def world_cache_def)
  moreover have "results_true tokens (with_hits r (loaded_or_empty (load_token_metadata J lf db wanted)))"
    using tokens_loaded [of J tokens db, OF _ refl, of lf wanted] assms(2)
    by (intro results_true_hits [OF r]) (auto simp: world_cache_def hm_wf_in_set)
  ultimately show ?thesis using assms(2) answered(3) by (simp add: world_cache_def pool_cache_true_def)
qed

text \<open>What holds of every input that is sent and of every state.\<close>

fun input_true :: "(protocol_pool_key \<Rightarrow> pool_metadata_result) \<Rightarrow> (token_address \<Rightarrow> token_metadata_result) \<Rightarrow> server_input \<Rightarrow> bool" where
  "input_true pools tokens (RegistrySeed seed) \<longleftrightarrow> registry_seed_ok seed \<and>
     pools_hold (vouched pools) CHAIN (rs_pool_registry seed) \<and> tokens_hold (vouched tokens) (rs_token_registry seed)"
| "input_true pools tokens (KernelInput e) \<longleftrightarrow> event_holds (vouched pools) (vouched tokens) e"
| "input_true pools tokens _ \<longleftrightarrow> True"

fun state_true :: "(protocol_pool_key \<Rightarrow> pool_metadata_result) \<Rightarrow> (token_address \<Rightarrow> token_metadata_result) \<Rightarrow> server_state \<Rightarrow> bool" where
  "state_true pools tokens AwaitingSeed \<longleftrightarrow> True"
| "state_true pools tokens (AwaitingAnchor seed) \<longleftrightarrow> pools_hold (vouched pools) CHAIN (rs_pool_registry seed) \<and> tokens_hold (vouched tokens) (rs_token_registry seed)"
| "state_true pools tokens (Running k) \<longleftrightarrow> registries_hold (vouched pools) (vouched tokens) CHAIN k"

lemma fold_true:
  assumes "state_true pools tokens s" "input_true pools tokens i"
  shows "state_true pools tokens (fst (server_transition B s i))"
  using assms
  by (induction B s i rule: server_transition.induct)
    (auto simp: split_beta activated_registries transition_registries)

lemma execute_true:
  assumes "codecs_ok J" "world_cache J pools tokens db" "services_sound J pools tokens E"
    and "execute_effect E effect db = (db', inputs)"
  shows "world_cache J pools tokens db' \<and> (\<forall>i\<in>set inputs. input_true (pools CHAIN) tokens i)"
proof (cases effect)
  case LoadRegistrySeed
  with assms seed_true [of E pools tokens db] seed_well_formed show ?thesis by (auto simp: services_sound_def)
next
  case FetchFinalizedHeader
  with assms show ?thesis by auto
next
  case (KernelEffect e)
  obtain request where e: "e = Request request" by (cases e)
  have J: "re_json E = J" using assms(3) by (simp add: services_sound_def)
  show ?thesis
  proof (cases request)
    case (PoolMetadata q)
    obtain outcome where o: "cached_pool_metadata J (cf_load_pools (re_faults E)) (cf_store_pools (re_faults E)) CHAIN
        (gpm_candidates (ir_request_payload q)) (rp_pool_metadata (re_rpc E) (gpm_at (ir_request_payload q))) db = (db', outcome)"
      using assms(4) KernelEffect e PoolMetadata
      by (auto simp: execute_kernel_request_def server_fetchers_def J Let_def split_beta prod_eq_iff)
    have "fetch_sound (pools CHAIN) (rp_pool_metadata (re_rpc E) (gpm_at (ir_request_payload q)))"
      using assms(3) by (simp add: services_sound_def)
    from pool_resolution_true [OF assms(1,2) this o] show ?thesis
      using assms(4) KernelEffect e PoolMetadata o
      by (auto simp: execute_kernel_request_def server_fetchers_def J Let_def request_failed_def results_true_iff split: sum.splits)
  next
    case (TokenMetadata q)
    obtain outcome where o: "cached_token_metadata J (cf_load_tokens (re_faults E)) (cf_store_tokens (re_faults E))
        (gtm_tokens (ir_request_payload q)) (rp_token_metadata (re_rpc E) (gtm_at (ir_request_payload q))) db = (db', outcome)"
      using assms(4) KernelEffect e TokenMetadata
      by (auto simp: execute_kernel_request_def server_fetchers_def J Let_def split_beta prod_eq_iff)
    have "fetch_sound tokens (rp_token_metadata (re_rpc E) (gtm_at (ir_request_payload q)))"
      using assms(3) by (simp add: services_sound_def)
    from token_resolution_true [OF assms(1,2) this o] show ?thesis
      using assms(4) KernelEffect e TokenMetadata o
      by (auto simp: execute_kernel_request_def server_fetchers_def J Let_def request_failed_def results_true_iff split: sum.splits)
  qed (use assms(2,4) KernelEffect e in
    \<open>auto simp: execute_kernel_request_def Let_def request_failed_def split: sum.splits option.splits\<close>)
qed

lemma step_true:
  assumes "server_step B (services_sound J pools tokens) r r'" "codecs_ok J"
    and "world_cache J pools tokens (sv_cache r) \<and> state_true (pools CHAIN) tokens (sv_state r) \<and> server_ok (sv_state r) \<and>
      (\<forall>i\<in>set (sv_queue r). input_true (pools CHAIN) tokens i)"
  shows "world_cache J pools tokens (sv_cache r') \<and> state_true (pools CHAIN) tokens (sv_state r') \<and> server_ok (sv_state r') \<and>
      (\<forall>i\<in>set (sv_queue r'). input_true (pools CHAIN) tokens i)"
  using assms(1)
proof cases
  case (step_fold i q s' es)
  have "input_true (pools CHAIN) tokens i" using assms(3) step_fold(2) by simp
  moreover from this have "seed_input_ok i" by (cases i) simp_all
  ultimately show ?thesis
    using assms(3) step_fold fold_true [of "pools CHAIN" tokens "sv_state r" i B] server_ok_step [of "sv_state r" i B] by simp
next
  case (step_execute effect E db' inputs)
  then show ?thesis using assms(3) execute_true [OF assms(2) _ step_execute(3,4)] by auto
next
  case (step_stream e i)
  then show ?thesis using assms(3) by (cases e) auto
qed (use assms(3) in \<open>auto simp: server_boot_def server_init_def\<close>)

text \<open>
  C28. The server serves only what the chain vouches for. Start it on a cache whose rows are true, and let
  the services answer with whatever the chain has validated or fail in any way; let the database fail at
  any load or store, effects be executed and inputs arrive in any order, answers come late or twice, and
  the process restart at any time. Then in every reachable run each pool and each token that the kernel
  has verified carries the metadata the chain has for it, the kernel satisfies its invariant, and the rows
  of the cache are true still.
\<close>

theorem only_vouched_metadata:
  assumes "codecs_ok J" "world_cache J pools tokens db" "server_reaches B (services_sound J pools tokens) db r"
  shows "world_cache J pools tokens (sv_cache r) \<and>
    (case sv_state r of
       Running k \<Rightarrow> kernel_ok CHAIN k \<and>
         (\<forall>key m. pool_verified_metadata (ks_pool_registry k) (PoolRef key CHAIN) = Some m \<longrightarrow> pools CHAIN key = Inr m) \<and>
         (\<forall>t m. map_of (tr_verified (ks_token_registry k)) t = Some m \<longrightarrow> tokens t = Inr m)
     | _ \<Rightarrow> True)"
proof -
  have "world_cache J pools tokens (sv_cache r) \<and> state_true (pools CHAIN) tokens (sv_state r) \<and> server_ok (sv_state r) \<and>
      (\<forall>i\<in>set (sv_queue r). input_true (pools CHAIN) tokens i)"
    using assms(3)
  proof (induction rule: server_reaches.induct)
    case reaches_boot
    then show ?case using assms(2) by (simp add: server_boot_def server_init_def)
  next
    case (reaches_step r r')
    from step_true [OF reaches_step.hyps(2) assms(1) reaches_step.IH] show ?case .
  qed
  then show ?thesis
    by (cases "sv_state r") (simp_all add: registries_hold_def pools_hold_def tokens_hold_def vouched_def)
qed

section \<open>A warm start\<close>

lemma load_total:
  "(\<And>k bs. k \<in> set ks \<Longrightarrow> map_of table (key k) = Some bs \<Longrightarrow> \<exists>m. read bs = Inr m) \<Longrightarrow> \<exists>r. load_hits key read table ks hits = Inr r"
proof (induction ks arbitrary: hits)
  case (Cons k ks)
  have rest: "\<exists>r. load_hits key read table ks hits = Inr r" for hits
    by (rule Cons.IH) (use Cons.prems in auto)
  show ?case
  proof (cases "map_of table (key k)")
    case None
    with rest show ?thesis by simp
  next
    case (Some bs)
    with Cons.prems [of k bs] obtain m where "read bs = Inr m" by auto
    with Some rest show ?thesis by simp
  qed
qed simp

lemma load_absent:
  "load_hits key read table ks hits = Inr r \<Longrightarrow> map_of table (key k) = None \<Longrightarrow> map_of r k = map_of hits k"
  by (induction ks arbitrary: hits) (auto simp: update_conv' split: option.splits sum.splits)

definition stored_pool :: "json_ops \<Rightarrow> metadata_cache \<Rightarrow> protocol_pool_key \<Rightarrow> pool_metadata option" where
  "stored_pool J db k =
     (case map_of (db_pools db) (pool_key CHAIN k) of
        None \<Rightarrow> None
      | Some bs \<Rightarrow> (case js_pool_from J bs of Inr m \<Rightarrow> Some m | Inl _ \<Rightarrow> None))"

lemma all_valid_lookup: "map_of (all_valid metadata) k = map_option Inr (map_of metadata k)"
  by (induction metadata) (auto simp: all_valid_def)

lemma hm_wf_all_valid: "hm_wf metadata \<Longrightarrow> hm_wf (all_valid metadata)"
  by (simp add: hm_wf_def all_valid_def comp_def split_beta)

text \<open>
  C30. A restart forgets no pool. When the database answers and its rows read, the seed of a warm start
  verifies exactly the pools that the cache holds for the served chain, each with its stored metadata, and
  rejects none.
\<close>

theorem warm_start_restores:
  assumes "pool_rows_keyed db" "cf_candidates (re_faults E) = None" "cf_load_pools (re_faults E) = None"
    and "\<forall>k bs. map_of (db_pools db) (pool_key CHAIN k) = Some bs \<longrightarrow> (\<exists>m. js_pool_from (re_json E) bs = Inr m)"
  shows "\<forall>k. pool_verified_metadata (rs_pool_registry (load_registry_seed E db)) (PoolRef k CHAIN) = stored_pool (re_json E) db k"
proof
  fix k
  let ?J = "re_json E" and ?key = "pool_key CHAIN"
  let ?stored = "{k. ?key k \<in> fst ` set (db_pools db)}"
  have "finite (?key -` (fst ` set (db_pools db)))"
    by (rule finite_vimageI) (auto simp: inj_def dest: pool_key_inj)
  then have finite: "finite ?stored" by (simp add: vimage_def)
  obtain r where r: "load_hits ?key (js_pool_from ?J) (db_pools db) (sorted_list_of_set ?stored) [] = Inr r"
    using load_total [of "sorted_list_of_set ?stored" "db_pools db" ?key "js_pool_from ?J" "[]"] assms(4) by blast
  have registry: "rs_pool_registry (load_registry_seed E db) = pool_with_metadata_results pool_registry_new CHAIN (all_valid r)"
    by (simp add: load_registry_seed_def Let_def assms(2,3) candidates_of_range [OF assms(1)] load_pool_metadata_def r loaded_or_empty_def)
  have wf: "hm_wf (all_valid r)" by (rule hm_wf_all_valid) (use pool_rows.load_wf [OF r] in simp)
  have "pool_registry_inv CHAIN pool_registry_new" by (simp add: pool_registry_inv_def pool_registry_new_def)
  from pool_results_decide [OF this wf]
  have "pool_verified_metadata (rs_pool_registry (load_registry_seed E db)) (PoolRef k CHAIN) = map_of r k"
    by (simp add: registry all_valid_lookup pool_verified_metadata_def pool_registry_new_def split: option.splits)
  moreover have "map_of r k = stored_pool ?J db k"
  proof (cases "map_of (db_pools db) (?key k)")
    case None
    with load_absent [OF r, of k] show ?thesis by (simp add: stored_pool_def)
  next
    case (Some bs)
    with assms(4) obtain m where m: "js_pool_from ?J bs = Inr m" by blast
    have "k \<in> set (sorted_list_of_set ?stored)" using Some finite by (auto dest: map_of_SomeD intro: rev_image_eqI)
    from pool_rows.load_complete [OF r this Some m] Some m show ?thesis by (simp add: stored_pool_def)
  qed
  ultimately show "pool_verified_metadata (rs_pool_registry (load_registry_seed E db)) (PoolRef k CHAIN) = stored_pool ?J db k" by simp
qed

theorem warm_start_restores_witness:
  "pool_verified_metadata (rs_pool_registry (load_registry_seed sample_env sample_cache)) (PoolRef (UniswapV3 1) CHAIN) = Some sample_metadata"
proof -
  have "pool_rows_keyed sample_cache" by (auto simp: pool_rows_keyed_def sample_cache_def simp del: pool_key.simps)
  from warm_start_restores [OF this, of sample_env]
  have "pool_verified_metadata (rs_pool_registry (load_registry_seed sample_env sample_cache)) (PoolRef (UniswapV3 1) CHAIN) =
      stored_pool sample_json sample_cache (UniswapV3 1)"
    by (auto simp: sample_env_def sample_cache_def sample_json_def split: if_splits)
  then show ?thesis by (simp add: stored_pool_def sample_cache_def CHAIN_def sample_json_def)
qed

text \<open>A server that boots on a cache with one pool and runs with that pool verified.\<close>

definition warm_kernel :: kernel_state where
  "warm_kernel = fst (activate_from_seed 1 10 [] (rs_pool_registry (load_registry_seed sample_env sample_cache))
     (rs_token_registry (load_registry_seed sample_env sample_cache)) [])"

definition warm_run :: server_run where
  "warm_run = \<lparr>sv_state = Running warm_kernel, sv_effects = {#}, sv_queue = [], sv_cache = sample_cache\<rparr>"

lemma nothing_missing: "snd (activate_from_seed 1 10 [] pools tokens []) = []"
proof -
  have "missing_parents (from_seed 1 10 []) = []" by code_simp
  then show ?thesis by (simp add: activate_from_seed_def split_beta Let_def)
qed

lemma warm_reached:
  assumes "allowed sample_env"
  shows "server_reaches demo_bloom allowed sample_cache warm_run"
proof -
  let ?R = "server_reaches demo_bloom allowed sample_cache"
  let ?r = "\<lambda>s es q. \<lparr>sv_state = s, sv_effects = es, sv_queue = q, sv_cache = sample_cache\<rparr>"
  let ?seed = "load_registry_seed sample_env sample_cache"
  let ?anchor = "\<lparr>ah_hash = 1, ah_number = 10\<rparr>"
  have "?R (?r AwaitingSeed {#LoadRegistrySeed#} [])"
    using reaches_boot [of demo_bloom allowed sample_cache] by (simp add: server_boot_def server_init_def)
  from execute_reached [OF this assms, of sample_cache "[RegistrySeed ?seed]"]
  have "?R (?r AwaitingSeed {#} [RegistrySeed ?seed])" by simp
  from fold_reached [OF this, of "AwaitingAnchor ?seed" "[FetchFinalizedHeader]"]
  have "?R (?r (AwaitingAnchor ?seed) {#FetchFinalizedHeader#} [])" by simp
  from execute_reached [OF this assms, of sample_cache "[FinalizedHeader (Some ?anchor)]"]
  have "?R (?r (AwaitingAnchor ?seed) {#} [FinalizedHeader (Some ?anchor)])"
    by (simp add: fetch_anchor_def sample_env_def sample_header_def)
  from fold_reached [OF this, of "Running warm_kernel" "[]"]
  show ?thesis by (simp add: warm_run_def warm_kernel_def split_beta kernel_effects_def nothing_missing)
qed

lemma sample_codecs: "codecs_ok sample_json"
  by (auto simp: codecs_ok_def reads_back_def sample_json_def from_be_bytes split: token_decimals.splits)

lemma sample_cache_true: "world_cache sample_json sample_world (\<lambda>_. Inl (UnsupportedDecimals 99)) sample_cache"
  by (auto simp: world_cache_def pool_cache_true_def token_cache_true_def rows_true_def sample_cache_def cache_opened_def
      sample_json_def sample_world_def simp del: pool_key.simps dest: pool_key_inj split: if_splits)

theorem only_vouched_metadata_witness:
  "\<exists>r k. server_reaches demo_bloom (services_sound sample_json sample_world (\<lambda>_. Inl (UnsupportedDecimals 99))) sample_cache r \<and>
     sv_state r = Running k \<and> kernel_ok CHAIN k \<and>
     pool_cache_true sample_json sample_world (sv_cache r)"
proof -
  let ?tokens = "\<lambda>_ :: token_address. Inl (UnsupportedDecimals 99) :: token_metadata_result"
  have "services_sound sample_json sample_world ?tokens sample_env"
    by (auto simp: services_sound_def sample_env_def fetch_sound_def results_true_def)
  from warm_reached [of "services_sound sample_json sample_world ?tokens", OF this]
  have reached: "server_reaches demo_bloom (services_sound sample_json sample_world ?tokens) sample_cache warm_run" .
  from only_vouched_metadata [OF sample_codecs sample_cache_true this] reached show ?thesis
    by (auto simp: warm_run_def world_cache_def)
qed

end
