(* ===== verification/CliRuntimeLaws.thy ===== *)
theory CliRuntimeLaws
  imports CliRuntime MultiEntries RuntimeLaws
begin

text \<open>
  The terminal program beside its runtime: the backoff between reconnections, the agreement with the
  server's adapter, and the runs of the loop, the workers, the streams and restarts. Nothing a chain waits
  for is lost, and no pool is verified that the chain does not vouch for or the whitelist does not allow.
\<close>

section \<open>Backoff\<close>

definition short_run :: "duration \<Rightarrow> bool" where
  "short_run ran_for \<longleftrightarrow> ran_for < RECONNECT_STABILITY_WINDOW"

text \<open>How often the delay has doubled after some runs: once per short run since the last healthy one, and
  not for the very first.\<close>

definition doublings :: "duration list \<Rightarrow> nat" where
  "doublings rans =
     (let streak = length (takeWhile short_run (rev rans)) in if streak = length rans then streak - 1 else streak)"

definition backoff :: "duration list \<Rightarrow> duration" where
  "backoff rans = min RECONNECT_CAP (RECONNECT_BASE * 2 ^ doublings rans)"

lemma next_delay_backoff:
  "next_reconnect_delay (if rans = [] then None else Some (backoff rans)) ran_for = Some (backoff (rans @ [ran_for]))"
proof (cases "short_run ran_for")
  case False
  then show ?thesis
    by (simp add: next_reconnect_delay_def short_run_def backoff_def doublings_def RECONNECT_BASE_def RECONNECT_CAP_def)
next
  case short: True
  show ?thesis
  proof (cases "rans = []")
    case True
    with short show ?thesis
      by (simp add: next_reconnect_delay_def short_run_def backoff_def doublings_def RECONNECT_BASE_def RECONNECT_CAP_def)
  next
    case False
    let ?streak = "length (takeWhile short_run (rev rans))"
    have "doublings (rans @ [ran_for]) = Suc (doublings rans)"
      using short False by (auto simp: doublings_def Let_def)
    moreover have "backoff rans \<le> RECONNECT_CAP" by (simp add: backoff_def)
    ultimately show ?thesis
      using short False
      by (auto simp: next_reconnect_delay_def short_run_def duration_double_def backoff_def RECONNECT_CAP_def min_def)
  qed
qed

lemma reconnect_loop_snoc:
  "reconnect_loop previous (rans @ [ran_for]) =
     (case reconnect_loop previous rans of
        None \<Rightarrow> None
      | Some delays \<Rightarrow>
          map_option (\<lambda>d. delays @ [d]) (next_reconnect_delay (if delays = [] then previous else Some (last delays)) ran_for))"
  by (induction rans arbitrary: previous) (auto simp: option.map_comp comp_def split: option.splits)

text \<open>
  C35. The wait before each reconnection is the base doubled once for every short-lived connection since the
  last healthy one, never more than the cap; a healthy connection resets it to the base. The doubling never
  overflows, so the loop never panics.
\<close>

theorem reconnect_backoff_exact:
  "reconnect_loop None rans = Some (map (\<lambda>n. backoff (take (Suc n) rans)) [0..<length rans])"
proof (induction rans rule: rev_induct)
  case (snoc ran_for rans)
  let ?delays = "map (\<lambda>n. backoff (take (Suc n) rans)) [0..<length rans]"
  have "(if ?delays = [] then None else Some (last ?delays)) = (if rans = [] then None else Some (backoff rans))"
    by (cases rans) (simp_all add: last_map)
  then show ?case
    using next_delay_backoff [of rans ran_for] by (simp add: reconnect_loop_snoc snoc.IH)
qed simp

section \<open>Two adapters, one dispatch\<close>

text \<open>The terminal program answers a kernel's request with the event the server's adapter would give.\<close>

lemma chain_effect_as_server:
  "execute_chain_effect_with chain F (Request request) db =
     (let (db, e) = execute_request_with F request db in (db, [ChainEvent chain e]))"
  by (cases request) (auto simp: Let_def request_failed_def split_beta split: sum.splits option.splits)

section \<open>Runs\<close>

text \<open>
  A run has the state of the loop, the effects handed to the workers and not yet executed, the events sent
  and not yet folded, and what the runtime holds. Executing an effect is one step, whatever the services
  and the database answer then. The optimizer's thread starts, takes snapshots and reports; a restart
  loses everything but the cache.
\<close>

record 'f cli_run =
  cl_state :: "'f multi_state"
  cl_effects :: "'f multi_effect multiset"
  cl_queue :: "'f multi_event list"
  cl_runtime :: "'f client_evm_runtime"

definition cli_boot :: "metadata_cache \<Rightarrow> 'f cli_run" where
  "cli_boot db =
     (let (s, es) = multi_init ACTIVE_CHAINS
      in \<lparr>cl_state = s, cl_effects = mset es, cl_queue = [], cl_runtime = \<lparr>cr_metadata_cache = db, cr_optimization_sender = None\<rparr>\<rparr>)"

inductive cli_step :: "'f env \<Rightarrow> token_whitelist option \<Rightarrow> (cli_env \<Rightarrow> bool) \<Rightarrow> 'f cli_run \<Rightarrow> 'f cli_run \<Rightarrow> bool"
  for E whitelist allowed where
  cli_fold: "cl_queue r = e # q \<Longrightarrow> multi_transition E (cl_state r) e = (s', es) \<Longrightarrow>
    cli_step E whitelist allowed r (r\<lparr>cl_state := s', cl_effects := cl_effects r + mset es, cl_queue := q\<rparr>)"
| cli_execute: "effect \<in># cl_effects r \<Longrightarrow> allowed C \<Longrightarrow>
    cli_execute_effect whitelist C effect (cl_runtime r) = (runtime', events) \<Longrightarrow>
    cli_step E whitelist allowed r
      (r\<lparr>cl_effects := cl_effects r - {#effect#}, cl_queue := cl_queue r @ events, cl_runtime := runtime'\<rparr>)"
| cli_head: "map_new_head_data streamed = Some data \<Longrightarrow>
    cli_step E whitelist allowed r (r\<lparr>cl_queue := cl_queue r @ [SubscriptionData chain data]\<rparr>)"
| cli_logs: "cli_step E whitelist allowed r (r\<lparr>cl_queue := cl_queue r @ [SubscriptionData chain (PoolLogData h logs)]\<rparr>)"
| cli_clock: "cli_step E whitelist allowed r (r\<lparr>cl_queue := cl_queue r @ [MultiTick]\<rparr>)"
| cli_optimizer_starts: "cli_step E whitelist allowed r (r\<lparr>cl_runtime := spawn_optimization (cl_runtime r)\<rparr>)"
| cli_optimizer_takes: "cr_optimization_sender (cl_runtime r) = Some slot \<Longrightarrow> slot_try_take slot = (slot', outcome) \<Longrightarrow>
    cli_step E whitelist allowed r (r\<lparr>cl_runtime := (cl_runtime r)\<lparr>cr_optimization_sender := Some slot'\<rparr>\<rparr>)"
| cli_optimizer_reports:
    "cli_step E whitelist allowed r (r\<lparr>cl_queue := cl_queue r @ [OptimizationStepCompleted result plan]\<rparr>)"
| cli_restart: "cli_step E whitelist allowed r (cli_boot (cr_metadata_cache (cl_runtime r)))"

inductive cli_reaches :: "'f env \<Rightarrow> token_whitelist option \<Rightarrow> (cli_env \<Rightarrow> bool) \<Rightarrow> metadata_cache \<Rightarrow> 'f cli_run \<Rightarrow> bool"
  for E whitelist allowed db where
  cli_reaches_boot: "cli_reaches E whitelist allowed db (cli_boot db)"
| cli_reaches_step: "cli_reaches E whitelist allowed db r \<Longrightarrow> cli_step E whitelist allowed r r' \<Longrightarrow>
    cli_reaches E whitelist allowed db r'"

section \<open>Nothing a chain waits for is lost\<close>

definition entry_underway :: "chain_key \<Rightarrow> 'f multi_effect multiset \<Rightarrow> 'f multi_event list \<Rightarrow> chain_entry \<Rightarrow> bool" where
  "entry_underway chain effects events x \<longleftrightarrow>
     x \<in> effect_entries chain (set_mset effects) \<or> (\<exists>e\<in>set events. answers chain e x)"

definition chains_underway :: "'f multi_state \<Rightarrow> 'f multi_effect multiset \<Rightarrow> 'f multi_event list \<Rightarrow> bool" where
  "chains_underway s effects events \<longleftrightarrow>
     (\<forall>chain l. map_of (ms_chains s) chain = Some l \<longrightarrow> (\<forall>x\<in>lifecycle_entries l. entry_underway chain effects events x))"

lemma fold_chains_underway:
  assumes "bm_wf (ms_chains s)" "chains_underway s effects (e # q)"
  shows "chains_underway (fst (multi_transition E s e)) (effects + mset (snd (multi_transition E s e))) q"
  unfolding chains_underway_def
proof (intro allI impI ballI)
  fix chain l' x
  assume l': "map_of (ms_chains (fst (multi_transition E s e))) chain = Some l'" and x: "x \<in> lifecycle_entries l'"
  from l' multi_transition_at [OF assms(1), of E e chain] obtain l where l: "map_of (ms_chains s) chain = Some l"
    by (auto split: bind_splits)
  from lifecycle_event_entries [OF assms(1) l l'] x
  consider "x \<in> unanswered_entries chain e l" | "x \<in> effect_entries chain (set (snd (multi_transition E s e)))" by blast
  then show "entry_underway chain (effects + mset (snd (multi_transition E s e))) q x"
  proof cases
    case 1
    with assms(2) l have "entry_underway chain effects (e # q) x" "\<not> answers chain e x"
      by (auto simp: chains_underway_def unanswered_entries_def)
    then show ?thesis by (auto simp: entry_underway_def)
  qed (auto simp: entry_underway_def)
qed

text \<open>An effect is answered by what its execution feeds back.\<close>

lemma kernel_effect_answered:
  assumes "execute_chain_effect_with chain F effect db = (db', events)"
  shows "\<exists>e\<in>set events. answers chain e (Inl (entry_of effect))"
proof -
  obtain request where e: "effect = Request request" by (cases effect)
  with assms request_is_answered [of F request db] show ?thesis
    by (auto simp: chain_effect_as_server split_beta Let_def entry_of_def request_entry_def)
qed

lemma boot_effect_answered:
  assumes "execute_bootstrap_effect whitelist C chain request db = (db', events)"
  shows "\<exists>e\<in>set events. answers chain e (Inr (boot_entry request))"
  using assms by (cases request) (auto simp: execute_bootstrap_effect_def Let_def split_beta split: sum.splits option.splits)

lemma execute_answers:
  assumes "cli_execute_effect whitelist C effect runtime = (runtime', events)" "x \<in> effect_entries chain {effect}"
  shows "\<exists>e\<in>set events. answers chain e x"
  using assms kernel_effect_answered [of chain "cli_fetchers whitelist C chain"] boot_effect_answered [of whitelist C chain]
  by (cases effect) (auto simp: effect_entries_def execute_chain_effect_def split: prod.splits)

lemma execute_chains_underway:
  assumes "chains_underway s effects events" "effect \<in># effects"
    and "cli_execute_effect whitelist C effect runtime = (runtime', answered)"
  shows "chains_underway s (effects - {#effect#}) (events @ answered)"
proof -
  have "entry_underway chain (effects - {#effect#}) (events @ answered) x" if "entry_underway chain effects events x" for chain x
  proof (cases "x \<in> effect_entries chain {effect}")
    case True
    with execute_answers [OF assms(3)] show ?thesis by (auto simp: entry_underway_def)
  next
    case False
    have "set_mset effects \<subseteq> insert effect (set_mset (effects - {#effect#}))"
      using insert_DiffM [OF assms(2)] by (metis set_mset_add_mset_insert subset_refl)
    from effect_entries_mono [OF this, of chain] that False show ?thesis
      by (auto simp: entry_underway_def effect_entries_def)
  qed
  with assms(1) show ?thesis by (auto simp: chains_underway_def)
qed

lemma init_fold_effects:
  "set es \<subseteq> set (snd (fold multi_init_chain keys (m, es))) \<and>
   (\<forall>chain\<in>set keys. set (wrap_bootstrap_effects chain (snd (boot_init (bootstrap_policy_of chain)))) \<subseteq>
      set (snd (fold multi_init_chain keys (m, es))))"
proof (induction keys arbitrary: m es)
  case (Cons key keys)
  obtain m' where step: "multi_init_chain key (m, es) =
      (m', es @ wrap_bootstrap_effects key (snd (boot_init (bootstrap_policy_of key))))"
    by (simp add: multi_init_chain_def split_beta Let_def)
  from Cons.IH [of "es @ wrap_bootstrap_effects key (snd (boot_init (bootstrap_policy_of key)))" m'] show ?case
    by (auto simp: step)
qed simp

lemma init_entries: "boot_entries (bs_pending (fst (boot_init policy))) \<subseteq> boot_entry ` set (snd (boot_init policy))"
  by (simp add: boot_init_def enter_phase_def boot_entries_def coll_entries_def boot_access_defs issue_request_def
      ids_issue_def boot_requests_new_def coll_insert_def split_beta Let_def)

lemma boot_chains_underway:
  "chains_underway (cl_state (cli_boot db)) (cl_effects (cli_boot db)) (cl_queue (cli_boot db))"
proof -
  have "entry_underway chain (mset (snd (multi_init ACTIVE_CHAINS))) [] x"
    if "map_of (ms_chains (fst (multi_init ACTIVE_CHAINS))) chain = Some l" "x \<in> lifecycle_entries l" for chain l x
  proof -
    from that(1) have chain: "chain \<in> set ACTIVE_CHAINS" and l: "l = Bootstrapping (fst (boot_init (bootstrap_policy_of chain))) []"
      by (simp_all add: multi_init_at split: if_splits)
    from init_fold_effects [of "[]" ACTIVE_CHAINS "[]"] chain
    have "set (wrap_bootstrap_effects chain (snd (boot_init (bootstrap_policy_of chain)))) \<subseteq> set (snd (multi_init ACTIVE_CHAINS))"
      unfolding multi_init_def split_beta Let_def snd_conv by blast
    from effect_entries_mono [OF this, of chain]
    have emitted: "Inr ` boot_entry ` set (snd (boot_init (bootstrap_policy_of chain))) \<subseteq>
        effect_entries chain (set (snd (multi_init ACTIVE_CHAINS)))" by simp
    from that(2) have "x \<in> Inr ` boot_entries (bs_pending (fst (boot_init (bootstrap_policy_of chain))))" by (simp add: l)
    also note image_mono [OF init_entries]
    also note emitted
    finally have "x \<in> effect_entries chain (set (snd (multi_init ACTIVE_CHAINS)))" .
    then show ?thesis by (simp add: entry_underway_def)
  qed
  then show ?thesis by (auto simp: cli_boot_def chains_underway_def split_beta Let_def)
qed

lemma more_chains_underway: "chains_underway s effects events \<Longrightarrow> chains_underway s effects (events @ more_events)"
  by (auto simp: chains_underway_def entry_underway_def)

lemma boot_run_ok: "multi_ok B (cl_state (cli_boot db))"
  by (simp add: cli_boot_def multi_ok_init split_beta Let_def)

text \<open>A chain that loads always waits for a request.\<close>

lemma loading_waits:
  assumes "multi_ok B s" "map_of (ms_chains s) chain = Some (Bootstrapping b buffered)"
  shows "lifecycle_entries (Bootstrapping b buffered) \<noteq> {}"
proof -
  from assms have "lifecycle_ok B chain (Bootstrapping b buffered)" unfolding multi_ok_def by blast
  then have "boot_ok chain b" "completion b = None" by simp_all
  then have "awaited (bs_phase b) = Some (pending_counts (bs_pending b))"
    by (cases "bs_phase b") (simp_all add: completion_def boot_ok_def)
  then show ?thesis
    by (cases "bs_phase b") (auto simp: pending_counts_def boot_entries_def coll_entries_def)
qed

text \<open>
  C27. No chain ever waits for something that nobody does. In every reachable run of the terminal program,
  whatever the services and the database answer, in whatever order effects are executed and events arrive,
  and after any restarts: each request in the ledger of a chain, of its bootstrap while it loads and of its
  kernel once it runs, is either with the workers under its id and with its payload or has its answer or
  its failure in the queue; and a chain that loads waits for at least one request, so its bootstrap cannot
  be stuck.
\<close>

theorem no_chain_waits_in_vain:
  assumes "cli_reaches E whitelist allowed db r" "map_of (ms_chains (cl_state r)) chain = Some l"
  shows "(\<forall>x\<in>lifecycle_entries l. x \<in> effect_entries chain (set_mset (cl_effects r)) \<or> (\<exists>e\<in>set (cl_queue r). answers chain e x)) \<and>
    (case l of Bootstrapping b buffered \<Rightarrow> lifecycle_entries l \<noteq> {} | Active k \<Rightarrow> True)"
proof -
  have "multi_ok (env_bloom E) (cl_state r) \<and> chains_underway (cl_state r) (cl_effects r) (cl_queue r)"
    using assms(1)
  proof (induction rule: cli_reaches.induct)
    case cli_reaches_boot
    show ?case using boot_run_ok boot_chains_underway by blast
  next
    case (cli_reaches_step r r')
    from cli_reaches_step.hyps(2) cli_reaches_step.IH show ?case
    proof cases
      case (cli_fold e q s' es)
      with cli_reaches_step.IH have ok: "multi_ok (env_bloom E) (cl_state r)" and u: "chains_underway (cl_state r) (cl_effects r) (e # q)"
        by simp_all
      from ok have "bm_wf (ms_chains (cl_state r))" by (simp add: multi_ok_def)
      from fold_chains_underway [OF this u, of E] multi_ok_step [OF ok, of e] show ?thesis by (simp add: cli_fold)
    qed (auto simp: more_chains_underway execute_chains_underway boot_run_ok boot_chains_underway)
  qed
  with assms(2) loading_waits [of "env_bloom E" "cl_state r" chain] show ?thesis
    by (auto simp: chains_underway_def entry_underway_def split: chain_lifecycle.split)
qed

definition cli_sample_env :: cli_env where
  "cli_sample_env = \<lparr>ce_rpc = (\<lambda>_. re_rpc sample_env), ce_candidates_window = (\<lambda>_ _ _. Inl (HttpTransport ''down'')),
     ce_v4_metadata = (\<lambda>_ _. Inr []), ce_faults = re_faults sample_env, ce_json = sample_json\<rparr>"

lemma ethereum_boots:
  "map_of (ms_chains (cl_state (cli_boot db))) Ethereum = Some (Bootstrapping (fst (boot_init (bootstrap_policy_of Ethereum))) [])"
  "boot_entries (bs_pending (fst (boot_init policy))) = {(BootFinalizedHeaderId 1, BootHeaderP GetFinalizedHeader)}"
  "BootstrapEffect Ethereum (BootFinalizedHeader \<lparr>ir_request_id = 1, ir_request_payload = GetFinalizedHeader\<rparr>) \<in># cl_effects (cli_boot db)"
proof -
  show "map_of (ms_chains (cl_state (cli_boot db))) Ethereum = Some (Bootstrapping (fst (boot_init (bootstrap_policy_of Ethereum))) [])"
    by (simp add: cli_boot_def split_beta Let_def multi_init_at ACTIVE_CHAINS_def)
  show "boot_entries (bs_pending (fst (boot_init policy))) = {(BootFinalizedHeaderId 1, BootHeaderP GetFinalizedHeader)}"
    by (simp add: boot_init_def enter_phase_def boot_entries_def coll_entries_def boot_access_defs issue_request_def ids_new_def
      ids_issue_def boot_requests_new_def coll_insert_def raw_id_next_def split_beta Let_def)
  show "BootstrapEffect Ethereum (BootFinalizedHeader \<lparr>ir_request_id = 1, ir_request_payload = GetFinalizedHeader\<rparr>) \<in># cl_effects (cli_boot db)"
    by (simp add: cli_boot_def multi_init_def multi_init_chain_def ACTIVE_CHAINS_def split_beta Let_def wrap_bootstrap_effects_def
      boot_init_def enter_phase_def boot_access_defs issue_request_def ids_issue_def ids_new_def boot_requests_new_def raw_id_next_def)
qed

theorem no_chain_waits_in_vain_witness:
  "\<exists>r. cli_reaches demo_env None (\<lambda>_. True) cache_opened r \<and>
     cl_queue r = [BootstrapEvent Ethereum (BootHeaderReceived 1 \<lparr>fa_hash = 1, fa_number = 10\<rparr>)] \<and>
     (\<exists>x\<in>lifecycle_entries (Bootstrapping (fst (boot_init (bootstrap_policy_of Ethereum))) []).
        x \<in> effect_entries Ethereum (set_mset (cl_effects r)) \<or> (\<exists>e\<in>set (cl_queue r). answers Ethereum e x))"
proof -
  let ?boot = "cli_boot cache_opened :: nat cli_run"
  let ?effect = "BootstrapEffect Ethereum (BootFinalizedHeader \<lparr>ir_request_id = 1, ir_request_payload = GetFinalizedHeader\<rparr>)"
  let ?events = "[BootstrapEvent Ethereum (BootHeaderReceived 1 \<lparr>fa_hash = 1, fa_number = 10\<rparr>)]"
  let ?r = "?boot\<lparr>cl_effects := cl_effects ?boot - {#?effect#}, cl_queue := cl_queue ?boot @ ?events, cl_runtime := cl_runtime ?boot\<rparr>"
  have "cli_execute_effect None cli_sample_env ?effect (cl_runtime ?boot) = (cl_runtime ?boot, ?events)"
    by (simp add: execute_bootstrap_effect_def cli_sample_env_def sample_env_def sample_header_def)
  from cli_reaches_step [OF cli_reaches_boot cli_execute [OF ethereum_boots(3) _ this]]
  have r: "cli_reaches demo_env None (\<lambda>_. True) cache_opened ?r" by simp
  have "map_of (ms_chains (cl_state ?r)) Ethereum = Some (Bootstrapping (fst (boot_init (bootstrap_policy_of Ethereum))) [])"
    using ethereum_boots(1) [of cache_opened] by simp
  note no_chain_waits_in_vain [OF r this]
  moreover have "cl_queue ?r = ?events" by (simp add: cli_boot_def split_beta Let_def)
  ultimately show ?thesis using r by (intro exI [of _ ?r]) (auto simp: ethereum_boots(2))
qed

end
