(* ===== verification/AdmissionLaws.thy ===== *)
theory AdmissionLaws
  imports CliRuntimeLaws
begin

text \<open>
  What the terminal program lets into its registries, whatever happens: only metadata that the chain has
  validated, and of pools only those whose two tokens the whitelist allows.
\<close>

section \<open>Admissible results and lifecycles\<close>

fun boot_event_holds :: "(protocol_pool_key \<Rightarrow> pool_metadata \<Rightarrow> bool) \<Rightarrow> (token_address \<Rightarrow> token_metadata \<Rightarrow> bool) \<Rightarrow> boot_event \<Rightarrow> bool" where
  "boot_event_holds P Q (BootPoolsReceived i m) \<longleftrightarrow> results_hold P m"
| "boot_event_holds P Q (BootTokensReceived i m) \<longleftrightarrow> results_hold Q m"
| "boot_event_holds P Q _ \<longleftrightarrow> True"

fun phase_holds :: "(protocol_pool_key \<Rightarrow> pool_metadata \<Rightarrow> bool) \<Rightarrow> (token_address \<Rightarrow> token_metadata \<Rightarrow> bool) \<Rightarrow> chain_key \<Rightarrow> phase \<Rightarrow> bool" where
  "phase_holds P Q chain (ResolvingTokens anchor seed verified) \<longleftrightarrow> results_hold P verified"
| "phase_holds P Q chain (Ready outcome) \<longleftrightarrow>
     pools_hold P chain (bo_pool_registry outcome) \<and> tokens_hold Q (bo_token_registry outcome)"
| "phase_holds P Q chain _ \<longleftrightarrow> True"

fun lifecycle_holds :: "(protocol_pool_key \<Rightarrow> pool_metadata \<Rightarrow> bool) \<Rightarrow> (token_address \<Rightarrow> token_metadata \<Rightarrow> bool) \<Rightarrow> chain_key \<Rightarrow>
    chain_lifecycle \<Rightarrow> bool" where
  "lifecycle_holds P Q chain (Active k) \<longleftrightarrow> registries_hold P Q chain k"
| "lifecycle_holds P Q chain (Bootstrapping b buffered) \<longleftrightarrow> phase_holds P Q chain (bs_phase b)"

fun multi_event_holds :: "(chain_key \<Rightarrow> protocol_pool_key \<Rightarrow> pool_metadata \<Rightarrow> bool) \<Rightarrow> (token_address \<Rightarrow> token_metadata \<Rightarrow> bool) \<Rightarrow>
    'f multi_event \<Rightarrow> bool" where
  "multi_event_holds P Q (ChainEvent chain e) \<longleftrightarrow> event_holds (P chain) Q e"
| "multi_event_holds P Q (BootstrapEvent chain e) \<longleftrightarrow> boot_event_holds (P chain) Q e"
| "multi_event_holds P Q _ \<longleftrightarrow> True"

lemma new_registries_hold [simp]: "pools_hold P chain pool_registry_new" "tokens_hold Q token_registry_new"
  by (simp_all add: pools_hold_def tokens_hold_def pool_verified_metadata_def pool_registry_new_def token_registry_new_def)

lemma enter_phase_phase [simp]: "bs_phase (fst (enter_phase A wrap p ph s)) = ph"
  by (simp add: enter_phase_def split_beta Let_def)

lemma boot_transition_holds:
  assumes "phase_holds P Q chain (bs_phase s)" "boot_event_holds P Q e"
  shows "phase_holds P Q chain (bs_phase (fst (boot_transition F chain s e)))"
proof (cases e)
  case BootTick
  with assms(1) show ?thesis
    by (cases "bs_phase s") (auto simp: boot_tick_arm_def split_beta Let_def completion_def into_registry_def pools_hold_results)
qed (use assms in \<open>auto simp: header_arm_def candidates_arm_def pools_arm_def tokens_arm_def split_beta Let_def
      into_registry_def pools_hold_results tokens_hold_results split: phase.split option.split\<close>)

lemma run_holds:
  assumes "registries_hold P Q chain k" "\<forall>e\<in>set es. event_holds P Q e"
  shows "registries_hold P Q chain (kern.run B chain k es)"
  using assms by (induction es arbitrary: k) (simp_all add: transition_registries)

lemma live_data_holds [simp]: "event_holds P Q (into_kernel_event data)"
  by (cases data) simp_all

lemma advance_holds:
  assumes "phase_holds P Q chain (bs_phase b)" "boot_event_holds P Q e"
    and "fst (advance_bootstrap E chain b buffered e) = Some l"
  shows "lifecycle_holds P Q chain l"
proof -
  have "phase_holds P Q chain (bs_phase (fst (boot_transition (env_filler E) chain b e)))"
    using assms(1,2) by (rule boot_transition_holds)
  with assms(3) show ?thesis
    by (auto simp: advance_bootstrap_def replay_is_run completion_def activate_bootstrap_outcome_def activated_registries
        split_beta Let_def intro!: run_holds split: phase.splits)
qed

lemma lifecycle_step_holds:
  assumes "lifecycle_holds (P chain) Q chain l" "multi_event_holds P Q e" "lifecycle_step E chain e l = Some l'"
  shows "lifecycle_holds (P chain) Q chain l'"
proof (cases l)
  case (Active k)
  have "registries_hold (P chain) Q chain (fst (transition (env_bloom E) chain k ke))" if "event_holds (P chain) Q ke" for ke
    using assms(1) Active that by (simp add: transition_registries)
  with assms Active show ?thesis by (cases e) (auto simp: active_step_def split: if_splits)
next
  case (Bootstrapping b buffered)
  have "lifecycle_holds (P chain) Q chain l'"
    if "fst (advance_bootstrap E chain b buffered be) = Some l'" "boot_event_holds (P chain) Q be" for be
    using assms(1) Bootstrapping that by (auto intro: advance_holds)
  note this [of BootTick] this
  with assms Bootstrapping show ?thesis by (cases e) (auto simp: active_step_def split: if_splits)
qed

section \<open>What the resolvers return\<close>

definition admitted :: "token_whitelist option \<Rightarrow> (chain_key \<Rightarrow> protocol_pool_key \<Rightarrow> pool_metadata_result) \<Rightarrow> chain_key \<Rightarrow>
    protocol_pool_key \<Rightarrow> pool_metadata \<Rightarrow> bool" where
  "admitted whitelist pools chain key m \<longleftrightarrow> vouched (pools chain) key m \<and>
     (case whitelist of
        None \<Rightarrow> True
      | Some w \<Rightarrow> allows w (TokenAddress (pm_token0 m) chain) \<and> allows w (TokenAddress (pm_token1 m) chain))"

definition cli_services_sound :: "json_ops \<Rightarrow> (chain_key \<Rightarrow> protocol_pool_key \<Rightarrow> pool_metadata_result) \<Rightarrow>
    (token_address \<Rightarrow> token_metadata_result) \<Rightarrow> cli_env \<Rightarrow> bool" where
  "cli_services_sound J pools tokens C \<longleftrightarrow>
     ce_json C = J \<and> (\<forall>chain at. fetch_sound (pools chain) (rp_pool_metadata (ce_rpc C chain) at)) \<and>
     (\<forall>chain. fetch_sound (pools chain) (ce_v4_metadata C chain)) \<and>
     (\<forall>chain at. fetch_sound tokens (rp_token_metadata (ce_rpc C chain) at))"

lemma split_fetch_sound:
  "fetch_sound world fetch_v3 \<Longrightarrow> fetch_sound world fetch_v4 \<Longrightarrow> fetch_sound world (split_fetch fetch_v3 fetch_v4)"
  using set_hm_extend by (fastforce simp: fetch_sound_def split_fetch_def results_true_def split: sum.splits)

lemma gated_admitted:
  assumes "results_hold (vouched (pools chain)) results"
  shows "results_hold (admitted whitelist pools chain)
    (case whitelist of Some w \<Rightarrow> gate_pool_metadata_results w chain results | None \<Rightarrow> results)"
  using assms
  by (auto simp: results_hold_def admitted_def gate_pool_metadata_results_def gate_pool_metadata_result_def
      split: option.splits sum.splits if_splits)

lemma cli_pools_admitted:
  assumes "codecs_ok J" "cli_services_sound J pools tokens C" "world_cache J pools tokens db"
    and "cli_pool_metadata whitelist C chain at wanted db = (db', outcome)"
  shows "world_cache J pools tokens db' \<and> (\<forall>r. outcome = Inr r \<longrightarrow> results_hold (admitted whitelist pools chain) r)"
proof -
  let ?fetch = "split_fetch (rp_pool_metadata (ce_rpc C chain) at) (ce_v4_metadata C chain)"
  obtain raw where raw: "cached_pool_metadata J (cf_load_pools (ce_faults C)) (cf_store_pools (ce_faults C)) chain wanted ?fetch db = (db', raw)"
    and outcome: "outcome = (case raw of Inl e \<Rightarrow> Inl e | Inr results \<Rightarrow>
      Inr (case whitelist of Some w \<Rightarrow> gate_pool_metadata_results w chain results | None \<Rightarrow> results))"
    using assms(2,4) by (auto simp: cli_pool_metadata_def command_line_resolver cli_services_sound_def split_beta Let_def prod_eq_iff)
  have "fetch_sound (pools chain) ?fetch" using assms(2) by (simp add: cli_services_sound_def split_fetch_sound)
  from pool_resolution_true [OF assms(1,3) this raw] show ?thesis
    unfolding outcome by (auto simp: results_true_iff gated_admitted split: sum.splits)
qed

lemma cli_tokens_vouched:
  assumes "codecs_ok J" "cli_services_sound J pools tokens C" "world_cache J pools tokens db"
    and "cli_token_metadata C chain at wanted db = (db', outcome)"
  shows "world_cache J pools tokens db' \<and> (\<forall>r. outcome = Inr r \<longrightarrow> results_hold (vouched tokens) r)"
proof -
  have J: "ce_json C = J" using assms(2) by (simp add: cli_services_sound_def)
  have "cached_token_metadata J (cf_load_tokens (ce_faults C)) (cf_store_tokens (ce_faults C)) wanted
      (rp_token_metadata (ce_rpc C chain) at) db = (db', outcome)"
    using assms(4) J unfolding cli_token_metadata_def cached_token_metadata_def cached_metadata_with_def Let_def J by simp
  moreover have "fetch_sound tokens (rp_token_metadata (ce_rpc C chain) at)" using assms(2) by (simp add: cli_services_sound_def)
  ultimately show ?thesis using token_resolution_true [OF assms(1,3)] by (simp add: results_true_iff)
qed

lemma cli_execute_true:
  assumes "codecs_ok J" "cli_services_sound J pools tokens C" "world_cache J pools tokens (cr_metadata_cache runtime)"
    and "cli_execute_effect whitelist C effect runtime = (runtime', events)"
  shows "world_cache J pools tokens (cr_metadata_cache runtime') \<and>
    (\<forall>e\<in>set events. multi_event_holds (admitted whitelist pools) (vouched tokens) e)"
proof (cases effect)
  case (ChainEffect chain ke)
  obtain request where ke: "ke = Request request" by (cases ke)
  show ?thesis
    using assms(3,4) cli_pools_admitted [OF assms(1-3)] cli_tokens_vouched [OF assms(1-3)] unfolding ChainEffect ke
    by (cases request)
      (auto simp: execute_chain_effect_def cli_fetchers_def Let_def split: prod.splits sum.splits option.splits)
next
  case (BootstrapEffect chain request)
  show ?thesis
    using assms(3,4) cli_pools_admitted [OF assms(1-3)] cli_tokens_vouched [OF assms(1-3)] unfolding BootstrapEffect
    by (cases request)
      (auto simp: execute_bootstrap_effect_def Let_def split: prod.splits sum.splits option.splits)
qed (use assms in \<open>auto split: sum.splits option.splits\<close>)

section \<open>Every reachable run\<close>

definition run_true :: "json_ops \<Rightarrow> token_whitelist option \<Rightarrow> (chain_key \<Rightarrow> protocol_pool_key \<Rightarrow> pool_metadata_result) \<Rightarrow>
    (token_address \<Rightarrow> token_metadata_result) \<Rightarrow> bloom_ops \<Rightarrow> 'f cli_run \<Rightarrow> bool" where
  "run_true J whitelist pools tokens B r \<longleftrightarrow>
     world_cache J pools tokens (cr_metadata_cache (cl_runtime r)) \<and> multi_ok B (cl_state r) \<and>
     (\<forall>chain l. map_of (ms_chains (cl_state r)) chain = Some l \<longrightarrow>
        lifecycle_holds (admitted whitelist pools chain) (vouched tokens) chain l) \<and>
     (\<forall>e\<in>set (cl_queue r). multi_event_holds (admitted whitelist pools) (vouched tokens) e)"

lemma boot_run_true: "world_cache J pools tokens db \<Longrightarrow> run_true J whitelist pools tokens B (cli_boot db)"
  using boot_run_ok [of B db]
  by (auto simp: run_true_def cli_boot_def multi_init_at boot_init_def split_beta Let_def split: if_splits)

lemma step_run_true:
  assumes "codecs_ok J" "cli_step E whitelist (cli_services_sound J pools tokens) r r'"
    and "run_true J whitelist pools tokens (env_bloom E) r"
  shows "run_true J whitelist pools tokens (env_bloom E) r'"
  using assms(2)
proof cases
  case (cli_fold e q s' es)
  from assms(3) have ok: "multi_ok (env_bloom E) (cl_state r)" by (simp add: run_true_def)
  then have wf: "bm_wf (ms_chains (cl_state r))" by (simp add: multi_ok_def)
  have s': "s' = fst (multi_transition E (cl_state r) e)" using cli_fold(3) by simp
  have e: "multi_event_holds (admitted whitelist pools) (vouched tokens) e" using assms(3) cli_fold(2) by (simp add: run_true_def)
  have "lifecycle_holds (admitted whitelist pools chain) (vouched tokens) chain l'"
    if "map_of (ms_chains s') chain = Some l'" for chain l'
  proof -
    from that multi_transition_at [OF wf, of E e chain] obtain l
      where "map_of (ms_chains (cl_state r)) chain = Some l" "lifecycle_step E chain e l = Some l'"
      unfolding s' by (auto split: bind_splits)
    with assms(3) e show ?thesis by (auto simp: run_true_def intro: lifecycle_step_holds)
  qed
  with assms(3) multi_ok_step [OF ok, of e] show ?thesis by (simp add: run_true_def cli_fold(1,2) s')
next
  case (cli_execute effect C runtime' events)
  from assms(3) have "world_cache J pools tokens (cr_metadata_cache (cl_runtime r))" by (simp add: run_true_def)
  from cli_execute_true [OF assms(1) cli_execute(3) this cli_execute(4)] assms(3) show ?thesis
    by (auto simp: run_true_def cli_execute(1))
next
  case cli_restart
  from assms(3) have "world_cache J pools tokens (cr_metadata_cache (cl_runtime r))" by (simp add: run_true_def)
  then show ?thesis unfolding cli_restart by (rule boot_run_true)
qed (use assms(3) in \<open>auto simp: run_true_def spawn_optimization_def split: option.split\<close>)

text \<open>
  C29. The whitelist cannot be bypassed. Start the terminal program on a cache whose rows are true, and let
  both metadata services answer with whatever the chain has validated or fail; let the database fail at any
  load or store, effects be executed and events arrive in any order, late or twice, chains bootstrap on the
  pools that earlier runs cached under another whitelist, and the process restart at any time. Then in every
  reachable run each pool that an active chain's kernel has verified carries the metadata the chain has for
  it and has both its tokens on the whitelist, each verified token carries the chain's metadata, the
  kernel's invariant holds, and the rows of the cache stay true.
\<close>

theorem only_admitted_pools:
  assumes "codecs_ok J" "world_cache J pools tokens db"
    and "cli_reaches E whitelist (cli_services_sound J pools tokens) db r"
  shows "world_cache J pools tokens (cr_metadata_cache (cl_runtime r)) \<and>
    (\<forall>chain k. map_of (ms_chains (cl_state r)) chain = Some (Active k) \<longrightarrow>
       kernel_ok chain k \<and>
       (\<forall>key m. pool_verified_metadata (ks_pool_registry k) (PoolRef key chain) = Some m \<longrightarrow>
          pools chain key = Inr m \<and>
          (\<forall>w. whitelist = Some w \<longrightarrow> {TokenAddress (pm_token0 m) chain, TokenAddress (pm_token1 m) chain} \<subseteq> w)) \<and>
       (\<forall>t m. map_of (tr_verified (ks_token_registry k)) t = Some m \<longrightarrow> tokens t = Inr m))"
proof -
  have "run_true J whitelist pools tokens (env_bloom E) r"
    using assms(3)
  proof (induction rule: cli_reaches.induct)
    case cli_reaches_boot
    show ?case using assms(2) by (rule boot_run_true)
  next
    case (cli_reaches_step r r')
    from step_run_true [OF assms(1) cli_reaches_step.hyps(2) cli_reaches_step.IH] show ?case .
  qed
  then have cache: "world_cache J pools tokens (cr_metadata_cache (cl_runtime r))" and "multi_ok (env_bloom E) (cl_state r)"
    and holds: "\<And>chain l. map_of (ms_chains (cl_state r)) chain = Some l \<Longrightarrow>
      lifecycle_holds (admitted whitelist pools chain) (vouched tokens) chain l"
    by (simp_all add: run_true_def)
  then have "kernel_ok chain k" if "map_of (ms_chains (cl_state r)) chain = Some (Active k)" for chain k
    using that reachable_ok [of "env_bloom E" chain k] unfolding multi_ok_def by (metis lifecycle_ok.simps(2))
  with cache show ?thesis
    by (auto dest!: holds simp: registries_hold_def pools_hold_def tokens_hold_def admitted_def vouched_def allows_def)
qed

text \<open>
  The session the optimizer runs keeps to the whitelist too: its asset and its bridges are allowed, the
  bridges come in both directions, and every default bridge is either kept or reported as dropped. Only a
  whitelist without the asset is refused.
\<close>

lemma default_bridges_two_way: "(a, b) \<in> set default_optimization_bridges \<Longrightarrow> (b, a) \<in> set default_optimization_bridges"
proof -
  have "\<forall>p\<in>set default_optimization_bridges. prod.swap p \<in> set default_optimization_bridges"
    unfolding default_optimization_bridges_def by simp
  then show "(a, b) \<in> set default_optimization_bridges \<Longrightarrow> (b, a) \<in> set default_optimization_bridges" by auto
qed

lemma session_config_keeps_whitelist:
  "case optimization_session_config whitelist of
     Inl e \<Rightarrow> (\<exists>w. whitelist = Some w \<and> ETHEREUM_USDC_TOKEN_ADDRESS \<notin> w)
   | Inr (config, dropped) \<Rightarrow>
       sc_whitelist config = whitelist \<and> set (sc_bridges config) \<union> set dropped = set default_optimization_bridges \<and>
       (\<forall>(a, b)\<in>set (sc_bridges config). (b, a) \<in> set (sc_bridges config)) \<and>
       (\<forall>w. whitelist = Some w \<longrightarrow> {sc_source_asset config, sc_output_asset config} \<subseteq> w \<and>
          set (sc_bridges config) = set default_optimization_bridges \<inter> w \<times> w)"
  using default_bridges_two_way
  by (auto simp: optimization_session_config_def Let_def allows_def split: option.split)

text \<open>A run in which Ethereum bootstraps on the one pool of the cache, whose tokens the whitelist allows.\<close>

definition sample_whitelist :: token_whitelist where
  "sample_whitelist = {TokenAddress 1 Ethereum, TokenAddress 2 Ethereum}"

definition windowed_env :: cli_env where
  "windowed_env = cli_sample_env\<lparr>ce_candidates_window := (\<lambda>_ _ _. Inr ([], 10, None))\<rparr>"

definition boot_answers :: "nat multi_event list" where
  "boot_answers = map (BootstrapEvent Ethereum)
     [BootHeaderReceived 1 \<lparr>fa_hash = 1, fa_number = 10\<rparr>, BootCandidatesReceived 2 [] 10 None,
      BootPoolsReceived 3 [(UniswapV3 1, Inr sample_metadata)], BootTokensReceived 4 []]"

definition boot_effects :: "nat multi_effect list" where
  "boot_effects = map (BootstrapEffect Ethereum)
     [BootFinalizedHeader \<lparr>ir_request_id = 1, ir_request_payload = GetFinalizedHeader\<rparr>,
      BootPoolCandidates \<lparr>ir_request_id = 2, ir_request_payload = GetPoolCandidatesInRange 10 None\<rparr>,
      BootPoolMetadata \<lparr>ir_request_id = 3, ir_request_payload = GetPoolMetadata 1 {}\<rparr>,
      BootTokenMetadata \<lparr>ir_request_id = 4, ir_request_payload = GetTokenMetadata 1 {TokenAddress 1 Ethereum, TokenAddress 2 Ethereum}\<rparr>]"

definition boot_state_after :: "nat \<Rightarrow> nat multi_state" where
  "boot_state_after n = fold (\<lambda>e s. fst (multi_transition demo_env s e)) (take n boot_answers) (fst (multi_init ACTIVE_CHAINS))"

lemma boot_chain_of_effects:
  "boot_effects ! 1 \<in> set (snd (multi_transition demo_env (boot_state_after 0) (boot_answers ! 0)))"
  "boot_effects ! 2 \<in> set (snd (multi_transition demo_env (boot_state_after 1) (boot_answers ! 1)))"
  "boot_effects ! 3 \<in> set (snd (multi_transition demo_env (boot_state_after 2) (boot_answers ! 2)))"
  by code_simp+

lemma boot_ends_active:
  "case map_of (ms_chains (boot_state_after 4)) Ethereum of
     Some (Active k) \<Rightarrow> pool_verified_metadata (ks_pool_registry k) (PoolRef (UniswapV3 1) Ethereum) = Some sample_metadata
   | _ \<Rightarrow> False"
  by code_simp

definition warm_runtime :: "nat client_evm_runtime" where
  "warm_runtime = \<lparr>cr_metadata_cache = sample_cache, cr_optimization_sender = None\<rparr>"

lemma boot_executions:
  "cli_execute_effect (Some sample_whitelist) windowed_env (boot_effects ! 0) warm_runtime = (warm_runtime, [boot_answers ! 0])"
  "cli_execute_effect (Some sample_whitelist) windowed_env (boot_effects ! 1) warm_runtime = (warm_runtime, [boot_answers ! 1])"
  "cli_execute_effect (Some sample_whitelist) windowed_env (boot_effects ! 2) warm_runtime = (warm_runtime, [boot_answers ! 2])"
  "cli_execute_effect (Some sample_whitelist) windowed_env (boot_effects ! 3) warm_runtime = (warm_runtime, [boot_answers ! 3])"
proof -
  have known: "load_pool_candidates None sample_cache Ethereum = Inr {UniswapV3 1}" by code_simp
  have hits: "load_pool_metadata sample_json None sample_cache Ethereum {UniswapV3 1} = Inr [(UniswapV3 1, sample_metadata)]"
    by (simp add: load_pool_metadata_def sample_cache_def sample_json_def)
  have absent: "loaded_or_empty (load_token_metadata sample_json None sample_cache ts) = []" for ts
  proof -
    have "load_hits token_key (js_token_from sample_json) [] ks [] = Inr []" for ks by (induction ks) simp_all
    then show ?thesis by (simp add: load_token_metadata_def loaded_or_empty_def sample_cache_def cache_opened_def)
  qed
  note services = windowed_env_def cli_sample_env_def sample_env_def sample_header_def boot_effects_def boot_answers_def
    warm_runtime_def execute_bootstrap_effect_def
  show "cli_execute_effect (Some sample_whitelist) windowed_env (boot_effects ! 0) warm_runtime = (warm_runtime, [boot_answers ! 0])"
    "cli_execute_effect (Some sample_whitelist) windowed_env (boot_effects ! 1) warm_runtime = (warm_runtime, [boot_answers ! 1])"
    by (simp_all add: services)
  show "cli_execute_effect (Some sample_whitelist) windowed_env (boot_effects ! 2) warm_runtime = (warm_runtime, [boot_answers ! 2])"
    by (simp add: services widened_candidates_def known cli_pool_metadata_def resolve_pool_metadata_with_def hits loaded_or_empty_def
        store_pool_metadata_def successes_def map_filter_simps hm_extend_def with_hits_def gate_pool_metadata_results_def
        gate_pool_metadata_result_def sample_whitelist_def allows_def sample_metadata_def)
  show "cli_execute_effect (Some sample_whitelist) windowed_env (boot_effects ! 3) warm_runtime = (warm_runtime, [boot_answers ! 3])"
    by (simp add: services cli_token_metadata_def absent store_token_metadata_def successes_def map_filter_simps with_hits_def hm_extend_def)
qed

lemma run_driven:
  assumes "cli_reaches E whitelist allowed db r" "cl_queue r = []" "effect \<in># cl_effects r" "allowed C"
    and "cli_execute_effect whitelist C effect (cl_runtime r) = (cl_runtime r, [e])"
  shows "\<exists>r'. cli_reaches E whitelist allowed db r' \<and> cl_queue r' = [] \<and> cl_runtime r' = cl_runtime r \<and>
    cl_state r' = fst (multi_transition E (cl_state r) e) \<and>
    set (snd (multi_transition E (cl_state r) e)) \<subseteq> set_mset (cl_effects r')"
proof -
  let ?r = "r\<lparr>cl_effects := cl_effects r - {#effect#}, cl_queue := cl_queue r @ [e], cl_runtime := cl_runtime r\<rparr>"
  obtain s' es where t: "multi_transition E (cl_state r) e = (s', es)" by fastforce
  have "cli_reaches E whitelist allowed db ?r"
    using cli_reaches_step [OF assms(1) cli_execute [where r = r and E = E and allowed = allowed and C = C, OF assms(3,4,5)]] .
  moreover have "cl_queue ?r = e # []" "multi_transition E (cl_state ?r) e = (s', es)" using assms(2) t by simp_all
  note cli_fold [OF this]
  ultimately have "cli_reaches E whitelist allowed db
      (?r\<lparr>cl_state := s', cl_effects := cl_effects ?r + mset es, cl_queue := []\<rparr>)"
    by (rule cli_reaches_step)
  then show ?thesis by (intro exI conjI) (assumption, simp_all add: t)
qed

lemma boots_reached:
  assumes "allowed windowed_env"
  shows "\<exists>r. cli_reaches demo_env (Some sample_whitelist) allowed sample_cache r \<and> cl_state r = boot_state_after 4"
proof -
  let ?on = "\<lambda>n r. cli_reaches demo_env (Some sample_whitelist) allowed sample_cache r \<and> cl_queue r = [] \<and>
    cl_runtime r = warm_runtime \<and> cl_state r = boot_state_after n"
  have next_state: "fst (multi_transition demo_env (boot_state_after 0) (boot_answers ! 0)) = boot_state_after 1"
    "fst (multi_transition demo_env (boot_state_after 1) (boot_answers ! 1)) = boot_state_after 2"
    "fst (multi_transition demo_env (boot_state_after 2) (boot_answers ! 2)) = boot_state_after 3"
    "fst (multi_transition demo_env (boot_state_after 3) (boot_answers ! 3)) = boot_state_after 4"
    by (simp_all add: boot_state_after_def boot_answers_def numeral_eq_Suc del: multi_transition.simps)
  have driven: "\<exists>r'. ?on m r' \<and> set (snd (multi_transition demo_env (boot_state_after n) (boot_answers ! n))) \<subseteq> set_mset (cl_effects r')"
    if "?on n r" "boot_effects ! n \<in># cl_effects r"
      "cli_execute_effect (Some sample_whitelist) windowed_env (boot_effects ! n) warm_runtime = (warm_runtime, [boot_answers ! n])"
      "fst (multi_transition demo_env (boot_state_after n) (boot_answers ! n)) = boot_state_after m" for n m r
    using run_driven [of demo_env "Some sample_whitelist" allowed sample_cache r "boot_effects ! n" windowed_env "boot_answers ! n"] that assms
    by auto
  let ?boot = "cli_boot sample_cache :: nat cli_run"
  have "?on 0 ?boot"
    by (simp add: cli_reaches_boot) (simp add: cli_boot_def boot_state_after_def warm_runtime_def split_beta Let_def)
  moreover have "boot_effects ! 0 \<in># cl_effects ?boot" using ethereum_boots(3) [of sample_cache] by (simp add: boot_effects_def)
  ultimately obtain r1 where "?on 1 r1" "boot_effects ! 1 \<in># cl_effects r1"
    using driven [OF _ _ boot_executions(1) next_state(1)] boot_chain_of_effects(1) by blast
  then obtain r2 where "?on 2 r2" "boot_effects ! 2 \<in># cl_effects r2"
    using driven [OF _ _ boot_executions(2) next_state(2)] boot_chain_of_effects(2) by blast
  then obtain r3 where "?on 3 r3" "boot_effects ! 3 \<in># cl_effects r3"
    using driven [OF _ _ boot_executions(3) next_state(3)] boot_chain_of_effects(3) by blast
  then show ?thesis using driven [OF _ _ boot_executions(4) next_state(4)] by blast
qed

theorem only_admitted_pools_witness:
  "\<exists>r k. cli_reaches demo_env (Some sample_whitelist)
       (cli_services_sound sample_json sample_world (\<lambda>_. Inl (UnsupportedDecimals 99))) sample_cache r \<and>
     map_of (ms_chains (cl_state r)) Ethereum = Some (Active k) \<and> kernel_ok Ethereum k \<and>
     pool_verified_metadata (ks_pool_registry k) (PoolRef (UniswapV3 1) Ethereum) = Some sample_metadata \<and>
     TokenAddress (pm_token0 sample_metadata) Ethereum \<in> sample_whitelist"
proof -
  let ?tokens = "\<lambda>_ :: token_address. Inl (UnsupportedDecimals 99) :: token_metadata_result"
  have "cli_services_sound sample_json sample_world ?tokens windowed_env"
    by (auto simp: cli_services_sound_def windowed_env_def cli_sample_env_def sample_env_def fetch_sound_def results_true_def)
  from boots_reached [of "cli_services_sound sample_json sample_world ?tokens", OF this] obtain r
    where r: "cli_reaches demo_env (Some sample_whitelist) (cli_services_sound sample_json sample_world ?tokens) sample_cache r"
      and s: "cl_state r = boot_state_after 4" by blast
  from boot_ends_active obtain k where k: "map_of (ms_chains (cl_state r)) Ethereum = Some (Active k)"
    "pool_verified_metadata (ks_pool_registry k) (PoolRef (UniswapV3 1) Ethereum) = Some sample_metadata"
    unfolding s by (auto split: option.splits chain_lifecycle.splits)
  from only_admitted_pools [OF sample_codecs sample_cache_true r] k have "kernel_ok Ethereum k"
    "{TokenAddress (pm_token0 sample_metadata) Ethereum, TokenAddress (pm_token1 sample_metadata) Ethereum} \<subseteq> sample_whitelist"
    by blast+
  with r k show ?thesis by blast
qed

end
