(* ===== verification/LogBatch.thy ===== *)
theory LogBatch
  imports GraphInvariants
begin

text \<open>
  The consolidation of streamed logs (client-evm client/subscription.rs and the loop over it in
  client/client_effects.rs): the logs that several providers deliver for a chain are collected for a
  window, keyed by block and index, and handed on as one batch per block. The result: a graph that takes
  the batches ends as if it had taken every delivered log one by one.
\<close>

section \<open>The buffer and the loop\<close>

text \<open>A frame of the stream: a log with the flag of a reorganisation's retraction and its block's hash.\<close>

record 'd log_frame = "'d raw_log" +
  lf_removed :: bool
  lf_block_hash :: "block_hash option"

definition admit_pool_log_frame :: "'d event_abi \<Rightarrow> 'd log_frame \<Rightarrow> (block_hash \<times> pool_log) option" where
  "admit_pool_log_frame abi log =
     (if lf_removed log then None
      else case (lf_block_hash log, decode_pool_log abi (raw_log.truncate log)) of
        (Some block_hash, Some pool_log) \<Rightarrow> Some (block_hash, pool_log)
      | _ \<Rightarrow> None)"

type_synonym log_batch_buffer = "(block_hash, (u64, pool_log) bmap) hmap"

definition log_batch_new :: log_batch_buffer where
  "log_batch_new = []"

definition observe_log :: "block_hash \<Rightarrow> pool_log \<Rightarrow> log_batch_buffer \<Rightarrow> log_batch_buffer" where
  "observe_log h log blocks =
     AList.update h (bm_insert (pl_log_index log) log (case map_of blocks h of None \<Rightarrow> [] | Some logs \<Rightarrow> logs)) blocks"

definition log_batch_is_empty :: "log_batch_buffer \<Rightarrow> bool" where
  "log_batch_is_empty blocks \<longleftrightarrow> blocks = []"

definition log_batch_flush :: "log_batch_buffer \<Rightarrow> log_batch_buffer \<times> (block_hash \<times> pool_log list) list" where
  "log_batch_flush blocks = ([], map (\<lambda>(h, logs). (h, map snd logs)) blocks)"

definition flush_batches :: "log_batch_buffer \<Rightarrow> log_batch_buffer \<times> (block_hash \<times> pool_log list) list" where
  "flush_batches buffer = (if log_batch_is_empty buffer then (buffer, []) else log_batch_flush buffer)"

text \<open>What the loop receives: a delivered log or the end of a window; the list's end is the disconnection.\<close>

datatype raw_stream = Delivered block_hash pool_log | WindowElapsed

fun consolidate_from :: "log_batch_buffer \<Rightarrow> raw_stream list \<Rightarrow> (block_hash \<times> pool_log list) list" where
  "consolidate_from buffer [] = snd (flush_batches buffer)"
| "consolidate_from buffer (Delivered h log # raw) = consolidate_from (observe_log h log buffer) raw"
| "consolidate_from buffer (WindowElapsed # raw) =
     (let (buffer, batches) = flush_batches buffer in batches @ consolidate_from buffer raw)"

definition consolidate_pool_logs :: "raw_stream list \<Rightarrow> (block_hash \<times> pool_log list) list" where
  "consolidate_pool_logs raw = consolidate_from log_batch_new raw"

section \<open>Merging in parts\<close>

definition logs_sorted :: "block_data \<Rightarrow> bool" where
  "logs_sorted d \<longleftrightarrow> (case bd_logs d of Streamed m \<Rightarrow> bm_wf m | _ \<Rightarrow> True)"

definition graph_logs_sorted :: "blocks_graph \<Rightarrow> bool" where
  "graph_logs_sorted g \<longleftrightarrow> (\<forall>n\<in>snd ` set (bg_nodes g). logs_sorted (node_data n))"

lemma key_by_log_index_wf [simp]: "bm_wf (key_by_log_index logs)"
  by (simp add: key_by_log_index_def)

lemma merge_keeps_sorted [simp]: "logs_sorted d \<Longrightarrow> logs_sorted (merge_streamed logs d)"
  by (auto simp: logs_sorted_def merge_streamed_def split: block_logs.splits)

lemma extend_collected:
  assumes "bm_wf m"
  shows "bm_extend m (bm_collect es) = bm_extend m es"
proof (rule bm_ext)
  have "hm_wf (bm_collect es)" by (rule bm_wf_hm_wf) simp
  then have "map_of (rev (bm_collect es)) = map_of (bm_collect es)" by (rule map_of_rev_wf)
  then show "map_of (bm_extend m (bm_collect es)) = map_of (bm_extend m es)"
    by (auto simp: fun_eq_iff map_of_bm_extend bm_collect_def split: option.split)
qed (use assms in simp_all)

lemma extend_append: "bm_extend (bm_extend m xs) ys = bm_extend m (xs @ ys)"
  by (simp add: bm_extend_def)

lemma extend_keyed_append:
  assumes "bm_wf m"
  shows "bm_extend (bm_extend m (key_by_log_index xs)) (key_by_log_index ys) = bm_extend m (key_by_log_index (xs @ ys))"
  using assms by (simp add: key_by_log_index_def extend_collected) (simp add: extend_append)

lemma keyed_append: "bm_extend (key_by_log_index xs) (key_by_log_index ys) = key_by_log_index (xs @ ys)"
proof -
  have "bm_extend (key_by_log_index xs) (key_by_log_index ys) = bm_extend (key_by_log_index xs) (map (\<lambda>log. (pl_log_index log, log)) ys)"
    by (simp add: key_by_log_index_def extend_collected)
  then show ?thesis by (simp add: key_by_log_index_def bm_collect_def extend_append)
qed

lemma merge_streamed_append:
  "logs_sorted d \<Longrightarrow> merge_streamed ys (merge_streamed xs d) = merge_streamed (xs @ ys) d"
  by (cases "bd_logs d") (simp_all add: merge_streamed_def logs_sorted_def extend_keyed_append keyed_append)

text \<open>The updates of one block compose and those of different blocks commute.\<close>

abbreviation stream_into :: "block_hash \<Rightarrow> pool_log list \<Rightarrow> blocks_graph \<Rightarrow> blocks_graph" where
  "stream_into h logs g \<equiv> with_streamed_logs g h logs"

lemma entry_commute:
  "h \<noteq> k \<Longrightarrow> AList.map_entry h f (AList.map_entry k f' ns) = AList.map_entry k f' (AList.map_entry h f ns)"
  by (induction ns) auto

lemma stream_commute: "h \<noteq> k \<Longrightarrow> stream_into h xs (stream_into k ys g) = stream_into k ys (stream_into h xs g)"
  by (simp add: with_streamed_logs_def update_block_data_def entry_commute)

lemma entry_compose:
  "\<forall>n\<in>snd ` set ns. f (f' n) = f'' n \<Longrightarrow> AList.map_entry h f (AList.map_entry h f' ns) = AList.map_entry h f'' ns"
  by (induction ns) auto

lemma stream_append:
  assumes "graph_logs_sorted g"
  shows "stream_into h ys (stream_into h xs g) = stream_into h (xs @ ys) g"
proof -
  have "map_node_data (merge_streamed ys) (map_node_data (merge_streamed xs) n) = map_node_data (merge_streamed (xs @ ys)) n"
    if "n \<in> snd ` set (bg_nodes g)" for n
  proof -
    have "logs_sorted (node_data n)" using assms that unfolding graph_logs_sorted_def by blast
    then show ?thesis by (cases n) (simp_all add: merge_streamed_append)
  qed
  then show ?thesis by (simp add: with_streamed_logs_def update_block_data_def entry_compose)
qed

lemma entry_all: "(\<And>n. P n \<Longrightarrow> P (f n)) \<Longrightarrow> \<forall>n\<in>snd ` set ns. P n \<Longrightarrow> \<forall>n\<in>snd ` set (AList.map_entry h f ns). P n"
  by (induction ns) auto

lemma graph_logs_sorted_stream [simp]:
  assumes "graph_logs_sorted g"
  shows "graph_logs_sorted (stream_into h logs g)"
proof -
  have "logs_sorted (node_data (map_node_data (merge_streamed logs) n))" if "logs_sorted (node_data n)" for n
    using that by (cases n) simp_all
  from entry_all [where P = "\<lambda>n. logs_sorted (node_data n)" and ns = "bg_nodes g" and h = h, OF this] assms show ?thesis
    by (simp add: graph_logs_sorted_def with_streamed_logs_def update_block_data_def)
qed

text \<open>A batch counts by what it holds under each index.\<close>

lemma stream_keyed:
  assumes "key_by_log_index xs = key_by_log_index ys"
  shows "stream_into h xs g = stream_into h ys g"
proof -
  have "merge_streamed xs = merge_streamed ys" unfolding merge_streamed_def fun_eq_iff assms by (rule allI) (rule refl)
  then show ?thesis by (simp only: with_streamed_logs_def)
qed

section \<open>Consolidation is transparent\<close>

definition take_batches :: "(block_hash \<times> pool_log list) list \<Rightarrow> blocks_graph \<Rightarrow> blocks_graph" where
  "take_batches batches g = fold (\<lambda>(h, logs) g. stream_into h logs g) batches g"

text \<open>The deliveries of a stream, each as a batch of its own.\<close>

fun single_batches :: "raw_stream list \<Rightarrow> (block_hash \<times> pool_log list) list" where
  "single_batches [] = []"
| "single_batches (Delivered h log # raw) = (h, [log]) # single_batches raw"
| "single_batches (WindowElapsed # raw) = single_batches raw"

definition entry_ok :: "(u64, pool_log) bmap \<Rightarrow> bool" where
  "entry_ok m \<longleftrightarrow> bm_wf m \<and> (\<forall>(i, log)\<in>set m. pl_log_index log = i)"

definition buffer_ok :: "log_batch_buffer \<Rightarrow> bool" where
  "buffer_ok blocks \<longleftrightarrow> hm_wf blocks \<and> (\<forall>m\<in>snd ` set blocks. entry_ok m)"

lemma take_batches_simps [simp]:
  "take_batches [] g = g"
  "take_batches ((h, logs) # batches) g = take_batches batches (stream_into h logs g)"
  "take_batches (xs @ ys) g = take_batches ys (take_batches xs g)"
  by (simp_all add: take_batches_def)

lemma take_batches_sorted [simp]: "graph_logs_sorted g \<Longrightarrow> graph_logs_sorted (take_batches batches g)"
  by (induction batches arbitrary: g) auto

lemma take_batches_commute:
  "h \<notin> fst ` set batches \<Longrightarrow> take_batches batches (stream_into h logs g) = stream_into h logs (take_batches batches g)"
  by (induction batches arbitrary: g) (auto simp: stream_commute)

lemma keyed_values: "\<forall>(i, log)\<in>set m. pl_log_index log = i \<Longrightarrow> bm_wf m \<Longrightarrow> key_by_log_index (map snd m) = m"
proof -
  assume idx: "\<forall>(i, log)\<in>set m. pl_log_index log = i" and wf: "bm_wf m"
  have "map (\<lambda>log. (pl_log_index log, log)) (map snd m) = m"
    using idx by (induction m) auto
  then have "key_by_log_index (map snd m) = bm_extend [] m" by (simp add: key_by_log_index_def bm_collect_def)
  also have "\<dots> = m" using wf by (intro bm_ext) (auto simp: fun_eq_iff map_of_bm_extend map_of_rev_wf bm_wf_hm_wf split: option.split)
  finally show ?thesis .
qed

lemma set_bm_insert: "set (bm_insert k v m) \<subseteq> insert (k, v) (set m)"
  by (induction k v m rule: bm_insert.induct) auto

lemma entry_ok_insert: "entry_ok m \<Longrightarrow> entry_ok (bm_insert (pl_log_index log) log m)"
  using set_bm_insert [of "pl_log_index log" log m] by (auto simp: entry_ok_def dest!: subsetD)

lemma buffer_update_values: "snd ` set (AList.update h v blocks) \<subseteq> insert v (snd ` set blocks)"
  by (induction blocks) auto

lemma observed_ok:
  assumes "buffer_ok blocks"
  shows "buffer_ok (observe_log h log blocks)"
proof -
  let ?m = "case map_of blocks h of None \<Rightarrow> [] | Some logs \<Rightarrow> logs"
  have "entry_ok ?m"
  proof (cases "map_of blocks h")
    case None
    then show ?thesis by (simp add: entry_ok_def)
  next
    case (Some m)
    then have "m \<in> snd ` set blocks" by (force dest: map_of_SomeD)
    with assms Some show ?thesis by (auto simp: buffer_ok_def)
  qed
  then have v: "entry_ok (bm_insert (pl_log_index log) log ?m)" (is "entry_ok ?v") by (rule entry_ok_insert)
  have all: "\<forall>n\<in>snd ` set blocks. entry_ok n" using assms unfolding buffer_ok_def by (rule conjunct2)
  have "entry_ok n" if "n \<in> snd ` set (AList.update h ?v blocks)" for n
    using subsetD [OF buffer_update_values that] v all unfolding insert_iff by (elim disjE) (simp only:, rule bspec)
  with assms show ?thesis unfolding buffer_ok_def observe_log_def by simp
qed

text \<open>Observing a log and flushing is flushing and then streaming the log.\<close>

lemma observed_values:
  assumes "entry_ok m"
  shows "stream_into h (map snd (bm_insert (pl_log_index log) log m)) g = stream_into h (map snd m @ [log]) g"
proof (rule stream_keyed)
  from entry_ok_insert [OF assms, of log]
  have "key_by_log_index (map snd (bm_insert (pl_log_index log) log m)) = bm_insert (pl_log_index log) log m"
    by (intro keyed_values) (simp_all add: entry_ok_def)
  also have "\<dots> = bm_extend (key_by_log_index (map snd m)) (key_by_log_index [log])"
    using assms keyed_values [of m] by (simp add: entry_ok_def key_by_log_index_def [of "[log]"] bm_collect_def bm_extend_def)
  finally show "key_by_log_index (map snd (bm_insert (pl_log_index log) log m)) = key_by_log_index (map snd m @ [log])"
    by (simp add: keyed_append)
qed

lemma update_split:
  "map_of blocks h = Some m \<Longrightarrow> hm_wf blocks \<Longrightarrow>
     \<exists>before after. blocks = before @ (h, m) # after \<and> h \<notin> fst ` set before \<and> h \<notin> fst ` set after \<and>
       (\<forall>v. AList.update h v blocks = before @ (h, v) # after)"
proof (induction blocks)
  case (Cons e blocks)
  obtain k n where e: "e = (k, n)" by (cases e)
  show ?case
  proof (cases "k = h")
    case True
    with Cons.prems show ?thesis by (intro exI [of _ "[]"] exI [of _ blocks]) (auto simp: e hm_wf_def)
  next
    case False
    with Cons e obtain before after where "blocks = before @ (h, m) # after" "h \<notin> fst ` set before" "h \<notin> fst ` set after"
      "\<forall>v. AList.update h v blocks = before @ (h, v) # after" by (auto simp: hm_wf_def)
    with False show ?thesis by (intro exI [of _ "e # before"] exI [of _ after]) (simp add: e)
  qed
qed simp

lemma observed_batch:
  assumes "buffer_ok blocks" "graph_logs_sorted g"
  shows "take_batches (snd (log_batch_flush (observe_log h log blocks))) g =
    stream_into h [log] (take_batches (snd (log_batch_flush blocks)) g)"
proof (cases "map_of blocks h")
  case None
  then show ?thesis by (simp add: observe_log_def log_batch_flush_def update_new)
next
  case (Some m)
  let ?batches = "map (\<lambda>(h, logs). (h, map snd logs))"
  have "hm_wf blocks" using assms(1) by (simp add: buffer_ok_def)
  from update_split [OF Some this] obtain before after where blocks: "blocks = before @ (h, m) # after"
    and absent: "h \<notin> fst ` set after" and update: "\<And>v. AList.update h v blocks = before @ (h, v) # after" by blast
  have commute: "take_batches (?batches after) (stream_into h logs g') = stream_into h logs (take_batches (?batches after) g')" for logs g'
    using absent by (intro take_batches_commute) (force simp: image_iff)
  have "entry_ok m" using assms(1) blocks by (auto simp: buffer_ok_def entry_ok_def)
  with Some assms(2) show ?thesis
    by (simp add: observe_log_def log_batch_flush_def update observed_values commute stream_append)
       (simp add: blocks commute stream_append assms(2))
qed

lemma consolidated_from:
  assumes "buffer_ok buffer" "graph_logs_sorted g"
  shows "take_batches (consolidate_from buffer raw) g =
    take_batches (single_batches raw) (take_batches (snd (log_batch_flush buffer)) g)"
  using assms
proof (induction buffer raw arbitrary: g rule: consolidate_from.induct)
  case (1 buffer)
  then show ?case by (simp add: flush_batches_def log_batch_is_empty_def log_batch_flush_def)
next
  case (2 buffer h log raw)
  then show ?case by (simp add: observed_ok observed_batch)
next
  case (3 buffer raw)
  have "flush_batches buffer = ([], snd (log_batch_flush buffer))"
    by (simp add: flush_batches_def log_batch_is_empty_def log_batch_flush_def)
  with 3 show ?case by (simp add: buffer_ok_def hm_wf_def log_batch_flush_def)
qed

text \<open>
  C32. Consolidation loses nothing and changes nothing. Whatever logs the providers of a chain deliver,
  doubled, reordered between blocks and split over windows in any way, a graph that takes the batches of the
  consolidator ends exactly as if it had taken each delivered log on its own, in the order of delivery.
\<close>

theorem consolidation_transparent:
  assumes "graph_logs_sorted g"
  shows "fold (\<lambda>(h, logs) g. with_streamed_logs g h logs) (consolidate_pool_logs raw) g =
    fold (\<lambda>(h, logs) g. with_streamed_logs g h logs) (single_batches raw) g"
  using consolidated_from [of log_batch_new g raw] assms
  by (simp add: consolidate_pool_logs_def take_batches_def log_batch_new_def log_batch_flush_def buffer_ok_def hm_wf_def)

definition sample_log :: "u64 \<Rightarrow> pool_log" where
  "sample_log i = \<lparr>pl_pool = UniswapV3 1, pl_log_index = i, pl_event = Initialize 7 0\<rparr>"

definition sample_graph :: blocks_graph where
  "sample_graph = fst (with_data_capped (graph_new 1 10) 2 1 \<lparr>bd_number = 11, bd_logs_bloom = None, bd_logs = Unknown\<rparr> 5)"

theorem consolidation_transparent_witness:
  "consolidate_pool_logs [Delivered 2 (sample_log 5), Delivered 2 (sample_log 3), Delivered 2 (sample_log 5), WindowElapsed] =
     [(2, [sample_log 3, sample_log 5])] \<and>
   with_streamed_logs sample_graph 2 [sample_log 3, sample_log 5] =
     with_streamed_logs (with_streamed_logs (with_streamed_logs sample_graph 2 [sample_log 5]) 2 [sample_log 3]) 2 [sample_log 5]"
proof -
  let ?raw = "[Delivered 2 (sample_log 5), Delivered 2 (sample_log 3), Delivered 2 (sample_log 5), WindowElapsed]"
  have batches: "consolidate_pool_logs ?raw = [(2, [sample_log 3, sample_log 5])]" by code_simp
  have "graph_logs_sorted sample_graph" by code_simp
  from consolidation_transparent [OF this, of ?raw] batches show ?thesis by (simp add: batches)
qed

end
