(* ===== verification/RestartLaws.thy ===== *)
theory RestartLaws
  imports LedgerEntries
begin

text \<open>
  What a re-initialisation does to the request ids. Within one life of the kernel, from a fresh ledger
  to the next orphaned anchor, its requests are numbered 1, 2, 3, ... in the order of their effects; a
  re-initialisation numbers from 1 again, so that an answer to a request of an earlier life is taken for
  the request of the present life under the same id.
\<close>

section \<open>Numbering\<close>

fun raw_id :: "any_request_id \<Rightarrow> request_id" where
  "raw_id (BlockHeaderId i) = i"
| "raw_id (BlockLogsId i) = i"
| "raw_id (PoolMetadataId i) = i"
| "raw_id (TokenMetadataId i) = i"
| "raw_id (PoolDataId i) = i"
| "raw_id (LogsRangeId i) = i"
| "raw_id (CanonicalHeaderId i) = i"

definition effect_id :: "effect \<Rightarrow> request_id" where
  "effect_id e = raw_id (request_key (effect_request e))"

text \<open>The ids a ledger issues next, and the effects that carry them.\<close>

definition numbered :: "request_id \<Rightarrow> effect list \<Rightarrow> request_id \<Rightarrow> bool" where
  "numbered n es n' \<longleftrightarrow> map effect_id es = map (\<lambda>k. n + word_of_nat (Suc k)) [0..<length es] \<and> n' = n + word_of_nat (length es)"

lemma numbered_Nil [simp]: "numbered n [] n' \<longleftrightarrow> n' = n"
  by (simp add: numbered_def)

lemma numbered_append: "numbered n es m \<Longrightarrow> numbered m fs n' \<Longrightarrow> numbered n (es @ fs) n'"
proof -
  assume es: "numbered n es m" and fs: "numbered m fs n'"
  have "map (\<lambda>k. n + word_of_nat (Suc k)) [length es..<length es + length fs] =
      map (\<lambda>k. m + word_of_nat (Suc k)) [0..<length fs]"
    using es by (intro nth_equalityI) (auto simp: numbered_def add.assoc add.left_commute)
  moreover have "[0..<length (es @ fs)] = [0..<length es] @ [length es..<length es + length fs]"
    using upt_add_eq_append [of 0 "length es" "length fs"] by simp
  ultimately show "numbered n (es @ fs) n'"
    using es fs by (simp only: numbered_def map_append length_append) (simp add: add.assoc)
qed

lemma numbered_one: "effect_id e = n + 1 \<Longrightarrow> numbered n [e] (n + 1)"
  by (simp add: numbered_def)

context entry_store
begin

lemma issue_effect_key:
  "snd (issue_effect A wrap t p x) = snd x @ [Request (wrap \<lparr>ir_request_id = sa_ids A (fst x) + 1, ir_request_payload = p\<rparr>)] \<and>
   sa_ids A (fst (issue_effect A wrap t p x)) = sa_ids A (fst x) + 1"
  by (simp add: issue_effect_def split_beta Let_def issue_id issue_ids)

lemma retry_typed_numbered:
  assumes "\<And>r. effect_id (Request (wrap r)) = ir_request_id r" and ids: "sa_ids A = rq_ids"
  shows "numbered (rq_ids s) (case snd (retry_typed A wrap s i t) of None \<Rightarrow> [] | Some r \<Rightarrow> [Request r])
    (rq_ids (fst (retry_typed A wrap s i t)))"
proof (cases "map_of (sa_coll A s) i")
  case (Some q)
  from retry_Some(1,3) [OF Some, of t] have "snd (retry_request A s i t) = Some \<lparr>ir_request_id = rq_ids s + 1, ir_request_payload = pp_payload q\<rparr>"
    "rq_ids (fst (retry_request A s i t)) = rq_ids s + 1" unfolding ids by simp_all
  then show ?thesis by (simp add: retry_typed_def split_beta Let_def assms(1) numbered_one)
qed (simp add: retry_typed_def retry_None)

end

lemmas issue_effect_keys = block_header_entries.issue_effect_key block_log_entries.issue_effect_key
  pool_metadata_entries.issue_effect_key token_metadata_entries.issue_effect_key
  pool_data_entries.issue_effect_key logs_range_entries.issue_effect_key canonical_header_entries.issue_effect_key

lemma access_ids:
  "sa_ids block_headers_access = rq_ids" "sa_ids block_logs_access = rq_ids" "sa_ids pool_metadata_access = rq_ids"
  "sa_ids token_metadata_access = rq_ids" "sa_ids pool_data_access = rq_ids" "sa_ids logs_range_access = rq_ids"
  "sa_ids canonical_header_access = rq_ids"
  by (simp_all add: access_defs)

lemma issue_step_numbered:
  "issue_step x y \<Longrightarrow> \<exists>e. snd y = snd x @ [e] \<and> effect_id e = rq_ids (fst x) + 1 \<and> rq_ids (fst y) = rq_ids (fst x) + 1"
  by (induction rule: issue_step.induct; simp only: issue_effect_keys [unfolded access_ids]) (simp_all add: effect_id_def)

lemma issues_numbered: "issues x y \<Longrightarrow> \<exists>new. snd y = snd x @ new \<and> numbered (rq_ids (fst x)) new (rq_ids (fst y))"
proof (induction rule: issues.induct)
  case (issues_step x y z)
  obtain new where new: "snd y = snd x @ new" "numbered (rq_ids (fst x)) new (rq_ids (fst y))"
    using issues_step.IH by blast
  obtain e where e: "snd z = snd y @ [e]" "effect_id e = rq_ids (fst y) + 1" "rq_ids (fst z) = rq_ids (fst y) + 1"
    using issue_step_numbered [OF issues_step.hyps(2)] by blast
  from numbered_append [OF new(2) numbered_one [OF e(2)]] new(1) e show ?case
    by (intro exI [of _ "new @ [e]"]) simp
qed simp

lemma retry_numbered:
  "numbered (rq_ids s) (case snd (retry s i t) of None \<Rightarrow> [] | Some r \<Rightarrow> [Request r]) (rq_ids (fst (retry s i t)))"
  by (cases i; simp only: retry.simps)
    (rule block_header_entries.retry_typed_numbered block_log_entries.retry_typed_numbered pool_metadata_entries.retry_typed_numbered
      token_metadata_entries.retry_typed_numbered pool_data_entries.retry_typed_numbered logs_range_entries.retry_typed_numbered
      canonical_header_entries.retry_typed_numbered; simp add: access_ids effect_id_def)+

lemma retry_loop_numbered:
  "\<exists>new. snd (retry_loop is t (s, es)) = es @ new \<and>
     numbered (rq_ids s) (map Request new) (rq_ids (fst (retry_loop is t (s, es))))"
proof (induction "is" arbitrary: s es)
  case (Cons i js)
  let ?s = "fst (retry s i t)" and ?new = "case snd (retry s i t) of None \<Rightarrow> [] | Some r \<Rightarrow> [r]"
  have step: "retry_loop (i # js) t (s, es) = retry_loop js t (?s, es @ ?new)"
    by (simp add: retry_loop_def split_beta Let_def)
  obtain new where new: "snd (retry_loop js t (?s, es @ ?new)) = (es @ ?new) @ new"
    "numbered (rq_ids ?s) (map Request new) (rq_ids (fst (retry_loop js t (?s, es @ ?new))))"
    using Cons.IH by blast
  have "numbered (rq_ids s) (map Request ?new) (rq_ids ?s)"
    using retry_numbered [of s i t] by (simp split: option.splits)
  from numbered_append [OF this new(2)] new(1) show ?case unfolding step
    by (intro exI [of _ "?new @ new"]) simp
qed (simp add: retry_loop_def)

section \<open>One life\<close>

text \<open>The event that orphans the anchor; every other event keeps the ledger's numbering.\<close>

fun starts_over :: "kernel_state \<Rightarrow> event \<Rightarrow> bool" where
  "starts_over s (CanonicalHeaderAtHeightReceived i h n) \<longleftrightarrow> n = anchor_number (ks_graph s) \<and> h \<noteq> anchor_hash (ks_graph s)"
| "starts_over s _ \<longleftrightarrow> False"

abbreviation next_ids :: "kernel_state \<Rightarrow> request_id" where
  "next_ids s \<equiv> rq_ids (ks_pending_requests s)"

lemma only_issues_numbered: "only_issues f \<Longrightarrow> numbered (next_ids s) (snd (f (s, []))) (next_ids (fst (f (s, []))))"
proof -
  assume "only_issues f"
  from only_issuesD [OF this, of s "[]"] obtain r es where
    r: "f (s, []) = (s\<lparr>ks_pending_requests := r\<rparr>, es)" "issues (ks_pending_requests s, []) (r, es)" by blast
  from issues_numbered [OF r(2)] r(1) show ?thesis by simp
qed

lemma schedule_numbered:
  "only_issues f \<Longrightarrow> next_ids s = n \<Longrightarrow> numbered n (snd (f (s, []))) (next_ids (fst (f (s, []))))"
  using only_issues_numbered by blast

lemma answer_numbered:
  assumes "rq_ids (fst (take_request A (ks_pending_requests s) i)) = next_ids s"
    and "\<And>p s. ks_pending_requests (respond p s) = ks_pending_requests s"
  shows "numbered (next_ids s) (snd (answer B chain A s i respond)) (next_ids (fst (answer B chain A s i respond)))"
  using assms schedule_numbered [OF only_issues_schedule]
  by (cases "snd (take_request A (ks_pending_requests s) i)") (simp_all add: answer_def split_beta Let_def)

text \<open>What a header's answer and an observed head do to the ledger, whichever branch they take.\<close>

lemma request_missing_numbered:
  "numbered (rq_ids r) (snd (request_missing_header r t m)) (rq_ids (fst (request_missing_header r t m)))"
  using issues_numbered [OF request_missing_header_issues [of r t m]] by simp

lemma header_numbered:
  "numbered (next_ids s) (snd (header_received B chain s i h p b n)) (next_ids (fst (header_received B chain s i h p b n)))"
proof -
  let ?s = "with_log_header_received s h p n b (max_pending_blocks chain)
    \<lparr>ks_pending_requests := fst (take_request block_headers_access (ks_pending_requests s) i)\<rparr>"
  let ?rest = "\<lambda>x. with_finality_probe_if_orphan_suspected h n (schedule_unknown_canonical_requests B chain x)"
  have rest: "only_issues ?rest" by (rule only_issues_comp [OF only_issues_schedule only_issues_probe])
  have same: "next_ids ?s = next_ids s" by (simp add: take_ids_fields(1))
  have "header_received B chain s i h p b n = ?rest
      (case snd (take_request block_headers_access (ks_pending_requests s) i) of
         Some q \<Rightarrow> if gbh_block_hash (pp_payload q) \<noteq> h
                   then issue block_headers_access BlockHeader (pp_payload q) (?s, []) else (?s, [])
       | None \<Rightarrow> (?s, []))"
    by (simp add: header_received_def split_beta Let_def cong: option.case_cong if_cong)
  then consider (plain) "header_received B chain s i h p b n = ?rest (?s, [])"
    | (again) payload where "header_received B chain s i h p b n = ?rest (issue block_headers_access BlockHeader payload (?s, []))"
    by (cases "snd (take_request block_headers_access (ks_pending_requests s) i)") (simp_all split: if_splits)
  then show ?thesis
  proof cases
    case plain
    show ?thesis unfolding plain by (rule schedule_numbered [OF rest same])
  next
    case again
    show ?thesis unfolding again by (rule schedule_numbered [OF only_issues_comp [OF issue_onlys(1) rest] same])
  qed
qed

lemma head_numbered:
  "numbered (next_ids s) (snd (outcome_result (head_observed B chain s h p b n)))
     (next_ids (fst (outcome_result (head_observed B chain s h p b n))))"
proof -
  obtain s' adm where res: "with_log_head_observed s h p n b (max_pending_blocks chain) = (s', adm)" by fastforce
  have pr: "ks_pending_requests s' = ks_pending_requests s"
    using feed_requests(3) [of s h p n b "max_pending_blocks chain"] by (simp add: res)
  let ?rest = "\<lambda>x. with_finality_probe_if_orphan_suspected h n (schedule_unknown_canonical_requests B chain x)"
  have rest: "only_issues ?rest" by (rule only_issues_comp [OF only_issues_schedule only_issues_probe])
  have "numbered (next_ids s) (snd (?rest (s', []))) (next_ids (fst (?rest (s', []))))"
    by (rule schedule_numbered [OF rest]) (simp add: pr)
  moreover note request_missing_numbered [of "ks_pending_requests s" "ks_tick s'" h]
  ultimately show ?thesis
    by (simp add: head_observed_def res pr split_beta Let_def)
qed

text \<open>Unless the kernel starts over, a transition numbers its requests on from where the ledger stands.\<close>

lemma transition_numbered:
  "\<not> starts_over s e \<Longrightarrow> numbered (next_ids s) (snd (transition B chain s e)) (next_ids (fst (transition B chain s e)))"
proof (cases e)
  case (HeadObserved h p b n)
  then show ?thesis using head_numbered [of s B chain h p b n] by (simp add: transition_def)
next
  case (FinalizedBlockObserved h n)
  have "next_ids (with_finalized_block_observed B s chain h) = next_ids s"
    by (simp add: with_finalized_block_observed_def split_beta Let_def)
  from schedule_numbered [OF only_issues_ranges this] FinalizedBlockObserved show ?thesis by (simp add: transition_def)
next
  case (BlockHeaderReceived i h p b n)
  then show ?thesis using header_numbered [of s B chain i h p b n] by (simp add: transition_def)
next
  case (BlockHeaderNotFound i)
  then show ?thesis by (simp add: transition_def split_beta Let_def take_ids_fields)
next
  case (CanonicalHeaderAtHeightReceived i h n)
  assume "\<not> starts_over s e"
  with CanonicalHeaderAtHeightReceived show ?thesis
    by (auto simp: transition_def canonical_header_received_def split_beta Let_def take_ids_fields)
next
  case (BlockLogsReceived i logs)
  then show ?thesis
    using answer_numbered [of block_logs_access s i "\<lambda>p s. with_log_complete s (gbl_block_hash p) logs" B chain]
    by (simp add: transition_def take_ids_fields)
next
  case (BlockLogsRangeReceived i received)
  then show ?thesis
    using answer_numbered [of logs_range_access s i "\<lambda>p. apply_range received (glr_covered p)" B chain]
    by (simp add: transition_def take_ids_fields)
next
  case (LogObserved h logs)
  have "next_ids (with_log_streamed s h logs) = next_ids s" by simp
  from schedule_numbered [OF only_issues_schedule this, of B chain] LogObserved show ?thesis
    by (simp add: transition_def)
next
  case (PoolMetadataReceived i metadata)
  then show ?thesis
    using answer_numbered [of pool_metadata_access s i "accept_pool_metadata chain metadata" B chain]
    by (simp add: transition_def take_ids_fields)
next
  case (TokenMetadataReceived i metadata)
  then show ?thesis
    using answer_numbered [of token_metadata_access s i "accept_token_metadata metadata" B chain]
    by (simp add: transition_def take_ids_fields)
next
  case (PoolDataReceived i pools)
  then show ?thesis
    using answer_numbered [of pool_data_access s i "\<lambda>p s. with_finalized_pool_seeds s (gpd_at p) pools" B chain]
    by (simp add: transition_def take_ids_fields)
next
  case (RequestFailed i)
  then show ?thesis using retry_numbered [of "ks_pending_requests s" i "ks_tick s"]
    by (simp add: transition_def split_beta Let_def)
next
  case TickEvent
  obtain new where "snd (retry_loop (expired_ids (ks_pending_requests s) (tick_next (ks_tick s))) (tick_next (ks_tick s)) (ks_pending_requests s, [])) = new"
    "numbered (next_ids s) (map Request new)
      (rq_ids (fst (retry_loop (expired_ids (ks_pending_requests s) (tick_next (ks_tick s))) (tick_next (ks_tick s)) (ks_pending_requests s, []))))"
    using retry_loop_numbered [of _ "tick_next (ks_tick s)" "ks_pending_requests s" "[]"] by simp
  with TickEvent show ?thesis by (simp add: transition_def retry_expired_loop split_beta Let_def)
qed

fun one_life :: "bloom_ops \<Rightarrow> chain_key \<Rightarrow> kernel_state \<Rightarrow> event list \<Rightarrow> bool" where
  "one_life B chain s [] \<longleftrightarrow> True"
| "one_life B chain s (e # es) \<longleftrightarrow> \<not> starts_over s e \<and> one_life B chain (fst (transition B chain s e)) es"

lemma life_numbered:
  "one_life B chain s es \<Longrightarrow> numbered (next_ids s) (snd (run_events B chain s es)) (next_ids (fst (run_events B chain s es)))"
proof (induction es arbitrary: s)
  case (Cons e es)
  then show ?case
    using numbered_append [OF transition_numbered [of s e B chain]] by (simp add: split_beta Let_def)
qed simp

lemma run_entries:
  "ledger_entries (ks_pending_requests (fst (run_events B chain s es))) \<subseteq>
     ledger_entries (ks_pending_requests s) \<union> entry_of ` set (snd (run_events B chain s es))"
proof (induction es arbitrary: s)
  case (Cons e es)
  have "ledger_entries (ks_pending_requests (fst (transition B chain s e))) \<subseteq>
      ledger_entries (ks_pending_requests s) \<union> entry_of ` set (snd (transition B chain s e))"
    using transition_entries [of B chain s e] by (auto simp: unanswered_def)
  with Cons.IH [of "fst (transition B chain s e)"] show ?case
    by (fastforce simp: split_beta Let_def)
qed simp

lemma starts_over_fresh:
  "starts_over s e \<Longrightarrow> ks_pending_requests (fst (transition B chain s e)) = pending_requests_new"
  by (cases e) (simp_all add: orphaned_anchor_starts_over init_def)

lemma log_complete_connected:
  assumes "connected (ks_graph s) h \<noteq> None"
  shows "map_option (bd_logs \<circ> snd) (connected (ks_graph (with_log_complete s h logs)) h) = Some (Complete (key_by_log_index logs))"
  using assms
  by (auto simp: with_log_complete_def with_complete_logs_def update_block_data_def map_graph_def connected_def connected_in_def
      map_of_map_entry split_beta Let_def split: option.splits node.splits)

section \<open>An answer that outlives a restart\<close>

lemma entry_effect:
  assumes "(BlockLogsId i, BlockLogsP p) \<in> entry_of ` set effects"
  shows "Request (BlockLogs \<lparr>ir_request_id = i, ir_request_payload = p\<rparr>) \<in> set effects"
proof -
  obtain r where r: "Request r \<in> set effects" "request_entry r = (BlockLogsId i, BlockLogsP p)"
    using assms by (auto simp: entry_of_def) (metis effect.exhaust effect_request.simps)
  then obtain q where "r = BlockLogs q" "ir_request_id q = i" "ir_request_payload q = p"
    by (cases r) (auto simp: request_entry_def)
  then have "r = BlockLogs \<lparr>ir_request_id = i, ir_request_payload = p\<rparr>" by simp
  with r(1) show ?thesis by simp
qed

lemma answered_logs:
  assumes "map_of (rq_block_logs (ks_pending_requests s)) i = Some q"
    and "connected (ks_graph s) (gbl_block_hash (pp_payload q)) \<noteq> None"
  shows "map_option (bd_logs \<circ> snd) (connected (ks_graph (fst (transition B chain s (BlockLogsReceived i logs)))) (gbl_block_hash (pp_payload q))) =
    Some (Complete (key_by_log_index logs))"
proof -
  let ?s = "s\<lparr>ks_pending_requests := fst (take_request block_logs_access (ks_pending_requests s) i)\<rparr>"
  have take: "take_request block_logs_access (ks_pending_requests s) i =
      (fst (take_request block_logs_access (ks_pending_requests s) i), Some q)"
    using assms(1) block_logs.take_result [of "ks_pending_requests s" i] by (metis access_colls(2) prod.collapse)
  from answer_known [OF take, of "\<lambda>p s. with_log_complete s (gbl_block_hash p) logs" B chain]
  have "ks_blocks (fst (transition B chain s (BlockLogsReceived i logs))) =
      ks_blocks (with_log_complete ?s (gbl_block_hash (pp_payload q)) logs)"
    by (simp add: transition_def)
  then show ?thesis using log_complete_connected [of ?s "gbl_block_hash (pp_payload q)" logs] assms(2) by simp
qed

text \<open>
  C38. A re-initialisation forgets the requests but reuses their ids. Both before and after an orphaned
  anchor the kernel numbers its requests 1, 2, 3, ..., so the answer that a request of the first life is
  still owed bears the id of a request of the second; and whenever that is a request for the logs of a
  connected block, whatever logs the late answer carries are recorded as the complete logs of that
  block, although the request was another one.
\<close>

theorem late_answers_complete_other_blocks:
  assumes fresh: "ks_pending_requests s0 = pending_requests_new"
    and first: "one_life B chain s0 es1" "run_events B chain s0 es1 = (s1, effects1)"
    and restart: "starts_over s1 e"
    and second: "one_life B chain (fst (transition B chain s1 e)) es2" "run_events B chain (fst (transition B chain s1 e)) es2 = (s2, effects2)"
    and late: "Request (BlockLogs old) \<in> set effects1"
    and waiting: "map_of (rq_block_logs (ks_pending_requests s2)) (ir_request_id old) = Some new"
    and block: "connected (ks_graph s2) (gbl_block_hash (pp_payload new)) \<noteq> None"
  shows "map effect_id effects1 = map (\<lambda>k. word_of_nat (Suc k)) [0..<length effects1] \<and>
    map effect_id effects2 = map (\<lambda>k. word_of_nat (Suc k)) [0..<length effects2] \<and>
    Request (BlockLogs \<lparr>ir_request_id = ir_request_id old, ir_request_payload = pp_payload new\<rparr>) \<in> set effects2 \<and>
    map_option (bd_logs \<circ> snd)
      (connected (ks_graph (fst (transition B chain s2 (BlockLogsReceived (ir_request_id old) logs)))) (gbl_block_hash (pp_payload new))) =
      Some (Complete (key_by_log_index logs))"
proof (intro conjI)
  note zero = pending_requests_new_def ids_new_def
  show "map effect_id effects1 = map (\<lambda>k. word_of_nat (Suc k)) [0..<length effects1]"
    using life_numbered [OF first(1)] first(2) fresh by (simp add: numbered_def zero)
  show "map effect_id effects2 = map (\<lambda>k. word_of_nat (Suc k)) [0..<length effects2]"
    using life_numbered [OF second(1)] second(2) starts_over_fresh [OF restart, of B chain] by (simp add: numbered_def zero)
  have "(BlockLogsId (ir_request_id old), BlockLogsP (pp_payload new)) \<in> ledger_entries (ks_pending_requests s2)"
    using map_of_SomeD [OF waiting] by (force simp: ledger_entries_def coll_entries_def)
  moreover have "ledger_entries (ks_pending_requests (fst (transition B chain s1 e))) = {}"
    by (simp add: starts_over_fresh [OF restart] ledger_entries_def coll_entries_def pending_requests_new_def)
  ultimately have "(BlockLogsId (ir_request_id old), BlockLogsP (pp_payload new)) \<in> entry_of ` set effects2"
    using run_entries [of B chain "fst (transition B chain s1 e)" es2] second(2) by auto
  then show "Request (BlockLogs \<lparr>ir_request_id = ir_request_id old, ir_request_payload = pp_payload new\<rparr>) \<in> set effects2"
    by (rule entry_effect)
  show "map_option (bd_logs \<circ> snd)
      (connected (ks_graph (fst (transition B chain s2 (BlockLogsReceived (ir_request_id old) logs)))) (gbl_block_hash (pp_payload new))) =
      Some (Complete (key_by_log_index logs))"
    by (rule answered_logs [OF waiting block])
qed

text \<open>
  Blocks 2, 3, 4 arrive over the anchor 1, and the logs of 2 are asked for; a head on another fork
  makes the kernel probe the anchor's height. The answer orphans the anchor; then the blocks 102,
  103, 104 arrive over the new anchor 99, and the logs of 102 are asked for.
\<close>

definition first_events :: "event list" where
  "first_events = [HeadObserved 2 1 1 11, HeadObserved 3 2 0 12, HeadObserved 4 3 0 13, HeadObserved 50 49 0 11]"

definition first_life :: "kernel_state \<times> effect list" where
  "first_life = run_events flag_bloom Ethereum (init 1 10) first_events"

definition second_events :: "event list" where
  "second_events = [HeadObserved 102 99 1 11, HeadObserved 103 102 0 12, HeadObserved 104 103 0 13]"

definition second_start :: kernel_state where
  "second_start = fst (transition flag_bloom Ethereum (fst first_life) (CanonicalHeaderAtHeightReceived 3 99 10))"

definition second_life :: "kernel_state \<times> effect list" where
  "second_life = run_events flag_bloom Ethereum second_start second_events"

lemma first_life_runs: "one_life flag_bloom Ethereum (init 1 10) first_events"
  by code_simp

lemma first_life_ends: "starts_over (fst first_life) (CanonicalHeaderAtHeightReceived 3 99 10)"
  by code_simp

lemma second_life_runs: "one_life flag_bloom Ethereum second_start second_events"
  by code_simp

lemma first_logs_request: "hd (snd first_life) = Request (BlockLogs \<lparr>ir_request_id = 1, ir_request_payload = GetBlockLogs 2\<rparr>)"
  by code_simp

lemma first_life_asks: "length (snd first_life) = 3"
  by code_simp

lemma second_life_waits:
  "map_of (rq_block_logs (ks_pending_requests (fst second_life))) 1 = Some \<lparr>pp_payload = GetBlockLogs 102, pp_dispatched_at = 0\<rparr>"
  by code_simp

lemma second_life_block: "connected_hash (ks_graph (fst second_life)) 102 = Some 102"
  by code_simp

theorem late_answers_complete_other_blocks_witness:
  "Request (BlockLogs \<lparr>ir_request_id = 1, ir_request_payload = GetBlockLogs 2\<rparr>) \<in> set (snd first_life) \<and>
   Request (BlockLogs \<lparr>ir_request_id = 1, ir_request_payload = GetBlockLogs 102\<rparr>) \<in> set (snd second_life) \<and>
   map_option (bd_logs \<circ> snd)
     (connected (ks_graph (fst (transition flag_bloom Ethereum (fst second_life) (BlockLogsReceived 1 [demo_swap])))) 102) =
     Some (Complete [(0, demo_swap)])"
proof -
  have fresh: "ks_pending_requests (init 1 10) = pending_requests_new" by (simp add: init_def)
  have runs: "run_events flag_bloom Ethereum (init 1 10) first_events = (fst first_life, snd first_life)"
    "run_events flag_bloom Ethereum second_start second_events = (fst second_life, snd second_life)"
    by (simp_all add: first_life_def second_life_def)
  have asked: "Request (BlockLogs \<lparr>ir_request_id = 1, ir_request_payload = GetBlockLogs 2\<rparr>) \<in> set (snd first_life)"
    using first_logs_request first_life_asks by (metis hd_in_set list.size(3) zero_neq_numeral)
  have block: "connected (ks_graph (fst second_life)) 102 \<noteq> None"
    using second_life_block by (auto simp: connected_hash_def)
  have "key_by_log_index [demo_swap] = [(0, demo_swap)]" by code_simp
  with late_answers_complete_other_blocks [OF fresh first_life_runs runs(1) first_life_ends second_life_runs [unfolded second_start_def]
      runs(2) [unfolded second_start_def] asked, of "\<lparr>pp_payload = GetBlockLogs 102, pp_dispatched_at = 0\<rparr>" "[demo_swap]"]
    second_life_waits asked block
  show ?thesis by simp
qed

end
