(* ===== verification/RoutingLaws.thy ===== *)
theory RoutingLaws
  imports RoutingFilter "HOL-Library.Multiset"
begin

text \<open>
  What the routing filter computes: the largest set of tokens that each touch two edges inside the
  set, restricted to the component of the source. The locale \<open>multigraph\<close> holds the loops' correctness
  over an arbitrary symmetric neighbour function; it is interpreted on the graph the code builds.
\<close>

section \<open>Specification\<close>

definition inner_degree :: "('i \<Rightarrow> 'i list) \<Rightarrow> 'i set \<Rightarrow> 'i \<Rightarrow> nat" where
  "inner_degree nbrs S t = length (filter (\<lambda>u. u \<in> S) (nbrs t))"

definition two_core :: "('i \<Rightarrow> 'i list) \<Rightarrow> 'i set" where
  "two_core nbrs = \<Union>{S. \<forall>t\<in>S. 2 \<le> inner_degree nbrs S t}"

definition component :: "('i \<Rightarrow> 'i list) \<Rightarrow> 'i set \<Rightarrow> 'i \<Rightarrow> 'i set" where
  "component nbrs S s = {t. (s, t) \<in> {(a, b). b \<in> set (nbrs a) \<and> b \<in> S}\<^sup>*}"

lemma inner_degree_mono: "S \<subseteq> T \<Longrightarrow> inner_degree nbrs S t \<le> inner_degree nbrs T t"
  unfolding inner_degree_def by (induction "nbrs t") (auto simp: length_filter_conv_card intro: card_mono)

lemma two_core_degree: "t \<in> two_core nbrs \<Longrightarrow> 2 \<le> inner_degree nbrs (two_core nbrs) t"
proof -
  assume "t \<in> two_core nbrs"
  then obtain S where S: "\<forall>t\<in>S. 2 \<le> inner_degree nbrs S t" "t \<in> S" unfolding two_core_def by blast
  then have "S \<subseteq> two_core nbrs" unfolding two_core_def by blast
  then show ?thesis using S inner_degree_mono [of S "two_core nbrs" nbrs t] by fastforce
qed

lemma two_core_greatest: "(\<And>t. t \<in> S \<Longrightarrow> 2 \<le> inner_degree nbrs S t) \<Longrightarrow> S \<subseteq> two_core nbrs"
  unfolding two_core_def by blast

lemma component_self: "s \<in> component nbrs S s"
  by (simp add: component_def)

lemma component_step: "t \<in> component nbrs S s \<Longrightarrow> u \<in> set (nbrs t) \<Longrightarrow> u \<in> S \<Longrightarrow> u \<in> component nbrs S s"
  unfolding component_def by (auto intro: rtrancl_into_rtrancl)

lemma component_least:
  assumes "s \<in> K" "\<And>t u. t \<in> K \<Longrightarrow> u \<in> set (nbrs t) \<Longrightarrow> u \<in> S \<Longrightarrow> u \<in> K"
  shows "component nbrs S s \<subseteq> K"
proof
  fix t assume "t \<in> component nbrs S s"
  then have "(s, t) \<in> {(a, b). b \<in> set (nbrs a) \<and> b \<in> S}\<^sup>*" by (simp add: component_def)
  then show "t \<in> K" by induction (use assms in auto)
qed

lemma component_within: "s \<in> S \<Longrightarrow> component nbrs S s \<subseteq> S"
  by (rule component_least)

section \<open>The loops over a symmetric graph\<close>

lemma strip_neighbors_degree:
  "map_of (fst (strip_neighbors ns removed degree stack)) u =
     (if u \<in> removed then map_of degree u else map_option (\<lambda>d. d - count_list ns u) (map_of degree u))"
proof (induction ns removed degree stack rule: strip_neighbors.induct)
  case (2 n ns removed degree stack)
  then show ?case
    by (cases "n \<in> removed"; cases "map_of degree n"; cases "u = n") (simp_all add: option.map_ident)
qed (simp add: option.map_ident)

lemma strip_neighbors_stack: "set stack \<subseteq> set (snd (strip_neighbors ns removed degree stack))"
proof (induction ns removed degree stack rule: strip_neighbors.induct)
  case (2 n ns removed degree stack)
  then show ?case by (cases "n \<in> removed"; cases "map_of degree n") (auto split: if_splits)
qed simp

lemma strip_neighbors_pushes:
  assumes "u \<notin> removed" "map_of (fst (strip_neighbors ns removed degree stack)) u = Some d" "d < 2"
    and "u \<in> set ns \<or> u \<in> set stack"
  shows "u \<in> set (snd (strip_neighbors ns removed degree stack))"
  using assms
proof (induction ns removed degree stack rule: strip_neighbors.induct)
  case (2 n ns removed degree stack)
  show ?case
  proof (cases "n \<in> removed \<or> map_of degree n = None")
    case True
    with 2 show ?thesis by (cases "u = n") (auto simp: strip_neighbors_degree split: if_splits)
  next
    case False
    then obtain d' where d': "map_of degree n = Some d'" "n \<notin> removed" by blast
    show ?thesis
    proof (cases "u = n \<and> u \<notin> set ns \<and> u \<notin> set stack")
      case True
      then have "u = n" "n \<notin> set ns" by blast+
      moreover from this(2) have "count_list ns n = 0" by simp
      ultimately have "d = d' - 1" using "2.prems"(2) d' by (simp add: strip_neighbors_degree)
      then show ?thesis using True 2 d' strip_neighbors_stack [of "n # stack" ns removed "AList.update n (d' - 1) degree"] by auto
    next
      case False
      with 2 d' show ?thesis by (auto split: if_splits)
    qed
  qed
qed simp

locale multigraph =
  fixes nbrs :: "'i \<Rightarrow> 'i list"
  assumes sym: "count_list (nbrs a) b = count_list (nbrs b) a"
    and irrefl: "a \<notin> set (nbrs a)"
begin

lemma nbrs_sym: "b \<in> set (nbrs a) \<longleftrightarrow> a \<in> set (nbrs b)"
  using sym [of a b] by (metis count_list_0_iff)

text \<open>The loop invariant of the stripping: nothing of the core is removed, the degree map counts the
  neighbours still there, and every token that is due is on the stack.\<close>

definition due :: "'i set \<Rightarrow> 'i \<Rightarrow> bool" where
  "due removed t \<longleftrightarrow> t \<notin> removed \<and> nbrs t \<noteq> [] \<and> inner_degree nbrs (- removed) t < 2"

definition strip_inv :: "'i set \<Rightarrow> ('i, nat) hmap \<Rightarrow> 'i list \<Rightarrow> bool" where
  "strip_inv removed degree stack \<longleftrightarrow> removed \<inter> two_core nbrs = {} \<and>
     (\<forall>t. t \<notin> removed \<longrightarrow> map_of degree t = (if nbrs t = [] then None else Some (inner_degree nbrs (- removed) t))) \<and>
     (\<forall>t. due removed t \<longrightarrow> t \<in> set stack)"

lemma not_in_core:
  assumes "removed \<inter> two_core nbrs = {}" "inner_degree nbrs (- removed) t < 2"
  shows "t \<notin> two_core nbrs"
  using two_core_degree [of t nbrs] inner_degree_mono [of "two_core nbrs" "- removed" nbrs t] assms by fastforce

lemma inner_degree_insert:
  assumes "t \<notin> removed"
  shows "inner_degree nbrs (- insert t removed) u = inner_degree nbrs (- removed) u - count_list (nbrs t) u"
proof -
  have "length (filter (\<lambda>v. v \<in> - removed) ns) = length (filter (\<lambda>v. v \<in> - insert t removed) ns) + count_list ns t" for ns
    using assms by (induction ns) auto
  from this [of "nbrs u"] show ?thesis by (simp add: inner_degree_def sym [of t u])
qed

lemma strip_inv_pop:
  assumes "strip_inv removed degree (t # stack)"
    and "t \<in> removed \<or> 2 \<le> (case map_of degree t of None \<Rightarrow> 0 | Some d \<Rightarrow> d)"
  shows "strip_inv removed degree stack"
  using assms unfolding strip_inv_def due_def by (fastforce split: if_splits)

lemma strip_inv_isolated:
  assumes "strip_inv removed degree (t # stack)" "t \<notin> removed" "nbrs t = []"
  shows "strip_inv (insert t removed) degree stack"
proof -
  have same: "inner_degree nbrs (- insert t removed) u = inner_degree nbrs (- removed) u" for u
    using assms(2,3) by (simp add: inner_degree_insert)
  have "t \<notin> two_core nbrs"
    using assms by (intro not_in_core [of removed]) (auto simp: strip_inv_def inner_degree_def)
  then show ?thesis using assms unfolding strip_inv_def due_def same by auto
qed

lemma strip_inv_remove:
  assumes inv: "strip_inv removed degree (t # stack)" and t: "t \<notin> removed" "nbrs t \<noteq> []"
    and few: "inner_degree nbrs (- removed) t < 2"
    and out: "strip_neighbors (nbrs t) (insert t removed) degree stack = (degree', stack')"
  shows "strip_inv (insert t removed) degree' stack'"
proof -
  have deg: "map_of degree' u = (if nbrs u = [] then None else Some (inner_degree nbrs (- insert t removed) u))"
    if "u \<notin> insert t removed" for u
    using strip_neighbors_degree [of "nbrs t" "insert t removed" degree stack u] inv that t(1)
    by (auto simp: out strip_inv_def inner_degree_insert)
  have "t \<notin> two_core nbrs" using inv few by (intro not_in_core [of removed]) (auto simp: strip_inv_def)
  moreover have "u \<in> set stack'" if u: "due (insert t removed) u" for u
  proof -
    from u have d: "map_of degree' u = Some (inner_degree nbrs (- insert t removed) u)" "u \<notin> insert t removed"
      "inner_degree nbrs (- insert t removed) u < 2" by (auto simp: due_def deg)
    have "u \<in> set (nbrs t) \<or> u \<in> set stack"
    proof (rule disjCI)
      assume "u \<notin> set stack"
      then have "\<not> due removed u" using inv u by (auto simp: strip_inv_def due_def)
      then have "count_list (nbrs t) u \<noteq> 0" using u t(1) by (auto simp: due_def inner_degree_insert)
      then show "u \<in> set (nbrs t)" by (meson count_notin)
    qed
    with strip_neighbors_pushes [of u "insert t removed" "nbrs t" degree stack] d show ?thesis by (simp add: out)
  qed
  ultimately show ?thesis using inv deg by (auto simp: strip_inv_def)
qed

lemma strip_core:
  assumes adj: "\<And>t. map_of adj t = (if nbrs t = [] then None else Some (nbrs t))"
  shows "strip_inv removed degree stack \<Longrightarrow>
    t \<in> two_core nbrs \<longleftrightarrow> nbrs t \<noteq> [] \<and> t \<notin> strip adj removed degree stack"
  using adj
proof (induction adj removed degree stack rule: strip.induct)
  case (1 adj removed degree)
  let ?S = "{t. nbrs t \<noteq> [] \<and> t \<notin> removed}"
  have "inner_degree nbrs ?S t = inner_degree nbrs (- removed) t" for t
  proof -
    have "nbrs u \<noteq> []" if "u \<in> set (nbrs t)" for u using that nbrs_sym [of u t] by auto
    then have "filter (\<lambda>u. u \<in> ?S) (nbrs t) = filter (\<lambda>u. u \<in> - removed) (nbrs t)" by (intro filter_cong) auto
    then show ?thesis by (simp add: inner_degree_def)
  qed
  then have "?S \<subseteq> two_core nbrs" using 1 by (intro two_core_greatest) (force simp: strip_inv_def due_def)
  moreover have "two_core nbrs \<subseteq> ?S"
    using 1 two_core_degree [of _ nbrs] by (force simp: strip_inv_def inner_degree_def)
  ultimately show ?case by auto
next
  case (2 adj removed degree token stack)
  let ?skip = "token \<in> removed \<or> 2 \<le> (case map_of degree token of None \<Rightarrow> 0 | Some d \<Rightarrow> d)"
  show ?case
  proof (cases ?skip)
    case True
    then show ?thesis using 2 strip_inv_pop by simp
  next
    case False
    then have few: "inner_degree nbrs (- removed) token < 2" "token \<notin> removed"
      using "2.prems"(1) by (auto simp: strip_inv_def inner_degree_def split: if_splits)
    show ?thesis
    proof (cases "nbrs token = []")
      case True
      then show ?thesis using False 2 few strip_inv_isolated by simp
    next
      case edges: False
      obtain degree' stack' where out: "strip_neighbors (nbrs token) (insert token removed) degree stack = (degree', stack')"
        by fastforce
      show ?thesis
        using "2.IH"(3) [OF False _ out [symmetric]] edges False "2.prems" strip_inv_remove [OF "2.prems"(1) few(2) edges few(1) out]
        by (simp add: out)
    qed
  qed
qed

text \<open>The second loop: the tokens kept are in the component, and closed but for the frontier.\<close>

definition reach_inv :: "'i \<Rightarrow> 'i set \<Rightarrow> 'i list \<Rightarrow> bool" where
  "reach_inv s keep frontier \<longleftrightarrow> s \<in> keep \<and> set frontier \<subseteq> keep \<and> keep \<subseteq> component nbrs (two_core nbrs) s \<and>
     (\<forall>t\<in>keep - set frontier. set (nbrs t) \<inter> two_core nbrs \<subseteq> keep)"

lemma reach_component:
  assumes adj: "\<And>t. map_of adj t = (if nbrs t = [] then None else Some (nbrs t))"
    and core: "\<And>t. t \<in> two_core nbrs \<longleftrightarrow> nbrs t \<noteq> [] \<and> t \<notin> removed"
  shows "reach_inv s keep frontier \<Longrightarrow> reach_tokens adj removed keep frontier = component nbrs (two_core nbrs) s"
  using assms
proof (induction adj removed keep frontier rule: reach_tokens.induct)
  case (1 adj removed keep)
  from "1.prems"(1) have "s \<in> keep" "\<forall>t\<in>keep. set (nbrs t) \<inter> two_core nbrs \<subseteq> keep"
    and sub: "keep \<subseteq> component nbrs (two_core nbrs) s" by (simp_all add: reach_inv_def)
  then have "component nbrs (two_core nbrs) s \<subseteq> keep" by (intro component_least) blast+
  with sub show ?case by simp
next
  case (2 adj removed keep token frontier)
  show ?case
  proof (cases "nbrs token = []")
    case True
    with 2 have "reach_inv s keep frontier" by (auto simp: reach_inv_def)
    with 2 True show ?thesis by simp
  next
    case False
    obtain keep' frontier' where out: "expand_frontier (nbrs token) removed keep frontier = (keep', frontier')" by fastforce
    have has_nbr: "nbrs u \<noteq> []" if "u \<in> set (nbrs token)" for u using that nbrs_sym [of u token] by auto
    have "token \<in> component nbrs (two_core nbrs) s" using "2.prems"(1) by (auto simp: reach_inv_def)
    then have "set (nbrs token) - removed \<subseteq> component nbrs (two_core nbrs) s"
      using has_nbr by (auto intro: component_step simp: "2.prems"(3))
    then have "reach_inv s keep' frontier'"
      using "2.prems"(1) expand_frontier_spec [OF out] unfolding reach_inv_def by (auto simp: "2.prems"(3))
    with 2 False out show ?thesis by simp
  qed
qed

end

section \<open>The graph the code builds\<close>

fun edge_neighbors :: "('i \<times> 'i) list \<Rightarrow> 'i \<Rightarrow> 'i list" where
  "edge_neighbors [] t = []"
| "edge_neighbors ((a, b) # edges) t = (if a = t then [b] else []) @ (if b = t then [a] else []) @ edge_neighbors edges t"

fun pool_edges :: "'f pool_reserves list \<Rightarrow> pool_ref set \<Rightarrow> (token_address \<times> token_address) list" where
  "pool_edges [] seen = []"
| "pool_edges (r # rs) seen =
     (if rs_token0 r = rs_token1 r \<or> rs_pool_id r \<in> seen then pool_edges rs seen
      else (rs_token0 r, rs_token1 r) # pool_edges rs (insert (rs_pool_id r) seen))"

fun bridge_edges :: "('i \<times> 'i) list \<Rightarrow> ('i \<times> 'i) set \<Rightarrow> ('i \<times> 'i) list" where
  "bridge_edges [] seen = []"
| "bridge_edges ((a, b) # bs) seen =
     (if a = b \<or> (b, a) \<in> seen \<or> (a, b) \<in> seen then bridge_edges bs seen
      else (a, b) # bridge_edges bs (insert (a, b) seen))"

definition route_edges :: "'f pool_reserves list \<Rightarrow> token_address \<Rightarrow> token_address \<Rightarrow>
    (token_address \<times> token_address) list \<Rightarrow> (token_address \<times> token_address) list" where
  "route_edges reserves source output bridges =
     pool_edges reserves {} @ bridge_edges bridges {} @ (if source \<noteq> output then [(source, output)] else [])"

definition route_neighbors :: "'f pool_reserves list \<Rightarrow> token_address \<Rightarrow> token_address \<Rightarrow>
    (token_address \<times> token_address) list \<Rightarrow> token_address \<Rightarrow> token_address list" where
  "route_neighbors reserves source output bridges = edge_neighbors (route_edges reserves source output bridges)"

lemma edge_neighbors_append: "edge_neighbors (xs @ ys) t = edge_neighbors xs t @ edge_neighbors ys t"
  by (induction xs t rule: edge_neighbors.induct) simp_all

lemma edge_neighbors_sym: "count_list (edge_neighbors edges a) b = count_list (edge_neighbors edges b) a"
  by (induction edges) (auto split: prod.splits)

lemma edge_neighbors_mem: "u \<in> set (edge_neighbors edges t) \<longleftrightarrow> (t, u) \<in> set edges \<or> (u, t) \<in> set edges"
  by (induction edges) (auto split: prod.splits)

lemma route_edges_irrefl: "(a, a) \<notin> set (route_edges reserves source output bridges)"
proof -
  have "(a, a) \<notin> set (pool_edges reserves seen)" for seen
    by (induction reserves seen rule: pool_edges.induct) auto
  moreover have "(a, a) \<notin> set (bridge_edges bridges seen)" for seen
    by (induction bridges seen rule: bridge_edges.induct) auto
  ultimately show ?thesis by (auto simp: route_edges_def)
qed

interpretation routes: multigraph "route_neighbors reserves source sink bridges" for reserves source sink bridges
  by unfold_locales (simp_all add: route_neighbors_def edge_neighbors_sym edge_neighbors_mem route_edges_irrefl)

definition full_rows :: "'i adjacency \<Rightarrow> bool" where
  "full_rows adj \<longleftrightarrow> hm_wf adj \<and> (\<forall>t. map_of adj t \<noteq> Some [])"

lemma full_rows_map: "full_rows adj \<Longrightarrow> map_of adj t = (if neighbors_in adj t = [] then None else Some (neighbors_in adj t))"
  by (auto simp: full_rows_def neighbors_in_def split: option.splits)

lemma full_rows_add_edge: "full_rows adj \<Longrightarrow> full_rows (add_edge a b adj)"
  by (auto simp: full_rows_def add_edge_def push_neighbor_def)

lemma neighbors_in_add_edge: "neighbors_in (add_edge a b adj) t = neighbors_in adj t @ edge_neighbors [(a, b)] t"
  by (auto simp: neighbors_in_def add_edge_def push_neighbor_def split: option.splits)

lemma add_pool_edges_rows:
  "full_rows adj \<Longrightarrow> full_rows (add_pool_edges reserves seen adj) \<and>
   neighbors_in (add_pool_edges reserves seen adj) t = neighbors_in adj t @ edge_neighbors (pool_edges reserves seen) t"
  by (induction reserves seen adj rule: add_pool_edges.induct) (simp_all add: full_rows_add_edge neighbors_in_add_edge)

lemma add_bridge_edges_rows:
  "full_rows adj \<Longrightarrow> full_rows (add_bridge_edges bridges seen adj) \<and>
   neighbors_in (add_bridge_edges bridges seen adj) t = neighbors_in adj t @ edge_neighbors (bridge_edges bridges seen) t"
  by (induction bridges seen adj rule: add_bridge_edges.induct) (simp_all add: full_rows_add_edge neighbors_in_add_edge)

lemma token_graph_rows: "full_rows (token_graph reserves source output bridges)"
  and token_graph_neighbors:
    "neighbors_in (token_graph reserves source output bridges) t = route_neighbors reserves source output bridges t"
proof -
  have "full_rows ([] :: token_address adjacency)" "neighbors_in ([] :: token_address adjacency) t = []"
    by (simp_all add: full_rows_def neighbors_in_def)
  then show "full_rows (token_graph reserves source output bridges)"
    "neighbors_in (token_graph reserves source output bridges) t = route_neighbors reserves source output bridges t"
    using add_pool_edges_rows [of "[]" reserves "{}"] add_bridge_edges_rows [of "add_pool_edges reserves {} []" bridges "{}"]
    by (simp_all add: token_graph_def Let_def full_rows_add_edge neighbors_in_add_edge route_neighbors_def route_edges_def
        edge_neighbors_append)
qed

lemma token_graph_map: "map_of (token_graph reserves source output bridges) t =
    (if route_neighbors reserves source output bridges t = [] then None else Some (route_neighbors reserves source output bridges t))"
  unfolding full_rows_map [OF token_graph_rows] token_graph_neighbors ..

lemma initial_strip_inv:
  "multigraph.strip_inv (route_neighbors reserves source output bridges) {} (map (\<lambda>(token, ns). (token, length ns)) (token_graph reserves source output bridges))
     (rev (map fst (filter (\<lambda>(_, d). d < 2) (map (\<lambda>(token, ns). (token, length ns)) (token_graph reserves source output bridges)))))"
    (is "multigraph.strip_inv _ {} ?degree _")
proof -
  let ?nbrs = "route_neighbors reserves source output bridges"
  have "map_of (map (\<lambda>(token, ns). (token, length ns)) adj) t = map_option length (map_of adj t)"
    for adj :: "token_address adjacency" and t by (induction adj) auto
  then have D: "map_of ?degree t = (if ?nbrs t = [] then None else Some (inner_degree ?nbrs (- {}) t))" for t
    by (simp add: token_graph_map inner_degree_def)
  have "t \<in> set (rev (map fst (filter (\<lambda>(_, d). d < 2) ?degree)))" if "?nbrs t \<noteq> []" "inner_degree ?nbrs (- {}) t < 2" for t
    using that D [of t] by (force dest!: map_of_SomeD)
  with D show ?thesis unfolding multigraph.strip_inv_def [OF routes.multigraph_axioms] multigraph.due_def [OF routes.multigraph_axioms] by blast
qed

lemma routable_tokens_core:
  "routable_tokens reserves source output bridges =
     (let nbrs = route_neighbors reserves source output bridges
      in if source \<in> two_core nbrs then component nbrs (two_core nbrs) source else {})"
proof -
  let ?nbrs = "route_neighbors reserves source output bridges" and ?adj = "token_graph reserves source output bridges"
  define removed where "removed = strip ?adj {} (map (\<lambda>(token, ns). (token, length ns)) ?adj)
    (rev (map fst (filter (\<lambda>(_, d). d < 2) (map (\<lambda>(token, ns). (token, length ns)) ?adj))))"
  have core: "t \<in> two_core ?nbrs \<longleftrightarrow> ?nbrs t \<noteq> [] \<and> t \<notin> removed" for t
    unfolding removed_def by (rule routes.strip_core [OF token_graph_map initial_strip_inv])
  have "multigraph.reach_inv ?nbrs source {source} [source]"
    by (simp add: multigraph.reach_inv_def [OF routes.multigraph_axioms] component_self)
  then have reach: "reach_tokens ?adj removed {source} [source] = component ?nbrs (two_core ?nbrs) source"
    by (rule routes.reach_component [OF token_graph_map core])
  show ?thesis
    unfolding routable_tokens_def Let_def removed_def [symmetric] reach by (simp add: core token_graph_map)
qed

text \<open>
  C18. The filter's loops compute exactly what its documentation names: the kept tokens are the
  component of the source in the 2-core of the multigraph of pools, bridges and the virtual demand
  edge, and none at all when the source is outside the core. The right-hand side mentions no stack,
  no degree and no order of visits.
\<close>

theorem routable_tokens_exact:
  "routable_tokens reserves source output bridges =
     (let nbrs = route_neighbors reserves source output bridges
      in if source \<in> two_core nbrs then component nbrs (two_core nbrs) source else {})"
  by (rule routable_tokens_core)

section \<open>Routes survive the filter\<close>

text \<open>Two tokens are one hop apart when a pool or a bridge joins them. A snapshot lists each pool in
  both directions, so entries with the same identity name the same pair of tokens.\<close>

definition same_pair :: "'f pool_reserves \<Rightarrow> token_address \<Rightarrow> token_address \<Rightarrow> bool" where
  "same_pair r a b \<longleftrightarrow> {rs_token0 r, rs_token1 r} = {a, b}"

definition consistent_pairs :: "'f pool_reserves list \<Rightarrow> bool" where
  "consistent_pairs reserves \<longleftrightarrow>
     (\<forall>r\<in>set reserves. \<forall>r'\<in>set reserves. rs_pool_id r = rs_pool_id r' \<longrightarrow> same_pair r (rs_token0 r') (rs_token1 r'))"

definition one_hop :: "'f pool_reserves list \<Rightarrow> (token_address \<times> token_address) list \<Rightarrow> token_address \<Rightarrow> token_address \<Rightarrow> bool" where
  "one_hop reserves bridges a b \<longleftrightarrow> a \<noteq> b \<and>
     (list_ex (\<lambda>r. same_pair r a b) reserves \<or> (a, b) \<in> set bridges \<or> (b, a) \<in> set bridges)"

definition parallel_pools :: "'f pool_reserves list \<Rightarrow> token_address \<Rightarrow> token_address \<Rightarrow> bool" where
  "parallel_pools reserves a b \<longleftrightarrow> a \<noteq> b \<and>
     list_ex (\<lambda>r. list_ex (\<lambda>r'. rs_pool_id r \<noteq> rs_pool_id r' \<and> same_pair r a b \<and> same_pair r' a b) reserves) reserves"

text \<open>A route of distinct tokens: open from source to output, or closed by a further hop, or back
  through a second pool of the same pair.\<close>

definition simple_route :: "'f pool_reserves list \<Rightarrow> (token_address \<times> token_address) list \<Rightarrow>
    token_address \<Rightarrow> token_address \<Rightarrow> token_address list \<Rightarrow> bool" where
  "simple_route reserves bridges source output route \<longleftrightarrow>
     route \<noteq> [] \<and> distinct route \<and> successively (one_hop reserves bridges) route \<and> hd route = source \<and>
     (if source \<noteq> output then last route = output
      else 3 \<le> length route \<and> one_hop reserves bridges (last route) source
         \<or> length route = 2 \<and> parallel_pools reserves source (last route))"

definition pool_ids_between :: "'f pool_reserves list \<Rightarrow> token_address \<Rightarrow> token_address \<Rightarrow> pool_ref set" where
  "pool_ids_between reserves a b = rs_pool_id ` {r \<in> set reserves. same_pair r a b}"

lemma pool_edges_count:
  assumes "a \<noteq> b"
  shows "consistent_pairs reserves \<Longrightarrow>
    card (pool_ids_between reserves a b - seen) \<le> count_list (edge_neighbors (pool_edges reserves seen) a) b"
proof (induction reserves seen rule: pool_edges.induct)
  case (2 r rs seen)
  from "2.prems" have rs: "consistent_pairs rs" by (auto simp: consistent_pairs_def)
  have ids: "pool_ids_between (r # rs) a b = pool_ids_between rs a b \<union> (if same_pair r a b then {rs_pool_id r} else {})"
    by (auto simp: pool_ids_between_def)
  show ?case
  proof (cases "rs_token0 r = rs_token1 r \<or> rs_pool_id r \<in> seen")
    case True
    then have "pool_ids_between (r # rs) a b - seen = pool_ids_between rs a b - seen"
      using assms by (auto simp: ids same_pair_def)
    with 2 True rs show ?thesis by simp
  next
    case False
    note IH = "2.IH"(2) [OF False rs]
    have fin: "finite (pool_ids_between rs a b - insert (rs_pool_id r) seen)" by (simp add: pool_ids_between_def)
    show ?thesis
    proof (cases "same_pair r a b")
      case True
      have "card (pool_ids_between (r # rs) a b - seen) \<le> card (insert (rs_pool_id r) (pool_ids_between rs a b - insert (rs_pool_id r) seen))"
        using fin by (intro card_mono) (auto simp: ids)
      also have "\<dots> = Suc (card (pool_ids_between rs a b - insert (rs_pool_id r) seen))" using fin by simp
      finally have "card (pool_ids_between (r # rs) a b - seen) \<le> Suc (card (pool_ids_between rs a b - insert (rs_pool_id r) seen))" .
      also have "Suc (card (pool_ids_between rs a b - insert (rs_pool_id r) seen)) \<le>
          Suc (count_list (edge_neighbors (pool_edges rs (insert (rs_pool_id r) seen)) a) b)" using IH by simp
      also have "\<dots> = count_list (edge_neighbors (pool_edges (r # rs) seen) a) b"
        using True False assms unfolding same_pair_def doubleton_eq_iff by fastforce
      finally show ?thesis .
    next
      case other: False
      have "rs_pool_id r \<notin> pool_ids_between rs a b"
      proof
        assume "rs_pool_id r \<in> pool_ids_between rs a b"
        then obtain r' where r': "r' \<in> set rs" "same_pair r' a b" "rs_pool_id r = rs_pool_id r'"
          by (auto simp: pool_ids_between_def)
        then have "same_pair r (rs_token0 r') (rs_token1 r')" using "2.prems" unfolding consistent_pairs_def by simp
        with r'(2) other show False by (simp add: same_pair_def)
      qed
      then have "pool_ids_between (r # rs) a b - seen = pool_ids_between rs a b - insert (rs_pool_id r) seen"
        using other by (auto simp: ids)
      with IH False show ?thesis by auto
    qed
  qed
qed (simp add: pool_ids_between_def)

lemma bridge_edges_mem:
  "(a, b) \<in> set bridges \<Longrightarrow> a \<noteq> b \<Longrightarrow> (a, b) \<in> seen \<or> (b, a) \<in> seen \<or>
   (a, b) \<in> set (bridge_edges bridges seen) \<or> (b, a) \<in> set (bridge_edges bridges seen)"
  by (induction bridges seen rule: bridge_edges.induct) auto

lemma hop_neighbor:
  assumes "consistent_pairs reserves" "one_hop reserves bridges a b"
  shows "b \<in> set (edge_neighbors (pool_edges reserves {} @ bridge_edges bridges {}) a)"
proof (cases "list_ex (\<lambda>r. same_pair r a b) reserves")
  case True
  then have "pool_ids_between reserves a b \<noteq> {}" by (auto simp: pool_ids_between_def list_ex_iff)
  moreover have "finite (pool_ids_between reserves a b)" by (simp add: pool_ids_between_def)
  ultimately have "0 < card (pool_ids_between reserves a b)" by (simp add: card_gt_0_iff)
  then have "count_list (edge_neighbors (pool_edges reserves {}) a) b \<noteq> 0"
    using pool_edges_count [of a b reserves "{}"] assms by (auto simp: one_hop_def)
  then show ?thesis by (metis Un_iff count_notin edge_neighbors_append set_append)
next
  case False
  then have "(a, b) \<in> set bridges \<or> (b, a) \<in> set bridges" "a \<noteq> b" using assms(2) by (auto simp: one_hop_def)
  then show ?thesis using bridge_edges_mem [of a b bridges "{}"] bridge_edges_mem [of b a bridges "{}"]
    by (auto simp: edge_neighbors_mem)
qed

lemma route_neighbors_split:
  "route_neighbors reserves source output bridges t =
     edge_neighbors (pool_edges reserves {} @ bridge_edges bridges {}) t @
     edge_neighbors (if source \<noteq> output then [(source, output)] else []) t"
  by (simp add: route_neighbors_def route_edges_def edge_neighbors_append)

lemma parallel_count:
  assumes "consistent_pairs reserves" "parallel_pools reserves a b"
  shows "2 \<le> count_list (edge_neighbors (pool_edges reserves {} @ bridge_edges bridges {}) a) b"
proof -
  from assms(2) obtain r r' where r: "r \<in> set reserves" "r' \<in> set reserves" "rs_pool_id r \<noteq> rs_pool_id r'"
    "same_pair r a b" "same_pair r' a b" "a \<noteq> b" by (auto simp: parallel_pools_def list_ex_iff)
  then have "card {rs_pool_id r, rs_pool_id r'} \<le> card (pool_ids_between reserves a b)"
    by (intro card_mono) (auto simp: pool_ids_between_def)
  then show ?thesis
    using pool_edges_count [OF r(6) assms(1), of "{}"] r(3) by (simp add: edge_neighbors_append)
qed

section \<open>Degrees along a cycle\<close>

lemma degree_two_counts:
  assumes "2 \<le> count_list (nbrs t) u" "u \<in> S"
  shows "2 \<le> inner_degree nbrs S t"
proof -
  have "count_list ns u \<le> length (filter (\<lambda>u. u \<in> S) ns)" for ns using assms(2) by (induction ns) auto
  with assms(1) show ?thesis unfolding inner_degree_def using order_trans by blast
qed

lemma degree_two_neighbors:
  assumes "u \<in> set (nbrs t)" "v \<in> set (nbrs t)" "u \<noteq> v" "u \<in> S" "v \<in> S"
  shows "2 \<le> inner_degree nbrs S t"
proof -
  have "{u, v} \<subseteq> set (filter (\<lambda>u. u \<in> S) (nbrs t))" using assms by auto
  then have "card {u, v} \<le> card (set (filter (\<lambda>u. u \<in> S) (nbrs t)))" by (intro card_mono) auto
  also have "\<dots> \<le> inner_degree nbrs S t" unfolding inner_degree_def by (rule card_length)
  finally show ?thesis using assms(3) by simp
qed

lemma cycle_degree:
  assumes sym: "\<And>a b. b \<in> set (nbrs a) \<Longrightarrow> a \<in> set (nbrs b)"
    and dist: "distinct p" and len: "3 \<le> length p"
    and edges: "successively (\<lambda>a b. b \<in> set (nbrs a)) p" "hd p \<in> set (nbrs (last p))"
    and t: "t \<in> set p"
  shows "2 \<le> inner_degree nbrs (set p) t"
proof -
  define n where "n = length p"
  have p: "p \<noteq> []" using len by auto
  have next': "p ! ((i + 1) mod n) \<in> set (nbrs (p ! i))" if "i < n" for i
  proof (cases "i + 1 < n")
    case True
    then show ?thesis using edges(1) by (simp add: successively_conv_nth n_def)
  next
    case False
    then have last: "i + 1 = n" using that by simp
    then have "i = n - 1" "(i + 1) mod n = 0" by (simp_all del: Suc_eq_plus1)
    then show ?thesis using edges(2) p by (simp add: hd_conv_nth last_conv_nth n_def)
  qed
  from t obtain i where i: "i < n" "t = p ! i" by (auto simp: in_set_conv_nth n_def)
  define j where "j = (if i = 0 then n - 1 else i - 1)"
  have j: "j < n" "(j + 1) mod n = i" using i len by (auto simp: j_def n_def)
  have k: "(i + 1) mod n < n" using i(1) by (intro mod_less_divisor) simp
  have "p ! j \<in> set (nbrs t)" using next' [OF j(1)] j(2) i(2) by (auto intro: sym)
  moreover have "p ! ((i + 1) mod n) \<in> set (nbrs t)" using next' [OF i(1)] i(2) by simp
  moreover have "p ! j \<noteq> p ! ((i + 1) mod n)"
  proof -
    have "j \<noteq> (i + 1) mod n" using i(1) len by (cases "i + 1 < n") (auto simp: j_def n_def mod_if)
    then show ?thesis using dist j(1) k by (simp add: nth_eq_iff_index_eq n_def)
  qed
  ultimately show ?thesis
    using j(1) k unfolding n_def by (intro degree_two_neighbors [of "p ! j" _ _ "p ! ((i + 1) mod length p)"]) (simp_all only: nth_mem not_False_eq_True)
qed

lemma path_in_component:
  "successively (\<lambda>a b. b \<in> set (nbrs a)) p \<Longrightarrow> set p \<subseteq> S \<Longrightarrow> p \<noteq> [] \<Longrightarrow> hd p \<in> component nbrs S s \<Longrightarrow>
   set p \<subseteq> component nbrs S s"
proof (induction p rule: induct_list012)
  case (3 a b p)
  then have "b \<in> component nbrs S s" by (auto intro: component_step)
  with 3 show ?case by simp
qed auto

lemma route_two_core:
  assumes cons: "consistent_pairs reserves" and route: "simple_route reserves bridges source output p"
  shows "set p \<subseteq> two_core (route_neighbors reserves source output bridges)"
    and "successively (\<lambda>a b. b \<in> set (route_neighbors reserves source output bridges a)) p"
proof -
  let ?nbrs = "route_neighbors reserves source output bridges"
  have hop: "b \<in> set (?nbrs a)" if "one_hop reserves bridges a b" for a b
    using hop_neighbor [OF cons that] by (simp add: route_neighbors_split)
  show succ: "successively (\<lambda>a b. b \<in> set (?nbrs a)) p"
    using route hop by (auto simp: simple_route_def elim!: successively_mono)
  have p: "p \<noteq> []" "distinct p" "hd p = source" using route by (simp_all add: simple_route_def)
  have pair: "2 \<le> count_list (?nbrs a) b" if "p = [a, b]" for a b
  proof (cases "source = output")
    case True
    then show ?thesis using route that parallel_count [OF cons, of a b bridges]
      by (auto simp: simple_route_def route_neighbors_split)
  next
    case False
    then have "one_hop reserves bridges a b" "a = source" "b = output" using route that by (auto simp: simple_route_def)
    with hop_neighbor [OF cons this(1)] False have
      "count_list (edge_neighbors (pool_edges reserves {} @ bridge_edges bridges {}) a) b \<noteq> 0"
      "edge_neighbors (if source \<noteq> output then [(source, output)] else []) a = [b]" by (auto simp: count_list_0_iff)
    then show ?thesis by (simp add: route_neighbors_split)
  qed
  show "set p \<subseteq> two_core ?nbrs"
  proof (rule two_core_greatest)
    fix t assume t: "t \<in> set p"
    consider "length p = 1" | "length p = 2" | "3 \<le> length p" using p(1) by (cases p; cases "tl p"; cases "tl (tl p)") auto
    then show "2 \<le> inner_degree ?nbrs (set p) t"
    proof cases
      case 1
      then show ?thesis using route by (auto simp: simple_route_def length_Suc_conv split: if_splits)
    next
      case 2
      then obtain a b where ab: "p = [a, b]" by (auto simp: length_Suc_conv numeral_2_eq_2)
      have "count_list (?nbrs b) a = count_list (?nbrs a) b"
        unfolding route_neighbors_def by (rule edge_neighbors_sym)
      then have "2 \<le> count_list (?nbrs a) b" "2 \<le> count_list (?nbrs b) a" using pair [OF ab] by simp_all
      with t ab show ?thesis by (auto intro: degree_two_counts)
    next
      case 3
      have "source \<in> set (?nbrs (last p))"
      proof (cases "source = output")
        case True
        then show ?thesis using route 3 hop by (auto simp: simple_route_def)
      next
        case False
        then have "last p = output" using route by (simp add: simple_route_def)
        then show ?thesis using False by (simp add: route_neighbors_split)
      qed
      with p succ 3 t show ?thesis
        by (intro cycle_degree) (simp_all add: iffD1 [OF routes.nbrs_sym])
    qed
  qed
qed

text \<open>
  C19. The filter never drops a pool that could carry flow on a route: whenever a simple route of
  distinct tokens leads from the source to the output, or closes a cycle when they coincide, every
  pool between two tokens of the route is in the filter's result.
\<close>

theorem route_pools_never_dropped:
  assumes "consistent_pairs reserves" "simple_route reserves bridges source output route"
    and "r \<in> set reserves" "rs_token0 r \<in> set route" "rs_token1 r \<in> set route"
  shows "r \<in> set (routable_reserves reserves source output bridges)"
proof -
  let ?nbrs = "route_neighbors reserves source output bridges" and ?keep = "routable_tokens reserves source output bridges"
  note core = route_two_core [OF assms(1,2)]
  have route: "route \<noteq> []" "hd route = source" using assms(2) by (simp_all add: simple_route_def)
  then have "source \<in> two_core ?nbrs" using core(1) by (metis hd_in_set subsetD)
  then have keep: "?keep = component ?nbrs (two_core ?nbrs) source" by (simp add: routable_tokens_core Let_def)
  have "set route \<subseteq> ?keep"
    unfolding keep by (rule path_in_component [OF core(2,1) route(1)]) (simp add: route(2) component_self)
  then have "rs_token0 r \<in> ?keep" "rs_token1 r \<in> ?keep" "source \<in> ?keep"
    using assms(4,5) by (auto simp: keep component_self)
  then show ?thesis using assms(3) by (auto simp: routable_reserves_def Let_def)
qed

text \<open>A triangle of pools with a leaf: the triangle is kept for a cycle from its corner.\<close>

definition demo_token :: "nat \<Rightarrow> token_address" where
  "demo_token n = TokenAddress (of_nat n) Ethereum"

definition demo_reserve :: "nat \<Rightarrow> nat \<Rightarrow> nat \<Rightarrow> nat pool_reserves" where
  "demo_reserve a b pool = \<lparr>rs_token0 = demo_token a, rs_token1 = demo_token b, rs_pool_id = pool_ref_v3 (of_nat pool) Ethereum,
     rs_value = \<lparr>vr_token_0 = 1, vr_token_1 = 1, vr_fee_multiplier = 1, vr_max_swap_0 = 1, vr_max_swap_1 = 1\<rparr>\<rparr>"

definition demo_reserves :: "nat pool_reserves list" where
  "demo_reserves = [demo_reserve 0 1 10, demo_reserve 1 0 10, demo_reserve 1 2 11, demo_reserve 2 0 12, demo_reserve 0 3 13]"

lemma demo_route:
  "consistent_pairs demo_reserves"
  "simple_route demo_reserves [] (demo_token 0) (demo_token 0) [demo_token 0, demo_token 1, demo_token 2]"
  by (simp_all add: consistent_pairs_def simple_route_def demo_reserves_def demo_reserve_def demo_token_def same_pair_def
      one_hop_def pool_ref_v3_def insert_commute doubleton_eq_iff)

theorem route_pools_never_dropped_witness:
  "demo_reserve 1 2 11 \<in> set (routable_reserves demo_reserves (demo_token 0) (demo_token 0) [])"
  by (rule route_pools_never_dropped [OF demo_route]) (simp_all add: demo_reserves_def demo_reserve_def)

section \<open>Filtering twice\<close>

definition inside :: "token_address set \<Rightarrow> token_address \<times> token_address \<Rightarrow> bool" where
  "inside K e \<longleftrightarrow> fst e \<in> K \<and> snd e \<in> K"

definition reserve_inside :: "token_address set \<Rightarrow> 'f pool_reserves \<Rightarrow> bool" where
  "reserve_inside K r \<longleftrightarrow> rs_token0 r \<in> K \<and> rs_token1 r \<in> K"

lemma same_pair_inside: "same_pair r a b \<Longrightarrow> reserve_inside K r \<longleftrightarrow> a \<in> K \<and> b \<in> K"
  by (auto simp: same_pair_def reserve_inside_def doubleton_eq_iff)

lemma pool_edges_filter:
  "consistent_pairs reserves \<Longrightarrow> seen' \<subseteq> seen \<Longrightarrow>
   (\<And>r. r \<in> set reserves \<Longrightarrow> rs_pool_id r \<in> seen - seen' \<Longrightarrow> \<not> reserve_inside K r) \<Longrightarrow>
   pool_edges (filter (reserve_inside K) reserves) seen' = filter (inside K) (pool_edges reserves seen)"
proof (induction reserves arbitrary: seen seen')
  case (Cons r rs)
  from Cons.prems(1) have rs: "consistent_pairs rs" by (simp add: consistent_pairs_def)
  have same: "reserve_inside K r' \<longleftrightarrow> reserve_inside K r" if "r' \<in> set rs" "rs_pool_id r' = rs_pool_id r" for r'
    using Cons.prems(1) that same_pair_inside [of r' "rs_token0 r" "rs_token1 r"]
    by (simp add: consistent_pairs_def reserve_inside_def)
  show ?case
  proof (cases "reserve_inside K r")
    case True
    then have "rs_pool_id r \<in> seen \<longleftrightarrow> rs_pool_id r \<in> seen'" using Cons.prems(2,3) by auto
    then show ?thesis
      using True Cons.IH [OF rs, of seen' seen] Cons.IH [OF rs, of "insert (rs_pool_id r) seen'" "insert (rs_pool_id r) seen"]
        Cons.prems(2,3) by (auto simp: inside_def reserve_inside_def)
  next
    case False
    then have "\<not> inside K (rs_token0 r, rs_token1 r)" by (simp add: inside_def reserve_inside_def)
    moreover have "\<not> reserve_inside K r'" if "r' \<in> set rs" "rs_pool_id r' \<in> insert (rs_pool_id r) seen - seen'" for r'
      using that same [of r'] False Cons.prems(3) [of r'] by auto
    ultimately show ?thesis
      using False Cons.IH [OF rs, of seen' seen] Cons.IH [OF rs, of seen' "insert (rs_pool_id r) seen"] Cons.prems(2,3)
      by auto
  qed
qed simp

lemma inner_degree_filter_le:
  "inner_degree (edge_neighbors (filter P edges @ rest)) S t \<le> inner_degree (edge_neighbors (edges @ rest)) S t"
  by (induction edges) (auto simp: inner_degree_def)

lemma edge_neighbors_filter_subset: "set (edge_neighbors (filter P edges @ rest) t) \<subseteq> set (edge_neighbors (edges @ rest) t)"
  by (auto simp: edge_neighbors_mem)

lemma inner_degree_filter_inside:
  assumes "t \<in> K" "S \<subseteq> K"
  shows "inner_degree (edge_neighbors (filter (inside K) edges @ rest)) S t = inner_degree (edge_neighbors (edges @ rest)) S t"
proof -
  have "filter (\<lambda>u. u \<in> S) (edge_neighbors (filter (inside K) edges) t) = filter (\<lambda>u. u \<in> S) (edge_neighbors edges t)"
    using assms by (induction edges) (auto simp: inside_def)
  then show ?thesis by (simp add: inner_degree_def edge_neighbors_append)
qed

lemma component_core_filter:
  assumes "K = component (edge_neighbors (edges @ rest)) (two_core (edge_neighbors (edges @ rest))) s"
    and s: "s \<in> two_core (edge_neighbors (edges @ rest))"
  shows "component (edge_neighbors (filter (inside K) edges @ rest)) (two_core (edge_neighbors (filter (inside K) edges @ rest))) s = K"
    and "s \<in> two_core (edge_neighbors (filter (inside K) edges @ rest))"
proof -
  let ?nbrs = "edge_neighbors (edges @ rest)" and ?nbrs' = "edge_neighbors (filter (inside K) edges @ rest)"
  have K: "K \<subseteq> two_core ?nbrs" "s \<in> K"
    unfolding assms(1) using component_within [OF s] by (simp_all add: component_self)
  have closed: "u \<in> K" if "t \<in> K" "u \<in> set (?nbrs t)" "u \<in> two_core ?nbrs" for t u
    using that unfolding assms(1) by (rule component_step)
  have sub: "two_core ?nbrs' \<subseteq> two_core ?nbrs"
  proof (rule two_core_greatest)
    fix t assume "t \<in> two_core ?nbrs'"
    then show "2 \<le> inner_degree ?nbrs (two_core ?nbrs') t"
      using two_core_degree [of t ?nbrs'] inner_degree_filter_le [of "inside K" edges rest "two_core ?nbrs'" t] by linarith
  qed
  have core: "K \<subseteq> two_core ?nbrs'"
  proof (rule two_core_greatest)
    fix t assume t: "t \<in> K"
    have "filter (\<lambda>u. u \<in> two_core ?nbrs) (?nbrs t) = filter (\<lambda>u. u \<in> K) (?nbrs t)"
      using closed [OF t] K(1) by (intro filter_cong) auto
    moreover have "2 \<le> inner_degree ?nbrs (two_core ?nbrs) t" using t K(1) by (intro two_core_degree) auto
    ultimately have "2 \<le> inner_degree ?nbrs K t" by (simp add: inner_degree_def)
    then show "2 \<le> inner_degree ?nbrs' K t" using inner_degree_filter_inside [OF t subset_refl] by simp
  qed
  show "s \<in> two_core ?nbrs'" using core K(2) by blast
  have "u \<in> set (?nbrs' t)" if "t \<in> K" "u \<in> K" "u \<in> set (?nbrs t)" for t u
    using that by (auto simp: edge_neighbors_mem inside_def)
  then have "K \<subseteq> component ?nbrs' (two_core ?nbrs') s"
  proof -
    assume keep: "\<And>t u. t \<in> K \<Longrightarrow> u \<in> K \<Longrightarrow> u \<in> set (?nbrs t) \<Longrightarrow> u \<in> set (?nbrs' t)"
    have "component ?nbrs (two_core ?nbrs) s \<subseteq> K \<inter> component ?nbrs' (two_core ?nbrs') s"
    proof (rule component_least)
      fix t u assume t: "t \<in> K \<inter> component ?nbrs' (two_core ?nbrs') s" and u: "u \<in> set (?nbrs t)" "u \<in> two_core ?nbrs"
      then have "u \<in> K" using closed by blast
      then show "u \<in> K \<inter> component ?nbrs' (two_core ?nbrs') s"
        using t u keep core by (auto intro: component_step [of t])
    qed (simp add: K(2) component_self)
    then show ?thesis using assms(1) by blast
  qed
  moreover have "component ?nbrs' (two_core ?nbrs') s \<subseteq> K"
    using K(2) closed sub edge_neighbors_filter_subset [of "inside K" edges rest] by (intro component_least) blast+
  ultimately show "component ?nbrs' (two_core ?nbrs') s = K" by blast
qed

text \<open>
  Filtering is idempotent: pruning an already pruned snapshot changes nothing, although the second
  run sees fewer pools and so a smaller graph.
\<close>

lemma routable_reserves_idempotent:
  assumes "consistent_pairs reserves"
  shows "routable_reserves (routable_reserves reserves source output bridges) source output bridges =
         routable_reserves reserves source output bridges"
proof -
  define K where "K = routable_tokens reserves source output bridges"
  define pruned where "pruned = filter (reserve_inside K) reserves"
  have out: "routable_reserves reserves source output bridges =
      (if source \<notin> K \<or> pruned = [] then reserves else pruned)"
    by (simp add: routable_reserves_def Let_def K_def pruned_def reserve_inside_def [abs_def])
  show ?thesis
  proof (cases "source \<notin> K \<or> pruned = []")
    case True
    then have "routable_reserves reserves source output bridges = reserves" by (simp add: out)
    then show ?thesis by simp
  next
    case False
    let ?rest = "bridge_edges bridges {} @ (if source \<noteq> output then [(source, output)] else [])"
    have nbrs: "route_neighbors rs source output bridges = edge_neighbors (pool_edges rs {} @ ?rest)" for rs :: "'a pool_reserves list"
      by (simp add: route_neighbors_def route_edges_def)
    have filtered: "pool_edges pruned {} = filter (inside K) (pool_edges reserves {})"
      unfolding pruned_def by (rule pool_edges_filter [OF assms]) simp_all
    have core: "source \<in> two_core (edge_neighbors (pool_edges reserves {} @ ?rest))"
      "K = component (edge_neighbors (pool_edges reserves {} @ ?rest)) (two_core (edge_neighbors (pool_edges reserves {} @ ?rest))) source"
      using False by (auto simp: K_def routable_tokens_core Let_def nbrs split: if_splits)
    have "routable_tokens pruned source output bridges = K"
      using component_core_filter [OF core(2,1)] by (simp add: routable_tokens_core Let_def nbrs filtered)
    then have "routable_reserves pruned source output bridges = pruned"
      using False by (simp add: routable_reserves_def Let_def pruned_def reserve_inside_def [abs_def])
    then show ?thesis using False by (simp add: out)
  qed
qed

end
