(* ===== verification/PlanLaws.thy ===== *)
theory PlanLaws
  imports PlanReplay RoutingLaws
begin

text \<open>
  The laws of plans: the cells of a plan are exactly the kept cells of the flows, each with its own
  amounts and the share of its group, in stage order; and a replay fails only with a pool or a token
  that the snapshot does not have.
\<close>

section \<open>The steps of a plan\<close>

definition flow_key :: "(token_address \<times> token_address) list \<Rightarrow> 'f flow_record \<Rightarrow> cell_key option" where
  "flow_key bridges flow =
     map_option (\<lambda>kind. (fr_stage flow, fr_token_in flow, fr_token_out flow, kind)) (flow_kind bridges flow)"

definition cell_flows :: "'f float_ops \<Rightarrow> 'f \<Rightarrow> (token_address \<times> token_address) list \<Rightarrow> 'f flow_record list \<Rightarrow> cell_key \<Rightarrow>
    'f flow_record list" where
  "cell_flows F min_weight bridges flows key =
     filter (\<lambda>flow. flow_key bridges flow = Some key \<and> \<not> fl_less F (fr_weight flow) min_weight) flows"

definition cell_accum :: "'f float_ops \<Rightarrow> 'f flow_record list \<Rightarrow> 'f accum" where
  "cell_accum F flows = \<lparr>ac_weight = sum_floats F (map fr_weight flows),
     ac_amount_in = sum_floats F (map fr_amount_in flows), ac_amount_out = sum_floats F (map fr_amount_out flows)\<rparr>"

definition step_key :: "'f executable_step \<Rightarrow> cell_key" where
  "step_key s = (es_stage s, es_token_in s, es_token_out s, es_kind s)"

definition accum_add :: "'f float_ops \<Rightarrow> 'f flow_record \<Rightarrow> 'f accum \<Rightarrow> 'f accum" where
  "accum_add F flow acc = \<lparr>ac_weight = fl_add F (ac_weight acc) (fr_weight flow),
     ac_amount_in = fl_add F (ac_amount_in acc) (fr_amount_in flow),
     ac_amount_out = fl_add F (ac_amount_out acc) (fr_amount_out flow)\<rparr>"

definition accum_from :: "'f float_ops \<Rightarrow> 'f accum option \<Rightarrow> 'f flow_record list \<Rightarrow> 'f accum option" where
  "accum_from F start flows =
     (if flows = [] then start
      else Some (foldl (\<lambda>acc flow. accum_add F flow acc) (case start of None \<Rightarrow> cell_accum F [] | Some acc \<Rightarrow> acc) flows))"

lemma accum_from_Cons: "accum_from F start (flow # flows) =
    accum_from F (Some (accum_add F flow (case start of None \<Rightarrow> cell_accum F [] | Some acc \<Rightarrow> acc))) flows"
  by (simp add: accum_from_def)

lemma foldl_cell_accum: "foldl (\<lambda>acc flow. accum_add F flow acc) (cell_accum F done) flows = cell_accum F (done @ flows)"
  by (induction flows rule: rev_induct) (simp_all add: cell_accum_def accum_add_def sum_floats_def flip: append_assoc)

lemma accum_from_None: "accum_from F None flows = (if flows = [] then None else Some (cell_accum F flows))"
  using foldl_cell_accum [of F "[]" flows] by (simp add: accum_from_def)

lemma map_of_merge_flows:
  "map_of (merge_flows F min_weight bridges flows merged) key =
     accum_from F (map_of merged key) (cell_flows F min_weight bridges flows key)"
proof (induction F min_weight bridges flows merged rule: merge_flows.induct)
  case (2 F min_weight bridges flow flows merged)
  show ?case
  proof (cases "flow_kind bridges flow")
    case None
    with 2 show ?thesis by (simp add: cell_flows_def flow_key_def)
  next
    case (Some kind)
    let ?key = "(fr_stage flow, fr_token_in flow, fr_token_out flow, kind)"
    have k: "flow_key bridges flow = Some ?key" using Some by (simp add: flow_key_def)
    show ?thesis
    proof (cases "fl_less F (fr_weight flow) min_weight")
      case True
      with 2 Some show ?thesis by (simp add: cell_flows_def)
    next
      case False
      with 2(3) [OF Some False refl refl] Some k show ?thesis
        by (cases "key = ?key"; cases "map_of merged ?key") (simp_all add: cell_flows_def accum_from_Cons accum_add_def cell_accum_def sum_floats_def Let_def)
    qed
  qed
qed (simp add: cell_flows_def accum_from_def)

lemma merge_flows_wf: "hm_wf merged \<Longrightarrow> hm_wf (merge_flows F min_weight bridges flows merged)"
  by (induction F min_weight bridges flows merged rule: merge_flows.induct) (auto simp: Let_def split: option.split)

lemma map_of_group_totals:
  "map_of (fold (\<lambda>((stage, token_in, _, _), acc). add_entry F (stage, token_in) (ac_weight acc)) merged totals) grp =
     (let weights = map (\<lambda>c. ac_weight (snd c)) (filter (\<lambda>c. (fst (fst c), fst (snd (fst c))) = grp) merged)
      in if weights = [] then map_of totals grp
         else Some (foldl (fl_add F) (case map_of totals grp of None \<Rightarrow> fl_zero F | Some t \<Rightarrow> t) weights))"
proof (induction merged arbitrary: totals)
  case (Cons c merged)
  obtain stage token_in token_out kind acc where c: "c = ((stage, token_in, token_out, kind), acc)" by (cases c) auto
  show ?case
    unfolding c using Cons.IH [of "add_entry F (stage, token_in) (ac_weight acc) totals"]
    by (cases "(stage, token_in) = grp"; cases "map_of totals grp") (simp_all add: add_entry_def Let_def)
qed simp

lemma filter_key_wf:
  "distinct (map fst m) \<Longrightarrow> filter (\<lambda>c. fst c = k) m = (case map_of m k of None \<Rightarrow> [] | Some v \<Rightarrow> [(k, v)])"
proof (induction m)
  case (Cons c m)
  have "filter (\<lambda>c. fst c = k) m = []" if "fst c = k"
  proof -
    have "\<forall>d\<in>set m. fst d \<noteq> k" using that Cons.prems by (auto simp: image_iff)
    then show ?thesis by (simp add: filter_empty_conv)
  qed
  with Cons show ?case by (cases c) auto
qed simp

lemma filter_sort_key_same: "filter (\<lambda>x. f x = k \<and> P x) (sort_key f xs) = filter (\<lambda>x. f x = k \<and> P x) xs"
proof -
  have "filter P (filter (\<lambda>x. f x = k) (sort_key f xs)) = filter P (filter (\<lambda>x. f x = k) xs)"
    by (simp only: sort_key_stable)
  then show ?thesis by (simp add: conj_commute)
qed

text \<open>
  C23. A plan's steps are the kept cells of its flows and nothing else. They come in stage order, at most
  one per stage, direction and kind; a cell without a step is one whose flows were all padding or below
  the threshold; and each step carries the sums of its flows, and as weight its share of the steps of
  the same stage and input token.
\<close>

theorem plan_cells_exact:
  "let plan = build_plan F flows source_asset output_asset entry min_weight bridges;
       cell = cell_flows F min_weight bridges flows
   in sorted (map es_stage (ep_steps plan)) \<and>
      (\<forall>key. case filter (\<lambda>s. step_key s = key) (ep_steps plan) of
         [] \<Rightarrow> cell key = []
       | [s] \<Rightarrow> cell key \<noteq> [] \<and>
           es_amount_in s = sum_floats F (map fr_amount_in (cell key)) \<and>
           es_amount_out s = sum_floats F (map fr_amount_out (cell key)) \<and>
           (let grp = filter (\<lambda>t. (es_stage t, es_token_in t) = (es_stage s, es_token_in s)) (ep_steps plan);
                total = sum_floats F (map (\<lambda>t. sum_floats F (map fr_weight (cell (step_key t)))) grp)
            in es_weight s = (if fl_less F (fl_zero F) total
                              then fl_div F (sum_floats F (map fr_weight (cell key))) total else fl_zero F))
       | _ \<Rightarrow> False)"
proof -
  define merged where "merged = merge_flows F min_weight bridges flows []"
  define totals where "totals = group_totals F merged"
  define cell where "cell = cell_flows F min_weight bridges flows"
  define steps where "steps = ep_steps (build_plan F flows source_asset output_asset entry min_weight bridges)"
  have steps: "steps = sort_key es_stage (map (plan_step F totals) merged)"
    by (simp add: steps_def build_plan_def Let_def merged_def totals_def)
  have key: "step_key (plan_step F totals c) = fst c" for c
    by (cases c) (simp add: plan_step_def step_key_def Let_def split_beta)
  have map: "map_of merged key = (if cell key = [] then None else Some (cell_accum F (cell key)))" for key
    by (simp add: merged_def cell_def map_of_merge_flows accum_from_None)
  have wf: "distinct (map fst merged)" using merge_flows_wf [OF hm_wf_Nil] by (simp add: merged_def hm_wf_def)
  have at: "filter (\<lambda>s. step_key s = key) steps =
      (if cell key = [] then [] else [plan_step F totals (key, cell_accum F (cell key))])" for key
  proof -
    have "filter (\<lambda>s. step_key s = key) steps = filter (\<lambda>s. es_stage s = fst key \<and> step_key s = key) steps"
      by (intro filter_cong) (auto simp: step_key_def)
    also have "\<dots> = filter (\<lambda>s. step_key s = key) (map (plan_step F totals) merged)"
      unfolding steps filter_sort_key_same by (intro filter_cong) (auto simp: step_key_def)
    also have "\<dots> = map (plan_step F totals) (filter (\<lambda>c. fst c = key) merged)"
      by (simp add: filter_map comp_def key)
    also have "filter (\<lambda>c. fst c = key) merged = (case map_of merged key of None \<Rightarrow> [] | Some acc \<Rightarrow> [(key, acc)])"
      by (rule filter_key_wf [OF wf])
    finally show ?thesis by (simp add: map)
  qed
  have weight: "ac_weight (snd c) = sum_floats F (map fr_weight (cell (fst c)))" if "c \<in> set merged" for c
    using map [of "fst c"] map_of_is_SomeI [OF wf, of "fst c" "snd c"] that
    by (auto simp: cell_accum_def split: if_splits)
  have total: "(case map_of totals (stage, token) of None \<Rightarrow> fl_zero F | Some t \<Rightarrow> t) =
      sum_floats F (map (\<lambda>t. sum_floats F (map fr_weight (cell (step_key t))))
        (filter (\<lambda>t. (es_stage t, es_token_in t) = (stage, token)) steps))" for stage token
  proof -
    let ?members = "filter (\<lambda>c. (fst (fst c), fst (snd (fst c))) = (stage, token)) merged"
    have "filter (\<lambda>t. (es_stage t, es_token_in t) = (stage, token)) steps =
        filter (\<lambda>t. es_stage t = stage \<and> es_token_in t = token) (map (plan_step F totals) merged)"
      unfolding steps using filter_sort_key_same [of es_stage stage "\<lambda>t. es_token_in t = token"] by simp
    also have "\<dots> = map (plan_step F totals) ?members"
      using key by (auto simp: filter_map comp_def step_key_def prod_eq_iff intro!: filter_cong arg_cong [where f = "map _"])
    finally have "map (\<lambda>t. sum_floats F (map fr_weight (cell (step_key t))))
        (filter (\<lambda>t. (es_stage t, es_token_in t) = (stage, token)) steps) = map (\<lambda>c. ac_weight (snd c)) ?members"
      using weight by (simp add: key)
    then show ?thesis
      using map_of_group_totals [of F merged "[]" "(stage, token)"]
      by (simp add: totals_def group_totals_def Let_def sum_floats_def)
  qed
  have "sorted (map es_stage steps)" by (simp add: steps)
  then show ?thesis
    unfolding Let_def steps_def [symmetric] cell_def [symmetric] at
    by (auto simp: plan_step_def Let_def cell_accum_def total)
qed

section \<open>When a replay fails\<close>

definition book_tokens :: "'f reserve_book \<Rightarrow> pool_ref \<Rightarrow> (token_address \<times> token_address) option" where
  "book_tokens book pool = map_option (\<lambda>e. (pb_token0 e, pb_token1 e)) (map_of book pool)"

definition first_pair :: "'f pool_reserves list \<Rightarrow> pool_ref \<Rightarrow> (token_address \<times> token_address) option" where
  "first_pair reserves pool =
     map_option (\<lambda>r. (rs_token0 r, rs_token1 r)) (find (\<lambda>r. rs_pool_id r = pool) reserves)"

definition trades_in :: "'f pool_reserves list \<Rightarrow> pool_ref \<Rightarrow> token_address \<Rightarrow> bool" where
  "trades_in reserves pool token =
     (case first_pair reserves pool of None \<Rightarrow> True | Some (t0, t1) \<Rightarrow> token = t0 \<or> token = t1)"

lemma book_tokens_built: "book_tokens (fold book_insert reserves []) = first_pair reserves"
proof -
  have "book_tokens (fold book_insert reserves book) pool =
      (case book_tokens book pool of None \<Rightarrow> first_pair reserves pool | Some p \<Rightarrow> Some p)" for book pool
  proof (induction reserves arbitrary: book)
    case Nil
    then show ?case by (simp add: book_tokens_def first_pair_def split: option.split)
  next
    case (Cons r rs)
    show ?case
      using Cons [of "book_insert r book"]
      by (cases "map_of book pool"; cases "rs_pool_id r = pool"; cases "map_of book (rs_pool_id r)")
        (simp_all add: book_insert_def book_tokens_def first_pair_def hm_contains_def)
  qed
  then show ?thesis by (auto simp: book_tokens_def)
qed

lemma book_swap_tokens:
  "book_swap F entry token amount = Inr (entry', out) \<Longrightarrow> pb_token0 entry' = pb_token0 entry \<and> pb_token1 entry' = pb_token1 entry"
  by (auto simp: book_swap_def Let_def split: if_splits)

lemma book_swap_error:
  "book_swap F entry token amount = Inl e \<Longrightarrow> e = ReplayTokenNotInPool \<and> token \<noteq> pb_token0 entry \<and> token \<noteq> pb_token1 entry"
  by (auto simp: book_swap_def Let_def split: if_splits)

text \<open>A step that a snapshot cannot serve, and the error it would be.\<close>

definition unserved :: "'f pool_reserves list \<Rightarrow> replay_error \<Rightarrow> 'f replay_step \<Rightarrow> bool" where
  "unserved reserves e step =
     (case rp_action step of
        SwapAction pool \<Rightarrow>
          (case e of PoolNotFound \<Rightarrow> first_pair reserves pool = None
                   | ReplayTokenNotInPool \<Rightarrow> \<not> trades_in reserves pool (rp_token_in step))
      | _ \<Rightarrow> False)"

lemma float_stage_spec:
  "book_tokens book = first_pair reserves \<Longrightarrow>
   (case float_stage F steps balances book upcoming of
      Inl e \<Rightarrow> list_ex (unserved reserves e) steps
    | Inr (book', _) \<Rightarrow> book_tokens book' = first_pair reserves)"
proof (induction F steps balances book upcoming rule: float_stage.induct)
  case (2 F step steps balances book upcoming)
  let ?amount = "fl_mul F (float_balance F balances (rp_token_in step)) (rp_weight step)"
  show ?case
  proof (cases "fl_le F ?amount (fl_zero F)")
    case True
    then show ?thesis using 2(1) [OF refl True "2.prems"] by (auto split: sum.splits)
  next
    case paid: False
    show ?thesis
    proof (cases "rp_action step")
      case (SwapAction pool)
      have at: "book_tokens book pool = first_pair reserves pool" using "2.prems" by simp
      show ?thesis
      proof (cases "map_of book pool")
        case None
        then show ?thesis using paid SwapAction at by (simp add: book_tokens_def unserved_def Let_def)
      next
        case (Some entry)
        show ?thesis
        proof (cases "book_swap F entry (rp_token_in step) ?amount")
          case (Inl e)
          have "first_pair reserves pool = Some (pb_token0 entry, pb_token1 entry)"
            using at Some by (simp add: book_tokens_def)
          with book_swap_error [OF Inl] paid SwapAction Some Inl show ?thesis
            by (simp add: unserved_def trades_in_def Let_def)
        next
          case (Inr out)
          obtain entry' amount' where out: "out = (entry', amount')" by fastforce
          have "book_tokens (AList.update pool entry' book) = book_tokens book"
            using book_swap_tokens [OF Inr [unfolded out]] Some by (auto simp: book_tokens_def)
          with 2(2) [OF refl paid SwapAction Some Inr [unfolded out] refl] "2.prems" paid SwapAction Some Inr out
          show ?thesis by (auto simp: Let_def split: sum.splits)
        qed
      qed
    qed (use 2 paid in \<open>auto simp: Let_def split: sum.splits\<close>)
  qed
qed simp

lemma float_stages_spec:
  "book_tokens book = first_pair reserves \<Longrightarrow>
   (case float_stages F steps stages balances book of
      Inl e \<Rightarrow> list_ex (unserved reserves e) steps
    | Inr _ \<Rightarrow> True)"
proof (induction F steps stages balances book rule: float_stages.induct)
  case (2 F steps stage stages balances book)
  note spec = float_stage_spec [OF "2.prems", where F = F and steps = "filter (\<lambda>s. rp_stage s = stage) steps" and
      balances = balances and upcoming = "[]"]
  show ?case
  proof (cases "float_stage F (filter (\<lambda>s. rp_stage s = stage) steps) balances book []")
    case (Inl e)
    with spec show ?thesis by (auto simp: list_ex_iff)
  next
    case (Inr r)
    with spec "2.IH" [OF Inr, of "fst r" "snd r"] show ?thesis by (cases r) simp
  qed
qed simp

lemma replay_steps_spec:
  "case replay_steps F steps reserves source_asset output_asset deposit of
     Inl e \<Rightarrow> list_ex (unserved reserves e) steps
   | Inr _ \<Rightarrow> True"
  using float_stages_spec [OF book_tokens_built, where F = F and steps = steps]
  by (auto simp: replay_steps_def Let_def split: sum.splits) (metis old.sum.simps(5))

text \<open>
  C24. Building a plan and replaying it against a snapshot fails only for a flow that the snapshot does
  not serve: a flow through a pool the snapshot lacks, or one that pays a pool in a token that the
  first listed entry of the pool does not trade. Neither merging, pruning nor the mutation of the book
  by earlier swaps adds an error.
\<close>

theorem built_plan_replay_errors:
  "case replay_plan F (build_plan F flows source_asset output_asset entry min_weight bridges) reserves of
     Inr _ \<Rightarrow> True
   | Inl e \<Rightarrow> list_ex (\<lambda>flow. case fr_pool_id flow of
         None \<Rightarrow> False
       | Some pool \<Rightarrow> (case e of
             PoolNotFound \<Rightarrow> find (\<lambda>r. rs_pool_id r = pool) reserves = None
           | ReplayTokenNotInPool \<Rightarrow> \<not> trades_in reserves pool (fr_token_in flow))) flows"
proof -
  let ?plan = "build_plan F flows source_asset output_asset entry min_weight bridges"
  have "list_ex (\<lambda>flow. case fr_pool_id flow of None \<Rightarrow> False
       | Some pool \<Rightarrow> (case e of PoolNotFound \<Rightarrow> find (\<lambda>r. rs_pool_id r = pool) reserves = None
           | ReplayTokenNotInPool \<Rightarrow> \<not> trades_in reserves pool (fr_token_in flow))) flows"
    if "list_ex (unserved reserves e) (map plan_replay_step (ep_steps ?plan))" for e
  proof -
    from that obtain s where un: "s \<in> set (ep_steps ?plan)" "unserved reserves e (plan_replay_step s)"
      by (auto simp: list_ex_iff)
    from un(2) obtain pool where "es_kind s = Swap pool"
      by (cases "es_kind s") (auto simp: unserved_def plan_replay_step_def split: if_splits)
    note s = un this
    then obtain acc where "(step_key s, acc) \<in> set (merge_flows F min_weight bridges flows [])"
      by (auto simp: build_plan_def Let_def plan_step_def step_key_def)
    then have "map_of (merge_flows F min_weight bridges flows []) (step_key s) \<noteq> None"
      by (auto simp: map_of_eq_None_iff rev_image_eqI)
    then obtain flow where "flow \<in> set flows" "flow_key bridges flow = Some (step_key s)"
      by (auto simp: map_of_merge_flows accum_from_None cell_flows_def filter_empty_conv split: if_splits)
    moreover from this(2) s(3) have "fr_pool_id flow = Some pool" "fr_token_in flow = es_token_in s"
      by (auto simp: flow_key_def flow_kind_def step_key_def split: if_splits option.splits)
    ultimately show ?thesis
      using s(2,3) by (auto simp: list_ex_iff unserved_def plan_replay_step_def first_pair_def
          intro!: bexI [of _ flow] split: replay_error.splits)
  qed
  then show ?thesis
    using replay_steps_spec [where F = F and steps = "map plan_replay_step (ep_steps ?plan)" and reserves = reserves and
        source_asset = "ep_source_asset ?plan" and output_asset = "ep_output_asset ?plan" and deposit = "ep_entry_amount ?plan"]
    unfolding replay_plan_def by (auto split: sum.splits)
qed

end
