(* ===== verification/OptimizerLaws.thy ===== *)
theory OptimizerLaws
  imports OptimizerRunner PlanLaws Machines
begin

text \<open>
  The laws of the optimizer's sessions: when a step fails and with which error, and what every session
  that a run reaches guarantees.
\<close>

section \<open>Validation\<close>

lemma routable_reserves_subset: "set (routable_reserves reserves source output bridges) \<subseteq> set reserves"
  by (auto simp: routable_reserves_def Let_def)

lemma admissible_subset: "set (admissible_reserves reserves cfg) \<subseteq> set (whitelisted_reserves reserves (sc_whitelist cfg))"
  unfolding admissible_reserves_def by (rule routable_reserves_subset)

lemma collect_keys_spec:
  "collect_keys reserves keys =
     (if distinct (map reserve_key_of reserves) \<and> reserve_key_of ` set reserves \<inter> keys = {}
      then Inr (keys \<union> reserve_key_of ` set reserves) else Inl DuplicateReserveKey)"
  by (induction reserves keys rule: collect_keys.induct) auto

lemma reserve_keys_spec:
  "reserve_keys reserves =
     (if distinct (map reserve_key_of reserves) then Inr (reserve_key_of ` set reserves) else Inl DuplicateReserveKey)"
  by (simp add: reserve_keys_def collect_keys_spec)

definition covers_route :: "'f pool_reserves list \<Rightarrow> session_config \<Rightarrow> bool" where
  "covers_route reserves cfg \<longleftrightarrow> list_ex (\<lambda>r. rs_token1 r = sc_output_asset cfg) reserves \<and>
     list_ex (\<lambda>r. rs_token0 r = sc_source_asset cfg \<or> rs_token1 r = sc_source_asset cfg) reserves"

lemma reach_covers: "reserves_reach_route reserves cfg = covers_route (admissible_reserves reserves cfg) cfg"
  by (simp add: reserves_reach_route_def covers_route_def Let_def)

lemma validate_spec:
  "case validate_reserve_snapshot F reserves cfg step_config of
     Inr keys \<Rightarrow> covers_route reserves cfg \<and> keys = reserve_key_of ` set reserves \<and> validate_step_config F step_config = None
   | Inl e \<Rightarrow> (case e of
       InvalidInputAmount amount \<Rightarrow> validate_step_config F step_config = Some e
     | DuplicateReserveKey \<Rightarrow> \<not> distinct (map reserve_key_of reserves)
     | ModelInit _ \<Rightarrow> False
     | _ \<Rightarrow> \<not> covers_route reserves cfg)"
  by (auto simp: validate_reserve_snapshot_def validate_step_config_def reserve_keys_spec covers_route_def
      Ball_set [symmetric] Bex_set [symmetric])

section \<open>Steps\<close>

lemma chunk_spec:
  "case run_optimization_chunk F M session step_config status of
     Inl e \<Rightarrow> validate_step_config F step_config = Some e
   | Inr (session', result, plan) \<Rightarrow>
       os_session_config session' = os_session_config session \<and> os_reserve_keys session' = os_reserve_keys session \<and>
       os_disabled_count session' = os_disabled_count session \<and> sr_status result = status \<and>
       sr_reserves_count result = card (os_reserve_keys session) \<and> sr_disabled_count result = os_disabled_count session \<and>
       sr_input_amount result = st_input_amount step_config \<and>
       (case plan of None \<Rightarrow> True | Some p \<Rightarrow> ep_source_asset p = sc_source_asset (os_session_config session) \<and>
          ep_output_asset p = sc_output_asset (os_session_config session) \<and> ep_entry_amount p = st_input_amount step_config)"
  by (auto simp: run_optimization_chunk_def Let_def build_plan_def split: option.splits prod.splits sum.splits)

lemma validate_amount: "validate_step_config F step_config = Some e \<Longrightarrow> e = InvalidInputAmount (st_input_amount step_config)"
  by (auto simp: validate_step_config_def split: if_splits)

lemma chunk_error:
  "run_optimization_chunk F M session step_config status = Inl e \<Longrightarrow> e = InvalidInputAmount (st_input_amount step_config)"
  using chunk_spec [where F = F and M = M and session = session and step_config = step_config and status = status]
  by (auto dest: validate_amount)

lemma select_backend_error: "select_backend selection wgpu = Inl e \<Longrightarrow> e = WgpuUnavailable"
  by (cases selection) (auto split: if_splits)

text \<open>What a step that validates a snapshot returns: the error its checks name, or a session over it.\<close>

definition snapshot_outcome :: "'f float_ops \<Rightarrow> 'f pool_reserves list \<Rightarrow> pool_ref set \<Rightarrow> session_config \<Rightarrow> 'f step_config \<Rightarrow>
    (('m, 'o) optimization_session, 'f, 'f optimization_step_error) step_outcome \<Rightarrow> bool" where
  "snapshot_outcome F reserves disabled cfg step_config outcome =
     (case outcome of
        Inr (session, result, plan) \<Rightarrow> covers_route reserves cfg \<and> os_session_config session = cfg \<and>
          os_reserve_keys session = reserve_key_of ` set reserves \<and>
          sr_reserves_count result = card (reserve_key_of ` set reserves) \<and>
          sr_disabled_count result = effective_disabled_count reserves disabled
      | Inl e \<Rightarrow> (case e of
          InvalidInputAmount amount \<Rightarrow> amount = st_input_amount step_config \<and> validate_step_config F step_config = Some e
        | DuplicateReserveKey \<Rightarrow> \<not> distinct (map reserve_key_of reserves)
        | ModelInit source \<Rightarrow> covers_route reserves cfg
        | _ \<Rightarrow> \<not> covers_route reserves cfg))"

lemma initialize_outcome:
  "snapshot_outcome F reserves disabled cfg step_config
     (initialize_session_with_status F M reserves cfg step_config status disabled)"
proof (cases "validate_reserve_snapshot F reserves cfg step_config")
  case (Inl e)
  with validate_spec [where F = F and reserves = reserves and cfg = cfg and step_config = step_config] show ?thesis
    by (cases e) (auto simp: initialize_session_with_status_def snapshot_outcome_def dest: validate_amount)
next
  case (Inr keys)
  with validate_spec [where F = F and reserves = reserves and cfg = cfg and step_config = step_config] have ok: "covers_route reserves cfg" "keys = reserve_key_of ` set reserves"
    "validate_step_config F step_config = None" by auto
  show ?thesis
  proof (cases "mo_init_route M (sc_source_asset cfg) (sc_output_asset cfg) reserves (sc_bridges cfg) disabled")
    case (Inl e)
    with Inr ok show ?thesis by (simp add: initialize_session_with_status_def snapshot_outcome_def)
  next
    case (Inr model)
    let ?session = "\<lparr>os_model = model, os_optimizer = mo_init_optimizer M, os_session_config = cfg, os_reserve_keys = keys,
        os_disabled_count = effective_disabled_count reserves disabled\<rparr>"
    have "initialize_session_with_status F M reserves cfg step_config status disabled =
        run_optimization_chunk F M ?session step_config status"
      using Inr \<open>validate_reserve_snapshot F reserves cfg step_config = Inr keys\<close> by (simp add: initialize_session_with_status_def)
    with chunk_spec [where F = F and M = M and session = ?session and step_config = step_config and status = status] ok show ?thesis
      by (auto simp: snapshot_outcome_def split: sum.splits)
  qed
qed

lemma with_reserves_outcome:
  "snapshot_outcome F (admissible_reserves snapshot (os_session_config session)) disabled (os_session_config session) step_config
     (run_step_with_reserves F M session snapshot disabled step_config)"
proof -
  let ?cfg = "os_session_config session"
  let ?reserves = "admissible_reserves snapshot ?cfg"
  show ?thesis
  proof (cases "validate_reserve_snapshot F ?reserves ?cfg step_config")
    case (Inl e)
    with validate_spec [where F = F and reserves = ?reserves and cfg = ?cfg and step_config = step_config] show ?thesis
      by (cases e) (auto simp: run_step_with_reserves_def snapshot_outcome_def Let_def dest: validate_amount)
  next
    case (Inr keys)
    with validate_spec [where F = F and reserves = ?reserves and cfg = ?cfg and step_config = step_config] have ok: "covers_route ?reserves ?cfg" "keys = reserve_key_of ` set ?reserves"
      "validate_step_config F step_config = None" by auto
    have chunk: "snapshot_outcome F ?reserves disabled ?cfg step_config (run_optimization_chunk F M s step_config status)"
      if "os_session_config s = ?cfg" "os_reserve_keys s = keys" "os_disabled_count s = effective_disabled_count ?reserves disabled"
      for s status
      using chunk_spec [where F = F and M = M and session = s and step_config = step_config and status = status] that ok by (auto simp: snapshot_outcome_def split: sum.splits)
    show ?thesis
      using Inr chunk initialize_outcome [where F = F and reserves = ?reserves and disabled = disabled and cfg = ?cfg and step_config = step_config and M = M and status = Reinitialized]
      by (auto simp: run_step_with_reserves_def Let_def split: sum.split reconcile_outcome.split)
  qed
qed

lemma step_outcomes:
  "case run_optimization_step F M session update step_config of
     Inr (session', _, _) \<Rightarrow> os_session_config session' = os_session_config session \<and>
       (case update of
          NewReserves snapshot _ \<Rightarrow> reserves_reach_route snapshot (os_session_config session) \<and>
            os_reserve_keys session' = reserve_key_of ` set (admissible_reserves snapshot (os_session_config session))
        | Continue \<Rightarrow> os_reserve_keys session' = os_reserve_keys session)
   | Inl e \<Rightarrow> (case update of
       Continue \<Rightarrow> validate_step_config F step_config = Some e
     | NewReserves snapshot _ \<Rightarrow>
         (case e of
            InvalidInputAmount amount \<Rightarrow> amount = st_input_amount step_config \<and> validate_step_config F step_config = Some e
          | DuplicateReserveKey \<Rightarrow> \<not> distinct (map reserve_key_of (admissible_reserves snapshot (os_session_config session)))
          | ModelInit _ \<Rightarrow> reserves_reach_route snapshot (os_session_config session)
          | _ \<Rightarrow> \<not> reserves_reach_route snapshot (os_session_config session)))"
proof (cases update)
  case Continue
  then show ?thesis using chunk_spec [where F = F and M = M and session = session and step_config = step_config and status = Continued] by (auto split: sum.splits)
next
  case (NewReserves snapshot disabled)
  then show ?thesis
    using with_reserves_outcome [where F = F and snapshot = snapshot and session = session and disabled = disabled and step_config = step_config and M = M]
    by (auto simp: snapshot_outcome_def reach_covers split: sum.splits optimization_step_error.splits)
qed

lemma validate_cases:
  "validate_reserve_snapshot F reserves cfg step_config =
     (if \<not> fl_finite F (st_input_amount step_config) \<or> fl_le F (st_input_amount step_config) (fl_zero F)
      then Inl (InvalidInputAmount (st_input_amount step_config))
      else if reserves = [] then Inl EmptyReserves
      else if \<not> distinct (map reserve_key_of reserves) then Inl DuplicateReserveKey
      else if sc_output_asset cfg \<notin> rs_token1 ` set reserves then Inl OutputAssetNotFound
      else if sc_source_asset cfg \<notin> rs_token0 ` set reserves \<union> rs_token1 ` set reserves then Inl SourceAssetNotFound
      else Inr (reserve_key_of ` set reserves))"
proof -
  have ends: "list_all (\<lambda>r. rs_token1 r \<noteq> out) reserves \<longleftrightarrow> out \<notin> rs_token1 ` set reserves"
    "list_all (\<lambda>r. rs_token0 r \<noteq> source \<and> rs_token1 r \<noteq> source) reserves \<longleftrightarrow>
       source \<notin> rs_token0 ` set reserves \<union> rs_token1 ` set reserves" for source out
    by (auto simp: list_all_iff)
  show ?thesis by (simp add: validate_reserve_snapshot_def validate_step_config_def reserve_keys_spec ends)
qed

lemma chunk_status:
  "validate_step_config F step_config = None \<Longrightarrow>
   case run_optimization_chunk F M session step_config status of
     Inl _ \<Rightarrow> False
   | Inr (session', result, _) \<Rightarrow>
       os_session_config session' = os_session_config session \<and> os_reserve_keys session' = os_reserve_keys session \<and>
       sr_status result = status \<and> sr_reserves_count result = card (os_reserve_keys session) \<and>
       sr_disabled_count result = os_disabled_count session"
  by (auto simp: run_optimization_chunk_def Let_def split: option.splits prod.splits sum.splits)

text \<open>What a step over a snapshot that passed every check returns: a session over it, or the model's own error.\<close>

definition accepted_outcome :: "('m, 'o, 'f) model_ops \<Rightarrow> ('m, 'o) optimization_session \<Rightarrow> 'f pool_reserves list \<Rightarrow> pool_ref set \<Rightarrow>
    (('m, 'o) optimization_session, 'f, 'f optimization_step_error) step_outcome \<Rightarrow> bool" where
  "accepted_outcome M session reserves disabled outcome =
     (let cfg = os_session_config session;
          reconciled = mo_reconcile M (os_model session) reserves (sc_bridges cfg) disabled;
          rebuilt = mo_init_route M (sc_source_asset cfg) (sc_output_asset cfg) reserves (sc_bridges cfg) disabled
      in case outcome of
           Inl e \<Rightarrow> \<exists>failure source. reconciled = Inl failure \<and> rebuilt = Inl source \<and> e = ModelInit source
         | Inr (session', result, _) \<Rightarrow>
             os_session_config session' = cfg \<and> os_reserve_keys session' = reserve_key_of ` set reserves \<and>
             sr_reserves_count result = length reserves \<and> sr_disabled_count result = effective_disabled_count reserves disabled \<and>
             (case reconciled of
                Inr (_, Refreshed) \<Rightarrow> sr_status result = Updated
              | Inr (_, Grew) \<Rightarrow> sr_status result = Extended
              | Inl _ \<Rightarrow> sr_status result = Reinitialized \<and> (\<exists>model. rebuilt = Inr model)))"

lemma accepted_step:
  assumes valid: "validate_reserve_snapshot F reserves (os_session_config session) step_config = Inr keys"
    and reserves: "reserves = admissible_reserves snapshot (os_session_config session)"
  shows "accepted_outcome M session reserves disabled (run_optimization_step F M session (NewReserves snapshot disabled) step_config)"
proof -
  let ?cfg = "os_session_config session"
  from valid have ok: "validate_step_config F step_config = None" "keys = reserve_key_of ` set reserves"
    and "distinct (map reserve_key_of reserves)"
    by (auto simp: validate_cases validate_step_config_def split: if_splits)
  then have size: "card keys = length reserves" by (metis distinct_card length_map set_map)
  note chunk = chunk_status [where F = F and M = M, OF ok(1)]
  show ?thesis
  proof (cases "mo_reconcile M (os_model session) reserves (sc_bridges ?cfg) disabled")
    case (Inr out)
    then show ?thesis
      using valid reserves ok size chunk
      by (cases out; cases "snd out")
        (fastforce simp: run_step_with_reserves_def accepted_outcome_def Let_def split: sum.splits)+
  next
    case (Inl failure)
    then show ?thesis
      using valid reserves ok size chunk
      by (fastforce simp: run_step_with_reserves_def initialize_session_with_status_def accepted_outcome_def Let_def split: sum.splits)
  qed
qed

text \<open>
  C20. The steps of a runner fail exactly where they say, and in the order of their checks. An amount that
  is not finite and positive is refused by every step, whatever else is wrong, and nothing else ever
  stops a continuation. A snapshot is refused as empty exactly when nothing of it is admissible, as a
  duplicate exactly when two admissible reserves share a key, and with the gap of the output or of
  the source exactly when no admissible reserve pays out the one or trades the other. A snapshot
  that passes all five is only refused with the model's own error, when the model could neither be reconciled
  nor rebuilt over it; otherwise the session holds the keys of exactly its admissible reserves.
\<close>

theorem step_errors_exact:
  "let cfg = os_session_config session; amount = st_input_amount step_config;
       outcome = run_optimization_step F M session update step_config
   in if fl_finite F amount \<and> \<not> fl_le F amount (fl_zero F) then
        (case update of
           Continue \<Rightarrow> (case outcome of
               Inl _ \<Rightarrow> False
             | Inr (session', result, _) \<Rightarrow> os_session_config session' = cfg \<and> os_reserve_keys session' = os_reserve_keys session \<and>
                 sr_status result = Continued)
         | NewReserves snapshot disabled \<Rightarrow>
             (let reserves = admissible_reserves snapshot cfg
              in if reserves = [] then outcome = Inl EmptyReserves
                 else if \<not> distinct (map reserve_key_of reserves) then outcome = Inl DuplicateReserveKey
                 else if sc_output_asset cfg \<notin> rs_token1 ` set reserves then outcome = Inl OutputAssetNotFound
                 else if sc_source_asset cfg \<notin> rs_token0 ` set reserves \<union> rs_token1 ` set reserves then outcome = Inl SourceAssetNotFound
                 else accepted_outcome M session reserves disabled outcome))
      else outcome = Inl (InvalidInputAmount amount)"
proof (cases "fl_finite F (st_input_amount step_config) \<and> \<not> fl_le F (st_input_amount step_config) (fl_zero F)")
  case False
  then have "validate_step_config F step_config = Some (InvalidInputAmount (st_input_amount step_config))"
    by (auto simp: validate_step_config_def)
  moreover have "run_optimization_step F M session update step_config = Inl (InvalidInputAmount (st_input_amount step_config))"
    using calculation by (cases update) (simp_all add: Let_def run_optimization_chunk_def run_step_with_reserves_def validate_reserve_snapshot_def)
  ultimately show ?thesis using False by (simp only: Let_def if_False)
next
  case True
  then have "validate_step_config F step_config = None" by (simp add: validate_step_config_def)
  note chunk = chunk_status [where F = F and M = M and session = session and status = Continued, OF this]
  show ?thesis
  proof (cases update)
    case Continue
    with True chunk show ?thesis by (auto simp: Let_def split: sum.splits)
  next
    case (NewReserves snapshot disabled)
    note step = accepted_step [where F = F and M = M and session = session and step_config = step_config
        and snapshot = snapshot and disabled = disabled, OF _ refl]
    show ?thesis
    proof (cases "validate_reserve_snapshot F (admissible_reserves snapshot (os_session_config session)) (os_session_config session) step_config")
      case (Inl e)
      with True NewReserves show ?thesis
        by (simp add: Let_def run_step_with_reserves_def validate_cases split: if_splits)
    next
      case (Inr keys)
      with True NewReserves step [OF Inr] show ?thesis by (auto simp: Let_def validate_cases split: if_splits)
    qed
  qed
qed

section \<open>Runs\<close>

definition session_covers :: "('m, 'o) optimization_session \<Rightarrow> bool" where
  "session_covers s \<longleftrightarrow> finite (os_reserve_keys s) \<and>
     (\<exists>k\<in>os_reserve_keys s. rk_token1 k = sc_output_asset (os_session_config s)) \<and>
     (\<exists>k\<in>os_reserve_keys s. rk_token0 k = sc_source_asset (os_session_config s) \<or> rk_token1 k = sc_source_asset (os_session_config s)) \<and>
     (case sc_whitelist (os_session_config s) of
        None \<Rightarrow> True
      | Some allowed \<Rightarrow> \<forall>k\<in>os_reserve_keys s. rk_token0 k \<in> allowed \<and> rk_token1 k \<in> allowed)"

lemma session_covers_snapshot:
  assumes "covers_route (admissible_reserves snapshot cfg) cfg" "os_session_config s = cfg"
    "os_reserve_keys s = reserve_key_of ` set (admissible_reserves snapshot cfg)"
  shows "session_covers s"
proof -
  have "rs_token0 r \<in> allowed \<and> rs_token1 r \<in> allowed"
    if "r \<in> set (admissible_reserves snapshot cfg)" "sc_whitelist cfg = Some allowed" for r allowed
    using that admissible_subset [of snapshot cfg] by (auto simp: whitelisted_reserves_def)
  then show ?thesis
    using assms by (auto simp: session_covers_def covers_route_def list_ex_iff reserve_key_of_def split: option.split)
qed

text \<open>A driver of a runner: a failed step consumes the runner, so nothing is left to step.\<close>

definition drive_runner :: "'f float_ops \<Rightarrow> (optimization_backend_used \<Rightarrow> ('m, 'o, 'f) model_ops) \<Rightarrow>
    ('m, 'o, 'f) optimization_runner option \<Rightarrow> 'f step_update \<Rightarrow>
    ('m, 'o, 'f) optimization_runner option \<times> 'f optimization_step_result list" where
  "drive_runner F M state update =
     (case state of
        None \<Rightarrow> (None, [])
      | Some runner \<Rightarrow> (case runner_run F M runner update of
          Inl _ \<Rightarrow> (None, [])
        | Inr (runner', result, _) \<Rightarrow> (Some runner', [result])))"

definition runner_ok :: "session_config \<Rightarrow> 'f step_config \<Rightarrow> ('m, 'o, 'f) optimization_runner option \<Rightarrow> bool" where
  "runner_ok cfg step_config state =
     (case state of
        None \<Rightarrow> True
      | Some runner \<Rightarrow> session_covers (or_session runner) \<and> os_session_config (or_session runner) = cfg \<and>
          or_step_config runner = step_config)"

lemma runner_ok_init:
  "runner_init F M wgpu selection reserves cfg step_config = Inr (runner, result, plan) \<Longrightarrow>
   runner_ok cfg step_config (Some runner)"
  using initialize_outcome [where F = F and reserves = "admissible_reserves reserves cfg" and disabled = "{}" and cfg = cfg and
      step_config = step_config and M = "M (or_backend runner)" and status = Initialized]
  by (auto simp: runner_init_def wrap_runner_def runner_ok_def initialize_session_def snapshot_outcome_def
      intro!: session_covers_snapshot split: sum.splits)

lemma runner_ok_run: "runner_ok cfg step_config s \<Longrightarrow> runner_ok cfg step_config (fst (drive_runner F M s update))"
proof (cases s)
  case (Some runner)
  assume ok: "runner_ok cfg step_config s"
  show ?thesis
  proof (cases "run_optimization_step F (M (or_backend runner)) (or_session runner) update (or_step_config runner)")
    case (Inl e)
    with Some show ?thesis by (simp add: drive_runner_def runner_run_def wrap_runner_def runner_ok_def)
  next
    case (Inr out)
    obtain session' result plan where out: "out = (session', result, plan)" by (cases out)
    note step = step_outcomes [where F = F and M = "M (or_backend runner)" and session = "or_session runner" and update = update and
        step_config = "or_step_config runner"]
    have "session_covers session'"
    proof (cases update)
      case Continue
      with step Inr out have "os_session_config session' = os_session_config (or_session runner)"
        "os_reserve_keys session' = os_reserve_keys (or_session runner)" by simp_all
      then show ?thesis using ok Some by (auto simp: runner_ok_def session_covers_def split: option.splits)
    next
      case (NewReserves snapshot disabled)
      with step Inr out show ?thesis by (intro session_covers_snapshot) (auto simp: reach_covers)
    qed
    with ok Some Inr out step_outcomes [where F = F and M = "M (or_backend runner)" and session = "or_session runner" and update = update and
        step_config = "or_step_config runner"]
    show ?thesis by (auto simp: drive_runner_def runner_run_def wrap_runner_def runner_ok_def)
  qed
qed (simp add: drive_runner_def runner_ok_def)

interpretation opt: state_machine
  "\<lambda>s. s = None \<or> (\<exists>selection wgpu reserves result plan. runner_init F M wgpu selection reserves cfg step_config = Inr (the s, result, plan))"
  "drive_runner F M" "\<lambda>_. True" "runner_ok cfg step_config" for F M cfg step_config
proof
  fix s :: "('a, 'b, 'c) optimization_runner option"
  assume "s = None \<or> (\<exists>selection wgpu reserves result plan. runner_init F M wgpu selection reserves cfg step_config = Inr (the s, result, plan))"
  then show "runner_ok cfg step_config s" using runner_ok_init [of F M] by (cases s) (auto simp: runner_ok_def)
qed (rule runner_ok_run)

text \<open>
  C21. Every session a runner can reach is well formed: however many snapshots and continuations follow
  its initialization, it keeps the configuration it was started with, its keys cover both ends of the
  route, and none of them touches a token outside the whitelist.
\<close>

theorem reachable_sessions_cover_route:
  "case runner_init F M wgpu selection reserves cfg step_config of
     Inl _ \<Rightarrow> True
   | Inr (runner, _, _) \<Rightarrow> runner_ok cfg step_config (opt.run F M (Some runner) updates)"
proof (cases "runner_init F M wgpu selection reserves cfg step_config")
  case (Inr out)
  obtain runner result plan where out: "out = (runner, result, plan)" by (cases out)
  have "runner_ok cfg step_config (opt.run F M (Some runner) updates)"
    using Inr out by (intro opt.run_inv [OF runner_ok_init]) (auto simp: list_all_iff)
  with Inr out show ?thesis by simp
qed simp

end
