(* ===== verification/ClientLaws.thy ===== *)
theory ClientLaws
  imports ClientCore OptimizerLaws
begin

text \<open>
  The laws of the client engine: the catalog splits the server's entries into those it requests and
  those it excludes with a reason, the ledger answers only the latest fetch of a kind, reserves are
  pushed only when they reach the session's route, and a late step can be shown for another route.
\<close>

section \<open>The catalog\<close>

definition entry_fault :: "wire_ops \<Rightarrow> chain_key \<Rightarrow> (address, token_decimals) hmap \<Rightarrow> pool_meta_entry \<Rightarrow> catalog_fault option" where
  "entry_fault W chain decimals entry =
     (case resolve_entry W chain entry of
        Inl fault \<Rightarrow> Some (CatalogHexParse (hf_field fault) (hf_value fault))
      | Inr (pool, token0, token1) \<Rightarrow>
          if map_of decimals token0 = None then Some (MissingDecimals pool token0)
          else if map_of decimals token1 = None then Some (MissingDecimals pool token1)
          else None)"

lemma resolve_entry_key: "resolve_entry W chain entry = Inr (pool, token0, token1) \<Longrightarrow> pool_ref_of W (me_key entry) chain = Inr pool"
  by (auto simp: resolve_entry_def split: sum.splits)

text \<open>One entry: it is excluded with its fault, or requested and projected under the pool its key names.\<close>

lemma entry_cases:
  obtains (fault) f where "entry_fault W chain decimals entry = Some f"
      "parse_entries W chain decimals (entry # entries) c =
         parse_entries W chain decimals entries (c\<lparr>ct_excluded := ct_excluded c @ [f]\<rparr>)"
    | (projected) pool e where "entry_fault W chain decimals entry = None" "pool_ref_of W (me_key entry) chain = Inr pool"
      "parse_entries W chain decimals (entry # entries) c =
         parse_entries W chain decimals entries
           (c\<lparr>ct_pools := AList.update pool e (ct_pools c), ct_request := ct_request c @ [me_key entry]\<rparr>)"
proof (cases "resolve_entry W chain entry")
  case (Inl f)
  then show ?thesis by (intro fault) (simp_all add: entry_fault_def)
next
  case (Inr r)
  obtain pool token0 token1 where r: "r = (pool, token0, token1)" by (cases r)
  note Inr = Inr [unfolded r]
  show ?thesis
  proof (cases "map_of decimals token0")
    case None
    with Inr show ?thesis by (intro fault) (simp_all add: entry_fault_def hm_contains_def)
  next
    case d0: (Some d0)
    show ?thesis
    proof (cases "map_of decimals token1")
      case None
      with Inr d0 show ?thesis by (intro fault) (simp_all add: entry_fault_def hm_contains_def)
    next
      case (Some d1)
      with Inr d0 show ?thesis by (intro projected [OF _ resolve_entry_key]) (simp_all add: entry_fault_def)
    qed
  qed
qed

lemma parse_entries_spec:
  "ct_chain (parse_entries W chain decimals entries c) = ct_chain c"
  "ct_request (parse_entries W chain decimals entries c) =
     ct_request c @ map me_key (filter (\<lambda>e. entry_fault W chain decimals e = None) entries)"
  "ct_excluded (parse_entries W chain decimals entries c) =
     ct_excluded c @ map (\<lambda>e. the (entry_fault W chain decimals e)) (filter (\<lambda>e. entry_fault W chain decimals e \<noteq> None) entries)"
proof (induction entries arbitrary: c)
  case (Cons entry entries)
  {
    case 1 show ?case by (rule entry_cases [of W chain decimals entry entries c]) (simp_all add: Cons)
  next
    case 2 show ?case by (rule entry_cases [of W chain decimals entry entries c]) (simp_all add: Cons)
  next
    case 3 show ?case by (rule entry_cases [of W chain decimals entry entries c]) (simp_all add: Cons)
  }
qed simp_all

lemma parse_entries_pools:
  "Inr ` fst ` set (ct_pools (parse_entries W chain decimals entries c)) = Inr ` fst ` set (ct_pools c) \<union>
     (\<lambda>e. pool_ref_of W (me_key e) chain) ` set (filter (\<lambda>e. entry_fault W chain decimals e = None) entries)"
proof (induction entries arbitrary: c)
  case (Cons entry entries)
  show ?case
  proof (rule entry_cases [of W chain decimals entry entries c])
    fix f
    assume "entry_fault W chain decimals entry = Some f"
      "parse_entries W chain decimals (entry # entries) c = parse_entries W chain decimals entries (c\<lparr>ct_excluded := ct_excluded c @ [f]\<rparr>)"
    then show ?thesis by (simp add: Cons)
  next
    fix pool e
    assume "entry_fault W chain decimals entry = None" "pool_ref_of W (me_key entry) chain = Inr pool"
      "parse_entries W chain decimals (entry # entries) c = parse_entries W chain decimals entries
         (c\<lparr>ct_pools := AList.update pool e (ct_pools c), ct_request := ct_request c @ [me_key entry]\<rparr>)"
    moreover have "fst ` set (AList.update pool e (ct_pools c)) = insert pool (fst ` set (ct_pools c))"
      by (simp add: dom_update)
    ultimately show ?thesis by (simp add: Cons)
  qed
qed simp

text \<open>
  Parsing a catalog loses no entry and admits none it cannot project: the request holds the keys of
  exactly the entries without a fault, in their order; every other entry is excluded with its own
  fault; and the pools the client can project are exactly those the requested keys name.
\<close>

lemma catalog_partition:
  "let c = parse_catalog W meta chain;
       fault = entry_fault W chain (catalog_decimals W (mr_tokens meta))
   in ct_request c = map me_key (filter (\<lambda>e. fault e = None) (mr_pools meta)) \<and>
      ct_excluded c = map (\<lambda>e. the (fault e)) (filter (\<lambda>e. fault e \<noteq> None) (mr_pools meta)) \<and>
      length (ct_request c) + length (ct_excluded c) = length (mr_pools meta) \<and>
      Inr ` fst ` set (ct_pools c) = (\<lambda>q. pool_ref_of W q chain) ` set (ct_request c)"
  using sum_length_filter_compl [of "\<lambda>e. entry_fault W chain (catalog_decimals W (mr_tokens meta)) e = None" "mr_pools meta"]
  unfolding parse_catalog_def Let_def parse_entries_spec parse_entries_pools by (simp add: image_image)

section \<open>The session's invariant\<close>

text \<open>
  The wire carries no chain, so the session's chain must be stamped on everything: the route, the
  catalog. A slice is only in flight once a catalog is held, and once it is held no catalog fetch is in
  flight any more, so a held catalog is never replaced.
\<close>

definition client_ok :: "chain_key \<Rightarrow> 'f app_state \<Rightarrow> bool" where
  "client_ok chain s \<longleftrightarrow>
     cc_chain (as_config s) = chain \<and>
     ta_chain (sc_source_asset (cc_optimization (as_config s))) = chain \<and>
     ta_chain (sc_output_asset (cc_optimization (as_config s))) = chain \<and>
     (case as_session s of
        NoCatalog \<Rightarrow> pf_slice (as_pending s) = None
      | SessionReady catalog _ \<Rightarrow> pf_meta (as_pending s) = None \<and> ct_chain catalog = chain)"

definition client_start :: "chain_key \<Rightarrow> 'f app_state \<Rightarrow> bool" where
  "client_start chain s \<longleftrightarrow> (\<exists>config. s = app_started config \<and> cc_chain config = chain \<and>
     ta_chain (sc_source_asset (cc_optimization config)) = chain \<and> ta_chain (sc_output_asset (cc_optimization config)) = chain)"

lemma client_ok_start: "client_start chain s \<Longrightarrow> client_ok chain s"
  by (auto simp: client_start_def client_ok_def app_started_def fetches_new_def)

lemmas ledger_defs = with_slot_def ensure_fetch_def fetch_is_fresh_def fetches_advance_def

lemma parse_catalog_chain: "ct_chain (parse_catalog W meta chain) = chain"
  by (simp add: parse_catalog_def parse_entries_spec)

text \<open>An accepted answer frees its slot and runs its handler; any other leaves the state alone.\<close>

definition in_flight :: "fetch_kind \<Rightarrow> u64 \<Rightarrow> 'f app_state \<Rightarrow> bool" where
  "in_flight kind rid s = (case fetch_slot_of kind (as_pending s) of Some slot \<Rightarrow> ft_id slot = rid | None \<Rightarrow> False)"

definition answered :: "fetch_kind \<Rightarrow> 'f app_state \<Rightarrow> 'f app_state" where
  "answered kind s = s\<lparr>as_pending := set_fetch_slot kind None (as_pending s)\<rparr>"

lemma with_accepted_if: "with_accepted kind rid k s = (if in_flight kind rid s then k (answered kind s) else (s, []))"
  by (cases "fetch_slot_of kind (as_pending s)") (simp_all add: with_accepted_def accept_fetch_def in_flight_def answered_def)

lemma answered_ok: "client_ok chain s \<Longrightarrow> client_ok chain (answered kind s)"
  by (cases kind) (auto simp: client_ok_def answered_def split: client_session.splits)

lemma client_ok_reports:
  "client_ok chain (s\<lparr>as_health := h\<rparr>) = client_ok chain s" "client_ok chain (s\<lparr>as_last_error := f\<rparr>) = client_ok chain s"
  by (auto simp: client_ok_def split: client_session.splits)

lemma client_ok_meta: "client_ok chain s \<Longrightarrow> pf_meta (as_pending s) = None \<Longrightarrow> client_ok chain (fst (on_meta C response s))"
  by (auto simp: client_ok_def on_meta_def Let_def ledger_defs parse_catalog_chain split: client_session.splits)

lemma client_ok_slice: "client_ok chain s \<Longrightarrow> client_ok chain (fst (on_slice C response s))"
  by (auto simp: client_ok_def on_slice_def split: client_session.splits sum.splits work.splits)

lemma client_ok_tick: "client_ok chain s \<Longrightarrow> client_ok chain (fst (on_tick s))"
  by (auto simp: client_ok_def on_tick_def Let_def held_catalog_def ledger_defs split: client_session.splits)

lemma client_ok_step: "client_ok chain s \<Longrightarrow> client_ok chain (fst (client_transition C s e))"
proof (cases e)
  assume ok: "client_ok chain s"
  {
    case ClientTick
    with ok show ?thesis by (simp add: client_ok_tick)
  next
    case (MetaFetched rid response)
    moreover have "pf_meta (as_pending (answered MetaKind s)) = None" by (simp add: answered_def)
    ultimately show ?thesis using ok by (simp add: with_accepted_if client_ok_meta answered_ok)
  next
    case (SliceFetched rid response)
    with ok show ?thesis by (simp add: with_accepted_if client_ok_slice answered_ok)
  next
    case (HealthFetched rid response)
    with ok answered_ok [OF ok, of HealthKind] show ?thesis by (simp add: with_accepted_if client_ok_reports)
  next
    case (FetchFailed rid kind message)
    with ok answered_ok [OF ok, of kind] show ?thesis by (simp add: with_accepted_if client_ok_reports)
  next
    case (OptimizerStepped result plan)
    with ok show ?thesis by (auto simp: client_ok_def on_step_def split: client_session.splits work.splits)
  next
    case (EffectFailed fault)
    with ok show ?thesis by (simp add: client_ok_reports)
  next
    case (SetRoute r)
    with ok show ?thesis by (auto simp: client_ok_def on_set_route_def Let_def split: client_session.splits)
  }
qed

interpretation client: state_machine "client_start chain" "client_transition C" "\<lambda>_. True" "client_ok chain" for chain C
  by unfold_locales (rule client_ok_start, assumption, rule client_ok_step)

section \<open>Pushed reserves\<close>

lemma pushed_reserves:
  "list_all (\<lambda>eff. case eff of
       PushReserves reserves cfg \<Rightarrow> reserves \<noteq> [] \<and> reserves_reach_route reserves cfg \<and> cfg = cc_optimization (as_config s)
     | _ \<Rightarrow> True) (snd (client_transition C s e))"
proof (cases e)
  case (MetaFetched rid response)
  then show ?thesis by (simp add: with_accepted_if on_meta_def Let_def with_slot_def split: option.split prod.split)
next
  case (SliceFetched rid response)
  have cfg: "as_config (answered SliceKind s) = as_config s" by (simp add: answered_def)
  from SliceFetched show ?thesis
    by (auto simp: with_accepted_if on_slice_def is_productive_def cfg split: client_session.split sum.split work.split)
next
  case ClientTick
  then show ?thesis by (simp add: on_tick_def Let_def split: option.split prod.split)
qed (simp_all add: with_accepted_if)

definition init_possible :: "'f optimization_init_error \<Rightarrow> bool" where
  "init_possible e =
     (case e of
        WgpuUnavailable \<Rightarrow> True
      | InitStep f \<Rightarrow> (case f of EmptyReserves \<Rightarrow> False | OutputAssetNotFound \<Rightarrow> False | SourceAssetNotFound \<Rightarrow> False | _ \<Rightarrow> True))"

lemma reaching_init:
  fixes e :: "'f optimization_init_error"
  assumes reach: "reserves_reach_route reserves cfg"
    and init: "runner_init F M wgpu selection reserves cfg step_config = Inl e"
  shows "init_possible e"
proof (cases "select_backend selection wgpu :: 'f optimization_init_error + optimization_backend_used")
  case (Inl f)
  then have "e = f" using init by (simp add: runner_init_def)
  with select_backend_error [OF Inl] show ?thesis by (simp add: init_possible_def)
next
  case (Inr backend)
  let ?out = "initialize_session_with_status F (M backend) (admissible_reserves reserves cfg) cfg step_config Initialized {}"
  obtain f where f: "?out = Inl f" "e = InitStep f"
    using init Inr by (cases ?out) (auto simp: runner_init_def wrap_runner_def initialize_session_def)
  have "snapshot_outcome F (admissible_reserves reserves cfg) {} cfg step_config ?out" by (rule initialize_outcome)
  then show ?thesis using f reach by (cases f) (simp_all add: snapshot_outcome_def reach_covers init_possible_def)
qed

lemma run_error_possible:
  assumes "runner_run F M runner update = Inl e"
    and "case update of NewReserves reserves _ \<Rightarrow> reserves_reach_route reserves (os_session_config (or_session runner)) | Continue \<Rightarrow> True"
  shows "init_possible (InitStep e)"
proof -
  have "run_optimization_step F (M (or_backend runner)) (or_session runner) update (or_step_config runner) = Inl e"
    using assms(1) by (auto simp: runner_run_def wrap_runner_def split: sum.splits)
  then show ?thesis
    using assms(2) step_outcomes [where F = F and M = "M (or_backend runner)" and session = "or_session runner"
        and update = update and step_config = "or_step_config runner"]
    by (cases e) (auto simp: init_possible_def split: step_update.splits dest: validate_amount)
qed

text \<open>
  C14. Whatever the server answers and whatever routes the user picks, reserves that the session hands to
  the optimizer reach the route they carry, which lies on the session's chain, and the optimizer
  never refuses them for an empty snapshot or a missing end of the route.
\<close>

theorem pushed_reserves_initialize:
  "list_all (\<lambda>eff. case eff of
       PushReserves reserves cfg \<Rightarrow>
         ta_chain (sc_source_asset cfg) = CLIENT_CHAIN \<and> ta_chain (sc_output_asset cfg) = CLIENT_CHAIN \<and>
         reserves \<noteq> [] \<and> reserves_reach_route reserves cfg \<and>
         (case runner_init F M wgpu selection reserves cfg step_config of Inl e \<Rightarrow> init_possible e | Inr _ \<Rightarrow> True)
     | _ \<Rightarrow> True) (client.trace C (fst (client_init C step_cfg asset)) es)"
proof (rule client.trace_all)
  show "client_ok CLIENT_CHAIN (fst (client_init C step_cfg asset))"
    unfolding client_init_def
    by (rule client_ok_step, rule client_ok_start) (intro client_start_def [THEN iffD2] exI conjI, rule refl, simp_all add: session_config_for_def route_arbitrage_def)
next
  fix s :: "'a app_state" and e
  assume ok: "client_ok CLIENT_CHAIN s"
  from pushed_reserves [of s C e] show "list_all (\<lambda>eff. case eff of
       PushReserves reserves cfg \<Rightarrow>
         ta_chain (sc_source_asset cfg) = CLIENT_CHAIN \<and> ta_chain (sc_output_asset cfg) = CLIENT_CHAIN \<and>
         reserves \<noteq> [] \<and> reserves_reach_route reserves cfg \<and>
         (case runner_init F M wgpu selection reserves cfg step_config of Inl e \<Rightarrow> init_possible e | Inr _ \<Rightarrow> True)
     | _ \<Rightarrow> True) (snd (client_transition C s e))"
    using ok by (auto simp: list_all_iff client_ok_def dest: reaching_init split: client_effect.splits sum.splits)
qed (simp add: list_all_iff)

section \<open>The ledger of fetches\<close>

fun fetch_of :: "'f client_effect \<Rightarrow> (fetch_kind \<times> u64) option" where
  "fetch_of (FetchMeta rid) = Some (MetaKind, rid)"
| "fetch_of (FetchHealth rid) = Some (HealthKind, rid)"
| "fetch_of (FetchSlice rid _) = Some (SliceKind, rid)"
| "fetch_of (PushReserves _ _) = None"

definition fetches_of :: "'f client_effect list \<Rightarrow> (fetch_kind \<times> u64) list" where
  "fetches_of effs = List.map_filter fetch_of effs"

lemma fetches_of_simps [simp]:
  "fetches_of [] = []"
  "fetches_of (eff # effs) = (case fetch_of eff of None \<Rightarrow> [] | Some x \<Rightarrow> [x]) @ fetches_of effs"
  "fetches_of (effs @ effs') = fetches_of effs @ fetches_of effs'"
  by (auto simp: fetches_of_def List.map_filter_def split: option.split)

text \<open>What an event's effects do to the ledger: ids are handed out in order, and a slot holds the id of
  the last fetch of its kind unless it was emptied.\<close>

definition ledger_moves :: "pending_fetches \<Rightarrow> (fetch_kind \<times> u64) list \<Rightarrow> pending_fetches \<Rightarrow> bool" where
  "ledger_moves p issued p' \<longleftrightarrow> length issued \<le> 2 \<and>
     pf_next_id p' = pf_next_id p + of_nat (length issued) \<and>
     map snd issued = map (\<lambda>i. pf_next_id p + of_nat i) [0..<length issued] \<and>
     (\<forall>kind slot. fetch_slot_of kind p' = Some slot \<longrightarrow>
        (case filter (\<lambda>f. fst f = kind) issued of
           [] \<Rightarrow> fetch_slot_of kind p = Some slot
         | fs \<Rightarrow> last fs = (kind, ft_id slot)))"

lemma fetch_kind_split: "(\<forall>kind. P kind) \<longleftrightarrow> P MetaKind \<and> P HealthKind \<and> P SliceKind"
  by (metis fetch_kind.exhaust)

lemmas ledger_moves_simps = ledger_moves_def fetch_kind_split

lemma ledger_moves_refl: "ledger_moves p [] p"
  by (simp add: ledger_moves_def)

lemma ledger_moves_answered: "ledger_moves (as_pending s) [] (as_pending (answered kind s))"
  by (cases kind) (simp_all add: ledger_moves_simps answered_def)

lemma ledger_moves_after_answer:
  "ledger_moves (as_pending (answered kind s)) issued p' \<Longrightarrow> ledger_moves (as_pending s) issued p'"
  by (cases kind) (auto simp: ledger_moves_simps answered_def split: list.splits)

lemma ledger_tick: "ledger_moves (as_pending s) (fetches_of (snd (on_tick s))) (as_pending (fst (on_tick s)))"
  by (cases "as_session s")
    (simp_all add: on_tick_def Let_def with_slot_def ensure_fetch_def fetches_advance_def held_catalog_def ledger_moves_simps)

lemma ledger_meta: "ledger_moves (as_pending s) (fetches_of (snd (on_meta C response s))) (as_pending (fst (on_meta C response s)))"
  by (simp add: on_meta_def Let_def ledger_defs ledger_moves_simps)

lemma slice_pending: "as_pending (fst (on_slice C response s)) = as_pending s" "fetches_of (snd (on_slice C response s)) = []"
  by (auto simp: on_slice_def split: client_session.split sum.split work.split)

lemma route_pending: "as_pending (on_set_route r s) = as_pending s"
  by (simp add: on_set_route_def Let_def split: client_session.split)

lemma step_pending: "as_pending (on_step result plan s) = as_pending s"
  by (simp add: on_step_def split: client_session.split work.split)

lemma ledger_step: "ledger_moves (as_pending s) (fetches_of (snd (client_transition C s e))) (as_pending (fst (client_transition C s e)))"
proof (cases e)
  case ClientTick
  then show ?thesis by (simp add: ledger_tick)
next
  case (MetaFetched rid response)
  then show ?thesis
    by (simp add: with_accepted_if ledger_moves_refl ledger_moves_after_answer [OF ledger_meta])
next
  case (SliceFetched rid response)
  then show ?thesis by (simp add: with_accepted_if slice_pending ledger_moves_refl ledger_moves_answered)
next
  case (HealthFetched rid response)
  then show ?thesis using ledger_moves_answered [of s HealthKind] by (simp add: with_accepted_if ledger_moves_refl)
next
  case (FetchFailed rid kind message)
  then show ?thesis using ledger_moves_answered [of s kind] by (simp add: with_accepted_if ledger_moves_refl)
qed (simp_all add: route_pending step_pending ledger_moves_refl)

text \<open>The ledger after a run: the ids so far, and in each slot the last id of its kind.\<close>

definition ledger_after :: "(fetch_kind \<times> u64) list \<Rightarrow> pending_fetches \<Rightarrow> bool" where
  "ledger_after issued p \<longleftrightarrow>
     map snd issued = map of_nat [0..<length issued] \<and> pf_next_id p = of_nat (length issued) \<and>
     (\<forall>kind slot. fetch_slot_of kind p = Some slot \<longrightarrow>
        filter (\<lambda>f. fst f = kind) issued \<noteq> [] \<and> last (filter (\<lambda>f. fst f = kind) issued) = (kind, ft_id slot))"

lemma ledger_after_moves:
  assumes "ledger_after issued p" "ledger_moves p new p'"
  shows "ledger_after (issued @ new) p'"
proof -
  have upt_new: "[length issued..<length issued + length new] = map (\<lambda>i. i + length issued) [0..<length new]"
    by (simp add: map_add_upt add.commute)
  have "map of_nat [0..<length issued + length new] =
      map of_nat [0..<length issued] @ map (\<lambda>i. of_nat (length issued) + of_nat i :: u64) [0..<length new]"
    unfolding upt_add_eq_append [OF le0] upt_new by (simp add: add.commute)
  moreover have "filter (\<lambda>f. fst f = kind) (issued @ new) \<noteq> [] \<and>
      last (filter (\<lambda>f. fst f = kind) (issued @ new)) = (kind, ft_id slot)"
    if "fetch_slot_of kind p' = Some slot" for kind slot
  proof -
    have new: "case filter (\<lambda>f. fst f = kind) new of [] \<Rightarrow> fetch_slot_of kind p = Some slot | fs \<Rightarrow> last fs = (kind, ft_id slot)"
      using assms(2) that unfolding ledger_moves_def by blast
    show ?thesis
    proof (cases "filter (\<lambda>f. fst f = kind) new")
      case Nil
      with new assms(1) show ?thesis by (simp add: ledger_after_def)
    next
      case (Cons f fs)
      with new have "last (f # fs) = (kind, ft_id slot)" by simp
      with Cons show ?thesis by simp
    qed
  qed
  ultimately show ?thesis using assms by (simp add: ledger_after_def ledger_moves_def)
qed

lemma ledger_run:
  "ledger_after issued (as_pending s) \<Longrightarrow>
   ledger_after (issued @ fetches_of (client.trace C s es)) (as_pending (client.run C s es))"
  by (induction es arbitrary: s issued) (simp_all add: append_assoc [symmetric] ledger_after_moves [OF _ ledger_step] del: append_assoc)

lemma fetches_bound: "length (fetches_of (client.trace C s es)) \<le> 2 * length es"
proof (induction es arbitrary: s)
  case (Cons e es)
  have "length (fetches_of (snd (client_transition C s e))) \<le> 2" using ledger_step [of s C e] by (simp add: ledger_moves_def)
  then show ?case using Cons [of "fst (client_transition C s e)"] by simp
qed simp

lemma ledger_started: "ledger_after [] (as_pending (app_started config))"
  by (simp add: ledger_after_def fetch_kind_split app_started_def fetches_new_def)

fun answers :: "'f client_event \<Rightarrow> (fetch_kind \<times> u64) option" where
  "answers (MetaFetched rid _) = Some (MetaKind, rid)"
| "answers (SliceFetched rid _) = Some (SliceKind, rid)"
| "answers (HealthFetched rid _) = Some (HealthKind, rid)"
| "answers (FetchFailed rid kind _) = Some (kind, rid)"
| "answers _ = None"

lemma late_answer: "answers e = Some (kind, rid) \<Longrightarrow> \<not> in_flight kind rid s \<Longrightarrow> client_transition C s e = (s, [])"
  by (cases e) (auto simp: with_accepted_if)

lemma answered_not_in_flight: "answers e = Some (kind, rid) \<Longrightarrow> \<not> in_flight kind rid (fst (client_transition C s e))"
proof (cases e)
  case (MetaFetched r response)
  moreover assume "answers e = Some (kind, rid)"
  ultimately show ?thesis
    by (auto simp: with_accepted_if on_meta_def Let_def ledger_defs in_flight_def answered_def split: client_session.splits)
next
  case (SliceFetched r response)
  moreover assume "answers e = Some (kind, rid)"
  ultimately show ?thesis
    by (auto simp: with_accepted_if slice_pending in_flight_def answered_def)
next
  case (HealthFetched r response)
  moreover assume "answers e = Some (kind, rid)"
  ultimately show ?thesis by (auto simp: with_accepted_if in_flight_def answered_def)
next
  case (FetchFailed r k message)
  moreover assume "answers e = Some (kind, rid)"
  ultimately show ?thesis by (cases k) (auto simp: with_accepted_if in_flight_def answered_def)
qed simp_all

lemma answered_twice:
  "answers e = Some (kind, rid) \<Longrightarrow>
   client_transition C (fst (client_transition C s e)) e = (fst (client_transition C s e), [])"
  using late_answer [of e kind rid "fst (client_transition C s e)" C] answered_not_in_flight [of e kind rid C s] by simp

text \<open>
  C12. Retries are safe. The ids of the fetches a session sends never repeat; an answer is dropped,
  leaving the state as it is, unless it answers the last fetch of its kind; and a second copy of
  any answer is dropped too.
\<close>

theorem client_answers_latest_fetch:
  assumes "length es < 2 ^ 62" "answers e = Some (kind, rid)"
  shows "let s = client.run C (app_started config) es;
             issued = fetches_of (client.trace C (app_started config) es);
             same_kind = filter (\<lambda>f. fst f = kind) issued;
             s' = fst (client_transition C s e)
         in distinct (map snd issued) \<and> client_transition C s' e = (s', []) \<and>
            (same_kind = [] \<or> last same_kind \<noteq> (kind, rid) \<longrightarrow> client_transition C s e = (s, []))"
proof -
  let ?s = "client.run C (app_started config) es" and ?issued = "fetches_of (client.trace C (app_started config) es)"
  have after: "ledger_after ?issued (as_pending ?s)" using ledger_run [OF ledger_started, of C config es] by simp
  have "length ?issued < 2 ^ 64" using fetches_bound [of C "app_started config" es] assms(1) by simp
  then have "inj_on (of_nat :: nat \<Rightarrow> u64) (set [0..<length ?issued])"
    by (intro inj_on_inverseI [where g = unat]) (simp add: unat_of_nat)
  moreover have "map snd ?issued = map of_nat [0..<length ?issued]" using after by (simp add: ledger_after_def)
  ultimately have "distinct (map snd ?issued)" by (simp only: distinct_map distinct_upt)
  moreover have "client_transition C ?s e = (?s, [])"
    if "filter (\<lambda>f. fst f = kind) ?issued = [] \<or> last (filter (\<lambda>f. fst f = kind) ?issued) \<noteq> (kind, rid)"
    using that after by (intro late_answer [OF assms(2)]) (auto simp: in_flight_def ledger_after_def split: option.splits)
  ultimately show ?thesis using answered_twice [OF assms(2), of C ?s] by (simp only: Let_def) blast
qed

text \<open>After the first tick, a health report that answers the catalog's fetch is dropped.\<close>

theorem client_answers_latest_fetch_witness:
  "\<forall>C (config :: nat client_config).
     client_transition C (client.run C (app_started config) [ClientTick]) (HealthFetched 1 HealthAwaitingAnchor) =
       (client.run C (app_started config) [ClientTick], [])"
proof (intro allI)
  fix C and config :: "nat client_config"
  have "fetches_of (client.trace C (app_started config) [ClientTick]) = [(HealthKind, 0), (MetaKind, 1)]"
    by (simp add: app_started_def fetches_new_def on_tick_def Let_def ledger_defs held_catalog_def)
  then show "client_transition C (client.run C (app_started config) [ClientTick]) (HealthFetched 1 HealthAwaitingAnchor) =
      (client.run C (app_started config) [ClientTick], [])"
    using client_answers_latest_fetch [of "[ClientTick]" "HealthFetched 1 HealthAwaitingAnchor" HealthKind 1 C config]
    by (simp del: client.run.simps client_transition.simps add: Let_def)
qed

section \<open>The poll loop\<close>

text \<open>What a tick wants in flight, and how many further ticks may pass before a fetch of it is sent.\<close>

fun wants :: "fetch_kind \<Rightarrow> 'f app_state \<Rightarrow> bool" where
  "wants HealthKind s = True"
| "wants MetaKind s = (held_catalog s = None)"
| "wants SliceKind s = (held_catalog s \<noteq> None)"

definition due_within :: "nat \<Rightarrow> fetch_kind \<Rightarrow> 'f app_state \<Rightarrow> bool" where
  "due_within n kind s =
     (case fetch_slot_of kind (as_pending s) of
        None \<Rightarrow> True
      | Some slot \<Rightarrow> (let age = unat (pf_now (as_pending s) - ft_dispatched_at slot) in age < 10 \<and> 10 \<le> age + n))"

definition sends :: "fetch_kind \<Rightarrow> 'f client_effect list \<Rightarrow> bool" where
  "sends kind effs \<longleftrightarrow> kind \<in> fst ` set (fetches_of effs)"

lemma sends_simps [simp]:
  "sends kind [] = False"
  "sends kind (effs @ effs') \<longleftrightarrow> sends kind effs \<or> sends kind effs'"
  by (simp_all add: sends_def image_Un)

lemma sends_Cons [simp]: "sends kind (eff # effs) \<longleftrightarrow> map_option fst (fetch_of eff) = Some kind \<or> sends kind effs"
  by (cases "fetch_of eff") (auto simp: sends_def)

lemma age_fresh: "(a - b < (10 :: u64)) = (unat (a - b) < 10)"
  by (simp add: word_less_nat_alt)

lemma held_unchanged:
  "held_catalog (answered kind s) = held_catalog s" "held_catalog (on_step result plan s) = held_catalog s"
  "held_catalog (on_set_route r s) = held_catalog s" "held_catalog (fst (on_slice C response s)) = held_catalog s"
  "held_catalog (fst (on_tick s)) = held_catalog s"
  by (auto simp: held_catalog_def answered_def on_step_def on_set_route_def on_slice_def on_tick_def with_slot_def Let_def
      split: client_session.split work.split sum.split option.split prod.split)

lemma held_meta: "held_catalog (fst (on_meta C response s)) \<noteq> None"
  by (auto simp: held_catalog_def on_meta_def with_slot_def Let_def split: client_session.split option.split prod.split)

lemma held_report: "held_catalog (s\<lparr>as_health := h\<rparr>) = held_catalog s" "held_catalog (s\<lparr>as_last_error := f\<rparr>) = held_catalog s"
  by (simp_all add: held_catalog_def)

lemma held_stays: "held_catalog s \<noteq> None \<Longrightarrow> held_catalog (fst (client_transition C s e)) \<noteq> None"
  using held_meta by (cases e) (auto simp: with_accepted_if held_unchanged held_report)

lemma tick_slots:
  "wants kind s \<Longrightarrow> pf_now (as_pending (fst (on_tick s))) = pf_now (as_pending s) + 1 \<and>
     (if fetch_is_fresh kind (fetches_advance (as_pending s))
      then fetch_slot_of kind (as_pending (fst (on_tick s))) = fetch_slot_of kind (as_pending s)
      else sends kind (snd (on_tick s)) \<and>
        map_option ft_dispatched_at (fetch_slot_of kind (as_pending (fst (on_tick s)))) = Some (pf_now (as_pending s) + 1))"
  by (cases kind; cases "as_session s"; cases "pf_health (as_pending s)"; cases "pf_meta (as_pending s)";
      cases "pf_slice (as_pending s)"; simp add: on_tick_def Let_def ledger_defs held_catalog_def)

lemma tick_due:
  assumes "wants kind s"
  shows "sends kind (snd (on_tick s)) \<or> due_within 10 kind (fst (on_tick s))"
    "due_within (Suc n) kind s \<Longrightarrow> sends kind (snd (on_tick s)) \<or> n \<noteq> 0 \<and> due_within n kind (fst (on_tick s))"
proof -
  let ?p = "as_pending s"
  consider "sends kind (snd (on_tick s))" | slot where "fetch_slot_of kind ?p = Some slot"
      "pf_now (as_pending (fst (on_tick s))) = pf_now ?p + 1" "fetch_slot_of kind (as_pending (fst (on_tick s))) = Some slot"
      "unat (pf_now ?p + 1 - ft_dispatched_at slot) < 10"
  proof (cases "fetch_is_fresh kind (fetches_advance ?p)")
    case True
    then obtain slot where "fetch_slot_of kind ?p = Some slot" "unat (pf_now ?p + 1 - ft_dispatched_at slot) < 10"
      by (cases kind) (auto simp: fetch_is_fresh_def fetches_advance_def FETCH_TTL_TICKS_def age_fresh split: option.splits)
    with that(2) tick_slots [OF assms] True show ?thesis by simp
  next
    case False
    with that(1) tick_slots [OF assms] show ?thesis by simp
  qed
  note cases = this
  show "sends kind (snd (on_tick s)) \<or> due_within 10 kind (fst (on_tick s))"
    by (rule cases) (simp_all add: due_within_def)
  show "sends kind (snd (on_tick s)) \<or> n \<noteq> 0 \<and> due_within n kind (fst (on_tick s))" if due: "due_within (Suc n) kind s"
  proof (rule cases)
    fix slot :: fetch_slot
    let ?age = "pf_now ?p - ft_dispatched_at slot"
    assume slot: "fetch_slot_of kind ?p = Some slot"
      "pf_now (as_pending (fst (on_tick s))) = pf_now ?p + 1" "fetch_slot_of kind (as_pending (fst (on_tick s))) = Some slot"
      "unat (pf_now ?p + 1 - ft_dispatched_at slot) < 10"
    then have age: "unat ?age < 10" "10 \<le> unat ?age + Suc n" using due by (simp_all add: due_within_def Let_def)
    have "unat (?age + 1) = unat ?age + 1" using age(1) by (simp add: unat_word_ariths(1))
    then show ?thesis using age slot by (simp add: due_within_def Let_def algebra_simps)
  qed simp
qed

lemma other_due:
  assumes "e \<noteq> ClientTick" "due_within n kind s"
  shows "sends kind (snd (client_transition C s e)) \<or> due_within n kind (fst (client_transition C s e))"
proof -
  have now: "pf_now (as_pending (fst (client_transition C s e))) = pf_now (as_pending s)"
  proof (cases e)
    case (FetchFailed rid kind message)
    then show ?thesis by (cases kind) (simp_all add: with_accepted_if answered_def)
  qed (use assms(1) in \<open>simp_all add: with_accepted_if answered_def slice_pending route_pending step_pending on_meta_def Let_def ledger_defs\<close>)
  have "fetch_slot_of kind (as_pending s) = Some slot"
    if "fetch_slot_of kind (as_pending (fst (client_transition C s e))) = Some slot"
      "\<not> sends kind (snd (client_transition C s e))" for slot
  proof -
    have "filter (\<lambda>f. fst f = kind) (fetches_of (snd (client_transition C s e))) = []"
      using that(2) by (auto simp: sends_def filter_empty_conv)
    with ledger_step [of s C e] that(1) show ?thesis by (force simp: ledger_moves_def)
  qed
  with assms(2) now show ?thesis by (auto simp: due_within_def split: option.splits)
qed

definition tick_count :: "'f client_event list \<Rightarrow> nat" where
  "tick_count es = length (filter (\<lambda>e. e = ClientTick) es)"

lemma tick_count_simps [simp]:
  "tick_count [] = 0" "tick_count (e # es) = (if e = ClientTick then Suc (tick_count es) else tick_count es)"
  by (simp_all add: tick_count_def)

lemma wants_fixed: "wants kind s \<longleftrightarrow> wants kind s'" if "held_catalog s = None \<longleftrightarrow> held_catalog s' = None"
  using that by (cases kind) auto

lemma unwanted_stays: "\<not> wants kind s \<Longrightarrow> kind = MetaKind \<Longrightarrow> \<not> wants kind (client.run C s es)"
proof (induction es arbitrary: s)
  case (Cons e es)
  then show ?case using held_stays [of s C e] by simp
qed simp

lemma wanted_after: "wants kind s \<Longrightarrow> wants kind (fst (client_transition C s e)) \<or> kind = MetaKind"
  using held_stays [of s C e] by (cases kind) auto

lemma polled:
  "due_within (Suc n) kind s \<Longrightarrow> wants kind s \<Longrightarrow> n < tick_count es \<Longrightarrow>
   sends kind (client.trace C s es) \<or> \<not> wants kind (client.run C s es)"
proof (induction es arbitrary: s n)
  case (Cons e es)
  let ?s = "fst (client_transition C s e)"
  have next_due: "sends kind (snd (client_transition C s e)) \<or> (\<exists>m. due_within (Suc m) kind ?s \<and> m < tick_count es)"
  proof (cases "e = ClientTick")
    case True
    then show ?thesis using tick_due(2) [OF Cons.prems(2,1)] Cons.prems(3) by (cases n) auto
  next
    case False
    then show ?thesis using other_due [OF False Cons.prems(1), of C] Cons.prems(3) by auto
  qed
  show ?case
  proof (cases "wants kind ?s")
    case True
    with next_due show ?thesis using Cons.IH [of _ ?s] by auto
  next
    case False
    moreover have "kind = MetaKind" using wanted_after [OF Cons.prems(2), of C e] False by simp
    ultimately show ?thesis using unwanted_stays [OF False, of C es] by simp
  qed
qed simp

lemma polled_from_any:
  "wants kind s \<Longrightarrow> 10 < tick_count es \<Longrightarrow> sends kind (client.trace C s es) \<or> \<not> wants kind (client.run C s es)"
proof (induction es arbitrary: s)
  case (Cons e es)
  let ?s = "fst (client_transition C s e)"
  show ?case
  proof (cases "wants kind ?s")
    case True
    show ?thesis
    proof (cases "e = ClientTick")
      case tick: True
      with Cons.prems(2) have "9 < tick_count es" by simp
      with tick_due(1) [OF Cons.prems(1)] polled [of 9 kind ?s es C] True tick show ?thesis by auto
    next
      case False
      with Cons True show ?thesis by auto
    qed
  next
    case False
    moreover have "kind = MetaKind" using wanted_after [OF Cons.prems(1), of C e] False by simp
    ultimately show ?thesis using unwanted_stays [OF False, of C es] by simp
  qed
qed simp

text \<open>
  C22. Whatever else happens between them, within eleven ticks (the time to live of a fetch and one more)
  a session polls the server's health, and requests a slice when it holds a catalog and the catalog
  when it does not; only the arrival of the catalog ends the latter.
\<close>

theorem client_keeps_polling:
  assumes "unat FETCH_TTL_TICKS < tick_count es"
  shows "sends HealthKind (client.trace C s es) \<and>
    (if held_catalog s = None then sends MetaKind (client.trace C s es) \<or> held_catalog (client.run C s es) \<noteq> None
     else sends SliceKind (client.trace C s es))"
proof -
  have "10 < tick_count es" using assms by (simp add: FETCH_TTL_TICKS_def)
  note polled = polled_from_any [OF _ this, of _ s C]
  have "held_catalog (client.run C s es) \<noteq> None" if "held_catalog s \<noteq> None"
    using that by (rule client.run_keeps) (rule held_stays)
  with polled [of HealthKind] polled [of MetaKind] polled [of SliceKind] show ?thesis by simp
qed

theorem client_keeps_polling_witness:
  "\<forall>C (s :: nat app_state). sends HealthKind (client.trace C s (replicate 11 ClientTick))"
proof (intro allI)
  fix C and s :: "nat app_state"
  have "unat FETCH_TTL_TICKS < tick_count (replicate 11 (ClientTick :: nat client_event))"
    by (simp add: tick_count_def FETCH_TTL_TICKS_def)
  from client_keeps_polling [OF this, of C s] show "sends HealthKind (client.trace C s (replicate 11 ClientTick))" by blast
qed

end
