(* ===== verification/WorkerLaws.thy ===== *)
theory WorkerLaws
  imports OptimizerWorker ClientLaws "HOL-Library.Sublist"
begin

text \<open>
  The laws of the mailbox, and of the command line's worker over it: coalescing never invents, repeats or
  reorders a value and never loses the last one, and the worker stops for no missing route.
\<close>

section \<open>The mailbox\<close>

datatype 'a mailbox_op = Send 'a | Take

fun sent :: "'a mailbox_op list \<Rightarrow> 'a list" where
  "sent [] = []"
| "sent (Send v # ops) = v # sent ops"
| "sent (Take # ops) = sent ops"

text \<open>What the receiver took in a run, and what it left.\<close>

fun mailbox_run :: "'a latest_slot lock \<Rightarrow> 'a mailbox_op list \<Rightarrow> 'a list \<times> 'a latest_slot lock" where
  "mailbox_run slot [] = ([], slot)"
| "mailbox_run slot (Send v # ops) = mailbox_run (fst (slot_send slot v)) ops"
| "mailbox_run slot (Take # ops) =
     (case slot_try_take slot of
        (slot, Inr (Some v)) \<Rightarrow> (case mailbox_run slot ops of (taken, rest) \<Rightarrow> (v # taken, rest))
      | (slot, _) \<Rightarrow> mailbox_run slot ops)"

definition pending_value :: "'a latest_slot lock \<Rightarrow> 'a list" where
  "pending_value slot = (case slot of Lock state \<Rightarrow> (case ls_latest state of None \<Rightarrow> [] | Some v \<Rightarrow> [v]) | PoisonedLock \<Rightarrow> [])"

lemma mailbox_run_spec:
  assumes "\<not> ls_closed state" "mailbox_run (Lock state) ops = (taken, rest)"
  shows "subseq (taken @ pending_value rest) (pending_value (Lock state) @ sent ops) \<and>
    (pending_value (Lock state) @ sent ops = [] \<or>
     last (taken @ pending_value rest) = last (pending_value (Lock state) @ sent ops) \<and> taken @ pending_value rest \<noteq> [])"
  using assms
proof (induction ops arbitrary: state taken)
  case Nil
  then show ?case by auto
next
  case (Cons mailbox_op ops)
  show ?case
  proof (cases mailbox_op)
    case (Send v)
    let ?state = "state\<lparr>ls_latest := Some v\<rparr>"
    have run: "\<not> ls_closed ?state" "mailbox_run (Lock ?state) ops = (taken, rest)"
      using Cons.prems Send by (simp_all add: slot_send_def)
    have "subseq (taken @ pending_value rest) (v # sent ops) \<and> last (taken @ pending_value rest) = last (v # sent ops) \<and>
        taken @ pending_value rest \<noteq> []"
      using Cons.IH [OF run] by (simp add: pending_value_def)
    then show ?thesis using Send by (auto simp: pending_value_def split: option.split)
  next
    case Take
    show ?thesis
    proof (cases "ls_latest state")
      case None
      then have "mailbox_run (Lock state) ops = (taken, rest)" using Cons.prems Take by (simp add: slot_try_take_def)
      with Cons.IH [OF Cons.prems(1)] Take show ?thesis by simp
    next
      case (Some v)
      obtain taken' where run: "mailbox_run (Lock (state\<lparr>ls_latest := None\<rparr>)) ops = (taken', rest)" "taken = v # taken'"
        using Cons.prems Take Some by (auto simp: slot_try_take_def split: prod.splits)
      with Cons.IH [of "state\<lparr>ls_latest := None\<rparr>" taken'] Cons.prems(1)
      have "subseq (taken' @ pending_value rest) (sent ops)"
        "sent ops = [] \<or> last (taken' @ pending_value rest) = last (sent ops) \<and> taken' @ pending_value rest \<noteq> []"
        by (auto simp: pending_value_def)
      moreover from this(1) have "taken' @ pending_value rest = []" if "sent ops = []"
        using that by (auto dest: list_emb_Nil2)
      ultimately show ?thesis using Take Some run(2) by (auto simp: pending_value_def)
    qed
  qed
qed

text \<open>
  The mailbox coalesces and nothing else: over any interleaving of sends and takes, what was taken,
  followed by what is left, is a subsequence of what was sent, in order and without repeats, and it
  ends with the last value sent.
\<close>

lemma mailbox_latest_wins:
  "case mailbox_run latest_slot_new ops of (taken, rest) \<Rightarrow>
     subseq (taken @ pending_value rest) (sent ops) \<and>
     (sent ops = [] \<or> last (taken @ pending_value rest) = last (sent ops))"
  using mailbox_run_spec [of "\<lparr>ls_latest = None, ls_closed = False\<rparr>" ops]
  by (auto simp: latest_slot_new_def pending_value_def split: prod.split)

section \<open>The command line's worker\<close>

text \<open>The kernel sends no empty snapshot, and the pools it tracks are already gated by the whitelist.\<close>

definition cli_input_ok :: "session_config \<Rightarrow> 'f pool_reserves list \<Rightarrow> bool" where
  "cli_input_ok cfg reserves \<longleftrightarrow> reserves \<noteq> [] \<and> whitelisted_reserves reserves (sc_whitelist cfg) = reserves"

datatype 'f cli_move = CliSend "'f pool_reserves list" | CliPass

definition cli_drive :: "('m, 'o, 'f) worker_env \<Rightarrow> session_config \<Rightarrow>
    'f pool_reserves list latest_slot lock \<times> ('m, 'o, 'f) cli_worker \<Rightarrow> 'f cli_move \<Rightarrow>
    ('f pool_reserves list latest_slot lock \<times> ('m, 'o, 'f) cli_worker) \<times>
      ('f optimization_step_result \<times> 'f execution_plan option) list" where
  "cli_drive E cfg = (\<lambda>(slot, worker) move.
     (case move of
        CliSend reserves \<Rightarrow> ((fst (slot_send slot reserves), worker), [])
      | CliPass \<Rightarrow>
          (case cli_step E cfg True slot worker of
             None \<Rightarrow> ((slot, worker), [])
           | Some (slot, worker, results) \<Rightarrow> ((slot, worker), results))))"

definition cli_done_ok :: "'f run_optimization_error + unit \<Rightarrow> bool" where
  "cli_done_ok result =
     (case result of
        Inl (RunInit e) \<Rightarrow> init_possible e
      | Inl (RunStep e) \<Rightarrow> init_possible (InitStep e)
      | _ \<Rightarrow> False)"

definition cli_ok :: "('m, 'o, 'f) worker_env \<Rightarrow> session_config \<Rightarrow>
    'f pool_reserves list latest_slot lock \<times> ('m, 'o, 'f) cli_worker \<Rightarrow> bool" where
  "cli_ok E cfg = (\<lambda>(slot, worker).
     (case slot of
        Lock state \<Rightarrow> (case ls_latest state of None \<Rightarrow> True | Some reserves \<Rightarrow> cli_input_ok cfg reserves) \<and>
          (case worker of CliDone _ \<Rightarrow> True | _ \<Rightarrow> \<not> ls_closed state)
      | PoisonedLock \<Rightarrow> False) \<and>
     (case worker of
        CliWaiting \<Rightarrow> True
      | CliGrinding runner \<Rightarrow> runner_ok cfg (we_step E) (Some runner)
      | CliDone result \<Rightarrow> cli_done_ok result))"

lemma cli_gap_is_output:
  assumes "cli_input_ok cfg reserves" "sc_source_asset cfg = sc_output_asset cfg"
    and init: "runner_init F M wgpu selection reserves cfg step_config = Inl e"
  shows "init_possible e \<or> e = InitStep OutputAssetNotFound"
proof -
  have "whitelisted_reserves reserves (sc_whitelist cfg) = reserves" "reserves \<noteq> []"
    using assms(1) by (simp_all add: cli_input_ok_def)
  then have "admissible_reserves reserves cfg \<noteq> []" by (simp add: admissible_reserves_def routable_reserves_def Let_def)
  then have "validate_reserve_snapshot F (admissible_reserves reserves cfg) cfg step_config \<noteq> Inl EmptyReserves"
    "validate_reserve_snapshot F (admissible_reserves reserves cfg) cfg step_config \<noteq> Inl SourceAssetNotFound"
    using assms(2) by (auto simp: validate_reserve_snapshot_def validate_step_config_def reserve_keys_spec list_all_iff)
  then have "f \<noteq> EmptyReserves \<and> f \<noteq> SourceAssetNotFound" if "e = InitStep f" for f
    using init that
    by (auto simp: runner_init_def wrap_runner_def initialize_session_def initialize_session_with_status_def split: sum.splits
        dest: chunk_error select_backend_error)
  then show ?thesis by (auto simp: init_possible_def split: optimization_init_error.split optimization_step_error.split)
qed

lemma cli_ok_send: "cli_ok E cfg (slot, worker) \<Longrightarrow> cli_input_ok cfg reserves \<Longrightarrow> cli_ok E cfg (fst (slot_send slot reserves), worker)"
  by (cases worker) (auto simp: cli_ok_def slot_send_def split: lock.splits)

lemma cli_ok_done: "slot = Lock state \<Longrightarrow> ls_latest state = None \<Longrightarrow> cli_done_ok result \<Longrightarrow> cli_ok E cfg (slot_close slot, CliDone result)"
  by (simp add: cli_ok_def slot_close_def)

lemma cli_ok_pass:
  assumes ok: "cli_ok E cfg (slot, worker)" and cycle: "sc_source_asset cfg = sc_output_asset cfg"
    and pass: "cli_step E cfg True slot worker = Some (slot', worker', results)"
  shows "cli_ok E cfg (slot', worker')"
proof -
  obtain state where slot: "slot = Lock state" using ok by (auto simp: cli_ok_def split: lock.splits)
  let ?taken = "Lock (state\<lparr>ls_latest := None\<rparr>)"
  show ?thesis
  proof (cases worker)
    case CliWaiting
    then obtain reserves where held: "ls_latest state = Some reserves" and is_open: "\<not> ls_closed state"
      using pass ok slot by (cases "ls_latest state") (auto simp: slot_wait_take_def cli_ok_def)
    have input: "cli_input_ok cfg reserves" using ok slot held by (simp add: cli_ok_def)
    show ?thesis
    proof (cases "runner_init (we_floats E) (we_models E) (we_wgpu E) (we_backend E) reserves cfg (we_step E)")
      case (Inr out)
      obtain runner result plan where out: "out = (runner, result, plan)" by (cases out)
      have "runner_ok cfg (we_step E) (Some runner)" by (rule runner_ok_init [OF Inr [unfolded out]])
      then show ?thesis using pass CliWaiting slot held is_open Inr out
        by (auto simp: slot_wait_take_def cli_stepped_def cli_ok_def)
    next
      case (Inl e)
      from cli_gap_is_output [OF input cycle Inl] show ?thesis
      proof
        assume "init_possible e"
        then have "cli_done_ok (Inl (RunInit e))" "e \<noteq> InitStep OutputAssetNotFound" by (auto simp: cli_done_ok_def init_possible_def)
        then show ?thesis using pass CliWaiting slot held Inl cli_ok_done [of ?taken "state\<lparr>ls_latest := None\<rparr>"]
          by (auto simp: slot_wait_take_def cli_return_def split: optimization_init_error.splits optimization_step_error.splits)
      next
        assume "e = InitStep OutputAssetNotFound"
        then show ?thesis using pass CliWaiting slot held is_open Inl by (auto simp: slot_wait_take_def cli_ok_def)
      qed
    qed
  next
    case (CliGrinding runner)
    have runner: "runner_ok cfg (we_step E) (Some runner)" and is_open: "\<not> ls_closed state"
      using ok slot CliGrinding by (simp_all add: cli_ok_def)
    obtain update where update: "case update of NewReserves reserves _ \<Rightarrow> reserves_reach_route reserves cfg | Continue \<Rightarrow> True"
      and pass: "(case runner_run (we_floats E) (we_models E) runner update of
        Inr outcome \<Rightarrow> cli_stepped True ?taken outcome | Inl e \<Rightarrow> cli_return ?taken (Inl (RunStep e))) = (slot', worker', results)"
    proof (cases "ls_latest state")
      case None
      then have same: "state\<lparr>ls_latest := None\<rparr> = state" by (cases state) simp
      with None pass CliGrinding slot is_open that [of Continue, unfolded same] show ?thesis by (simp add: slot_try_take_def)
    next
      case (Some reserves)
      with pass CliGrinding slot that [of Continue] that [of "NewReserves reserves {}"] show ?thesis
        by (auto simp: slot_try_take_def Let_def split: if_splits)
    qed
    have cfg: "os_session_config (or_session runner) = cfg" using runner by (simp add: runner_ok_def)
    show ?thesis
    proof (cases "runner_run (we_floats E) (we_models E) runner update")
      case (Inl e)
      have "cli_done_ok (Inl (RunStep e))" using run_error_possible [OF Inl, unfolded cfg, OF update] by (simp add: cli_done_ok_def)
      then show ?thesis using pass Inl cli_ok_done [of ?taken "state\<lparr>ls_latest := None\<rparr>"] by (auto simp: cli_return_def)
    next
      case (Inr out)
      obtain runner' result plan where out: "out = (runner', result, plan)" by (cases out)
      have "runner_ok cfg (we_step E) (Some runner')"
        using runner_ok_run [OF runner, of "we_floats E" "we_models E" update] Inr out by (simp add: drive_runner_def)
      then show ?thesis using pass Inr out is_open by (auto simp: cli_stepped_def cli_ok_def)
    qed
  next
    case (CliDone result)
    with pass show ?thesis by simp
  qed
qed

definition cli_config_ok :: "session_config \<Rightarrow> 'f cli_move \<Rightarrow> bool" where
  "cli_config_ok cfg move \<longleftrightarrow> sc_source_asset cfg = sc_output_asset cfg \<and>
     (case move of CliSend reserves \<Rightarrow> cli_input_ok cfg reserves | CliPass \<Rightarrow> True)"

interpretation cli: state_machine "\<lambda>s. s = (latest_slot_new, CliWaiting)" "cli_drive E cfg" "cli_config_ok cfg" "cli_ok E cfg" for E cfg
proof unfold_locales
  fix s :: "'a pool_reserves list latest_slot lock \<times> ('b, 'c, 'a) cli_worker"
  assume "s = (latest_slot_new, CliWaiting)"
  then show "cli_ok E cfg s" by (simp add: cli_ok_def latest_slot_new_def)
next
  fix s :: "'a pool_reserves list latest_slot lock \<times> ('b, 'c, 'a) cli_worker" and move :: "'a cli_move"
  assume ok: "cli_ok E cfg s" and valid: "cli_config_ok cfg move"
  obtain slot worker where s: "s = (slot, worker)" by (cases s)
  show "cli_ok E cfg (fst (cli_drive E cfg s move))"
    using ok valid s cli_ok_send [of E cfg slot worker] cli_ok_pass [of E cfg slot worker]
    by (auto simp: cli_drive_def cli_config_ok_def split: cli_move.splits option.splits)
qed

text \<open>
  The command line's worker, which skips only the first kind of gap, never stops over the other two:
  however sends and passes interleave, when every snapshot is non-empty and already within the
  whitelist and the route is a cycle, the only ends of the worker are faults that no snapshot without
  the route causes, and it never sees a closed mailbox.
\<close>

lemma cli_worker_stops_with_fault:
  assumes "list_all (cli_config_ok cfg) moves"
  shows "case snd (cli.run E cfg (latest_slot_new, CliWaiting) moves) of CliDone result \<Rightarrow> cli_done_ok result | _ \<Rightarrow> True"
  using cli.run_from_start [OF refl assms, of E] by (auto simp: cli_ok_def split: prod.splits cli_worker.splits)

end
