(* ===== verification/Engine.thy ===== *)
theory Engine
  imports OptimizerWorker ClientLaws "HOL-Library.Multiset"
begin

text \<open>
  The client engine as it runs (aa-client-core runtime.rs over aa-framework): the reducer's loop, the
  effects it spawned, the mailbox and the optimizer's worker, as a step relation that interleaves them.
  Effects run on threads of their own, so any pending one may go next; events reach the loop in the
  order they were sent. Then what holds in every reachable engine, and one thing that does not.
\<close>

section \<open>The engine\<close>

record ('m, 'o, 'f) engine =
  en_app :: "'f app_state"
  en_queue :: "'f client_event list"
  en_effects :: "'f client_effect multiset"
  en_slot :: "'f reserve_snapshot latest_slot lock"
  en_worker :: "('m, 'o, 'f) worker"

definition engine_start :: "'f client_env \<Rightarrow> 'f step_config \<Rightarrow> address \<Rightarrow> ('m, 'o, 'f) engine" where
  "engine_start C step_cfg asset =
     \<lparr>en_app = fst (client_init C step_cfg asset), en_queue = [], en_effects = mset (snd (client_init C step_cfg asset)),
      en_slot = latest_slot_new, en_worker = Initializing None\<rparr>"

definition execute_push :: "'f pool_reserves list \<Rightarrow> session_config \<Rightarrow> ('m, 'o, 'f) engine \<Rightarrow> ('m, 'o, 'f) engine" where
  "execute_push reserves cfg g =
     g\<lparr>en_slot := fst (slot_send (en_slot g) \<lparr>sn_reserves = reserves, sn_session = cfg\<rparr>)\<rparr>"

inductive engine_step :: "'f client_env \<Rightarrow> ('m, 'o, 'f) worker_env \<Rightarrow> ('m, 'o, 'f) engine \<Rightarrow> ('m, 'o, 'f) engine \<Rightarrow> bool"
  for C E where
  fold_event: "en_queue g = e # queue \<Longrightarrow> client_transition C (en_app g) e = (app, effs) \<Longrightarrow>
    engine_step C E g (g\<lparr>en_app := app, en_queue := queue, en_effects := en_effects g + mset effs\<rparr>)"
| push: "PushReserves reserves cfg \<in># en_effects g \<Longrightarrow>
    engine_step C E g (execute_push reserves cfg (g\<lparr>en_effects := en_effects g - {#PushReserves reserves cfg#}\<rparr>))"
| fetch: "eff \<in># en_effects g \<Longrightarrow> fetch_of eff = Some (kind, rid) \<Longrightarrow> answers e = Some (kind, rid) \<Longrightarrow>
    engine_step C E g (g\<lparr>en_effects := en_effects g - {#eff#}, en_queue := en_queue g @ [e]\<rparr>)"
| poll_clock: "engine_step C E g (g\<lparr>en_queue := en_queue g @ [ClientTick]\<rparr>)"
| command: "engine_step C E g (g\<lparr>en_queue := en_queue g @ [SetRoute r]\<rparr>)"
| work: "worker_step E True (en_slot g) (en_worker g) = Some (slot, worker, events) \<Longrightarrow>
    engine_step C E g (g\<lparr>en_slot := slot, en_worker := worker, en_queue := en_queue g @ events\<rparr>)"

inductive engine_reachable :: "'f client_env \<Rightarrow> ('m, 'o, 'f) worker_env \<Rightarrow> address \<Rightarrow> ('m, 'o, 'f) engine \<Rightarrow> bool"
  for C E asset where
  reach_start: "engine_reachable C E asset (engine_start C (we_step E) asset)"
| reach_step: "engine_reachable C E asset g \<Longrightarrow> engine_step C E g g' \<Longrightarrow> engine_reachable C E asset g'"

inductive_cases engine_stepE: "engine_step C E g g'"

section \<open>The mailbox\<close>

text \<open>A burst of sends leaves the last value, whatever was there before.\<close>

lemma slot_burst:
  "\<not> ls_closed state \<Longrightarrow> vs \<noteq> [] \<Longrightarrow>
   fold (\<lambda>v slot. fst (slot_send slot v)) vs (Lock state) = Lock (state\<lparr>ls_latest := Some (last vs)\<rparr>)"
  by (induction vs arbitrary: state) (auto simp: slot_send_def)

section \<open>The invariant\<close>

definition productive :: "'f reserve_snapshot \<Rightarrow> bool" where
  "productive sn \<longleftrightarrow> reserves_reach_route (sn_reserves sn) (sn_session sn) \<and>
     ta_chain (sc_source_asset (sn_session sn)) = CLIENT_CHAIN \<and> ta_chain (sc_output_asset (sn_session sn)) = CLIENT_CHAIN"

definition effect_ok :: "'f client_effect \<Rightarrow> bool" where
  "effect_ok eff = (case eff of PushReserves reserves cfg \<Rightarrow> productive \<lparr>sn_reserves = reserves, sn_session = cfg\<rparr> | _ \<Rightarrow> True)"

text \<open>A plan that reaches the loop is for the amount the worker commits, on the session's chain.\<close>

definition plan_ok :: "'f step_config \<Rightarrow> 'f execution_plan option \<Rightarrow> bool" where
  "plan_ok step_cfg plan =
     (case plan of
        None \<Rightarrow> True
      | Some p \<Rightarrow> ep_entry_amount p = st_input_amount step_cfg \<and>
          ta_chain (ep_source_asset p) = CLIENT_CHAIN \<and> ta_chain (ep_output_asset p) = CLIENT_CHAIN)"

definition event_ok :: "'f step_config \<Rightarrow> 'f client_event \<Rightarrow> bool" where
  "event_ok step_cfg e = (case e of OptimizerStepped _ plan \<Rightarrow> plan_ok step_cfg plan | _ \<Rightarrow> True)"

definition session_plan_ok :: "'f step_config \<Rightarrow> 'f app_state \<Rightarrow> bool" where
  "session_plan_ok step_cfg s = (case as_session s of SessionReady _ (Optimizing _ _ plan) \<Rightarrow> plan_ok step_cfg plan | _ \<Rightarrow> True)"

definition slot_ok :: "'f reserve_snapshot latest_slot lock \<Rightarrow> bool" where
  "slot_ok slot =
     (case slot of
        Lock state \<Rightarrow> (case ls_latest state of None \<Rightarrow> True | Some sn \<Rightarrow> productive sn)
      | PoisonedLock \<Rightarrow> False)"

definition slot_open :: "'a latest_slot lock \<Rightarrow> bool" where
  "slot_open slot = (case slot of Lock state \<Rightarrow> \<not> ls_closed state | PoisonedLock \<Rightarrow> False)"

definition worker_ok :: "'f step_config \<Rightarrow> ('m, 'o, 'f) worker \<Rightarrow> bool" where
  "worker_ok step_cfg w =
     (case w of
        Initializing (Some sn) \<Rightarrow> productive sn
      | Grinding runner session \<Rightarrow> runner_ok session step_cfg (Some runner) \<and>
          ta_chain (sc_source_asset session) = CLIENT_CHAIN \<and> ta_chain (sc_output_asset session) = CLIENT_CHAIN
      | _ \<Rightarrow> True)"

definition engine_ok :: "'f step_config \<Rightarrow> ('m, 'o, 'f) engine \<Rightarrow> bool" where
  "engine_ok step_cfg g \<longleftrightarrow>
     client_ok CLIENT_CHAIN (en_app g) \<and> session_plan_ok step_cfg (en_app g) \<and>
     (\<forall>e\<in>set (en_queue g). event_ok step_cfg e) \<and> (\<forall>eff\<in>#en_effects g. effect_ok eff) \<and>
     slot_ok (en_slot g) \<and> (en_worker g = Exited \<or> slot_open (en_slot g)) \<and> worker_ok step_cfg (en_worker g)"

lemma client_effects_ok: "client_ok CLIENT_CHAIN s \<Longrightarrow> \<forall>eff\<in>set (snd (client_transition C s e)). effect_ok eff"
  using pushed_reserves [of s C e]
  by (auto simp: list_all_iff effect_ok_def productive_def client_ok_def split: client_effect.splits)

lemma session_plan_step:
  "session_plan_ok step_cfg s \<Longrightarrow> event_ok step_cfg e \<Longrightarrow> session_plan_ok step_cfg (fst (client_transition C s e))"
proof (cases e)
  assume ok: "session_plan_ok step_cfg s" "event_ok step_cfg e"
  have answer: "session_plan_ok step_cfg (answered kind s)" for kind using ok(1) by (simp add: session_plan_ok_def answered_def)
  {
    case ClientTick
    have "as_session (fst (on_tick s)) = as_session s"
      by (cases "as_session s") (simp_all add: on_tick_def Let_def with_slot_def ensure_fetch_def held_catalog_def)
    with ClientTick ok show ?thesis by (simp add: session_plan_ok_def)
  next
    case (MetaFetched rid response)
    have "session_plan_ok step_cfg (fst (on_meta C response t))" if "session_plan_ok step_cfg t" for t
      using that by (auto simp: session_plan_ok_def on_meta_def Let_def with_slot_def split: client_session.splits work.splits option.split prod.split)
    with MetaFetched ok answer show ?thesis by (simp add: with_accepted_if)
  next
    case (SliceFetched rid response)
    have "session_plan_ok step_cfg (fst (on_slice C response t))" if "session_plan_ok step_cfg t" for t
      using that by (auto simp: session_plan_ok_def on_slice_def plan_ok_def split: client_session.splits work.splits sum.splits)
    with SliceFetched ok answer show ?thesis by (simp add: with_accepted_if)
  next
    case (HealthFetched rid response)
    with ok answer [of HealthKind] show ?thesis by (simp add: with_accepted_if session_plan_ok_def)
  next
    case (FetchFailed rid kind message)
    with ok answer [of kind] show ?thesis by (simp add: with_accepted_if session_plan_ok_def)
  next
    case (OptimizerStepped result plan)
    with ok show ?thesis by (auto simp: session_plan_ok_def on_step_def event_ok_def split: client_session.splits work.splits)
  next
    case (EffectFailed fault)
    with ok show ?thesis by (simp add: session_plan_ok_def)
  next
    case (SetRoute r)
    with ok show ?thesis by (auto simp: session_plan_ok_def on_set_route_def Let_def split: client_session.splits)
  }
qed

text \<open>The worker's passes.\<close>

text \<open>The reports of a fault that no missing end of a route, and no empty snapshot, has caused.\<close>

definition fault_reports :: "('m, 'o, 'f) worker_env \<Rightarrow> 'f client_event list set" where
  "fault_reports E =
     {[EffectFailed (OptimizeError StageInit (we_show_init E e))] | e. init_possible e} \<union>
     {[EffectFailed (OptimizeError StageRun (we_show_step E f))] | f. init_possible (InitStep f)}"

definition pass_ok :: "('m, 'o, 'f) worker_env \<Rightarrow> ('m, 'o, 'f) worker_pass \<Rightarrow> bool" where
  "pass_ok E pass =
     (case pass of (slot, worker, events) \<Rightarrow>
        slot_ok slot \<and> (worker = Exited \<or> slot_open slot) \<and> worker_ok (we_step E) worker \<and>
        (\<forall>e\<in>set events. event_ok (we_step E) e) \<and> worker \<noteq> Initializing None \<and>
        (worker = Exited \<longrightarrow> events \<in> fault_reports E))"

lemma report_ok:
  "slot_ok slot \<Longrightarrow> [EffectFailed (OptimizeError stage message)] \<in> fault_reports E \<Longrightarrow>
   pass_ok E (worker_report True slot stage message)"
  by (auto simp: pass_ok_def worker_report_def worker_return_def worker_ok_def event_ok_def slot_ok_def slot_close_def split: lock.splits)

lemma stepped_ok:
  assumes "slot_ok slot" "slot_open slot" "worker_ok (we_step E) (Grinding runner session)" "plan_ok (we_step E) plan"
  shows "pass_ok E (worker_stepped True slot session (runner, result, plan))"
  using assms by (simp add: pass_ok_def worker_stepped_def event_ok_def)

lemma chunk_plan_ok:
  assumes "run_optimization_chunk F M session step_cfg status = Inr (session', result, plan)"
    and "ta_chain (sc_source_asset (os_session_config session)) = CLIENT_CHAIN"
    and "ta_chain (sc_output_asset (os_session_config session)) = CLIENT_CHAIN"
  shows "plan_ok step_cfg plan"
  using chunk_spec [where F = F and M = M and session = session and step_config = step_cfg and status = status] assms
  by (auto simp: plan_ok_def split: option.splits)

lemma initialized_plan_ok:
  assumes "initialize_session_with_status F M reserves cfg step_cfg status disabled = Inr (session, result, plan)"
    and "ta_chain (sc_source_asset cfg) = CLIENT_CHAIN" "ta_chain (sc_output_asset cfg) = CLIENT_CHAIN"
  shows "plan_ok step_cfg plan"
  using assms by (auto simp: initialize_session_with_status_def split: sum.splits dest!: chunk_plan_ok)

lemma init_pass_ok:
  assumes slot: "slot_ok slot" "slot_open slot" and sn: "productive sn"
  shows "pass_ok E (worker_initialize E True slot sn)"
proof (cases "runner_init (we_floats E) (we_models E) (we_wgpu E) (we_backend E) (sn_reserves sn) (sn_session sn) (we_step E)")
  case (Inl e)
  with sn have "init_possible e" by (auto simp: productive_def dest: reaching_init)
  then have "\<not> (case e of InitStep f \<Rightarrow> is_route_gap f | WgpuUnavailable \<Rightarrow> False)"
    by (auto simp: init_possible_def split: optimization_init_error.splits optimization_step_error.splits)
  moreover have "[EffectFailed (OptimizeError StageInit (we_show_init E e))] \<in> fault_reports E"
    using \<open>init_possible e\<close> by (auto simp: fault_reports_def)
  ultimately show ?thesis using Inl slot by (simp add: worker_initialize_def report_ok)
next
  case (Inr out)
  obtain runner result plan where out: "out = (runner, result, plan)" by (cases out)
  have "runner_ok (sn_session sn) (we_step E) (Some runner)" by (rule runner_ok_init [OF Inr [unfolded out]])
  moreover have "plan_ok (we_step E) plan"
    using Inr out sn
    by (auto simp: runner_init_def wrap_runner_def initialize_session_def productive_def split: sum.splits dest!: initialized_plan_ok)
  ultimately show ?thesis
    using Inr out slot sn by (simp add: worker_initialize_def stepped_ok worker_ok_def productive_def)
qed

lemma step_plan_ok:
  assumes "run_optimization_step F M session update step_cfg = Inr (session', result, plan)"
    and "ta_chain (sc_source_asset (os_session_config session)) = CLIENT_CHAIN"
    and "ta_chain (sc_output_asset (os_session_config session)) = CLIENT_CHAIN"
  shows "plan_ok step_cfg plan"
proof (cases update)
  case Continue
  with assms show ?thesis by (auto dest!: chunk_plan_ok)
next
  case (NewReserves reserves disabled)
  with assms show ?thesis
    by (auto simp: run_step_with_reserves_def Let_def split: sum.splits reconcile_outcome.splits dest!: chunk_plan_ok initialized_plan_ok)
qed

lemma grind_pass_ok:
  assumes slot: "slot_ok slot" "slot_open slot" and w: "worker_ok (we_step E) (Grinding runner session)"
    and update: "case update of NewReserves reserves _ \<Rightarrow> reserves_reach_route reserves session | Continue \<Rightarrow> True"
  shows "pass_ok E (worker_grind E True slot runner session update)"
proof (cases "runner_run (we_floats E) (we_models E) runner update")
  case (Inl e)
  have "os_session_config (or_session runner) = session" using w by (simp add: worker_ok_def runner_ok_def)
  note possible = run_error_possible [OF Inl, unfolded this, OF update]
  from possible have "[EffectFailed (OptimizeError StageRun (we_show_step E e))] \<in> fault_reports E" by (auto simp: fault_reports_def)
  with Inl slot show ?thesis by (simp add: worker_grind_def report_ok)
next
  case (Inr out)
  obtain runner' result plan where out: "out = (runner', result, plan)" by (cases out)
  have ok: "runner_ok session (we_step E) (Some runner)" "ta_chain (sc_source_asset session) = CLIENT_CHAIN"
    "ta_chain (sc_output_asset session) = CLIENT_CHAIN" using w by (simp_all add: worker_ok_def)
  have "runner_ok session (we_step E) (Some runner')"
    using runner_ok_run [OF ok(1), of "we_floats E" "we_models E" update] Inr out by (simp add: drive_runner_def)
  moreover have "plan_ok (we_step E) plan"
    using Inr out ok by (auto simp: runner_run_def wrap_runner_def runner_ok_def split: sum.splits dest!: step_plan_ok)
  ultimately show ?thesis using Inr out slot ok by (simp add: worker_grind_def stepped_ok worker_ok_def)
qed

lemma worker_pass_ok:
  assumes slot: "slot_ok slot" "slot_open slot" and w: "worker_ok (we_step E) worker"
    and step: "worker_step E True slot worker = Some pass"
  shows "pass_ok E pass"
proof -
  obtain state where state: "slot = Lock state" "\<not> ls_closed state" using slot by (auto simp: slot_open_def split: lock.splits)
  have empty: "slot_ok (Lock (state\<lparr>ls_latest := None\<rparr>))" "slot_open (Lock (state\<lparr>ls_latest := None\<rparr>))"
    using state by (simp_all add: slot_ok_def slot_open_def)
  have held: "productive sn" if "ls_latest state = Some sn" for sn using slot(1) state that by (simp add: slot_ok_def)
  show ?thesis
  proof (cases worker)
    case (Initializing waiting)
    show ?thesis
    proof (cases waiting)
      case None
      with Initializing step state obtain sn where sn: "ls_latest state = Some sn"
        "pass = worker_initialize E True (Lock (state\<lparr>ls_latest := None\<rparr>)) sn"
        by (cases "ls_latest state") (simp_all add: slot_wait_take_def)
      show ?thesis unfolding sn(2) by (rule init_pass_ok [OF empty held [OF sn(1)]])
    next
      case (Some sn)
      with Initializing step w slot show ?thesis by (auto simp: worker_ok_def intro: init_pass_ok)
    qed
  next
    case (Grinding runner session)
    show ?thesis
    proof (cases "ls_latest state")
      case None
      with Grinding step state slot w show ?thesis by (auto simp: slot_try_take_def intro!: grind_pass_ok)
    next
      case (Some sn)
      have switch: "pass_ok E (Lock (state\<lparr>ls_latest := None\<rparr>), Initializing (Some sn), [])"
        using empty held [OF Some] by (simp add: pass_ok_def worker_ok_def)
      show ?thesis
        using Grinding step state Some switch grind_pass_ok [OF empty w [unfolded Grinding], of Continue]
          grind_pass_ok [OF empty w [unfolded Grinding], of "NewReserves (sn_reserves sn) {}"]
        by (auto simp: slot_try_take_def split: if_splits)
    qed
  next
    case Exited
    with step show ?thesis by simp
  qed
qed

section \<open>Reachable engines\<close>

lemma engine_ok_start: "engine_ok step_cfg (engine_start C step_cfg asset)"
proof -
  let ?s = "app_started (session_config_for step_cfg (route_arbitrage asset))"
  have start: "client_start CLIENT_CHAIN ?s"
    by (intro client_start_def [THEN iffD2] exI conjI, rule refl, simp_all add: session_config_for_def route_arbitrage_def)
  note ok = client_ok_start [OF start]
  have "session_plan_ok step_cfg ?s" by (simp add: session_plan_ok_def app_started_def)
  then have "session_plan_ok step_cfg (fst (client_init C step_cfg asset))"
    unfolding client_init_def by (rule session_plan_step) (simp add: event_ok_def)
  then show ?thesis
    using client_ok_step [OF ok, of C ClientTick] client_effects_ok [OF ok, of C ClientTick]
    by (simp add: engine_ok_def engine_start_def client_init_def slot_ok_def slot_open_def latest_slot_new_def worker_ok_def)
qed

lemma engine_ok_step: "engine_ok (we_step E) g \<Longrightarrow> engine_step C E g g' \<Longrightarrow> engine_ok (we_step E) g'"
proof (erule engine_stepE)
  assume ok: "engine_ok (we_step E) g"
  {
    fix e queue app effs
    assume "g' = g\<lparr>en_app := app, en_queue := queue, en_effects := en_effects g + mset effs\<rparr>" "en_queue g = e # queue"
      "client_transition C (en_app g) e = (app, effs)"
    then show ?thesis
      using ok client_ok_step [of CLIENT_CHAIN "en_app g" C e] client_effects_ok [of "en_app g" C e]
        session_plan_step [of "we_step E" "en_app g" e C]
      by (auto simp: engine_ok_def)
  next
    fix reserves cfg
    assume g': "g' = execute_push reserves cfg (g\<lparr>en_effects := en_effects g - {#PushReserves reserves cfg#}\<rparr>)"
      and pushed: "PushReserves reserves cfg \<in># en_effects g"
    from ok pushed have "effect_ok (PushReserves reserves cfg)" by (auto simp: engine_ok_def)
    then have "slot_ok (fst (slot_send (en_slot g) \<lparr>sn_reserves = reserves, sn_session = cfg\<rparr>))"
      "slot_open (en_slot g) \<Longrightarrow> slot_open (fst (slot_send (en_slot g) \<lparr>sn_reserves = reserves, sn_session = cfg\<rparr>))"
      using ok by (auto simp: slot_send_def slot_ok_def slot_open_def engine_ok_def effect_ok_def split: lock.splits)
    with ok g' show ?thesis by (auto simp: engine_ok_def execute_push_def dest: in_diffD)
  next
    fix eff kind rid e
    assume "g' = g\<lparr>en_effects := en_effects g - {#eff#}, en_queue := en_queue g @ [e]\<rparr>" "answers e = Some (kind, rid)"
    with ok show ?thesis by (cases e) (auto simp: engine_ok_def event_ok_def dest: in_diffD)
  next
    fix slot worker events
    assume g': "g' = g\<lparr>en_slot := slot, en_worker := worker, en_queue := en_queue g @ events\<rparr>"
      and step: "worker_step E True (en_slot g) (en_worker g) = Some (slot, worker, events)"
    from step have "en_worker g \<noteq> Exited" by auto
    then have "pass_ok E (slot, worker, events)"
      using ok by (intro worker_pass_ok [OF _ _ _ step]) (simp_all add: engine_ok_def)
    with ok g' show ?thesis by (auto simp: engine_ok_def pass_ok_def)
  }
qed (auto simp: engine_ok_def event_ok_def)

lemma engine_reachable_ok: "engine_reachable C E asset g \<Longrightarrow> engine_ok (we_step E) g"
  by (induction rule: engine_reachable.induct) (auto intro: engine_ok_start engine_ok_step)

text \<open>
  C2. However the loop, the effects' threads, the clock, the user and the worker interleave, the engine
  keeps its contract: the session, the catalog and the route stay on one chain; only snapshots that
  reach the route they carry ever enter the mailbox or the worker; the worker's session is well
  formed for the route it was started for; and a plan that is queued or shown commits the configured amount.
\<close>

theorem engine_invariant_reachable:
  "engine_reachable C E asset g \<Longrightarrow> engine_ok (we_step E) g"
  by (rule engine_reachable_ok)

theorem engine_invariant_reachable_witness:
  "\<forall>(C :: nat client_env) (E :: (nat, nat, nat) worker_env). engine_ok (we_step E) (engine_start C (we_step E) 1 :: (nat, nat, nat) engine)"
  by (intro allI engine_invariant_reachable [OF reach_start])

text \<open>
  C10. The worker never stops silently and never over a route: when it stops, it has just reported the
  fault to the loop, and the fault is none of the three that a snapshot without the route causes. When
  it is blocked, it has no session and the mailbox is empty.
\<close>

theorem worker_stops_with_fault:
  assumes "engine_reachable C E asset g"
  shows "case worker_step E True (en_slot g) (en_worker g) of
      None \<Rightarrow> en_worker g = Exited \<or> en_worker g = Initializing None \<and> (case en_slot g of Lock state \<Rightarrow> ls_latest state = None | PoisonedLock \<Rightarrow> False)
    | Some (slot, worker, events) \<Rightarrow>
        (case worker of
           Exited \<Rightarrow> events \<in> fault_reports E
         | Initializing None \<Rightarrow> False
         | _ \<Rightarrow> slot_open slot)"
proof -
  note ok = engine_reachable_ok [OF assms]
  show ?thesis
  proof (cases "en_worker g = Exited")
    case False
    with ok have slot: "slot_ok (en_slot g)" "slot_open (en_slot g)" "worker_ok (we_step E) (en_worker g)" by (simp_all add: engine_ok_def)
    show ?thesis
    proof (cases "worker_step E True (en_slot g) (en_worker g)")
      case None
      with slot show ?thesis
        by (cases "en_worker g") (auto simp: slot_wait_take_def slot_ok_def elim!: worker_step.elims split: lock.splits option.splits if_splits)
    next
      case (Some pass)
      obtain slot' worker events where pass: "pass = (slot', worker, events)" by (cases pass)
      with worker_pass_ok [OF slot Some] Some pass show ?thesis by (auto simp: pass_ok_def split: worker.split option.split)
    qed
  qed simp
qed

theorem worker_stops_with_fault_witness:
  "\<forall>(C :: nat client_env) (E :: (nat, nat, nat) worker_env).
     case worker_step E True latest_slot_new (Initializing None) of
       None \<Rightarrow> (Initializing None :: (nat, nat, nat) worker) = Exited \<or> (Initializing None :: (nat, nat, nat) worker) = Initializing None \<and>
         (case latest_slot_new :: nat reserve_snapshot latest_slot lock of Lock state \<Rightarrow> ls_latest state = None | PoisonedLock \<Rightarrow> False)
     | Some (slot, worker, events) \<Rightarrow> (case worker of Exited \<Rightarrow> events \<in> fault_reports E | Initializing None \<Rightarrow> False | _ \<Rightarrow> slot_open slot)"
  using worker_stops_with_fault [OF reach_start] unfolding engine_start_def engine.simps by blast

end
