(* ===== verification/EngineTrace.thy ===== *)
theory EngineTrace
  imports Engine
begin

text \<open>
  A concrete run of the client engine: one pool, a session on the closed cycle of its first token, a
  retarget to the open route to its second token, and the worker's step for the old route arriving after
  the first slice of the new one. It shows that a plan for one route can be shown for another.
\<close>

section \<open>The setting\<close>

definition demo_wire :: wire_ops where
  "demo_wire = \<lparr>wo_parse_address = (\<lambda>s. Some (of_nat (length s))), wo_parse_hash = (\<lambda>_. Some 0),
     wo_parse_u160 = (\<lambda>_. Some (ps_sqrt_price_x96 demo_state)), wo_i24_of_i32 = (\<lambda>_. Some (ps_tick demo_state)),
     wo_i32_of_i24 = (\<lambda>_. Some (- 1)), wo_show_address = (\<lambda>_. ''a''), wo_show_hash = (\<lambda>_. ''h''), wo_show_u160 = show_hex\<rparr>"

definition demo_client :: "nat client_env" where
  "demo_client = \<lparr>ce_wire = demo_wire, ce_show_tick = (\<lambda>_. ''t''),
     ce_amounts = \<lparr>env_token_amount = (\<lambda>_ _. Inr 1), env_raw_amount = (\<lambda>_ _. Inr 1), env_fee_multiplier = (\<lambda>_. 1)\<rparr>\<rparr>"

definition demo_floats :: "nat float_ops" where
  "demo_floats = \<lparr>fl_zero = 0, fl_epsilon = 0, fl_add = (+), fl_sub = (-), fl_mul = (*), fl_div = (div), fl_min = min,
     fl_max = max, fl_neg = id, fl_ln = id, fl_exp = id, fl_less = (<), fl_le = (\<le>), fl_finite = (\<lambda>_. True)\<rparr>"

definition demo_model :: "(unit, unit, nat) model_ops" where
  "demo_model = \<lparr>mo_init_route = (\<lambda>_ _ _ _ _. Inr ()), mo_reconcile = (\<lambda>_ _ _ _. Inr ((), Refreshed)),
     mo_init_optimizer = (), mo_optimize_with = (\<lambda>_ _ _ _. ((), ())), mo_evaluate = (\<lambda>_ a. a),
     mo_extract_flows = (\<lambda>_ _. Inr []), mo_pool_slots = (\<lambda>_. 1), mo_plan_min_weight = 0\<rparr>"

definition demo_step :: "nat step_config" where
  "demo_step = \<lparr>st_input_amount = 1000, st_iterations = 10\<rparr>"

definition demo_worker :: "(unit, unit, nat) worker_env" where
  "demo_worker = \<lparr>we_floats = demo_floats, we_models = (\<lambda>_. demo_model), we_wgpu = False, we_backend = CpuBackend,
     we_step = demo_step, we_show_init = (\<lambda>_. ''e''), we_show_step = (\<lambda>_. ''e'')\<rparr>"

definition demo_meta :: pools_meta_response where
  "demo_meta = \<lparr>mr_pools = [\<lparr>me_key = QueryV3 ''ppp'', me_token0 = ''a'', me_token1 = ''bb'', me_fee_pips = 500, me_tick_spacing = 10\<rparr>],
     mr_tokens = [\<lparr>te_address = ''a'', te_decimals = 6\<rparr>, \<lparr>te_address = ''bb'', te_decimals = 6\<rparr>]\<rparr>"

definition demo_slice :: slice_response where
  "demo_slice = \<lparr>sp_block_hash = ''h'', sp_confirmations = 0,
     sp_pools = [\<lparr>sl_key = QueryV3 ''ppp'',
       sl_state = Complete \<lparr>wp_sqrt_price_x96 = ''p'', wp_tick = - 1, wp_liquidity = ''0xf4240''\<rparr>\<rparr>]\<rparr>"

definition demo_catalog :: catalog where
  "demo_catalog = parse_catalog demo_wire demo_meta Ethereum"

definition demo_pair :: "nat pool_reserves" where
  "demo_pair = \<lparr>rs_token0 = TokenAddress 1 Ethereum, rs_token1 = TokenAddress 2 Ethereum, rs_pool_id = pool_ref_v3 3 Ethereum,
     rs_value = \<lparr>vr_token_0 = 1, vr_token_1 = 1, vr_fee_multiplier = 1, vr_max_swap_0 = 1, vr_max_swap_1 = 1\<rparr>\<rparr>"

definition demo_route_config :: "address \<Rightarrow> session_config" where
  "demo_route_config token = \<lparr>sc_source_asset = TokenAddress 1 Ethereum, sc_output_asset = TokenAddress token Ethereum,
     sc_bridges = [], sc_whitelist = None\<rparr>"

lemma demo_catalog_unfolded:
  "demo_catalog = \<lparr>ct_chain = Ethereum,
     ct_pools = [(pool_ref_v3 3 Ethereum, \<lparr>pe_token0 = TokenAddress 1 Ethereum, pe_token1 = TokenAddress 2 Ethereum,
       pe_fee = Static 500 10, pe_token0_decimals = the_decimals, pe_token1_decimals = the_decimals\<rparr>)],
     ct_request = [QueryV3 ''ppp''], ct_excluded = []\<rparr>"
  if "try_from_u256 6 = Inr the_decimals"
  using that by (simp add: demo_catalog_def parse_catalog_def demo_meta_def catalog_decimals_def add_token_decimals_def resolve_entry_def parse_address_def demo_wire_def)

lemma demo_six: "\<exists>d. try_from_u256 6 = Inr d"
  by (simp add: try_from_u256_def MAX_SUPPORTED_DECIMALS_def)

lemma demo_liquidity: "u128_from_hex (strip_0x ''0xf4240'') = Some 1000000"
  by (simp add: u128_from_hex_def unsigned_digits_def strip_0x_def hex_digit_def)

lemma demo_project: "project_slice demo_client demo_catalog demo_slice = Inr [demo_pair, inverse_reserves demo_pair]"
proof -
  obtain d where d: "try_from_u256 6 = Inr d" using demo_six by blast
  obtain l0 l1 where limits: "swap_limit_x demo_state 10 = Some (Inr l0)" "swap_limit_y demo_state 10 = Some (Inr l1)"
    using swap_limits_of_consistent_pool [OF demo_state_in_tick, of 10] by auto
  have "parse_pool_state demo_wire (\<lambda>_. ''t'') \<lparr>wp_sqrt_price_x96 = ''p'', wp_tick = - 1, wp_liquidity = ''0xf4240''\<rparr> = Inr demo_state"
    using demo_liquidity by (simp add: parse_pool_state_def demo_wire_def demo_state_def)
  then show ?thesis
    using limits unfolding demo_catalog_unfolded [OF d] demo_client_def demo_slice_def
    by (simp add: project_slice_def parse_address_def demo_wire_def pool_reserve_values_def convert_pool_amount_def
        demo_pair_def)
qed

lemma demo_reaches:
  "reserves_reach_route [demo_pair, inverse_reserves demo_pair] (demo_route_config 1)"
  "reserves_reach_route [demo_pair, inverse_reserves demo_pair] (demo_route_config 2)"
  by code_simp+

section \<open>The transitions\<close>

text \<open>The session as it moves: its route, its lifecycle and its ledger.\<close>

definition demo_app :: "address \<Rightarrow> nat client_session \<Rightarrow> pending_fetches \<Rightarrow> nat app_state" where
  "demo_app token session fetches =
     \<lparr>as_config = \<lparr>cc_chain = Ethereum, cc_optimization = demo_route_config token, cc_step = demo_step, cc_backend = CpuBackend\<rparr>,
      as_health = None, as_last_error = None, as_session = session, as_pending = fetches\<rparr>"

definition demo_fetches :: "u64 \<Rightarrow> u64 \<Rightarrow> fetch_slot option \<Rightarrow> fetch_slot option \<Rightarrow> pending_fetches" where
  "demo_fetches n now meta slice_slot = \<lparr>pf_next_id = n, pf_now = now, pf_meta = meta, pf_slice = slice_slot,
     pf_health = Some \<lparr>ft_id = 0, ft_dispatched_at = 1\<rparr>\<rparr>"

definition demo_fetch :: "u64 \<Rightarrow> u64 \<Rightarrow> fetch_slot option" where
  "demo_fetch rid at = Some \<lparr>ft_id = rid, ft_dispatched_at = at\<rparr>"

definition demo_provenance :: slice_provenance where
  "demo_provenance = \<lparr>pv_block_hash = 0, pv_confirmations = 0\<rparr>"

lemmas demo_defs = demo_app_def demo_fetches_def demo_fetch_def demo_route_config_def

lemma demo_start:
  "client_init demo_client demo_step 1 =
     (demo_app 1 NoCatalog (demo_fetches 2 1 (demo_fetch 1 1) None), [FetchHealth 0, FetchMeta 1])"
  by (simp add: client_init_def app_started_def session_config_for_def route_arbitrage_def CLIENT_CHAIN_def fetches_new_def
      on_tick_def Let_def ledger_defs held_catalog_def demo_defs)

lemma demo_catalog_step:
  "client_transition demo_client (demo_app 1 NoCatalog (demo_fetches 2 1 (demo_fetch 1 1) None)) (MetaFetched 1 demo_meta) =
     (demo_app 1 (SessionReady demo_catalog (Awaiting AwaitBootstrapping)) (demo_fetches 3 1 None (demo_fetch 2 1)),
      [FetchSlice 2 (ct_request demo_catalog)])"
  by (simp add: with_accepted_if in_flight_def answered_def on_meta_def Let_def ledger_defs demo_defs demo_client_def demo_catalog_def)

lemma demo_slice_step:
  assumes "token = 1 \<or> token = 2" "wo = Awaiting AwaitBootstrapping"
  shows "client_transition demo_client (demo_app token (SessionReady demo_catalog wo) (demo_fetches n now None (demo_fetch rid at)))
      (SliceFetched rid demo_slice) =
     (demo_app token (SessionReady demo_catalog (Optimizing demo_provenance None None)) (demo_fetches n now None None),
      [PushReserves [demo_pair, inverse_reserves demo_pair] (demo_route_config token)])"
proof -
  have "reserves_reach_route [demo_pair, inverse_reserves demo_pair] (demo_route_config token)"
    using assms(1) demo_reaches by auto
  moreover have "parse_provenance (ce_wire demo_client) demo_slice = Inr demo_provenance"
    by (simp add: parse_provenance_def demo_client_def demo_wire_def demo_slice_def demo_provenance_def)
  ultimately show ?thesis
    using demo_project assms(2)
    by (simp add: with_accepted_if in_flight_def answered_def on_slice_def is_productive_def demo_app_def demo_fetches_def demo_fetch_def)
qed

lemma demo_retarget:
  "client_transition demo_client (demo_app 1 (SessionReady demo_catalog (Optimizing pv step plan)) fetches)
      (SetRoute \<lparr>rt_source = 1, rt_output = 2\<rparr>) =
     (demo_app 2 (SessionReady demo_catalog (Awaiting AwaitBootstrapping)) fetches, [])"
  by (simp add: on_set_route_def Let_def demo_app_def demo_route_config_def)

lemma demo_tick:
  "client_transition demo_client (demo_app 2 (SessionReady demo_catalog wo) (demo_fetches 3 1 None None)) ClientTick =
     (demo_app 2 (SessionReady demo_catalog wo) (demo_fetches 4 2 None (demo_fetch 3 2)), [FetchSlice 3 (ct_request demo_catalog)])"
  by (simp add: on_tick_def Let_def ledger_defs held_catalog_def demo_app_def demo_fetches_def demo_fetch_def FETCH_TTL_TICKS_def)

text \<open>The worker's first session is for the cycle, and so is its plan.\<close>

lemma demo_work:
  "\<exists>runner result plan. worker_step demo_worker True (Lock \<lparr>ls_latest = Some
       \<lparr>sn_reserves = [demo_pair, inverse_reserves demo_pair], sn_session = demo_route_config 1\<rparr>, ls_closed = False\<rparr>) (Initializing None) =
     Some (Lock \<lparr>ls_latest = None, ls_closed = False\<rparr>, Grinding runner (demo_route_config 1), [OptimizerStepped result (Some plan)]) \<and>
     ep_output_asset plan = TokenAddress 1 Ethereum"
proof -
  let ?rs = "[demo_pair, inverse_reserves demo_pair]"
  have "admissible_reserves ?rs (demo_route_config 1) = ?rs" by code_simp
  then show ?thesis
    by (simp add: slot_wait_take_def worker_initialize_def runner_init_def demo_worker_def wrap_runner_def initialize_session_def
        initialize_session_with_status_def validate_reserve_snapshot_def validate_step_config_def demo_floats_def demo_step_def
        reserve_keys_def reserve_key_of_def demo_pair_def inverse_reserves_def demo_route_config_def demo_model_def
        run_optimization_chunk_def Let_def worker_stepped_def build_plan_def)
qed

section \<open>The run\<close>

text \<open>The route a session shows is the route of the plan it shows.\<close>

definition shows_current_route :: "'f app_state \<Rightarrow> bool" where
  "shows_current_route s =
     (case as_session s of
        SessionReady _ (Optimizing _ _ (Some plan)) \<Rightarrow>
          ep_source_asset plan = sc_source_asset (cc_optimization (as_config s)) \<and>
          ep_output_asset plan = sc_output_asset (cc_optimization (as_config s))
      | _ \<Rightarrow> True)"

text \<open>A reachable engine, by its parts.\<close>

definition demo_engine :: "nat app_state \<Rightarrow> nat client_event list \<Rightarrow> nat client_effect list \<Rightarrow> nat reserve_snapshot option \<Rightarrow>
    (unit, unit, nat) worker \<Rightarrow> (unit, unit, nat) engine" where
  "demo_engine app queue effs waiting worker =
     \<lparr>en_app = app, en_queue = queue, en_effects = mset effs, en_slot = Lock \<lparr>ls_latest = waiting, ls_closed = False\<rparr>, en_worker = worker\<rparr>"

definition demo_at :: "nat app_state \<Rightarrow> nat client_event list \<Rightarrow> nat client_effect list \<Rightarrow> nat reserve_snapshot option \<Rightarrow>
    (unit, unit, nat) worker \<Rightarrow> bool" where
  "demo_at app queue effs waiting worker \<longleftrightarrow> engine_reachable demo_client demo_worker 1 (demo_engine app queue effs waiting worker)"

lemma demo_move:
  "demo_at app queue effs waiting worker \<Longrightarrow> engine_step demo_client demo_worker (demo_engine app queue effs waiting worker) g \<Longrightarrow>
   g = demo_engine app' queue' effs' waiting' worker' \<Longrightarrow> demo_at app' queue' effs' waiting' worker'"
  unfolding demo_at_def using reach_step by blast

lemma demo_fold:
  assumes "demo_at app (e # queue) effs waiting worker" "client_transition demo_client app e = (app', new)"
  shows "demo_at app' queue (new @ effs) waiting worker"
  by (rule demo_move [OF assms(1) fold_event [where e = e and queue = queue and app = app' and effs = new]]) (simp_all add: demo_engine_def assms(2) union_commute)

lemma demo_answer:
  assumes "demo_at app queue (eff # effs) waiting worker" "fetch_of eff = Some (kind, rid)" "answers e = Some (kind, rid)"
  shows "demo_at app (queue @ [e]) effs waiting worker"
  by (rule demo_move [OF assms(1) fetch [OF _ assms(2,3)]]) (simp_all add: demo_engine_def)

lemma demo_push:
  assumes "demo_at app queue (PushReserves reserves cfg # effs) waiting worker"
  shows "demo_at app queue effs (Some \<lparr>sn_reserves = reserves, sn_session = cfg\<rparr>) worker"
  by (rule demo_move [OF assms push [of reserves cfg]]) (simp_all add: demo_engine_def execute_push_def slot_send_def)

lemma demo_pass:
  assumes "demo_at app queue effs waiting worker"
    "worker_step demo_worker True (Lock \<lparr>ls_latest = waiting, ls_closed = False\<rparr>) worker =
       Some (Lock \<lparr>ls_latest = None, ls_closed = False\<rparr>, worker', events)"
  shows "demo_at app (queue @ events) effs None worker'"
  by (rule demo_move [OF assms(1) work [where worker = worker' and events = events and slot = "Lock \<lparr>ls_latest = None, ls_closed = False\<rparr>"]]) (simp_all add: demo_engine_def assms(2))

lemma demo_input:
  assumes "demo_at app queue effs waiting worker"
  shows "demo_at app (queue @ [ClientTick]) effs waiting worker" "demo_at app (queue @ [SetRoute r]) effs waiting worker"
  by (rule demo_move [OF assms poll_clock], simp add: demo_engine_def,
      rule demo_move [OF assms command], simp add: demo_engine_def)

text \<open>
  C36. A step that was computed for one route can be shown for another. A step result carries no route, so
  after a retarget the first slice of the new route makes the session optimize again, and a step of the
  old session that is still in the queue is recorded as the new route's: the plan that is shown ends
  in another token than the route.
\<close>

theorem stale_step_shown_for_new_route:
  "\<exists>g. engine_reachable demo_client demo_worker 1 g \<and> \<not> shows_current_route (en_app g)"
proof -
  let ?rs = "[demo_pair, inverse_reserves demo_pair]" and ?wait = "Initializing None :: (unit, unit, nat) worker"
  let ?cat = "SessionReady demo_catalog"
  obtain runner result plan where pass: "worker_step demo_worker True (Lock \<lparr>ls_latest = Some
       \<lparr>sn_reserves = ?rs, sn_session = demo_route_config 1\<rparr>, ls_closed = False\<rparr>) ?wait =
     Some (Lock \<lparr>ls_latest = None, ls_closed = False\<rparr>, Grinding runner (demo_route_config 1), [OptimizerStepped result (Some plan)])"
    and plan: "ep_output_asset plan = TokenAddress 1 Ethereum" using demo_work by blast
  have "demo_at (demo_app 1 NoCatalog (demo_fetches 2 1 (demo_fetch 1 1) None)) [] [FetchMeta 1, FetchHealth 0] None ?wait"
    using reach_start [of demo_client demo_worker 1]
    by (simp add: demo_at_def demo_engine_def engine_start_def demo_worker_def demo_start latest_slot_new_def add_mset_commute)
  from demo_answer [OF this, of MetaKind 1 "MetaFetched 1 demo_meta"]
  have "demo_at (demo_app 1 NoCatalog (demo_fetches 2 1 (demo_fetch 1 1) None)) [MetaFetched 1 demo_meta] [FetchHealth 0] None ?wait"
    by simp
  from demo_answer [OF demo_fold [OF this demo_catalog_step, unfolded append_Cons append_Nil], of SliceKind 2 "SliceFetched 2 demo_slice"]
  have "demo_at (demo_app 1 (?cat (Awaiting AwaitBootstrapping)) (demo_fetches 3 1 None (demo_fetch 2 1)))
      [SliceFetched 2 demo_slice] [FetchHealth 0] None ?wait" by simp
  from demo_push [OF demo_fold [OF this demo_slice_step [OF disjI1 [OF refl] refl], unfolded append_Cons append_Nil]]
  have "demo_at (demo_app 1 (?cat (Optimizing demo_provenance None None)) (demo_fetches 3 1 None None)) [] [FetchHealth 0]
      (Some \<lparr>sn_reserves = ?rs, sn_session = demo_route_config 1\<rparr>) ?wait" .
  from demo_input(1) [OF demo_fold [OF demo_input(2) [OF this, of "\<lparr>rt_source = 1, rt_output = 2\<rparr>", unfolded append_Nil] demo_retarget]]
  have "demo_at (demo_app 2 (?cat (Awaiting AwaitBootstrapping)) (demo_fetches 3 1 None None)) [ClientTick] [FetchHealth 0]
      (Some \<lparr>sn_reserves = ?rs, sn_session = demo_route_config 1\<rparr>) ?wait" by simp
  from demo_answer [OF demo_fold [OF this demo_tick, unfolded append_Cons append_Nil], of SliceKind 3 "SliceFetched 3 demo_slice"]
  have "demo_at (demo_app 2 (?cat (Awaiting AwaitBootstrapping)) (demo_fetches 4 2 None (demo_fetch 3 2))) [SliceFetched 3 demo_slice]
      [FetchHealth 0] (Some \<lparr>sn_reserves = ?rs, sn_session = demo_route_config 1\<rparr>) ?wait" by simp
  from demo_fold [OF demo_pass [OF this pass, unfolded append_Cons append_Nil] demo_slice_step [OF disjI2 [OF refl] refl]]
  have "demo_at (demo_app 2 (?cat (Optimizing demo_provenance None None)) (demo_fetches 4 2 None None)) [OptimizerStepped result (Some plan)]
      ([PushReserves ?rs (demo_route_config 2)] @ [FetchHealth 0]) None (Grinding runner (demo_route_config 1))" .
  note shown = demo_fold [OF this, of "demo_app 2 (?cat (Optimizing demo_provenance (Some result) (Some plan))) (demo_fetches 4 2 None None)" "[]"]
  have "client_transition demo_client (demo_app 2 (?cat (Optimizing demo_provenance None None)) (demo_fetches 4 2 None None))
      (OptimizerStepped result (Some plan)) =
     (demo_app 2 (?cat (Optimizing demo_provenance (Some result) (Some plan))) (demo_fetches 4 2 None None), [])"
    by (simp add: on_step_def demo_app_def)
  from shown [OF this] have "\<exists>g. engine_reachable demo_client demo_worker 1 g \<and>
      en_app g = demo_app 2 (?cat (Optimizing demo_provenance (Some result) (Some plan))) (demo_fetches 4 2 None None)"
    unfolding demo_at_def by (intro exI conjI) (assumption, simp add: demo_engine_def)
  moreover have "\<not> shows_current_route (demo_app 2 (?cat (Optimizing demo_provenance (Some result) (Some plan))) (demo_fetches 4 2 None None))"
    using plan by (simp add: shows_current_route_def demo_app_def demo_route_config_def)
  ultimately show ?thesis by auto
qed

end
