(* ===== verification/ServeLaws.thy ===== *)
theory ServeLaws
  imports Serve MultiChain
begin

text \<open>
  The laws of the served data: of the kernel's own projection for the optimizer, the client obtains exactly
  the part whose pools the overlay holds, and a pool that no block above the anchor has touched is served
  without a state although the kernel has one.
\<close>

section \<open>The codecs\<close>

definition codec_laws :: "wire_ops \<Rightarrow> bool" where
  "codec_laws W \<longleftrightarrow>
     (\<forall>a. wo_parse_address W (wo_show_address W a) = Some a) \<and>
     (\<forall>h. wo_parse_hash W (wo_show_hash W h) = Some h) \<and>
     (\<forall>x. wo_parse_u160 W (strip_0x (wo_show_u160 W x)) = Some x) \<and>
     (\<forall>t. \<exists>v. wo_i32_of_i24 W t = Some v \<and> wo_i24_of_i32 W v = Some t)"

lemma codec_lawsD:
  assumes "codec_laws W"
  shows "wo_parse_address W (wo_show_address W a) = Some a" "wo_parse_hash W (wo_show_hash W h) = Some h"
    "wo_parse_u160 W (strip_0x (wo_show_u160 W x)) = Some x"
    "wo_i24_of_i32 W (case wo_i32_of_i24 W t of None \<Rightarrow> 0 | Some v \<Rightarrow> v) = Some t"
proof -
  obtain v where "wo_i32_of_i24 W t = Some v" "wo_i24_of_i32 W v = Some t" using assms unfolding codec_laws_def by blast
  then show "wo_i24_of_i32 W (case wo_i32_of_i24 W t of None \<Rightarrow> 0 | Some v \<Rightarrow> v) = Some t" by simp
qed (use assms in \<open>simp_all add: codec_laws_def\<close>)

lemma served_query:
  assumes "codec_laws W" "pr_chain pool = CHAIN"
  shows "pool_ref_of W (wire_pool_query_of W pool) CHAIN = Inr pool" "served_pool_ref_of W (wire_pool_query_of W pool) = Some pool"
proof -
  obtain key where "pool = PoolRef key CHAIN" using assms(2) by (cases pool) simp
  then show "pool_ref_of W (wire_pool_query_of W pool) CHAIN = Inr pool" "served_pool_ref_of W (wire_pool_query_of W pool) = Some pool"
    using codec_lawsD [OF assms(1)] by (cases key; simp add: parse_address_def pool_ref_v3_def pool_ref_v4_def)+
qed

lemma served_pool_state: "codec_laws W \<Longrightarrow> parse_pool_state W show_tick (wire_pool_state_of W s) = Inr s"
  using codec_lawsD [of W]
  by (simp add: parse_pool_state_def wire_pool_state_of_def u128_round_trip)

section \<open>The client's catalog\<close>

definition decimals_ok :: "metadata_catalog \<Rightarrow> bool" where
  "decimals_ok c \<longleftrightarrow> (\<forall>(_, m)\<in>set (mc_tokens c). decimals_value (tm_decimals m) \<le> MAX_SUPPORTED_DECIMALS)"

definition servable :: "metadata_catalog \<Rightarrow> bool" where
  "servable c \<longleftrightarrow> hm_wf (mc_pools c) \<and> (\<forall>(pool, _)\<in>set (mc_pools c). pr_chain pool = CHAIN) \<and> decimals_ok c"

text \<open>What the catalog knows of a token, and the entry the client builds of a pool.\<close>

definition known_decimals :: "metadata_catalog \<Rightarrow> address \<Rightarrow> token_decimals option" where
  "known_decimals c a = map_option tm_decimals (map_of (mc_tokens c) (TokenAddress a CHAIN))"

definition client_entry :: "metadata_catalog \<Rightarrow> pool_metadata \<Rightarrow> pool_entry option" where
  "client_entry c m =
     (case (known_decimals c (pm_token0 m), known_decimals c (pm_token1 m)) of
        (Some d0, Some d1) \<Rightarrow> Some
          \<lparr>pe_token0 = TokenAddress (pm_token0 m) CHAIN, pe_token1 = TokenAddress (pm_token1 m) CHAIN,
           pe_fee = Static (pool_fee_pips (pm_fee m)) (pool_fee_tick_spacing (pm_fee m)),
           pe_token0_decimals = d0, pe_token1_decimals = d1\<rparr>
      | _ \<Rightarrow> None)"

lemma decimals_parse:
  assumes "v \<le> MAX_SUPPORTED_DECIMALS"
  shows "try_from_u256 (ucast v) = Inr (TokenDecimals v)"
proof -
  have up: "unat (ucast w :: u256) = unat w" for w :: u8
  proof -
    have "unat w < 2 ^ LENGTH(8)" by (rule unsigned_less)
    then show ?thesis by (simp add: unsigned_ucast_eq take_bit_nat_eq_self)
  qed
  have "ucast (ucast v :: u256) = v" by (rule ucast_up_ucast_id) (simp add: is_up source_size target_size)
  with assms show ?thesis by (simp add: try_from_u256_def word_le_nat_alt up)
qed

lemma catalog_decimals_entries:
  assumes codec: "codec_laws W" and ok: "decimals_ok c"
  shows "map_of (fold (add_token_decimals W) (List.map_filter (token_entry_of W c) as) ds) a =
     (if a \<in> set as \<and> known_decimals c a \<noteq> None then known_decimals c a else map_of ds a)"
proof (induction as arbitrary: ds)
  case (Cons b as)
  show ?case
  proof (cases "map_of (mc_tokens c) (TokenAddress b CHAIN)")
    case None
    then have "token_entry_of W c b = None" "known_decimals c b = None"
      by (simp_all add: token_entry_of_def catalog_token_metadata_def known_decimals_def)
    then show ?thesis by (auto simp: map_filter_simps Cons)
  next
    case (Some m)
    then have "decimals_value (tm_decimals m) \<le> MAX_SUPPORTED_DECIMALS"
      using ok by (auto simp: decimals_ok_def dest: map_of_SomeD)
    then have "try_from_u256 (ucast (decimals_value (tm_decimals m))) = Inr (tm_decimals m)"
      by (simp add: decimals_parse)
    moreover have "token_entry_of W c b = Some \<lparr>te_address = wo_show_address W b, te_decimals = decimals_value (tm_decimals m)\<rparr>"
      "known_decimals c b = Some (tm_decimals m)"
      using Some by (simp_all add: token_entry_of_def catalog_token_metadata_def known_decimals_def)
    moreover from calculation(1) have "add_token_decimals W \<lparr>te_address = wo_show_address W b, te_decimals = decimals_value (tm_decimals m)\<rparr> ds =
        AList.update b (tm_decimals m) ds"
      by (simp add: add_token_decimals_def codec_lawsD(1) [OF codec])
    ultimately show ?thesis by (auto simp: map_filter_simps Cons update_conv')
  qed
qed (simp add: map_filter_simps)

lemma parse_served_entries:
  assumes codec: "codec_laws W"
    and dec: "\<forall>(_, m)\<in>set pools. map_of decimals (pm_token0 m) = known_decimals c (pm_token0 m) \<and>
      map_of decimals (pm_token1 m) = known_decimals c (pm_token1 m)"
    and chains: "\<forall>(pool, _)\<in>set pools. pr_chain pool = CHAIN" and "distinct (map fst pools)"
  shows "map_of (ct_pools (parse_entries W CHAIN decimals (map (meta_entry_of W) pools) ct)) p =
      (case map_of pools p of
         Some m \<Rightarrow> (case client_entry c m of Some e \<Rightarrow> Some e | None \<Rightarrow> map_of (ct_pools ct) p)
       | None \<Rightarrow> map_of (ct_pools ct) p) \<and>
    ct_request (parse_entries W CHAIN decimals (map (meta_entry_of W) pools) ct) =
      ct_request ct @ map (wire_pool_query_of W \<circ> fst) (filter (\<lambda>(_, m). client_entry c m \<noteq> None) pools) \<and>
    ct_chain (parse_entries W CHAIN decimals (map (meta_entry_of W) pools) ct) = ct_chain ct"
  using dec chains assms(4)
proof (induction pools arbitrary: ct)
  case (Cons e pools)
  obtain pool m where e: "e = (pool, m)" by (cases e)
  have chain: "pr_chain pool = CHAIN" using Cons.prems(2) e by simp
  have resolve: "resolve_entry W CHAIN (meta_entry_of W (pool, m)) = Inr (pool, pm_token0 m, pm_token1 m)"
    using codec_lawsD [OF codec] served_query [OF codec chain]
    by (simp add: resolve_entry_def meta_entry_of_def parse_address_def)
  have d: "map_of decimals (pm_token0 m) = known_decimals c (pm_token0 m)" "map_of decimals (pm_token1 m) = known_decimals c (pm_token1 m)"
    using Cons.prems(1) e by simp_all
  have fresh: "map_of pools pool = None" using Cons.prems(3) e by (simp add: map_of_eq_None_iff)
  have tail: "\<forall>(_, m)\<in>set pools. map_of decimals (pm_token0 m) = known_decimals c (pm_token0 m) \<and>
      map_of decimals (pm_token1 m) = known_decimals c (pm_token1 m)" "\<forall>(pool, _)\<in>set pools. pr_chain pool = CHAIN"
    "distinct (map fst pools)" using Cons.prems by simp_all
  note IH = Cons.IH [OF tail]
  show ?case
  proof (cases "client_entry c m")
    case None
    then have "known_decimals c (pm_token0 m) = None \<or> known_decimals c (pm_token1 m) = None"
      by (auto simp: client_entry_def split: option.splits)
    then obtain ct' where step: "parse_entries W CHAIN decimals (map (meta_entry_of W) (e # pools)) ct =
        parse_entries W CHAIN decimals (map (meta_entry_of W) pools) (ct\<lparr>ct_excluded := ct'\<rparr>)"
      using resolve d e by (cases "known_decimals c (pm_token0 m)") (auto split: option.splits)
    show ?thesis
      unfolding step using IH [of "ct\<lparr>ct_excluded := ct'\<rparr>"] None by (cases "p = pool") (simp_all add: e fresh split: option.split)
  next
    case (Some entry)
    have step: "parse_entries W CHAIN decimals (map (meta_entry_of W) (e # pools)) ct =
        parse_entries W CHAIN decimals (map (meta_entry_of W) pools)
          (ct\<lparr>ct_pools := AList.update pool entry (ct_pools ct), ct_request := ct_request ct @ [wire_pool_query_of W pool]\<rparr>)"
      using Some resolve d e by (auto simp: client_entry_def meta_entry_of_def split: option.splits)
    show ?thesis
      unfolding step
      using IH [of "ct\<lparr>ct_pools := AList.update pool entry (ct_pools ct), ct_request := ct_request ct @ [wire_pool_query_of W pool]\<rparr>"]
        Some
      by (cases "p = pool") (simp_all add: e fresh update_conv' split: option.split)
  qed
qed simp

text \<open>The catalog the client builds of a served one.\<close>

lemma client_catalog:
  assumes codec: "codec_laws W" and c: "servable c"
  shows "map_of (ct_pools (parse_catalog W (meta_payload W c) CHAIN)) pool = Option.bind (map_of (mc_pools c) pool) (client_entry c)"
    "ct_request (parse_catalog W (meta_payload W c) CHAIN) =
      map (wire_pool_query_of W \<circ> fst) (filter (\<lambda>(_, m). client_entry c m \<noteq> None) (mc_pools c))"
    "ct_chain (parse_catalog W (meta_payload W c) CHAIN) = CHAIN"
proof -
  let ?tokens = "served_tokens (mc_pools c)"
  have iter: "catalog_iter_pools c = mc_pools c" by (simp add: catalog_iter_pools_def)
  have known: "map_of (catalog_decimals W (List.map_filter (token_entry_of W c) ?tokens)) a = known_decimals c a" if "a \<in> set ?tokens" for a
    unfolding catalog_decimals_def using catalog_decimals_entries [OF codec, of c ?tokens "[]" a] c that by (simp add: servable_def)
  have "\<forall>(_, m)\<in>set (mc_pools c). pm_token0 m \<in> set ?tokens \<and> pm_token1 m \<in> set ?tokens"
    by (force simp: served_tokens_def)
  with known have dec: "\<forall>(_, m)\<in>set (mc_pools c).
      map_of (catalog_decimals W (List.map_filter (token_entry_of W c) ?tokens)) (pm_token0 m) = known_decimals c (pm_token0 m) \<and>
      map_of (catalog_decimals W (List.map_filter (token_entry_of W c) ?tokens)) (pm_token1 m) = known_decimals c (pm_token1 m)" by fast
  have c': "\<forall>(pool, _)\<in>set (mc_pools c). pr_chain pool = CHAIN" "distinct (map fst (mc_pools c))"
    using c by (simp_all add: servable_def hm_wf_def)
  note parse = parse_served_entries [OF codec dec c', of "\<lparr>ct_chain = CHAIN, ct_pools = [], ct_request = [], ct_excluded = []\<rparr>"]
  show "map_of (ct_pools (parse_catalog W (meta_payload W c) CHAIN)) pool = Option.bind (map_of (mc_pools c) pool) (client_entry c)"
    using parse [of pool] by (simp add: parse_catalog_def meta_payload_def Let_def iter split: option.splits)
  show "ct_request (parse_catalog W (meta_payload W c) CHAIN) =
      map (wire_pool_query_of W \<circ> fst) (filter (\<lambda>(_, m). client_entry c m \<noteq> None) (mc_pools c))"
    using parse [of pool] by (simp add: parse_catalog_def meta_payload_def Let_def iter)
  show "ct_chain (parse_catalog W (meta_payload W c) CHAIN) = CHAIN"
    using parse [of pool] by (simp add: parse_catalog_def meta_payload_def Let_def iter)
qed

section \<open>The slice\<close>

lemma slices_served:
  assumes codec: "codec_laws W" and "\<forall>(pool, _)\<in>set ps. pr_chain pool = CHAIN"
  shows "slices_of W st (map (wire_pool_query_of W \<circ> fst) ps) =
    Some (map (\<lambda>(pool, _). \<lparr>sl_key = wire_pool_query_of W pool, sl_state = served_state W st pool\<rparr>) ps)"
  using assms(2) by (induction ps) (auto simp: served_query [OF codec])

lemma project_served:
  assumes codec: "codec_laws (ce_wire C)" and ct: "ct_chain ct = CHAIN"
    and "\<forall>(pool, _)\<in>set ps. pr_chain pool = CHAIN"
    and "\<forall>(pool, _)\<in>set ps. \<forall>s. map_of st pool = Some s \<longrightarrow> (\<exists>e v. map_of (ct_pools ct) pool = Some e \<and>
      pool_reserve_values (ce_amounts C) pool s (pe_fee e) (pe_token0 e) (pe_token1 e) (pe_token0_decimals e) (pe_token1_decimals e) = Inr v \<and>
      res pool = \<lparr>rs_token0 = pe_token0 e, rs_token1 = pe_token1 e, rs_pool_id = pool, rs_value = v\<rparr>)"
  shows "project_slices C ct (map (\<lambda>(pool, _). \<lparr>sl_key = wire_pool_query_of (ce_wire C) pool, sl_state = served_state (ce_wire C) st pool\<rparr>) ps) =
    Inr (map res (filter (\<lambda>pool. map_of st pool \<noteq> None) (map fst ps)))"
  using assms(3,4)
proof (induction ps)
  case (Cons p ps)
  obtain pool m where p: "p = (pool, m)" by (cases p)
  have chain: "pr_chain pool = CHAIN" using Cons.prems(1) p by simp
  from Cons.prems have tail: "\<forall>(pool, _)\<in>set ps. pr_chain pool = CHAIN" by simp
  have rest: "\<forall>(pool, _)\<in>set ps. \<forall>s. map_of st pool = Some s \<longrightarrow> (\<exists>e v. map_of (ct_pools ct) pool = Some e \<and>
      pool_reserve_values (ce_amounts C) pool s (pe_fee e) (pe_token0 e) (pe_token1 e) (pe_token0_decimals e) (pe_token1_decimals e) = Inr v \<and>
      res pool = \<lparr>rs_token0 = pe_token0 e, rs_token1 = pe_token1 e, rs_pool_id = pool, rs_value = v\<rparr>)"
    using Cons.prems(2) by (auto simp only: list.set ball_simps insert_iff)
  note IH = Cons.IH [OF tail rest]
  show ?case
  proof (cases "map_of st pool")
    case None
    with IH p show ?thesis by (simp add: served_state_def)
  next
    case (Some s)
    obtain e v where e: "map_of (ct_pools ct) pool = Some e"
      "pool_reserve_values (ce_amounts C) pool s (pe_fee e) (pe_token0 e) (pe_token1 e) (pe_token0_decimals e) (pe_token1_decimals e) = Inr v"
      "res pool = \<lparr>rs_token0 = pe_token0 e, rs_token1 = pe_token1 e, rs_pool_id = pool, rs_value = v\<rparr>"
      using Cons.prems(2) p Some by fastforce
    with IH p Some show ?thesis
      by (simp add: served_state_def ct served_query [OF codec chain] served_pool_state [OF codec])
  qed
qed simp

section \<open>The kernel's projection\<close>

definition kernel_reserve :: "'f env \<Rightarrow> kernel_state \<Rightarrow> pool_states \<Rightarrow> pool_ref \<Rightarrow> 'f pool_reserves" where
  "kernel_reserve E k st pool =
     (case the (projection_metadata k CHAIN pool) of (token0, token1, fee, decimals0, decimals1) \<Rightarrow>
        \<lparr>rs_token0 = token0, rs_token1 = token1, rs_pool_id = pool,
         rs_value = projr (pool_reserve_values E pool (the (map_of st pool)) fee token0 token1 decimals0 decimals1)\<rparr>)"

lemma project_pools_values:
  assumes "project_pools E k CHAIN L = Inr (Some reserves)" "\<forall>(pool, s)\<in>set L. map_of st pool = Some s"
  shows "reserves = concat (map (\<lambda>r. [r, inverse_reserves r]) (map (kernel_reserve E k st) (map fst L))) \<and>
    (\<forall>(pool, s)\<in>set L. \<exists>token0 token1 fee decimals0 decimals1 v.
       projection_metadata k CHAIN pool = Some (token0, token1, fee, decimals0, decimals1) \<and>
       pool_reserve_values E pool s fee token0 token1 decimals0 decimals1 = Inr v)"
  using assms
proof (induction L arbitrary: reserves)
  case (Cons p L)
  obtain pool s where p: "p = (pool, s)" by (cases p)
  from Cons.prems(1) p obtain token0 token1 fee decimals0 decimals1 v rest where
    m: "projection_metadata k CHAIN pool = Some (token0, token1, fee, decimals0, decimals1)"
      "pool_reserve_values E pool s fee token0 token1 decimals0 decimals1 = Inr v"
      "project_pools E k CHAIN L = Inr (Some rest)" and
    reserves: "reserves = \<lparr>rs_token0 = token0, rs_token1 = token1, rs_pool_id = pool, rs_value = v\<rparr> #
      inverse_reserves \<lparr>rs_token0 = token0, rs_token1 = token1, rs_pool_id = pool, rs_value = v\<rparr> # rest"
    by (auto simp: Let_def split: option.splits prod.splits sum.splits)
  have "map_of st pool = Some s" using Cons.prems(2) p by simp
  with m have "kernel_reserve E k st pool = \<lparr>rs_token0 = token0, rs_token1 = token1, rs_pool_id = pool, rs_value = v\<rparr>"
    by (simp add: kernel_reserve_def)
  with Cons.IH [OF m(3)] Cons.prems(2) m p reserves show ?case by simp
qed simp

text \<open>A pool whose metadata the kernel projects with is in the served catalog, under the same values.\<close>

definition no_native_token :: "kernel_state \<Rightarrow> bool" where
  "no_native_token k \<longleftrightarrow> (\<forall>(_, m)\<in>set (pr_verified (ks_pool_registry k)). pm_token0 m \<noteq> 0 \<and> pm_token1 m \<noteq> 0)"

lemma projected_entry:
  assumes "projection_metadata k CHAIN pool = Some (token0, token1, fee, decimals0, decimals1)" "no_native_token k"
  obtains m e where "map_of (mc_pools (metadata_catalog_of k)) pool = Some m" "client_entry (metadata_catalog_of k) m = Some e"
    "pe_token0 e = token0" "pe_token1 e = token1" "pe_token0_decimals e = decimals0" "pe_token1_decimals e = decimals1"
    "pool_fee_pips (pe_fee e) = pool_fee_pips fee" "pool_fee_tick_spacing (pe_fee e) = pool_fee_tick_spacing fee"
proof -
  obtain m m0 m1 where m: "map_of (pr_verified (ks_pool_registry k)) pool = Some m"
    "token_verified_metadata (ks_token_registry k) (TokenAddress (pm_token0 m) CHAIN) = Some m0"
    "token_verified_metadata (ks_token_registry k) (TokenAddress (pm_token1 m) CHAIN) = Some m1"
    "token0 = TokenAddress (pm_token0 m) CHAIN" "token1 = TokenAddress (pm_token1 m) CHAIN" "fee = pm_fee m"
    "decimals0 = tm_decimals m0" "decimals1 = tm_decimals m1"
    using assms(1) by (auto simp: projection_metadata_def pool_verified_metadata_def Let_def split: option.splits)
  have "pm_token0 m \<noteq> 0" "pm_token1 m \<noteq> 0" using assms(2) map_of_SomeD [OF m(1)] by (auto simp: no_native_token_def)
  with m(2,3) have "known_decimals (metadata_catalog_of k) (pm_token0 m) = Some (tm_decimals m0)"
    "known_decimals (metadata_catalog_of k) (pm_token1 m) = Some (tm_decimals m1)"
    by (simp_all add: known_decimals_def metadata_catalog_of_def catalog_from_views_def token_verified_view_def token_verified_metadata_def)
  then have e: "client_entry (metadata_catalog_of k) m = Some
      \<lparr>pe_token0 = token0, pe_token1 = token1, pe_fee = Static (pool_fee_pips (pm_fee m)) (pool_fee_tick_spacing (pm_fee m)),
       pe_token0_decimals = decimals0, pe_token1_decimals = decimals1\<rparr>"
    using m(4,5,7,8) by (simp add: client_entry_def)
  show ?thesis by (rule that [OF _ e]) (use m(1,6) in \<open>simp_all add: metadata_catalog_of_def catalog_from_views_def pool_verified_view_def\<close>)
qed

lemma convert_truncated:
  "convert_pool_amount (amount_env.truncate E) = convert_pool_amount E"
  "env_fee_multiplier (amount_env.truncate E) = env_fee_multiplier E"
  by (intro ext) (simp_all add: convert_pool_amount_def amount_env.truncate_def)

lemma reserve_values_fee:
  "ce_amounts C = amount_env.truncate E \<Longrightarrow> pool_fee_pips fee = pool_fee_pips fee' \<Longrightarrow>
   pool_fee_tick_spacing fee = pool_fee_tick_spacing fee' \<Longrightarrow>
   pool_reserve_values (ce_amounts C) pool s fee t0 t1 d0 d1 = pool_reserve_values E pool s fee' t0 t1 d0 d1"
  by (simp only: pool_reserve_values_def convert_truncated)

lemma sort_reserves:
  assumes "\<And>pool. rs_pool_id (res pool) = pool" "distinct pools" "sorted pools'" "distinct pools'" "set pools = set pools'"
  shows "sort_key rs_pool_id (map res pools) = map res pools'"
proof (rule map_sorted_distinct_set_unique [of rs_pool_id])
  have "map (rs_pool_id \<circ> res) ps = ps" for ps using assms(1) by (simp add: comp_def)
  then have ids: "map rs_pool_id (map res ps) = ps" for ps by simp
  show "sorted (map rs_pool_id (map res pools'))" "distinct (map rs_pool_id (map res pools'))"
    unfolding ids by (fact assms(3,4))+
  show "sorted (map rs_pool_id (sort_key rs_pool_id (map res pools)))" by simp
  have "distinct (map rs_pool_id (map res pools))" unfolding ids by (fact assms(2))
  then show "distinct (map rs_pool_id (sort_key rs_pool_id (map res pools)))"
    by (metis distinct_map distinct_sort set_sort)
  show "set (sort_key rs_pool_id (map res pools)) = set (map res pools')" using assms(5) by simp
  show "inj_on rs_pool_id (set (sort_key rs_pool_id (map res pools)) \<union> set (map res pools'))"
    by (rule inj_onI) (use assms(1) in auto)
qed

text \<open>
  The states of the overlay: for every kernel whose overlay the projection accepts, the client obtains
  exactly its reserves.
\<close>

lemma served_overlay_projects:
  assumes codec: "codec_laws (ce_wire C)" and amounts: "ce_amounts C = amount_env.truncate E"
    and c: "servable (metadata_catalog_of k)" and native: "no_native_token k"
    and domain: "project_pools E k CHAIN (sort_key fst (fst (state_projected_pool_states B k CHAIN))) = Inr (Some reserves)"
  shows "let catalog = parse_catalog (ce_wire C) (meta_payload (ce_wire C) (rn_catalog (running_snapshot_of B k))) CHAIN
    in \<exists>response. slice_payload (ce_wire C) (running_snapshot_of B k) (ct_request catalog) = Some response \<and>
         project_slice C catalog response = Inr reserves"
proof -
  let ?c = "metadata_catalog_of k" and ?st = "fst (state_projected_pool_states B k CHAIN)"
  let ?ct = "parse_catalog (ce_wire C) (meta_payload (ce_wire C) ?c) CHAIN"
  let ?ps = "filter (\<lambda>(_, m). client_entry ?c m \<noteq> None) (mc_pools ?c)" and ?res = "kernel_reserve E k ?st"
  note ct = client_catalog [OF codec c]
  have wf: "hm_wf ?st"
    by (simp add: state_projected_pool_states_def projected_pool_states_def hm_wf_overlay split: option.split)
  have states: "\<forall>(pool, s)\<in>set (sort_key fst ?st). map_of ?st pool = Some s"
    using wf by (auto simp: hm_wf_def)
  note vals = project_pools_values [OF domain states]
  have keys: "fst ` set ?st = {pool. map_of ?st pool \<noteq> None}" by (auto simp: map_of_eq_None_iff)
  have held: "\<exists>m e v. map_of (mc_pools ?c) pool = Some m \<and> client_entry ?c m = Some e \<and>
      pool_reserve_values (ce_amounts C) pool s (pe_fee e) (pe_token0 e) (pe_token1 e) (pe_token0_decimals e) (pe_token1_decimals e) = Inr v \<and>
      ?res pool = \<lparr>rs_token0 = pe_token0 e, rs_token1 = pe_token1 e, rs_pool_id = pool, rs_value = v\<rparr>"
    if s: "map_of ?st pool = Some s" for pool s
  proof -
    obtain token0 token1 fee decimals0 decimals1 v where v:
      "projection_metadata k CHAIN pool = Some (token0, token1, fee, decimals0, decimals1)"
      "pool_reserve_values E pool s fee token0 token1 decimals0 decimals1 = Inr v"
      using vals map_of_SomeD [OF s] by fastforce
    obtain m e where e: "map_of (mc_pools ?c) pool = Some m" "client_entry ?c m = Some e" "pe_token0 e = token0" "pe_token1 e = token1"
      "pe_token0_decimals e = decimals0" "pe_token1_decimals e = decimals1" and
      fee: "pool_fee_pips (pe_fee e) = pool_fee_pips fee" "pool_fee_tick_spacing (pe_fee e) = pool_fee_tick_spacing fee"
      by (rule projected_entry [OF v(1) native])
    from s v e reserve_values_fee [OF amounts fee] show ?thesis
      by (intro exI [of _ m] exI [of _ e] exI [of _ v]) (simp add: kernel_reserve_def)
  qed
  have chains: "\<forall>(pool, _)\<in>set ?ps. pr_chain pool = CHAIN" using c by (auto simp: servable_def)
  have "map_of (ct_pools ?ct) pool = Some e" if "map_of (mc_pools ?c) pool = Some m" "client_entry ?c m = Some e" for pool m e
    using that by (simp add: ct(1))
  with held have "\<forall>(pool, _)\<in>set ?ps. \<forall>s. map_of ?st pool = Some s \<longrightarrow> (\<exists>e v. map_of (ct_pools ?ct) pool = Some e \<and>
      pool_reserve_values (ce_amounts C) pool s (pe_fee e) (pe_token0 e) (pe_token1 e) (pe_token0_decimals e) (pe_token1_decimals e) = Inr v \<and>
      ?res pool = \<lparr>rs_token0 = pe_token0 e, rs_token1 = pe_token1 e, rs_pool_id = pool, rs_value = v\<rparr>)" by blast
  note project = project_served [OF codec ct(3) chains this]
  have "sort_key rs_pool_id (map ?res (filter (\<lambda>pool. map_of ?st pool \<noteq> None) (map fst ?ps))) = map ?res (map fst (sort_key fst ?st))"
  proof (rule sort_reserves)
    show "rs_pool_id (?res pool) = pool" for pool by (simp add: kernel_reserve_def split: prod.split)
    show "distinct (filter (\<lambda>pool. map_of ?st pool \<noteq> None) (map fst ?ps))"
      using c by (auto simp: servable_def hm_wf_def intro: distinct_filter dest: distinct_map_filter)
    show "sorted (map fst (sort_key fst ?st))" by simp
    show "distinct (map fst (sort_key fst ?st))" using wf by (simp add: hm_wf_def distinct_map)
    have "pool \<in> fst ` set ?ps" if "map_of ?st pool \<noteq> None" for pool
      using that held by (force dest: map_of_SomeD)
    then show "set (filter (\<lambda>pool. map_of ?st pool \<noteq> None) (map fst ?ps)) = set (map fst (sort_key fst ?st))"
      using keys by auto
  qed
  with project have "project_slices C ?ct (map (\<lambda>(pool, _). \<lparr>sl_key = wire_pool_query_of (ce_wire C) pool,
      sl_state = served_state (ce_wire C) ?st pool\<rparr>) ?ps) = Inr (map ?res (filter (\<lambda>pool. map_of ?st pool \<noteq> None) (map fst ?ps)))"
    "sort_key rs_pool_id (map ?res (filter (\<lambda>pool. map_of ?st pool \<noteq> None) (map fst ?ps))) = map ?res (map fst (sort_key fst ?st))" by simp_all
  then show ?thesis
    using vals slices_served [OF codec chains, of ?st]
    by (simp add: running_snapshot_of_def split_beta Let_def ct(2) slice_payload_def project_slice_def)
qed

section \<open>The kernel's own projection\<close>

text \<open>The projection of the pools that satisfy a test is the projection of them all, cut down to those pools.\<close>

lemma project_pools_filter:
  assumes "project_pools E k chain L = Inr (Some reserves)"
  shows "project_pools E k chain (filter (P \<circ> fst) L) = Inr (Some (filter (P \<circ> rs_pool_id) reserves))"
  using assms
proof (induction L arbitrary: reserves)
  case (Cons p L)
  obtain pool s where p: "p = (pool, s)" by (cases p)
  from Cons.prems p obtain token0 token1 fee decimals0 decimals1 v rest where
    m: "projection_metadata k chain pool = Some (token0, token1, fee, decimals0, decimals1)"
      "pool_reserve_values E pool s fee token0 token1 decimals0 decimals1 = Inr v"
      "project_pools E k chain L = Inr (Some rest)" and
    reserves: "reserves = \<lparr>rs_token0 = token0, rs_token1 = token1, rs_pool_id = pool, rs_value = v\<rparr> #
      inverse_reserves \<lparr>rs_token0 = token0, rs_token1 = token1, rs_pool_id = pool, rs_value = v\<rparr> # rest"
    by (auto simp: Let_def split: option.splits prod.splits sum.splits)
  have "rs_pool_id (inverse_reserves r) = rs_pool_id r" for r :: "'a pool_reserves" by (simp add: inverse_reserves_def)
  with Cons.IH [OF m(3)] m p reserves show ?case by (simp add: Let_def)
qed simp

text \<open>What the merge of the overlay over the finalized snapshot holds of the overlay's pools is the overlay.\<close>

lemma merged_overlay:
  assumes "hm_wf finalized" "hm_wf overlay"
  shows "filter (hm_contains overlay \<circ> fst) (sorted_pool_states_for_projection finalized overlay) = sort_key fst overlay"
proof -
  let ?L = "filter (hm_contains overlay \<circ> fst) (hm_extend finalized overlay)"
  have wf: "hm_wf ?L" using assms(1) by simp
  have "map_of (hm_extend finalized overlay) pool = map_of overlay pool" if "hm_contains overlay pool" for pool
    using that map_of_rev_wf [OF assms(2)] by (auto simp: hm_contains_def map_of_extend split: option.split)
  then have "map_of (hm_extend finalized overlay) pool = Some s \<and> hm_contains overlay pool \<longleftrightarrow> map_of overlay pool = Some s" for pool s
    by (auto simp: hm_contains_def)
  moreover have "(pool, s) \<in> set ?L \<longleftrightarrow> map_of (hm_extend finalized overlay) pool = Some s \<and> hm_contains overlay pool" for pool s
    using assms(1) by (auto simp: hm_wf_in_set)
  ultimately have "(pool, s) \<in> set ?L \<longleftrightarrow> (pool, s) \<in> set overlay" for pool s
    by (simp only: hm_wf_in_set [OF assms(2)])
  then have same: "set ?L = set overlay" by (intro set_eqI) (simp only: split_paired_all)
  have "sort_key fst ?L = sort_key fst overlay"
  proof (rule map_sorted_distinct_set_unique [of fst])
    show "inj_on fst (set (sort_key fst ?L) \<union> set (sort_key fst overlay))"
      using assms(2) same by (simp add: hm_wf_def distinct_map)
  qed (use wf assms(2) same in \<open>simp_all add: hm_wf_def distinct_map\<close>)
  then show ?thesis by (simp add: sorted_pool_states_for_projection_def filter_sort)
qed

lemma merged_everywhere:
  assumes "fst ` set finalized \<subseteq> fst ` set overlay"
  shows "filter (hm_contains overlay \<circ> fst) (sorted_pool_states_for_projection finalized overlay) =
    sorted_pool_states_for_projection finalized overlay"
proof -
  have "fst ` set (sorted_pool_states_for_projection finalized overlay) \<subseteq> fst ` set overlay"
    using assms by (simp add: sorted_pool_states_for_projection_def hm_extend_keys)
  then show ?thesis by (intro filter_True) (auto simp: hm_contains_iff)
qed

text \<open>
  C4. What the client can lose and what it cannot. Let the kernel's own projection, which merges the overlay
  over the finalized snapshot, accept the states of an active kernel. Then the client that reads the
  server's rendered catalog, requests the pools it can project and reads the server's rendered slice obtains,
  in the same order and with the same values, exactly those reserves of that projection whose pool the overlay
  holds, and thus the whole projection when no pool is known from the finalized snapshot alone. This holds
  when the codecs outside invert each other, the client converts amounts as the kernel does, no
  tracked pool trades the native token, the catalog has one entry per pool, only pools of the served
  chain, and decimals within the supported bound, and the snapshot has one entry per pool.
\<close>

theorem served_slice_projects_as_kernel:
  assumes codec: "codec_laws (ce_wire C)" and amounts: "ce_amounts C = amount_env.truncate E"
    and c: "servable (metadata_catalog_of k)" and native: "no_native_token k" and snapshot: "hm_wf (ks_snapshot k)"
    and active: "map_of chain_map CHAIN = Some (Active k)"
    and projection: "pool_reserves_for_optimization E chain_map CHAIN (optimization_update B k CHAIN) = Inr (Some projected)"
  shows "let catalog = parse_catalog (ce_wire C) (meta_payload (ce_wire C) (rn_catalog (running_snapshot_of B k))) CHAIN;
             overlay = ou_pool_states (optimization_update B k CHAIN);
             served = filter (\<lambda>r. hm_contains overlay (rs_pool_id r)) (cr_reserves projected)
    in (\<exists>response. slice_payload (ce_wire C) (running_snapshot_of B k) (ct_request catalog) = Some response \<and>
         project_slice C catalog response = Inr served) \<and>
       (fst ` set (ks_snapshot k) \<subseteq> fst ` set overlay \<longrightarrow> served = cr_reserves projected)"
proof -
  let ?st = "fst (state_projected_pool_states B k CHAIN)"
  have overlay: "ou_pool_states (optimization_update B k CHAIN) = ?st"
    by (simp add: optimization_update_def split_beta Let_def)
  have wf: "hm_wf ?st"
    by (simp add: state_projected_pool_states_def projected_pool_states_def hm_wf_overlay split: option.split)
  have all: "project_pools E k CHAIN (sorted_pool_states_for_projection (ks_snapshot k) ?st) = Inr (Some (cr_reserves projected))"
    using projection active overlay by (auto simp: pool_reserves_for_optimization_def split: sum.splits option.splits)
  note cut = project_pools_filter [OF all, of "hm_contains ?st", unfolded merged_overlay [OF snapshot wf]]
  note client = served_overlay_projects [OF codec amounts c native cut]
  have "filter (hm_contains ?st \<circ> rs_pool_id) (cr_reserves projected) = cr_reserves projected"
    if "fst ` set (ks_snapshot k) \<subseteq> fst ` set ?st"
    using project_pools_filter [OF all, of "hm_contains ?st", unfolded merged_everywhere [OF that]] all by simp
  with client show ?thesis by (simp add: overlay comp_def Let_def)
qed

section \<open>A codec and a kernel\<close>

text \<open>Hexadecimal text inverts itself for words of any length, so the codec's laws can hold.\<close>

definition read_hex :: "string \<Rightarrow> 'a::len word option" where
  "read_hex s = map_option of_nat (parse_hex_digits (2 ^ LENGTH('a)) 0 (strip_0x s))"

definition hex_wire :: wire_ops where
  "hex_wire = \<lparr>wo_parse_address = read_hex, wo_parse_hash = read_hex, wo_parse_u160 = (\<lambda>s. read_hex (''0x'' @ s)),
     wo_i24_of_i32 = (\<lambda>v. Some (ucast v)), wo_i32_of_i24 = (\<lambda>t. Some (ucast t)), wo_show_address = show_hex,
     wo_show_hash = show_hex, wo_show_u160 = show_hex\<rparr>"

lemma read_show_hex: "read_hex (show_hex w) = Some w"
proof -
  have "parse_hex_digits (2 ^ LENGTH('a)) 0 (hex_digits (unat w)) = Some (unat w)" for w :: "'a::len word"
    by (rule parse_hex_show) (rule unsigned_less)
  then show ?thesis by (simp add: read_hex_def strip_show)
qed

lemma hex_wire_laws: "codec_laws hex_wire"
proof -
  have "ucast (ucast t :: 32 word) = t" for t :: i24
    by (rule ucast_up_ucast_id) (simp add: is_up source_size target_size)
  moreover have "read_hex (''0x'' @ strip_0x (show_hex x)) = Some x" for x :: u160
  proof -
    have "''0x'' @ strip_0x (show_hex x) = show_hex x" unfolding strip_show by (simp add: show_hex_def)
    then show ?thesis by (simp add: read_show_hex)
  qed
  ultimately show ?thesis by (simp add: codec_laws_def hex_wire_def read_show_hex)
qed

text \<open>Two tracked pools over the same tokens.\<close>

definition quiet_pool :: pool_ref where
  "quiet_pool = PoolRef (UniswapV3 8) Ethereum"

definition served_registries :: registry_seed where
  "served_registries =
     \<lparr>rs_pool_registry = pool_registry_new\<lparr>pr_verified :=
        [(demo_pool, \<lparr>pm_token0 = 1, pm_token1 = 2, pm_fee = Static 500 10\<rparr>),
         (quiet_pool, \<lparr>pm_token0 = 1, pm_token1 = 2, pm_fee = Static 500 10\<rparr>)]\<rparr>,
      rs_token_registry = token_registry_new\<lparr>tr_verified :=
        [(TokenAddress 1 Ethereum, \<lparr>tm_decimals = TokenDecimals 6\<rparr>), (TokenAddress 2 Ethereum, \<lparr>tm_decimals = TokenDecimals 18\<rparr>)]\<rparr>\<rparr>"

text \<open>One block above the anchor, with a swap of the one pool; the other is known from the finalized snapshot alone.\<close>

definition served_kernel :: kernel_state where
  "served_kernel = (init 1 10)
     \<lparr>ks_pool_registry := rs_pool_registry served_registries, ks_token_registry := rs_token_registry served_registries,
      ks_blocks := \<lparr>bl_graph = with_observed_head (from_seed 1 10 [(2, 1, 11,
          [\<lparr>pl_pool = UniswapV3 7, pl_log_index = 0, pl_event = pool_log_event.Swap (ps_sqrt_price_x96 demo_state) (ps_tick demo_state) (ps_liquidity demo_state)\<rparr>])]) 2,
        bl_finalized_snapshot = [(quiet_pool, demo_state)]\<rparr>\<rparr>"

definition served_env :: "nat env" where
  "served_env = \<lparr>env_token_amount = (\<lambda>_ _. Inr 1), env_raw_amount = (\<lambda>_ _. Inr 0), env_fee_multiplier = (\<lambda>_. 1),
     env_bloom = flag_bloom, env_filler = (\<lambda>l u. 1000 * u + l), env_minus = (-), env_scale = (\<lambda>_. 0)\<rparr>"

definition served_client :: "nat client_env" where
  "served_client = \<lparr>ce_wire = hex_wire, ce_show_tick = (\<lambda>_. ''t''), ce_amounts = amount_env.truncate served_env\<rparr>"

definition served_reserve :: "pool_ref \<Rightarrow> nat pool_reserves" where
  "served_reserve pool = \<lparr>rs_token0 = TokenAddress 1 Ethereum, rs_token1 = TokenAddress 2 Ethereum, rs_pool_id = pool,
     rs_value = \<lparr>vr_token_0 = 1, vr_token_1 = 1, vr_fee_multiplier = 1, vr_max_swap_0 = 1, vr_max_swap_1 = 1\<rparr>\<rparr>"

lemma served_overlay: "ou_pool_states (optimization_update flag_bloom served_kernel CHAIN) = [(demo_pool, demo_state)]"
  by code_simp

lemma served_merge:
  "sorted_pool_states_for_projection (ks_snapshot served_kernel) [(demo_pool, demo_state)] = [(demo_pool, demo_state), (quiet_pool, demo_state)]"
  by code_simp

lemma served_metadata:
  "projection_metadata served_kernel CHAIN demo_pool =
     Some (TokenAddress 1 Ethereum, TokenAddress 2 Ethereum, Static 500 10, TokenDecimals 6, TokenDecimals 18)"
  "projection_metadata served_kernel CHAIN quiet_pool =
     Some (TokenAddress 1 Ethereum, TokenAddress 2 Ethereum, Static 500 10, TokenDecimals 6, TokenDecimals 18)"
  by code_simp+

definition served_projection :: "nat chain_pool_reserves" where
  "served_projection = \<lparr>cr_block_hash = ou_block_hash (optimization_update flag_bloom served_kernel CHAIN),
     cr_reserves = [served_reserve demo_pool, inverse_reserves (served_reserve demo_pool),
       served_reserve quiet_pool, inverse_reserves (served_reserve quiet_pool)]\<rparr>"

lemma served_kernel_projection:
  "pool_reserves_for_optimization served_env [(CHAIN, Active served_kernel)] CHAIN (optimization_update flag_bloom served_kernel CHAIN) =
     Inr (Some served_projection)"
proof -
  obtain l0 l1 where limits: "swap_limit_x demo_state 10 = Some (Inr l0)" "swap_limit_y demo_state 10 = Some (Inr l1)"
    using swap_limits_of_consistent_pool [OF demo_state_in_tick, of 10] by auto
  then have "pool_reserve_values served_env pool demo_state (Static 500 10) (TokenAddress 1 Ethereum) (TokenAddress 2 Ethereum)
      (TokenDecimals 6) (TokenDecimals 18) = Inr (rs_value (served_reserve pool))" for pool
    by (simp add: pool_reserve_values_def convert_pool_amount_def served_env_def served_reserve_def)
  then show ?thesis
    by (simp add: pool_reserves_for_optimization_def served_overlay served_merge served_metadata served_projection_def Let_def
        served_reserve_def)
qed

theorem served_slice_projects_as_kernel_witness:
  "cr_reserves served_projection = [served_reserve demo_pool, inverse_reserves (served_reserve demo_pool),
     served_reserve quiet_pool, inverse_reserves (served_reserve quiet_pool)] \<and>
   (let catalog = parse_catalog hex_wire (meta_payload hex_wire (rn_catalog (running_snapshot_of flag_bloom served_kernel))) CHAIN
    in \<exists>response. slice_payload hex_wire (running_snapshot_of flag_bloom served_kernel) (ct_request catalog) = Some response \<and>
         project_slice served_client catalog response = Inr [served_reserve demo_pool, inverse_reserves (served_reserve demo_pool)])"
proof -
  have "servable (metadata_catalog_of served_kernel)" "no_native_token served_kernel" "hm_wf (ks_snapshot served_kernel)"
    by (simp_all add: servable_def no_native_token_def decimals_ok_def metadata_catalog_of_def catalog_from_views_def served_kernel_def
        served_registries_def pool_verified_view_def token_verified_view_def demo_pool_def quiet_pool_def CHAIN_def hm_wf_def MAX_SUPPORTED_DECIMALS_def)
  moreover have "codec_laws (ce_wire served_client)" by (simp add: served_client_def hex_wire_laws)
  moreover have "ce_amounts served_client = amount_env.truncate served_env" by (simp add: served_client_def)
  moreover have "map_of [(CHAIN, Active served_kernel)] CHAIN = Some (Active served_kernel)" by simp
  ultimately have "let catalog = parse_catalog (ce_wire served_client) (meta_payload (ce_wire served_client) (rn_catalog (running_snapshot_of flag_bloom served_kernel))) CHAIN;
             overlay = ou_pool_states (optimization_update flag_bloom served_kernel CHAIN);
             served = filter (\<lambda>r. hm_contains overlay (rs_pool_id r)) (cr_reserves served_projection)
    in (\<exists>response. slice_payload (ce_wire served_client) (running_snapshot_of flag_bloom served_kernel) (ct_request catalog) = Some response \<and>
         project_slice served_client catalog response = Inr served) \<and>
       (fst ` set (ks_snapshot served_kernel) \<subseteq> fst ` set overlay \<longrightarrow> served = cr_reserves served_projection)"
    by (intro served_slice_projects_as_kernel [OF _ _ _ _ _ _ served_kernel_projection])
  moreover have "filter (\<lambda>r. hm_contains [(demo_pool, demo_state)] (rs_pool_id r)) (cr_reserves served_projection) =
      [served_reserve demo_pool, inverse_reserves (served_reserve demo_pool)]"
    by (simp add: served_projection_def served_reserve_def inverse_reserves_def hm_contains_def demo_pool_def quiet_pool_def)
  ultimately show ?thesis by (simp add: served_client_def served_overlay served_projection_def Let_def)
qed

section \<open>What is served\<close>

text \<open>
  What the server serves of a pool is exactly what the blocks above the anchor logged: a pool is served
  with a state only when one of them logged it, and with the state those logs lead to from the
  finalized one. The finalized snapshot alone is never served: a pool whose state is known at the
  anchor and that no later block touched is answered as incomplete.
\<close>

lemma served_state_exact:
  assumes "kernel_ok CHAIN k"
  shows "served_state W (rn_pools (running_snapshot_of B k)) pool =
    (let run = path_run AllowStreamed (pr_key pool) (connected_path_data (ks_graph k) (rn_frontier (running_snapshot_of B k)));
         state = (if run = [] then None
           else case map_of (ks_snapshot k) pool of
             Some s \<Rightarrow> derive_pool_state (Some s) run
           | None \<Rightarrow> if pool \<in> verified_pools (ks_pool_registry k) CHAIN then derive_pool_state None run else None)
     in case state of None \<Rightarrow> Incomplete | Some s \<Rightarrow> Complete (wire_pool_state_of W s))"
proof -
  have fin: "finite (verified_pools (ks_pool_registry k) CHAIN)" by (simp add: verified_pools_def)
  have wf: "hm_wf (ks_snapshot k)" using assms by (simp add: kernel_ok_def)
  show ?thesis
  proof (cases "projected_fold_frontier B (ks_graph k) (verified_pools (ks_pool_registry k) CHAIN) (pool_manager_address CHAIN)")
    case None
    then have "rn_pools (running_snapshot_of B k) = []" "rn_frontier (running_snapshot_of B k) = anchor_hash (ks_graph k)"
      by (simp_all add: running_snapshot_of_def state_projected_pool_states_def projected_pool_states_def)
    moreover have "connected_path_data (ks_graph k) (anchor_hash (ks_graph k)) = []"
    proof -
      have "map_of (bg_nodes (ks_graph k)) (anchor_hash (ks_graph k)) = None"
        using assms by (auto simp: kernel_ok_def graph_ok_def dest: tree_ok_root)
      then have "connected (ks_graph k) (anchor_hash (ks_graph k)) = None" by (simp add: connected_def connected_in_def)
      then show ?thesis by (simp add: connected_path_data_def oldest_to_newest_not_connected map_filter_simps)
    qed
    ultimately show ?thesis by (simp add: served_state_def path_run_def)
  next
    case (Some frontier)
    then have "rn_pools (running_snapshot_of B k) =
        folded_overlay (ks_graph k) (ks_snapshot k) (verified_pools (ks_pool_registry k) CHAIN) frontier AllowStreamed"
      "rn_frontier (running_snapshot_of B k) = frontier"
      by (simp_all add: running_snapshot_of_def state_projected_pool_states_def projected_pool_states_def)
    then show ?thesis by (simp add: served_state_def map_of_overlay [OF wf fin] Let_def split: option.split)
  qed
qed

text \<open>The kernel of a server that runs after a sequence of inputs.\<close>

definition published :: "bloom_ops \<Rightarrow> server_input list \<Rightarrow> kernel_state option" where
  "published B is = (case srv.run B (fst server_init) is of server_state.Running k \<Rightarrow> Some k | _ \<Rightarrow> None)"

lemma published_ok:
  assumes "list_all seed_input_ok is" "published B is = Some k"
  shows "kernel_ok CHAIN k"
  using srv.run_from_start [OF refl assms(1), of B] assms(2) by (auto simp: published_def split: server_state.splits)

text \<open>
  What a running server serves of a pool. After any inputs whose registry seeds are consistent, the slice answers a pool with
  exactly the state that the logs of the blocks between the anchor and the frontier lead to, from the
  pool's finalized state where the snapshot has one and from nothing for a verified pool without one. A pool that none
  of those blocks logged is answered as incomplete whatever the finalized snapshot knows of it.
\<close>

lemma served_states_exact:
  assumes "list_all seed_input_ok is" and "published B is = Some k"
  shows "served_state W (rn_pools (running_snapshot_of B k)) pool =
    (let run = path_run AllowStreamed (pr_key pool) (connected_path_data (ks_graph k) (rn_frontier (running_snapshot_of B k)));
         state = (if run = [] then None
           else case map_of (ks_snapshot k) pool of
             Some s \<Rightarrow> derive_pool_state (Some s) run
           | None \<Rightarrow> if pool \<in> verified_pools (ks_pool_registry k) CHAIN then derive_pool_state None run else None)
     in case state of None \<Rightarrow> Incomplete | Some s \<Rightarrow> Complete (wire_pool_state_of W s))"
  by (rule served_state_exact [OF published_ok [OF assms]])

text \<open>A server that runs, after a pool's state arrived at the anchor and before any block logged the pool.\<close>

definition anchored_inputs :: "server_input list" where
  "anchored_inputs =
     [RegistrySeed served_registries, FinalizedHeader (Some \<lparr>ah_hash = 1, ah_number = 10\<rparr>),
      KernelInput (HeadObserved 2 1 0 11), KernelInput (PoolDataReceived 1 [(demo_pool, Inr demo_state)])]"

lemma anchored_runs:
  "case published flag_bloom anchored_inputs of
     None \<Rightarrow> False
   | Some k \<Rightarrow> map_of (ks_snapshot k) demo_pool = Some demo_state \<and>
       map_of (mc_pools (rn_catalog (running_snapshot_of flag_bloom k))) demo_pool \<noteq> None \<and>
       path_run AllowStreamed (pr_key demo_pool) (connected_path_data (ks_graph k) (rn_frontier (running_snapshot_of flag_bloom k))) = []"
  unfolding published_def anchored_inputs_def srv.run.simps by code_simp

lemma anchored_inputs_ok: "list_all seed_input_ok anchored_inputs"
  by (simp add: anchored_inputs_def registry_seed_ok_def served_registries_def pool_registry_inv_def token_registry_inv_def
      pool_registry_new_def token_registry_new_def hm_wf_def demo_pool_def quiet_pool_def)

lemma known_pool_served_incomplete:
  "\<exists>k. published flag_bloom anchored_inputs = Some k \<and> map_of (ks_snapshot k) demo_pool = Some demo_state \<and>
     map_of (mc_pools (rn_catalog (running_snapshot_of flag_bloom k))) demo_pool \<noteq> None \<and>
     served_state hex_wire (rn_pools (running_snapshot_of flag_bloom k)) demo_pool = Incomplete"
proof -
  obtain k where k: "published flag_bloom anchored_inputs = Some k" "map_of (ks_snapshot k) demo_pool = Some demo_state"
    "map_of (mc_pools (rn_catalog (running_snapshot_of flag_bloom k))) demo_pool \<noteq> None"
    "path_run AllowStreamed (pr_key demo_pool) (connected_path_data (ks_graph k) (rn_frontier (running_snapshot_of flag_bloom k))) = []"
    using anchored_runs by (auto split: option.splits)
  from served_states_exact [OF anchored_inputs_ok k(1), of hex_wire demo_pool] k show ?thesis by (simp add: Let_def)
qed

end
