(* ===== verification/JsonRpc.thy ===== *)
theory JsonRpc
  imports LogBatch ServerRuntime
begin

text \<open>
  The requests and responses of the RPC client (client-evm client/client_utils.rs, client/multicall3.rs and
  the frames of client/client_effects.rs): what is sent for each call, the checks of an answer's envelope and
  content, the batch of aggregated calls, and the notifications of a subscription. JSON values belong to the
  serde_json crate and the encoding of contract calls to alloy: both are parameters.
\<close>

section \<open>Parameters\<close>

type_synonym bytes = "u8 list"

record 'd rpc_log = "'d log_frame" +
  rg_block_number :: "u64 option"

text \<open>The values of JSON with their readers, and the decoders of typed values with the text of their errors.\<close>

record ('j, 'd) json_lib =
  jl_null :: 'j
  jl_bool :: "bool \<Rightarrow> 'j"
  jl_u64 :: "u64 \<Rightarrow> 'j"
  jl_string :: "string \<Rightarrow> 'j"
  jl_array :: "'j list \<Rightarrow> 'j"
  jl_object :: "(string \<times> 'j) list \<Rightarrow> 'j"
  jl_get :: "'j \<Rightarrow> string \<Rightarrow> 'j option"
  jl_as_str :: "'j \<Rightarrow> string option"
  jl_as_u64 :: "'j \<Rightarrow> u64 option"
  jl_as_array :: "'j \<Rightarrow> 'j list option"
  jl_is_null :: "'j \<Rightarrow> bool"
  jl_to_string :: "'j \<Rightarrow> string"
  jl_hash :: "block_hash \<Rightarrow> 'j"
  jl_address :: "address \<Rightarrow> 'j"
  jl_bytes :: "bytes \<Rightarrow> 'j"
  jl_topic_text :: "256 word \<Rightarrow> string"
  jl_from_str :: "string \<Rightarrow> string + 'j"
  jl_utf8 :: "bytes \<Rightarrow> string + string"
  jl_to_bytes :: "'j \<Rightarrow> string + bytes"
  jl_to_header :: "'j \<Rightarrow> string + client_head"
  jl_to_log :: "'j \<Rightarrow> string + 'd rpc_log"
  jl_to_logs :: "'j \<Rightarrow> string + 'd rpc_log list"

text \<open>The contracts: hashes of further events, encoded calls and decoders of what a call returns.\<close>

record 'd contract_abi = "'d event_abi" +
  v3_collect_sig :: "256 word"
  v3_flash_sig :: "256 word"
  v3_increase_observation_sig :: "256 word"
  v3_set_fee_protocol_sig :: "256 word"
  v3_collect_protocol_sig :: "256 word"
  aggregate3_call :: "(address \<times> bool \<times> bytes) list \<Rightarrow> bytes"
  aggregate3_returns :: "bytes \<Rightarrow> string + (bool \<times> bytes) list"
  decimals_call :: bytes
  decimals_returns :: "bytes \<Rightarrow> u256 option"
  token0_call :: bytes
  token0_returns :: "bytes \<Rightarrow> address option"
  token1_call :: bytes
  token1_returns :: "bytes \<Rightarrow> address option"
  fee_call :: bytes
  fee_returns :: "bytes \<Rightarrow> u32 option"
  get_pool_call :: "address \<Rightarrow> address \<Rightarrow> 24 word \<Rightarrow> bytes"
  get_pool_returns :: "bytes \<Rightarrow> address option"
  slot0_call :: bytes
  slot0_returns :: "bytes \<Rightarrow> (u160 \<times> i24) option"
  liquidity_call :: bytes
  liquidity_returns :: "bytes \<Rightarrow> u128 option"
  v4_slot0_call :: "pool_id \<Rightarrow> bytes"
  v4_slot0_returns :: "bytes \<Rightarrow> (u160 \<times> i24) option"
  v4_liquidity_call :: "pool_id \<Rightarrow> bytes"
  v4_liquidity_returns :: "bytes \<Rightarrow> u128 option"

section \<open>Requests\<close>

definition v3_event_signature_hashes :: "'d contract_abi \<Rightarrow> 256 word list" where
  "v3_event_signature_hashes A =
     [v3_initialize_sig A, v3_mint_sig A, v3_collect_sig A, v3_burn_sig A, v3_swap_sig A, v3_flash_sig A,
      v3_increase_observation_sig A, v3_set_fee_protocol_sig A, v3_collect_protocol_sig A]"

definition v4_event_signature_hashes :: "'d contract_abi \<Rightarrow> 256 word list" where
  "v4_event_signature_hashes A = [v4_initialize_sig A, v4_swap_sig A, v4_modify_sig A]"

definition pool_event_topic_filter :: "('j, 'd) json_lib \<Rightarrow> 'd contract_abi \<Rightarrow> string list" where
  "pool_event_topic_filter L A = map (jl_topic_text L) (v3_event_signature_hashes A @ v4_event_signature_hashes A)"

text \<open>The literal that every request shares.\<close>

definition rpc_request :: "('j, 'd) json_lib \<Rightarrow> u64 \<Rightarrow> string \<Rightarrow> 'j list \<Rightarrow> 'j" where
  "rpc_request L request_id rpc_method params =
     jl_object L [(''jsonrpc'', jl_string L ''2.0''), (''id'', jl_u64 L request_id),
                  (''method'', jl_string L rpc_method), (''params'', jl_array L params)]"

definition topics_field :: "('j, 'd) json_lib \<Rightarrow> 'd contract_abi \<Rightarrow> string \<times> 'j" where
  "topics_field L A =
     (''topics'', jl_array L [jl_array L (map (jl_string L) (pool_event_topic_filter L A))])"

definition build_pool_events_subscribe_request :: "('j, 'd) json_lib \<Rightarrow> 'd contract_abi \<Rightarrow> u64 \<Rightarrow> 'j" where
  "build_pool_events_subscribe_request L A request_id =
     rpc_request L request_id ''eth_subscribe'' [jl_string L ''logs'', jl_object L [topics_field L A]]"

definition build_new_heads_subscribe_request :: "('j, 'd) json_lib \<Rightarrow> u64 \<Rightarrow> 'j" where
  "build_new_heads_subscribe_request L request_id = rpc_request L request_id ''eth_subscribe'' [jl_string L ''newHeads'']"

definition build_block_header_request :: "('j, 'd) json_lib \<Rightarrow> u64 \<Rightarrow> block_hash \<Rightarrow> 'j" where
  "build_block_header_request L request_id block_hash =
     rpc_request L request_id ''eth_getBlockByHash'' [jl_hash L block_hash, jl_bool L False]"

definition build_block_logs_request :: "('j, 'd) json_lib \<Rightarrow> 'd contract_abi \<Rightarrow> u64 \<Rightarrow> block_hash \<Rightarrow> 'j" where
  "build_block_logs_request L A request_id block_hash =
     rpc_request L request_id ''eth_getLogs'' [jl_object L [(''blockHash'', jl_hash L block_hash), topics_field L A]]"

definition build_pool_logs_range_request :: "('j, 'd) json_lib \<Rightarrow> 'd contract_abi \<Rightarrow> u64 \<Rightarrow> u64 \<Rightarrow> u64 \<Rightarrow> 'j" where
  "build_pool_logs_range_request L A request_id from_block to_block =
     rpc_request L request_id ''eth_getLogs''
       [jl_object L [(''fromBlock'', jl_string L (show_hex from_block)), (''toBlock'', jl_string L (show_hex to_block)),
                     topics_field L A]]"

definition build_block_number_request :: "('j, 'd) json_lib \<Rightarrow> u64 \<Rightarrow> 'j" where
  "build_block_number_request L request_id = rpc_request L request_id ''eth_blockNumber'' []"

definition build_finalized_block_header_request :: "('j, 'd) json_lib \<Rightarrow> u64 \<Rightarrow> 'j" where
  "build_finalized_block_header_request L request_id =
     rpc_request L request_id ''eth_getBlockByNumber'' [jl_string L ''finalized'', jl_bool L False]"

definition build_block_header_by_number_request :: "('j, 'd) json_lib \<Rightarrow> u64 \<Rightarrow> u64 \<Rightarrow> 'j" where
  "build_block_header_by_number_request L request_id number =
     rpc_request L request_id ''eth_getBlockByNumber'' [jl_string L (show_hex number), jl_bool L False]"

definition build_unsubscribe_request :: "('j, 'd) json_lib \<Rightarrow> u64 \<Rightarrow> string \<Rightarrow> 'j" where
  "build_unsubscribe_request L request_id subscription_id =
     rpc_request L request_id ''eth_unsubscribe'' [jl_string L subscription_id]"

section \<open>The envelope of an answer\<close>

text \<open>Texts are ASCII here, so that characters are bytes; the ellipsis is the three bytes of its UTF-8 code.\<close>

definition cut_text :: "nat \<Rightarrow> string \<Rightarrow> string" where
  "cut_text n text = (if n < length text then take n text @ [CHR 0xE2, CHR 0x80, CHR 0xA6] else text)"

definition json_rpc_error :: "('j, 'd) json_lib \<Rightarrow> 'j \<Rightarrow> client_evm_error" where
  "json_rpc_error L e = JsonRpcError
     (case jl_get L e ''code'' of Some code \<Rightarrow> jl_to_string L code | None \<Rightarrow> ''unknown'')
     (case Option.bind (jl_get L e ''message'') (jl_as_str L) of Some message \<Rightarrow> message | None \<Rightarrow> ''unknown error'')"

definition truncate_for_log :: "string \<Rightarrow> string" where
  "truncate_for_log text = cut_text 256 text"

definition describe_field :: "('j, 'd) json_lib \<Rightarrow> 'j option \<Rightarrow> string" where
  "describe_field L field = (case field of None \<Rightarrow> ''<missing>'' | Some v \<Rightarrow> truncate_for_log (jl_to_string L v))"

definition decode_failed :: "('j, 'd) json_lib \<Rightarrow> string \<Rightarrow> string \<Rightarrow> 'j \<Rightarrow> client_evm_error" where
  "decode_failed L where_from e raw =
     MalformedResponse where_from (''decode failed: '' @ e @ ''; raw='' @ truncate_for_log (jl_to_string L raw))"

definition json_rpc_result :: "('j, 'd) json_lib \<Rightarrow> 'j \<Rightarrow> u64 \<Rightarrow> string \<Rightarrow> client_evm_error + 'j" where
  "json_rpc_result L v expected_request_id where_from =
     (if Option.bind (jl_get L v ''jsonrpc'') (jl_as_str L) \<noteq> Some ''2.0'' then
        Inl (MalformedResponse where_from (''expected jsonrpc 2.0, got '' @ describe_field L (jl_get L v ''jsonrpc'')))
      else case Option.bind (jl_get L v ''id'') (jl_as_u64 L) of
        None \<Rightarrow> Inl (MalformedResponse where_from (''expected numeric request id, got '' @ describe_field L (jl_get L v ''id'')))
      | Some response_id \<Rightarrow>
          if response_id \<noteq> expected_request_id then
            Inl (MalformedResponse where_from (''request id mismatch (expected '' @ show_decimal (unat expected_request_id) @
              '', got '' @ show_decimal (unat response_id) @ '')''))
          else case (jl_get L v ''result'', jl_get L v ''error'') of
            (Some _, Some _) \<Rightarrow> Inl (MalformedResponse where_from ''must not contain both result and error'')
          | (None, None) \<Rightarrow> Inl (MalformedResponse where_from ''must contain result or error'')
          | (None, Some e) \<Rightarrow> Inl (json_rpc_error L e)
          | (Some result, None) \<Rightarrow> Inr result)"

section \<open>Answers of single calls\<close>

definition parse_block_header_response_by_id :: "('j, 'd) json_lib \<Rightarrow> 'j \<Rightarrow> u64 \<Rightarrow> client_evm_error + client_head option" where
  "parse_block_header_response_by_id L v expected_request_id =
     (case json_rpc_result L v expected_request_id ''block header'' of
        Inl e \<Rightarrow> Inl e
      | Inr result \<Rightarrow>
          if jl_is_null L result then Inr None
          else case jl_to_header L result of
            Inl e \<Rightarrow> Inl (decode_failed L ''block header'' e result)
          | Inr header \<Rightarrow> Inr (Some header))"

definition parse_block_header_response :: "('j, 'd) json_lib \<Rightarrow> 'j \<Rightarrow> u64 \<Rightarrow> block_hash \<Rightarrow>
    client_evm_error + client_head option" where
  "parse_block_header_response L v expected_request_id expected_block_hash =
     (case parse_block_header_response_by_id L v expected_request_id of
        Inr (Some header) \<Rightarrow>
          if hd_hash header \<noteq> expected_block_hash then
            Inl (MalformedResponse ''block header'' ''returned block hash does not match requested block hash'')
          else Inr (Some header)
      | outcome \<Rightarrow> outcome)"

text \<open>
  \<open>u64::from_str_radix(_, 16)\<close> and the text of its errors: an optional plus sign and at least one digit;
  a character that is no digit is reported before an overflow at the same place.
\<close>

fun u64_hex_digits :: "nat \<Rightarrow> string \<Rightarrow> string + u64" where
  "u64_hex_digits acc [] = Inr (of_nat acc)"
| "u64_hex_digits acc (c # s) =
     (case hex_digit c of
        None \<Rightarrow> Inl ''invalid digit found in string''
      | Some d \<Rightarrow> if 16 * acc + d < 2 ^ 64 then u64_hex_digits (16 * acc + d) s
                   else Inl ''number too large to fit in target type'')"

definition u64_from_hex :: "string \<Rightarrow> string + u64" where
  "u64_from_hex s =
     (if s = [] then Inl ''cannot parse integer from empty string''
      else if s = ''+'' then Inl ''invalid digit found in string''
      else u64_hex_digits 0 (if hd s = CHR ''+'' then tl s else s))"

definition strip_prefix_0x :: "string \<Rightarrow> string option" where
  "strip_prefix_0x s = (if take 2 s = ''0x'' then Some (drop 2 s) else None)"

definition parse_block_number_response :: "('j, 'd) json_lib \<Rightarrow> 'j \<Rightarrow> u64 \<Rightarrow> client_evm_error + u64" where
  "parse_block_number_response L v expected_request_id =
     (case json_rpc_result L v expected_request_id ''block number'' of
        Inl e \<Rightarrow> Inl e
      | Inr result \<Rightarrow>
          (case jl_as_str L result of
             None \<Rightarrow> Inl (MalformedResponse ''block number'' (''expected hex string, got '' @ describe_field L (Some result)))
           | Some hex \<Rightarrow>
               (case strip_prefix_0x hex of
                  None \<Rightarrow> Inl (MalformedResponse ''block number'' (''expected 0x-prefixed quantity, got '' @ hex))
                | Some digits \<Rightarrow>
                    (case u64_from_hex digits of
                       Inl e \<Rightarrow> Inl (MalformedResponse ''block number'' (''invalid hex quantity '' @ hex @ '': '' @ e))
                     | Inr n \<Rightarrow> Inr n))))"

definition decoded_logs :: "'d contract_abi \<Rightarrow> 'd rpc_log list \<Rightarrow> pool_log list" where
  "decoded_logs A logs = List.map_filter (\<lambda>log. decode_pool_log (event_abi.truncate A) (raw_log.truncate log)) logs"

definition logs_array :: "('j, 'd) json_lib \<Rightarrow> 'j \<Rightarrow> u64 \<Rightarrow> string \<Rightarrow> client_evm_error + 'd rpc_log list" where
  "logs_array L v expected_request_id where_from =
     (case json_rpc_result L v expected_request_id where_from of
        Inl e \<Rightarrow> Inl e
      | Inr result \<Rightarrow>
          if jl_as_array L result = None then
            Inl (MalformedResponse where_from (''result must be an array, got '' @ truncate_for_log (jl_to_string L result)))
          else case jl_to_logs L result of
            Inl e \<Rightarrow> Inl (decode_failed L where_from e result)
          | Inr logs \<Rightarrow> Inr logs)"

definition parse_block_logs_response :: "('j, 'd) json_lib \<Rightarrow> 'd contract_abi \<Rightarrow> 'j \<Rightarrow> u64 \<Rightarrow> block_hash \<Rightarrow>
    client_evm_error + pool_log list" where
  "parse_block_logs_response L A v expected_request_id expected_block_hash =
     (case logs_array L v expected_request_id ''block logs'' of
        Inl e \<Rightarrow> Inl e
      | Inr logs \<Rightarrow>
          if list_ex (\<lambda>log. lf_block_hash log \<noteq> Some expected_block_hash) logs then
            Inl (MalformedResponse ''block logs'' ''returned log block hash does not match requested block hash'')
          else Inr (decoded_logs A logs))"

text \<open>Logs by block: an entry without a block or that decodes to nothing is dropped.\<close>

fun add_range_log :: "'d contract_abi \<Rightarrow> 'd rpc_log \<Rightarrow> (u64 \<times> block_hash, pool_log list) hmap \<Rightarrow>
    (u64 \<times> block_hash, pool_log list) hmap" where
  "add_range_log A log m =
     (case (rg_block_number log, lf_block_hash log, decode_pool_log (event_abi.truncate A) (raw_log.truncate log)) of
        (Some number, Some h, Some pool_log) \<Rightarrow>
          AList.update (number, h) ((case map_of m (number, h) of Some logs \<Rightarrow> logs | None \<Rightarrow> []) @ [pool_log]) m
      | _ \<Rightarrow> m)"

text \<open>The order by number, then hash, as the order of one number.\<close>

definition range_key :: "u64 \<times> block_hash \<Rightarrow> nat" where
  "range_key k = unat (fst k) * 2 ^ 256 + unat (snd k)"

definition group_range_logs_by_block :: "'d contract_abi \<Rightarrow> 'd rpc_log list \<Rightarrow> range_log_block list" where
  "group_range_logs_by_block A logs =
     map (\<lambda>((number, h), logs). \<lparr>rb_number = number, rb_hash = h, rb_logs = logs\<rparr>)
       (sort_key (\<lambda>(k, logs). range_key k) (fold (add_range_log A) logs []))"

definition parse_pool_logs_range_response :: "('j, 'd) json_lib \<Rightarrow> 'd contract_abi \<Rightarrow> 'j \<Rightarrow> u64 \<Rightarrow>
    client_evm_error + range_log_block list" where
  "parse_pool_logs_range_response L A v expected_request_id =
     (case logs_array L v expected_request_id ''pool logs range'' of
        Inl e \<Rightarrow> Inl e
      | Inr logs \<Rightarrow> Inr (group_range_logs_by_block A logs))"

end
