(* ===== verification/RpcFetch.thy ===== *)
theory RpcFetch
  imports JsonRpc
begin

text \<open>
  The calls of the RPC client (client-evm client/client_effects.rs and client/multicall3.rs): one request with
  failover over a chain's endpoints, aggregated calls in chunks and batches, the windows of a range of logs,
  and the resolution of pool metadata, token metadata and pool state from aggregated calls. What the network
  answers, the clock and what other requests do to a pool are parameters. \<open>None\<close> is a panic, which cannot
  occur (\<open>failover_exact\<close> of EndpointLaws).
\<close>

section \<open>One request\<close>

definition HTTP_REQUEST_ID :: u64 where
  "HTTP_REQUEST_ID = 1"

definition MAX_ERROR_BODY_LEN :: nat where
  "MAX_ERROR_BODY_LEN = 512"

text \<open>A response: its status, its body as text when it can be read, its body as JSON when it parses.\<close>

record 'j http_response =
  hr_status :: u16
  hr_body :: "string + string"
  hr_json :: "string + 'j"

definition is_space :: "char \<Rightarrow> bool" where
  "is_space c \<longleftrightarrow> c \<in> {CHR 0x20, CHR 0x09, CHR 0x0A, CHR 0x0B, CHR 0x0C, CHR 0x0D}"

text \<open>\<open>split_whitespace\<close> of an ASCII text: its maximal runs of other characters.\<close>

fun split_words :: "string \<Rightarrow> string \<Rightarrow> string list" where
  "split_words w [] = (if w = [] then [] else [w])"
| "split_words w (c # s) =
     (if is_space c then (if w = [] then [] else [w]) @ split_words [] s else split_words (w @ [c]) s)"

definition sanitize_error_body :: "string \<Rightarrow> string" where
  "sanitize_error_body body = cut_text MAX_ERROR_BODY_LEN (joined '' '' (split_words [] body))"

definition send_rpc_request :: "string + 'j http_response \<Rightarrow> client_evm_error + 'j" where
  "send_rpc_request sent =
     (case sent of
        Inl e \<Rightarrow> Inl (HttpTransport e)
      | Inr response \<Rightarrow>
          if \<not> (200 \<le> hr_status response \<and> hr_status response < 300) then
            Inl (HttpStatus (hr_status response) (sanitize_error_body
              (case hr_body response of Inr body \<Rightarrow> body | Inl e \<Rightarrow> ''<unreadable body: '' @ e @ ''>'')))
          else case hr_json response of
            Inl e \<Rightarrow> Inl (MalformedResponse ''http json'' e)
          | Inr v \<Rightarrow> Inr v)"

text \<open>The network: what the n-th attempt of a request at a URL brings, with the clock and the other users of the pool.\<close>

record 'j network =
  nt_post :: "nat \<Rightarrow> nat \<Rightarrow> string \<Rightarrow> 'j \<Rightarrow> string + 'j http_response"
  nt_now :: "nat \<Rightarrow> nat \<Rightarrow> nat"
  nt_others :: "nat \<Rightarrow> nat \<Rightarrow> endpoint_pool \<Rightarrow> endpoint_pool"

definition request_env :: "'j network \<Rightarrow> nat \<Rightarrow> 'j \<Rightarrow> ('j \<Rightarrow> client_evm_error + 'a) \<Rightarrow> 'a failover_env" where
  "request_env N i request parse =
     \<lparr>fe_attempt = (\<lambda>n url. case send_rpc_request (nt_post N i n url request) of Inl e \<Rightarrow> Inl e | Inr v \<Rightarrow> parse v),
      fe_now = nt_now N i, fe_others = nt_others N i\<rparr>"

definition request_on :: "'j network \<Rightarrow> nat \<Rightarrow> 'j \<Rightarrow> ('j \<Rightarrow> client_evm_error + 'a) \<Rightarrow> endpoint_pool \<Rightarrow>
    (endpoint_pool \<times> (client_evm_error + 'a)) option" where
  "request_on N i request parse pool = with_failover (request_env N i request parse) pool"

section \<open>Aggregated calls\<close>

definition MULTICALL3_ADDRESS :: address where
  "MULTICALL3_ADDRESS = 0xcA11bde05977b3631167028862bE2a173976CA11"

definition MULTICALL_CHUNK_SIZE :: nat where
  "MULTICALL_CHUNK_SIZE = 500"

definition MULTICALL_MAX_BATCH_ITEMS :: nat where
  "MULTICALL_MAX_BATCH_ITEMS = 3"

definition MULTICALL_MAX_CONCURRENT_BATCHES :: nat where
  "MULTICALL_MAX_CONCURRENT_BATCHES = 4"

record multicall_call =
  mc_target :: address
  mc_call_data :: bytes

datatype multicall_block = AtHash block_hash | Latest

record multicall_call_result =
  cr_success :: bool
  cr_return_data :: bytes

definition block_param :: "('j, 'd) json_lib \<Rightarrow> multicall_block \<Rightarrow> 'j" where
  "block_param L block =
     (case block of
        AtHash h \<Rightarrow> jl_object L [(''blockHash'', jl_hash L h)]
      | Latest \<Rightarrow> jl_string L ''latest'')"

definition build_multicall3_request :: "('j, 'd) json_lib \<Rightarrow> 'd contract_abi \<Rightarrow> u64 \<Rightarrow> multicall_block \<Rightarrow> multicall_call list \<Rightarrow> 'j" where
  "build_multicall3_request L A request_id block calls =
     rpc_request L request_id ''eth_call''
       [jl_object L [(''to'', jl_address L MULTICALL3_ADDRESS),
          (''data'', jl_bytes L (aggregate3_call A (map (\<lambda>call. (mc_target call, True, mc_call_data call)) calls)))],
        block_param L block]"

definition parse_multicall3_response :: "('j, 'd) json_lib \<Rightarrow> 'd contract_abi \<Rightarrow> 'j \<Rightarrow> u64 \<Rightarrow> nat \<Rightarrow>
    client_evm_error + multicall_call_result list" where
  "parse_multicall3_response L A v expected_request_id expected_call_count =
     (case json_rpc_result L v expected_request_id ''multicall3'' of
        Inl e \<Rightarrow> Inl e
      | Inr result \<Rightarrow>
          (case jl_to_bytes L result of
             Inl e \<Rightarrow> Inl (MalformedResponse ''multicall3'' (''result must decode as hex bytes: '' @ e))
           | Inr return_data \<Rightarrow>
               (case aggregate3_returns A return_data of
                  Inl e \<Rightarrow> Inl (MalformedResponse ''multicall3'' (''result must decode as aggregate3 return data: '' @ e))
                | Inr results \<Rightarrow>
                    if length results \<noteq> expected_call_count then
                      Inl (MalformedResponse ''multicall3'' (''returned '' @ show_decimal (length results) @
                        '' call results, expected '' @ show_decimal expected_call_count))
                    else Inr (map (\<lambda>(success, return_data). \<lparr>cr_success = success, cr_return_data = return_data\<rparr>) results))))"

definition build_multicall3_batch_request :: "('j, 'd) json_lib \<Rightarrow> 'd contract_abi \<Rightarrow> multicall_block \<Rightarrow> multicall_call list list \<Rightarrow> 'j" where
  "build_multicall3_batch_request L A block parts =
     jl_array L (map (\<lambda>(index, part). build_multicall3_request L A (of_nat index + 1) block part) (enumerate 0 parts))"

text \<open>The entry of each part is found by its id, not by its place.\<close>

fun batch_entries :: "('j, 'd) json_lib \<Rightarrow> 'd contract_abi \<Rightarrow> 'j list \<Rightarrow> nat \<Rightarrow> nat list \<Rightarrow> multicall_call_result list \<Rightarrow>
    client_evm_error + multicall_call_result list" where
  "batch_entries L A entries index [] results = Inr results"
| "batch_entries L A entries index (expected_count # counts) results =
     (let request_id = of_nat index + 1
      in case find (\<lambda>entry. Option.bind (jl_get L entry ''id'') (jl_as_u64 L) = Some request_id) entries of
           None \<Rightarrow> Inl (MalformedResponse ''multicall3 batch'' (''missing request id '' @ show_decimal (unat request_id)))
         | Some entry \<Rightarrow>
             (case parse_multicall3_response L A entry request_id expected_count of
                Inl e \<Rightarrow> Inl e
              | Inr part \<Rightarrow> batch_entries L A entries (Suc index) counts (results @ part)))"

definition parse_multicall3_batch_response :: "('j, 'd) json_lib \<Rightarrow> 'd contract_abi \<Rightarrow> 'j \<Rightarrow> nat list \<Rightarrow>
    client_evm_error + multicall_call_result list" where
  "parse_multicall3_batch_response L A v expected_counts =
     (case jl_as_array L v of
        None \<Rightarrow> Inl (MalformedResponse ''multicall3 batch'' ''response must be a json-rpc array'')
      | Some entries \<Rightarrow>
          if length entries \<noteq> length expected_counts then
            Inl (MalformedResponse ''multicall3 batch'' (''returned '' @ show_decimal (length entries) @
              '' entries, expected '' @ show_decimal (length expected_counts)))
          else batch_entries L A entries 0 expected_counts [])"

definition run_multicall_batch :: "'j network \<Rightarrow> ('j, 'd) json_lib \<Rightarrow> 'd contract_abi \<Rightarrow> multicall_block \<Rightarrow> nat \<Rightarrow>
    multicall_call list list \<Rightarrow> endpoint_pool \<Rightarrow> (endpoint_pool \<times> (client_evm_error + multicall_call_result list)) option" where
  "run_multicall_batch N L A block i batch pool =
     request_on N i (build_multicall3_batch_request L A block batch)
       (\<lambda>v. parse_multicall3_batch_response L A v (map length batch)) pool"

text \<open>\<open>chunks(n)\<close> of a slice.\<close>

function parts_of :: "nat \<Rightarrow> 'a list \<Rightarrow> 'a list list" where
  "parts_of n xs = (if xs = [] then [] else if n = 0 then [xs] else take n xs # parts_of n (drop n xs))"
  by pat_completeness auto
termination by (relation "measure (length \<circ> snd)") auto

declare parts_of.simps [simp del]

text \<open>
  The batches of a window run at the same time and share the pool: what the others do to it meanwhile is the
  network's parameter, so they are run in order here. A worker that panics counts as a failed batch.
\<close>

fun run_window :: "'j network \<Rightarrow> ('j, 'd) json_lib \<Rightarrow> 'd contract_abi \<Rightarrow> multicall_block \<Rightarrow> nat \<Rightarrow>
    multicall_call list list list \<Rightarrow> endpoint_pool \<Rightarrow> endpoint_pool \<times> (client_evm_error + multicall_call_result list) list" where
  "run_window N L A block i [] pool = (pool, [])"
| "run_window N L A block i (batch # batches) pool =
     (let (pool, result) = (case run_multicall_batch N L A block i batch pool of
            Some outcome \<Rightarrow> outcome
          | None \<Rightarrow> (pool, Inl (MalformedResponse ''multicall3 batch'' ''batch worker thread panicked'')));
          (pool, results) = run_window N L A block (Suc i) batches pool
      in (pool, result # results))"

fun extend_results :: "'a list \<Rightarrow> (client_evm_error + 'a list) list \<Rightarrow> client_evm_error + 'a list" where
  "extend_results results [] = Inr results"
| "extend_results results (Inl e # rest) = Inl e"
| "extend_results results (Inr part # rest) = extend_results (results @ part) rest"

fun run_windows :: "'j network \<Rightarrow> ('j, 'd) json_lib \<Rightarrow> 'd contract_abi \<Rightarrow> multicall_block \<Rightarrow> nat \<Rightarrow>
    multicall_call list list list list \<Rightarrow> multicall_call_result list \<Rightarrow> endpoint_pool \<Rightarrow>
    endpoint_pool \<times> (client_evm_error + multicall_call_result list)" where
  "run_windows N L A block i [] results pool = (pool, Inr results)"
| "run_windows N L A block i (window # windows) results pool =
     (let (pool, window_results) = run_window N L A block i window pool
      in case extend_results results window_results of
           Inl e \<Rightarrow> (pool, Inl e)
         | Inr results \<Rightarrow> run_windows N L A block (i + length window) windows results pool)"

definition aggregate3_batched :: "'j network \<Rightarrow> ('j, 'd) json_lib \<Rightarrow> 'd contract_abi \<Rightarrow> multicall_block \<Rightarrow> nat \<Rightarrow>
    multicall_call list \<Rightarrow> endpoint_pool \<Rightarrow> endpoint_pool \<times> (client_evm_error + multicall_call_result list)" where
  "aggregate3_batched N L A block i calls pool =
     (if calls = [] then (pool, Inr [])
      else let parts = parts_of MULTICALL_CHUNK_SIZE calls;
               batches = parts_of MULTICALL_MAX_BATCH_ITEMS parts
           in run_windows N L A block i (parts_of MULTICALL_MAX_CONCURRENT_BATCHES batches) [] pool)"

section \<open>Blocks and ranges of logs\<close>

text \<open>The pool of a chain is looked up first; what the call leaves of it is kept.\<close>

definition on_pool :: "chain_endpoints \<Rightarrow> chain_key \<Rightarrow>
    (endpoint_pool \<Rightarrow> (endpoint_pool \<times> (client_evm_error + 'a)) option) \<Rightarrow>
    (chain_endpoints \<times> (client_evm_error + 'a)) option" where
  "on_pool endpoints chain call =
     (case chain_pool endpoints chain of
        Inl e \<Rightarrow> Some (endpoints, Inl e)
      | Inr pool \<Rightarrow> map_option (\<lambda>(pool, r). (AList.update chain pool endpoints, r)) (call pool))"

definition fetch_block_header :: "'j network \<Rightarrow> ('j, 'd) json_lib \<Rightarrow> chain_endpoints \<Rightarrow> chain_key \<Rightarrow> block_hash \<Rightarrow>
    (chain_endpoints \<times> (client_evm_error + client_head option)) option" where
  "fetch_block_header N L endpoints chain block_hash =
     on_pool endpoints chain (request_on N 0 (build_block_header_request L HTTP_REQUEST_ID block_hash)
       (\<lambda>v. parse_block_header_response L v HTTP_REQUEST_ID block_hash))"

definition fetch_block_logs :: "'j network \<Rightarrow> ('j, 'd) json_lib \<Rightarrow> 'd contract_abi \<Rightarrow> chain_endpoints \<Rightarrow> chain_key \<Rightarrow> block_hash \<Rightarrow>
    (chain_endpoints \<times> (client_evm_error + pool_log list)) option" where
  "fetch_block_logs N L A endpoints chain block_hash =
     on_pool endpoints chain (request_on N 0 (build_block_logs_request L A HTTP_REQUEST_ID block_hash)
       (\<lambda>v. parse_block_logs_response L A v HTTP_REQUEST_ID block_hash))"

definition fetch_finalized_block_header :: "'j network \<Rightarrow> ('j, 'd) json_lib \<Rightarrow> chain_endpoints \<Rightarrow> chain_key \<Rightarrow>
    (chain_endpoints \<times> (client_evm_error + client_head option)) option" where
  "fetch_finalized_block_header N L endpoints chain =
     on_pool endpoints chain (request_on N 0 (build_finalized_block_header_request L HTTP_REQUEST_ID)
       (\<lambda>v. parse_block_header_response_by_id L v HTTP_REQUEST_ID))"

definition fetch_canonical_block_header_at :: "'j network \<Rightarrow> ('j, 'd) json_lib \<Rightarrow> chain_endpoints \<Rightarrow> chain_key \<Rightarrow> u64 \<Rightarrow>
    (chain_endpoints \<times> (client_evm_error + client_head option)) option" where
  "fetch_canonical_block_header_at N L endpoints chain number =
     on_pool endpoints chain (request_on N 0 (build_block_header_by_number_request L HTTP_REQUEST_ID number)
       (\<lambda>v. parse_block_header_response_by_id L v HTTP_REQUEST_ID))"

definition fetch_block_number :: "'j network \<Rightarrow> ('j, 'd) json_lib \<Rightarrow> chain_endpoints \<Rightarrow> chain_key \<Rightarrow>
    (chain_endpoints \<times> (client_evm_error + u64)) option" where
  "fetch_block_number N L endpoints chain =
     on_pool endpoints chain (request_on N 0 (build_block_number_request L HTTP_REQUEST_ID)
       (\<lambda>v. parse_block_number_response L v HTTP_REQUEST_ID))"

definition window_end_of :: "chain_key \<Rightarrow> u64 \<Rightarrow> u64 \<Rightarrow> u64" where
  "window_end_of chain cursor last_block =
     min (saturating_add cursor (pool_candidate_block_range_chunk chain - 1)) last_block"

definition request_range :: "'j network \<Rightarrow> ('j, 'd) json_lib \<Rightarrow> 'd contract_abi \<Rightarrow> nat \<Rightarrow> u64 \<Rightarrow> u64 \<Rightarrow> endpoint_pool \<Rightarrow>
    (endpoint_pool \<times> (client_evm_error + range_log_block list)) option" where
  "request_range N L A i from_block to_block pool =
     request_on N i (build_pool_logs_range_request L A HTTP_REQUEST_ID from_block to_block)
       (\<lambda>v. parse_pool_logs_range_response L A v HTTP_REQUEST_ID) pool"

definition fetch_pool_candidates_window :: "'j network \<Rightarrow> ('j, 'd) json_lib \<Rightarrow> 'd contract_abi \<Rightarrow> chain_endpoints \<Rightarrow> chain_key \<Rightarrow>
    u64 \<Rightarrow> u64 option \<Rightarrow> (chain_endpoints \<times> (client_evm_error + range_log_block list \<times> u64 \<times> u64 option)) option" where
  "fetch_pool_candidates_window N L A endpoints chain from_block scan_tip =
     (case chain_pool endpoints chain of
        Inl e \<Rightarrow> Some (endpoints, Inl e)
      | Inr _ \<Rightarrow>
          (case (case scan_tip of Some tip \<Rightarrow> Some (endpoints, Inr tip) | None \<Rightarrow> fetch_block_number N L endpoints chain) of
             None \<Rightarrow> None
           | Some (endpoints, Inl e) \<Rightarrow> Some (endpoints, Inl e)
           | Some (endpoints, Inr tip) \<Rightarrow>
               if tip < from_block then Some (endpoints, Inr ([], tip, None))
               else let window_end = window_end_of chain from_block tip
                    in map_option (map_prod id (map_sum id (\<lambda>blocks.
                         (blocks, tip, if window_end < tip then Some (window_end + 1) else None))))
                       (on_pool endpoints chain (request_range N L A 1 from_block window_end))))"

lemma saturating_add_ge: "a \<le> saturating_add a (b :: 'a::len word)"
proof (cases "uint a + uint b < 2 ^ LENGTH('a)")
  case True
  then show ?thesis by (simp add: saturating_add_def word_le_def uint_add_bounded)
qed (simp add: saturating_add_def)

lemma unat_next: "n < (m :: 'a::len word) \<Longrightarrow> unat (n + 1) = unat n + 1"
proof -
  assume "n < m"
  then have "1 + n \<noteq> 0" by (metis add_diff_cancel_left' diff_0 word_not_simps(3) word_order.extremum_strict)
  then show ?thesis by (simp add: unatSuc add.commute)
qed

lemma window_end_bounds:
  "window_end_of chain cursor to_block < to_block \<Longrightarrow> cursor \<le> window_end_of chain cursor to_block"
  using saturating_add_ge [of cursor] by (auto simp: window_end_of_def min_def split: if_splits)

function range_loop :: "'j network \<Rightarrow> ('j, 'd) json_lib \<Rightarrow> 'd contract_abi \<Rightarrow> chain_key \<Rightarrow> u64 \<Rightarrow> nat \<Rightarrow> u64 \<Rightarrow>
    range_log_block list \<Rightarrow> endpoint_pool \<Rightarrow> (endpoint_pool \<times> (client_evm_error + range_log_block list)) option" where
  "range_loop N L A chain to_block i cursor blocks pool =
     (let window_end = window_end_of chain cursor to_block
      in case request_range N L A i cursor window_end pool of
           None \<Rightarrow> None
         | Some (pool, Inl e) \<Rightarrow> Some (pool, Inl e)
         | Some (pool, Inr window) \<Rightarrow>
             if to_block \<le> window_end then Some (pool, Inr (blocks @ window))
             else range_loop N L A chain to_block (Suc i) (window_end + 1) (blocks @ window) pool)"
  by pat_completeness auto

termination
proof (relation "measure (\<lambda>(N, L, A, chain, to_block, i, cursor, blocks, pool). unat to_block - unat cursor)", goal_cases)
  case (2 N L A chain to_block i cursor blocks pool window_end)
  then have "cursor \<le> window_end" "window_end < to_block" using window_end_bounds by auto
  moreover from this(2) have "unat (window_end + 1) = unat window_end + 1" by (intro unat_next) auto
  ultimately have "unat cursor \<le> unat window_end" "unat window_end < unat to_block" "unat (window_end + 1) = unat window_end + 1"
    by (simp_all add: word_le_nat_alt word_less_nat_alt)
  then show ?case by simp
qed simp

definition fetch_pool_logs_in_range :: "'j network \<Rightarrow> ('j, 'd) json_lib \<Rightarrow> 'd contract_abi \<Rightarrow> chain_endpoints \<Rightarrow> chain_key \<Rightarrow>
    u64 \<Rightarrow> u64 \<Rightarrow> (chain_endpoints \<times> (client_evm_error + range_log_block list)) option" where
  "fetch_pool_logs_in_range N L A endpoints chain from_block to_block =
     on_pool endpoints chain (\<lambda>pool.
       if to_block < from_block then Some (pool, Inr [])
       else range_loop N L A chain to_block 0 from_block [] pool)"

end
