(* ===== verification/RpcMetadata.thy ===== *)
theory RpcMetadata
  imports RpcFetch
begin

text \<open>
  Pool metadata, token metadata and pool state read from a chain by aggregated calls (the rest of client-evm
  client/client_effects.rs): the order of the calls, the decoding of each result, and the verification of a
  pool by its factory, which names the pool of two tokens and a fee.
\<close>

definition result_at :: "'a list \<Rightarrow> nat \<Rightarrow> 'a option" where
  "result_at results i = (if i < length results then Some (results ! i) else None)"

text \<open>What the three decoders of the source share, with the failures of the kind of read.\<close>

definition decode_result :: "('c \<Rightarrow> 'f) \<Rightarrow> ('c \<Rightarrow> 'f) \<Rightarrow> ('c \<Rightarrow> 'f) \<Rightarrow> multicall_call_result option \<Rightarrow> 'c \<Rightarrow>
    (bytes \<Rightarrow> 'a option) \<Rightarrow> 'f + 'a" where
  "decode_result missing failed undecoded result call decode =
     (case result of
        None \<Rightarrow> Inl (missing call)
      | Some r \<Rightarrow>
          if \<not> cr_success r then Inl (failed call)
          else case decode (cr_return_data r) of
            None \<Rightarrow> Inl (undecoded call)
          | Some v \<Rightarrow> Inr v)"

definition decode_pool_metadata_multicall_result :: "multicall_call_result option \<Rightarrow> pool_metadata_call \<Rightarrow> (bytes \<Rightarrow> 'a option) \<Rightarrow>
    pool_metadata_failure + 'a" where
  "decode_pool_metadata_multicall_result = decode_result MissingResponse CallFailed DecodeFailed"

definition decode_token_metadata_multicall_result :: "multicall_call_result option \<Rightarrow> token_metadata_call \<Rightarrow> (bytes \<Rightarrow> 'a option) \<Rightarrow>
    token_metadata_failure + 'a" where
  "decode_token_metadata_multicall_result = decode_result TokenMissingResponse TokenCallFailed TokenDecodeFailed"

definition decode_multicall_result :: "multicall_call_result option \<Rightarrow> pool_data_call \<Rightarrow> (bytes \<Rightarrow> 'a option) \<Rightarrow>
    pool_data_failure + 'a" where
  "decode_multicall_result = decode_result DataMissingResponse DataCallFailed DataDecodeFailed"

section \<open>Pool metadata\<close>

definition sorted_pool_candidate_addresses :: "protocol_pool_key set \<Rightarrow> protocol_pool_key list" where
  "sorted_pool_candidate_addresses candidates =
     sorted_list_of_set (Set.filter (\<lambda>candidate. uniswap_v3_address candidate \<noteq> None) candidates)"

definition candidate_target :: "protocol_pool_key \<Rightarrow> address" where
  "candidate_target candidate = (case uniswap_v3_address candidate of Some a \<Rightarrow> a | None \<Rightarrow> 0)"

definition pool_metadata_candidate_multicall_calls :: "'d contract_abi \<Rightarrow> protocol_pool_key list \<Rightarrow> multicall_call list" where
  "pool_metadata_candidate_multicall_calls A candidates =
     concat (map (\<lambda>candidate. map (multicall_call.make (candidate_target candidate)) [token0_call A, token1_call A, fee_call A]) candidates)"

text \<open>\<open>Uint::<24, 1>::from\<close> panics beyond 24 bits, which no supported fee reaches.\<close>

definition factory_call :: "'d contract_abi \<Rightarrow> chain_key \<Rightarrow> pool_metadata \<Rightarrow> multicall_call" where
  "factory_call A chain metadata = multicall_call.make (v3_factory_address chain)
     (get_pool_call A (pm_token0 metadata) (pm_token1 metadata) (ucast (pool_fee_pips (pm_fee metadata))))"

definition pool_metadata_factory_multicall_calls :: "'d contract_abi \<Rightarrow> chain_key \<Rightarrow> (protocol_pool_key \<times> pool_metadata) list \<Rightarrow>
    multicall_call list" where
  "pool_metadata_factory_multicall_calls A chain metadata = map (\<lambda>(_, m). factory_call A chain m) metadata"

definition decode_pool_metadata_candidate_result :: "'d contract_abi \<Rightarrow> multicall_call_result option \<Rightarrow>
    multicall_call_result option \<Rightarrow> multicall_call_result option \<Rightarrow> pool_metadata_result" where
  "decode_pool_metadata_candidate_result A token0 token1 fee =
     (case decode_pool_metadata_multicall_result token0 Token0 (token0_returns A) of
        Inl e \<Rightarrow> Inl e
      | Inr token0 \<Rightarrow>
          (case decode_pool_metadata_multicall_result token1 Token1 (token1_returns A) of
             Inl e \<Rightarrow> Inl e
           | Inr token1 \<Rightarrow>
               (case decode_pool_metadata_multicall_result fee FeeCall (fee_returns A) of
                  Inl e \<Rightarrow> Inl e
                | Inr fee_pips \<Rightarrow>
                    (case try_from_pips fee_pips of
                       None \<Rightarrow> Inl (UnsupportedFee fee_pips)
                     | Some tier \<Rightarrow> Inr \<lparr>pm_token0 = token0, pm_token1 = token1, pm_fee = Tiered tier\<rparr>))))"

text \<open>Three results per candidate; the rejected ones and, in order, the ones for the factory to confirm.\<close>

fun decode_candidates :: "'d contract_abi \<Rightarrow> protocol_pool_key list \<Rightarrow> multicall_call_result list \<Rightarrow>
    (protocol_pool_key, pool_metadata_result) hmap \<Rightarrow> (protocol_pool_key \<times> pool_metadata) list \<Rightarrow>
    (protocol_pool_key, pool_metadata_result) hmap \<times> (protocol_pool_key \<times> pool_metadata) list" where
  "decode_candidates A [] results metadata_results factory_inputs = (metadata_results, factory_inputs)"
| "decode_candidates A (candidate # candidates) results metadata_results factory_inputs =
     (let part = take 3 results;
          rest = drop 3 results
      in case decode_pool_metadata_candidate_result A (result_at part 0) (result_at part 1) (result_at part 2) of
           Inr metadata \<Rightarrow> decode_candidates A candidates rest metadata_results (factory_inputs @ [(candidate, metadata)])
         | Inl e \<Rightarrow> decode_candidates A candidates rest (AList.update candidate (Inl e) metadata_results) factory_inputs)"

definition decode_pool_metadata_candidate_results :: "'d contract_abi \<Rightarrow> protocol_pool_key list \<Rightarrow> multicall_call_result list \<Rightarrow>
    (protocol_pool_key, pool_metadata_result) hmap \<times> (protocol_pool_key \<times> pool_metadata) list" where
  "decode_pool_metadata_candidate_results A candidates results = decode_candidates A candidates results [] []"

definition decode_pool_metadata_factory_result :: "'d contract_abi \<Rightarrow> protocol_pool_key \<Rightarrow> pool_metadata \<Rightarrow>
    multicall_call_result option \<Rightarrow> pool_metadata_result" where
  "decode_pool_metadata_factory_result A candidate metadata result =
     (case decode_pool_metadata_multicall_result result FactoryGetPool (get_pool_returns A) of
        Inl e \<Rightarrow> Inl e
      | Inr returned \<Rightarrow>
          if returned = 0 then Inl FactoryReturnedZero
          else if returned \<noteq> candidate_target candidate then Inl (FactoryMismatch returned)
          else Inr metadata)"

definition decode_pool_metadata_factory_results :: "'d contract_abi \<Rightarrow> (protocol_pool_key \<times> pool_metadata) list \<Rightarrow>
    multicall_call_result list \<Rightarrow> (protocol_pool_key, pool_metadata_result) hmap" where
  "decode_pool_metadata_factory_results A metadata results =
     hm_collect (map (\<lambda>(index, candidate, m). (candidate, decode_pool_metadata_factory_result A candidate m (result_at results index)))
       (enumerate 0 metadata))"

text \<open>The block of the request is not used: metadata is read at the latest block.\<close>

definition fetch_pool_metadata :: "'j network \<Rightarrow> ('j, 'd) json_lib \<Rightarrow> 'd contract_abi \<Rightarrow> chain_endpoints \<Rightarrow> chain_key \<Rightarrow> block_hash \<Rightarrow>
    protocol_pool_key set \<Rightarrow> chain_endpoints \<times> (client_evm_error + (protocol_pool_key, pool_metadata_result) hmap)" where
  "fetch_pool_metadata N L A endpoints chain at candidates =
     (if candidates = {} then (endpoints, Inr [])
      else case chain_pool endpoints chain of
        Inl e \<Rightarrow> (endpoints, Inl e)
      | Inr pool \<Rightarrow>
          let wanted = sorted_pool_candidate_addresses candidates;
              calls = pool_metadata_candidate_multicall_calls A wanted;
              (pool, outcome) = aggregate3_batched N L A Latest 0 calls pool
          in case outcome of
               Inl e \<Rightarrow> (AList.update chain pool endpoints, Inl e)
             | Inr results \<Rightarrow>
                 let (metadata_results, factory_inputs) = decode_pool_metadata_candidate_results A wanted results
                 in if factory_inputs = [] then (AList.update chain pool endpoints, Inr metadata_results)
                    else let (pool, outcome) = aggregate3_batched N L A Latest (length calls)
                               (pool_metadata_factory_multicall_calls A chain factory_inputs) pool
                         in (AList.update chain pool endpoints,
                             case outcome of
                               Inl e \<Rightarrow> Inl e
                             | Inr factory_results \<Rightarrow>
                                 Inr (hm_extend metadata_results (decode_pool_metadata_factory_results A factory_inputs factory_results))))"

section \<open>Token metadata\<close>

text \<open>
  The source orders the tokens by address only; tokens of one address on several chains, which no request
  has, would come in any order, and here in the order of their chains.
\<close>

definition sorted_token_addresses :: "token_address set \<Rightarrow> token_address list" where
  "sorted_token_addresses tokens = sorted_list_of_set tokens"

definition token_metadata_multicall_calls :: "'d contract_abi \<Rightarrow> token_address list \<Rightarrow> multicall_call list" where
  "token_metadata_multicall_calls A tokens = map (\<lambda>token. multicall_call.make (ta_address token) (decimals_call A)) tokens"

definition decode_token_decimals :: "'d contract_abi \<Rightarrow> multicall_call_result option \<Rightarrow> token_metadata_failure + u256" where
  "decode_token_decimals A result = decode_token_metadata_multicall_result result Decimals (decimals_returns A)"

definition decode_token_metadata_result :: "'d contract_abi \<Rightarrow> multicall_call_result option \<Rightarrow> token_metadata_result" where
  "decode_token_metadata_result A result =
     (case decode_token_decimals A result of
        Inl e \<Rightarrow> Inl e
      | Inr decimals \<Rightarrow>
          (case try_from_u256 decimals of
             Inl e \<Rightarrow> Inl e
           | Inr decimals \<Rightarrow> Inr \<lparr>tm_decimals = decimals\<rparr>))"

definition decode_token_metadata_results :: "'d contract_abi \<Rightarrow> token_address list \<Rightarrow> multicall_call_result list \<Rightarrow>
    (token_address, token_metadata_result) hmap" where
  "decode_token_metadata_results A tokens results =
     hm_collect (map (\<lambda>(index, token). (token, decode_token_metadata_result A (result_at results index))) (enumerate 0 tokens))"

definition fetch_token_metadata :: "'j network \<Rightarrow> ('j, 'd) json_lib \<Rightarrow> 'd contract_abi \<Rightarrow> chain_endpoints \<Rightarrow> chain_key \<Rightarrow> block_hash \<Rightarrow>
    token_address set \<Rightarrow> chain_endpoints \<times> (client_evm_error + (token_address, token_metadata_result) hmap)" where
  "fetch_token_metadata N L A endpoints chain at tokens =
     (if tokens = {} then (endpoints, Inr [])
      else case chain_pool endpoints chain of
        Inl e \<Rightarrow> (endpoints, Inl e)
      | Inr pool \<Rightarrow>
          let wanted = sorted_token_addresses tokens;
              (pool, outcome) = aggregate3_batched N L A Latest 0 (token_metadata_multicall_calls A wanted) pool
          in (AList.update chain pool endpoints,
              case outcome of
                Inl e \<Rightarrow> Inl e
              | Inr results \<Rightarrow> Inr (decode_token_metadata_results A wanted results)))"

section \<open>Pool state\<close>

text \<open>The two reads of a pool: from its own contract, or for version 4 from the chain's state view, if there is one.\<close>

definition pool_data_call_plan :: "'d contract_abi \<Rightarrow> pool_ref \<Rightarrow> address option \<Rightarrow> multicall_call list option" where
  "pool_data_call_plan A pool state_view =
     (case pr_key pool of
        UniswapV3 a \<Rightarrow> Some [multicall_call.make a (slot0_call A), multicall_call.make a (liquidity_call A)]
      | UniswapV4 p \<Rightarrow>
          map_option (\<lambda>target. [multicall_call.make target (v4_slot0_call A p), multicall_call.make target (v4_liquidity_call A p)]) state_view)"

definition sorted_pool_data_call_plans :: "'d contract_abi \<Rightarrow> pool_ref set \<Rightarrow> address option \<Rightarrow> (pool_ref \<times> multicall_call list) list" where
  "sorted_pool_data_call_plans A pools state_view =
     List.map_filter (\<lambda>pool. map_option (Pair pool) (pool_data_call_plan A pool state_view)) (sorted_list_of_set pools)"

definition pool_data_multicall_calls :: "(pool_ref \<times> multicall_call list) list \<Rightarrow> multicall_call list" where
  "pool_data_multicall_calls plans = concat (map snd plans)"

definition read_state :: "(bytes \<Rightarrow> (u160 \<times> i24) option) \<Rightarrow> (bytes \<Rightarrow> u128 option) \<Rightarrow> multicall_call_result option \<Rightarrow>
    multicall_call_result option \<Rightarrow> pool_data_result" where
  "read_state slot0_of liquidity_of slot0 liquidity =
     (case decode_multicall_result slot0 Slot0 slot0_of of
        Inl e \<Rightarrow> Inl e
      | Inr (price, t) \<Rightarrow>
          (case decode_multicall_result liquidity Liquidity liquidity_of of
             Inl e \<Rightarrow> Inl e
           | Inr l \<Rightarrow> Inr \<lparr>ps_sqrt_price_x96 = price, ps_tick = t, ps_liquidity = l\<rparr>))"

definition decode_pool_data_result :: "'d contract_abi \<Rightarrow> multicall_call_result option \<Rightarrow> multicall_call_result option \<Rightarrow> pool_data_result" where
  "decode_pool_data_result A slot0 liquidity = read_state (slot0_returns A) (liquidity_returns A) slot0 liquidity"

definition decode_v4_pool_data_result :: "'d contract_abi \<Rightarrow> multicall_call_result option \<Rightarrow> multicall_call_result option \<Rightarrow> pool_data_result" where
  "decode_v4_pool_data_result A slot0 liquidity = read_state (v4_slot0_returns A) (v4_liquidity_returns A) slot0 liquidity"

fun decode_plans :: "'d contract_abi \<Rightarrow> (pool_ref \<times> multicall_call list) list \<Rightarrow> multicall_call_result list \<Rightarrow>
    (pool_ref \<times> pool_data_result) list" where
  "decode_plans A [] results = []"
| "decode_plans A ((pool, calls) # plans) results =
     (let part = take 2 results;
          state = result_at part 0;
          liquidity = result_at part 1
      in (pool, case pr_key pool of
            UniswapV3 a \<Rightarrow> decode_pool_data_result A state liquidity
          | UniswapV4 p \<Rightarrow> decode_v4_pool_data_result A state liquidity) # decode_plans A plans (drop 2 results))"

definition decode_pool_data_results :: "'d contract_abi \<Rightarrow> (pool_ref \<times> multicall_call list) list \<Rightarrow> multicall_call_result list \<Rightarrow>
    (pool_ref, pool_data_result) hmap" where
  "decode_pool_data_results A plans results = hm_collect (decode_plans A plans results)"

definition fetch_pool_data :: "'j network \<Rightarrow> ('j, 'd) json_lib \<Rightarrow> 'd contract_abi \<Rightarrow> chain_endpoints \<Rightarrow> chain_key \<Rightarrow> block_hash \<Rightarrow>
    pool_ref set \<Rightarrow> chain_endpoints \<times> (client_evm_error + (pool_ref, pool_data_result) hmap)" where
  "fetch_pool_data N L A endpoints chain at pools =
     (if pools = {} then (endpoints, Inr [])
      else case chain_pool endpoints chain of
        Inl e \<Rightarrow> (endpoints, Inl e)
      | Inr pool \<Rightarrow>
          let plans = sorted_pool_data_call_plans A pools (state_view_address chain);
              (pool, outcome) = aggregate3_batched N L A (AtHash at) 0 (pool_data_multicall_calls plans) pool
          in (AList.update chain pool endpoints,
              case outcome of
                Inl e \<Rightarrow> Inl e
              | Inr results \<Rightarrow> Inr (decode_pool_data_results A plans results)))"

end
