(* ===== verification/RangeLaws.thy ===== *)
theory RangeLaws
  imports RpcLaws
begin

text \<open>
  The grouping of a range's logs by block, and the windows in which a range is read: read in windows, a range
  gives what one request for the whole of it would give.
\<close>

section \<open>Grouping\<close>

definition range_entry :: "'d contract_abi \<Rightarrow> 'd rpc_log \<Rightarrow> ((u64 \<times> block_hash) \<times> pool_log) option" where
  "range_entry A log = (case (rg_block_number log, lf_block_hash log, decode_pool_log (event_abi.truncate A) (raw_log.truncate log)) of
     (Some number, Some h, Some pool_log) \<Rightarrow> Some ((number, h), pool_log)
   | _ \<Rightarrow> None)"

definition block_range_logs :: "'d contract_abi \<Rightarrow> 'd rpc_log list \<Rightarrow> u64 \<times> block_hash \<Rightarrow> pool_log list" where
  "block_range_logs A logs k = map snd (filter (\<lambda>e. fst e = k) (List.map_filter (range_entry A) logs))"

definition block_key :: "range_log_block \<Rightarrow> u64 \<times> block_hash" where
  "block_key b = (rb_number b, rb_hash b)"

lemma block_range_logs_simps [simp]:
  "block_range_logs A [] k = []"
  "block_range_logs A (log # logs) k =
     (case range_entry A log of Some (k', p) \<Rightarrow> if k' = k then [p] else [] | None \<Rightarrow> []) @ block_range_logs A logs k"
  "block_range_logs A (xs @ ys) k = block_range_logs A xs k @ block_range_logs A ys k"
  by (auto simp: block_range_logs_def map_filter_simps split: option.split) (simp add: List.map_filter_def)

lemma add_range_log_entry:
  "add_range_log A log m = (case range_entry A log of
     None \<Rightarrow> m
   | Some (k, p) \<Rightarrow> AList.update k ((case map_of m k of Some logs \<Rightarrow> logs | None \<Rightarrow> []) @ [p]) m)"
  by (simp add: range_entry_def split: option.split)

lemma grouped:
  "hm_wf m \<Longrightarrow> hm_wf (fold (add_range_log A) logs m) \<and>
   map_of (fold (add_range_log A) logs m) k =
     (case map_of m k of
        Some before \<Rightarrow> Some (before @ block_range_logs A logs k)
      | None \<Rightarrow> if block_range_logs A logs k = [] then None else Some (block_range_logs A logs k))"
proof (induction logs arbitrary: m)
  case Nil
  then show ?case by (simp split: option.split)
next
  case (Cons log logs)
  then have "hm_wf (add_range_log A log m)" by (simp add: add_range_log_entry split: option.split del: add_range_log.simps)
  from Cons.IH [OF this] show ?case
    by (auto simp: add_range_log_entry simp del: add_range_log.simps split: option.splits prod.splits)
qed

lemma hash_bound: "unat (h :: block_hash) < 2 ^ 256"
proof -
  have "unat h < 2 ^ LENGTH(256)" by (rule unsigned_less)
  then show ?thesis by simp
qed

lemma two_digits:
  assumes "a * N + b = c * N + d" "b < N" "d < (N :: nat)"
  shows "a = c \<and> b = d"
proof -
  have "(a * N + b) div N = a" "(c * N + d) div N = c" using assms(2,3) by simp_all
  with assms(1) have "a = c" by metis
  with assms(1) show ?thesis by simp
qed

lemma range_key_eq [simp]: "range_key k = range_key k' \<longleftrightarrow> k = k'"
proof
  assume "range_key k = range_key k'"
  moreover have "unat (snd k) < 2 ^ 256" "unat (snd k') < 2 ^ 256"
    using hash_bound by blast+
  ultimately have "unat (fst k) = unat (fst k') \<and> unat (snd k) = unat (snd k')"
    unfolding range_key_def by (intro two_digits)
  then show "k = k'" by (simp add: prod_eq_iff word_unat_eq_iff)
qed simp

lemma range_key_mono: "fst k < fst k' \<Longrightarrow> range_key k < range_key k'"
proof -
  assume "fst k < fst k'"
  then have "unat (fst k) + 1 \<le> unat (fst k')" by (simp add: word_less_nat_alt)
  then have "(unat (fst k) + 1) * 2 ^ 256 \<le> unat (fst k') * 2 ^ 256" by (rule mult_le_mono1)
  moreover have "unat (snd k) < 2 ^ 256" by (rule hash_bound)
  ultimately show ?thesis unfolding range_key_def by simp
qed

lemma group_exact:
  "sorted_wrt (<) (map (range_key \<circ> block_key) (group_range_logs_by_block A logs))"
  "b \<in> set (group_range_logs_by_block A logs) \<longleftrightarrow>
     rb_logs b = block_range_logs A logs (block_key b) \<and> rb_logs b \<noteq> []"
proof -
  let ?m = "fold (add_range_log A) logs []"
  have wf: "hm_wf ?m" and lookup: "map_of ?m k = (if block_range_logs A logs k = [] then None else Some (block_range_logs A logs k))" for k
    using grouped [of "[]" A logs k] by simp_all
  have keys: "map (range_key \<circ> block_key) (group_range_logs_by_block A logs) = map (\<lambda>(k, logs). range_key k) (sort_key (\<lambda>(k, logs). range_key k) ?m)"
    by (auto simp: group_range_logs_by_block_def block_key_def)
  have "distinct (map (\<lambda>(k, logs). range_key k) ?m)"
    using wf by (fastforce simp: hm_wf_def distinct_map inj_on_def)
  then have "distinct (map (\<lambda>(k, logs). range_key k) (sort_key (\<lambda>(k, logs). range_key k) ?m))"
    by (simp add: distinct_map)
  then show "sorted_wrt (<) (map (range_key \<circ> block_key) (group_range_logs_by_block A logs))"
    unfolding keys by (simp add: strict_sorted_iff)
  have "b \<in> set (group_range_logs_by_block A logs) \<longleftrightarrow> map_of ?m (block_key b) = Some (rb_logs b)"
    unfolding hm_wf_in_set [OF wf, symmetric] group_range_logs_by_block_def
    by (cases b) (auto simp: block_key_def image_iff split_beta intro!: bexI)
  then show "b \<in> set (group_range_logs_by_block A logs) \<longleftrightarrow> rb_logs b = block_range_logs A logs (block_key b) \<and> rb_logs b \<noteq> []"
    by (auto simp: lookup)
qed

lemma keyed_unique:
  fixes f :: "'a \<Rightarrow> nat"
  assumes "sorted_wrt (<) (map f xs)" "sorted_wrt (<) (map f ys)" "set xs = set ys"
  shows "xs = ys"
  by (rule map_sorted_distinct_set_unique [of f]) (use assms in \<open>auto simp: strict_sorted_iff distinct_map\<close>)

text \<open>Logs of two stretches of blocks, one after the other, group into one list after the other.\<close>

lemma group_append:
  assumes "\<And>x y a b. x \<in> set xs \<Longrightarrow> y \<in> set ys \<Longrightarrow> rg_block_number x = Some a \<Longrightarrow> rg_block_number y = Some b \<Longrightarrow> a < b"
  shows "group_range_logs_by_block A (xs @ ys) = group_range_logs_by_block A xs @ group_range_logs_by_block A ys"
    (is "?all = ?front @ ?back")
proof (rule keyed_unique [where f = "range_key \<circ> block_key"])
  have number: "\<exists>log\<in>set logs. rg_block_number log = Some (rb_number b)" if "b \<in> set (group_range_logs_by_block A logs)" for b logs
    using that unfolding group_exact(2) block_range_logs_def
    by (auto simp: filter_empty_conv range_entry_def block_key_def List.map_filter_def split: option.splits)
  have before: "rb_number b < rb_number c" if "b \<in> set ?front" "c \<in> set ?back" for b c
    using number [OF that(1)] number [OF that(2)] assms by blast
  show "sorted_wrt (<) (map (range_key \<circ> block_key) ?all)" by (rule group_exact)
  show "sorted_wrt (<) (map (range_key \<circ> block_key) (?front @ ?back))"
    using group_exact(1) [of A xs] group_exact(1) [of A ys] before
    by (auto simp: sorted_wrt_append block_key_def intro: range_key_mono)
  have exclusive: "block_range_logs A xs k = [] \<or> block_range_logs A ys k = []" for k
  proof (rule ccontr)
    assume "\<not> ?thesis"
    then have "\<lparr>rb_number = fst k, rb_hash = snd k, rb_logs = block_range_logs A xs k\<rparr> \<in> set ?front"
      "\<lparr>rb_number = fst k, rb_hash = snd k, rb_logs = block_range_logs A ys k\<rparr> \<in> set ?back"
      by (simp_all add: group_exact(2) block_key_def)
    from before [OF this] show False by simp
  qed
  show "set ?all = set (?front @ ?back)"
  proof (intro set_eqI)
    fix b
    show "b \<in> set ?all \<longleftrightarrow> b \<in> set (?front @ ?back)"
      using exclusive [of "block_key b"] by (auto simp: group_exact(2))
  qed
qed

section \<open>Windows\<close>

definition in_range :: "u64 \<Rightarrow> u64 \<Rightarrow> 'd rpc_log \<Rightarrow> bool" where
  "in_range from_block to_block log \<longleftrightarrow>
     (case rg_block_number log of Some n \<Rightarrow> from_block \<le> n \<and> n \<le> to_block | None \<Rightarrow> False)"

text \<open>
  The content of every well-formed answer is true: the logs that come back for a range are those of the
  chain's logs in that range, in the chain's order. Failures and malformed answers are left open.
\<close>

definition honest_ranges :: "'d rpc_log list \<Rightarrow> 'j network \<Rightarrow> ('j, 'd) json_lib \<Rightarrow> 'd contract_abi \<Rightarrow> bool" where
  "honest_ranges chain_logs N L A \<longleftrightarrow> (\<forall>i n url from_block to_block v logs.
     send_rpc_request (nt_post N i n url (build_pool_logs_range_request L A HTTP_REQUEST_ID from_block to_block)) = Inr v \<longrightarrow>
     logs_array L v HTTP_REQUEST_ID ''pool logs range'' = Inr logs \<longrightarrow>
     logs = filter (in_range from_block to_block) chain_logs)"

definition range_blocks :: "'d contract_abi \<Rightarrow> 'd rpc_log list \<Rightarrow> u64 \<Rightarrow> u64 \<Rightarrow> range_log_block list" where
  "range_blocks A chain_logs from_block to_block = group_range_logs_by_block A (filter (in_range from_block to_block) chain_logs)"

lemma range_answer:
  assumes "honest_ranges chain_logs N L A" "request_range N L A i from_block to_block pool = Some (pool', Inr blocks)"
  shows "blocks = range_blocks A chain_logs from_block to_block"
proof -
  from assms(2) obtain n url v
    where "send_rpc_request (nt_post N i n url (build_pool_logs_range_request L A HTTP_REQUEST_ID from_block to_block)) = Inr v"
      "parse_pool_logs_range_response L A v HTTP_REQUEST_ID = Inr blocks"
    unfolding request_range_def by (metis request_value)
  with assms(1) show ?thesis
    unfolding honest_ranges_def range_blocks_def by (fastforce simp: parse_pool_logs_range_response_def split: sum.splits)
qed

lemma group_perm_filter:
  "(\<And>k. block_range_logs A xs k = block_range_logs A ys k) \<Longrightarrow> group_range_logs_by_block A xs = group_range_logs_by_block A ys"
  by (rule keyed_unique [where f = "range_key \<circ> block_key"]) (simp_all add: group_exact set_eq_iff)

lemma block_range_filter:
  "block_range_logs A (filter (in_range a b) logs) k = (if a \<le> fst k \<and> fst k \<le> b then block_range_logs A logs k else [])"
  by (induction logs) (auto simp: in_range_def range_entry_def split: option.splits)

lemma ranges_join:
  assumes "a \<le> m" "m < b"
  shows "range_blocks A chain_logs a m @ range_blocks A chain_logs (m + 1) b = range_blocks A chain_logs a b"
proof -
  let ?xs = "filter (in_range a m) chain_logs" and ?ys = "filter (in_range (m + 1) b) chain_logs"
  have next_block: "m + 1 \<le> n \<longleftrightarrow> m < n" for n
    using unat_next [OF assms(2)] by (simp add: word_le_nat_alt word_less_nat_alt Suc_le_eq)
  have "group_range_logs_by_block A (?xs @ ?ys) = group_range_logs_by_block A ?xs @ group_range_logs_by_block A ?ys"
    by (rule group_append) (auto simp: in_range_def next_block)
  moreover have "group_range_logs_by_block A (?xs @ ?ys) = group_range_logs_by_block A (filter (in_range a b) chain_logs)"
    by (rule group_perm_filter) (use assms in \<open>auto simp: block_range_filter next_block\<close>)
  ultimately show ?thesis by (simp add: range_blocks_def)
qed

lemma window_end_le: "window_end_of chain cursor to_block \<le> to_block"
  by (simp add: window_end_of_def)

lemma range_loop_true:
  assumes "honest_ranges chain_logs N L A" "cursor \<le> to_block"
    "range_loop N L A chain to_block i cursor blocks pool = Some (pool', Inr r)"
  shows "r = blocks @ range_blocks A chain_logs cursor to_block"
  using assms
proof (induction N L A chain to_block i cursor blocks pool rule: range_loop.induct)
  case (1 N L A chain to_block i cursor blocks pool)
  let ?until = "window_end_of chain cursor to_block"
  from 1(4) obtain pool1 window where request: "request_range N L A i cursor ?until pool = Some (pool1, Inr window)"
    and rest: "(if to_block \<le> ?until then Some (pool1, Inr (blocks @ window))
      else range_loop N L A chain to_block (Suc i) (?until + 1) (blocks @ window) pool1) = Some (pool', Inr r)"
    by (subst (asm) range_loop.simps) (auto simp: Let_def split: option.splits sum.splits prod.splits simp del: range_loop.simps)
  have window: "window = range_blocks A chain_logs cursor ?until" by (rule range_answer [OF 1(2) request])
  show ?case
  proof (cases "to_block \<le> ?until")
    case True
    with window_end_le [of chain cursor to_block] rest window show ?thesis by simp
  next
    case False
    then have less: "?until < to_block" by simp
    then have "?until + 1 \<le> to_block"
      using unat_next [OF less] by (simp add: word_le_nat_alt word_less_nat_alt)
    with 1(1) [OF refl request _ _ False 1(2)] rest False
    have "r = (blocks @ window) @ range_blocks A chain_logs (?until + 1) to_block" by simp
    then show ?thesis using ranges_join [OF window_end_bounds [OF less] less] window by simp
  qed
qed

text \<open>
  Reading a range in windows is transparent. Whatever the chain's window size, the retries and the
  endpoints, when the read of a range succeeds it brings exactly the blocks that one request for the whole
  range would: each block of the range with a relevant log, once, in the order of number and hash, with all
  its decoded logs in the chain's order, and no other. The last block of the 64-bit range is no exception,
  and the loop always ends.
\<close>

lemma range_read_transparent:
  assumes "honest_ranges chain_logs N L A"
    and "fetch_pool_logs_in_range N L A endpoints chain from_block to_block = Some (endpoints', Inr blocks)"
  shows "blocks = group_range_logs_by_block A (filter (in_range from_block to_block) chain_logs) \<and>
    sorted_wrt (<) (map (range_key \<circ> block_key) blocks) \<and>
    (\<forall>b. b \<in> set blocks \<longleftrightarrow> from_block \<le> rb_number b \<and> rb_number b \<le> to_block \<and>
      rb_logs b = block_range_logs A chain_logs (block_key b) \<and> rb_logs b \<noteq> [])"
proof -
  from assms(2) obtain pool pool' where pool: "chain_pool endpoints chain = Inr pool"
    and read: "(if to_block < from_block then Some (pool, Inr []) else range_loop N L A chain to_block 0 from_block [] pool) =
      Some (pool', Inr blocks)"
    by (auto simp: fetch_pool_logs_in_range_def on_pool_def simp del: range_loop.simps split: sum.splits)
  have blocks: "blocks = range_blocks A chain_logs from_block to_block"
  proof (cases "to_block < from_block")
    case True
    then have "filter (in_range from_block to_block) chain_logs = []" by (auto simp: in_range_def filter_empty_conv split: option.splits)
    with True read show ?thesis by (simp add: range_blocks_def group_range_logs_by_block_def)
  next
    case False
    with read have "range_loop N L A chain to_block 0 from_block [] pool = Some (pool', Inr blocks)" by simp
    from range_loop_true [OF assms(1) _ this] False show ?thesis by simp
  qed
  show ?thesis
    unfolding blocks range_blocks_def group_exact(2) block_range_filter by (auto simp: group_exact(1) block_key_def)
qed

end
