(* ===== verification/MetadataVerdicts.thy ===== *)
theory MetadataVerdicts
  imports RpcLaws
begin

text \<open>
  What the resolution of metadata by aggregated calls accepts: a pool exactly when its contract names two
  tokens and a supported fee and the chain's factory names that contract for them; a token exactly when its
  decimals are supported. These are the services that the runs of the runtimes take as sound.
\<close>

section \<open>Reads\<close>

definition reads :: "call_world \<Rightarrow> multicall_block \<Rightarrow> address \<Rightarrow> bytes \<Rightarrow> (bytes \<Rightarrow> 'a option) \<Rightarrow> 'a option" where
  "reads world block target call_data decode =
     (let (success, return_data) = world block target call_data in if success then decode return_data else None)"

lemma decode_answer:
  "decode_result missing failed undecoded (Some (call_answer world block (multicall_call.make target call_data))) call decode =
     (case reads world block target call_data decode of
        Some v \<Rightarrow> Inr v
      | None \<Rightarrow> Inl (if fst (world block target call_data) then undecoded call else failed call))"
  by (simp add: decode_result_def call_answer_def reads_def multicall_call.make_def split_beta split: option.split)

lemmas decoders = decode_pool_metadata_multicall_result_def decode_token_metadata_multicall_result_def decode_multicall_result_def

section \<open>Pools\<close>

definition pool_answers :: "call_world \<Rightarrow> 'd contract_abi \<Rightarrow> protocol_pool_key \<Rightarrow> multicall_call_result list" where
  "pool_answers world A candidate = map (call_answer world Latest \<circ> multicall_call.make (candidate_target candidate))
     [token0_call A, token1_call A, fee_call A]"

definition pool_claim :: "call_world \<Rightarrow> 'd contract_abi \<Rightarrow> protocol_pool_key \<Rightarrow> pool_metadata_result" where
  "pool_claim world A candidate = decode_pool_metadata_candidate_result A
     (result_at (pool_answers world A candidate) 0) (result_at (pool_answers world A candidate) 1) (result_at (pool_answers world A candidate) 2)"

definition pool_verdict :: "call_world \<Rightarrow> 'd contract_abi \<Rightarrow> chain_key \<Rightarrow> protocol_pool_key \<Rightarrow> pool_metadata_result" where
  "pool_verdict world A chain candidate =
     (case pool_claim world A candidate of
        Inl e \<Rightarrow> Inl e
      | Inr m \<Rightarrow> decode_pool_metadata_factory_result A candidate m (Some (call_answer world Latest (factory_call A chain m))))"

definition refused :: "call_world \<Rightarrow> 'd contract_abi \<Rightarrow> protocol_pool_key \<Rightarrow> pool_metadata_result option" where
  "refused world A c = (case pool_claim world A c of Inl e \<Rightarrow> Some (Inl e) | Inr m \<Rightarrow> None)"

definition claimed :: "call_world \<Rightarrow> 'd contract_abi \<Rightarrow> protocol_pool_key \<Rightarrow> pool_metadata option" where
  "claimed world A c = (case pool_claim world A c of Inl e \<Rightarrow> None | Inr m \<Rightarrow> Some m)"

lemma decoded_candidates:
  "decode_candidates A candidates (concat (map (pool_answers world A) candidates)) rejected inputs =
     (hm_extend rejected (List.map_filter (\<lambda>c. map_option (Pair c) (refused world A c)) candidates),
      inputs @ List.map_filter (\<lambda>c. map_option (Pair c) (claimed world A c)) candidates)"
proof (induction candidates arbitrary: rejected inputs)
  case (Cons c candidates)
  have three: "length (pool_answers world A c) = 3" by (simp add: pool_answers_def)
  have claim: "decode_pool_metadata_candidate_result A (result_at (pool_answers world A c) 0)
      (result_at (pool_answers world A c) (Suc 0)) (result_at (pool_answers world A c) 2) = pool_claim world A c"
    by (simp add: pool_claim_def)
  show ?case
    by (cases "pool_claim world A c")
      (simp_all add: Let_def three claim Cons.IH map_filter_simps hm_extend_def refused_def claimed_def)
qed (simp add: map_filter_simps hm_extend_def)

lemma candidate_calls:
  "map (call_answer world Latest) (pool_metadata_candidate_multicall_calls A candidates) = concat (map (pool_answers world A) candidates)"
  by (induction candidates) (simp_all add: pool_metadata_candidate_multicall_calls_def pool_answers_def)

lemma factory_verdicts:
  "map_of (decode_pool_metadata_factory_results A inputs
      (map (call_answer world Latest) (pool_metadata_factory_multicall_calls A chain inputs))) c =
     map_of (rev (map (\<lambda>(c, m). (c, decode_pool_metadata_factory_result A c m (Some (call_answer world Latest (factory_call A chain m))))) inputs)) c"
proof -
  have "map (\<lambda>(index, candidate, m). (candidate, decode_pool_metadata_factory_result A candidate m
      (result_at (map (call_answer world Latest) (pool_metadata_factory_multicall_calls A chain inputs)) index))) (enumerate 0 inputs) =
    map (\<lambda>(c, m). (c, decode_pool_metadata_factory_result A c m (Some (call_answer world Latest (factory_call A chain m))))) inputs"
    by (rule nth_equalityI)
      (auto simp: nth_enumerate_eq result_at_def pool_metadata_factory_multicall_calls_def split_beta)
  then show ?thesis by (simp add: decode_pool_metadata_factory_results_def hm_collect_def map_of_extend split: option.split)
qed

lemma map_of_rev_filtered:
  "map_of (rev (List.map_filter (\<lambda>c. map_option (Pair c) (f c)) cs)) c = (if c \<in> set cs then f c else None)"
  by (induction cs) (auto simp: map_filter_simps map_add_def split: option.splits if_splits)

text \<open>A successful call is one aggregate, and a second one when a candidate is left to confirm.\<close>

lemma fetched_pools:
  assumes "fetch_pool_metadata N L A endpoints chain at candidates = (endpoints', Inr r)" "candidates \<noteq> {}"
  obtains pool pool1 pool2 results rejected inputs i answers where
    "aggregate3_batched N L A Latest 0 (pool_metadata_candidate_multicall_calls A (sorted_pool_candidate_addresses candidates)) pool = (pool1, Inr results)"
    "decode_pool_metadata_candidate_results A (sorted_pool_candidate_addresses candidates) results = (rejected, inputs)"
    "inputs = [] \<and> r = rejected \<or>
     aggregate3_batched N L A Latest i (pool_metadata_factory_multicall_calls A chain inputs) pool1 = (pool2, Inr answers) \<and>
     r = hm_extend rejected (decode_pool_metadata_factory_results A inputs answers)"
  using assms
  by (auto simp: fetch_pool_metadata_def Let_def split: sum.splits prod.splits if_splits) (meson that)+

lemma map_keyed_filter:
  "map (\<lambda>(c, m). (c, f c m)) (List.map_filter (\<lambda>c. map_option (Pair c) (g c)) cs) =
     List.map_filter (\<lambda>c. map_option (Pair c) (map_option (f c) (g c))) cs"
  by (induction cs) (simp_all add: map_filter_simps split: option.split)

lemma confirmed_inputs:
  assumes "inputs = List.map_filter (\<lambda>c. map_option (Pair c) (claimed world A c)) candidates"
  shows "map_of (rev (decode_pool_metadata_factory_results A inputs
      (map (call_answer world Latest) (pool_metadata_factory_multicall_calls A chain inputs)))) c =
    (if c \<in> set candidates then map_option (\<lambda>m. decode_pool_metadata_factory_result A c m
      (Some (call_answer world Latest (factory_call A chain m)))) (claimed world A c) else None)" (is "map_of (rev ?judged) c = _")
proof -
  have "map_of (rev ?judged) c = map_of ?judged c"
    by (simp add: decode_pool_metadata_factory_results_def map_of_rev_wf)
  also have "\<dots> = map_of (rev (List.map_filter (\<lambda>c. map_option (Pair c) (map_option (\<lambda>m. decode_pool_metadata_factory_result A c m
      (Some (call_answer world Latest (factory_call A chain m)))) (claimed world A c))) candidates)) c"
    unfolding factory_verdicts assms map_keyed_filter ..
  finally show ?thesis by (simp only: map_of_rev_filtered)
qed

lemma pool_results:
  assumes "honest_calls world N L A" "finite candidates"
    and "fetch_pool_metadata N L A endpoints chain at candidates = (endpoints', Inr r)"
  shows "map_of r c = (if c \<in> candidates \<and> uniswap_v3_address c \<noteq> None then Some (pool_verdict world A chain c) else None)"
proof (cases "candidates = {}")
  case False
  define wanted where "wanted = sorted_pool_candidate_addresses candidates"
  have members: "set wanted = {c \<in> candidates. uniswap_v3_address c \<noteq> None}"
    using assms(2) by (auto simp: wanted_def sorted_pool_candidate_addresses_def)
  from fetched_pools [OF assms(3) False] obtain pool pool1 pool2 results rejected inputs i answers
    where agg: "aggregate3_batched N L A Latest 0 (pool_metadata_candidate_multicall_calls A wanted) pool = (pool1, Inr results)"
      and decoded: "decode_pool_metadata_candidate_results A wanted results = (rejected, inputs)"
      and outcome: "inputs = [] \<and> r = rejected \<or>
        aggregate3_batched N L A Latest i (pool_metadata_factory_multicall_calls A chain inputs) pool1 = (pool2, Inr answers) \<and>
        r = hm_extend rejected (decode_pool_metadata_factory_results A inputs answers)"
    unfolding wanted_def by metis
  from decoded have rejected: "rejected = hm_extend [] (List.map_filter (\<lambda>c. map_option (Pair c) (refused world A c)) wanted)"
    and inputs: "inputs = List.map_filter (\<lambda>c. map_option (Pair c) (claimed world A c)) wanted"
    unfolding aggregation_in_order [OF assms(1) agg] decode_pool_metadata_candidate_results_def candidate_calls decoded_candidates by simp_all
  let ?judged = "decode_pool_metadata_factory_results A inputs (map (call_answer world Latest) (pool_metadata_factory_multicall_calls A chain inputs))"
  from outcome have "r = hm_extend rejected ?judged"
  proof
    assume "inputs = [] \<and> r = rejected"
    then show ?thesis by (simp add: decode_pool_metadata_factory_results_def hm_collect_def hm_extend_def)
  next
    assume "aggregate3_batched N L A Latest i (pool_metadata_factory_multicall_calls A chain inputs) pool1 = (pool2, Inr answers) \<and>
      r = hm_extend rejected (decode_pool_metadata_factory_results A inputs answers)"
    then show ?thesis using aggregation_in_order [OF assms(1)] by metis
  qed
  then show ?thesis
    using confirmed_inputs [OF inputs, of chain c] members
    by (auto simp: map_of_extend map_of_rev_filtered rejected claimed_def refused_def pool_verdict_def split: sum.splits option.splits)
qed (use assms(3) in \<open>simp add: fetch_pool_metadata_def\<close>)

text \<open>A pool is confirmed when its contract names two tokens and a supported fee for which the factory names it.\<close>

definition confirmed :: "call_world \<Rightarrow> 'd contract_abi \<Rightarrow> chain_key \<Rightarrow> address \<Rightarrow> pool_metadata \<Rightarrow> bool" where
  "confirmed world A chain a m \<longleftrightarrow>
     a \<noteq> 0 \<and>
     reads world Latest a (token0_call A) (token0_returns A) = Some (pm_token0 m) \<and>
     reads world Latest a (token1_call A) (token1_returns A) = Some (pm_token1 m) \<and>
     (\<exists>tier. pm_fee m = Tiered tier \<and> reads world Latest a (fee_call A) (fee_returns A) = Some (v3_fee_pips tier) \<and>
       reads world Latest (v3_factory_address chain) (get_pool_call A (pm_token0 m) (pm_token1 m) (ucast (v3_fee_pips tier)))
         (get_pool_returns A) = Some a)"

lemma tier_of_pips: "try_from_pips p = Some tier \<longleftrightarrow> v3_fee_pips tier = p"
  by (cases tier) (auto simp: try_from_pips_def)

lemma v3_fee_pips_inj [simp]: "v3_fee_pips tier = v3_fee_pips tier' \<longleftrightarrow> tier = tier'"
  by (metis option.inject tier_of_pips)

lemma claim_iff:
  "pool_claim world A (UniswapV3 a) = Inr m \<longleftrightarrow>
     reads world Latest a (token0_call A) (token0_returns A) = Some (pm_token0 m) \<and>
     reads world Latest a (token1_call A) (token1_returns A) = Some (pm_token1 m) \<and>
     (\<exists>tier. pm_fee m = Tiered tier \<and> reads world Latest a (fee_call A) (fee_returns A) = Some (v3_fee_pips tier))"
proof -
  have first: "result_at (pool_answers world A (UniswapV3 a)) 0 = Some (call_answer world Latest (multicall_call.make a (token0_call A)))"
    "result_at (pool_answers world A (UniswapV3 a)) 1 = Some (call_answer world Latest (multicall_call.make a (token1_call A)))"
    "result_at (pool_answers world A (UniswapV3 a)) 2 = Some (call_answer world Latest (multicall_call.make a (fee_call A)))"
    by (simp_all add: result_at_def pool_answers_def candidate_target_def)
  show ?thesis
    unfolding pool_claim_def decode_pool_metadata_candidate_result_def first decoders
    by (cases m) (auto simp: decode_answer tier_of_pips split: sum.splits option.splits)
qed

lemma verdict_iff: "pool_verdict world A chain (UniswapV3 a) = Inr m \<longleftrightarrow> confirmed world A chain a m"
proof -
  have "pool_verdict world A chain (UniswapV3 a) = Inr m \<longleftrightarrow> pool_claim world A (UniswapV3 a) = Inr m \<and>
      decode_pool_metadata_factory_result A (UniswapV3 a) m (Some (call_answer world Latest (factory_call A chain m))) = Inr m"
    by (auto simp: pool_verdict_def decode_pool_metadata_factory_result_def split: sum.splits if_splits)
  also have "\<dots> \<longleftrightarrow> confirmed world A chain a m"
    unfolding claim_iff confirmed_def
    by (auto simp: decode_pool_metadata_factory_result_def decoders factory_call_def multicall_call.make_def [symmetric] decode_answer
        candidate_target_def split: option.splits if_splits sum.splits)
  finally show ?thesis .
qed

text \<open>
  C37. Metadata is only what the chain confirms, and never another pool's. When the resolution of a set of
  pools succeeds, over any chunking, order of answers, retries and endpoints, each version 3 pool among them
  has exactly one result, and a pool has the metadata m exactly when its contract names the tokens and the
  fee of m, the fee is one of the four tiers, and the chain's factory answers that contract's address, not
  zero, for those tokens and that fee. No other key has a result; a version 4 pool is left without one.
\<close>

theorem pool_metadata_confirmed:
  assumes "honest_calls world N L A" "finite candidates"
    and "fetch_pool_metadata N L A endpoints chain at candidates = (endpoints', Inr r)"
  shows "(\<forall>c. map_of r c \<noteq> None \<longleftrightarrow> c \<in> candidates \<and> uniswap_v3_address c \<noteq> None) \<and>
    (\<forall>c m. map_of r c = Some (Inr m) \<longleftrightarrow> c \<in> candidates \<and> (\<exists>a. c = UniswapV3 a \<and> confirmed world A chain a m))"
proof -
  note result = pool_results [OF assms]
  have "map_of r c = Some (Inr m) \<longleftrightarrow> c \<in> candidates \<and> (\<exists>a. c = UniswapV3 a \<and> confirmed world A chain a m)" for c m
    by (cases c) (auto simp: result verdict_iff)
  moreover have "map_of r c \<noteq> None \<longleftrightarrow> c \<in> candidates \<and> uniswap_v3_address c \<noteq> None" for c by (simp add: result)
  ultimately show ?thesis by blast
qed

section \<open>A provider\<close>

text \<open>
  A provider of a chain on which every call succeeds and returns nothing, with JSON cut down to what the
  answers need: an array of one entry, its version, its id, and a result of n values.
\<close>

datatype demo_json = Batch nat | Entry nat | Version | Number | Values nat | Opaque

definition demo_json_lib :: "(demo_json, nat) json_lib" where
  "demo_json_lib =
     \<lparr>jl_null = Opaque, jl_bool = (\<lambda>_. Opaque), jl_u64 = (\<lambda>_. Number), jl_string = (\<lambda>_. Opaque), jl_array = (\<lambda>_. Opaque),
      jl_object = (\<lambda>_. Opaque),
      jl_get = (\<lambda>j key. case j of
          Entry n \<Rightarrow> if key = ''jsonrpc'' then Some Version else if key = ''id'' then Some Number
            else if key = ''result'' then Some (Values n) else None
        | _ \<Rightarrow> None),
      jl_as_str = (\<lambda>j. if j = Version then Some ''2.0'' else None),
      jl_as_u64 = (\<lambda>j. if j = Number then Some 1 else None),
      jl_as_array = (\<lambda>j. case j of Batch n \<Rightarrow> Some [Entry n] | _ \<Rightarrow> None),
      jl_is_null = (\<lambda>_. False), jl_to_string = (\<lambda>_. []), jl_hash = (\<lambda>_. Opaque), jl_address = (\<lambda>_. Opaque),
      jl_bytes = (\<lambda>_. Opaque), jl_topic_text = (\<lambda>_. []), jl_from_str = (\<lambda>_. Inr Opaque), jl_utf8 = (\<lambda>_. Inr []),
      jl_to_bytes = (\<lambda>j. case j of Values n \<Rightarrow> Inr (replicate n 0) | _ \<Rightarrow> Inl ''no bytes''),
      jl_to_header = (\<lambda>_. Inl ''no header''), jl_to_log = (\<lambda>_. Inl ''no log''), jl_to_logs = (\<lambda>_. Inl ''no logs'')\<rparr>"

definition demo_contracts :: "nat contract_abi" where
  "demo_contracts =
     \<lparr>v3_swap_sig = 1, v3_swap = (\<lambda>_. None), v3_initialize_sig = 2, v3_initialize = (\<lambda>_. None), v3_mint_sig = 3, v3_mint = (\<lambda>_. None),
      v3_burn_sig = 4, v3_burn = (\<lambda>_. None), v4_swap_sig = 5, v4_swap = (\<lambda>_. None), v4_initialize_sig = 6, v4_initialize = (\<lambda>_. None),
      v4_modify_sig = 7, v4_modify = (\<lambda>_. None),
      v3_collect_sig = 8, v3_flash_sig = 9, v3_increase_observation_sig = 10, v3_set_fee_protocol_sig = 11, v3_collect_protocol_sig = 12,
      aggregate3_call = (\<lambda>_. []), aggregate3_returns = (\<lambda>data. Inr (map (\<lambda>_. (True, [])) data)),
      decimals_call = [1], decimals_returns = (\<lambda>_. Some 18), token0_call = [2], token0_returns = (\<lambda>_. Some 1),
      token1_call = [3], token1_returns = (\<lambda>_. Some 2), fee_call = [4], fee_returns = (\<lambda>_. Some 500),
      get_pool_call = (\<lambda>_ _ _. [5]), get_pool_returns = (\<lambda>_. Some 7), slot0_call = [6], slot0_returns = (\<lambda>_. None),
      liquidity_call = [7], liquidity_returns = (\<lambda>_. None), v4_slot0_call = (\<lambda>_. [8]), v4_slot0_returns = (\<lambda>_. None),
      v4_liquidity_call = (\<lambda>_. [9]), v4_liquidity_returns = (\<lambda>_. None)\<rparr>"

definition demo_world :: call_world where
  "demo_world = (\<lambda>_ _ _. (True, []))"

text \<open>The first call of a resolution asks for three values of the one pool, the second for the factory's answer.\<close>

definition demo_network :: "demo_json network" where
  "demo_network = \<lparr>nt_post = (\<lambda>i _ _ _. Inr \<lparr>hr_status = 200, hr_body = Inr ''ok'', hr_json = Inr (Batch (if i = 0 then 3 else 1))\<rparr>),
     nt_now = (\<lambda>_ _. 0), nt_others = (\<lambda>_ _ pool. pool)\<rparr>"

definition demo_endpoints :: chain_endpoints where
  "demo_endpoints = [(Ethereum, \<lparr>po_endpoints = [\<lparr>nd_url = ''a'', nd_label = ''only''\<rparr>], po_order = [0], po_cursor = 0, po_health = [healthy]\<rparr>)]"

lemma demo_honest: "honest_calls demo_world demo_network demo_json_lib demo_contracts"
proof -
  have "rs = map (\<lambda>c. demo_world block (mc_target c) (mc_call_data c)) calls"
    if "aggregate3_returns demo_contracts data = Inr rs" "length rs = length calls" for data rs block and calls :: "multicall_call list"
    using that by (intro nth_equalityI) (auto simp: demo_contracts_def demo_world_def)
  then show ?thesis unfolding honest_calls_def by blast
qed

lemma demo_resolution:
  "snd (fetch_pool_metadata demo_network demo_json_lib demo_contracts demo_endpoints Ethereum 0 {UniswapV3 7}) =
     Inr [(UniswapV3 7, Inr \<lparr>pm_token0 = 1, pm_token1 = 2, pm_fee = Tiered Fee500\<rparr>)]"
  by code_simp

theorem pool_metadata_confirmed_witness:
  "snd (fetch_pool_metadata demo_network demo_json_lib demo_contracts demo_endpoints Ethereum 0 {UniswapV3 7}) =
     Inr [(UniswapV3 7, Inr \<lparr>pm_token0 = 1, pm_token1 = 2, pm_fee = Tiered Fee500\<rparr>)] \<and>
   confirmed demo_world demo_contracts Ethereum 7 \<lparr>pm_token0 = 1, pm_token1 = 2, pm_fee = Tiered Fee500\<rparr>"
proof -
  obtain endpoints' where "fetch_pool_metadata demo_network demo_json_lib demo_contracts demo_endpoints Ethereum 0 {UniswapV3 7} =
      (endpoints', Inr [(UniswapV3 7, Inr \<lparr>pm_token0 = 1, pm_token1 = 2, pm_fee = Tiered Fee500\<rparr>)])"
    using demo_resolution by (metis prod.collapse)
  note confirmed = spec [OF spec [OF conjunct2 [OF pool_metadata_confirmed [OF demo_honest _ this]], of "UniswapV3 7"],
      of "\<lparr>pm_token0 = 1, pm_token1 = 2, pm_fee = Tiered Fee500\<rparr>"]
  then have "confirmed demo_world demo_contracts Ethereum 7 \<lparr>pm_token0 = 1, pm_token1 = 2, pm_fee = Tiered Fee500\<rparr>" by simp
  with demo_resolution show ?thesis by simp
qed

end
