(* ===== verification/UnresolvedPools.thy ===== *)
theory UnresolvedPools
  imports MetadataVerdicts RuntimeLaws
begin

text \<open>
  What becomes of a pool that a resolution leaves without a result. The kernel asks again in the very
  transition that takes the answer, without waiting for a tick; on the server, which has no service for
  version 4 pools, such a pool is asked for again without end while its block is canonical.
\<close>

section \<open>Requests for pools\<close>

fun pool_request :: "effect \<Rightarrow> get_pool_metadata issued_request option" where
  "pool_request (Request (PoolMetadata r)) = Some r"
| "pool_request _ = None"

definition pool_requests :: "effect list \<Rightarrow> get_pool_metadata issued_request list" where
  "pool_requests es = List.map_filter pool_request es"

lemma pool_requests_simps [simp]:
  "pool_requests [] = []"
  "pool_requests (xs @ ys) = pool_requests xs @ pool_requests ys"
  "pool_requests [e] = (case pool_request e of Some r \<Rightarrow> [r] | None \<Rightarrow> [])"
  by (simp_all add: pool_requests_def List.map_filter_def split: option.split)

lemma in_pool_requests: "r \<in> set (pool_requests es) \<longleftrightarrow> Request (PoolMetadata r) \<in> set es"
proof -
  have "pool_request e = Some r \<longleftrightarrow> e = Request (PoolMetadata r)" for e by (cases e rule: pool_request.cases) auto
  then show ?thesis by (force simp: pool_requests_def List.map_filter_def)
qed

text \<open>A scheduler of another kind neither asks for pools nor touches the requests for them.\<close>

definition quiet :: "(kernel_state \<times> effect list \<Rightarrow> kernel_state \<times> effect list) \<Rightarrow> bool" where
  "quiet f \<longleftrightarrow> (\<forall>x. pool_requests (snd (f x)) = pool_requests (snd x) \<and>
     rq_pool_metadata (ks_pending_requests (fst (f x))) = rq_pool_metadata (ks_pending_requests (fst x)))"

lemma quietD:
  "quiet f \<Longrightarrow> pool_requests (snd (f x)) = pool_requests (snd x)"
  "quiet f \<Longrightarrow> rq_pool_metadata (ks_pending_requests (fst (f x))) = rq_pool_metadata (ks_pending_requests (fst x))"
  unfolding quiet_def by blast+

lemma quiet_fold:
  assumes "\<And>x. quiet (f x)"
  shows "quiet (fold f xs)"
proof (induction xs)
  case (Cons x xs)
  show ?case unfolding quiet_def fold.simps comp_apply quietD [OF Cons.IH] quietD [OF assms] by simp
qed (simp add: quiet_def)

lemma quiet_issues:
  "quiet (issue block_logs_access BlockLogs p)" "quiet (issue token_metadata_access TokenMetadata q)"
  "quiet (issue pool_data_access PoolData d)"
  by (simp_all add: quiet_def issue_def issue_effect_def issue_request_def ids_issue_def access_defs split_beta Let_def)

lemma quiet_headers: "quiet schedule_missing_header_requests"
proof -
  let ?ask = "\<lambda>missing (s, effects). (let (requests, new_effects) = request_missing_header (ks_pending_requests s) (ks_tick s) missing
      in (s\<lparr>ks_pending_requests := requests\<rparr>, effects @ new_effects))"
  have "quiet (?ask missing)" for missing
    by (simp add: quiet_def request_missing_header_def issue_effect_def issue_request_def ids_issue_def access_defs split_beta Let_def)
  then have q: "quiet (fold ?ask hs)" for hs by (rule quiet_fold)
  show ?thesis
    unfolding quiet_def
  proof
    fix x :: "kernel_state \<times> effect list"
    show "pool_requests (snd (schedule_missing_header_requests x)) = pool_requests (snd x) \<and>
        rq_pool_metadata (ks_pending_requests (fst (schedule_missing_header_requests x))) = rq_pool_metadata (ks_pending_requests (fst x))"
      using quietD [OF q, of "missing_parents (ks_graph (fst x))" x]
      by (cases x) (simp only: schedule_missing_header_requests_def prod.case fst_conv)
  qed
qed

lemma quiet_logs: "quiet (schedule_unknown_canonical_log_requests B chain)"
proof -
  have q: "quiet (fold (\<lambda>h. issue block_logs_access BlockLogs (GetBlockLogs h)) hs)" for hs
    by (rule quiet_fold) (rule quiet_issues)
  show ?thesis unfolding quiet_def schedule_unknown_canonical_log_requests_def split_beta Let_def quietD [OF q] by simp
qed

lemma quiet_tokens: "quiet (schedule_unknown_canonical_token_metadata_requests chain cs)"
proof -
  have "pool_requests (snd (snd (fold (schedule_token_metadata_step chain) cs (u, x)))) = pool_requests (snd x) \<and>
      rq_pool_metadata (ks_pending_requests (fst (snd (fold (schedule_token_metadata_step chain) cs (u, x))))) =
        rq_pool_metadata (ks_pending_requests (fst x))" for u x
  proof (induction cs arbitrary: u x)
    case (Cons c cs)
    obtain u' x' where step: "schedule_token_metadata_step chain c (u, x) = (u', x')" by (metis surj_pair)
    then have "pool_requests (snd x') = pool_requests (snd x)"
      "rq_pool_metadata (ks_pending_requests (fst x')) = rq_pool_metadata (ks_pending_requests (fst x))"
      by (cases x; auto simp: schedule_token_metadata_step_def Let_def split_beta issue_def issue_effect_def
          issue_request_def ids_issue_def access_defs split: if_splits)+
    with Cons.IH [of u' x'] step show ?case by simp
  qed simp
  then show ?thesis
    by (simp add: quiet_def schedule_unknown_canonical_token_metadata_requests_def split_beta)
qed

lemma quiet_seeds: "quiet (schedule_finalized_pool_seed_requests chain)"
  using quietD [OF quiet_issues(3)]
  by (simp add: quiet_def schedule_finalized_pool_seed_requests_def split_beta Let_def)

section \<open>The scheduler of pools\<close>

text \<open>
  Its requests: every candidate that is neither known nor asked for is in exactly one of them, and nothing
  that was asked for before is in any.
\<close>

definition asks :: "protocol_pool_key \<Rightarrow> get_pool_metadata issued_request \<Rightarrow> bool" where
  "asks c r \<longleftrightarrow> c \<in> gpm_candidates (ir_request_payload r)"

lemma pool_step_requests:
  assumes "schedule_pool_metadata_step chain (h, cs) (u, s, es) = (u', s', es')"
  shows "ks_pool_registry s' = ks_pool_registry s \<and>
    (\<exists>new. pool_requests es' = pool_requests es @ new \<and> length new \<le> 1 \<and>
      (\<forall>r\<in>set new. \<forall>c. asks c r \<longleftrightarrow> c \<in> u' \<and> c \<notin> u) \<and> (new = [] \<longrightarrow> u' = u)) \<and>
    u \<subseteq> u' \<and> (\<forall>c\<in>cs. pool_is_known (ks_pool_registry s) chain c \<or> c \<in> u')"
  using assms
  by (auto simp: schedule_pool_metadata_step_def Let_def issue_def issue_effect_def split_beta asks_def split: if_splits)

lemma pool_fold_requests:
  assumes "fold (schedule_pool_metadata_step chain) xs (u, s, es) = (u', s', es')"
  shows "\<exists>new. pool_requests es' = pool_requests es @ new \<and> u \<subseteq> u' \<and>
    (\<forall>c. c \<in> u' - u \<longleftrightarrow> (\<exists>r\<in>set new. asks c r)) \<and>
    (\<forall>c r r'. r \<in> set new \<longrightarrow> r' \<in> set new \<longrightarrow> asks c r \<longrightarrow> asks c r' \<longrightarrow> r = r') \<and>
    (\<forall>(h, cs)\<in>set xs. \<forall>c\<in>cs. pool_is_known (ks_pool_registry s) chain c \<or> c \<in> u')"
  using assms
proof (induction xs arbitrary: u s es)
  case (Cons x xs)
  obtain h cs where x: "x = (h, cs)" by (cases x)
  obtain u1 s1 es1 where step: "schedule_pool_metadata_step chain (h, cs) (u, s, es) = (u1, s1, es1)" by (metis prod.exhaust)
  from Cons.prems have rest: "fold (schedule_pool_metadata_step chain) xs (u1, s1, es1) = (u', s', es')" by (simp add: x step)
  from pool_step_requests [OF step] obtain new where new: "pool_requests es1 = pool_requests es @ new" "length new \<le> 1"
      "\<forall>r\<in>set new. \<forall>c. asks c r \<longleftrightarrow> c \<in> u1 \<and> c \<notin> u" "new = [] \<longrightarrow> u1 = u"
    and one: "ks_pool_registry s1 = ks_pool_registry s" "u \<subseteq> u1" "\<forall>c\<in>cs. pool_is_known (ks_pool_registry s) chain c \<or> c \<in> u1"
    by blast
  from Cons.IH [OF rest] obtain later where later: "pool_requests es' = pool_requests es1 @ later" "u1 \<subseteq> u'"
      "\<forall>c. c \<in> u' - u1 \<longleftrightarrow> (\<exists>r\<in>set later. asks c r)"
      "\<forall>c r r'. r \<in> set later \<longrightarrow> r' \<in> set later \<longrightarrow> asks c r \<longrightarrow> asks c r' \<longrightarrow> r = r'"
      "\<forall>(h, cs)\<in>set xs. \<forall>c\<in>cs. pool_is_known (ks_pool_registry s1) chain c \<or> c \<in> u'"
    by blast
  have "(\<exists>r\<in>set new. asks c r) \<longleftrightarrow> c \<in> u1 - u" for c using new(2-4) by (cases new) auto
  moreover have "r = r'" if "r \<in> set new" "r' \<in> set new" for r r' using that new(2) by (cases new) auto
  ultimately show ?case
    using new(1) one later by (intro exI [of _ "new @ later"]) (auto simp: x; blast)
qed simp

definition canonical_candidates :: "blocks_graph \<Rightarrow> protocol_pool_key set" where
  "canonical_candidates g = \<Union> (snd ` set (pool_log_candidates_from_head g))"

lemma pending_pools_cong:
  "rq_pool_metadata r = rq_pool_metadata r' \<Longrightarrow> pending_pool_metadata_candidates r = pending_pool_metadata_candidates r'"
  by (simp add: pending_pool_metadata_candidates_def)

lemma schedule_asks:
  assumes "c \<in> canonical_candidates (ks_graph s)" "\<not> pool_is_known (ks_pool_registry s) chain c"
    and "c \<notin> pending_pool_metadata_candidates (ks_pending_requests s)"
    and "schedule_unknown_canonical_requests B chain (s, []) = (s', es')"
  shows "\<exists>r. Request (PoolMetadata r) \<in> set es' \<and> asks c r \<and>
    (\<forall>r'. Request (PoolMetadata r') \<in> set es' \<longrightarrow> asks c r' \<longrightarrow> r' = r)"
proof -
  let ?start = "\<lambda>x. schedule_unknown_canonical_log_requests B chain (schedule_missing_header_requests x)"
  obtain requests es1 where first: "?start (s, []) = (s\<lparr>ks_pending_requests := requests\<rparr>, es1)"
    by (rule only_issuesE [OF only_issues_comp [OF only_issues_headers only_issues_logs]])
  have before: "pool_requests es1 = []" "rq_pool_metadata requests = rq_pool_metadata (ks_pending_requests s)"
    using quietD [OF quiet_logs, of B chain "schedule_missing_header_requests (s, [])"] quietD [OF quiet_headers, of "(s, [])"] first
    by simp_all
  let ?pending = "pending_pool_metadata_candidates requests"
  obtain u' s2 es2 where fold: "fold (schedule_pool_metadata_step chain) (pool_log_candidates_from_head (ks_graph s))
      (?pending, s\<lparr>ks_pending_requests := requests\<rparr>, es1) = (u', s2, es2)"
    by (metis prod.exhaust)
  have "schedule_unknown_canonical_requests B chain (s, []) = schedule_finalized_pool_seed_requests chain
      (schedule_unknown_canonical_token_metadata_requests chain (pool_log_candidates_from_head (ks_graph s)) (s2, es2))"
    using first fold
    by (simp add: schedule_unknown_canonical_requests_def schedule_unknown_canonical_pool_metadata_requests_def split_beta Let_def)
  then have "es' = snd (schedule_finalized_pool_seed_requests chain
      (schedule_unknown_canonical_token_metadata_requests chain (pool_log_candidates_from_head (ks_graph s)) (s2, es2)))"
    using assms(4) by (metis snd_conv)
  then have last: "pool_requests es' = pool_requests es2" by (simp add: quietD [OF quiet_seeds] quietD [OF quiet_tokens])
  from pool_fold_requests [OF fold] obtain new where new: "pool_requests es2 = new"
      "c \<in> u' - ?pending \<longleftrightarrow> (\<exists>r\<in>set new. asks c r)"
      "\<forall>r r'. r \<in> set new \<longrightarrow> r' \<in> set new \<longrightarrow> asks c r \<longrightarrow> asks c r' \<longrightarrow> r = r'"
      "\<forall>(h, cs)\<in>set (pool_log_candidates_from_head (ks_graph s)). \<forall>c\<in>cs. pool_is_known (ks_pool_registry s) chain c \<or> c \<in> u'"
    by (auto simp: before(1))
  from new(4) assms(1,2) have "c \<in> u'" by (fastforce simp: canonical_candidates_def)
  moreover have "c \<notin> ?pending" using assms(3) pending_pools_cong [OF before(2)] by simp
  ultimately obtain r where "r \<in> set new" "asks c r" using new(2) by blast
  then show ?thesis using new(1,3) last by (metis in_pool_requests)
qed

section \<open>A pool without a result\<close>

lemma known_unaffected:
  assumes "c \<notin> fst ` set results"
  shows "pool_is_known (pool_with_metadata_results reg chain results) chain c \<longleftrightarrow> pool_is_known reg chain c"
  using assms
proof (induction results arbitrary: reg)
  case (Cons e results)
  obtain k r where e: "e = (k, r)" by (cases e)
  have "pool_is_known (pool_result_step chain (k, r) reg) chain c \<longleftrightarrow> pool_is_known reg chain c"
    using Cons.prems by (cases r) (auto simp: e pool_is_known_def verified_pool_def is_rejected_def hm_contains_def)
  with Cons show ?case by (simp add: e pool_with_metadata_results_def)
qed (simp add: pool_with_metadata_results_def)

text \<open>
  A kernel waits for a pool under the id i: the pool was seen in a log of a canonical block, is neither
  verified nor rejected, and is in one request in flight, i.
\<close>

definition waits_for :: "chain_key \<Rightarrow> protocol_pool_key \<Rightarrow> request_id \<Rightarrow> kernel_state \<Rightarrow> bool" where
  "waits_for chain c i s \<longleftrightarrow>
     requests_ok (ks_pending_requests s) \<and> c \<in> canonical_candidates (ks_graph s) \<and>
     \<not> pool_is_known (ks_pool_registry s) chain c \<and>
     (\<exists>q. (PoolMetadataId i, PoolMetadataP q) \<in> ledger_entries (ks_pending_requests s) \<and> c \<in> gpm_candidates q) \<and>
     (\<forall>j q. (PoolMetadataId j, PoolMetadataP q) \<in> ledger_entries (ks_pending_requests s) \<longrightarrow> c \<in> gpm_candidates q \<longrightarrow> j = i)"

lemma pool_entry: "(PoolMetadataId j, PoolMetadataP q) \<in> ledger_entries r \<longleftrightarrow> (\<exists>p. (j, p) \<in> set (rq_pool_metadata r) \<and> pp_payload p = q)"
  by (force simp: ledger_entries_def coll_entries_def image_iff)

lemma pending_pool_entry:
  "c \<in> pending_pool_metadata_candidates r \<longleftrightarrow> (\<exists>j q. (PoolMetadataId j, PoolMetadataP q) \<in> ledger_entries r \<and> c \<in> gpm_candidates q)"
  by (force simp: pending_pool_metadata_candidates_def coll_values_def pool_entry)

lemma in_flight_pool_entry:
  assumes "PoolMetadataP q \<in># in_flight r"
  shows "\<exists>j. (PoolMetadataId j, PoolMetadataP q) \<in> ledger_entries r"
proof -
  from assms obtain j p where "(j, p) \<in> set (rq_pool_metadata r)" "pp_payload p = q"
    by (auto simp: in_flight_def coll_payloads_def)
  then show ?thesis by (auto simp: pool_entry)
qed

text \<open>After an event that answers the request, whatever is in flight for the pool was emitted by the event.\<close>

lemma fresh_pool_entry:
  assumes "waits_for chain c i s" "transition B chain s e = (s', es)" "answered_key e = Some (PoolMetadataId i)"
    and "(PoolMetadataId j, PoolMetadataP q) \<in> ledger_entries (ks_pending_requests s')" "c \<in> gpm_candidates q"
  shows "\<exists>r. Request (PoolMetadata r) \<in> set es \<and> asks c r \<and> ir_request_id r = j"
proof -
  have "(PoolMetadataId j, PoolMetadataP q) \<notin> unanswered e (ks_pending_requests s)"
    using assms(1,3,5) by (auto simp: unanswered_def waits_for_def)
  then have "(PoolMetadataId j, PoolMetadataP q) \<in> entry_of ` set es"
    using transition_entries [of B chain s e] assms(2,4) by auto
  then obtain f where f: "f \<in> set es" "entry_of f = (PoolMetadataId j, PoolMetadataP q)" by force
  obtain request where request: "f = Request request" by (cases f)
  obtain r where "request = PoolMetadata r"
    using f(2) by (cases request) (auto simp: request entry_of_def request_entry_def)
  with f request assms(5) show ?thesis by (intro exI [of _ r]) (auto simp: entry_of_def request_entry_def asks_def)
qed

lemma waits_again:
  assumes waits: "waits_for chain c i s" and res: "transition B chain s e = (s', es)"
    and answered: "answered_key e = Some (PoolMetadataId i)"
    and kept: "ks_graph s' = ks_graph s" "pool_is_known (ks_pool_registry s') chain c \<longleftrightarrow> pool_is_known (ks_pool_registry s) chain c"
    and r: "Request (PoolMetadata r) \<in> set es" "asks c r"
    and unique: "\<And>r'. Request (PoolMetadata r') \<in> set es \<Longrightarrow> asks c r' \<Longrightarrow> r' = r"
    and room: "uint (rq_ids (ks_pending_requests s)) + int (length es) + int (pending_len (ks_pending_requests s)) < 2 ^ 64"
  shows "waits_for chain c (ir_request_id r) s'"
proof -
  from transition_in_flight [OF _ res room] waits have ok: "requests_ok (ks_pending_requests s')"
    and flying: "all_in_flight (ks_pending_requests s') es" by (auto simp: waits_for_def)
  have id: "j = ir_request_id r" if "(PoolMetadataId j, PoolMetadataP q) \<in> ledger_entries (ks_pending_requests s')" "c \<in> gpm_candidates q" for j q
    using fresh_pool_entry [OF waits res answered that] unique by blast
  from flying r(1) obtain j where j: "(PoolMetadataId j, PoolMetadataP (ir_request_payload r)) \<in> ledger_entries (ks_pending_requests s')"
    using in_flight_pool_entry by (fastforce simp: all_in_flight_def)
  show ?thesis
    unfolding waits_for_def using ok id j r(2) waits kept id [OF j] by (auto simp: waits_for_def asks_def)
qed

lemma waiting_entry:
  assumes "waits_for chain c i s"
  obtains p where "map_of (rq_pool_metadata (ks_pending_requests s)) i = Some p" "c \<in> gpm_candidates (pp_payload p)"
  using assms by (auto simp: waits_for_def pool_entry requests_ok_def coll_ok_def hm_wf_in_set)

lemma asked_again:
  assumes waits: "waits_for chain c i s" and "c \<notin> fst ` set results"
    and res: "transition B chain s (PoolMetadataReceived i results) = (s', es)"
    and room: "uint (rq_ids (ks_pending_requests s)) + int (length es) + int (pending_len (ks_pending_requests s)) < 2 ^ 64"
  shows "\<exists>r. Request (PoolMetadata r) \<in> set es \<and> asks c r \<and> waits_for chain c (ir_request_id r) s'"
proof -
  obtain p where p: "map_of (rq_pool_metadata (ks_pending_requests s)) i = Some p" by (rule waiting_entry [OF waits])
  let ?taken = "fst (take_request pool_metadata_access (ks_pending_requests s) i)"
  let ?s = "accept_pool_metadata chain results (pp_payload p) (s\<lparr>ks_pending_requests := ?taken\<rparr>)"
  have kept: "ks_pending_requests ?s = ?taken" "ks_graph ?s = ks_graph s"
    "pool_is_known (ks_pool_registry ?s) chain c \<longleftrightarrow> pool_is_known (ks_pool_registry s) chain c"
    using assms(2) by (simp_all add: accept_pool_metadata_def) (auto intro!: known_unaffected)
  have "snd (take_request pool_metadata_access (ks_pending_requests s) i) = Some p"
    using p by (simp add: take_request_def coll_remove_def access_defs)
  then have step: "schedule_unknown_canonical_requests B chain (?s, []) = (s', es)"
    using res by (simp add: transition_def answer_def split_beta Let_def)
  have "c \<notin> pending_pool_metadata_candidates ?taken"
    using waits pool_metadata_entries.taken_entries [of "ks_pending_requests s" i]
    by (fastforce simp: pending_pool_entry waits_for_def)
  with schedule_asks [OF _ _ _ step, of c] waits kept obtain r where r: "Request (PoolMetadata r) \<in> set es" "asks c r"
    and unique: "\<And>r'. Request (PoolMetadata r') \<in> set es \<Longrightarrow> asks c r' \<Longrightarrow> r' = r"
    by (auto simp: waits_for_def)
  obtain requests where "s' = ?s\<lparr>ks_pending_requests := requests\<rparr>"
    using only_issuesD [OF only_issues_schedule, of B chain ?s "[]"] step by auto
  then show ?thesis using waits_again [OF waits res _ _ _ r unique room] r kept by auto
qed

lemma asked_again_failed:
  assumes waits: "waits_for chain c i s"
    and res: "transition B chain s (RequestFailed (PoolMetadataId i)) = (s', es)"
    and room: "uint (rq_ids (ks_pending_requests s)) + int (length es) + int (pending_len (ks_pending_requests s)) < 2 ^ 64"
  shows "\<exists>r. Request (PoolMetadata r) \<in> set es \<and> asks c r \<and> waits_for chain c (ir_request_id r) s'"
proof -
  obtain p where p: "map_of (rq_pool_metadata (ks_pending_requests s)) i = Some p" "c \<in> gpm_candidates (pp_payload p)"
    by (rule waiting_entry [OF waits])
  have "snd (take_request pool_metadata_access (ks_pending_requests s) i) = Some p"
    using p(1) by (simp add: take_request_def coll_remove_def access_defs)
  then obtain requests new where "retry (ks_pending_requests s) (PoolMetadataId i) (ks_tick s) =
      (requests, Some (PoolMetadata \<lparr>ir_request_id = new, ir_request_payload = pp_payload p\<rparr>))"
    by (auto simp: retry_typed_def retry_request_def split_beta split: prod.splits)
  with res have es: "es = [Request (PoolMetadata \<lparr>ir_request_id = new, ir_request_payload = pp_payload p\<rparr>)]"
    and s': "s' = s\<lparr>ks_pending_requests := requests\<rparr>" by (simp_all add: transition_def)
  let ?r = "\<lparr>ir_request_id = new, ir_request_payload = pp_payload p\<rparr>"
  have "asks c ?r" using p(2) by (simp add: asks_def)
  moreover have "waits_for chain c (ir_request_id ?r) s'"
    by (rule waits_again [OF waits res _ _ _ _ \<open>asks c ?r\<close> _ room]) (simp_all add: es s')
  ultimately show ?thesis using es by (metis list.set_intros(1))
qed

section \<open>The server and version 4 pools\<close>

lemma decoded_keys:
  "decode_candidates A candidates results rejected inputs = (rejected', inputs') \<Longrightarrow>
     fst ` set rejected' \<subseteq> fst ` set rejected \<union> set candidates \<and> fst ` set inputs' \<subseteq> fst ` set inputs \<union> set candidates"
proof (induction candidates arbitrary: results rejected inputs)
  case (Cons c candidates)
  let ?read = "decode_pool_metadata_candidate_result A (result_at (take 3 results) 0) (result_at (take 3 results) 1) (result_at (take 3 results) 2)"
  show ?case
  proof (cases ?read)
    case (Inl e)
    with Cons.prems have "decode_candidates A candidates (drop 3 results) (AList.update c (Inl e) rejected) inputs = (rejected', inputs')"
      by (simp add: Let_def)
    from Cons.IH [OF this] show ?thesis by (auto simp: AList.dom_update)
  next
    case (Inr m)
    with Cons.prems have "decode_candidates A candidates (drop 3 results) rejected (inputs @ [(c, m)]) = (rejected', inputs')"
      by (simp add: Let_def)
    from Cons.IH [OF this] show ?thesis by auto
  qed
qed simp

text \<open>Whatever the network answers, the RPC resolution has no result for a version 4 pool.\<close>

lemma v4_left_out:
  assumes "fetch_pool_metadata N L A endpoints chain at candidates = (endpoints', Inr r)"
  shows "UniswapV4 p \<notin> fst ` set r"
proof (cases "candidates = {}")
  case False
  have v3: "UniswapV4 p \<notin> set (sorted_pool_candidate_addresses candidates)"
    using sorted_wanted [of "Set.filter (\<lambda>candidate. uniswap_v3_address candidate \<noteq> None) candidates"]
    by (auto simp: sorted_pool_candidate_addresses_def)
  from fetched_pools [OF assms False] obtain results rejected inputs answers
    where decoded: "decode_pool_metadata_candidate_results A (sorted_pool_candidate_addresses candidates) results = (rejected, inputs)"
      and r: "r = rejected \<or> r = hm_extend rejected (decode_pool_metadata_factory_results A inputs answers)"
    by metis
  have "map fst (map (\<lambda>(index, c, m). (c, decode_pool_metadata_factory_result A c m (result_at answers index))) (enumerate 0 inputs)) =
      map (fst \<circ> snd) (enumerate 0 inputs)" by (simp add: split_beta)
  also have "\<dots> = map fst inputs" unfolding map_map [symmetric] map_snd_enumerate ..
  finally have "fst ` set (decode_pool_metadata_factory_results A inputs answers) = fst ` set inputs"
    unfolding decode_pool_metadata_factory_results_def hm_collect_def hm_extend_keys
    by (metis list.set_map list.set(1) image_empty sup_bot_left)
  moreover have "fst ` set rejected \<subseteq> set (sorted_pool_candidate_addresses candidates)"
    "fst ` set inputs \<subseteq> set (sorted_pool_candidate_addresses candidates)"
    using decoded_keys [OF decoded [unfolded decode_pool_metadata_candidate_results_def]] by simp_all
  ultimately have "fst ` set r \<subseteq> set (sorted_pool_candidate_addresses candidates)"
    using r by (metis Un_least hm_extend_keys)
  with v3 show ?thesis by blast
qed (use assms in \<open>simp add: fetch_pool_metadata_def\<close>)

lemma no_row_no_hit:
  "load_hits key read table ks hits = Inr r \<Longrightarrow> map_of table (key c) = None \<Longrightarrow> c \<notin> fst ` set hits \<Longrightarrow> c \<notin> fst ` set r"
proof (induction ks arbitrary: hits)
  case (Cons k ks)
  show ?case
  proof (cases "map_of table (key k)")
    case None
    with Cons show ?thesis by simp
  next
    case (Some bs)
    with Cons.prems(1) obtain m where m: "load_hits key read table ks (AList.update k m hits) = Inr r"
      by (auto split: sum.splits)
    have "c \<notin> fst ` set (AList.update k m hits)"
      using Cons.prems(2,3) Some unfolding AList.dom_update by auto
    from Cons.IH [OF m Cons.prems(2) this] show ?thesis .
  qed
qed simp

lemma resolved_without:
  assumes "cached_pool_metadata J lf sf chain wanted fetch db = (db', Inr r)"
    and "\<And>ks r. fetch ks = Inr r \<Longrightarrow> c \<notin> fst ` set r" "map_of (db_pools db) (pool_key chain c) = None"
  shows "c \<notin> fst ` set r"
proof -
  have "c \<notin> fst ` set (loaded_or_empty (load_pool_metadata J lf db chain wanted))"
    using assms(3) no_row_no_hit [of "pool_key chain" "js_pool_from J" "db_pools db" "sorted_list_of_set wanted" "[]" _ c]
    by (cases lf; cases "load_hits (pool_key chain) (js_pool_from J) (db_pools db) (sorted_list_of_set wanted) []")
      (simp_all add: loaded_or_empty_def load_pool_metadata_def)
  moreover obtain fetched where "fetch (cache_misses wanted (loaded_or_empty (load_pool_metadata J lf db chain wanted))) = Inr fetched"
    "r = with_hits fetched (loaded_or_empty (load_pool_metadata J lf db chain wanted))"
    using assms(1) unfolding cached_pool_metadata_def by (elim cached_metadata_cases) auto
  ultimately show ?thesis using assms(2) by (auto simp: with_hits_def hm_extend_keys image_image split_beta)
qed

lemma row_stays_absent:
  assumes "cached_pool_metadata J lf sf chain wanted fetch db = (db', outcome)"
    and "\<And>ks r. fetch ks = Inr r \<Longrightarrow> c \<notin> fst ` set r" "map_of (db_pools db) (pool_key chain c) = None"
  shows "map_of (db_pools db') (pool_key chain c) = None"
proof -
  have "map_of (db_pools (fst (store_pool_metadata J sf chain fetched db))) (pool_key chain c) = None"
    if "c \<notin> fst ` set fetched" for fetched
  proof -
    have "c \<notin> fst ` set (successes fetched)" using that in_successes by force
    note kept = pool_rows.store_keeps [OF _ this, of chain "js_pool_to J" "db_pools db"]
    from assms(3) show ?thesis
      by (cases sf; cases "store_entries (pool_key chain) (js_pool_to J) (successes fetched) (db_pools db)")
        (simp_all add: store_pool_metadata_def kept)
  qed
  with assms(2,3) show ?thesis using assms(1) unfolding cached_pool_metadata_def by (elim cached_metadata_cases) auto
qed

text \<open>
  The server never settles a version 4 pool, and does not rest either. Let a server's kernel wait for a
  version 4 pool that a canonical block's log named and that the cache has no row for. Whatever the network
  and the database do when the request is executed, folding the answer emits, in the same transition and
  without a tick or a new block, another request for the pool, the kernel waits for that one and the cache
  still has no row: the server is back where it was. When only version 4 pools are missing, the execution
  makes no call, so that nothing slows the circle down.
\<close>

lemma v4_pool_asked_without_end:
  assumes "waits_for CHAIN (UniswapV4 p) i s" "map_of (db_pools db) (pool_key CHAIN (UniswapV4 p)) = None"
    and "ir_request_id request = i"
    and "\<And>at ks. rp_pool_metadata (re_rpc E) at ks = snd (fetch_pool_metadata (N at ks) L A endpoints CHAIN at ks)"
    and "execute_kernel_request E (PoolMetadata request) db = (db', e)" "transition B CHAIN s e = (s', es)"
    and "uint (rq_ids (ks_pending_requests s)) + int (length es) + int (pending_len (ks_pending_requests s)) < 2 ^ 64"
  shows "map_of (db_pools db') (pool_key CHAIN (UniswapV4 p)) = None \<and>
    (\<exists>r. Request (PoolMetadata r) \<in> set es \<and> UniswapV4 p \<in> gpm_candidates (ir_request_payload r) \<and>
       waits_for CHAIN (UniswapV4 p) (ir_request_id r) s')"
proof -
  let ?payload = "ir_request_payload request"
  have none: "rp_pool_metadata (re_rpc E) at ks = Inr r \<Longrightarrow> UniswapV4 p \<notin> fst ` set r" for at ks r
    using v4_left_out by (metis assms(4) prod.collapse)
  obtain outcome where resolved: "cached_pool_metadata (re_json E) (cf_load_pools (re_faults E)) (cf_store_pools (re_faults E)) CHAIN
      (gpm_candidates ?payload) (rp_pool_metadata (re_rpc E) (gpm_at ?payload)) db = (db', outcome)"
    and e: "e = (case outcome of Inr m \<Rightarrow> PoolMetadataReceived i m | Inl err \<Rightarrow> request_failed (PoolMetadataId i) err)"
    using assms(3,5) by (auto simp: execute_kernel_request_def server_fetchers_def Let_def split: prod.splits)
  have "\<exists>r. Request (PoolMetadata r) \<in> set es \<and> asks (UniswapV4 p) r \<and> waits_for CHAIN (UniswapV4 p) (ir_request_id r) s'"
  proof (cases outcome)
    case (Inl err)
    with e assms(6) asked_again_failed [OF assms(1) _ assms(7)] show ?thesis by (simp add: request_failed_def)
  next
    case (Inr m)
    have "UniswapV4 p \<notin> fst ` set m"
      by (rule resolved_without [OF resolved [unfolded Inr] _ assms(2)]) (rule none)
    then show ?thesis using asked_again [OF assms(1) _ _ assms(7)] e assms(6) Inr by simp
  qed
  moreover have "map_of (db_pools db') (pool_key CHAIN (UniswapV4 p)) = None"
    by (rule row_stays_absent [OF resolved _ assms(2)]) (rule none)
  ultimately show ?thesis by (auto simp: asks_def)
qed

end
