(* ===== verification/Spec2Isabelle.thy ===== *)
theory Spec2Isabelle
  imports EndpointLaws AdmissionLaws LogBatch KernelLaws RestartLaws Server MultiChainLaws OptimizerLaws WorkerLaws EngineTrace ServeLaws
    RangeLaws UnresolvedPools
begin

text \<open>
  A model of the state machines of armchair-analyst: the pure cores under
  src/core/crates that follow several EVM chains, keep the liquidity pools of
  each one up to date and hand them to the optimizer. The effects those cores
  emit (RPC calls, timers, HTTP) are run by code outside them and come back as
  events, so every component here is a function from a state and an event to a
  state and a list of effects.

  The parts, in the order in which the code builds on them:

    Prelude             saturating arithmetic, stable sorts and the lookup laws
                        of association lists that stand for the hash maps
    Chain               client-evm chain.rs, tick.rs, uniswap_v3.rs, uniswap_v4.rs:
                        the chain enum, slugs, depths, deployed addresses
    PoolTypes           pool_state.rs and the types of the registries: pool keys,
                        references, states, metadata, their orders
    RequestTracking     request_tracking.rs: the generic ledger of in-flight
                        requests, and the locale request_store it promises
    PendingRequests     kernel/pending_requests.rs: one collection per request type
    Registries          kernel/pool_registry.rs, token_registry.rs,
                        metadata_catalog.rs, token_whitelist.rs
    PoolLog             pool_log.rs: decoding over an abstract ABI decoder, and the
                        fold of decoded events into a pool state
    BlocksGraph         kernel/blocks_graph.rs, first half: the tree above the
                        anchor, pending blocks, admission, logs of a block
    GraphInvariants     the tree contract that every graph operation keeps, and the
                        refinement of insertion into a flat block map
    Finalization        blocks_graph.rs, second half: foldable prefix, re-anchoring,
                        folds over chains, ranges without logs
    FinalizationLaws    finalization is transparent to the folds above the anchor
    Kernel, Scheduling  kernel/mod.rs: state, events, effects, schedulers, the
                        transition; the laws of each scheduler
    KernelLaws          the kernel invariant over every run and its consequences
    Machines            the locale of a machine with events, its runs and invariant
    Bootstrap           bootstrap/mod.rs, bootstrap/pending_requests.rs: the phases
                        that load a chain before its kernel runs
    BootstrapLaws       the machine of bootstrap: one request per phase, the
                        deadline, the seed it infers
    Server              aa-server core.rs: the server's lifecycle around one
                        kernel, and its refinement to that kernel
    TickMath, TickLaws  tick_math.rs: the price of a tick on 256-bit words, its
                        range and strict growth, the tick range of a spacing
    PoolMath            pool_state.rs: virtual reserves and the swap limits of the
                        current tick range
    LosslessReplay      lossless_replay.rs and the plan types of the optimizer: the
                        exact integer replay of a plan over the pools it names
    MultiChain          multi_chain_kernel.rs and pool_reserves.rs: one lifecycle
                        per chain, activation with replay of buffered data, the
                        gate and the merge of the optimizer's input
    MultiChainLaws      the chains are independent; each lifecycle is a reachable
                        bootstrap or a reachable kernel

    RoutingFilter       optimization routing_filter.rs and the whitelist of execution.rs:
                        the multigraph of pools, bridges and the demand edge, the
                        stripping to its 2-core, the component of the source
    RoutingLaws         the loops compute that component exactly; the locale
                        multigraph over any token order
    PlanReplay          optimization plan.rs, replay.rs and the flow records of
                        model.rs: a plan of flows and its replay in floats
    PlanLaws            the cells of a plan; when its replay fails
    ReserveProjection   multi_chain_kernel.rs: the reserves of one pool, which the server's
                        side and the client share
    OptimizerRunner     optimization execution.rs: configuration, sessions, steps and
                        the runner, over the tensor model as a parameter
    OptimizerLaws       the errors of a step, the invariant of a session
    Wire                aa-wire lib.rs, the parsing of its text fields (aa-client-core
                        lib.rs) and their rendering (aa-server serve.rs)
    ClientCore          aa-client-core lib.rs, pending.rs, state.rs, and the start in
                        runtime.rs: catalog, projection, ledger and reducer
    ClientLaws          the catalog's partition, what the session hands on, retries,
                        polling
    OptimizerWorker     aa-client-core latest_slot.rs, optimizer.rs and aa-cli
                        optimization.rs: the mailbox and the two workers
    WorkerLaws          the mailbox coalesces; when the command line's worker ends
    Engine              aa-client-core runtime.rs over aa-framework framework.rs: the
                        interleaving of loop, effects, clock, user and worker, and
                        the invariant of every reachable engine
    EngineTrace         a reachable engine that shows a plan of another route
    Serve               aa-server serve.rs: the published snapshot, the payloads, the
                        routing of requests
    ServeLaws           what is served of a pool; of the kernel's own projection the client
                        reads exactly the part whose pools the overlay holds
    Endpoints           client-evm endpoints.rs, error.rs, client/subscription.rs: the weighted
                        rotation over the providers of a chain, their health, the failover
                        of one request, the assembly of the pools
    EndpointLaws        the rotation is fair, a pick avoids endpoints that cool down, a request
                        tries every endpoint once before it fails
    MetadataCache       client/metadata_cache.rs and the resolvers of aa-server runtime.rs and
                        aa-cli app.rs: keys, loads, stores, and the resolution through them
    CacheLaws           the locale keyed_table of a table under injective keys, interpreted for
                        pools and tokens; the cache is transparent
    EntryLedger         the locale entry_ledger of a ledger of requests seen as a set of entries:
                        what taking, issuing and retrying does to it
    LedgerEntries       entry_store over it, interpreted for each collection of the kernel's ledger:
                        after an event an entry is new or was not answered by it
    RestartLaws         the ids of the requests before and after a re-initialisation, and what a
                        late answer does under a reused id
    RegistryRules       what the registries hold after an event, under any predicates that the
                        results in the event satisfy
    ServerRuntime       aa-server runtime.rs: what each effect of the server feeds back, the seed of
                        a warm start, the heads of the stream, the publication of snapshots
    RuntimeLaws         the runs of the server beside its runtime, with faults and restarts: nothing
                        awaited is lost, only vouched metadata enters, a warm start restores
    Tokens              client-evm tokens.rs: the addresses of the tokens the sessions name
    CliRuntime          aa-cli app.rs: what each effect of the multi-chain state feeds back, the
                        whitelist's gate, the backoff of reconnections, the optimizer's session
    MultiEntries        the ledgers of bootstraps and of the chains' lifecycles as entries
    CliRuntimeLaws      the runs of the terminal program: no chain waits in vain; the backoff
    AdmissionLaws       only pools on the whitelist are ever verified in those runs
    LogBatch            client/subscription.rs, client/client_effects.rs: consolidation of streamed
                        logs per window, which the block graph cannot tell from single deliveries
    JsonRpc             client/client_utils.rs: the requests, the envelope of an answer, the answers
                        of single calls and the grouping of a range's logs by block
    RpcFetch            client/client_effects.rs and client/multicall3.rs: a request with failover,
                        aggregated calls in chunks, batches and windows, blocks and ranges of logs
    RpcMetadata         client/client_effects.rs: metadata and state of pools and tokens by
                        aggregated calls
    RpcLaws             aggregated calls bring the results of the calls in their order
    RangeLaws           a range of logs read in windows is the range
    MetadataVerdicts    a pool's metadata is what its contract says and the factory confirms
    UnresolvedPools     what the kernel does with a pool that a resolution leaves without a result

  How they meet. A bootstrap ends in an outcome that activates a kernel; the
  server runs one such kernel, the multi-chain state one lifecycle per chain.
  The server publishes its kernel's overlay and catalog; the client reads both
  from the wire, projects them into reserves and pushes them through the mailbox
  to the worker that runs the optimizer's sessions.
  The locale of Machines (a start, a transition, the events it accepts and an
  invariant they keep) is interpreted seven times, for the kernel, the bootstrap,
  the server, the multi-chain state, the optimizer's runner, the client's session and
  the command line's worker, so that reachability and runs are proved once. The engine
  is a step relation with an invariant by rule induction, and so are the runs of the server beside
  its runtime, where the execution of an effect is one step, and the
  runs of the terminal program over all chains. The locale request_store, and entry_store, which extends it
  by entry_ledger, are interpreted for each collection of the kernel's ledger of in-flight requests,
  boot_store, which extends the same entry_ledger, for each of the bootstrap's, keyed_table for both tables of the cache, the locale multigraph for the graph of tokens.

  Conventions. Hashes, addresses and bloom filters are words of their width;
  block numbers, ticks and request ids are 64-bit words with the wrap-around or
  saturation of the source written out; Rust's HashMap and BTreeMap are
  association lists with distinct keys (a BTreeMap kept sorted). Sorting by a
  hash map's iteration order is avoided: the code sorts before it emits.
  Parameters stand for code outside src/ and for floating point: the bloom test
  of a header, the ABI decoder, the hash of a bridged gap, the conversions of
  amounts to floats, the scaling of a float weight to an integer, the arithmetic of floats (float_ops),
  the tensor model (model_ops), the text of addresses, hashes and wide integers (wire_ops; codec_laws
  states that reading inverts writing, and a hexadecimal codec proves it can), the text of JSON
  (serve_ops), JSON values with their readers (json_lib), encoded contract calls (contract_abi), what the network
  answers (network) and the text of errors (worker_env). Loops that walk a parent chain have the
  size of the graph as fuel; connected_walk and its lemmas show it is enough.
  Panics are the expect calls of the source whose condition is an invariant
  proved here, and are written as the option they unwrap; in the arithmetic of
  ticks and swap limits an outer None is a panic of the checked operation and the
  theorems show where it cannot occur.

  Not modelled: the sockets and the HTTP transport on both sides, the frames of a subscription before their
  logs, the subgraph of version 4 pools, the terminal program's views, log lines and configuration file, token vetting and the FFI stubs, which are input and output; the tensor model of the
  optimizer, which is floating point over an external library, and the probe for a GPU; threads below
  the granularity of a step of the engine (a pass of the worker, an effect, a fold of an event are
  atomic, which the locks and channels of the source justify); the generators of the kernel's tests.
\<close>

end
